(* ===== verification/Prelude.thy ===== *)
theory Prelude
  imports Main "HOL-Library.Word" "HOL-Library.Monad_Syntax"
begin

text \<open>
  What every component theory shares: the names of the machine types, the collections of
  rewrite rules the proofs draw on, and generic lemmas on lists, options and words.

  Conventions of the whole development:
  \<^item> a C function that can run into undefined behaviour or a crash (an access outside an
    array, a read of an uninitialised object, a signal raised by the processor) has a result
    of type \<open>option\<close>, and \<open>None\<close> is exactly that outcome; every error the code handles
    is a value of another type (a sum, a return code, a flag of the state);
  \<^item> machine integers keep their width (\<open>8 word\<close>, \<open>32 word\<close>, \<open>64 word\<close>) wherever the code
    can make them wrap;
  \<^item> C character data are \<open>char list\<close> (\<open>string\<close>), one \<open>char\<close> per byte; binary data are
    lists of \<open>8 word\<close>.
\<close>

type_synonym u8 = "8 word"
type_synonym u16 = "16 word"
type_synonym u32 = "32 word"
type_synonym u64 = "64 word"
type_synonym s64 = "64 word"

named_theorems flags "evaluation of the option and state flag words"
named_theorems inv_intros "introduction rules for the invariants of the components"
named_theorems frame "fields an operation leaves alone"

subsection \<open>Option\<close>

lemma bind_Some_iff: "Option.bind m f = Some y \<longleftrightarrow> (\<exists>x. m = Some x \<and> f x = Some y)"
  by (cases m) auto

lemma bind_Inr_iff:
  "Option.bind m (\<lambda>r. case r of Inl e \<Rightarrow> Some (Inl e) | Inr x \<Rightarrow> f x) = Some (Inr y)
   \<longleftrightarrow> (\<exists>x. m = Some (Inr x) \<and> f x = Some (Inr y))"
  by (auto simp: bind_Some_iff split: sum.split_asm)

subsection \<open>Lists\<close>

definition write_at :: "'a list \<Rightarrow> nat \<Rightarrow> 'a list \<Rightarrow> 'a list" where
  \<comment> \<open>\<open>memcpy (xs + i, ys, length ys)\<close> inside an array: the bytes before and after stay.\<close>
  "write_at xs i ys = take i xs @ ys @ drop (i + length ys) xs"

lemma length_write_at [simp]:
  "i + length ys \<le> length xs \<Longrightarrow> length (write_at xs i ys) = length xs"
  by (simp add: write_at_def)

lemma take_write_at_le: "j \<le> i \<Longrightarrow> i \<le> length xs \<Longrightarrow> take j (write_at xs i ys) = take j xs"
  by (simp add: write_at_def min_def)

lemma take_write_at_end:
  "i \<le> length xs \<Longrightarrow> take (i + length ys) (write_at xs i ys) = take i xs @ ys"
  by (simp add: write_at_def)

lemma write_at_Nil [simp]: "i \<le> length xs \<Longrightarrow> write_at xs i [] = xs"
  by (simp add: write_at_def)

lemma nth_write_at:
  assumes "i + length ys \<le> length xs" "j < length xs"
  shows "write_at xs i ys ! j =
    (if j < i then xs ! j else if j < i + length ys then ys ! (j - i) else xs ! j)"
  using assms by (auto simp: write_at_def nth_append min_def)

subsection \<open>Checked access\<close>

definition rd :: "'a list \<Rightarrow> nat \<Rightarrow> 'a option" where
  "rd xs i = (if i < length xs then Some (xs ! i) else None)"

definition wr :: "'a list \<Rightarrow> nat \<Rightarrow> 'a \<Rightarrow> 'a list option" where
  "wr xs i x = (if i < length xs then Some (xs[i := x]) else None)"

lemma rd_in [simp]: "i < length xs \<Longrightarrow> rd xs i = Some (xs ! i)" by (simp add: rd_def)
lemma wr_in [simp]: "i < length xs \<Longrightarrow> wr xs i x = Some (xs[i := x])" by (simp add: wr_def)

subsection \<open>Words\<close>

lemma unat_minus_1: "unat x = Suc n \<Longrightarrow> unat (x - 1) = n" for x :: "'a::len word"
  by (metis diff_Suc_1 nat.distinct(1) unat_0 unat_minus_one)

lemma unat_plus_1: "unat x = n \<Longrightarrow> Suc n < 2 ^ LENGTH('a) \<Longrightarrow> unat (x + 1) = Suc n" for x :: "'a::len word"
  by (simp add: unat_word_ariths)

lemma sint_unat_small: "unat x < 2 ^ 31 \<Longrightarrow> sint x = int (unat x)" for x :: "32 word"
proof -
  assume "unat x < 2 ^ 31"
  then have "uint x < 2 ^ 31" by (metis uint_nat of_nat_less_numeral_power_cancel_iff)
  moreover have "- (2 ^ 31) \<le> uint x" by (rule order_trans[of _ 0]) simp_all
  ultimately show ?thesis by (simp add: sint_uint signed_take_bit_int_eq_self_iff)
qed

end
