(* ===== verification/C_String.thy ===== *)
theory C_String
  imports Prelude "HOL-Library.Char_ord" "HOL-Library.Sublist"
begin

text \<open>
  The C library's character functions that the programs use, on \<open>char list\<close>: a buffer is
  the list of all its bytes, a C string is the part of it before the first NUL.
\<close>

abbreviation NUL :: char where "NUL \<equiv> CHR 0x00"

subsection \<open>Character classes (C locale)\<close>

definition is_space :: "char \<Rightarrow> bool" where
  "is_space c \<longleftrightarrow> c = CHR '' '' \<or> c \<in> {CHR 0x09, CHR 0x0A, CHR 0x0B, CHR 0x0C, CHR 0x0D}"

definition is_digit :: "char \<Rightarrow> bool" where
  "is_digit c \<longleftrightarrow> CHR ''0'' \<le> c \<and> c \<le> CHR ''9''"

definition is_upper :: "char \<Rightarrow> bool" where
  "is_upper c \<longleftrightarrow> CHR ''A'' \<le> c \<and> c \<le> CHR ''Z''"

definition is_lower :: "char \<Rightarrow> bool" where
  "is_lower c \<longleftrightarrow> CHR ''a'' \<le> c \<and> c \<le> CHR ''z''"

definition is_alpha :: "char \<Rightarrow> bool" where
  "is_alpha c \<longleftrightarrow> is_upper c \<or> is_lower c"

definition is_alnum :: "char \<Rightarrow> bool" where
  "is_alnum c \<longleftrightarrow> is_alpha c \<or> is_digit c"

definition digit_val :: "char \<Rightarrow> nat" where
  "digit_val c = of_char c - of_char CHR ''0''"

lemma NUL_classes [simp]:
  "\<not> is_space NUL" "\<not> is_digit NUL" "\<not> is_alpha NUL" "\<not> is_alnum NUL"
  by (simp_all add: is_space_def is_digit_def is_alpha_def is_alnum_def is_upper_def is_lower_def
      less_eq_char_def)

subsection \<open>Strings inside buffers\<close>

definition cstr_at :: "char list \<Rightarrow> nat \<Rightarrow> string option" where
  \<comment> \<open>The C string that starts at offset \<open>i\<close>; \<open>None\<close> when no NUL follows inside the buffer.\<close>
  "cstr_at buf i =
     (if NUL \<in> set (drop i buf) then Some (takeWhile (\<lambda>c. c \<noteq> NUL) (drop i buf)) else None)"

fun strstr :: "string \<Rightarrow> string \<Rightarrow> nat option" where
  \<comment> \<open>Offset of the first occurrence of the second string in the first.\<close>
  "strstr [] pat = (if pat = [] then Some 0 else None)"
| "strstr (c # s) pat =
     (if prefix pat (c # s) then Some 0 else map_option Suc (strstr s pat))"

lemma strstr_SomeD:
  "strstr s pat = Some k \<Longrightarrow> k \<le> length s \<and> prefix pat (drop k s)"
  by (induction s arbitrary: k) (auto split: if_splits)

lemma strstr_NoneD: "strstr s pat = None \<Longrightarrow> \<not> prefix pat (drop k s)"
proof (induction s arbitrary: k)
  case Nil
  then show ?case by (auto split: if_splits)
next
  case (Cons c s)
  then show ?case by (cases k) (auto split: if_splits)
qed

lemma length_takeWhile_less: "x \<in> set xs \<Longrightarrow> \<not> P x \<Longrightarrow> length (takeWhile P xs) < length xs"
  by (induction xs) auto

lemma cstr_at_Some: "cstr_at buf i = Some s \<Longrightarrow> i + length s < length buf \<and> NUL \<notin> set s"
  using length_takeWhile_less[of NUL "drop i buf" "\<lambda>c. c \<noteq> NUL"]
  by (auto simp: cstr_at_def dest: set_takeWhileD split: if_splits)

lemma cstr_at_write:
  assumes "NUL \<notin> set s" "i + length s < length buf"
  shows "cstr_at (write_at buf i (s @ [NUL])) i = Some s"
  using assms by (auto simp: cstr_at_def write_at_def takeWhile_append)

subsection \<open>Conversions of \<open>sscanf\<close>\<close>

type_synonym 'a scanner = "string \<Rightarrow> ('a \<times> string) option"

fun skip_spaces :: "string \<Rightarrow> string" where
  "skip_spaces [] = []"
| "skip_spaces (c # s) = (if is_space c then skip_spaces s else c # s)"

fun scan_digits :: "nat \<Rightarrow> string \<Rightarrow> nat \<times> string" where
  \<comment> \<open>The value of the leading digits, after those already read.\<close>
  "scan_digits n [] = (n, [])"
| "scan_digits n (c # s) = (if is_digit c then scan_digits (10 * n + digit_val c) s else (n, c # s))"

definition scan_sign :: "string \<Rightarrow> bool \<times> string" where
  "scan_sign s = (case s of [] \<Rightarrow> (False, [])
     | c # s' \<Rightarrow> if c = CHR ''-'' then (True, s') else if c = CHR ''+'' then (False, s') else (False, s))"

definition scan_d :: "int scanner" where
  \<comment> \<open>\<open>%d\<close>: white space, an optional sign, at least one digit.\<close>
  "scan_d s = (let (neg, s1) = scan_sign (skip_spaces s) in
     (case s1 of [] \<Rightarrow> None
      | c # _ \<Rightarrow> if is_digit c
          then (let (n, s2) = scan_digits 0 s1 in Some (if neg then - int n else int n, s2))
          else None))"

definition scan_lit :: "char \<Rightarrow> unit scanner" where
  "scan_lit c s = (case s of [] \<Rightarrow> None | d # s' \<Rightarrow> if c = d then Some ((), s') else None)"

definition scan_any :: "unit scanner" where
  \<comment> \<open>\<open>%*c\<close>: any one character, none skipped.\<close>
  "scan_any s = (case s of [] \<Rightarrow> None | _ # s' \<Rightarrow> Some ((), s'))"

definition scan_s :: "string scanner" where
  \<comment> \<open>\<open>%s\<close>: white space, then a non-empty run of other characters.\<close>
  "scan_s s = (let t = takeWhile (\<lambda>c. \<not> is_space c) (skip_spaces s) in
     if t = [] then None else Some (t, dropWhile (\<lambda>c. \<not> is_space c) (skip_spaces s)))"

lemma length_skip_spaces: "length (skip_spaces s) \<le> length s"
  by (induction s) auto

lemma length_scan_digits: "scan_digits n s = (m, r) \<Longrightarrow> length r \<le> length s"
  by (induction n s rule: scan_digits.induct) (auto split: if_splits)

lemma scan_s_token: "scan_s s = Some (t, r) \<Longrightarrow> t \<noteq> [] \<and> length t \<le> length s \<and> (\<forall>c \<in> set t. \<not> is_space c)"
  using length_skip_spaces[of s]
  by (auto simp: scan_s_def Let_def dest: set_takeWhileD split: if_splits intro: le_trans[OF length_takeWhile_le])

end
