(* ===== verification/Double_Arith.thy ===== *)
theory Double_Arith
  imports C_String Complex_Main
begin

text \<open>
  The \<open>double\<close> arithmetic of the C programs. The operations of the type are those of the
  processor and of the C library, so the programs are modelled over a record of them: each
  definition that computes with doubles takes the record as its first argument and applies
  the operations in the order of the source, so that it can be run with any rounding.
  \<open>real_fp\<close> is the instance with exact arithmetic, on which the numerical properties are
  stated; where a property needs only the order of the numbers it is proved in the locale
  \<open>fp_order\<close>, whose laws the finite doubles satisfy as well.
\<close>

record 'd fp =
  fp_add :: "'d \<Rightarrow> 'd \<Rightarrow> 'd"
  fp_sub :: "'d \<Rightarrow> 'd \<Rightarrow> 'd"
  fp_mul :: "'d \<Rightarrow> 'd \<Rightarrow> 'd"
  fp_div :: "'d \<Rightarrow> 'd \<Rightarrow> 'd"
  fp_sqrt :: "'d \<Rightarrow> 'd"
  fp_less :: "'d \<Rightarrow> 'd \<Rightarrow> bool"
  fp_of_int :: "int \<Rightarrow> 'd"               \<comment> \<open>conversion from an integer type\<close>
  fp_to_int :: "'d \<Rightarrow> int option"        \<comment> \<open>\<open>(int)\<close>, undefined outside the range of \<open>int\<close>\<close>
  fp_lit :: "int \<Rightarrow> int \<Rightarrow> 'd"           \<comment> \<open>the constant \<open>m * 10 ^ e\<close>\<close>
  fp_scan :: "string \<Rightarrow> ('d \<times> string) option"  \<comment> \<open>\<open>%lf\<close> and \<open>strtod\<close>\<close>

subsection \<open>Decimal notation\<close>

text \<open>White space, sign, digits with an optional point, optional exponent: the mantissa, the
  power of ten and the rest of the input.\<close>

definition scan_fraction :: "nat \<Rightarrow> string \<Rightarrow> nat \<times> nat \<times> string" where
  "scan_fraction n s = (case s of [] \<Rightarrow> (n, 0, [])
     | c # s' \<Rightarrow> if c = CHR ''.''
         then (let (m, r) = scan_digits n s' in (m, length s' - length r, r))
         else (n, 0, s))"

definition scan_exponent :: "string \<Rightarrow> int \<times> string" where
  "scan_exponent s = (case s of [] \<Rightarrow> (0, [])
     | c # s' \<Rightarrow> if c = CHR ''e'' \<or> c = CHR ''E''
         then (let (neg, t) = scan_sign s' in
               if t \<noteq> [] \<and> is_digit (hd t)
               then (let (n, r) = scan_digits 0 t in (if neg then - int n else int n, r))
               else (0, s))
         else (0, s))"

definition scan_decimal :: "string \<Rightarrow> ((int \<times> int) \<times> string) option" where
  "scan_decimal s =
     (let (neg, s1) = scan_sign (skip_spaces s);
          (n, s2) = scan_digits 0 s1;
          (m, k, s3) = scan_fraction n s2;
          nd = length s1 - length s2 + k
      in if nd = 0 then None
         else (let (e, s4) = scan_exponent s3
               in Some ((if neg then - int m else int m, e - int k), s4)))"

subsection \<open>Exact arithmetic\<close>

definition dec_value :: "int \<Rightarrow> int \<Rightarrow> real" where
  "dec_value m e = (if 0 \<le> e then of_int m * 10 ^ nat e else of_int m / 10 ^ nat (- e))"

definition real_to_int :: "real \<Rightarrow> int option" where
  \<comment> \<open>Truncation towards zero, when the result is an \<open>int\<close>.\<close>
  "real_to_int x = (let i = (if 0 \<le> x then \<lfloor>x\<rfloor> else \<lceil>x\<rceil>) in
     if - (2 ^ 31) \<le> i \<and> i < 2 ^ 31 then Some i else None)"

definition real_fp :: "real fp" where
  "real_fp = \<lparr>fp_add = (+), fp_sub = (-), fp_mul = (*), fp_div = (/), fp_sqrt = sqrt,
     fp_less = (<), fp_of_int = of_int, fp_to_int = real_to_int, fp_lit = dec_value,
     fp_scan = (\<lambda>s. map_option (\<lambda>((m, e), r). (dec_value m e, r)) (scan_decimal s))\<rparr>"

lemma real_fp_sel [simp]:
  "fp_add real_fp = (+)" "fp_sub real_fp = (-)" "fp_mul real_fp = (*)" "fp_div real_fp = (/)"
  "fp_sqrt real_fp = sqrt" "fp_less real_fp = (<)" "fp_of_int real_fp = of_int"
  "fp_to_int real_fp = real_to_int" "fp_lit real_fp = dec_value"
  "fp_scan real_fp = (\<lambda>s. map_option (\<lambda>((m, e), r). (dec_value m e, r)) (scan_decimal s))"
  by (simp_all add: real_fp_def)

subsection \<open>The order, as an interface\<close>

text \<open>Comparison of doubles without NaN: asymmetric, with a transitive complement.\<close>

locale fp_order =
  fixes lt :: "'d \<Rightarrow> 'd \<Rightarrow> bool"
  assumes lt_asym: "lt a b \<Longrightarrow> \<not> lt b a"
    and nlt_trans: "\<not> lt a b \<Longrightarrow> \<not> lt b c \<Longrightarrow> \<not> lt a c"
begin

lemma lt_irrefl: "\<not> lt a a"
  using lt_asym by blast

text \<open>The running minimum and maximum that the programs keep: no element beyond the bound, and
  the bound is the start value or an element.\<close>

definition upd_min :: "'d \<Rightarrow> 'd \<Rightarrow> 'd" where
  "upd_min m x = (if lt x m then x else m)"

definition upd_max :: "'d \<Rightarrow> 'd \<Rightarrow> 'd" where
  "upd_max m x = (if lt m x then x else m)"

lemma upd_min_below: "\<not> lt x (upd_min m x)" "\<not> lt y m \<Longrightarrow> \<not> lt y (upd_min m x)"
  using nlt_trans[OF _ lt_asym, of y m x] by (simp_all add: upd_min_def lt_irrefl)

lemma upd_max_above: "\<not> lt (upd_max m x) x" "\<not> lt m y \<Longrightarrow> \<not> lt (upd_max m x) y"
  using nlt_trans[OF lt_asym, of m x y] by (simp_all add: upd_max_def lt_irrefl)

lemma foldl_upd_min:
  "\<not> lt m (foldl upd_min m xs)" "x \<in> set xs \<Longrightarrow> \<not> lt x (foldl upd_min m xs)"
  "foldl upd_min m xs \<in> insert m (set xs)"
proof -
  show "\<not> lt m (foldl upd_min m xs)"
    by (induction xs rule: rev_induct) (use upd_min_below lt_irrefl in auto)
  show "x \<in> set xs \<Longrightarrow> \<not> lt x (foldl upd_min m xs)"
    by (induction xs rule: rev_induct) (use upd_min_below in auto)
  show "foldl upd_min m xs \<in> insert m (set xs)"
    by (induction xs rule: rev_induct) (auto simp: upd_min_def)
qed

lemma foldl_upd_max:
  "\<not> lt (foldl upd_max m xs) m" "x \<in> set xs \<Longrightarrow> \<not> lt (foldl upd_max m xs) x"
  "foldl upd_max m xs \<in> insert m (set xs)"
proof -
  show "\<not> lt (foldl upd_max m xs) m"
    by (induction xs rule: rev_induct) (use upd_max_above lt_irrefl in auto)
  show "x \<in> set xs \<Longrightarrow> \<not> lt (foldl upd_max m xs) x"
    by (induction xs rule: rev_induct) (use upd_max_above in auto)
  show "foldl upd_max m xs \<in> insert m (set xs)"
    by (induction xs rule: rev_induct) (auto simp: upd_max_def)
qed

end

interpretation real_order: fp_order "fp_less real_fp"
  rewrites "fp_less real_fp = (<)"
  by unfold_locales auto

end
