(* ===== verification/Statstool_Data.thy ===== *)
theory Statstool_Data
  imports Double_Arith
begin

unbundle bit_operations_syntax

text \<open>
  The data sets of \<open>statstool/statstool.c\<close> and their statistics: the sample list of a test
  run (\<open>point_t\<close>, \<open>data_t\<close>, \<open>data_append_point\<close>), the trapezium integral, duration,
  average and deviation of a run (\<open>data_analyse\<close>) and of a series of runs
  (\<open>calc_average_stddev\<close>), with everything these functions print.
\<close>

subsection \<open>Flags and sizes\<close>

definition MAX_TEST_RUNS :: int where "MAX_TEST_RUNS = 128"

definition STATE_TEST_BEGIN :: u32 where "STATE_TEST_BEGIN = 0x1"
definition STATE_TEST_RUN_BEGIN :: u32 where "STATE_TEST_RUN_BEGIN = 0x2"

definition DATA_STATS_INTEGRAL :: nat where "DATA_STATS_INTEGRAL = 0"
definition DATA_STATS_DURATION :: nat where "DATA_STATS_DURATION = 1"
definition DATA_STATS_AVERAGE_CURRENT :: nat where "DATA_STATS_AVERAGE_CURRENT = 2"
definition DATA_STATS_STD_DEV :: nat where "DATA_STATS_STD_DEV = 3"
definition DATA_STATS_MAX :: nat where "DATA_STATS_MAX = 4"

definition OPTS_EXTRACT_RESULTS :: u32 where "OPTS_EXTRACT_RESULTS = 0x1"
definition OPTS_TABBED_COLUMNS :: u32 where "OPTS_TABBED_COLUMNS = 0x2"
definition OPTS_STATS_ALL_SAMPLES :: u32 where "OPTS_STATS_ALL_SAMPLES = 0x4"
definition OPTS_TAGGED_OUTPUT :: u32 where "OPTS_TAGGED_OUTPUT = 0x8"
definition OPTS_STATS_SUMMARY :: u32 where "OPTS_STATS_SUMMARY = 0x10"
definition OPTS_STATS_PER_TEST :: u32 where "OPTS_STATS_PER_TEST = 0x20"
definition OPTS_DEFAULT :: u32 where "OPTS_DEFAULT = 0x0"

lemmas flag_defs [flags] = STATE_TEST_BEGIN_def STATE_TEST_RUN_BEGIN_def OPTS_EXTRACT_RESULTS_def
  OPTS_TABBED_COLUMNS_def OPTS_STATS_ALL_SAMPLES_def OPTS_TAGGED_OUTPUT_def
  OPTS_STATS_SUMMARY_def OPTS_STATS_PER_TEST_def OPTS_DEFAULT_def

lemmas stat_index_defs = DATA_STATS_INTEGRAL_def DATA_STATS_DURATION_def
  DATA_STATS_AVERAGE_CURRENT_def DATA_STATS_STD_DEV_def DATA_STATS_MAX_def

definition has :: "u32 \<Rightarrow> u32 \<Rightarrow> bool" where
  \<comment> \<open>\<open>w & f\<close> as a condition.\<close>
  "has w f \<longleftrightarrow> w AND f \<noteq> 0"

subsection \<open>Output\<close>

text \<open>A call of \<open>printf\<close> or \<open>fprintf\<close> is an event: the stream, the format and the arguments.
  In a format, \<open>/t\<close> and \<open>/n\<close> stand for the escapes of the C literal.\<close>

datatype 'd arg = AInt int | ADbl 'd | AStr string
datatype stream = Stdout | Stderr | OutFile string
type_synonym 'd printed = "(stream \<times> string \<times> 'd arg list) list"

fun esc :: "string \<Rightarrow> string" where
  "esc [] = []"
| "esc [c] = [c]"
| "esc (c # d # s) =
     (if c = CHR ''/'' \<and> d = CHR ''n'' then CHR 0x0A # esc s
      else if c = CHR ''/'' \<and> d = CHR ''t'' then CHR 0x09 # esc s
      else c # esc (d # s))"

subsection \<open>Sample lists\<close>

type_synonym 'd point_t = "'d \<times> 'd"

record 'd data_t =
  x_min :: 'd
  x_max :: 'd
  y_min :: 'd
  y_max :: 'd
  points :: "'d point_t list"   \<comment> \<open>the list from \<open>head\<close> to \<open>tail\<close>\<close>
  stats :: "'d list"
  samples :: int

definition data_append_point :: "'d data_t \<Rightarrow> 'd point_t \<Rightarrow> 'd data_t" where
  "data_append_point d p = d\<lparr>points := points d @ [p], samples := samples d + 1\<rparr>"

subsection \<open>Statistics\<close>

fun integral_loop :: "'d fp \<Rightarrow> 'd \<Rightarrow> 'd point_t list \<Rightarrow> 'd" where
  "integral_loop A acc [] = acc"
| "integral_loop A acc [p] = acc"
| "integral_loop A acc (p # q # ps) =
     (let dt = fp_sub A (fst q) (fst p);
          y = fp_div A (fp_add A (snd p) (snd q)) (fp_lit A 2 0)
      in integral_loop A (fp_add A acc (fp_mul A y dt)) (q # ps))"

fun deviation_loop :: "'d fp \<Rightarrow> 'd \<Rightarrow> 'd \<Rightarrow> int \<Rightarrow> 'd point_t list \<Rightarrow> 'd \<times> int" where
  "deviation_loop A avg tot n [] = (tot, n)"
| "deviation_loop A avg tot n [p] = (tot, n)"
| "deviation_loop A avg tot n (p # q # ps) =
     (let y = fp_div A (fp_add A (snd p) (snd q)) (fp_lit A 2 0);
          diff = fp_sub A y avg
      in deviation_loop A avg (fp_add A tot (fp_mul A diff diff)) (n + 1) (q # ps))"

definition run_stats :: "'d fp \<Rightarrow> 'd data_t \<Rightarrow> 'd data_t" where
  "run_stats A d =
     (let integral = integral_loop A (fp_lit A 0 0) (points d);
          duration = fp_sub A (x_max d) (x_min d);
          average = fp_div A integral duration;
          (tot, n) = deviation_loop A average (fp_lit A 0 0) 0 (points d);
          std_dev = fp_sqrt A (fp_div A tot (fp_of_int A n))
      in d\<lparr>stats := [integral, duration, average, std_dev]\<rparr>)"

definition calc_average_stddev :: "'d fp \<Rightarrow> 'd data_t list \<Rightarrow> int \<Rightarrow> 'd list \<times> 'd list" where
  "calc_average_stddev A data n =
     (let average = map (\<lambda>j. fp_div A
            (foldl (\<lambda>tot d. fp_add A tot (stats d ! j)) (fp_lit A 0 0) data)
            (fp_of_int A n)) [0 ..< DATA_STATS_MAX];
          stddev = map (\<lambda>j. fp_sqrt A (fp_div A
            (foldl (\<lambda>tot d. let diff = fp_sub A (stats d ! j) (average ! j)
                              in fp_add A tot (fp_mul A diff diff)) (fp_lit A 0 0) data)
            (fp_of_int A n))) [0 ..< DATA_STATS_MAX]
      in (average, stddev))"

subsection \<open>The report\<close>

definition report_header :: "stream \<Rightarrow> u32 \<Rightarrow> 'd printed" where
  "report_header fp opts =
     (if \<not> has opts OPTS_TAGGED_OUTPUT \<and> has opts (OPTS_STATS_PER_TEST OR OPTS_STATS_SUMMARY)
      then if has opts OPTS_TABBED_COLUMNS
        then [(fp, esc ''/tIntegral/tDuration/tAverage/tStd.Dev/n'', []),
              (fp, esc ''/t/t(Secs)/t(mA)/t(mA)/n'', [])]
        else [(fp, esc ''                Integral  Duration   Average   Std.Dev./n'', []),
              (fp, esc ''                           (Secs)     (mA)       (mA)/n'', [])]
      else [])"

definition report_run :: "'d fp \<Rightarrow> stream \<Rightarrow> u32 \<Rightarrow> int \<Rightarrow> 'd data_t \<Rightarrow> 'd printed" where
  "report_run A fp opts i d =
     (if has opts OPTS_STATS_PER_TEST
      then if has opts OPTS_TAGGED_OUTPUT
        then [(fp, esc ''info:test_iteration:%d/n'', [AInt (i + 1)]),
              (fp, esc ''metric:test_duration_seconds_average:%f/n'',
                 [ADbl (stats d ! DATA_STATS_DURATION)]),
              (fp, esc ''metric:current_drawn_mA_average:%f/n'',
                 [ADbl (fp_mul A (fp_lit A 1000 0) (stats d ! DATA_STATS_AVERAGE_CURRENT))]),
              (fp, esc ''metric:current_drawn_mA_stddev:%f/n'',
                 [ADbl (fp_mul A (fp_lit A 1000 0) (stats d ! DATA_STATS_STD_DEV))])]
        else [(fp, if has opts OPTS_TABBED_COLUMNS
                   then esc ''Test run %2d/t%8.4f/t%7.3f/t%8.4f/n/t%8.4f/n''
                   else esc ''Test run %2d     %8.4f    %7.3f  %8.4f  %8.4f/n'',
               [AInt (i + 1), ADbl (stats d ! DATA_STATS_INTEGRAL),
                ADbl (stats d ! DATA_STATS_DURATION),
                ADbl (fp_mul A (fp_lit A 1000 0) (stats d ! DATA_STATS_AVERAGE_CURRENT)),
                ADbl (fp_mul A (fp_lit A 1000 0) (stats d ! DATA_STATS_STD_DEV))])]
      else [])"

definition report_summary :: "'d fp \<Rightarrow> stream \<Rightarrow> u32 \<Rightarrow> int \<Rightarrow> 'd data_t list \<Rightarrow> 'd printed" where
  "report_summary A fp opts n data =
     (if has opts OPTS_STATS_SUMMARY
      then let (average, stddev) = calc_average_stddev A data n in
        if has opts OPTS_TAGGED_OUTPUT
        then [(fp, esc ''info:total_number_of_tests:%d/n'', [AInt n]),
              (fp, esc ''metric:test_duration_seconds_average:%f/n'',
                 [ADbl (average ! DATA_STATS_DURATION)]),
              (fp, esc ''metric:test_duration_seconds_stddev:%f/n'',
                 [ADbl (stddev ! DATA_STATS_DURATION)]),
              (fp, esc ''metric:current_drawn_mA_average:%f/n'',
                 [ADbl (fp_mul A (average ! DATA_STATS_AVERAGE_CURRENT) (fp_lit A 1000 0))]),
              (fp, esc ''metric:current_drawn_mA_stddev:%f/n'',
                 [ADbl (fp_mul A (stddev ! DATA_STATS_AVERAGE_CURRENT) (fp_lit A 1000 0))])]
        else
          (if \<not> has opts OPTS_TABBED_COLUMNS
           then [(fp, esc ''-------         --------    -------  --------/n'', [])] else [])
          @ [(fp, if has opts OPTS_TABBED_COLUMNS then esc ''Average/t%8.4f/t%7.3f/t%8.4f/n''
                  else esc ''Average         %8.4f    %7.3f  %8.4f/n'',
              [ADbl (average ! DATA_STATS_INTEGRAL), ADbl (average ! DATA_STATS_DURATION),
               ADbl (fp_mul A (fp_lit A 1000 0) (average ! DATA_STATS_AVERAGE_CURRENT))]),
             (fp, if has opts OPTS_TABBED_COLUMNS then esc ''Std.Dev./t%8.4f/t%7.3f/t%8.4f/n''
                  else esc ''Std.Dev.        %8.4f    %7.3f  %8.4f/n'',
              [ADbl (stddev ! DATA_STATS_INTEGRAL), ADbl (stddev ! DATA_STATS_DURATION),
               ADbl (fp_mul A (fp_lit A 1000 0) (stddev ! DATA_STATS_AVERAGE_CURRENT))])]
          @ (if \<not> has opts OPTS_TABBED_COLUMNS
             then [(fp, ''-------         --------    -------  --------'', [])] else [])
          @ [(fp, esc ''/n/n'', [])]
      else [])"

definition data_analyse ::
    "'d fp \<Rightarrow> stream \<Rightarrow> u32 \<Rightarrow> 'd data_t list \<Rightarrow> 'd data_t list \<times> 'd printed" where
  \<comment> \<open>\<open>data\<close> is \<open>data[0..n-1]\<close>; the runs with their statistics, and what is printed.\<close>
  "data_analyse A fp opts data =
     (let n = int (length data);
          data' = map (run_stats A) data
      in (data', report_header fp opts
            @ concat (map (\<lambda>(i, d). report_run A fp opts i d) (zip (map int [0 ..< length data]) data'))
            @ report_summary A fp opts n data'))"

end
