(* ===== verification/Statstool.thy ===== *)
theory Statstool
  imports Statstool_Data
begin

unbundle bit_operations_syntax

text \<open>
  The log reader of \<open>statstool/statstool.c\<close>: \<open>parse_timestamp\<close>, \<open>test_run_begin\<close>,
  \<open>test_run_end\<close>, the body and the loop of \<open>data_parse\<close>, and \<open>main\<close>.

  The line buffer is modelled with all its 4096 bytes, because the code looks at fixed offsets
  of it (27, 32, 34, 43) whatever the length of the line: a short line leaves the bytes of an
  earlier one behind its NUL, and these are what is read. What the buffer holds at first, the
  clock, the file system and the allocator are parameters (\<open>env\<close>).
\<close>

subsection \<open>The environment and the state\<close>

record tm =
  tm_year :: int
  tm_mon :: int
  tm_mday :: int
  tm_hour :: int
  tm_min :: int
  tm_sec :: int

record env =
  env_mktime :: "tm \<Rightarrow> int"              \<comment> \<open>in the time zone of the process\<close>
  env_read :: "string \<Rightarrow> string option"  \<comment> \<open>contents of a readable file\<close>
  env_creat :: "string \<Rightarrow> bool"          \<comment> \<open>does \<open>fopen(name, "w")\<close> succeed\<close>
  env_calloc :: "nat \<Rightarrow> bool"            \<comment> \<open>does the n-th \<open>calloc\<close> succeed\<close>
  env_junk :: "char list"                \<comment> \<open>the line buffer before the first line\<close>

record 'd globals =
  opts :: u32
  scale_by :: 'd

record 'd pstate =
  buffer :: "char list"
  data :: "nat \<rightharpoonup> 'd data_t"   \<comment> \<open>\<open>None\<close>: not initialised, or freed\<close>
  index :: int
  state :: u32
  hostname :: string
  kernel :: string
  test :: string
  arch :: "string option"   \<comment> \<open>\<open>None\<close>: not initialised\<close>
  start_secs :: 'd
  allocs :: nat
  out :: "'d printed"

definition emit :: "'d printed \<Rightarrow> 'd pstate \<Rightarrow> 'd pstate" where
  "emit ev s = s\<lparr>out := out s @ ev\<rparr>"

subsection \<open>Time stamps\<close>

definition scan_int :: "int scanner" where
  \<comment> \<open>\<open>%d\<close> into an \<open>int\<close>: out of its range the result is undefined.\<close>
  "scan_int s = do {
     (v, r) \<leftarrow> scan_d s;
     if - (2 ^ 31) \<le> v \<and> v < 2 ^ 31 then Some (v, r) else None }"

definition scan_date :: "(int \<times> int \<times> int \<times> int \<times> int) scanner" where
  \<comment> \<open>The format up to the seconds: \<open>%d-%d-%d%*c%d:%d:\<close>.\<close>
  "scan_date buf = do {
     (year, s) \<leftarrow> scan_int buf;
     (_, s) \<leftarrow> scan_lit CHR ''-'' s;
     (mon, s) \<leftarrow> scan_int s;
     (_, s) \<leftarrow> scan_lit CHR ''-'' s;
     (mday, s) \<leftarrow> scan_int s;
     (_, s) \<leftarrow> scan_any s;
     (hour, s) \<leftarrow> scan_int s;
     (_, s) \<leftarrow> scan_lit CHR '':'' s;
     (min, s) \<leftarrow> scan_int s;
     (_, s) \<leftarrow> scan_lit CHR '':'' s;
     Some ((year, mon, mday, hour, min), s) }"

definition parse_timestamp :: "'d fp \<Rightarrow> env \<Rightarrow> string \<Rightarrow> 'd option" where
  "parse_timestamp A E buf = do {
     ((year, mon, mday, hour, min), s) \<leftarrow> scan_date buf;
     (seconds, _) \<leftarrow> fp_scan A s;
     sec \<leftarrow> fp_to_int A seconds;
     let tm = \<lparr>tm_year = year, tm_mon = mon, tm_mday = mday, tm_hour = hour, tm_min = min,
               tm_sec = sec\<rparr>;
     Some (fp_add A (fp_sub A seconds (fp_of_int A sec))
                    (fp_of_int A (env_mktime E tm mod 2 ^ 32))) }"

subsection \<open>Test runs\<close>

definition empty_run :: "'d fp \<Rightarrow> 'd data_t" where
  "empty_run A = \<lparr>x_min = fp_lit A 1 6, x_max = fp_lit A (-1) 6,
     y_min = fp_lit A 1 6, y_max = fp_lit A (-1) 6, points = [],
     stats = replicate DATA_STATS_MAX (fp_lit A 0 0), samples = 0\<rparr>"

definition test_run_begin :: "'d fp \<Rightarrow> 'd pstate \<Rightarrow> int \<times> 'd pstate" where
  "test_run_begin A s =
     (let i = index s + 1 in
      if i \<ge> MAX_TEST_RUNS
      then (-1, emit [(Stderr, esc ''Too many test runs, maximum allowed %d/n'', [AInt MAX_TEST_RUNS])] s)
      else (0, s\<lparr>index := i, state := state s OR STATE_TEST_RUN_BEGIN,
                 data := (data s)(nat i \<mapsto> empty_run A)\<rparr>))"

definition test_run_end :: "'d pstate \<Rightarrow> 'd pstate" where
  "test_run_end s = s\<lparr>state := state s AND NOT STATE_TEST_RUN_BEGIN\<rparr>"

definition runs_of :: "'d pstate \<Rightarrow> 'd data_t list option" where
  \<comment> \<open>\<open>data[0]\<close> to \<open>data[index]\<close>, as \<open>data_analyse\<close> reads them.\<close>
  "runs_of s =
     (let xs = map (data s) [0 ..< nat (index s + 1)]
      in if None \<in> set xs then None else Some (map the xs))"

definition data_free :: "nat \<Rightarrow> 'd pstate \<Rightarrow> 'd pstate" where
  \<comment> \<open>The sample lists are freed: the runs may not be read again.\<close>
  "data_free n s = s\<lparr>data := (\<lambda>i. if i < n then None else data s i)\<rparr>"

subsection \<open>TAG lines\<close>

definition arch_of :: "string \<Rightarrow> string" where
  "arch_of b = (if prefix ''x86_64'' b then ''amd64'' else if prefix ''i'' b then ''i386'' else ''unknown'')"

definition store_token :: "nat \<Rightarrow> string \<Rightarrow> (string \<times> string) option option" where
  \<comment> \<open>One \<open>%s\<close> into an array of \<open>n\<close> bytes: no token (\<open>Some None\<close>), the token and the rest, or
      a token that does not fit (\<open>None\<close>).\<close>
  "store_token n s = (case scan_s s of None \<Rightarrow> Some None
     | Some (t, r) \<Rightarrow> if length t < n then Some (Some (t, r)) else None)"

definition tag_client :: "'d globals \<Rightarrow> nat \<Rightarrow> 'd pstate \<Rightarrow> 'd pstate option" where
  \<comment> \<open>\<open>off\<close> is the offset of \<open>s + 12\<close> in the buffer.\<close>
  "tag_client G off s = do {
     txt \<leftarrow> cstr_at (buffer s) off;
     let s = (if \<not> has (opts G) OPTS_EXTRACT_RESULTS
              then emit (if has (opts G) OPTS_TAGGED_OUTPUT
                         then [(Stdout, esc ''info:client:%s/n'', [AStr txt])]
                         else [(Stdout, esc ''Client: %s/n'', [AStr txt])]) s
              else s);
     t1 \<leftarrow> store_token 1024 txt;
     (case t1 of None \<Rightarrow> None | Some (h, r1) \<Rightarrow> do {
       t2 \<leftarrow> store_token 1024 r1;
       (case t2 of None \<Rightarrow> None | Some (k, r2) \<Rightarrow> do {
         t3 \<leftarrow> store_token 64 r2;
         (case t3 of None \<Rightarrow> None | Some (b, r3) \<Rightarrow>
            Some (s\<lparr>hostname := h, kernel := k, arch := Some (arch_of b)\<rparr>)) }) }) }"

definition tag_begin :: "'d globals \<Rightarrow> 'd pstate \<Rightarrow> 'd pstate option" where
  "tag_begin G s = do {
     txt \<leftarrow> cstr_at (buffer s) 43;
     let s = (if \<not> has (opts G) OPTS_EXTRACT_RESULTS
              then emit (if has (opts G) OPTS_TAGGED_OUTPUT
                         then [(Stdout, esc ''info:test-name:%s/n'', [AStr txt])]
                         else [(Stdout, esc ''Test:   %s/n'', [AStr txt])]) s
              else s);
     t1 \<leftarrow> store_token 1024 txt;
     let s = (case t1 of None \<Rightarrow> s | Some (t, _) \<Rightarrow> s\<lparr>test := t\<rparr>);
     Some (s\<lparr>state := state s OR STATE_TEST_BEGIN\<rparr>) }"

definition report_name :: "'d pstate \<Rightarrow> string \<Rightarrow> string" where
  \<comment> \<open>\<open>snprintf\<close> into \<open>PATH_MAX\<close> bytes.\<close>
  "report_name s a =
     take 4095 (hostname s @ ''-'' @ kernel s @ ''-'' @ test s @ ''-'' @ a @ ''.txt'')"

definition tag_report :: "'d fp \<Rightarrow> env \<Rightarrow> 'd globals \<Rightarrow> 'd pstate \<Rightarrow> 'd pstate option" where
  \<comment> \<open>At \<open>TEST_END\<close>: the analysis, into a file of its own with \<open>-x\<close>.\<close>
  "tag_report A E G s =
     (if has (opts G) OPTS_EXTRACT_RESULTS
      then do {
        a \<leftarrow> arch s;
        let name = report_name s a;
        if env_creat E name
        then do {
          rs \<leftarrow> runs_of s;
          Some (emit ([(OutFile name, esc ''%s %s (%s), %s/n/n'',
                  [AStr (hostname s), AStr (kernel s), AStr a, AStr (test s)])]
                @ snd (data_analyse A (OutFile name) (opts G) rs)) s) }
        else Some (emit [(Stderr, esc ''Cannot create %s/n'', [AStr name])] s) }
      else do {
        rs \<leftarrow> runs_of s;
        Some (emit (snd (data_analyse A Stdout (opts G) rs)) s) })"

definition tag_end :: "'d fp \<Rightarrow> env \<Rightarrow> 'd globals \<Rightarrow> 'd pstate \<Rightarrow> 'd pstate option" where
  "tag_end A E G s = do {
     s \<leftarrow> tag_report A E G (s\<lparr>state := state s AND NOT STATE_TEST_BEGIN\<rparr>);
     let s = data_free (nat (index s + 1)) s;
     Some (s\<lparr>hostname := [], kernel := [], test := [], index := -1\<rparr>) }"

definition handle_tag :: "'d fp \<Rightarrow> env \<Rightarrow> 'd globals \<Rightarrow> 'd pstate \<Rightarrow> 'd pstate option" where
  \<comment> \<open>\<open>ptr\<close> is \<open>buffer + 32\<close>.\<close>
  "handle_tag A E G s = do {
     ptr \<leftarrow> cstr_at (buffer s) 32;
     s \<leftarrow> (case strstr ptr ''TEST_CLIENT'' of
             None \<Rightarrow> Some s | Some k \<Rightarrow> tag_client G (32 + k + 12) s);
     s \<leftarrow> (if strstr ptr ''TEST_BEGIN'' \<noteq> None then tag_begin G s else Some s);
     s \<leftarrow> (if strstr ptr ''TEST_END'' \<noteq> None then tag_end A E G s else Some s);
     let s = (if strstr ptr ''TEST_RUN_BEGIN'' \<noteq> None then snd (test_run_begin A s) else s);
     Some (if strstr ptr ''TEST_RUN_END'' \<noteq> None then test_run_end s else s) }"

subsection \<open>SAMPLE lines\<close>

definition add_sample :: "'d fp \<Rightarrow> 'd data_t \<Rightarrow> 'd \<Rightarrow> 'd \<Rightarrow> 'd data_t" where
  "add_sample A d x y =
     (let d = (if fp_less A x (x_min d) then d\<lparr>x_min := x\<rparr> else d);
          d = (if fp_less A (x_max d) x then d\<lparr>x_max := x\<rparr> else d);
          d = (if fp_less A y (y_min d) then d\<lparr>y_min := y\<rparr> else d);
          d = (if fp_less A (y_max d) y then d\<lparr>y_max := y\<rparr> else d)
      in data_append_point d (x, y))"

lemma add_sample_fields:
  "points (add_sample A d x y) = points d @ [(x, y)]"
  "samples (add_sample A d x y) = samples d + 1"
  "x_min (add_sample A d x y) = (if fp_less A x (x_min d) then x else x_min d)"
  "x_max (add_sample A d x y) = (if fp_less A (x_max d) x then x else x_max d)"
  "y_min (add_sample A d x y) = (if fp_less A y (y_min d) then y else y_min d)"
  "y_max (add_sample A d x y) = (if fp_less A (y_max d) y then y else y_max d)"
  by (simp_all add: add_sample_def data_append_point_def Let_def)

definition auto_begin :: "'d fp \<Rightarrow> 'd globals \<Rightarrow> 'd pstate \<Rightarrow> 'd pstate" where
  \<comment> \<open>With \<open>-a\<close>, a sample outside a test run starts one.\<close>
  "auto_begin A G s =
     (if has (opts G) OPTS_STATS_ALL_SAMPLES \<and> \<not> has (state s) STATE_TEST_RUN_BEGIN
      then snd (test_run_begin A s) else s)"

definition store_sample :: "'d fp \<Rightarrow> 'd globals \<Rightarrow> 'd \<Rightarrow> 'd pstate \<Rightarrow> 'd pstate option" where
  \<comment> \<open>Fill in the new point and append it to \<open>data[index]\<close>.\<close>
  "store_sample A G sec s = do {
     txt \<leftarrow> cstr_at (buffer s) 34;
     let y = (case fp_scan A txt of None \<Rightarrow> fp_lit A 0 0 | Some (v, _) \<Rightarrow> v);
     let y = fp_mul A y (scale_by G);
     d \<leftarrow> (if index s < 0 then None else data s (nat (index s)));
     Some (s\<lparr>data := (data s)(nat (index s) \<mapsto> add_sample A d sec y)\<rparr>) }"

definition handle_sample ::
    "'d fp \<Rightarrow> env \<Rightarrow> 'd globals \<Rightarrow> 'd \<Rightarrow> 'd pstate \<Rightarrow> ('d pstate \<times> bool) option" where
  \<comment> \<open>The flag says whether the reading loop goes on (a failed \<open>calloc\<close> breaks it).\<close>
  "handle_sample A E G sec s0 =
     (let s = auto_begin A G s0 in
      if has (state s) STATE_TEST_RUN_BEGIN
      then (let ok = env_calloc E (allocs s); s' = s\<lparr>allocs := allocs s + 1\<rparr> in
        if \<not> ok
        then Some (emit [(Stderr, esc ''Out of memory allocating a data point/n'', [])] s', False)
        else map_option (\<lambda>s''. (s'', True)) (store_sample A G sec s'))
      else Some (s, True))"

subsection \<open>One line, and the loop\<close>

definition load_line :: "string \<Rightarrow> 'd pstate \<Rightarrow> 'd pstate option" where
  \<comment> \<open>\<open>fgets\<close> into the buffer, then \<open>buffer[strlen(buffer)-1] = '\0'\<close>.\<close>
  "load_line chunk s =
     (let b = write_at (buffer s) 0 (chunk @ [NUL]);
          n = length (takeWhile (\<lambda>c. c \<noteq> NUL) b)
      in if n = 0 then None else Some (s\<lparr>buffer := b[n - 1 := NUL]\<rparr>))"

definition start_clock :: "'d fp \<Rightarrow> 'd \<Rightarrow> 'd pstate \<Rightarrow> 'd pstate" where
  "start_clock A sec s =
     (if fp_less A (start_secs s) (fp_lit A 0 0) then s\<lparr>start_secs := sec\<rparr> else s)"

definition process_line ::
    "'d fp \<Rightarrow> env \<Rightarrow> 'd globals \<Rightarrow> string \<Rightarrow> 'd pstate \<Rightarrow> ('d pstate \<times> bool) option" where
  "process_line A E G chunk s = do {
     s \<leftarrow> load_line chunk s;
     txt \<leftarrow> cstr_at (buffer s) 0;
     sec \<leftarrow> parse_timestamp A E txt;
     let s = start_clock A sec s;
     let sec = fp_sub A sec (start_secs s);
     body \<leftarrow> cstr_at (buffer s) 27;
     s \<leftarrow> (if strstr body ''TAG:'' \<noteq> None then handle_tag A E G s else Some s);
     if strstr body ''SAMPLE:'' \<noteq> None then handle_sample A E G sec s else Some (s, True) }"

fun fgets :: "nat \<Rightarrow> string \<Rightarrow> string \<times> string" where
  \<comment> \<open>At most \<open>n\<close> characters, up to and with the first newline; the rest of the input.\<close>
  "fgets 0 inp = ([], inp)"
| "fgets (Suc n) [] = ([], [])"
| "fgets (Suc n) (c # inp) =
     (if c = CHR 0x0A then ([c], inp) else (let (l, r) = fgets n inp in (c # l, r)))"

lemma fgets_append: "fgets n inp = (l, r) \<Longrightarrow> inp = l @ r"
  by (induction n inp arbitrary: l r rule: fgets.induct) (auto split: if_splits prod.splits)

lemma fgets_length: "fgets n inp = (l, r) \<Longrightarrow> length l \<le> n"
  by (induction n inp arbitrary: l r rule: fgets.induct) (auto split: if_splits prod.splits)

lemma fgets_progress:
  assumes "inp \<noteq> []" "(l, r) = fgets 4095 inp"
  shows "length r < length inp"
proof -
  obtain c rest where inp: "inp = c # rest" using assms(1) by (cases inp) auto
  have "l \<noteq> []"
    using assms(2) fgets.simps(3)[of 4094 c rest]
    by (auto simp: inp split: if_splits prod.splits)
  then show ?thesis using fgets_append[OF assms(2)[symmetric]] by simp
qed

function read_loop ::
    "'d fp \<Rightarrow> env \<Rightarrow> 'd globals \<Rightarrow> string \<Rightarrow> 'd pstate \<Rightarrow> 'd pstate option" where
  "read_loop A E G inp s =
     (if inp = [] then Some s
      else (case fgets 4095 inp of (l, r) \<Rightarrow>
        (case process_line A E G l s of
           None \<Rightarrow> None
         | Some (s', go_on) \<Rightarrow> if go_on then read_loop A E G r s' else Some s')))"
  by pat_completeness auto
termination
  by (relation "measure (\<lambda>(A, E, G, inp, s). length inp)") (auto dest: fgets_progress)

declare read_loop.simps [simp del]

definition init_pstate :: "'d fp \<Rightarrow> env \<Rightarrow> 'd pstate" where
  "init_pstate A E = \<lparr>buffer = take 4096 (env_junk E @ replicate 4096 NUL), data = Map.empty,
     index = -1, state = 0, hostname = [], kernel = [], test = [], arch = None,
     start_secs = fp_lit A (-1) 0, allocs = 0, out = []\<rparr>"

definition data_parse ::
    "'d fp \<Rightarrow> env \<Rightarrow> 'd globals \<Rightarrow> string \<Rightarrow> (int \<times> 'd printed) option" where
  "data_parse A E G filename =
     (case env_read E filename of
        None \<Rightarrow> Some (-1, [])
      | Some content \<Rightarrow> do {
          s \<leftarrow> read_loop A E G content (init_pstate A E);
          if has (opts G) OPTS_STATS_ALL_SAMPLES \<and> has (state s) STATE_TEST_RUN_BEGIN
          then do {
            let s = test_run_end s;
            rs \<leftarrow> runs_of s;
            Some (0, out s @ snd (data_analyse A Stdout (opts G) rs)) }
          else Some (0, out s) })"

subsection \<open>Options and \<open>main\<close>\<close>

datatype exit_status = EXIT_SUCCESS | EXIT_FAILURE

definition show_help :: "string \<Rightarrow> 'd printed" where
  "show_help name =
     [(Stderr, esc ''Usage %s: [-h] [-x] [-t] [-a] [-T] [-S] [-s] [-X scale] logfile(s)/n'', [AStr name]),
      (Stderr, esc ''/t-h help/n'', []),
      (Stderr, esc ''/t-x extract per-test results and each to a file./n'', []),
      (Stderr, esc ''/t-t dump tabbed columns for importing data into a spreadsheet./n'', []),
      (Stderr, esc ''/t-a run stats on all the log, ignore any TAGs./n'', []),
      (Stderr, esc ''/t-T Tagged output (for autotest integration)./n'', []),
      (Stderr, esc ''/t-X Scale values by a given value./n'', []),
      (Stderr, esc ''/t-S Statistics summary for all test runs./n'', [])]"

definition getopt_step ::
    "'d fp \<Rightarrow> char \<Rightarrow> string \<Rightarrow> 'd globals \<Rightarrow> exit_status + 'd globals" where
  \<comment> \<open>One turn of the \<open>switch\<close>: the option letter and its argument (used by \<open>X\<close> only).\<close>
  "getopt_step A c optarg G =
     (if c = CHR ''h'' then Inl EXIT_SUCCESS
      else if c = CHR ''x'' then Inr (G\<lparr>opts := opts G OR OPTS_EXTRACT_RESULTS\<rparr>)
      else if c = CHR ''t'' then Inr (G\<lparr>opts := opts G OR OPTS_TABBED_COLUMNS\<rparr>)
      else if c = CHR ''a'' then Inr (G\<lparr>opts := opts G OR OPTS_STATS_ALL_SAMPLES\<rparr>)
      else if c = CHR ''T'' then Inr (G\<lparr>opts := opts G OR OPTS_TAGGED_OUTPUT\<rparr>)
      else if c = CHR ''X'' then
        Inr (G\<lparr>scale_by := (case fp_scan A optarg of None \<Rightarrow> fp_lit A 0 0 | Some (v, _) \<Rightarrow> v)\<rparr>)
      else if c = CHR ''s'' then Inr (G\<lparr>opts := opts G OR OPTS_STATS_SUMMARY\<rparr>)
      else if c = CHR ''S'' then Inr (G\<lparr>opts := opts G OR OPTS_STATS_PER_TEST\<rparr>)
      else Inl EXIT_FAILURE)"

fun getopt_loop :: "'d fp \<Rightarrow> (char \<times> string) list \<Rightarrow> 'd globals \<Rightarrow> exit_status + 'd globals" where
  "getopt_loop A [] G = Inr G"
| "getopt_loop A ((c, a) # os) G =
     (case getopt_step A c a G of Inl e \<Rightarrow> Inl e | Inr G' \<Rightarrow> getopt_loop A os G')"

definition default_opts :: "'d globals \<Rightarrow> 'd globals" where
  "default_opts G =
     (if \<not> has (opts G) (OPTS_STATS_SUMMARY OR OPTS_STATS_PER_TEST)
      then G\<lparr>opts := opts G OR (OPTS_STATS_SUMMARY OR OPTS_STATS_PER_TEST)\<rparr> else G)"

fun parse_files :: "'d fp \<Rightarrow> env \<Rightarrow> 'd globals \<Rightarrow> string list \<Rightarrow> 'd printed option" where
  "parse_files A E G [] = Some []"
| "parse_files A E G (f # fs) = do {
     (_, ev) \<leftarrow> data_parse A E G f;
     evs \<leftarrow> parse_files A E G fs;
     Some (ev @ evs) }"

definition main ::
    "'d fp \<Rightarrow> env \<Rightarrow> string \<Rightarrow> (char \<times> string) list \<Rightarrow> string list
      \<Rightarrow> (exit_status \<times> 'd printed) option" where
  \<comment> \<open>\<open>argv[0]\<close>, what \<open>getopt\<close> returns for the option arguments, and the other arguments.\<close>
  "main A E argv0 options files =
     (case getopt_loop A options \<lparr>opts = OPTS_DEFAULT, scale_by = fp_lit A 1 0\<rparr> of
        Inl e \<Rightarrow> Some (e, show_help argv0)
      | Inr G \<Rightarrow> do {
          evs \<leftarrow> parse_files A E (default_opts G) files;
          Some (EXIT_SUCCESS, evs) })"

end
