(* ===== verification/Statstool_Stats.thy ===== *)
theory Statstool_Stats
  imports Statstool
begin

text \<open>
  What \<open>statstool\<close> computes, in exact arithmetic: the running bounds of a run, the trapezium
  integral, the average and the deviations. The bounds rest on the locale \<open>fp_order\<close> of the
  double comparison, interpreted on the model's arithmetic.
\<close>

subsection \<open>A run is the list of its samples with its bounds\<close>

definition run_of :: "'d fp \<Rightarrow> 'd point_t list \<Rightarrow> 'd data_t" where
  \<comment> \<open>The run after \<open>test_run_begin\<close> and the samples, in the order of the log.\<close>
  "run_of A ps = foldl (\<lambda>d p. add_sample A d (fst p) (snd p)) (empty_run A) ps"

lemma run_of_points: "points (run_of A ps) = ps" "samples (run_of A ps) = int (length ps)"
  by (induction ps rule: rev_induct)
     (simp_all add: run_of_def add_sample_fields empty_run_def)

lemma run_of_bounds:
  "x_min (run_of real_fp ps) = foldl real_order.upd_min (10 ^ 6) (map fst ps)"
  "x_max (run_of real_fp ps) = foldl real_order.upd_max (- (10 ^ 6)) (map fst ps)"
  "y_min (run_of real_fp ps) = foldl real_order.upd_min (10 ^ 6) (map snd ps)"
  "y_max (run_of real_fp ps) = foldl real_order.upd_max (- (10 ^ 6)) (map snd ps)"
  by (induction ps rule: rev_induct)
     (simp_all add: run_of_def add_sample_fields empty_run_def dec_value_def
        real_order.upd_min_def real_order.upd_max_def)

lemma upd_min_is_Min:
  fixes xs :: "real list"
  assumes "xs \<noteq> []" "\<forall>x \<in> set xs. x \<le> m"
  shows "foldl real_order.upd_min m xs = Min (set xs)"
proof (rule sym, rule Min_eqI)
  have "foldl real_order.upd_min m xs \<noteq> m \<or> m \<in> set xs"
    using real_order.foldl_upd_min(2)[of "hd xs" xs m] assms by (cases xs) fastforce+
  then show "foldl real_order.upd_min m xs \<in> set xs"
    using real_order.foldl_upd_min(3)[of m xs] by auto
  show "foldl real_order.upd_min m xs \<le> y" if "y \<in> set xs" for y
    using real_order.foldl_upd_min(2)[OF that, of m] by simp
qed simp

lemma upd_max_is_Max:
  fixes xs :: "real list"
  assumes "xs \<noteq> []" "\<forall>x \<in> set xs. m \<le> x"
  shows "foldl real_order.upd_max m xs = Max (set xs)"
proof (rule sym, rule Max_eqI)
  have "foldl real_order.upd_max m xs \<noteq> m \<or> m \<in> set xs"
    using real_order.foldl_upd_max(2)[of "hd xs" xs m] assms by (cases xs) fastforce+
  then show "foldl real_order.upd_max m xs \<in> set xs"
    using real_order.foldl_upd_max(3)[of m xs] by auto
  show "y \<le> foldl real_order.upd_max m xs" if "y \<in> set xs" for y
    using real_order.foldl_upd_max(2)[OF that, of m] by simp
qed simp

subsection \<open>The integral\<close>

lemma integral_step:
  "integral_loop real_fp acc (p # q # ps) =
     integral_loop real_fp (acc + (snd p + snd q) / 2 * (fst q - fst p)) (q # ps)"
  by (simp add: dec_value_def)

lemma integral_acc: "integral_loop real_fp acc ps = acc + integral_loop real_fp 0 ps"
proof (induction ps arbitrary: acc rule: induct_list012)
  case (3 p q ps)
  show ?case
    unfolding integral_step
    using "3.IH"(2)[of "acc + (snd p + snd q) / 2 * (fst q - fst p)"]
      "3.IH"(2)[of "0 + (snd p + snd q) / 2 * (fst q - fst p)"] by linarith
qed simp_all

lemma integral_Cons2:
  "integral_loop real_fp 0 (p # q # ps) =
     (snd p + snd q) / 2 * (fst q - fst p) + integral_loop real_fp 0 (q # ps)"
  unfolding integral_step
  using integral_acc[of "0 + (snd p + snd q) / 2 * (fst q - fst p)" "q # ps"] by simp

declare integral_loop.simps(3) [simp del]

lemma integral_line:
  assumes "\<forall>p \<in> set ps. snd p = a * fst p + b" "ps \<noteq> []"
  shows "integral_loop real_fp 0 ps =
    (a * fst (last ps) ^ 2 / 2 + b * fst (last ps)) - (a * fst (hd ps) ^ 2 / 2 + b * fst (hd ps))"
  using assms
proof (induction ps rule: induct_list012)
  case (3 p q ps)
  then have IH: "integral_loop real_fp 0 (q # ps) =
      (a * fst (last (q # ps)) ^ 2 / 2 + b * fst (last (q # ps)))
      - (a * fst q ^ 2 / 2 + b * fst q)" by simp
  have "(snd p + snd q) / 2 * (fst q - fst p) =
      (a * fst q ^ 2 / 2 + b * fst q) - (a * fst p ^ 2 / 2 + b * fst p)"
    using "3.prems"(1) by (simp add: field_simps power2_eq_square)
  with IH show ?case
    unfolding integral_Cons2 list.sel by (simp only: last.simps list.simps if_False)
qed simp_all

lemma integral_between:
  assumes "sorted (map fst ps)" "\<forall>p \<in> set ps. lo \<le> snd p \<and> snd p \<le> hi" "ps \<noteq> []"
  shows "lo * (fst (last ps) - fst (hd ps)) \<le> integral_loop real_fp 0 ps
    \<and> integral_loop real_fp 0 ps \<le> hi * (fst (last ps) - fst (hd ps))"
  using assms
proof (induction ps rule: induct_list012)
  case (3 p q ps)
  let ?y = "(snd p + snd q) / 2" and ?dt = "fst q - fst p"
  have "lo \<le> ?y" "?y \<le> hi" "0 \<le> ?dt" using "3.prems" by auto
  then have "lo * ?dt \<le> ?y * ?dt" "?y * ?dt \<le> hi * ?dt" by (simp_all only: mult_right_mono)
  moreover have "lo * (fst (last (q # ps)) - fst q) \<le> integral_loop real_fp 0 (q # ps)"
    "integral_loop real_fp 0 (q # ps) \<le> hi * (fst (last (q # ps)) - fst q)"
    using "3.IH"(2) "3.prems" by auto
  moreover have "integral_loop real_fp 0 (p # q # ps) = ?y * ?dt + integral_loop real_fp 0 (q # ps)"
    by (rule integral_Cons2)
  moreover have "c * (fst (last (q # ps)) - fst p) = c * (fst (last (q # ps)) - fst q) + c * ?dt" for c
    by (simp add: algebra_simps)
  moreover have "last (p # q # ps) = last (q # ps)" "hd (p # q # ps) = p" by simp_all
  ultimately show ?case by (simp only:) linarith
qed simp_all

subsection \<open>The statistics of a run\<close>

lemma run_stats_nth:
  "stats (run_stats real_fp d) ! DATA_STATS_INTEGRAL = integral_loop real_fp 0 (points d)"
  "stats (run_stats real_fp d) ! DATA_STATS_DURATION = x_max d - x_min d"
  "stats (run_stats real_fp d) ! DATA_STATS_AVERAGE_CURRENT =
     integral_loop real_fp 0 (points d) / (x_max d - x_min d)"
  by (simp_all add: run_stats_def Let_def stat_index_defs dec_value_def split: prod.splits)

lemma sorted_hd_last:
  fixes xs :: "real list"
  assumes "sorted xs" "xs \<noteq> []"
  shows "Min (set xs) = hd xs" "Max (set xs) = last xs"
proof -
  show "Min (set xs) = hd xs"
    using assms by (cases xs) (auto intro!: Min_eqI)
  show "Max (set xs) = last xs"
    using assms by (cases xs rule: rev_cases) (auto intro!: Max_eqI simp: sorted_append)
qed

lemma run_of_duration:
  assumes "sorted (map fst ps)" "ps \<noteq> []" "\<forall>p \<in> set ps. \<bar>fst p\<bar> \<le> 10 ^ 6"
  shows "x_max (run_of real_fp ps) = fst (last ps)" "x_min (run_of real_fp ps) = fst (hd ps)"
proof -
  have b: "\<forall>x \<in> set (map fst ps). x \<le> 10 ^ 6" "\<forall>x \<in> set (map fst ps). - (10 ^ 6) \<le> x"
    using assms(3) by fastforce+
  show "x_max (run_of real_fp ps) = fst (last ps)"
    using upd_max_is_Max[OF _ b(2)] sorted_hd_last(2)[OF assms(1)] assms(2)
    by (simp add: run_of_bounds last_map)
  show "x_min (run_of real_fp ps) = fst (hd ps)"
    using upd_min_is_Min[OF _ b(1)] sorted_hd_last(1)[OF assms(1)] assms(2)
    by (simp add: run_of_bounds hd_map)
qed





subsection \<open>The statistics of a series of runs\<close>

lemma foldl_plus: "foldl (\<lambda>t d. t + f d) (a :: real) xs = a + sum_list (map f xs)"
  by (induction xs arbitrary: a) simp_all

lemma calc_average_nth:
  assumes "j < DATA_STATS_MAX"
  shows "fst (calc_average_stddev real_fp ds n) ! j =
    sum_list (map (\<lambda>d. stats d ! j) ds) / of_int n"
  using assms by (simp add: calc_average_stddev_def Let_def dec_value_def foldl_plus)

lemma calc_stddev_nth:
  assumes "j < DATA_STATS_MAX"
  shows "snd (calc_average_stddev real_fp ds n) ! j =
    sqrt (sum_list (map (\<lambda>d. (stats d ! j - fst (calc_average_stddev real_fp ds n) ! j)
      * (stats d ! j - fst (calc_average_stddev real_fp ds n) ! j)) ds) / of_int n)"
  using assms by (simp add: calc_average_stddev_def Let_def dec_value_def foldl_plus)

lemma sum_list_between:
  fixes f :: "'a \<Rightarrow> real"
  assumes "\<forall>x \<in> set xs. lo \<le> f x \<and> f x \<le> hi"
  shows "real (length xs) * lo \<le> sum_list (map f xs) \<and> sum_list (map f xs) \<le> real (length xs) * hi"
  using assms by (induction xs) (auto simp: algebra_simps)

lemma sum_list_squares_0:
  fixes f :: "'a \<Rightarrow> real"
  shows "sum_list (map (\<lambda>x. f x * f x) xs) = 0 \<longleftrightarrow> (\<forall>x \<in> set xs. f x = 0)"
proof (induction xs)
  case (Cons x xs)
  have "0 \<le> sum_list (map (\<lambda>x. f x * f x) xs)" by (rule sum_list_nonneg) auto
  moreover have "0 \<le> f x * f x" by simp
  ultimately show ?case using Cons.IH by (auto simp: add_nonneg_eq_0_iff)
qed simp



end
