(* ===== verification/Statstool_Reader.thy ===== *)
theory Statstool_Reader
  imports Statstool
begin

unbundle bit_operations_syntax

text \<open>
  Properties of the log reader: the invariant of its state and what every operation does to it,
  the effect of a sample line, what tagged output looks like, and three places where the reader
  does not do what its log format needs.
\<close>

subsection \<open>Flags are single bits\<close>

lemma has_bit [flags]:
  "has w STATE_TEST_BEGIN = bit w 0" "has w STATE_TEST_RUN_BEGIN = bit w 1"
  "has w OPTS_EXTRACT_RESULTS = bit w 0" "has w OPTS_TABBED_COLUMNS = bit w 1"
  "has w OPTS_STATS_ALL_SAMPLES = bit w 2" "has w OPTS_TAGGED_OUTPUT = bit w 3"
  "has w OPTS_STATS_SUMMARY = bit w 4" "has w OPTS_STATS_PER_TEST = bit w 5"
  using and_exp_eq_0_iff_not_bit[of w 0] and_exp_eq_0_iff_not_bit[of w 1]
    and_exp_eq_0_iff_not_bit[of w 2] and_exp_eq_0_iff_not_bit[of w 3]
    and_exp_eq_0_iff_not_bit[of w 4] and_exp_eq_0_iff_not_bit[of w 5]
  by (simp_all add: has_def flag_defs)

lemma run_flag [simp]:
  "has (w OR STATE_TEST_RUN_BEGIN) STATE_TEST_RUN_BEGIN"
  "\<not> has (w AND NOT STATE_TEST_RUN_BEGIN) STATE_TEST_RUN_BEGIN"
  "has (w OR STATE_TEST_BEGIN) STATE_TEST_RUN_BEGIN = has w STATE_TEST_RUN_BEGIN"
  "has (w AND NOT STATE_TEST_BEGIN) STATE_TEST_RUN_BEGIN = has w STATE_TEST_RUN_BEGIN"
  by (simp_all only: has_bit) (simp_all add: flag_defs bit_simps)

lemma emit_sel [simp]:
  "buffer (emit ev s) = buffer s" "data (emit ev s) = data s" "index (emit ev s) = index s"
  "state (emit ev s) = state s" "arch (emit ev s) = arch s" "start_secs (emit ev s) = start_secs s"
  "hostname (emit ev s) = hostname s" "kernel (emit ev s) = kernel s" "test (emit ev s) = test s"
  "allocs (emit ev s) = allocs s" "out (emit ev s) = out s @ ev"
  by (simp_all add: emit_def)

subsection \<open>The invariant\<close>

definition reader_inv :: "'d pstate \<Rightarrow> bool" where
  "reader_inv s \<longleftrightarrow> length (buffer s) = 4096 \<and> -1 \<le> index s \<and> index s < MAX_TEST_RUNS
     \<and> (\<forall>i. int i \<le> index s \<longrightarrow>
          (\<exists>d. data s i = Some d \<and> samples d = int (length (points d))))"

lemma reader_inv_cong:
  "buffer s' = buffer s \<Longrightarrow> index s' = index s \<Longrightarrow> data s' = data s \<Longrightarrow> reader_inv s' = reader_inv s"
  by (simp add: reader_inv_def)

lemma emit_inv [simp]: "reader_inv (emit ev s) = reader_inv s"
  by (rule reader_inv_cong) simp_all

lemma init_inv: "reader_inv (init_pstate A E)"
  by (auto simp: reader_inv_def init_pstate_def MAX_TEST_RUNS_def)

lemma load_line_inv:
  "load_line chunk s = Some s' \<Longrightarrow> length chunk \<le> 4095 \<Longrightarrow> reader_inv s \<Longrightarrow> reader_inv s'"
  by (auto simp: load_line_def reader_inv_def Let_def split: if_splits)

lemma tag_client_inv: "tag_client G off s = Some s' \<Longrightarrow> reader_inv s \<Longrightarrow> reader_inv s'"
  by (auto simp: tag_client_def bind_Some_iff Let_def reader_inv_def split: option.splits if_splits)

lemma tag_begin_inv: "tag_begin G s = Some s' \<Longrightarrow> reader_inv s \<Longrightarrow> reader_inv s'"
  by (auto simp: tag_begin_def bind_Some_iff Let_def reader_inv_def split: option.splits if_splits)

lemma tag_report_emits: "tag_report A E G s = Some s' \<Longrightarrow> \<exists>ev. s' = emit ev s"
  by (auto simp: tag_report_def bind_Some_iff Let_def simp del: esc.simps split: if_splits)

lemma tag_end_fields:
  assumes "tag_end A E G s = Some s'"
  shows "buffer s' = buffer s" "index s' = -1"
    "has (state s') STATE_TEST_RUN_BEGIN = has (state s) STATE_TEST_RUN_BEGIN"
  using assms by (auto simp: tag_end_def bind_Some_iff Let_def data_free_def dest!: tag_report_emits)

lemma tag_end_inv: "tag_end A E G s = Some s' \<Longrightarrow> reader_inv s \<Longrightarrow> reader_inv s'"
  using tag_end_fields(1,2)[of A E G s s'] by (auto simp: reader_inv_def MAX_TEST_RUNS_def)

lemma test_run_begin_inv: "reader_inv s \<Longrightarrow> reader_inv (snd (test_run_begin A s))"
  by (auto simp: test_run_begin_def reader_inv_def Let_def empty_run_def)

lemma test_run_end_inv: "reader_inv (test_run_end s) = reader_inv s"
  by (rule reader_inv_cong) (simp_all add: test_run_end_def)

lemma handle_tag_inv:
  assumes "handle_tag A E G s = Some s'" "reader_inv s"
  shows "reader_inv s'"
proof -
  obtain ptr s1 s2 s3 where
    s1: "(case strstr ptr ''TEST_CLIENT'' of None \<Rightarrow> Some s | Some k \<Rightarrow> tag_client G (32 + k + 12) s) = Some s1"
    and s2: "(if strstr ptr ''TEST_BEGIN'' \<noteq> None then tag_begin G s1 else Some s1) = Some s2"
    and s3: "(if strstr ptr ''TEST_END'' \<noteq> None then tag_end A E G s2 else Some s2) = Some s3"
    and s': "s' = (let t = (if strstr ptr ''TEST_RUN_BEGIN'' \<noteq> None then snd (test_run_begin A s3) else s3)
      in if strstr ptr ''TEST_RUN_END'' \<noteq> None then test_run_end t else t)"
    using assms(1) unfolding handle_tag_def bind_Some_iff Let_def option.inject by blast
  have "reader_inv s1" using s1 assms(2) tag_client_inv by (auto split: option.splits)
  then have "reader_inv s2" using s2 tag_begin_inv by (auto split: if_splits)
  then have "reader_inv s3" using s3 tag_end_inv by (auto split: if_splits)
  then show ?thesis by (simp add: s' Let_def test_run_end_inv test_run_begin_inv)
qed

lemma auto_begin_inv: "reader_inv s \<Longrightarrow> reader_inv (auto_begin A G s)"
  by (simp add: auto_begin_def test_run_begin_inv)

lemma store_sample_inv: "store_sample A G sec s = Some s' \<Longrightarrow> reader_inv s \<Longrightarrow> reader_inv s'"
  by (fastforce simp: store_sample_def bind_Some_iff Let_def reader_inv_def add_sample_fields
      split: if_splits)

lemma allocs_inv [simp]: "reader_inv (s\<lparr>allocs := n\<rparr>) = reader_inv s"
  by (rule reader_inv_cong) simp_all

lemma handle_sample_inv:
  "handle_sample A E G sec s = Some (s', go) \<Longrightarrow> reader_inv s \<Longrightarrow> reader_inv s'"
  by (auto simp: handle_sample_def Let_def auto_begin_inv simp del: esc.simps
      split: if_splits dest: store_sample_inv)

lemma process_line_inv:
  assumes "process_line A E G chunk s = Some (s', go)" "length chunk \<le> 4095" "reader_inv s"
  shows "reader_inv s'"
proof -
  obtain s1 s2 sec where s1: "load_line chunk s = Some s1"
    and s2: "handle_tag A E G (start_clock A sec s1) = Some s2 \<or> s2 = start_clock A sec s1"
    and s': "(\<exists>t. handle_sample A E G t s2 = Some (s', go)) \<or> s' = s2"
    using assms(1)
    by (auto simp: process_line_def bind_Some_iff Let_def split: if_splits)
  have "reader_inv s1" using load_line_inv[OF s1 assms(2,3)] .
  then have "reader_inv (start_clock A sec s1)" by (simp add: start_clock_def reader_inv_def)
  then have "reader_inv s2" using s2 handle_tag_inv by blast
  then show ?thesis using s' by (auto dest: handle_sample_inv)
qed

lemma read_loop_invariant:
  assumes step: "\<And>l s s' go. length l \<le> 4095 \<Longrightarrow> P s \<Longrightarrow> process_line A E G l s = Some (s', go) \<Longrightarrow> P s'"
  shows "read_loop A E G inp s = Some s' \<Longrightarrow> P s \<Longrightarrow> P s'"
proof (induction "length inp" arbitrary: inp s rule: less_induct)
  case less
  show ?case
  proof (cases "inp = []")
    case True
    then show ?thesis using less.prems by (simp add: read_loop.simps)
  next
    case False
    obtain l r where lr: "fgets 4095 inp = (l, r)" by fastforce
    then obtain s1 go where s1: "process_line A E G l s = Some (s1, go)"
      and s': "if go then read_loop A E G r s1 = Some s' else s' = s1"
      using False less.prems(1) by (auto simp: read_loop.simps[of A E G inp] split: option.splits if_splits)
    have "P s1" using step[OF fgets_length[OF lr] less.prems(2) s1] .
    then show ?thesis
      using s' less.hyps[OF fgets_progress[OF False lr[symmetric]], of s1] by (cases go) auto
  qed
qed

subsection \<open>Lines of a log\<close>

definition NL :: char where "NL = CHR 0x0A"

lemma takeWhile_NUL: "NUL \<notin> set l \<Longrightarrow> takeWhile (\<lambda>c. c \<noteq> NUL) (l @ NUL # r) = l"
  by (induction l) auto

lemma cstr_at_write_prefix:
  assumes "NUL \<notin> set l" "i \<le> length l"
  shows "cstr_at (write_at b 0 (l @ NUL # r)) i = Some (drop i l)"
proof -
  have "NUL \<notin> set (drop i l)" using assms(1) by (auto dest: in_set_dropD)
  then show ?thesis using assms(2)
    by (simp add: cstr_at_def write_at_def takeWhile_NUL)
qed

text \<open>Whatever ends the line, its last character is the one that is cut off.\<close>

lemma load_line_cuts_last:
  assumes "NUL \<notin> set l" "c \<noteq> NUL" "length l < 4095" "length (buffer s) = 4096"
  shows "load_line (l @ [c]) s = Some (s\<lparr>buffer := write_at (buffer s) 0 (l @ [NUL, NUL])\<rparr>)"
proof -
  have n: "length (takeWhile (\<lambda>c. c \<noteq> NUL) (write_at (buffer s) 0 ((l @ [c]) @ [NUL]))) = length l + 1"
    using assms(1,2) takeWhile_NUL[of "l @ [c]"] by (simp add: write_at_def)
  have "(write_at (buffer s) 0 ((l @ [c]) @ [NUL]))[length l := NUL]
      = write_at (buffer s) 0 (l @ [NUL, NUL])"
    by (simp add: write_at_def list_update_append)
  moreover have "length (takeWhile (\<lambda>c. c \<noteq> NUL) (write_at (buffer s) 0 ((l @ [c]) @ [NUL]))) \<noteq> 0"
    unfolding n by simp
  ultimately show ?thesis using n unfolding load_line_def Let_def by (simp only: if_False) simp
qed

lemma fgets_line:
  "NL \<notin> set l \<Longrightarrow> length l < n \<Longrightarrow> fgets n (l @ NL # r) = (l @ [NL], r)"
  by (induction n "l @ NL # r" arbitrary: l rule: fgets.induct)
     (auto simp: NL_def Cons_eq_append_conv split: prod.splits)

lemma process_loaded_line:
  assumes line: "NUL \<notin> set (ts @ CHR '' '' # body)" "length ts = 26" "length body \<le> 4000"
    and "length (buffer s) = 4096" and t: "parse_timestamp A E (ts @ CHR '' '' # body) = Some t"
  defines "s1 \<equiv> start_clock A t (s\<lparr>buffer := write_at (buffer s) 0 ((ts @ CHR '' '' # body) @ [NUL, NUL])\<rparr>)"
  shows "process_line A E G ((ts @ CHR '' '' # body) @ [NL]) s = do {
     s2 \<leftarrow> (if strstr body ''TAG:'' \<noteq> None then handle_tag A E G s1 else Some s1);
     if strstr body ''SAMPLE:'' \<noteq> None
     then handle_sample A E G (fp_sub A t (start_secs s1)) s2 else Some (s2, True) }"
    and "\<And>i. i \<le> 27 + length body \<Longrightarrow> cstr_at (buffer s1) i = Some (drop i (ts @ CHR '' '' # body))"
proof -
  let ?l = "ts @ CHR '' '' # body"
  have c: "cstr_at (write_at (buffer s) 0 (?l @ [NUL, NUL])) i = Some (drop i ?l)"
    if "i \<le> 27 + length body" for i
    using cstr_at_write_prefix[OF line(1), of i] that line(2) by simp
  define s0 where "s0 = s\<lparr>buffer := write_at (buffer s) 0 (?l @ [NUL, NUL])\<rparr>"
  have s1: "start_clock A t s0 = s1" by (simp add: s0_def s1_def)
  have c0: "cstr_at (buffer s0) 0 = Some ?l" using c[of 0] by (simp add: s0_def)
  show *: "\<And>i. i \<le> 27 + length body \<Longrightarrow> cstr_at (buffer s1) i = Some (drop i ?l)"
    using c by (simp add: s1_def start_clock_def)
  have ld: "load_line (?l @ [NL]) s = Some s0"
    unfolding s0_def by (rule load_line_cuts_last[OF line(1)]) (use line(2,3) assms(4) in \<open>simp_all add: NL_def\<close>)
  show "process_line A E G (?l @ [NL]) s = do {
     s2 \<leftarrow> (if strstr body ''TAG:'' \<noteq> None then handle_tag A E G s1 else Some s1);
     if strstr body ''SAMPLE:'' \<noteq> None
     then handle_sample A E G (fp_sub A t (start_secs s1)) s2 else Some (s2, True) }"
    using *[of 27] line(2) t unfolding process_line_def ld
    by (simp add: c0 s1 Let_def del: strstr.simps cong: if_cong)
qed

subsection \<open>Sample lines\<close>

definition sample_body :: "string \<Rightarrow> string" where
  "sample_body v = ''SAMPLE:'' @ v"

definition sample_line :: "string \<times> string \<Rightarrow> string" where
  \<comment> \<open>A time stamp of 26 characters and a value, as \<open>logdata.sh\<close> writes them.\<close>
  "sample_line row = (fst row @ CHR '' '' # sample_body (snd row)) @ [NL]"

definition row_ok :: "'d fp \<Rightarrow> env \<Rightarrow> string \<times> string \<Rightarrow> 'd \<times> 'd \<Rightarrow> bool" where
  "row_ok A E row p \<longleftrightarrow> length (fst row) = 26 \<and> length (snd row) \<le> 3900
     \<and> NUL \<notin> set (fst row @ snd row) \<and> NL \<notin> set (fst row @ snd row)
     \<and> strstr (sample_body (snd row)) ''TAG:'' = None
     \<and> parse_timestamp A E (fst row @ CHR '' '' # sample_body (snd row)) = Some (fst p)
     \<and> map_option fst (fp_scan A (snd row)) = Some (snd p)"

lemma strstr_prefix: "prefix pat s \<Longrightarrow> strstr s pat = Some 0"
  by (cases s) auto

definition point_of :: "'d fp \<Rightarrow> 'd globals \<Rightarrow> 'd \<Rightarrow> 'd \<times> 'd \<Rightarrow> 'd \<times> 'd" where
  "point_of A G t0 p = (fp_sub A (fst p) t0, fp_mul A (snd p) (scale_by G))"

definition running :: "'d fp \<Rightarrow> 'd pstate \<Rightarrow> bool" where
  \<comment> \<open>In a test run, with the clock started.\<close>
  "running A s \<longleftrightarrow> length (buffer s) = 4096 \<and> has (state s) STATE_TEST_RUN_BEGIN
     \<and> 0 \<le> index s \<and> data s (nat (index s)) \<noteq> None \<and> \<not> fp_less A (start_secs s) (fp_lit A 0 0)"

lemma process_sample_line:
  assumes row: "row_ok A E row p" and run: "running A s" and alloc: "\<forall>n. env_calloc E n"
  shows "\<exists>s'. process_line A E G (sample_line row) s = Some (s', True) \<and> running A s'
    \<and> index s' = index s \<and> start_secs s' = start_secs s \<and> state s' = state s \<and> out s' = out s
    \<and> data s' = (data s)(nat (index s) \<mapsto> (let q = point_of A G (start_secs s) p in
        add_sample A (the (data s (nat (index s)))) (fst q) (snd q)))"
proof -
  obtain ts v where [simp]: "row = (ts, v)" by (cases row)
  obtain d where d: "data s (nat (index s)) = Some d" using run by (auto simp: running_def)
  have l: "NUL \<notin> set (ts @ CHR '' '' # sample_body v)" "length ts = 26" "length (sample_body v) \<le> 4000"
    and b: "length (buffer s) = 4096"
    and t: "parse_timestamp A E (ts @ CHR '' '' # sample_body v) = Some (fst p)"
    using row run by (auto simp: row_ok_def sample_body_def running_def)
  note pl = process_loaded_line[OF l b t]
  define s1 where "s1 = s\<lparr>buffer := write_at (buffer s) 0 ((ts @ CHR '' '' # sample_body v) @ [NUL, NUL])\<rparr>"
  have clk: "start_clock A (fst p) s1 = s1" using run by (simp add: start_clock_def running_def s1_def)
  have c34: "cstr_at (buffer s1) 34 = Some v"
    using pl(2)[of 34] l(2) unfolding s1_def[symmetric] clk by (simp add: sample_body_def)
  obtain r where r: "fp_scan A v = Some (snd p, r)"
    using row by (auto simp: row_ok_def)
  have ss: "strstr (sample_body v) ''SAMPLE:'' = Some 0" "strstr (sample_body v) ''TAG:'' = None"
    using row by (simp_all add: strstr_prefix sample_body_def row_ok_def del: strstr.simps)
  have run1: "has (state s1) STATE_TEST_RUN_BEGIN" "index s1 = index s" "data s1 = data s"
    "start_secs s1 = start_secs s" "0 \<le> index s1" "length (buffer s1) = 4096" "state s1 = state s"
    "out s1 = out s"
    using run l b by (simp_all add: running_def s1_def)
  have "process_line A E G (sample_line row) s
    = handle_sample A E G (fp_sub A (fst p) (start_secs s)) s1"
    using pl(1) ss unfolding s1_def[symmetric] clk by (simp add: sample_line_def run1 del: strstr.simps)
  also have "\<dots> = Some (s1\<lparr>allocs := allocs s1 + 1,
      data := (data s)(nat (index s) \<mapsto> add_sample A d (fp_sub A (fst p) (start_secs s))
        (fp_mul A (snd p) (scale_by G)))\<rparr>, True)"
    using run1 alloc d r c34
    by (simp add: handle_sample_def auto_begin_def store_sample_def)
  finally show ?thesis
    using run1 run d by (simp add: running_def point_of_def)
qed

text \<open>C4. The log text and the data set agree: in a running test, any sequence of well-formed sample
  lines is read without an error, and appends to the current run exactly the points
  (time stamp minus start of the log, value times scale), in order; nothing is printed and
  the reader stays in the run.\<close>
theorem sample_lines_extend_run:
  assumes "list_all2 (row_ok A E) rows ps" "running A s" "\<forall>n. env_calloc E n"
  shows "\<exists>s'. read_loop A E G (concat (map sample_line rows)) s = Some s' \<and> running A s'
    \<and> index s' = index s \<and> out s' = out s
    \<and> data s' (nat (index s)) = Some (foldl (\<lambda>d q. add_sample A d (fst q) (snd q))
         (the (data s (nat (index s)))) (map (point_of A G (start_secs s)) ps))"
  using assms(1,2)
proof (induction rows ps arbitrary: s rule: list_all2_induct)
  case Nil
  then show ?case by (auto simp: read_loop.simps running_def)
next
  case (Cons row rows p ps)
  obtain s1 where s1: "process_line A E G (sample_line row) s = Some (s1, True)" "running A s1"
      "index s1 = index s" "start_secs s1 = start_secs s" "out s1 = out s"
      "data s1 = (data s)(nat (index s) \<mapsto> (let q = point_of A G (start_secs s) p in
        add_sample A (the (data s (nat (index s)))) (fst q) (snd q)))"
    using process_sample_line[OF Cons.hyps(1) Cons.prems assms(3)] by blast
  have "fgets 4095 (sample_line row @ rest) = (sample_line row, rest)" for rest
    using fgets_line[of "fst row @ CHR '' '' # sample_body (snd row)" 4095 rest] Cons.hyps(1)
    by (auto simp: row_ok_def sample_body_def sample_line_def NL_def)
  then have "read_loop A E G (concat (map sample_line (row # rows))) s
      = read_loop A E G (concat (map sample_line rows)) s1"
    using s1(1) by (subst read_loop.simps) (simp add: sample_line_def[of row])
  then show ?case using Cons.IH[OF s1(2)] s1 by (simp add: Let_def)
qed


subsection \<open>Tagged output\<close>

definition machine_readable :: "'d printed \<Rightarrow> bool" where
  "machine_readable ev \<longleftrightarrow> (\<forall>(fp, fmt, args) \<in> set ev.
     fp = Stdout \<longrightarrow> prefix ''info:'' fmt \<or> prefix ''metric:'' fmt)"

lemma machine_readable_simps [simp]:
  "machine_readable []"
  "machine_readable (xs @ ys) \<longleftrightarrow> machine_readable xs \<and> machine_readable ys"
  "machine_readable ((fp, fmt, args) # ev) \<longleftrightarrow>
     (fp = Stdout \<longrightarrow> prefix ''info:'' fmt \<or> prefix ''metric:'' fmt) \<and> machine_readable ev"
  by (auto simp: machine_readable_def)

lemma machine_readable_concat: "(\<forall>x \<in> set xs. machine_readable x) \<Longrightarrow> machine_readable (concat xs)"
  by (induction xs) auto

lemma tagged_header: "has f OPTS_TAGGED_OUTPUT \<Longrightarrow> report_header fp f = []"
  by (simp add: report_header_def)

lemma tagged_run: "has f OPTS_TAGGED_OUTPUT \<Longrightarrow> machine_readable (report_run A fp f i d)"
  by (simp add: report_run_def)

lemma tagged_summary: "has f OPTS_TAGGED_OUTPUT \<Longrightarrow> machine_readable (report_summary A fp f n ds)"
  by (simp add: report_summary_def split: prod.splits)

lemma tagged_analysis:
  "has f OPTS_TAGGED_OUTPUT \<Longrightarrow> machine_readable (snd (data_analyse A fp f ds))"
  by (auto simp: data_analyse_def Let_def tagged_header tagged_summary tagged_run
      intro!: machine_readable_concat)

lemma tagged_client:
  "tag_client G off s = Some s' \<Longrightarrow> has (opts G) OPTS_TAGGED_OUTPUT \<Longrightarrow>
   machine_readable (out s) \<Longrightarrow> machine_readable (out s')"
  by (auto simp: tag_client_def bind_Some_iff Let_def split: option.splits if_splits)

lemma tagged_begin:
  "tag_begin G s = Some s' \<Longrightarrow> has (opts G) OPTS_TAGGED_OUTPUT \<Longrightarrow>
   machine_readable (out s) \<Longrightarrow> machine_readable (out s')"
  by (auto simp: tag_begin_def bind_Some_iff Let_def split: option.splits if_splits)

lemma tagged_end:
  "tag_end A E G s = Some s' \<Longrightarrow> has (opts G) OPTS_TAGGED_OUTPUT \<Longrightarrow>
   machine_readable (out s) \<Longrightarrow> machine_readable (out s')"
  by (auto simp: tag_end_def tag_report_def bind_Some_iff Let_def data_free_def tagged_analysis
      simp del: esc.simps split: if_splits)

lemma tagged_run_begin: "machine_readable (out s) \<Longrightarrow> machine_readable (out (snd (test_run_begin A s)))"
  by (simp add: test_run_begin_def Let_def del: esc.simps)

lemma tagged_handle_tag:
  assumes "handle_tag A E G s = Some s'" "has (opts G) OPTS_TAGGED_OUTPUT" "machine_readable (out s)"
  shows "machine_readable (out s')"
proof -
  obtain ptr s1 s2 s3 where
    s1: "(case strstr ptr ''TEST_CLIENT'' of None \<Rightarrow> Some s | Some k \<Rightarrow> tag_client G (32 + k + 12) s) = Some s1"
    and s2: "(if strstr ptr ''TEST_BEGIN'' \<noteq> None then tag_begin G s1 else Some s1) = Some s2"
    and s3: "(if strstr ptr ''TEST_END'' \<noteq> None then tag_end A E G s2 else Some s2) = Some s3"
    and s': "s' = (let t = (if strstr ptr ''TEST_RUN_BEGIN'' \<noteq> None then snd (test_run_begin A s3) else s3)
      in if strstr ptr ''TEST_RUN_END'' \<noteq> None then test_run_end t else t)"
    using assms(1) unfolding handle_tag_def bind_Some_iff Let_def option.inject by blast
  have "machine_readable (out s1)" using s1 assms(2,3) tagged_client by (auto split: option.splits)
  then have "machine_readable (out s2)" using s2 assms(2) tagged_begin by (auto split: if_splits)
  then have "machine_readable (out s3)" using s3 assms(2) tagged_end by (auto split: if_splits)
  then show ?thesis by (simp add: s' Let_def test_run_end_def tagged_run_begin)
qed

lemma tagged_handle_sample:
  assumes "handle_sample A E G sec s = Some (s', go)" "machine_readable (out s)"
  shows "machine_readable (out s')"
proof -
  have "machine_readable (out (auto_begin A G s))"
    using assms(2) by (simp add: auto_begin_def tagged_run_begin)
  then show ?thesis
    using assms(1) by (auto simp: handle_sample_def store_sample_def Let_def bind_Some_iff
        simp del: esc.simps split: if_splits)
qed

lemma tagged_process_line:
  assumes "process_line A E G l s = Some (s', go)" "has (opts G) OPTS_TAGGED_OUTPUT"
    "machine_readable (out s)"
  shows "machine_readable (out s')"
proof -
  obtain s1 s2 sec where s1: "load_line l s = Some s1"
    and s2: "handle_tag A E G (start_clock A sec s1) = Some s2 \<or> s2 = start_clock A sec s1"
    and s': "(\<exists>t. handle_sample A E G t s2 = Some (s', go)) \<or> s' = s2"
    using assms(1) by (auto simp: process_line_def bind_Some_iff Let_def split: if_splits)
  have "out (start_clock A sec s1) = out s"
    using s1 by (auto simp: load_line_def start_clock_def Let_def split: if_splits)
  then have "machine_readable (out s2)" using s2 tagged_handle_tag assms(2,3) by metis
  then show ?thesis using s' by (auto dest: tagged_handle_sample)
qed


subsection \<open>Where the reader goes wrong\<close>

text \<open>C7. \<open>TEST_END\<close> resets the run index but not the running flag: after a test that was not
  closed by \<open>TEST_RUN_END\<close>, the next sample is stored in \<open>data[-1]\<close>.\<close>
theorem sample_after_open_test_end:
  assumes "tag_end A E G s = Some s'" "has (state s) STATE_TEST_RUN_BEGIN" "env_calloc E (allocs s')"
  shows "index s' = -1 \<and> has (state s') STATE_TEST_RUN_BEGIN \<and> handle_sample A E G sec s' = None"
proof -
  have "index s' = -1" "has (state s') STATE_TEST_RUN_BEGIN"
    using tag_end_fields[OF assms(1)] assms(2) by simp_all
  moreover have "store_sample A G sec (s'\<lparr>allocs := n\<rparr>) = None" if "index s' = -1" for n
    using that by (cases "cstr_at (buffer s') 34") (simp_all add: store_sample_def)
  ultimately show ?thesis
    using assms(3) by (simp add: handle_sample_def auto_begin_def del: esc.simps)
qed

text \<open>The last character of every line is cut off, newline or not: a log whose last line is not
  terminated loses the last character of that line.\<close>
theorem line_loses_last_character:
  assumes "NUL \<notin> set l" "c \<noteq> NUL" "length l < 4095" "length (buffer s) = 4096"
  shows "\<exists>s'. load_line (l @ [c]) s = Some s' \<and> cstr_at (buffer s') 0 = Some l"
  using load_line_cuts_last[OF assms] cstr_at_write_prefix[OF assms(1), of 0 "buffer s" "[NUL]"]
  by simp

subsection \<open>Time stamps against a real calendar\<close>

text \<open>\<open>mktime\<close> in a process whose time zone is UTC: months are counted from 0 and years from 1900,
  and fields out of range are carried over.\<close>

definition days_from_civil :: "int \<Rightarrow> int \<Rightarrow> int \<Rightarrow> int" where
  \<comment> \<open>Days from 1970-01-01 to day \<open>d\<close> of month \<open>m\<close> (1 to 12) of year \<open>y\<close>.\<close>
  "days_from_civil y m d =
     (let y' = (if m \<le> 2 then y - 1 else y);
          era = y' div 400;
          yoe = y' mod 400;
          doy = (153 * ((m + 9) mod 12) + 2) div 5 + d - 1
      in era * 146097 + yoe * 365 + yoe div 4 - yoe div 100 + doy - 719468)"

definition utc_mktime :: "tm \<Rightarrow> int" where
  "utc_mktime t = days_from_civil (tm_year t + 1900 + tm_mon t div 12) (tm_mon t mod 12 + 1) (tm_mday t) * 86400
     + tm_hour t * 3600 + tm_min t * 60 + tm_sec t"

definition utc_env :: "(string \<Rightarrow> string option) \<Rightarrow> env" where
  "utc_env files = \<lparr>env_mktime = utc_mktime, env_read = files, env_creat = (\<lambda>_. True),
     env_calloc = (\<lambda>_. True), env_junk = []\<rparr>"

lemma utc_env_sel [simp]:
  "env_mktime (utc_env files) = utc_mktime" "env_calloc (utc_env files) = (\<lambda>_. True)"
  "env_read (utc_env files) = files" "env_junk (utc_env files) = []"
  by (simp_all add: utc_env_def)

lemma parse_timestamp_exact:
  assumes "scan_date buf = Some ((y, mo, d, h, mi), s)" "scan_decimal s = Some ((m, e), r)"
    and "real_to_int (dec_value m e) = Some sec"
    and "utc_mktime \<lparr>tm_year = y, tm_mon = mo, tm_mday = d, tm_hour = h, tm_min = mi, tm_sec = sec\<rparr>
           mod 2 ^ 32 = w"
  shows "parse_timestamp real_fp (utc_env files) buf = Some (dec_value m e - of_int sec + of_int w)"
  using assms by (simp add: parse_timestamp_def)

lemma real_to_int_eq: "0 \<le> x \<Longrightarrow> of_int i \<le> x \<Longrightarrow> x < of_int i + 1 \<Longrightarrow> i < 2 ^ 31 \<Longrightarrow> real_to_int x = Some i"
proof -
  assume a: "0 \<le> x" "of_int i \<le> x" "x < of_int i + 1" "i < 2 ^ 31"
  then have "\<lfloor>x\<rfloor> = i" by linarith
  moreover have "0 \<le> i" using a by linarith
  ultimately show ?thesis using a by (simp add: real_to_int_def Let_def)
qed

text \<open>The reader hands the calendar fields to \<open>mktime\<close> as printed, the month counted from 1:
  across the end of a month the time of the samples runs backwards.\<close>
theorem time_runs_backwards_at_month_end:
  "\<exists>a b. parse_timestamp real_fp (utc_env files) ''2012-01-31T23:59:59.5'' = Some a
     \<and> parse_timestamp real_fp (utc_env files) ''2012-02-01T00:00:00.5'' = Some b
     \<and> b = a - 172799"
proof -
  have a: "parse_timestamp real_fp (utc_env files) ''2012-01-31T23:59:59.5''
      = Some (dec_value 595 (-1) - of_int 59 + of_int 1159334655)"
    by (rule parse_timestamp_exact[OF _ _ real_to_int_eq], code_simp, code_simp)
       (simp_all add: dec_value_def utc_mktime_def days_from_civil_def)
  have b: "parse_timestamp real_fp (utc_env files) ''2012-02-01T00:00:00.5''
      = Some (dec_value 5 (-1) - of_int 0 + of_int 1159161856)"
    by (rule parse_timestamp_exact[OF _ _ real_to_int_eq], code_simp, code_simp)
       (simp_all add: dec_value_def utc_mktime_def days_from_civil_def)
  have "dec_value 5 (-1) - of_int 0 + of_int 1159161856
      = dec_value 595 (-1) - of_int 59 + of_int 1159334655 - 172799"
    by (simp add: dec_value_def)
  with a b show ?thesis by blast
qed

subsection \<open>Instances\<close>

definition log_row :: "string \<times> string" where
  "log_row = (''2011-12-02T01:03:00.000250'', '' +2.5E-1'')"

definition plain_globals :: "u32 \<Rightarrow> real globals" where
  "plain_globals f = \<lparr>opts = f, scale_by = 2\<rparr>"

lemma log_row_ok: "row_ok real_fp (utc_env files) log_row
    (dec_value 250 (-6) - of_int 0 + of_int 1154068036, dec_value 25 (-2))"
proof -
  have "parse_timestamp real_fp (utc_env files) (fst log_row @ CHR '' '' # sample_body (snd log_row))
      = Some (dec_value 250 (-6) - of_int 0 + of_int 1154068036)"
    unfolding log_row_def sample_body_def
    by (rule parse_timestamp_exact[OF _ _ real_to_int_eq], code_simp, code_simp)
       (simp_all add: dec_value_def utc_mktime_def days_from_civil_def)
  moreover have "scan_decimal (snd log_row) = Some ((25, -2), [])"
    unfolding log_row_def by code_simp
  moreover have "strstr (sample_body (snd log_row)) ''TAG:'' = None"
    unfolding log_row_def by code_simp
  moreover have "length (fst log_row) = 26" "length (snd log_row) \<le> 3900"
    "NUL \<notin> set (fst log_row @ snd log_row)" "NL \<notin> set (fst log_row @ snd log_row)"
    by (simp_all add: log_row_def NL_def)
  ultimately show ?thesis by (simp only: row_ok_def) simp
qed

definition running_state :: "real pstate" where
  "running_state = (snd (test_run_begin real_fp (init_pstate real_fp (utc_env Map.empty))))\<lparr>start_secs := 0\<rparr>"

lemma running_state_running: "running real_fp running_state"
  by (simp add: has_def flag_defs running_def running_state_def test_run_begin_def init_pstate_def MAX_TEST_RUNS_def dec_value_def)

theorem sample_lines_extend_run_witness:
  "\<exists>s'. read_loop real_fp (utc_env Map.empty) (plain_globals 0)
      (concat (map sample_line [log_row, log_row])) running_state = Some s'
    \<and> running real_fp s' \<and> out s' = out running_state"
  using sample_lines_extend_run[of real_fp "utc_env Map.empty" "[log_row, log_row]" _ running_state "plain_globals 0"]
    log_row_ok running_state_running by fastforce



theorem sample_after_open_test_end_witness:
  "\<exists>s'. tag_end real_fp (utc_env Map.empty) (plain_globals 0) running_state = Some s'
     \<and> handle_sample real_fp (utc_env Map.empty) (plain_globals 0) 1 s' = None"
proof -
  have "runs_of (running_state\<lparr>state := w\<rparr>) \<noteq> None" for w
    by (simp add: runs_of_def running_state_def test_run_begin_def init_pstate_def MAX_TEST_RUNS_def Let_def)
  then have "tag_end real_fp (utc_env Map.empty) (plain_globals 0) running_state \<noteq> None"
    by (auto simp: tag_end_def tag_report_def Let_def plain_globals_def has_def bind_Some_iff
        simp del: esc.simps)
  then obtain s' where s': "tag_end real_fp (utc_env Map.empty) (plain_globals 0) running_state = Some s'"
    by blast
  then show ?thesis
    using sample_after_open_test_end[OF s', of 1] running_state_running
    by (simp add: running_def)
qed

theorem line_loses_last_character_witness:
  "\<exists>s'. load_line (''1.2'' @ ''5'') (init_pstate real_fp (utc_env Map.empty)) = Some s'
     \<and> cstr_at (buffer s') 0 = Some ''1.2''"
  by (rule line_loses_last_character) (simp_all add: init_pstate_def)

end
