(* ===== verification/Workloads.thy ===== *)
theory Workloads
  imports C_String
begin

unbundle bit_operations_syntax

text \<open>
  The small programs around the measurements: the relay that passes the client's messages on to
  the logger (\<open>udp-relay/udp-relay.c\<close>), the eight processes that load the processor
  (\<open>msr-energy-perf-bias/msr-test.c\<close>), the memory filler
  (\<open>generic-tests/memset-test/memset.c\<close>) and the generator of incompressible data
  (\<open>generic-tests/gzip-test/random.c\<close>, of which \<open>gunzip-test\<close> holds a copy).
\<close>

subsection \<open>The UDP relay\<close>

record relay =
  mesg :: "u8 list"         \<comment> \<open>the 4096 bytes of the message buffer\<close>
  open_fds :: nat           \<comment> \<open>descriptors the process holds\<close>
  sent :: "(string \<times> nat \<times> u8 list) list"  \<comment> \<open>datagrams handed to \<open>sendto\<close>, with their address\<close>

datatype relay_exit = Socket_failed | Bind_failed

definition sendit :: "nat \<Rightarrow> u8 list \<Rightarrow> relay \<Rightarrow> relay" where
  \<comment> \<open>\<open>limit\<close> is the process's limit on descriptors: beyond it \<open>socket\<close> returns -1, on which
      \<open>sendto\<close> fails; neither result is looked at, and the socket is not closed.\<close>
  "sendit limit msg s =
     (if open_fds s < limit
      then s\<lparr>open_fds := open_fds s + 1,
             sent := sent s @ [(''127.0.0.1'', 3500, takeWhile (\<lambda>b. b \<noteq> 0) msg)]\<rparr>
      else s)"

definition relay_step :: "nat \<Rightarrow> u8 list option \<Rightarrow> relay \<Rightarrow> relay" where
  \<comment> \<open>One \<open>recvfrom\<close>: an error (\<open>None\<close>) or a datagram, of which at most 1000 bytes arrive.\<close>
  "relay_step limit r s =
     (case r of None \<Rightarrow> s
      | Some d \<Rightarrow> (let n = min 1000 (length d);
                       m = write_at (mesg s) 0 (take n d) in
          if n > 0 then (let m = m[n := 0] in sendit limit m (s\<lparr>mesg := m\<rparr>)) else s))"

definition relay_main ::
    "nat \<Rightarrow> nat \<Rightarrow> bool \<Rightarrow> u8 list \<Rightarrow> u8 list option list \<Rightarrow> relay_exit + relay" where
  \<comment> \<open>The descriptors held at the start (standard streams), whether \<open>bind\<close> to port 9999 succeeds,
      what the buffer holds at first, and the results of \<open>recvfrom\<close>.\<close>
  "relay_main limit fds0 bind_ok junk rs =
     (if \<not> fds0 < limit then Inl Socket_failed
      else if \<not> bind_ok then Inl Bind_failed
      else Inr (foldl (\<lambda>s r. relay_step limit r s)
             \<lparr>mesg = junk, open_fds = fds0 + 1, sent = []\<rparr> rs))"

definition payload :: "u8 list \<Rightarrow> u8 list" where
  \<comment> \<open>What of a datagram is passed on: up to its first NUL byte, and at most 1000 bytes.\<close>
  "payload d = takeWhile (\<lambda>b. b \<noteq> 0) (take 1000 d)"

lemma takeWhile_list_update:
  "n < length xs \<Longrightarrow> takeWhile (\<lambda>b. b \<noteq> 0) (xs[n := 0]) = takeWhile (\<lambda>b. b \<noteq> (0::u8)) (take n xs)"
proof (induction xs arbitrary: n)
  case (Cons x xs)
  then show ?case by (cases n) auto
qed simp

lemma relay_step_sends:
  assumes "length (mesg s) = 4096" "d \<noteq> []"
  shows "length (mesg (relay_step limit (Some d) s)) = 4096"
    and "sent (relay_step limit (Some d) s) = sent s @
           (if open_fds s < limit then [(''127.0.0.1'', 3500, payload d)] else [])"
    and "open_fds (relay_step limit (Some d) s) = (if open_fds s < limit then open_fds s + 1 else open_fds s)"
proof -
  let ?n = "min 1000 (length d)" and ?m = "write_at (mesg s) 0 (take (min 1000 (length d)) d)"
  have l: "length ?m = 4096" using assms(1) by (subst length_write_at) auto
  have "take ?n ?m = take 1000 d" by (simp add: write_at_def min_def)
  then have "takeWhile (\<lambda>b. b \<noteq> 0) (?m[?n := 0]) = payload d"
    using takeWhile_list_update[of ?n ?m] l by (simp add: payload_def)
  then show "length (mesg (relay_step limit (Some d) s)) = 4096"
    "sent (relay_step limit (Some d) s) = sent s @
           (if open_fds s < limit then [(''127.0.0.1'', 3500, payload d)] else [])"
    "open_fds (relay_step limit (Some d) s) = (if open_fds s < limit then open_fds s + 1 else open_fds s)"
    using assms l by (simp_all add: relay_step_def sendit_def Let_def)
qed

lemma relay_step_other: "relay_step limit None s = s" "relay_step limit (Some []) s = s"
  by (simp_all add: relay_step_def)

definition received :: "u8 list option list \<Rightarrow> u8 list list" where
  "received rs = filter (\<lambda>d. d \<noteq> []) (List.map_filter id rs)"

lemma relay_loop:
  assumes "length (mesg s) = 4096" "open_fds s \<le> limit"
  shows "sent (foldl (\<lambda>s r. relay_step limit r s) s rs) = sent s
    @ map (\<lambda>d. (''127.0.0.1'', 3500, payload d)) (take (limit - open_fds s) (received rs))"
  using assms
proof (induction rs arbitrary: s)
  case Nil
  then show ?case by (simp add: received_def map_filter_simps)
next
  case (Cons r rs)
  show ?case
  proof (cases "r = None \<or> r = Some []")
    case True
    then have "relay_step limit r s = s" "received (r # rs) = received rs"
      by (auto simp: relay_step_other received_def map_filter_simps)
    then show ?thesis using Cons by simp
  next
    case False
    then obtain d where r: "r = Some d" and d: "d \<noteq> []" by (cases r) auto
    have rec: "received (r # rs) = d # received rs" using d by (simp add: r received_def map_filter_simps)
    note st = relay_step_sends[OF Cons.prems(1) d, of limit]
    show ?thesis
    proof (cases "open_fds s < limit")
      case True
      then have "limit - open_fds s = Suc (limit - (open_fds s + 1))" by simp
      then show ?thesis using Cons.IH[of "relay_step limit r s"] st True unfolding rec by (simp add: r)
    next
      case False
      then show ?thesis using Cons.IH[of "relay_step limit r s"] st Cons.prems unfolding rec by (simp add: r)
    qed
  qed
qed

text \<open>C8. The relay passes on, in order and unchanged up to their first NUL byte, the first
  messages it receives, one for every descriptor it may still open; \<open>sendit\<close> never closes its
  socket, so all later messages are dropped.\<close>
theorem relay_forwards_until_out_of_descriptors:
  assumes "fds0 < limit" "length junk = 4096"
  shows "\<exists>s. relay_main limit fds0 True junk rs = Inr s
    \<and> sent s = map (\<lambda>d. (''127.0.0.1'', 3500, payload d)) (take (limit - (fds0 + 1)) (received rs))"
  using relay_loop[of "\<lparr>mesg = junk, open_fds = fds0 + 1, sent = []\<rparr>" limit rs] assms
  by (simp add: relay_main_def)

theorem relay_forwards_until_out_of_descriptors_witness:
  "\<exists>s. relay_main 5 3 True (replicate 4096 0) [Some [72, 105], None, Some [33]] = Inr s
     \<and> sent s = [(''127.0.0.1'', 3500, [72, 105])]"
  using relay_forwards_until_out_of_descriptors[of 3 5 "replicate 4096 0" "[Some [72, 105], None, Some [33]]"]
  by (simp add: received_def map_filter_simps payload_def)

subsection \<open>The load generator of the MSR test\<close>

definition next_us :: "u32 \<Rightarrow> u32" where
  \<comment> \<open>\<open>us += 2000; if (us > 100000) us = 5000;\<close>\<close>
  "next_us us = (let us = us + 2000 in if us > 100000 then 5000 else us)"

fun killcycles :: "nat \<Rightarrow> u64 \<Rightarrow> nat \<Rightarrow> nat option" where
  \<comment> \<open>\<open>while (i++ < 1000000)\<close>: the number of turns, or \<open>None\<close> when the fuel runs out.\<close>
  "killcycles 0 i turns = None"
| "killcycles (Suc fuel) i turns =
     (if i < 1000000 then killcycles fuel (i + 1) (turns + 1) else Some turns)"

fun child_loop :: "bool list \<Rightarrow> u32 \<Rightarrow> u32 list" where
  \<comment> \<open>What \<open>keep_running\<close> is at each test, and the sleeping times that follow.\<close>
  "child_loop [] us = []"
| "child_loop (k # ks) us = (if k then us # child_loop ks (next_us us) else [])"

datatype msr_event = Fork int | Kill int | Sleep int | Exit int

fun start_children :: "int list \<Rightarrow> int list \<Rightarrow> msr_event list + int list" where
  \<comment> \<open>\<open>consume()\<close> in the parent for each result of \<open>fork\<close>: a failure ends the parent.\<close>
  "start_children [] pids = Inr pids"
| "start_children (r # rs) pids =
     (if r = -1 then Inl (map Fork pids @ [Fork (-1), Exit 1]) else start_children rs (pids @ [r]))"

definition msr_main :: "int option \<Rightarrow> int list \<Rightarrow> msr_event list" where
  \<comment> \<open>The parent, with the value of its argument and the results of its eight calls of \<open>fork\<close>.\<close>
  "msr_main arg forks =
     (let duration = (case arg of None \<Rightarrow> 60 | Some d \<Rightarrow> d) in
      case start_children (take 8 forks) [] of
        Inl ev \<Rightarrow> ev
      | Inr pids \<Rightarrow> map Fork pids @ [Sleep duration] @ map Kill pids @ [Exit 0])"

lemma next_us_range:
  assumes "5000 \<le> unat us" "unat us \<le> 100000"
  shows "5000 \<le> unat (next_us us) \<and> unat (next_us us) \<le> 100000"
proof -
  have "unat (us + 2000) = unat us + 2000"
    using assms by (subst unat_plus_if') simp
  then show ?thesis
    using assms by (auto simp: next_us_def Let_def word_less_nat_alt)
qed



lemma start_children_ok: "-1 \<notin> set rs \<Longrightarrow> start_children rs pids = Inr (pids @ rs)"
  by (induction rs arbitrary: pids) auto

lemma start_children_fail:
  "-1 \<in> set rs \<Longrightarrow> \<exists>ok. start_children rs pids = Inl (map Fork (pids @ ok) @ [Fork (-1), Exit 1])
     \<and> prefix (ok @ [-1]) rs"
proof (induction rs arbitrary: pids)
  case (Cons r rs)
  show ?case
  proof (cases "r = -1")
    case True
    then show ?thesis by (intro exI[of _ "[]"]) simp
  next
    case False
    with Cons.prems have "-1 \<in> set rs" by auto
    from Cons.IH[OF this, of "pids @ [r]"] obtain ok
      where "start_children rs (pids @ [r]) = Inl (map Fork ((pids @ [r]) @ ok) @ [Fork (-1), Exit 1])"
        "prefix (ok @ [-1]) rs" by blast
    then show ?thesis using False by (intro exI[of _ "r # ok"]) simp
  qed
qed simp

text \<open>C10. When every \<open>fork\<close> succeeds the parent signals exactly the children it has started; when
  one fails it exits at once, and the children started before are never signalled.\<close>
theorem msr_parent_signals_children:
  "(-1 \<notin> set (take 8 forks) \<longrightarrow>
      {p. Kill p \<in> set (msr_main arg forks)} = {p. Fork p \<in> set (msr_main arg forks)}
      \<and> {p. Fork p \<in> set (msr_main arg forks)} = set (take 8 forks))
   \<and> (-1 \<in> set (take 8 forks) \<longrightarrow>
      {p. Kill p \<in> set (msr_main arg forks)} = {} \<and> last (msr_main arg forks) = Exit 1)"
proof (intro conjI impI)
  assume "-1 \<notin> set (take 8 forks)"
  then have "msr_main arg forks = map Fork (take 8 forks)
      @ [Sleep (case arg of None \<Rightarrow> 60 | Some d \<Rightarrow> d)] @ map Kill (take 8 forks) @ [Exit 0]"
    by (simp add: msr_main_def start_children_ok Let_def)
  then show "{p. Kill p \<in> set (msr_main arg forks)} = {p. Fork p \<in> set (msr_main arg forks)}"
    "{p. Fork p \<in> set (msr_main arg forks)} = set (take 8 forks)"
    by auto
next
  assume "-1 \<in> set (take 8 forks)"
  then obtain ok where "start_children (take 8 forks) [] = Inl (map Fork ok @ [Fork (-1), Exit 1])"
    using start_children_fail[of "take 8 forks" "[]"] by auto
  then have "msr_main arg forks = map Fork ok @ [Fork (-1), Exit 1]"
    by (simp add: msr_main_def Let_def)
  then show "{p. Kill p \<in> set (msr_main arg forks)} = {}" "last (msr_main arg forks) = Exit 1"
    by auto
qed

theorem msr_parent_signals_children_witness:
  "{p. Kill p \<in> set (msr_main None [7, 8, -1, 9])} = {} \<and> last (msr_main None [7, 8, -1, 9]) = Exit 1"
  using msr_parent_signals_children[of "[7, 8, -1, 9]" None] by simp

lemma killcycles_turns:
  "unat i \<le> 1000000 \<Longrightarrow> 1000000 - unat i < fuel \<Longrightarrow>
   killcycles fuel i turns = Some (turns + (1000000 - unat i))"
proof (induction fuel arbitrary: i turns)
  case (Suc fuel)
  show ?case
  proof (cases "i < 1000000")
    case True
    then have lt: "unat i < 1000000" by (simp add: word_less_nat_alt)
    then have "unat (i + 1) = unat i + 1" by (subst unat_plus_if') simp
    then show ?thesis using Suc.IH[of "i + 1" "turns + 1"] Suc.prems True lt by simp
  next
    case False
    then have "unat i = 1000000" using Suc.prems(1) by (simp add: word_less_nat_alt)
    then show ?thesis using False by simp
  qed
qed simp

subsection \<open>The memory filler\<close>

fun fill_loop :: "nat \<Rightarrow> nat \<Rightarrow> u8 \<Rightarrow> u8 list \<Rightarrow> u8 list" where
  \<comment> \<open>\<open>for (j = 0; j < MEM_SIZE; j++) *p++ = i;\<close> from \<open>j\<close> on, \<open>k\<close> turns to go.\<close>
  "fill_loop 0 j v p = p"
| "fill_loop (Suc k) j v p = fill_loop k (j + 1) v (p[j := v])"

definition MEM_SIZE :: nat where "MEM_SIZE = 64 * 1024 * 1024"

datatype fill_result = No_memory string nat | Filled "u8 list"

definition fill_main :: "u8 list option \<Rightarrow> nat \<Rightarrow> fill_result" where
  \<comment> \<open>What \<open>malloc\<close> returns, and the size (\<open>MEM_SIZE\<close> in the program).\<close>
  "fill_main mem sz =
     (case mem of
        None \<Rightarrow> No_memory ''Cannot allocate %d K'' (sz div 1024)
      | Some ptr \<Rightarrow> Filled (foldl (\<lambda>p i. fill_loop sz 0 (of_nat i)
            (write_at p 0 (replicate sz (of_nat i)))) ptr [0 ..< 255]))"

lemma fill_loop_eq:
  "j + k \<le> length p \<Longrightarrow> fill_loop k j v p = take j p @ replicate k v @ drop (j + k) p"
proof (induction k arbitrary: j p)
  case (Suc k)
  have "fill_loop (Suc k) j v p = take (j + 1) (p[j := v]) @ replicate k v @ drop (j + 1 + k) (p[j := v])"
    using Suc.IH[of "j + 1" "p[j := v]"] Suc.prems by simp
  also have "take (j + 1) (p[j := v]) = take j p @ [v]"
    using Suc.prems by (simp add: take_Suc_conv_app_nth)
  finally show ?case by simp
qed simp



subsection \<open>The generator of incompressible data\<close>

definition simple_random :: "u64 \<Rightarrow> u64" where
  "simple_random r = (r * 32719 + 3) mod 32749"

definition SAMPLES :: nat where "SAMPLES = 1024 * 1024"

fun fill_random :: "nat \<Rightarrow> u64 \<Rightarrow> u32 list \<times> u64" where
  \<comment> \<open>\<open>n\<close> turns of \<open>buffer[i] = simple_random()\<close>.\<close>
  "fill_random 0 r = ([], r)"
| "fill_random (Suc n) r =
     (let r = simple_random r; (b, r') = fill_random n r in (ucast r # b, r'))"

fun write_blocks :: "nat \<Rightarrow> nat \<Rightarrow> u64 \<Rightarrow> u32 list list" where
  \<comment> \<open>The buffers written to standard output, \<open>samples\<close> words each.\<close>
  "write_blocks 0 samples r = []"
| "write_blocks (Suc j) samples r =
     (let (b, r') = fill_random samples r in b # write_blocks j samples r')"

definition random_main :: "u32 list list" where
  "random_main = write_blocks 8 SAMPLES 1"

definition lcg :: "nat \<Rightarrow> nat" where
  \<comment> \<open>The generator on natural numbers.\<close>
  "lcg r = (r * 32719 + 3) mod 32749"

lemma simple_random_lcg:
  assumes "unat r < 32749"
  shows "unat (simple_random r) = lcg (unat r)"
proof -
  have "unat r * 32719 < 2 ^ 64 - 3" using assms by simp
  then have "unat (r * 32719 + 3) = unat r * 32719 + 3"
    by (simp add: unat_word_ariths)
  then show ?thesis by (simp add: simple_random_def lcg_def unat_mod)
qed

lemma lcg_bound: "(lcg ^^ n) r < 32749" if "r < 32749"
  using that by (cases n) (simp_all add: lcg_def)

lemma fill_random_lcg:
  "unat r < 32749 \<Longrightarrow> fill_random n r = (b, r') \<Longrightarrow>
   map unat b = map (\<lambda>i. (lcg ^^ Suc i) (unat r)) [0 ..< n] \<and> unat r' = (lcg ^^ n) (unat r)"
proof (induction n arbitrary: r b r')
  case (Suc n)
  let ?r = "simple_random r"
  have r: "unat ?r = lcg (unat r)" "unat ?r < 32749"
    using simple_random_lcg[OF Suc.prems(1)] by (simp_all add: lcg_def)
  obtain b1 where b1: "fill_random n ?r = (b1, r')" "b = ucast ?r # b1"
    using Suc.prems(2) by (auto simp: Let_def split: prod.splits)
  have "unat (ucast ?r :: u32) = unat ?r"
    using r(2) by (simp add: unsigned_ucast_eq take_bit_nat_eq_self)
  moreover have "map (\<lambda>i. (lcg ^^ Suc i) (unat r)) [0 ..< Suc n]
      = lcg (unat r) # map (\<lambda>i. (lcg ^^ Suc i) (lcg (unat r))) [0 ..< n]"
    by (simp add: upt_conv_Cons map_Suc_upt[symmetric] funpow_swap1 del: upt_Suc)
  ultimately show ?case
    using Suc.IH[OF r(2) b1(1)] r b1(2) by (simp add: funpow_swap1 del: upt_Suc)
qed simp

text \<open>C12. The words written by the generator are the congruential sequence
  \<open>x -> (32719 x + 3) mod 32749\<close> from 1, none lost to the 64-bit arithmetic or to the
  narrowing to 32 bits: block \<open>j\<close> goes on where block \<open>j - 1\<close> has stopped.\<close>
theorem random_blocks_are_lcg:
  assumes "j < k" "i < n"
  shows "write_blocks k n 1 ! j ! i = of_nat ((lcg ^^ (j * n + i + 1)) 1)"
proof -
  have "j < k \<Longrightarrow> i < n \<Longrightarrow> unat r < 32749 \<Longrightarrow>
      unat (write_blocks k n r ! j ! i) = (lcg ^^ (j * n + i + 1)) (unat r)" for r
  proof (induction k arbitrary: j r)
    case (Suc k)
    obtain b r' where b: "fill_random n r = (b, r')" by fastforce
    note f = fill_random_lcg[OF Suc.prems(3) b]
    have len: "length b = n" using f by (metis length_map length_upt minus_nat.diff_0)
    show ?case
    proof (cases j)
      case 0
      have "unat (b ! i) = map unat b ! i" using Suc.prems(2) len by simp
      then show ?thesis using 0 b f Suc.prems(2) by (simp del: funpow.simps)
    next
      case (Suc j')
      have "unat r' < 32749" using f lcg_bound[OF Suc.prems(3)] by simp
      then have "unat (write_blocks k n r' ! j' ! i) = (lcg ^^ (j' * n + i + 1)) (unat r')"
        using Suc.IH Suc.prems Suc by simp
      also have "\<dots> = (lcg ^^ (j' * n + i + 1 + n)) (unat r)"
        using f by (simp only: funpow_add o_apply)
      finally show ?thesis using b Suc by (simp add: ac_simps del: funpow.simps)
    qed
  qed simp
  from this[of 1] assms have "unat (write_blocks k n 1 ! j ! i) = (lcg ^^ (j * n + i + 1)) 1"
    by (simp del: funpow.simps)
  then show ?thesis by (metis of_nat_unat ucast_id)
qed

theorem random_blocks_are_lcg_witness:
  "write_blocks 2 2 1 ! 1 ! 0 = of_nat ((lcg ^^ 3) 1)"
  using random_blocks_are_lcg[of 1 2 0 2] by (simp add: numeral_3_eq_3)

end
