(* ===== verification/Byte_Order.thy ===== *)
theory Byte_Order
  imports Prelude
begin

unbundle bit_operations_syntax

text \<open>
  Words in memory: the bytes of a word in little- and big-endian order and the word of some
  bytes, as the unions, casts and byte-swapping macros (\<open>include/platform.h\<close>) of the
  programs read and write them on a little-endian machine.
\<close>

definition le_word :: "u8 list \<Rightarrow> 'a::len word" where
  "le_word bs = word_of_nat (horner_sum unat 256 bs)"

definition le_bytes :: "nat \<Rightarrow> 'a::len word \<Rightarrow> u8 list" where
  "le_bytes n w = map (\<lambda>k. ucast (drop_bit (8 * k) w)) [0 ..< n]"

definition be_word :: "u8 list \<Rightarrow> 'a::len word" where
  "be_word bs = le_word (rev bs)"

definition be_bytes :: "nat \<Rightarrow> 'a::len word \<Rightarrow> u8 list" where
  "be_bytes n w = rev (le_bytes n w)"

definition bswap :: "nat \<Rightarrow> 'a::len word \<Rightarrow> 'a word" where
  \<comment> \<open>\<open>SWAP_BE32\<close> (4 bytes) and \<open>SWAP_BE64\<close> (8 bytes) of a little-endian machine.\<close>
  "bswap n w = le_word (rev (le_bytes n w))"

lemma length_le_bytes [simp]: "length (le_bytes n w) = n"
  by (simp add: le_bytes_def)

lemma length_be_bytes [simp]: "length (be_bytes n w) = n"
  by (simp add: be_bytes_def)

lemma horner_bytes_less: "horner_sum unat (256 :: nat) (bs :: u8 list) < 256 ^ length bs"
proof (induction bs)
  case (Cons b bs)
  have "unat b < 256" using unsigned_less[of b, where 'a = nat] by simp
  then show ?case using Cons.IH by simp
qed simp

lemma horner_bytes_nth:
  "k < length bs \<Longrightarrow> horner_sum unat 256 (bs :: u8 list) div 256 ^ k mod 256 = unat (bs ! k)"
proof (induction bs arbitrary: k)
  case (Cons b bs)
  have b: "unat b < 256" using unsigned_less[of b, where 'a = nat] by simp
  show ?case
  proof (cases k)
    case 0
    then show ?thesis using b by simp
  next
    case (Suc j)
    have "horner_sum unat 256 (b # bs) div 256 ^ k = horner_sum unat 256 (b # bs) div 256 div 256 ^ j"
      by (simp add: Suc div_mult2_eq)
    also have "horner_sum unat 256 (b # bs) div 256 = horner_sum unat 256 bs" using b by simp
    finally show ?thesis using Cons Suc by simp
  qed
qed simp

lemma unat_drop_bit: "unat (drop_bit n w) = unat w div 2 ^ n"
  by (subst unsigned_drop_bit_eq) (simp add: drop_bit_eq_div take_bit_nat_eq_self)

lemma unat_ucast_u8: "unat (ucast w :: u8) = unat w mod 256"
  by (subst unsigned_ucast_eq) (simp add: take_bit_eq_mod)

lemma unat_le_word:
  assumes "8 * length bs \<le> LENGTH('a::len)"
  shows "unat (le_word bs :: 'a word) = horner_sum unat 256 bs"
proof -
  have "horner_sum unat 256 bs < 256 ^ length bs" by (rule horner_bytes_less)
  also have "\<dots> = 2 ^ (8 * length bs)" by (simp add: power_mult)
  also have "\<dots> \<le> 2 ^ LENGTH('a)" using assms by (intro power_increasing) auto
  finally show ?thesis unfolding le_word_def by (simp add: unsigned_of_nat take_bit_nat_eq_self)
qed

lemma le_bytes_le_word:
  assumes "8 * length bs \<le> LENGTH('a::len)"
  shows "le_bytes (length bs) (le_word bs :: 'a word) = bs"
proof (rule nth_equalityI)
  fix k assume "k < length (le_bytes (length bs) (le_word bs :: 'a word))"
  then have k: "k < length bs" by simp
  have "unat (le_bytes (length bs) (le_word bs :: 'a word) ! k)
      = unat (drop_bit (8 * k) (le_word bs :: 'a word)) mod 256"
    using k by (simp add: le_bytes_def unat_ucast_u8 del: drop_bit_eq_div)
  also have "unat (drop_bit (8 * k) (le_word bs :: 'a word)) = horner_sum unat 256 bs div 256 ^ k"
    by (simp only: unat_drop_bit unat_le_word[OF assms]) (simp add: power_mult)
  finally show "le_bytes (length bs) (le_word bs :: 'a word) ! k = bs ! k"
    using horner_bytes_nth[OF k] by (simp add: word_unat_eq_iff)
qed simp

lemma be_bytes_be_word:
  assumes "8 * length bs \<le> LENGTH('a::len)"
  shows "be_bytes (length bs) (be_word bs :: 'a word) = bs"
  using le_bytes_le_word[of "rev bs", where 'a = 'a] assms by (simp add: be_bytes_def be_word_def)

lemma le_bytes_bswap:
  assumes "8 * n \<le> LENGTH('a::len)"
  shows "le_bytes n (bswap n w :: 'a word) = be_bytes n w"
  using le_bytes_le_word[of "rev (le_bytes n w)", where 'a = 'a] assms
  by (simp add: bswap_def be_bytes_def)

lemma le_word_le_bytes:
  fixes w :: "'a::len word"
  assumes "8 * n = LENGTH('a)"
  shows "le_word (le_bytes n w) = w"
proof -
  have "horner_sum unat 256 (le_bytes m w) = unat w mod 256 ^ m" for m
  proof (induction m arbitrary: w)
    case (Suc m)
    have "le_bytes (Suc m) w = ucast w # le_bytes m (drop_bit 8 w)"
      by (simp add: le_bytes_def map_upt_Suc drop_bit_drop_bit add.commute del: upt_Suc)
    then have "horner_sum unat 256 (le_bytes (Suc m) w)
        = unat w mod 256 + 256 * (unat (drop_bit 8 w) mod 256 ^ m)"
      by (simp only: horner_sum_simps Suc.IH unat_ucast_u8)
    also have "\<dots> = unat w mod 256 ^ Suc m"
      by (simp only: unat_drop_bit power_Suc mod_mult2_eq) simp
    finally show ?case .
  qed (simp add: le_bytes_def)
  moreover have "(256 :: nat) ^ n = 2 ^ (8 * n)" by (simp add: power_mult)
  ultimately have "horner_sum unat 256 (le_bytes n w) = unat w" by (simp add: assms)
  then show ?thesis by (simp add: le_word_def)
qed

end
