(* ===== verification/Block_Feed.thy ===== *)
theory Block_Feed
  imports Byte_Order
begin

text \<open>
  The contract of a hash function that is fed a message in pieces: the chaining value and the
  bytes not yet hashed. \<open>absorb\<close> says what both are for a whole message; the locale
  \<open>block_feed\<close> states what one call of the feeding operation promises, and derives from it that
  the pieces do not matter. \<open>Md5_Sha\<close> interprets it on the two buffering loops of the code.
\<close>

function absorb :: "nat \<Rightarrow> ('h \<Rightarrow> u8 list \<Rightarrow> 'h) \<Rightarrow> 'h \<Rightarrow> u8 list \<Rightarrow> 'h \<times> u8 list" where
  "absorb bs compress h xs =
     (if bs = 0 \<or> length xs < bs then (h, xs)
      else absorb bs compress (compress h (take bs xs)) (drop bs xs))"
  by pat_completeness auto
termination by (relation "measure (\<lambda>(bs, compress, h, xs). length xs)") auto

declare absorb.simps [simp del]

lemma absorb_short [simp]: "length xs < bs \<Longrightarrow> absorb bs f h xs = (h, xs)"
  by (simp add: absorb.simps)

lemma absorb_block:
  "length xs = bs \<Longrightarrow> 0 < bs \<Longrightarrow> absorb bs f h (xs @ ys) = absorb bs f (f h xs) ys"
  by (subst absorb.simps) simp

lemma absorb_rest: "0 < bs \<Longrightarrow> absorb bs f h xs = (h', r) \<Longrightarrow> length r < bs"
  by (induction bs f h xs rule: absorb.induct) (subst (asm) absorb.simps, auto split: if_splits)

lemma absorb_append:
  "0 < bs \<Longrightarrow> absorb bs f h (xs @ ys) = (case absorb bs f h xs of (h', r) \<Rightarrow> absorb bs f h' (r @ ys))"
proof (induction bs f h xs rule: absorb.induct)
  case (1 bs f h xs)
  show ?case
  proof (cases "length xs < bs")
    case False
    then have "absorb bs f h (xs @ ys) = absorb bs f (f h (take bs xs)) (drop bs xs @ ys)"
      using 1(2) absorb_block[of "take bs xs" bs f h "drop bs xs @ ys"] by (simp flip: append_assoc)
    then show ?thesis using 1 False by (simp add: absorb.simps[of bs f h xs])
  qed simp
qed

lemma absorb_exact:
  assumes "0 < bs" "length xs mod bs = 0"
  shows "snd (absorb bs f h xs) = []"
  using assms
proof (induction bs f h xs rule: absorb.induct)
  case (1 bs f h xs)
  then show ?case
    by (cases "length xs < bs") (auto simp: absorb.simps[of bs f h xs] le_mod_geq not_less)
qed

locale block_feed =
  fixes bs :: nat
    and feed :: "'c \<Rightarrow> u8 list \<Rightarrow> 'c"
    and chain :: "'c \<Rightarrow> 'h"
    and pending :: "'c \<Rightarrow> u8 list"
    and compress :: "'h \<Rightarrow> u8 list \<Rightarrow> 'h"
    and ok :: "'c \<Rightarrow> bool"
  assumes pending_less: "ok c \<Longrightarrow> length (pending c) < bs"
    and feed_ok: "ok c \<Longrightarrow> ok (feed c d)"
    and feed_short: "ok c \<Longrightarrow> length (pending c) + length d < bs \<Longrightarrow>
      chain (feed c d) = chain c \<and> pending (feed c d) = pending c @ d"
    and feed_block: "ok c \<Longrightarrow> length (pending c) + length d = bs \<Longrightarrow>
      chain (feed c d) = compress (chain c) (pending c @ d) \<and> pending (feed c d) = []"
    and feed_split: "ok c \<Longrightarrow> length (pending c) + length d = bs \<Longrightarrow>
      chain (feed c (d @ e)) = chain (feed (feed c d) e)
      \<and> pending (feed c (d @ e)) = pending (feed (feed c d) e)"
begin

lemma feed_absorb:
  "ok c \<Longrightarrow> (chain (feed c d), pending (feed c d)) = absorb bs compress (chain c) (pending c @ d)"
proof (induction "length d" arbitrary: c d rule: less_induct)
  case less
  show ?case
  proof (cases "length (pending c) + length d < bs")
    case True
    then show ?thesis using feed_short[OF less.prems] by simp
  next
    case False
    define n where "n = bs - length (pending c)"
    have n: "0 < n" "n \<le> length d" "length (pending c) + length (take n d) = bs" "0 < bs"
      using pending_less[OF less.prems] False by (auto simp: n_def)
    have d: "d = take n d @ drop n d" by simp
    note block = feed_block[OF less.prems n(3)]
    have "(chain (feed c d), pending (feed c d))
        = (chain (feed (feed c (take n d)) (drop n d)), pending (feed (feed c (take n d)) (drop n d)))"
      using feed_split[OF less.prems n(3), of "drop n d"] by simp
    also have "\<dots> = absorb bs compress (chain (feed c (take n d))) (pending (feed c (take n d)) @ drop n d)"
      using less.hyps[of "drop n d" "feed c (take n d)"] n feed_ok[OF less.prems] by simp
    also have "\<dots> = absorb bs compress (compress (chain c) (pending c @ take n d)) (drop n d)"
      using block by simp
    also have "\<dots> = absorb bs compress (chain c) ((pending c @ take n d) @ drop n d)"
      using absorb_block[of "pending c @ take n d" bs compress "chain c" "drop n d"] n by simp
    finally show ?thesis by simp
  qed
qed

lemma foldl_feed_ok: "ok c \<Longrightarrow> ok (foldl feed c ds)"
  by (induction ds arbitrary: c) (auto intro: feed_ok)

text \<open>However a message is cut into pieces, the state is that of the whole message.\<close>

lemma foldl_feed_absorb:
  "ok c \<Longrightarrow> (chain (foldl feed c ds), pending (foldl feed c ds))
     = absorb bs compress (chain c) (pending c @ concat ds)"
proof (induction ds arbitrary: c)
  case Nil
  then show ?case using pending_less by simp
next
  case (Cons d ds)
  have "0 < bs" using pending_less[OF Cons.prems] by simp
  then have "absorb bs compress (chain c) (pending c @ concat (d # ds))
      = (case absorb bs compress (chain c) (pending c @ d) of (h, r) \<Rightarrow> absorb bs compress h (r @ concat ds))"
    using absorb_append[of bs compress "chain c" "pending c @ d" "concat ds"] by simp
  then show ?case
    using Cons.IH[OF feed_ok[OF Cons.prems, of d]] by (simp flip: feed_absorb[OF Cons.prems])
qed

end

end
