(* ===== verification/Md5_Block.thy ===== *)
theory Md5_Block
  imports Block_Feed
begin

unbundle bit_operations_syntax

text \<open>
  The block function of MD5 in \<open>libbb/hash_md5_sha.c\<close> (\<open>md5_process_block64\<close>), in the four
  builds that \<open>MD5_SIZE_VS_SPEED\<close> selects: one loop with a switch (3), four loops (2), four loops
  unrolled four times (1), and no loop (0). The machine is little-endian. The builds are proved
  to compute the same function.
\<close>

definition rotl32 :: "u32 \<Rightarrow> nat \<Rightarrow> u32" where
  "rotl32 x n = push_bit n x OR drop_bit (32 - n) x"

definition words32 :: "u8 list \<Rightarrow> u32 list" where
  \<comment> \<open>The block buffer read as 16 native words.\<close>
  "words32 w = map (\<lambda>i. le_word (take 4 (drop (4 * i) w))) [0 ..< 16]"

subsection \<open>The MD5 block function\<close>

definition FF :: "u32 \<Rightarrow> u32 \<Rightarrow> u32 \<Rightarrow> u32" where "FF b c d = d XOR (b AND (c XOR d))"
definition FG :: "u32 \<Rightarrow> u32 \<Rightarrow> u32 \<Rightarrow> u32" where "FG b c d = FF d b c"
definition FH :: "u32 \<Rightarrow> u32 \<Rightarrow> u32 \<Rightarrow> u32" where "FH b c d = b XOR c XOR d"
definition FI :: "u32 \<Rightarrow> u32 \<Rightarrow> u32 \<Rightarrow> u32" where "FI b c d = c XOR (b OR NOT d)"

definition C_array :: "u32 list" where "C_array = [
  0xd76aa478, 0xe8c7b756, 0x242070db, 0xc1bdceee,
  0xf57c0faf, 0x4787c62a, 0xa8304613, 0xfd469501,
  0x698098d8, 0x8b44f7af, 0xffff5bb1, 0x895cd7be,
  0x6b901122, 0xfd987193, 0xa679438e, 0x49b40821,
  0xf61e2562, 0xc040b340, 0x265e5a51, 0xe9b6c7aa,
  0xd62f105d, 0x02441453, 0xd8a1e681, 0xe7d3fbc8,
  0x21e1cde6, 0xc33707d6, 0xf4d50d87, 0x455a14ed,
  0xa9e3e905, 0xfcefa3f8, 0x676f02d9, 0x8d2a4c8a,
  0xfffa3942, 0x8771f681, 0x6d9d6122, 0xfde5380c,
  0xa4beea44, 0x4bdecfa9, 0xf6bb4b60, 0xbebfbc70,
  0x289b7ec6, 0xeaa127fa, 0xd4ef3085, 0x4881d05,
  0xd9d4d039, 0xe6db99e5, 0x1fa27cf8, 0xc4ac5665,
  0xf4292244, 0x432aff97, 0xab9423a7, 0xfc93a039,
  0x655b59c3, 0x8f0ccc92, 0xffeff47d, 0x85845dd1,
  0x6fa87e4f, 0xfe2ce6e0, 0xa3014314, 0x4e0811a1,
  0xf7537e82, 0xbd3af235, 0x2ad7d2bb, 0xeb86d391]"

definition P_array :: "nat list" where
  \<comment> \<open>In the builds 2 and 3; the builds below have it without its first row.\<close>
  "P_array = [
  0, 1, 2, 3, 4, 5, 6, 7, 8, 9, 10, 11, 12, 13, 14, 15,
  1, 6, 11, 0, 5, 10, 15, 4, 9, 14, 3, 8, 13, 2, 7, 12,
  5, 8, 11, 14, 1, 4, 7, 10, 13, 0, 3, 6, 9, 12, 15, 2,
  0, 7, 14, 5, 12, 3, 10, 1, 8, 15, 6, 13, 4, 11, 2, 9]"

definition P_array1 :: "nat list" where "P_array1 = drop 16 P_array"

definition S_array :: "nat list" where
  "S_array = [7, 12, 17, 22, 5, 9, 14, 20, 4, 11, 16, 23, 6, 10, 15, 21]"

text \<open>Build 3: one loop; \<open>pc\<close>, \<open>pp\<close> and \<open>ps\<close> are the pointers, as offsets in their arrays
  (\<open>ps\<close> starts before its array).\<close>

type_synonym md5_vars = "u32 \<times> u32 \<times> u32 \<times> u32"

definition md5_turn3 :: "u32 list \<Rightarrow> nat \<Rightarrow> md5_vars \<times> nat \<times> nat \<times> int \<Rightarrow> md5_vars \<times> nat \<times> nat \<times> int" where
  "md5_turn3 words i = (\<lambda>((A, B, C, D), pc, pp, ps).
     let ps = (if i mod 16 = 0 then ps + 4 else ps);
         temp = A;
         temp = (if i div 16 = 0 then temp + FF B C D
                 else if i div 16 = 1 then temp + FG B C D
                 else if i div 16 = 2 then temp + FH B C D
                 else if i div 16 = 3 then temp + FI B C D else temp);
         temp = temp + (words ! (P_array ! pp) + C_array ! pc);
         temp = rotl32 temp (S_array ! nat (ps + int (i mod 4)));
         temp = temp + B
     in ((D, temp, B, C), pc + 1, pp + 1, ps))"

definition md5_block3 :: "u32 list \<Rightarrow> md5_vars \<Rightarrow> md5_vars" where
  "md5_block3 words v = fst (foldl (\<lambda>s i. md5_turn3 words i s) (v, 0, 0, -4) [0 ..< 64])"

text \<open>Build 2: four loops of 16 turns.\<close>

definition md5_turn2 ::
    "(u32 \<Rightarrow> u32 \<Rightarrow> u32 \<Rightarrow> u32) \<Rightarrow> nat \<Rightarrow> u32 list \<Rightarrow> nat \<Rightarrow> md5_vars \<times> nat \<times> nat \<Rightarrow> md5_vars \<times> nat \<times> nat" where
  "md5_turn2 f ps words i = (\<lambda>((A, B, C, D), pc, pp).
     let temp = A + f B C D + words ! (P_array ! pp) + C_array ! pc;
         temp = rotl32 temp (S_array ! (ps + i mod 4));
         temp = temp + B
     in ((D, temp, B, C), pc + 1, pp + 1))"

definition md5_block2 :: "u32 list \<Rightarrow> md5_vars \<Rightarrow> md5_vars" where
  "md5_block2 words v =
     (let s = (v, 0, 0);
          s = foldl (\<lambda>s i. md5_turn2 FF 0 words i s) s [0 ..< 16];
          s = foldl (\<lambda>s i. md5_turn2 FG 4 words i s) s [0 ..< 16];
          s = foldl (\<lambda>s i. md5_turn2 FH 8 words i s) s [0 ..< 16];
          s = foldl (\<lambda>s i. md5_turn2 FI 12 words i s) s [0 ..< 16]
      in fst s)"

text \<open>Builds 1 and 0: the macro \<open>OP\<close> changes the first of the variables named.\<close>

definition OP :: "(u32 \<Rightarrow> u32 \<Rightarrow> u32 \<Rightarrow> u32) \<Rightarrow> u32 \<Rightarrow> u32 \<Rightarrow> u32 \<Rightarrow> u32 \<Rightarrow> u32 \<Rightarrow> nat \<Rightarrow> u32 \<Rightarrow> u32" where
  \<comment> \<open>The new value of \<open>a\<close>; \<open>x\<close> is the word of the block.\<close>
  "OP f a b c d x s T =
     (let a = a + (f b c d + x + T); a = rotl32 a s; a = a + b in a)"

definition md5_quad1 ::
    "(u32 \<Rightarrow> u32 \<Rightarrow> u32 \<Rightarrow> u32) \<Rightarrow> (nat \<Rightarrow> u32) \<Rightarrow> nat \<Rightarrow> nat \<Rightarrow> nat \<Rightarrow> nat
      \<Rightarrow> md5_vars \<times> nat \<times> nat \<Rightarrow> md5_vars \<times> nat \<times> nat" where
  \<comment> \<open>One turn of a loop of build 1: \<open>wd\<close> is the word at the running pointer (\<open>words\<close> itself in
      the first round, through \<open>P_array\<close> in the others).\<close>
  "md5_quad1 f wd s1 s2 s3 s4 = (\<lambda>((A, B, C, D), pc, pp).
     let A = OP f A B C D (wd pp) s1 (C_array ! pc);
         D = OP f D A B C (wd (pp + 1)) s2 (C_array ! (pc + 1));
         C = OP f C D A B (wd (pp + 2)) s3 (C_array ! (pc + 2));
         B = OP f B C D A (wd (pp + 3)) s4 (C_array ! (pc + 3))
     in ((A, B, C, D), pc + 4, pp + 4))"

definition md5_block1 :: "u32 list \<Rightarrow> md5_vars \<Rightarrow> md5_vars" where
  "md5_block1 words v =
     (let wd = (\<lambda>pp. words ! (P_array1 ! pp));
          (v, pc, _) = foldl (\<lambda>s i. md5_quad1 FF (\<lambda>k. words ! k) 7 12 17 22 s) (v, 0, 0) [0 ..< 4];
          s = (v, pc, 0);
          s = foldl (\<lambda>s i. md5_quad1 FG wd 5 9 14 20 s) s [0 ..< 4];
          s = foldl (\<lambda>s i. md5_quad1 FH wd 4 11 16 23 s) s [0 ..< 4];
          s = foldl (\<lambda>s i. md5_quad1 FI wd 6 10 15 21 s) s [0 ..< 4]
      in fst s)"

text \<open>Build 0 is 64 calls of \<open>OP\<close>: the variables by number (\<open>A\<close> is 0), the number of the word,
  the rotation and the constant.\<close>

type_synonym md5_op = "nat \<times> nat \<times> nat \<times> nat \<times> nat \<times> nat \<times> u32"

definition ops_round1 :: "md5_op list" where
  "ops_round1 = [
    (0, 1, 2, 3, 0, 7, 0xd76aa478),
    (3, 0, 1, 2, 1, 12, 0xe8c7b756),
    (2, 3, 0, 1, 2, 17, 0x242070db),
    (1, 2, 3, 0, 3, 22, 0xc1bdceee),
    (0, 1, 2, 3, 4, 7, 0xf57c0faf),
    (3, 0, 1, 2, 5, 12, 0x4787c62a),
    (2, 3, 0, 1, 6, 17, 0xa8304613),
    (1, 2, 3, 0, 7, 22, 0xfd469501),
    (0, 1, 2, 3, 8, 7, 0x698098d8),
    (3, 0, 1, 2, 9, 12, 0x8b44f7af),
    (2, 3, 0, 1, 10, 17, 0xffff5bb1),
    (1, 2, 3, 0, 11, 22, 0x895cd7be),
    (0, 1, 2, 3, 12, 7, 0x6b901122),
    (3, 0, 1, 2, 13, 12, 0xfd987193),
    (2, 3, 0, 1, 14, 17, 0xa679438e),
    (1, 2, 3, 0, 15, 22, 0x49b40821)]"

definition ops_round2 :: "md5_op list" where
  "ops_round2 = [
    (0, 1, 2, 3, 1, 5, 0xf61e2562),
    (3, 0, 1, 2, 6, 9, 0xc040b340),
    (2, 3, 0, 1, 11, 14, 0x265e5a51),
    (1, 2, 3, 0, 0, 20, 0xe9b6c7aa),
    (0, 1, 2, 3, 5, 5, 0xd62f105d),
    (3, 0, 1, 2, 10, 9, 0x02441453),
    (2, 3, 0, 1, 15, 14, 0xd8a1e681),
    (1, 2, 3, 0, 4, 20, 0xe7d3fbc8),
    (0, 1, 2, 3, 9, 5, 0x21e1cde6),
    (3, 0, 1, 2, 14, 9, 0xc33707d6),
    (2, 3, 0, 1, 3, 14, 0xf4d50d87),
    (1, 2, 3, 0, 8, 20, 0x455a14ed),
    (0, 1, 2, 3, 13, 5, 0xa9e3e905),
    (3, 0, 1, 2, 2, 9, 0xfcefa3f8),
    (2, 3, 0, 1, 7, 14, 0x676f02d9),
    (1, 2, 3, 0, 12, 20, 0x8d2a4c8a)]"

definition ops_round3 :: "md5_op list" where
  "ops_round3 = [
    (0, 1, 2, 3, 5, 4, 0xfffa3942),
    (3, 0, 1, 2, 8, 11, 0x8771f681),
    (2, 3, 0, 1, 11, 16, 0x6d9d6122),
    (1, 2, 3, 0, 14, 23, 0xfde5380c),
    (0, 1, 2, 3, 1, 4, 0xa4beea44),
    (3, 0, 1, 2, 4, 11, 0x4bdecfa9),
    (2, 3, 0, 1, 7, 16, 0xf6bb4b60),
    (1, 2, 3, 0, 10, 23, 0xbebfbc70),
    (0, 1, 2, 3, 13, 4, 0x289b7ec6),
    (3, 0, 1, 2, 0, 11, 0xeaa127fa),
    (2, 3, 0, 1, 3, 16, 0xd4ef3085),
    (1, 2, 3, 0, 6, 23, 0x04881d05),
    (0, 1, 2, 3, 9, 4, 0xd9d4d039),
    (3, 0, 1, 2, 12, 11, 0xe6db99e5),
    (2, 3, 0, 1, 15, 16, 0x1fa27cf8),
    (1, 2, 3, 0, 2, 23, 0xc4ac5665)]"

definition ops_round4 :: "md5_op list" where
  "ops_round4 = [
    (0, 1, 2, 3, 0, 6, 0xf4292244),
    (3, 0, 1, 2, 7, 10, 0x432aff97),
    (2, 3, 0, 1, 14, 15, 0xab9423a7),
    (1, 2, 3, 0, 5, 21, 0xfc93a039),
    (0, 1, 2, 3, 12, 6, 0x655b59c3),
    (3, 0, 1, 2, 3, 10, 0x8f0ccc92),
    (2, 3, 0, 1, 10, 15, 0xffeff47d),
    (1, 2, 3, 0, 1, 21, 0x85845dd1),
    (0, 1, 2, 3, 8, 6, 0x6fa87e4f),
    (3, 0, 1, 2, 15, 10, 0xfe2ce6e0),
    (2, 3, 0, 1, 6, 15, 0xa3014314),
    (1, 2, 3, 0, 13, 21, 0x4e0811a1),
    (0, 1, 2, 3, 4, 6, 0xf7537e82),
    (3, 0, 1, 2, 11, 10, 0xbd3af235),
    (2, 3, 0, 1, 2, 15, 0x2ad7d2bb),
    (1, 2, 3, 0, 9, 21, 0xeb86d391)]"

definition do_op :: "(u32 \<Rightarrow> u32 \<Rightarrow> u32 \<Rightarrow> u32) \<Rightarrow> u32 list \<Rightarrow> u32 list \<Rightarrow> md5_op \<Rightarrow> u32 list" where
  "do_op f words v = (\<lambda>(a, b, c, d, k, s, T).
     v[a := OP f (v ! a) (v ! b) (v ! c) (v ! d) (words ! k) s T])"

definition md5_block0 :: "u32 list \<Rightarrow> u32 list \<Rightarrow> u32 list" where
  "md5_block0 words v =
     (let v = foldl (do_op FF words) v ops_round1;
          v = foldl (do_op FG words) v ops_round2;
          v = foldl (do_op FH words) v ops_round3;
          v = foldl (do_op FI words) v ops_round4
      in v)"

definition md5_vars_of :: "nat \<Rightarrow> u32 list \<Rightarrow> u32 list \<Rightarrow> u32 list" where
  \<comment> \<open>The four variables after the rounds, in the build \<open>MD5_SIZE_VS_SPEED = speed\<close>.\<close>
  "md5_vars_of speed words h =
     (let v = (h ! 0, h ! 1, h ! 2, h ! 3); l = (\<lambda>(A, B, C, D). [A, B, C, D]) in
      if speed = 0 then md5_block0 words [h ! 0, h ! 1, h ! 2, h ! 3]
      else if speed = 1 then l (md5_block1 words v)
      else if speed = 2 then l (md5_block2 words v)
      else l (md5_block3 words v))"

definition md5_compress :: "nat \<Rightarrow> u32 list \<Rightarrow> u8 list \<Rightarrow> u32 list" where
  "md5_compress speed h w =
     (let v = md5_vars_of speed (words32 w) h
      in h[0 := h ! 0 + v ! 0, 1 := h ! 1 + v ! 1, 2 := h ! 2 + v ! 2, 3 := h ! 3 + v ! 3])"

subsection \<open>The four builds agree\<close>

text \<open>The rounds of RFC 1321 with the variables renamed after each operation.\<close>

definition md5_step :: "(u32 \<Rightarrow> u32 \<Rightarrow> u32 \<Rightarrow> u32) \<Rightarrow> u32 \<Rightarrow> nat \<Rightarrow> u32 \<Rightarrow> md5_vars \<Rightarrow> md5_vars" where
  "md5_step f x s T = (\<lambda>(A, B, C, D). (D, rotl32 (A + f B C D + x + T) s + B, B, C))"

definition round_fun :: "nat \<Rightarrow> u32 \<Rightarrow> u32 \<Rightarrow> u32 \<Rightarrow> u32" where
  "round_fun r = [FF, FG, FH, FI] ! r"

definition md5_ref_step :: "u32 list \<Rightarrow> md5_vars \<Rightarrow> nat \<Rightarrow> md5_vars" where
  "md5_ref_step words v i = md5_step (round_fun (i div 16)) (words ! (P_array ! i))
     (S_array ! (4 * (i div 16) + i mod 4)) (C_array ! i) v"

definition md5_ref :: "u32 list \<Rightarrow> md5_vars \<Rightarrow> md5_vars" where
  "md5_ref words v = foldl (md5_ref_step words) v [0 ..< 64]"

lemma round_fun_simps [simp]:
  "round_fun 0 = FF" "round_fun (Suc 0) = FG" "round_fun 2 = FH" "round_fun 3 = FI"
  by (simp_all add: round_fun_def)

lemma md5_step_quad:
  "md5_step f x3 s3 T3 (md5_step f x2 s2 T2 (md5_step f x1 s1 T1 (md5_step f x0 s0 T0 (A, B, C, D)))) =
    (let A = OP f A B C D x0 s0 T0; D = OP f D A B C x1 s1 T1;
         C = OP f C D A B x2 s2 T2; B = OP f B C D A x3 s3 T3 in (A, B, C, D))"
  by (simp add: md5_step_def OP_def Let_def add.assoc)

lemma md5_turn3_ref:
  assumes "n < 64" "(if n mod 16 = 0 then ps + 4 else ps) = int (4 * (n div 16))"
  shows "md5_turn3 words n (v, n, n, ps) = (md5_ref_step words v n, n + 1, n + 1, int (4 * (n div 16)))"
proof -
  have "n div 16 < 4" using assms by (simp add: less_mult_imp_div_less)
  then have r: "n div 16 = 0 \<or> n div 16 = 1 \<or> n div 16 = 2 \<or> n div 16 = 3" by linarith
  have s: "nat (int (4 * (n div 16)) + int (n mod 4)) = 4 * (n div 16) + n mod 4" by linarith
  obtain A B C D where v: "v = (A, B, C, D)" by (cases v)
  show ?thesis
    unfolding md5_turn3_def md5_ref_step_def md5_step_def assms(2) s v Let_def prod.case
    using r by (elim disjE) (simp_all add: add.assoc)
qed

lemma pointer_ps: "int (4 * ((n + 15) div 16)) - 4 + (if n mod 16 = 0 then 4 else 0) = int (4 * (n div 16))"
proof -
  define q m where "q = n div 16" and "m = n mod 16"
  then have n: "n = 16 * q + m" "m < 16" by simp_all
  have "(n + 15) div 16 = (if m = 0 then q else q + 1)" using n by (auto intro!: div_nat_eqI)
  then show ?thesis by (simp add: q_def m_def)
qed

lemma md5_block3_ref: "md5_block3 words v = md5_ref words v"
proof -
  have "n \<le> 64 \<Longrightarrow> foldl (\<lambda>s i. md5_turn3 words i s) (v, 0, 0, -4) [0 ..< n]
      = (foldl (md5_ref_step words) v [0 ..< n], n, n, int (4 * ((n + 15) div 16)) - 4)" for n
  proof (induction n)
    case (Suc n)
    have "(if n mod 16 = 0 then int (4 * ((n + 15) div 16)) - 4 + 4 else int (4 * ((n + 15) div 16)) - 4)
        = int (4 * (n div 16))" using pointer_ps[of n] by (cases "n mod 16 = 0") simp_all
    note turn = md5_turn3_ref[OF _ this]
    have "int (4 * (n div 16)) = int (4 * ((Suc n + 15) div 16)) - 4"
      using div_add_self1[of 16 n] by (simp add: add.commute[of n])
    then show ?case using turn Suc by (simp del: of_nat_mult)
  qed simp
  from this[of 64] show ?thesis by (simp only: md5_block3_def md5_ref_def fst_conv order_refl)
qed

lemma round_index:
  assumes "(n :: nat) < 16"
  shows "(16 * r + n) div 16 = r" "(16 * r + n) mod 4 = n mod 4"
proof -
  show "(16 * r + n) div 16 = r" using assms by (intro div_nat_eqI) simp_all
  have "(4 * (4 * r) + n) mod 4 = n mod 4" by (simp only: mod_mult_self4)
  then show "(16 * r + n) mod 4 = n mod 4" by simp
qed

lemma md5_turn2_ref:
  assumes "n < 16"
  shows "md5_turn2 (round_fun r) (4 * r) words n (v, 16 * r + n, 16 * r + n)
    = (md5_ref_step words v (16 * r + n), 16 * r + n + 1, 16 * r + n + 1)"
  by (cases v) (simp add: md5_turn2_def md5_ref_step_def md5_step_def Let_def round_index[OF assms])

lemma md5_loop2_ref:
  "n \<le> 16 \<Longrightarrow> foldl (\<lambda>s i. md5_turn2 (round_fun r) (4 * r) words i s) (v, 16 * r, 16 * r) [0 ..< n]
    = (foldl (md5_ref_step words) v [16 * r ..< 16 * r + n], 16 * r + n, 16 * r + n)"
  by (induction n) (simp_all add: md5_turn2_ref)

lemma md5_ref_split:
  "md5_ref words v = foldl (md5_ref_step words) (foldl (md5_ref_step words) (foldl (md5_ref_step words)
     (foldl (md5_ref_step words) v [16 * 0 ..< 16 * 0 + 16]) [16 * 1 ..< 16 * 1 + 16])
     [16 * 2 ..< 16 * 2 + 16]) [16 * 3 ..< 16 * 3 + 16]"
proof -
  have "[0 ..< 64 :: nat] = [0 ..< 16] @ [16 ..< 32] @ [32 ..< 48] @ [48 ..< 64]"
    using upt_add_eq_append[of 0 16 48] upt_add_eq_append[of 16 32 32] upt_add_eq_append[of 32 48 16]
    by simp
  then show ?thesis by (simp add: md5_ref_def del: upt_rec_numeral)
qed

lemma md5_block2_ref: "md5_block2 words v = md5_ref words v"
  using md5_loop2_ref[where n = 16 and r = 0 and words = words]
    md5_loop2_ref[where n = 16 and r = 1 and words = words]
    md5_loop2_ref[where n = 16 and r = 2 and words = words]
    md5_loop2_ref[where n = 16 and r = 3 and words = words]
  by (simp add: md5_block2_def md5_ref_split Let_def del: upt_rec_numeral)

lemma md5_quad1_ref:
  assumes "n < 4" "\<And>k. k < 16 \<Longrightarrow> wd (p + k) = words ! (P_array ! (16 * r + k))"
  shows "md5_quad1 (round_fun r) wd (S_array ! (4 * r)) (S_array ! (4 * r + 1))
      (S_array ! (4 * r + 2)) (S_array ! (4 * r + 3)) (v, 16 * r + 4 * n, p + 4 * n)
    = (foldl (md5_ref_step words) v [16 * r + 4 * n ..< 16 * r + 4 * Suc n],
       16 * r + 4 * Suc n, p + 4 * Suc n)"
proof -
  let ?i = "16 * r + 4 * n"
  have div: "?i div 16 = r" "(?i + 1) div 16 = r" "(?i + 2) div 16 = r" "(?i + 3) div 16 = r"
    "?i mod 4 = 0" "(?i + 1) mod 4 = 1" "(?i + 2) mod 4 = 2" "(?i + 3) mod 4 = 3"
    using assms(1) round_index[of "4 * n" r] round_index[of "4 * n + 1" r]
      round_index[of "4 * n + 2" r] round_index[of "4 * n + 3" r]
    by (simp_all add: add.assoc mod_Suc del: add_2_eq_Suc')
  have wd: "wd (p + 4 * n) = words ! (P_array ! ?i)" "wd (p + 4 * n + 1) = words ! (P_array ! (?i + 1))"
    "wd (p + 4 * n + 2) = words ! (P_array ! (?i + 2))" "wd (p + 4 * n + 3) = words ! (P_array ! (?i + 3))"
    using assms(2)[of "4 * n"] assms(2)[of "4 * n + 1"] assms(2)[of "4 * n + 2"]
      assms(2)[of "4 * n + 3"] assms(1) by (simp_all add: add.assoc)
  obtain A B C D where v: "v = (A, B, C, D)" by (cases v)
  have "[?i ..< 16 * r + 4 * Suc n] = [?i, ?i + 1, ?i + 2, ?i + 3]"
    by (simp add: upt_conv_Cons)
  then have "foldl (md5_ref_step words) v [?i ..< 16 * r + 4 * Suc n]
      = md5_ref_step words (md5_ref_step words (md5_ref_step words (md5_ref_step words (A, B, C, D)
          ?i) (?i + 1)) (?i + 2)) (?i + 3)" by (simp add: v)
  also have "\<dots> = (let A = OP (round_fun r) A B C D (wd (p + 4 * n)) (S_array ! (4 * r)) (C_array ! ?i);
      D = OP (round_fun r) D A B C (wd (p + 4 * n + 1)) (S_array ! (4 * r + 1)) (C_array ! (?i + 1));
      C = OP (round_fun r) C D A B (wd (p + 4 * n + 2)) (S_array ! (4 * r + 2)) (C_array ! (?i + 2));
      B = OP (round_fun r) B C D A (wd (p + 4 * n + 3)) (S_array ! (4 * r + 3)) (C_array ! (?i + 3))
      in (A, B, C, D))"
    by (simp only: md5_ref_step_def div wd md5_step_quad add_0_right)
  finally show ?thesis by (simp add: md5_quad1_def v Let_def)
qed

lemma md5_loop1_ref:
  assumes "n \<le> 4" "\<And>k. k < 16 \<Longrightarrow> wd (p + k) = words ! (P_array ! (16 * r + k))"
  shows "foldl (\<lambda>s i. md5_quad1 (round_fun r) wd (S_array ! (4 * r)) (S_array ! (4 * r + 1))
      (S_array ! (4 * r + 2)) (S_array ! (4 * r + 3)) s) (v, 16 * r, p) [0 ..< n]
    = (foldl (md5_ref_step words) v [16 * r ..< 16 * r + 4 * n], 16 * r + 4 * n, p + 4 * n)"
  using assms(1)
proof (induction n)
  case (Suc n)
  have "[16 * r ..< 16 * r + 4 * Suc n] = [16 * r ..< 16 * r + 4 * n] @ [16 * r + 4 * n ..< 16 * r + 4 * Suc n]"
    using upt_add_eq_append[of "16 * r" "16 * r + 4 * n" 4] by (simp add: ac_simps)
  then show ?case
    using Suc md5_quad1_ref[OF _ assms(2), of n] by (simp del: mult_Suc_right upt_Suc add: upt_Suc[of 0])
qed simp

lemma S_nth:
  "S_array ! (4 * 0) = 7" "S_array ! (4 * 0 + 1) = 12" "S_array ! (4 * 0 + 2) = 17" "S_array ! (4 * 0 + 3) = 22"
  "S_array ! (4 * 1) = 5" "S_array ! (4 * 1 + 1) = 9" "S_array ! (4 * 1 + 2) = 14" "S_array ! (4 * 1 + 3) = 20"
  "S_array ! (4 * 2) = 4" "S_array ! (4 * 2 + 1) = 11" "S_array ! (4 * 2 + 2) = 16" "S_array ! (4 * 2 + 3) = 23"
  "S_array ! (4 * 3) = 6" "S_array ! (4 * 3 + 1) = 10" "S_array ! (4 * 3 + 2) = 15" "S_array ! (4 * 3 + 3) = 21"
  by (simp_all add: S_array_def)

lemma P_array_row0: "k < 16 \<Longrightarrow> P_array ! k = k"
proof -
  assume k: "k < 16"
  have "take 16 P_array = [0 ..< 16]" by (simp add: P_array_def upt_rec)
  then have "take 16 P_array ! k = [0 ..< 16] ! k" by simp
  then show ?thesis using k by (simp del: upt_rec_numeral)
qed

lemma P_array1_nth: "P_array1 ! (16 * r + k) = P_array ! (16 * (r + 1) + k)"
proof -
  have "length P_array = 64" by (simp add: P_array_def)
  then show ?thesis by (simp add: P_array1_def add.assoc add.left_commute)
qed

lemma md5_block1_ref: "md5_block1 words v = md5_ref words v"
proof -
  let ?wd = "\<lambda>pp. words ! (P_array1 ! pp)"
  have l1: "foldl (\<lambda>s i. md5_quad1 FF (\<lambda>k. words ! k) 7 12 17 22 s) (v, 0, 0) [0 ..< 4]
      = (foldl (md5_ref_step words) v [16 * 0 ..< 16 * 0 + 16], 16, 16)" for v
    using md5_loop1_ref[of 4 "\<lambda>k. words ! k" 0 words 0 v] P_array_row0
    unfolding S_nth by (simp del: upt_rec_numeral)
  have l2: "foldl (\<lambda>s i. md5_quad1 FG ?wd 5 9 14 20 s) (v, 16, 0) [0 ..< 4]
      = (foldl (md5_ref_step words) v [16 * 1 ..< 16 * 1 + 16], 32, 16)" for v
    using md5_loop1_ref[of 4 ?wd 0 words 1 v] P_array1_nth[of 0]
    unfolding S_nth by (simp del: upt_rec_numeral)
  have l3: "foldl (\<lambda>s i. md5_quad1 FH ?wd 4 11 16 23 s) (v, 32, 16) [0 ..< 4]
      = (foldl (md5_ref_step words) v [16 * 2 ..< 16 * 2 + 16], 48, 32)" for v
    using md5_loop1_ref[of 4 ?wd 16 words 2 v] P_array1_nth[of 1]
    unfolding S_nth by (simp del: upt_rec_numeral)
  have l4: "foldl (\<lambda>s i. md5_quad1 FI ?wd 6 10 15 21 s) (v, 48, 32) [0 ..< 4]
      = (foldl (md5_ref_step words) v [16 * 3 ..< 16 * 3 + 16], 64, 48)" for v
    using md5_loop1_ref[of 4 ?wd 32 words 3 v] P_array1_nth[of 2]
    unfolding S_nth by (simp del: upt_rec_numeral)
  show ?thesis
    unfolding md5_block1_def Let_def l1 prod.case l2 l3 l4 md5_ref_split fst_conv ..
qed

text \<open>Build 0: its operations, in groups of four.\<close>

definition quad_ops :: "nat \<Rightarrow> nat \<Rightarrow> md5_op list" where
  "quad_ops r n = (let i = 16 * r + 4 * n in
     [(0, 1, 2, 3, P_array ! i, S_array ! (4 * r), C_array ! i),
      (3, 0, 1, 2, P_array ! (i + 1), S_array ! (4 * r + 1), C_array ! (i + 1)),
      (2, 3, 0, 1, P_array ! (i + 2), S_array ! (4 * r + 2), C_array ! (i + 2)),
      (1, 2, 3, 0, P_array ! (i + 3), S_array ! (4 * r + 3), C_array ! (i + 3))])"

lemma upt_4: "[0 ..< 4] = [0, 1, 2, 3 :: nat]"
  by (simp add: upt_rec)

lemma ops_rounds:
  "ops_round1 = concat (map (quad_ops 0) [0 ..< 4])" "ops_round2 = concat (map (quad_ops 1) [0 ..< 4])"
  "ops_round3 = concat (map (quad_ops 2) [0 ..< 4])" "ops_round4 = concat (map (quad_ops 3) [0 ..< 4])"
  unfolding upt_4
  by (simp_all add: ops_round1_def ops_round2_def ops_round3_def ops_round4_def quad_ops_def
      C_array_def P_array_def S_array_def)

definition var_list :: "md5_vars \<Rightarrow> u32 list" where
  "var_list = (\<lambda>(A, B, C, D). [A, B, C, D])"

lemma do_quad_ref:
  assumes "n < 4"
  shows "foldl (do_op (round_fun r) words) (var_list v) (quad_ops r n)
    = var_list (foldl (md5_ref_step words) v [16 * r + 4 * n ..< 16 * r + 4 * Suc n])"
proof -
  let ?wd = "\<lambda>k. words ! (P_array ! (16 * r + k))"
  have "foldl (md5_ref_step words) v [16 * r + 4 * n ..< 16 * r + 4 * Suc n]
      = fst (md5_quad1 (round_fun r) ?wd (S_array ! (4 * r)) (S_array ! (4 * r + 1))
          (S_array ! (4 * r + 2)) (S_array ! (4 * r + 3)) (v, 16 * r + 4 * n, 4 * n))"
    using md5_quad1_ref[OF assms, of ?wd 0 words r v] by simp
  then show ?thesis
    by (cases v) (simp add: quad_ops_def do_op_def md5_quad1_def var_list_def Let_def add.assoc
        numeral_2_eq_2 numeral_3_eq_3)
qed

lemma do_round_ref:
  "n \<le> 4 \<Longrightarrow> foldl (do_op (round_fun r) words) (var_list v) (concat (map (quad_ops r) [0 ..< n]))
    = var_list (foldl (md5_ref_step words) v [16 * r ..< 16 * r + 4 * n])"
proof (induction n)
  case (Suc n)
  have "[16 * r ..< 16 * r + 4 * Suc n] = [16 * r ..< 16 * r + 4 * n] @ [16 * r + 4 * n ..< 16 * r + 4 * Suc n]"
    using upt_add_eq_append[of "16 * r" "16 * r + 4 * n" 4] by (simp add: ac_simps)
  then show ?case using Suc do_quad_ref[of n] by (simp del: mult_Suc_right upt_Suc add: upt_Suc[of 0])
qed simp

lemma md5_block0_ref: "md5_block0 words (var_list v) = var_list (md5_ref words v)"
proof -
  have r: "foldl (do_op (round_fun r) words) (var_list v) (concat (map (quad_ops r) [0 ..< 4]))
      = var_list (foldl (md5_ref_step words) v [16 * r ..< 16 * r + 16])" for r v
    using do_round_ref[of 4 r words v] by simp
  show ?thesis
    unfolding md5_block0_def Let_def ops_rounds md5_ref_split
    using r[of 0] r[of 1] r[of 2] r[of 3] by (simp del: upt_rec_numeral)
qed

definition md5_ref_compress :: "u32 list \<Rightarrow> u8 list \<Rightarrow> u32 list" where
  \<comment> \<open>RFC 1321, section 3.4, on a block.\<close>
  "md5_ref_compress h w = (let v = var_list (md5_ref (words32 w) (h ! 0, h ! 1, h ! 2, h ! 3))
     in h[0 := h ! 0 + v ! 0, 1 := h ! 1 + v ! 1, 2 := h ! 2 + v ! 2, 3 := h ! 3 + v ! 3])"

lemma md5_compress_ref: "md5_compress speed = md5_ref_compress"
proof (intro ext)
  fix h :: "u32 list" and w :: "u8 list"
  let ?v = "(h ! 0, h ! 1, h ! 2, h ! 3)"
  have "md5_vars_of speed words h = var_list (md5_ref words ?v)" for words
    using md5_block0_ref[of words ?v]
    by (simp add: md5_vars_of_def md5_block1_ref md5_block2_ref md5_block3_ref var_list_def Let_def)
  then show "md5_compress speed h w = md5_ref_compress h w"
    by (simp add: md5_compress_def md5_ref_compress_def Let_def)
qed

text \<open>C16. All builds of \<open>md5_process_block64\<close>, whatever \<open>MD5_SIZE_VS_SPEED\<close> is, compute the same
  chaining value from every block, and it is that of the 64 rounds of RFC 1321.\<close>
theorem md5_builds_agree:
  "md5_compress speed h w = md5_compress speed' h w \<and> md5_compress speed h w = md5_ref_compress h w"
  by (simp add: md5_compress_ref)

end
