(* ===== verification/Sha_Blocks.thy ===== *)
theory Sha_Blocks
  imports Md5_Block
begin

unbundle bit_operations_syntax

text \<open>
  The block functions of SHA-1, SHA-256 and SHA-512 in \<open>libbb/hash_md5_sha.c\<close>. SHA-1 keeps the
  last 16 words of the message schedule in a doubled array of 32; it is proved to compute the
  rounds of FIPS 180-2, whose schedule has 80 words.
\<close>

definition rotr32 :: "u32 \<Rightarrow> nat \<Rightarrow> u32" where
  "rotr32 x n = drop_bit n x OR push_bit (32 - n) x"

definition rotr64 :: "u64 \<Rightarrow> nat \<Rightarrow> u64" where
  "rotr64 x n = drop_bit n x OR push_bit (64 - n) x"

definition words64 :: "u8 list \<Rightarrow> u64 list" where
  \<comment> \<open>The block buffer of SHA-512 read as 16 native words.\<close>
  "words64 w = map (\<lambda>i. le_word (take 8 (drop (8 * i) w))) [0 ..< 16]"

definition SWAP_BE32 :: "u32 \<Rightarrow> u32" where "SWAP_BE32 = bswap 4"
definition SWAP_BE64 :: "u64 \<Rightarrow> u64" where "SWAP_BE64 = bswap 8"

subsection \<open>SHA-1\<close>

definition rconsts :: "u32 list" where
  "rconsts = [0x5a827999, 0x6ed9eba1, 0x8f1bbcdc, 0xca62c1d6]"

type_synonym sha1_vars = "u32 \<times> u32 \<times> u32 \<times> u32 \<times> u32"

definition sha1_turn :: "nat \<times> nat \<Rightarrow> sha1_vars \<times> u32 list \<times> nat \<Rightarrow> sha1_vars \<times> u32 list \<times> nat" where
  \<comment> \<open>One turn of the inner loop: \<open>i\<close> and \<open>j\<close> are its counters, \<open>ge16\<close> says whether the label of
      that name is passed.\<close>
  "sha1_turn = (\<lambda>(i, j) ((a, b, c, d, e), W, cnt).
     let work = c XOR d;
         (work, ge16) =
           (if i = 0
            then (let work = (work AND b) XOR d in
                  if j \<le> 3 then (work, True) else (work + W ! cnt, False))
            else if i = 2 then (((b OR c) AND d) OR (b AND c), True)
            else (work XOR b, True));
         (work, W) =
           (if ge16
            then (let x = rotl32 (W ! (cnt + 13) XOR W ! (cnt + 8) XOR W ! (cnt + 2) XOR W ! cnt) 1;
                      W = W[cnt + 16 := x, cnt := x]
                  in (work + W ! cnt, W))
            else (work, W));
         work = work + (e + rotl32 a 5 + rconsts ! i)
     in ((work, a, rotl32 b 30, c, d), W, (cnt + 1) mod 16))"

definition sha1_turns :: "(nat \<times> nat) list" where
  \<comment> \<open>The values of the two loop counters in turn.\<close>
  "sha1_turns = concat (map (\<lambda>i. map (\<lambda>j. (i, j)) (rev [0 ..< 20])) [0 ..< 4])"

definition sha1_compress :: "u32 list \<Rightarrow> u8 list \<Rightarrow> u32 list" where
  "sha1_compress h w =
     (let ws = map SWAP_BE32 (words32 w);
          ((a, b, c, d, e), _, _) =
            foldl (\<lambda>s t. sha1_turn t s) ((h ! 0, h ! 1, h ! 2, h ! 3, h ! 4), ws @ ws, 0) sha1_turns
      in h[0 := h ! 0 + a, 1 := h ! 1 + b, 2 := h ! 2 + c, 3 := h ! 3 + d, 4 := h ! 4 + e])"

subsection \<open>SHA-256 and SHA-512\<close>

definition sha_K :: "u64 list" where "sha_K = [
  0x428a2f98d728ae22, 0x7137449123ef65cd, 0xb5c0fbcfec4d3b2f, 0xe9b5dba58189dbbc,
  0x3956c25bf348b538, 0x59f111f1b605d019, 0x923f82a4af194f9b, 0xab1c5ed5da6d8118,
  0xd807aa98a3030242, 0x12835b0145706fbe, 0x243185be4ee4b28c, 0x550c7dc3d5ffb4e2,
  0x72be5d74f27b896f, 0x80deb1fe3b1696b1, 0x9bdc06a725c71235, 0xc19bf174cf692694,
  0xe49b69c19ef14ad2, 0xefbe4786384f25e3, 0x0fc19dc68b8cd5b5, 0x240ca1cc77ac9c65,
  0x2de92c6f592b0275, 0x4a7484aa6ea6e483, 0x5cb0a9dcbd41fbd4, 0x76f988da831153b5,
  0x983e5152ee66dfab, 0xa831c66d2db43210, 0xb00327c898fb213f, 0xbf597fc7beef0ee4,
  0xc6e00bf33da88fc2, 0xd5a79147930aa725, 0x06ca6351e003826f, 0x142929670a0e6e70,
  0x27b70a8546d22ffc, 0x2e1b21385c26c926, 0x4d2c6dfc5ac42aed, 0x53380d139d95b3df,
  0x650a73548baf63de, 0x766a0abb3c77b2a8, 0x81c2c92e47edaee6, 0x92722c851482353b,
  0xa2bfe8a14cf10364, 0xa81a664bbc423001, 0xc24b8b70d0f89791, 0xc76c51a30654be30,
  0xd192e819d6ef5218, 0xd69906245565a910, 0xf40e35855771202a, 0x106aa07032bbd1b8,
  0x19a4c116b8d2d0c8, 0x1e376c085141ab53, 0x2748774cdf8eeb99, 0x34b0bcb5e19b48a8,
  0x391c0cb3c5c95a63, 0x4ed8aa4ae3418acb, 0x5b9cca4f7763e373, 0x682e6ff3d6b2b8a3,
  0x748f82ee5defb2fc, 0x78a5636f43172f60, 0x84c87814a1f0ab72, 0x8cc702081a6439ec,
  0x90befffa23631e28, 0xa4506cebde82bde9, 0xbef9a3f7b2c67915, 0xc67178f2e372532b,
  0xca273eceea26619c, 0xd186b8c721c0c207, 0xeada7dd6cde0eb1e, 0xf57d4f7fee6ed178,
  0x06f067aa72176fba, 0x0a637dc5a2c898a6, 0x113f9804bef90dae, 0x1b710b35131c471b,
  0x28db77f523047d84, 0x32caab7b40c72493, 0x3c9ebe0a15c9bebc, 0x431d67c49c100d4c,
  0x4cc5d4becb3e42b6, 0x597f299cfc657e2a, 0x5fcb6fab3ad6faec, 0x6c44198c4a475817]"

definition Ch :: "'a::len word \<Rightarrow> 'a word \<Rightarrow> 'a word \<Rightarrow> 'a word" where
  "Ch x y z = (x AND y) XOR (NOT x AND z)"

definition Maj :: "'a::len word \<Rightarrow> 'a word \<Rightarrow> 'a word \<Rightarrow> 'a word" where
  "Maj x y z = (x AND y) XOR (x AND z) XOR (y AND z)"

definition S0_256 :: "u32 \<Rightarrow> u32" where "S0_256 x = rotr32 x 2 XOR rotr32 x 13 XOR rotr32 x 22"
definition S1_256 :: "u32 \<Rightarrow> u32" where "S1_256 x = rotr32 x 6 XOR rotr32 x 11 XOR rotr32 x 25"
definition R0_256 :: "u32 \<Rightarrow> u32" where "R0_256 x = rotr32 x 7 XOR rotr32 x 18 XOR drop_bit 3 x"
definition R1_256 :: "u32 \<Rightarrow> u32" where "R1_256 x = rotr32 x 17 XOR rotr32 x 19 XOR drop_bit 10 x"
definition S0_512 :: "u64 \<Rightarrow> u64" where "S0_512 x = rotr64 x 28 XOR rotr64 x 34 XOR rotr64 x 39"
definition S1_512 :: "u64 \<Rightarrow> u64" where "S1_512 x = rotr64 x 14 XOR rotr64 x 18 XOR rotr64 x 41"
definition R0_512 :: "u64 \<Rightarrow> u64" where "R0_512 x = rotr64 x 1 XOR rotr64 x 8 XOR drop_bit 7 x"
definition R1_512 :: "u64 \<Rightarrow> u64" where "R1_512 x = rotr64 x 19 XOR rotr64 x 61 XOR drop_bit 6 x"

type_synonym 'w sha_vars = "'w \<times> 'w \<times> 'w \<times> 'w \<times> 'w \<times> 'w \<times> 'w \<times> 'w"

definition schedule256 :: "u8 list \<Rightarrow> u32 list" where
  \<comment> \<open>\<open>W\<close> after its two loops.\<close>
  "schedule256 w = foldl (\<lambda>W t. W @ [R1_256 (W ! (t - 2)) + W ! (t - 7) + R0_256 (W ! (t - 15)) + W ! (t - 16)])
     (map SWAP_BE32 (words32 w)) [16 ..< 64]"

definition schedule512 :: "u8 list \<Rightarrow> u64 list" where
  "schedule512 w = foldl (\<lambda>W t. W @ [R1_512 (W ! (t - 2)) + W ! (t - 7) + R0_512 (W ! (t - 15)) + W ! (t - 16)])
     (map SWAP_BE64 (words64 w)) [16 ..< 80]"

definition sha256_turn :: "u32 list \<Rightarrow> u32 sha_vars \<Rightarrow> nat \<Rightarrow> u32 sha_vars" where
  "sha256_turn W = (\<lambda>(a, b, c, d, e, f, g, h) t.
     let K_t = ucast (drop_bit 32 (sha_K ! t));
         T1 = h + S1_256 e + Ch e f g + K_t + W ! t;
         T2 = S0_256 a + Maj a b c
     in (T1 + T2, a, b, c, d + T1, e, f, g))"

definition sha512_turn :: "u64 list \<Rightarrow> u64 sha_vars \<Rightarrow> nat \<Rightarrow> u64 sha_vars" where
  "sha512_turn W = (\<lambda>(a, b, c, d, e, f, g, h) t.
     let T1 = h + S1_512 e + Ch e f g + sha_K ! t + W ! t;
         T2 = S0_512 a + Maj a b c
     in (T1 + T2, a, b, c, d + T1, e, f, g))"

definition add_vars :: "'a::len word list \<Rightarrow> 'a word sha_vars \<Rightarrow> 'a word list" where
  \<comment> \<open>\<open>ctx->hash[0] += a\<close> to \<open>ctx->hash[7] += h\<close>.\<close>
  "add_vars H = (\<lambda>(a, b, c, d, e, f, g, h).
     H[0 := H ! 0 + a, 1 := H ! 1 + b, 2 := H ! 2 + c, 3 := H ! 3 + d,
       4 := H ! 4 + e, 5 := H ! 5 + f, 6 := H ! 6 + g, 7 := H ! 7 + h])"

definition sha256_compress :: "u32 list \<Rightarrow> u8 list \<Rightarrow> u32 list" where
  "sha256_compress H w =
     add_vars H (foldl (sha256_turn (schedule256 w))
       (H ! 0, H ! 1, H ! 2, H ! 3, H ! 4, H ! 5, H ! 6, H ! 7) [0 ..< 64])"

definition sha512_compress :: "u64 list \<Rightarrow> u8 list \<Rightarrow> u64 list" where
  "sha512_compress H w =
     add_vars H (foldl (sha512_turn (schedule512 w))
       (H ! 0, H ! 1, H ! 2, H ! 3, H ! 4, H ! 5, H ! 6, H ! 7) [0 ..< 80])"

subsection \<open>SHA-1 and its standard\<close>

text \<open>The rounds of FIPS 180-2, section 6.1.2.\<close>

fun sha1_W :: "u32 list \<Rightarrow> nat \<Rightarrow> u32" where
  "sha1_W ws t = (if t < 16 then ws ! t
     else rotl32 (sha1_W ws (t - 3) XOR sha1_W ws (t - 8) XOR sha1_W ws (t - 14) XOR sha1_W ws (t - 16)) 1)"

declare sha1_W.simps [simp del]

definition sha1_f :: "nat \<Rightarrow> u32 \<Rightarrow> u32 \<Rightarrow> u32 \<Rightarrow> u32" where
  "sha1_f t x y z = (if t < 20 then Ch x y z else if t < 40 then x XOR y XOR z
     else if t < 60 then Maj x y z else x XOR y XOR z)"

definition sha1_ref_step :: "u32 list \<Rightarrow> sha1_vars \<Rightarrow> nat \<Rightarrow> sha1_vars" where
  "sha1_ref_step ws = (\<lambda>(a, b, c, d, e) t.
     (rotl32 a 5 + sha1_f t b c d + e + rconsts ! (t div 20) + sha1_W ws t, a, rotl32 b 30, c, d))"

lemma choose_trick: "((c XOR d) AND b) XOR d = Ch b c (d :: u32)"
  by (rule bit_eqI) (auto simp: Ch_def bit_simps)

lemma majority_trick: "((b OR c) AND d) OR (b AND c) = Maj b c (d :: u32)"
  by (rule bit_eqI) (auto simp: Maj_def bit_simps)

lemma parity_trick: "(c XOR d) XOR b = b XOR c XOR (d :: u32)"
  by (rule bit_eqI) (auto simp: bit_simps)

lemma sha1_turns_eq: "sha1_turns = map (\<lambda>t. (t div 20, 19 - t mod 20)) [0 ..< 80]"
  by code_simp

definition ring_inv :: "u32 list \<Rightarrow> nat \<Rightarrow> u32 list \<Rightarrow> bool" where
  \<comment> \<open>After \<open>t\<close> turns: both halves hold the last 16 words of the schedule.\<close>
  "ring_inv ws t W \<longleftrightarrow> length W = 32 \<and> (\<forall>k < 16. W ! (k + 16) = W ! k)
     \<and> (\<forall>s. s < max t 16 \<and> max t 16 \<le> s + 16 \<longrightarrow> W ! (s mod 16) = sha1_W ws s)"

lemma ring_inv_init: "length ws = 16 \<Longrightarrow> ring_inv ws 0 (ws @ ws)"
  by (simp add: ring_inv_def nth_append sha1_W.simps)

lemma ring_nth:
  assumes "ring_inv ws t W" "k < 32" "k mod 16 = s mod 16" "s < max t 16" "max t 16 \<le> s + 16"
  shows "W ! k = sha1_W ws s"
proof -
  have "W ! k = W ! (k mod 16)"
  proof (cases "k < 16")
    case False
    then have "k = (k - 16) + 16" "k - 16 < 16" using assms(2) by simp_all
    then have "W ! k = W ! (k - 16)" "k mod 16 = k - 16"
      using assms(1) unfolding ring_inv_def by (metis, metis mod_add_self2 mod_less)
    then show ?thesis by simp
  qed simp
  then show ?thesis using assms unfolding ring_inv_def by simp
qed

lemma ring_step:
  assumes "ring_inv ws t W" "16 \<le> t"
  shows "rotl32 (W ! (t mod 16 + 13) XOR W ! (t mod 16 + 8) XOR W ! (t mod 16 + 2) XOR W ! (t mod 16)) 1
      = sha1_W ws t"
    and "ring_inv ws (Suc t) (W[t mod 16 + 16 := sha1_W ws t, t mod 16 := sha1_W ws t])"
proof -
  have m: "t mod 16 < 16" by simp
  have idx: "(t mod 16 + k) mod 16 = (t - (16 - k)) mod 16" if "k \<le> 16" for k
  proof -
    have "t - (16 - k) + 16 = t + k" using that assms(2) by simp
    then show ?thesis by (metis mod_add_left_eq mod_add_self2)
  qed
  have at: "W ! (t mod 16 + k) = sha1_W ws (t - (16 - k))" if "k \<le> 13" for k
  proof (rule ring_nth[OF assms(1)])
    show "t mod 16 + k < 32" using m that by linarith
    show "(t mod 16 + k) mod 16 = (t - (16 - k)) mod 16" using idx that by simp
    show "t - (16 - k) < max t 16" "max t 16 \<le> t - (16 - k) + 16" using assms(2) that by simp_all
  qed
  show "rotl32 (W ! (t mod 16 + 13) XOR W ! (t mod 16 + 8) XOR W ! (t mod 16 + 2) XOR W ! (t mod 16)) 1
      = sha1_W ws t"
    using assms(2) at[of 13] at[of 8] at[of 2] at[of 0] by (simp add: sha1_W.simps[of ws t])
  let ?W = "W[t mod 16 + 16 := sha1_W ws t, t mod 16 := sha1_W ws t]"
  have len: "length W = 32" using assms(1) by (simp add: ring_inv_def)
  have "?W ! (k + 16) = ?W ! k" if "k < 16" for k
    using that assms(1) m len unfolding ring_inv_def by (simp add: nth_list_update)
  moreover have "?W ! (s mod 16) = sha1_W ws s" if "s < Suc t" "Suc t \<le> s + 16" for s
  proof (cases "s = t")
    case True
    then show ?thesis using m len by simp
  next
    case False
    define k where "k = t - s"
    have k: "t = s + k" "0 < k" "k < 16" using False that by (simp_all add: k_def)
    have "s mod 16 \<noteq> t mod 16"
    proof
      assume "s mod 16 = t mod 16"
      then have "16 dvd k" using k(1) mod_eq_dvd_iff_nat[of s t 16] by simp
      then show False using k(2,3) by (simp add: nat_dvd_not_less)
    qed
    then show ?thesis using assms that False len m unfolding ring_inv_def by (simp add: max_def)
  qed
  ultimately show "ring_inv ws (Suc t) ?W"
    using assms(2) len unfolding ring_inv_def by (simp add: max_def)
qed

lemma ring_step_early:
  assumes "ring_inv ws t W" "t < 16"
  shows "W ! (t mod 16) = sha1_W ws t" "ring_inv ws (Suc t) W"
  using assms ring_nth[OF assms(1), of t t] by (simp_all add: ring_inv_def max_def)

lemma sha1_turn_ref:
  assumes "ring_inv ws t W" "t < 80"
  shows "\<exists>W'. sha1_turn (t div 20, 19 - t mod 20) (v, W, t mod 16) = (sha1_ref_step ws v t, W', Suc t mod 16)
    \<and> ring_inv ws (Suc t) W'"
proof -
  obtain a b c d e where v: "v = (a, b, c, d, e)" by (cases v)
  have cnt: "(t mod 16 + 1) mod 16 = Suc t mod 16" by (simp add: mod_Suc_eq)
  show ?thesis
  proof (cases "t < 16")
    case True
    then have "t div 20 = 0" "\<not> 19 - t mod 20 \<le> 3" by simp_all
    then show ?thesis using ring_step_early[OF assms(1) True] True
      unfolding sha1_turn_def sha1_ref_step_def sha1_f_def v cnt Let_def choose_trick
      by (simp add: ac_simps)
  next
    case False
    let ?W = "W[t mod 16 + 16 := sha1_W ws t, t mod 16 := sha1_W ws t]"
    have ring: "ring_inv ws (Suc t) ?W" using ring_step(2)[OF assms(1)] False by simp
    have at: "?W ! (t mod 16) = sha1_W ws t"
      using assms(1) by (simp add: ring_inv_def)
    have x: "rotl32 (W ! (t mod 16 + 13) XOR W ! (t mod 16 + 8) XOR W ! (t mod 16 + 2) XOR W ! (t mod 16)) 1
      = sha1_W ws t" using ring_step(1)[OF assms(1)] False by simp
    have sel: "(if t div 20 = 0 then (let work = ((c XOR d) AND b) XOR d in
          if 19 - t mod 20 \<le> 3 then (work, True) else (work + W ! (t mod 16), False))
        else if t div 20 = 2 then (((b OR c) AND d) OR (b AND c), True)
        else ((c XOR d) XOR b, True)) = (sha1_f t b c d, True)"
    proof -
      consider "t < 20" | "20 \<le> t" "t < 40" | "40 \<le> t" "t < 60" | "60 \<le> t" by linarith
      then show ?thesis
      proof cases
        case 1
        then show ?thesis using False by (simp add: sha1_f_def choose_trick Let_def)
      next
        case 2
        then have "t div 20 = 1" by (intro div_nat_eqI) simp_all
        then show ?thesis using 2 by (simp add: sha1_f_def parity_trick)
      next
        case 3
        then have "t div 20 = 2" by (intro div_nat_eqI) simp_all
        then show ?thesis using 3 by (simp add: sha1_f_def majority_trick)
      next
        case 4
        then have "t div 20 = 3" using assms(2) by (intro div_nat_eqI) simp_all
        then show ?thesis using 4 by (simp add: sha1_f_def parity_trick)
      qed
    qed
    have sum: "sha1_f t b c d + sha1_W ws t + (e + rotl32 a 5 + rconsts ! (t div 20))
        = rotl32 a 5 + sha1_f t b c d + e + rconsts ! (t div 20) + sha1_W ws t"
      by (simp only: ac_simps)
    show ?thesis
      unfolding sha1_turn_def sha1_ref_step_def v prod.case Let_def[of "c XOR d"] sel
      unfolding Let_def prod.case if_True x at sum cnt using ring by blast
  qed
qed

definition sha1_ref_compress :: "u32 list \<Rightarrow> u8 list \<Rightarrow> u32 list" where
  "sha1_ref_compress h w =
     (let (a, b, c, d, e) = foldl (sha1_ref_step (map SWAP_BE32 (words32 w)))
            (h ! 0, h ! 1, h ! 2, h ! 3, h ! 4) [0 ..< 80]
      in h[0 := h ! 0 + a, 1 := h ! 1 + b, 2 := h ! 2 + c, 3 := h ! 3 + d, 4 := h ! 4 + e])"

lemma sha1_compress_ref: "sha1_compress h w = sha1_ref_compress h w"
proof -
  let ?ws = "map SWAP_BE32 (words32 w)" and ?v = "(h ! 0, h ! 1, h ! 2, h ! 3, h ! 4)"
  let ?turn = "\<lambda>s t. sha1_turn (t div 20, 19 - t mod 20) s"
  have "n \<le> 80 \<Longrightarrow> \<exists>W. foldl ?turn (?v, ?ws @ ?ws, 0) [0 ..< n]
      = (foldl (sha1_ref_step ?ws) ?v [0 ..< n], W, n mod 16) \<and> ring_inv ?ws n W" for n
  proof (induction n)
    case 0
    show ?case by (simp add: ring_inv_init words32_def)
  next
    case (Suc n)
    then obtain W where "foldl ?turn (?v, ?ws @ ?ws, 0) [0 ..< n]
      = (foldl (sha1_ref_step ?ws) ?v [0 ..< n], W, n mod 16)" "ring_inv ?ws n W" by auto
    then show ?case
      using sha1_turn_ref[of ?ws n W "foldl (sha1_ref_step ?ws) ?v [0 ..< n]"] Suc.prems by simp
  qed
  from this[of 80] obtain W where "foldl ?turn (?v, ?ws @ ?ws, 0) [0 ..< 80]
      = (foldl (sha1_ref_step ?ws) ?v [0 ..< 80], W, 80 mod 16)" by blast
  then show ?thesis
    by (simp add: sha1_compress_def sha1_ref_compress_def Let_def sha1_turns_eq foldl_map split: prod.split del: upt_rec_numeral)
qed

text \<open>C17. With its 16-word ring and its shortened formulas, \<open>sha1_process_block64\<close> computes the
  80 rounds of the standard on every block.\<close>
theorem sha1_block_is_standard:
  "sha1_compress h w = sha1_ref_compress h w"
  by (rule sha1_compress_ref)

end
