(* ===== verification/Hash_Context.thy ===== *)
theory Hash_Context
  imports Sha_Blocks
begin

unbundle bit_operations_syntax

text \<open>
  The contexts of \<open>libbb/hash_md5_sha.c\<close> (\<open>md5_ctx_t\<close>, shared by MD5, SHA-1 and SHA-256, and
  \<open>sha512_ctx_t\<close>, both from \<open>include/libbb.h\<close>) with their operations: begin, hash and end.
  Proved: a message may be fed in any pieces, and the result is the iterated block function on the
  padded message.
\<close>

subsection \<open>The operations\<close>

datatype process_block = md5_process_block64 | sha1_process_block64 | sha256_process_block64

record md5_ctx_t =
  wbuffer :: "u8 list"
  process_block :: process_block
  total64 :: u64
  hash :: "u32 list"   \<comment> \<open>8 words: 4 used by MD5, 5 by SHA-1, 8 by SHA-256\<close>

record sha512_ctx_t =
  total512 :: "u64 list"   \<comment> \<open>\<open>total64[2]\<close>\<close>
  hash512 :: "u64 list"
  wbuffer512 :: "u8 list"

definition compress64 :: "nat \<Rightarrow> process_block \<Rightarrow> u32 list \<Rightarrow> u8 list \<Rightarrow> u32 list" where
  \<comment> \<open>The function that \<open>process_block\<close> points to; \<open>speed\<close> is the build of MD5.\<close>
  "compress64 speed p = (case p of
     md5_process_block64 \<Rightarrow> md5_compress speed
   | sha1_process_block64 \<Rightarrow> sha1_compress
   | sha256_process_block64 \<Rightarrow> sha256_compress)"

definition run_block :: "nat \<Rightarrow> md5_ctx_t \<Rightarrow> md5_ctx_t" where
  "run_block speed c = c\<lparr>hash := compress64 speed (process_block c) (hash c) (wbuffer c)\<rparr>"

function hash_loop :: "nat \<Rightarrow> nat \<Rightarrow> u8 list \<Rightarrow> md5_ctx_t \<Rightarrow> md5_ctx_t" where
  \<comment> \<open>The loop of \<open>common64_hash\<close>; \<open>bufpos\<close> is \<open>total64 & 63\<close> at first, so always below 64.\<close>
  "hash_loop speed bufpos buffer c =
     (let remaining = min (64 - bufpos) (length buffer);
          c = c\<lparr>wbuffer := write_at (wbuffer c) bufpos (take remaining buffer)\<rparr>
      in if bufpos + remaining = 64 \<and> bufpos < 64
         then hash_loop speed 0 (drop remaining buffer) (run_block speed c)
         else c)"
  by pat_completeness auto
termination by (relation "measure (\<lambda>(speed, bufpos, buffer, c). length buffer)") auto

declare hash_loop.simps [simp del]

definition common64_hash :: "nat \<Rightarrow> md5_ctx_t \<Rightarrow> u8 list \<Rightarrow> md5_ctx_t" where
  "common64_hash speed c buffer =
     (let bufpos = unat (total64 c AND 63)
      in hash_loop speed bufpos buffer (c\<lparr>total64 := total64 c + of_nat (length buffer)\<rparr>))"

function end_loop :: "nat \<Rightarrow> bool \<Rightarrow> nat \<Rightarrow> md5_ctx_t \<Rightarrow> md5_ctx_t" where
  "end_loop speed swap_needed bufpos c =
     (let remaining = 64 - bufpos;
          c = c\<lparr>wbuffer := write_at (wbuffer c) bufpos (replicate remaining 0)\<rparr>;
          c = (if remaining \<ge> 8
               then (let t = push_bit 3 (total64 c);
                         t = (if swap_needed then SWAP_BE64 t else t)
                     in c\<lparr>wbuffer := write_at (wbuffer c) (64 - 8) (le_bytes 8 t)\<rparr>)
               else c);
          c = run_block speed c
      in if remaining \<ge> 8 then c else end_loop speed swap_needed 0 c)"
  by pat_completeness auto
termination by (relation "measure (\<lambda>(speed, swap, bufpos, c). bufpos)") auto

declare end_loop.simps [simp del]

definition common64_end :: "nat \<Rightarrow> bool \<Rightarrow> md5_ctx_t \<Rightarrow> md5_ctx_t" where
  "common64_end speed swap_needed c =
     (let bufpos = unat (total64 c AND 63);
          c = c\<lparr>wbuffer := (wbuffer c)[bufpos := 0x80]\<rparr>
      in end_loop speed swap_needed (bufpos + 1) c)"

definition md5_begin :: "md5_ctx_t \<Rightarrow> md5_ctx_t" where
  "md5_begin c = c\<lparr>hash := (hash c)[0 := 0x67452301, 1 := 0xefcdab89, 2 := 0x98badcfe, 3 := 0x10325476],
     total64 := 0, process_block := md5_process_block64\<rparr>"

definition sha1_begin :: "md5_ctx_t \<Rightarrow> md5_ctx_t" where
  "sha1_begin c = c\<lparr>hash := (hash c)[0 := 0x67452301, 1 := 0xefcdab89, 2 := 0x98badcfe, 3 := 0x10325476,
     4 := 0xc3d2e1f0], total64 := 0, process_block := sha1_process_block64\<rparr>"

definition init256 :: "u32 list" where
  "init256 = [0, 0, 0x6a09e667, 0xbb67ae85, 0x3c6ef372,
     0xa54ff53a, 0x510e527f, 0x9b05688c, 0x1f83d9ab, 0x5be0cd19]"

definition init512_lo :: "u32 list" where
  "init512_lo = [0, 0, 0xf3bcc908, 0x84caa73b, 0xfe94f82b,
     0x5f1d36f1, 0xade682d1, 0x2b3e6c1f, 0xfb41bd6b, 0x137e2179]"

definition sha256_begin :: "md5_ctx_t \<Rightarrow> md5_ctx_t" where
  \<comment> \<open>\<open>memcpy\<close> over \<open>total64\<close> and, right behind it, \<open>hash\<close>.\<close>
  "sha256_begin c = c\<lparr>total64 := le_word (concat (map (le_bytes 4) (take 2 init256))),
     hash := drop 2 init256, process_block := sha256_process_block64\<rparr>"

definition sha512_begin :: "sha512_ctx_t \<Rightarrow> sha512_ctx_t" where
  \<comment> \<open>The loop writes \<open>total64[0]\<close>, \<open>total64[1]\<close> and the eight words of \<open>hash\<close> behind them.\<close>
  "sha512_begin c =
     (let tp = map (\<lambda>i. push_bit 32 (ucast (init256 ! i)) + ucast (init512_lo ! i)) [0 ..< 2 + 8]
      in c\<lparr>total512 := take 2 tp, hash512 := drop 2 tp\<rparr>)"

definition md5_hash :: "nat \<Rightarrow> md5_ctx_t \<Rightarrow> u8 list \<Rightarrow> md5_ctx_t" where
  "md5_hash speed c buffer = common64_hash speed c buffer"

definition md5_end :: "nat \<Rightarrow> md5_ctx_t \<Rightarrow> md5_ctx_t \<times> u8 list" where
  \<comment> \<open>The context, and the bytes stored at \<open>resbuf\<close>.\<close>
  "md5_end speed c =
     (let c = common64_end speed False c
      in (c, concat (map (le_bytes 4) (take 4 (hash c)))))"

definition sha1_end :: "nat \<Rightarrow> md5_ctx_t \<Rightarrow> md5_ctx_t \<times> u8 list" where
  "sha1_end speed c =
     (let c = common64_end speed True c;
          hash_size = (if process_block c = sha1_process_block64 then 5 else 8);
          c = c\<lparr>hash := map SWAP_BE32 (take hash_size (hash c)) @ drop hash_size (hash c)\<rparr>
      in (c, concat (map (le_bytes 4) (take hash_size (hash c)))))"

definition run_block512 :: "sha512_ctx_t \<Rightarrow> sha512_ctx_t" where
  "run_block512 c = c\<lparr>hash512 := sha512_compress (hash512 c) (wbuffer512 c)\<rparr>"

function hash_loop512 :: "nat \<Rightarrow> u8 list \<Rightarrow> sha512_ctx_t \<Rightarrow> sha512_ctx_t" where
  "hash_loop512 bufpos buffer c =
     (let remaining = min (128 - bufpos) (length buffer);
          c = c\<lparr>wbuffer512 := write_at (wbuffer512 c) bufpos (take remaining buffer)\<rparr>
      in if bufpos + remaining = 128 \<and> bufpos < 128
         then hash_loop512 0 (drop remaining buffer) (run_block512 c)
         else c)"
  by pat_completeness auto
termination by (relation "measure (\<lambda>(bufpos, buffer, c). length buffer)") auto

declare hash_loop512.simps [simp del]

definition sha512_hash :: "sha512_ctx_t \<Rightarrow> u8 list \<Rightarrow> sha512_ctx_t" where
  "sha512_hash c buffer =
     (let bufpos = unat (total512 c ! 0 AND 127);
          len = of_nat (length buffer);
          c = c\<lparr>total512 := (total512 c)[0 := total512 c ! 0 + len]\<rparr>;
          c = (if total512 c ! 0 < len
               then c\<lparr>total512 := (total512 c)[1 := total512 c ! 1 + 1]\<rparr> else c)
      in hash_loop512 bufpos buffer c)"

function end_loop512 :: "nat \<Rightarrow> sha512_ctx_t \<Rightarrow> sha512_ctx_t" where
  "end_loop512 bufpos c =
     (let remaining = 128 - bufpos;
          c = c\<lparr>wbuffer512 := write_at (wbuffer512 c) bufpos (replicate remaining 0)\<rparr>;
          c = (if remaining \<ge> 16
               then (let t = SWAP_BE64 (push_bit 3 (total512 c ! 0));
                         c = c\<lparr>wbuffer512 := write_at (wbuffer512 c) (128 - 8) (le_bytes 8 t)\<rparr>;
                         t = SWAP_BE64 (push_bit 3 (total512 c ! 1) OR drop_bit 61 (total512 c ! 0))
                     in c\<lparr>wbuffer512 := write_at (wbuffer512 c) (128 - 16) (le_bytes 8 t)\<rparr>)
               else c);
          c = run_block512 c
      in if remaining \<ge> 16 then c else end_loop512 0 c)"
  by pat_completeness auto
termination by (relation "measure (\<lambda>(bufpos, c). bufpos)") auto

declare end_loop512.simps [simp del]

definition sha512_end :: "sha512_ctx_t \<Rightarrow> sha512_ctx_t \<times> u8 list" where
  "sha512_end c =
     (let bufpos = unat (total512 c ! 0 AND 127);
          c = c\<lparr>wbuffer512 := (wbuffer512 c)[bufpos := 0x80]\<rparr>;
          c = end_loop512 (bufpos + 1) c;
          c = c\<lparr>hash512 := map SWAP_BE64 (hash512 c)\<rparr>
      in (c, concat (map (le_bytes 8) (hash512 c))))"

subsection \<open>Byte strings of numbers\<close>

definition nat_bytes :: "nat \<Rightarrow> nat \<Rightarrow> u8 list" where
  \<comment> \<open>The \<open>n\<close> low bytes of a number, lowest first.\<close>
  "nat_bytes n k = map (\<lambda>i. of_nat (k div 256 ^ i)) [0 ..< n]"

lemma length_nat_bytes [simp]: "length (nat_bytes n k) = n"
  by (simp add: nat_bytes_def)

lemma le_bytes_nat: "le_bytes n w = nat_bytes n (unat w)"
proof -
  have "(ucast (drop_bit (8 * i) w) :: u8) = of_nat (unat w div 256 ^ i)" for i
    by (subst word_unat_eq_iff)
      (simp only: unat_ucast_u8 unat_drop_bit unsigned_of_nat take_bit_eq_mod power_mult, simp)
  then show ?thesis by (simp add: le_bytes_def nat_bytes_def)
qed

lemma nat_bytes_mod: "nat_bytes n (k mod 256 ^ n) = nat_bytes n k"
proof -
  have "(of_nat (k mod 256 ^ n div 256 ^ i) :: u8) = of_nat (k div 256 ^ i)" if "i < n" for i
  proof -
    have "(256 :: nat) ^ n = 256 ^ i * 256 ^ (n - i)" using that by (simp flip: power_add)
    then have "k mod 256 ^ n div 256 ^ i = (k div 256 ^ i) mod 256 ^ (n - i)"
      by (simp add: mod_mult2_eq)
    moreover have "(256 :: nat) dvd 256 ^ (n - i)" using that by (intro dvd_power) simp
    ultimately have "k mod 256 ^ n div 256 ^ i mod 256 = k div 256 ^ i mod 256"
      by (simp add: mod_mod_cancel)
    then show ?thesis by (subst word_unat_eq_iff) (simp add: unsigned_of_nat take_bit_eq_mod)
  qed
  then show ?thesis by (simp add: nat_bytes_def)
qed

lemma nat_bytes_append: "nat_bytes (m + n) k = nat_bytes m k @ nat_bytes n (k div 256 ^ m)"
proof -
  have "[0 ..< m + n] = [0 ..< m] @ map (\<lambda>i. m + i) [0 ..< n]"
    using map_add_upt[of m n] upt_add_eq_append[of 0 m n] by (simp add: add.commute)
  then show ?thesis by (simp add: nat_bytes_def power_add div_mult2_eq)
qed

subsection \<open>The buffering loops keep the contract\<close>

definition bufpos64 :: "md5_ctx_t \<Rightarrow> nat" where
  "bufpos64 c = unat (total64 c AND 63)"

definition pending64 :: "md5_ctx_t \<Rightarrow> u8 list" where
  "pending64 c = take (bufpos64 c) (wbuffer c)"

definition ctx_ok :: "process_block \<Rightarrow> md5_ctx_t \<Rightarrow> bool" where
  "ctx_ok p c \<longleftrightarrow> length (wbuffer c) = 64 \<and> process_block c = p"

lemma unat_and_63: "unat (t AND 63 :: u64) = unat t mod 64"
proof -
  have "t AND 63 = take_bit 6 t" by (simp add: take_bit_eq_mask mask_numeral)
  then have "unat (t AND 63) = take_bit 6 (unat t)" by (simp only: unsigned_take_bit_eq)
  then show ?thesis by (simp add: take_bit_eq_mod)
qed

lemma unat_and_127: "unat (t AND 127 :: u64) = unat t mod 128"
proof -
  have "t AND 127 = take_bit 7 t" by (simp add: take_bit_eq_mask mask_numeral)
  then have "unat (t AND 127) = take_bit 7 (unat t)" by (simp only: unsigned_take_bit_eq)
  then show ?thesis by (simp add: take_bit_eq_mod)
qed

lemma unat_add_of_nat: "unat (t + of_nat n :: u64) = (unat t + n) mod 2 ^ 64"
  by (simp add: unat_word_ariths unsigned_of_nat take_bit_eq_mod mod_simps)

lemma total_mod:
  "unat (t + of_nat n :: u64) mod 64 = (unat t mod 64 + n) mod 64"
  "unat (t + of_nat n :: u64) mod 128 = (unat t mod 128 + n) mod 128"
  by (simp_all add: unat_add_of_nat mod_mod_cancel mod_simps)

lemma bufpos64_less: "bufpos64 c < 64"
  by (simp add: bufpos64_def unat_and_63)

lemma run_block_simps [simp]:
  "wbuffer (run_block sp c) = wbuffer c" "process_block (run_block sp c) = process_block c"
  "total64 (run_block sp c) = total64 c"
  "hash (run_block sp c) = compress64 sp (process_block c) (hash c) (wbuffer c)"
  by (simp_all add: run_block_def)

lemma hash_loop_short:
  "b + length d < 64 \<Longrightarrow> hash_loop sp b d c = c\<lparr>wbuffer := write_at (wbuffer c) b d\<rparr>"
  by (subst hash_loop.simps) (simp add: min_def Let_def)

lemma hash_loop_split:
  assumes "b < 64" "b + length d = 64"
  shows "hash_loop sp b (d @ e) c = hash_loop sp 0 e (run_block sp (c\<lparr>wbuffer := write_at (wbuffer c) b d\<rparr>))"
  using assms by (subst hash_loop.simps) (simp add: min_def Let_def)

lemma hash_loop_exact:
  assumes "b < 64" "b + length d = 64" "length (wbuffer c) = 64"
  shows "hash_loop sp b d c = run_block sp (c\<lparr>wbuffer := write_at (wbuffer c) b d\<rparr>)"
  using hash_loop_split[OF assms(1,2), of sp "[]" c] assms
    hash_loop_short[of 0 "[]" sp "run_block sp (c\<lparr>wbuffer := write_at (wbuffer c) b d\<rparr>)"]
  by simp

lemma hash_loop_frame:
  "total64 (hash_loop sp b d c) = total64 c" "process_block (hash_loop sp b d c) = process_block c"
  by (induction sp b d c rule: hash_loop.induct; subst hash_loop.simps; simp add: Let_def)+

lemma hash_loop_length:
  "length (wbuffer c) = 64 \<Longrightarrow> b \<le> 64 \<Longrightarrow> length (wbuffer (hash_loop sp b d c)) = 64"
proof (induction sp b d c rule: hash_loop.induct)
  case (1 sp b d c)
  have "length (write_at (wbuffer c) b (take (min (64 - b) (length d)) d)) = 64"
    using 1(2,3) by (subst length_write_at) auto
  then show ?case using 1(1) by (subst hash_loop.simps) (simp add: Let_def del: length_write_at)
qed

lemma hash_loop_total:
  "hash_loop sp b d (c\<lparr>total64 := t\<rparr>) = (hash_loop sp b d c)\<lparr>total64 := t\<rparr>"
proof (induction sp b d c rule: hash_loop.induct)
  case (1 sp b d c)
  then show ?case
    by (cases c) (simp add: hash_loop.simps[of sp b d] Let_def run_block_def)
qed

lemma common64_hash_eq:
  "common64_hash sp c d = hash_loop sp (bufpos64 c) d (c\<lparr>total64 := total64 c + of_nat (length d)\<rparr>)"
  by (simp add: common64_hash_def bufpos64_def Let_def)

lemma bufpos64_hash: "bufpos64 (common64_hash sp c d) = (bufpos64 c + length d) mod 64"
  by (simp add: common64_hash_eq hash_loop_frame bufpos64_def unat_and_63 total_mod)

interpretation common64: block_feed 64 "common64_hash sp" hash pending64 "compress64 sp p" "ctx_ok p"
  for sp p
proof
  fix c d e
  assume ok: "ctx_ok p c"
  then have len: "length (wbuffer c) = 64" "process_block c = p" by (simp_all add: ctx_ok_def)
  have pend: "length (pending64 c) = bufpos64 c"
    using len bufpos64_less[of c] by (simp add: pending64_def)
  let ?c = "\<lambda>d. c\<lparr>total64 := total64 c + of_nat (length d)\<rparr>"
  show "length (pending64 c) < 64" using pend bufpos64_less by simp
  show "ctx_ok p (common64_hash sp c d)"
    using len bufpos64_less[of c]
    by (simp add: ctx_ok_def common64_hash_eq hash_loop_frame hash_loop_length less_imp_le)
  show "hash (common64_hash sp c d) = hash c \<and> pending64 (common64_hash sp c d) = pending64 c @ d"
    if short: "length (pending64 c) + length d < 64"
  proof -
    have "common64_hash sp c d = (?c d)\<lparr>wbuffer := write_at (wbuffer c) (bufpos64 c) d\<rparr>"
      using hash_loop_short[of "bufpos64 c" d sp "?c d"] short pend by (simp add: common64_hash_eq)
    moreover have "bufpos64 (common64_hash sp c d) = bufpos64 c + length d"
      using short pend by (simp add: bufpos64_hash)
    ultimately show ?thesis
      using len bufpos64_less[of c] by (simp add: pending64_def take_write_at_end)
  qed
  assume full: "length (pending64 c) + length d = 64"
  have full': "bufpos64 c + length d = 64" using full pend by simp
  have "write_at (wbuffer c) (bufpos64 c) d = pending64 c @ d"
    using full' len by (simp add: write_at_def pending64_def)
  then have block: "common64_hash sp c d = run_block sp ((?c d)\<lparr>wbuffer := pending64 c @ d\<rparr>)"
    using hash_loop_exact[OF bufpos64_less full', of "?c d" sp] len by (simp add: common64_hash_eq)
  have zero: "bufpos64 (common64_hash sp c d) = 0" using full' by (simp add: bufpos64_hash)
  then show "hash (common64_hash sp c d) = compress64 sp p (hash c) (pending64 c @ d)
      \<and> pending64 (common64_hash sp c d) = []"
    using len by (simp add: block) (simp add: block pending64_def)
  have tot: "total64 (common64_hash sp c d) = total64 c + of_nat (length d)" by (simp add: block)
  have "common64_hash sp (common64_hash sp c d) e = common64_hash sp c (d @ e)"
  proof -
    let ?t = "total64 c + of_nat (length d) + of_nat (length e)"
    have "common64_hash sp c (d @ e) = hash_loop sp 0 e
        (run_block sp ((?c (d @ e))\<lparr>wbuffer := pending64 c @ d\<rparr>))"
      using hash_loop_split[OF bufpos64_less full', of sp e "?c (d @ e)"]
        \<open>write_at (wbuffer c) (bufpos64 c) d = pending64 c @ d\<close> by (simp add: common64_hash_eq)
    also have "run_block sp ((?c (d @ e))\<lparr>wbuffer := pending64 c @ d\<rparr>)
        = (common64_hash sp c d)\<lparr>total64 := ?t\<rparr>"
      by (simp add: block run_block_def add.assoc)
    also have "hash_loop sp 0 e \<dots> = common64_hash sp (common64_hash sp c d) e"
      by (simp only: common64_hash_eq[of sp "common64_hash sp c d"] zero tot)
    finally show ?thesis by simp
  qed
  then show "hash (common64_hash sp c (d @ e)) = hash (common64_hash sp (common64_hash sp c d) e)
      \<and> pending64 (common64_hash sp c (d @ e)) = pending64 (common64_hash sp (common64_hash sp c d) e)"
    by simp
qed

subsection \<open>Padding\<close>

lemma write_at_rest:
  "length w = n \<Longrightarrow> b < n \<Longrightarrow>
   write_at (w[b := x]) (b + 1) (replicate (n - (b + 1)) y) = take b w @ x # replicate (n - (b + 1)) y"
  by (simp add: write_at_def take_Suc_conv_app_nth)

lemma write_at_trailer:
  assumes "length q + m = n" "length t = k" "k \<le> m"
  shows "write_at (q @ replicate m y) (n - k) t = q @ replicate (m - k) y @ t"
proof -
  have "n - k - length q = m - k" "n - k - length q + k = m" using assms by simp_all
  then show ?thesis using assms by (simp add: write_at_def min_def)
qed

definition padding :: "nat \<Rightarrow> nat \<Rightarrow> u8 list \<Rightarrow> u8 list" where
  \<comment> \<open>The padding of the standards for blocks of \<open>bs\<close> bytes, after a message of \<open>n\<close> bytes: a
      one bit, zeros, and the length (\<open>t\<close>) at the end of the last block.\<close>
  "padding bs n t = 0x80 # replicate ((2 * bs - 1 - length t - n mod bs) mod bs) 0 @ t"

lemma padding_short:
  "n mod bs + length t < bs \<Longrightarrow> padding bs n t = 0x80 # replicate (bs - 1 - length t - n mod bs) 0 @ t"
proof -
  assume a: "n mod bs + length t < bs"
  then have "2 * bs - 1 - length t - n mod bs = bs - 1 - length t - n mod bs + bs" by simp
  then have "(2 * bs - 1 - length t - n mod bs) mod bs = bs - 1 - length t - n mod bs"
    using a by (simp only: mod_add_self2) simp
  then show ?thesis by (simp add: padding_def)
qed

lemma padding_long:
  "0 < bs \<Longrightarrow> bs \<le> n mod bs + length t \<Longrightarrow> length t < bs \<Longrightarrow>
   padding bs n t = 0x80 # replicate (bs - 1 - n mod bs) 0 @ replicate (bs - length t) 0 @ t"
proof -
  assume a: "0 < bs" "bs \<le> n mod bs + length t" "length t < bs"
  have "n mod bs < bs" using a(1) by simp
  then have "2 * bs - 1 - length t - n mod bs = bs - 1 - n mod bs + (bs - length t)"
    "bs - 1 - n mod bs + (bs - length t) < bs" using a by linarith+
  then have "(2 * bs - 1 - length t - n mod bs) mod bs = bs - 1 - n mod bs + (bs - length t)"
    by (simp only: mod_less)
  then show ?thesis by (simp add: padding_def replicate_add)
qed

lemma padding_total: "0 < bs \<Longrightarrow> length t < bs \<Longrightarrow> (n + length (padding bs n t)) mod bs = 0"
proof -
  assume a: "0 < bs" "length t < bs"
  have m: "n mod bs < bs" using a(1) by simp
  show ?thesis
  proof (cases "n mod bs + length t < bs")
    case True
    then have "length (padding bs n t) = bs - n mod bs" by (simp add: padding_short)
    then have "n + length (padding bs n t) = n div bs * bs + bs"
      using m div_mult_mod_eq[of n bs] by linarith
    then show ?thesis by (simp only: mod_add_self2 mod_mult_self2_is_0)
  next
    case False
    have "length (padding bs n t) = 1 + (bs - 1 - n mod bs) + (bs - length t) + length t"
      using a False by (simp add: padding_long)
    then have "length (padding bs n t) = bs - n mod bs + bs" using a m by linarith
    then have "n + length (padding bs n t) = n div bs * bs + bs + bs"
      using m div_mult_mod_eq[of n bs] by linarith
    then show ?thesis by (simp only: mod_add_self2 mod_mult_self2_is_0)
  qed
qed

definition length_field :: "bool \<Rightarrow> u64 \<Rightarrow> u8 list" where
  \<comment> \<open>What the padding loop stores in the last 8 bytes.\<close>
  "length_field swap t = le_bytes 8 (if swap then SWAP_BE64 (push_bit 3 t) else push_bit 3 t)"

lemma length_length_field [simp]: "length (length_field swap t) = 8"
  by (simp add: length_field_def)

lemma length_field_eq:
  "length_field swap (of_nat n) = (if swap then rev else id) (nat_bytes 8 (8 * n))"
proof -
  have "unat (push_bit 3 (of_nat n :: u64)) = 8 * n mod 2 ^ 64"
    by (simp add: push_bit_eq_mult unat_word_ariths unsigned_of_nat take_bit_eq_mod mod_simps mult.commute)
  then have "le_bytes 8 (push_bit 3 (of_nat n :: u64)) = nat_bytes 8 (8 * n)"
    using nat_bytes_mod[of 8 "8 * n"] by (simp add: le_bytes_nat)
  then show ?thesis
    by (simp add: length_field_def SWAP_BE64_def le_bytes_bswap be_bytes_def)
qed

lemma end_loop_last:
  assumes "length q + m = 64" "8 \<le> m" "write_at (wbuffer c) (64 - m) (replicate m 0) = q @ replicate m 0"
  shows "end_loop sp swap (64 - m) c =
    run_block sp (c\<lparr>wbuffer := q @ replicate (m - 8) 0 @ length_field swap (total64 c)\<rparr>)"
proof -
  have "64 - (64 - m) = m" using assms(1) by simp
  moreover have "write_at (q @ replicate m 0) (64 - 8) (length_field swap (total64 c))
      = q @ replicate (m - 8) 0 @ length_field swap (total64 c)"
    using assms by (intro write_at_trailer) simp_all
  ultimately show ?thesis
    using assms(2) by (subst end_loop.simps) (simp add: Let_def assms(3) length_field_def cong: if_cong)
qed

lemma end_loop_first:
  assumes "m < 8" "m < 64" "write_at (wbuffer c) (64 - m) (replicate m 0) = q"
  shows "end_loop sp swap (64 - m) c = end_loop sp swap 0 (run_block sp (c\<lparr>wbuffer := q\<rparr>))"
  using assms by (subst end_loop.simps) (simp add: Let_def)

lemma common64_end_absorb:
  assumes "ctx_ok p c"
  shows "hash (common64_end sp swap c) = fst (absorb 64 (compress64 sp p) (hash c)
      (pending64 c @ padding 64 (unat (total64 c)) (length_field swap (total64 c))))"
    and "process_block (common64_end sp swap c) = p"
proof -
  let ?b = "bufpos64 c" and ?t = "length_field swap (total64 c)" and ?f = "compress64 sp p"
  let ?q = "pending64 c @ [0x80]" and ?m = "64 - (bufpos64 c + 1)"
  let ?c = "c\<lparr>wbuffer := (wbuffer c)[?b := 0x80]\<rparr>"
  have len: "length (wbuffer c) = 64" "process_block c = p" using assms by (simp_all add: ctx_ok_def)
  have b: "?b < 64" by (rule bufpos64_less)
  have bm: "unat (total64 c) mod 64 = ?b" by (simp add: bufpos64_def unat_and_63)
  have pend: "length (pending64 c) = ?b" using len b by (simp add: pending64_def)
  have m: "length ?q + ?m = 64" "64 - ?m = ?b + 1" using b pend by simp_all
  have start: "common64_end sp swap c = end_loop sp swap (64 - ?m) ?c"
    unfolding m(2) by (simp add: common64_end_def bufpos64_def Let_def)
  have fill: "write_at (wbuffer ?c) (64 - ?m) (replicate ?m 0) = ?q @ replicate ?m 0"
    using write_at_rest[OF len(1) b] unfolding m(2) by (simp add: pending64_def)
  have "hash (common64_end sp swap c) = fst (absorb 64 ?f (hash c)
      (pending64 c @ padding 64 (unat (total64 c)) ?t)) \<and> process_block (common64_end sp swap c) = p"
  proof (cases "8 \<le> ?m")
    case True
    have pad: "pending64 c @ padding 64 (unat (total64 c)) ?t = (?q @ replicate (?m - 8) 0 @ ?t) @ []"
      using padding_short[of "unat (total64 c)" 64 ?t] True b bm by simp
    have l: "length (?q @ replicate (?m - 8) 0 @ ?t) = 64" using True m(1) by simp
    show ?thesis
      unfolding start end_loop_last[OF m(1) True fill] pad absorb_block[OF l zero_less_numeral]
      by (simp add: len)
  next
    case False
    have pad: "pending64 c @ padding 64 (unat (total64 c)) ?t
        = (?q @ replicate ?m 0) @ ((replicate 56 0 @ ?t) @ [])"
      using padding_long[of 64 "unat (total64 c)" ?t] False b bm by (simp)
    have l: "length (?q @ replicate ?m 0) = 64" using m(1) by simp
    have l': "length (replicate 56 0 @ ?t) = 64" by simp
    let ?c1 = "run_block sp (?c\<lparr>wbuffer := ?q @ replicate ?m 0\<rparr>)"
    have "end_loop sp swap (64 - ?m) ?c = end_loop sp swap 0 ?c1"
      using False b by (intro end_loop_first fill) simp_all
    also have "\<dots> = run_block sp (?c1\<lparr>wbuffer := replicate 56 0 @ ?t\<rparr>)"
      using end_loop_last[of "[]" 64 ?c1 sp swap] l
      by (simp add: write_at_def)
    finally show ?thesis
      unfolding start pad absorb_block[OF l zero_less_numeral] absorb_block[OF l' zero_less_numeral]
      by (simp add: len)
  qed
  then show "hash (common64_end sp swap c) = fst (absorb 64 ?f (hash c)
      (pending64 c @ padding 64 (unat (total64 c)) ?t))" "process_block (common64_end sp swap c) = p"
    by simp_all
qed

subsection \<open>MD5, SHA-1 and SHA-256\<close>

lemma common64_total:
  "total64 (foldl (common64_hash sp) c ds) = total64 c + of_nat (length (concat ds))"
  by (induction ds arbitrary: c) (simp_all add: common64_hash_eq hash_loop_frame add.assoc)

lemma common64_digest:
  assumes "ctx_ok p c" "total64 c = 0" "n = length (concat ds)"
  shows "hash (common64_end sp swap (foldl (common64_hash sp) c ds)) =
      fst (absorb 64 (compress64 sp p) (hash c)
        (concat ds @ padding 64 n ((if swap then rev else id) (nat_bytes 8 (8 * n)))))"
    and "process_block (common64_end sp swap (foldl (common64_hash sp) c ds)) = p"
proof -
  let ?c = "foldl (common64_hash sp) c ds"
  have ok: "ctx_ok p ?c" by (rule common64.foldl_feed_ok[OF assms(1)])
  have tot: "total64 ?c = of_nat n" using assms by (simp add: common64_total)
  have "pending64 c = []" using assms(2) by (simp add: pending64_def bufpos64_def)
  then have state: "(hash ?c, pending64 ?c) = absorb 64 (compress64 sp p) (hash c) (concat ds)"
    using common64.foldl_feed_absorb[OF assms(1), of sp ds] by simp
  have "unat (of_nat n :: u64) mod 64 = n mod 64"
    by (simp add: unsigned_of_nat take_bit_eq_mod mod_mod_cancel)
  then have "padding 64 (unat (total64 ?c)) t = padding 64 n t" for t
    by (simp add: padding_def tot)
  then show "hash (common64_end sp swap ?c) = fst (absorb 64 (compress64 sp p) (hash c)
        (concat ds @ padding 64 n ((if swap then rev else id) (nat_bytes 8 (8 * n)))))"
    using absorb_append[of 64 "compress64 sp p" "hash c" "concat ds"]
    by (simp add: common64_end_absorb(1)[OF ok] tot length_field_eq flip: state)
  show "process_block (common64_end sp swap ?c) = p" by (rule common64_end_absorb(2)[OF ok])
qed

lemma absorb_project:
  assumes "\<And>h w. g (f h w) = f' (g h) w"
  shows "g (fst (absorb bs f h xs)) = fst (absorb bs f' (g h) xs)"
  using assms
proof (induction bs f h xs rule: absorb.induct)
  case (1 bs f h xs)
  show ?case
  proof (cases "bs = 0 \<or> length xs < bs")
    case False
    then show ?thesis
      using 1(1)[OF False 1(2)] 1(2) absorb.simps[of bs f h xs] absorb.simps[of bs f' "g h" xs] by simp
  qed (auto simp: absorb.simps)
qed

lemma absorb_length:
  assumes "\<And>h w. length (f h w) = length h"
  shows "length (fst (absorb bs f h xs)) = length h"
  using assms by (induction bs f h xs rule: absorb.induct) (subst absorb.simps, simp)

lemma length_sha1_ref_compress: "length (sha1_ref_compress h w) = length h"
  by (simp add: sha1_ref_compress_def Let_def split: prod.split)

lemma length_sha256_compress: "length (sha256_compress h w) = length h"
  by (simp add: sha256_compress_def add_vars_def split: prod.split)

definition md5_spec :: "u8 list \<Rightarrow> u8 list" where
  \<comment> \<open>RFC 1321, section 3.\<close>
  "md5_spec m = concat (map (le_bytes 4) (fst (absorb 64 md5_ref_compress
     [0x67452301, 0xefcdab89, 0x98badcfe, 0x10325476]
     (m @ padding 64 (length m) (nat_bytes 8 (8 * length m))))))"

definition sha1_spec :: "u8 list \<Rightarrow> u8 list" where
  \<comment> \<open>FIPS 180-2, sections 5 and 6.1.\<close>
  "sha1_spec m = concat (map (be_bytes 4) (fst (absorb 64 sha1_ref_compress
     [0x67452301, 0xefcdab89, 0x98badcfe, 0x10325476, 0xc3d2e1f0]
     (m @ padding 64 (length m) (rev (nat_bytes 8 (8 * length m)))))))"

definition sha256_spec :: "u8 list \<Rightarrow> u8 list" where
  \<comment> \<open>FIPS 180-2, sections 5 and 6.2.\<close>
  "sha256_spec m = concat (map (be_bytes 4) (fst (absorb 64 sha256_compress
     [0x6a09e667, 0xbb67ae85, 0x3c6ef372, 0xa54ff53a, 0x510e527f, 0x9b05688c, 0x1f83d9ab, 0x5be0cd19]
     (m @ padding 64 (length m) (rev (nat_bytes 8 (8 * length m)))))))"

lemma take_md5_compress: "take 4 (md5_ref_compress h w) = md5_ref_compress (take 4 h) w"
  by (simp add: md5_ref_compress_def Let_def take_update_swap)

lemma take_sha1_compress: "take 5 (sha1_ref_compress h w) = sha1_ref_compress (take 5 h) w"
  by (simp add: sha1_ref_compress_def Let_def take_update_swap split: prod.split)

lemma length_8_cases:
  "length h = 8 \<Longrightarrow> \<exists>a b c d e f g k. h = [a, b, c, d, e, f, g, k]"
  by (auto simp: numeral_eq_Suc length_Suc_conv)

lemma le_bytes_SWAP_BE32: "le_bytes 4 (SWAP_BE32 w) = be_bytes 4 w"
  by (simp add: SWAP_BE32_def le_bytes_bswap)

text \<open>C13. The MD5 digest that \<open>md5_begin\<close>, calls of \<open>md5_hash\<close> on any pieces of a message and
  \<open>md5_end\<close> produce is that of RFC 1321 for the whole message, in every build and whatever the
  context held before.\<close>
theorem md5_digest:
  assumes "length (wbuffer c) = 64" "length (hash c) = 8"
  shows "snd (md5_end sp (foldl (md5_hash sp) (md5_begin c) pieces)) = md5_spec (concat pieces)"
proof -
  let ?h = "hash (md5_begin c)" and ?n = "length (concat pieces)"
  have ok: "ctx_ok md5_process_block64 (md5_begin c)" "total64 (md5_begin c) = 0"
    using assms(1) by (simp_all add: ctx_ok_def md5_begin_def)
  have h: "take 4 ?h = [0x67452301, 0xefcdab89, 0x98badcfe, 0x10325476]"
    using length_8_cases[OF assms(2)] by (auto simp: md5_begin_def)
  have "md5_hash sp = common64_hash sp" by (intro ext) (simp add: md5_hash_def)
  then show ?thesis
    using absorb_project[of "take 4" md5_ref_compress md5_ref_compress, OF take_md5_compress]
    by (simp add: md5_end_def md5_spec_def Let_def common64_digest(1)[OF ok refl] compress64_def
        md5_compress_ref h del: upt_rec_numeral)
qed

theorem md5_digest_witness:
  "snd (md5_end 2 (foldl (md5_hash 2) (md5_begin \<lparr>wbuffer = replicate 64 7,
     process_block = sha1_process_block64, total64 = 5, hash = replicate 8 9\<rparr>) [[97], [98, 99]]))
   = md5_spec [97, 98, 99]"
  using md5_digest[of "\<lparr>wbuffer = replicate 64 7, process_block = sha1_process_block64, total64 = 5,
    hash = replicate 8 9\<rparr>" 2 "[[97], [98, 99]]"] by simp



subsection \<open>SHA-512\<close>

definition bufpos512 :: "sha512_ctx_t \<Rightarrow> nat" where
  "bufpos512 c = unat (total512 c ! 0 AND 127)"

definition pending512 :: "sha512_ctx_t \<Rightarrow> u8 list" where
  "pending512 c = take (bufpos512 c) (wbuffer512 c)"

definition ctx512_ok :: "sha512_ctx_t \<Rightarrow> bool" where
  "ctx512_ok c \<longleftrightarrow> length (wbuffer512 c) = 128 \<and> length (total512 c) = 2"

definition count512 :: "u64 list \<Rightarrow> nat \<Rightarrow> u64 list" where
  \<comment> \<open>The counter after \<open>n\<close> more bytes.\<close>
  "count512 t n = (let lo = t ! 0 + of_nat n in
     if lo < of_nat n then t[0 := lo, 1 := t ! 1 + 1] else t[0 := lo])"

lemma bufpos512_less: "bufpos512 c < 128"
  by (simp add: bufpos512_def unat_and_127)

lemma run_block512_simps [simp]:
  "wbuffer512 (run_block512 c) = wbuffer512 c" "total512 (run_block512 c) = total512 c"
  "hash512 (run_block512 c) = sha512_compress (hash512 c) (wbuffer512 c)"
  by (simp_all add: run_block512_def)

lemma run_block512_total:
  "run_block512 (c\<lparr>total512 := t, wbuffer512 := w\<rparr>) = (run_block512 (c\<lparr>wbuffer512 := w\<rparr>))\<lparr>total512 := t\<rparr>"
  by (cases c) (simp add: run_block512_def)

lemma hash_loop512_short:
  "b + length d < 128 \<Longrightarrow> hash_loop512 b d c = c\<lparr>wbuffer512 := write_at (wbuffer512 c) b d\<rparr>"
  by (subst hash_loop512.simps) (simp add: min_def Let_def)

lemma hash_loop512_split:
  assumes "b < 128" "b + length d = 128"
  shows "hash_loop512 b (d @ e) c = hash_loop512 0 e (run_block512 (c\<lparr>wbuffer512 := write_at (wbuffer512 c) b d\<rparr>))"
  using assms by (subst hash_loop512.simps) (simp add: min_def Let_def)

lemma hash_loop512_exact:
  assumes "b < 128" "b + length d = 128" "length (wbuffer512 c) = 128"
  shows "hash_loop512 b d c = run_block512 (c\<lparr>wbuffer512 := write_at (wbuffer512 c) b d\<rparr>)"
  using hash_loop512_split[OF assms(1,2), of "[]" c] assms
    hash_loop512_short[of 0 "[]" "run_block512 (c\<lparr>wbuffer512 := write_at (wbuffer512 c) b d\<rparr>)"]
  by simp

lemma hash_loop512_frame: "total512 (hash_loop512 b d c) = total512 c"
  by (induction b d c rule: hash_loop512.induct; subst hash_loop512.simps; simp add: Let_def)

lemma hash_loop512_length:
  "length (wbuffer512 c) = 128 \<Longrightarrow> b \<le> 128 \<Longrightarrow> length (wbuffer512 (hash_loop512 b d c)) = 128"
proof (induction b d c rule: hash_loop512.induct)
  case (1 b d c)
  have "length (write_at (wbuffer512 c) b (take (min (128 - b) (length d)) d)) = 128"
    using 1(2,3) by (subst length_write_at) auto
  then show ?case using 1(1) by (subst hash_loop512.simps) (simp add: Let_def del: length_write_at)
qed

lemma hash_loop512_total:
  "hash_loop512 b d (c\<lparr>total512 := t\<rparr>) = (hash_loop512 b d c)\<lparr>total512 := t\<rparr>"
proof (induction b d c rule: hash_loop512.induct)
  case (1 b d c)
  then show ?case
    by (cases c) (simp add: hash_loop512.simps[of b d] Let_def run_block512_def)
qed

lemma sha512_hash_eq:
  "ctx512_ok c \<Longrightarrow>
   sha512_hash c d = hash_loop512 (bufpos512 c) d (c\<lparr>total512 := count512 (total512 c) (length d)\<rparr>)"
  by (cases c) (simp add: sha512_hash_def bufpos512_def count512_def ctx512_ok_def Let_def)

lemma count512_lo: "length t = 2 \<Longrightarrow> count512 t n ! 0 = t ! 0 + of_nat n"
  by (simp add: count512_def Let_def)

lemma length_count512 [simp]: "length (count512 t n) = length t"
  by (simp add: count512_def Let_def)

lemma bufpos512_hash: "ctx512_ok c \<Longrightarrow> bufpos512 (sha512_hash c d) = (bufpos512 c + length d) mod 128"
  by (simp add: sha512_hash_eq hash_loop512_frame bufpos512_def unat_and_127 total_mod count512_lo
      ctx512_ok_def)

interpretation sha512: block_feed 128 sha512_hash hash512 pending512 sha512_compress ctx512_ok
proof
  fix c d e
  assume ok: "ctx512_ok c"
  then have len: "length (wbuffer512 c) = 128" "length (total512 c) = 2" by (simp_all add: ctx512_ok_def)
  have pend: "length (pending512 c) = bufpos512 c"
    using len bufpos512_less[of c] by (simp add: pending512_def)
  let ?c = "\<lambda>d. c\<lparr>total512 := count512 (total512 c) (length d)\<rparr>"
  show "length (pending512 c) < 128" using pend bufpos512_less by simp
  show ok': "ctx512_ok (sha512_hash c d)"
    using len bufpos512_less[of c]
    by (simp add: ctx512_ok_def sha512_hash_eq[OF ok] hash_loop512_frame hash_loop512_length less_imp_le)
  show "hash512 (sha512_hash c d) = hash512 c \<and> pending512 (sha512_hash c d) = pending512 c @ d"
    if short: "length (pending512 c) + length d < 128"
  proof -
    have "sha512_hash c d = (?c d)\<lparr>wbuffer512 := write_at (wbuffer512 c) (bufpos512 c) d\<rparr>"
      using hash_loop512_short[of "bufpos512 c" d "?c d"] short pend by (simp add: sha512_hash_eq[OF ok])
    moreover have "bufpos512 (sha512_hash c d) = bufpos512 c + length d"
      using short pend by (simp add: bufpos512_hash[OF ok])
    ultimately show ?thesis
      using len bufpos512_less[of c] by (simp add: pending512_def take_write_at_end)
  qed
  assume full: "length (pending512 c) + length d = 128"
  have full': "bufpos512 c + length d = 128" using full pend by simp
  have fill: "write_at (wbuffer512 c) (bufpos512 c) d = pending512 c @ d"
    using full' len by (simp add: write_at_def pending512_def)
  have block: "sha512_hash c d = run_block512 ((?c d)\<lparr>wbuffer512 := pending512 c @ d\<rparr>)"
    using hash_loop512_exact[OF bufpos512_less full', of "?c d"] len fill by (simp add: sha512_hash_eq[OF ok])
  have zero: "bufpos512 (sha512_hash c d) = 0" using full' by (simp add: bufpos512_hash[OF ok])
  then show "hash512 (sha512_hash c d) = sha512_compress (hash512 c) (pending512 c @ d)
      \<and> pending512 (sha512_hash c d) = []"
    by (simp add: block) (simp add: block pending512_def)
  have total_irrelevant: "hash512 (hash_loop512 b e (x\<lparr>total512 := t\<rparr>)) = hash512 (hash_loop512 b e x)"
    "wbuffer512 (hash_loop512 b e (x\<lparr>total512 := t\<rparr>)) = wbuffer512 (hash_loop512 b e x)" for b e x t
    by (simp_all add: hash_loop512_total)
  let ?x = "run_block512 (c\<lparr>wbuffer512 := pending512 c @ d\<rparr>)"
  have "sha512_hash c (d @ e) = hash_loop512 0 e (?x\<lparr>total512 := count512 (total512 c) (length (d @ e))\<rparr>)"
    using hash_loop512_split[OF bufpos512_less full', of e "?c (d @ e)"] fill
    by (simp add: sha512_hash_eq[OF ok] run_block512_total)
  moreover have "sha512_hash (sha512_hash c d) e
      = hash_loop512 0 e (?x\<lparr>total512 := count512 (total512 (sha512_hash c d)) (length e)\<rparr>)"
    unfolding sha512_hash_eq[OF ok'] zero by (simp add: block run_block512_total)
  moreover have "bufpos512 (sha512_hash c (d @ e)) = bufpos512 (sha512_hash (sha512_hash c d) e)"
    by (simp add: bufpos512_hash[OF ok] bufpos512_hash[OF ok'] mod_simps add.assoc)
  ultimately show "hash512 (sha512_hash c (d @ e)) = hash512 (sha512_hash (sha512_hash c d) e)
      \<and> pending512 (sha512_hash c (d @ e)) = pending512 (sha512_hash (sha512_hash c d) e)"
    by (simp add: pending512_def total_irrelevant)
qed

text \<open>The 128-bit counter.\<close>

definition count_val :: "u64 list \<Rightarrow> nat" where
  "count_val t = unat (t ! 0) + 2 ^ 64 * unat (t ! 1)"

lemma two_digits:
  assumes "x < 2 ^ 64"
  shows "x + 2 ^ 64 * (k mod 2 ^ 64) = (x + 2 ^ 64 * k) mod (2 ^ 128 :: nat)"
proof -
  have "(x + b * k) mod (b * b) = x + b * (k mod b)" if "x < b" for b :: nat
    using that by (simp add: mod_mult2_eq)
  from this[OF assms] show ?thesis by simp
qed

lemma count_val_count512:
  assumes "length t = 2" "n < 2 ^ 64"
  shows "count_val (count512 t n) = (count_val t + n) mod 2 ^ 128"
proof -
  let ?l = "unat (t ! 0)" and ?h = "unat (t ! 1)"
  have l: "?l < 2 ^ 64" and h: "?h < 2 ^ 64"
    using unsigned_less[of "t ! 0", where 'a = nat] unsigned_less[of "t ! 1", where 'a = nat] by simp_all
  have n: "unat (of_nat n :: u64) = n" using assms(2) by (simp add: unsigned_of_nat take_bit_nat_eq_self)
  have lo: "unat (t ! 0 + of_nat n) = (?l + n) mod 2 ^ 64" by (simp only: unat_add_of_nat)
  have hi: "unat (t ! 1 + 1) = (?h + 1) mod 2 ^ 64"
    using unat_add_of_nat[of "t ! 1" 1] by simp
  have less: "t ! 0 + of_nat n < of_nat n \<longleftrightarrow> (?l + n) mod 2 ^ 64 < n"
    by (simp only: word_less_nat_alt lo n)
  show ?thesis
  proof (cases "?l + n < 2 ^ 64")
    case True
    then have "count_val (count512 t n) = ?l + n + 2 ^ 64 * ?h"
      using assms(1) lo less by (simp add: count512_def count_val_def Let_def)
    moreover have "?l + n + 2 ^ 64 * ?h < 2 ^ 128" using True h by simp
    ultimately show ?thesis by (simp add: count_val_def)
  next
    case False
    have over: "(?l + n) mod 2 ^ 64 = ?l + n - 2 ^ 64"
      using False l assms(2) by (simp add: mod_if)
    have carry: "?l + n - 2 ^ 64 < n" using l False by linarith
    have "count512 t n = t[0 := t ! 0 + of_nat n, 1 := t ! 1 + 1]"
      using carry less over by (simp add: count512_def Let_def)
    then have "count_val (count512 t n) = ?l + n - 2 ^ 64 + 2 ^ 64 * ((?h + 1) mod 2 ^ 64)"
      using assms(1) lo[unfolded over] by (simp add: count_val_def hi del: One_nat_def)
    also have "\<dots> = (?l + n - 2 ^ 64 + 2 ^ 64 * (?h + 1)) mod 2 ^ 128"
      by (rule two_digits) (use l assms(2) in simp_all)
    also have "?l + n - 2 ^ 64 + 2 ^ 64 * (?h + 1) = count_val t + n"
      using False by (simp add: count_val_def)
    finally show ?thesis .
  qed
qed

definition length_field512 :: "u64 list \<Rightarrow> u8 list" where
  \<comment> \<open>What the padding loop stores in the last 16 bytes.\<close>
  "length_field512 t = le_bytes 8 (SWAP_BE64 (push_bit 3 (t ! 1) OR drop_bit 61 (t ! 0)))
     @ le_bytes 8 (SWAP_BE64 (push_bit 3 (t ! 0)))"

lemma length_length_field512 [simp]: "length (length_field512 t) = 16"
  by (simp add: length_field512_def)

lemma high_count: "unat (push_bit 3 h OR drop_bit 61 l :: u64) = (8 * unat h + unat l div 2 ^ 61) mod 2 ^ 64"
proof -
  have "push_bit 3 h OR drop_bit 61 l = push_bit 3 h + drop_bit 61 l"
  proof (rule disjunctive_add[symmetric])
    show "\<not> bit (push_bit 3 h) n \<or> \<not> bit (drop_bit 61 l) n" for n
      using bit_imp_le_length[of l "61 + n"] by (auto simp: bit_simps)
  qed
  then show ?thesis
    by (simp add: push_bit_eq_mult unat_word_ariths unat_drop_bit mod_simps mult.commute
        del: drop_bit_eq_div)
qed

lemma length_field512_eq:
  assumes "count_val t = n mod 2 ^ 128"
  shows "length_field512 t = rev (nat_bytes 16 (8 * n))"
proof -
  let ?l = "unat (t ! 0)" and ?h = "unat (t ! 1)"
  define q where "q = n div 2 ^ 128"
  have n: "n = ?l + 2 ^ 64 * ?h + 2 ^ 128 * q"
    using assms div_mult_mod_eq[of n "2 ^ 128"] by (simp add: q_def count_val_def)
  have lo: "le_bytes 8 (push_bit 3 (t ! 0)) = nat_bytes 8 (8 * n)"
  proof -
    have "unat (push_bit 3 (t ! 0)) = 8 * ?l mod 2 ^ 64"
      by (simp add: push_bit_eq_mult unat_word_ariths mult.commute)
    also have "8 * ?l mod 2 ^ 64 = (8 * ?l + (8 * ?h + 8 * 2 ^ 64 * q) * 2 ^ 64) mod 2 ^ 64"
      by (simp only: mod_mult_self1)
    also have "8 * ?l + (8 * ?h + 8 * 2 ^ 64 * q) * 2 ^ 64 = 8 * n" by (simp add: n)
    finally show ?thesis using nat_bytes_mod[of 8 "8 * n"] by (simp add: le_bytes_nat)
  qed
  have hi: "le_bytes 8 (push_bit 3 (t ! 1) OR drop_bit 61 (t ! 0)) = nat_bytes 8 (8 * n div 256 ^ 8)"
  proof -
    have "8 * n = 8 * ?l + 2 ^ 64 * (8 * ?h + 2 ^ 64 * (8 * q))" by (simp add: n)
    then have "8 * n div 2 ^ 64 = 8 * ?h + 2 ^ 64 * (8 * q) + 8 * ?l div 2 ^ 64" by simp
    moreover have "8 * ?l div 2 ^ 64 = ?l div 2 ^ 61" by simp
    ultimately have "8 * n div 2 ^ 64 = (8 * ?h + ?l div 2 ^ 61) + (8 * q) * 2 ^ 64"
      by (simp only: ac_simps)
    then have "8 * n div 2 ^ 64 mod 2 ^ 64 = (8 * ?h + ?l div 2 ^ 61) mod 2 ^ 64"
      by (simp only: mod_mult_self1)
    then show ?thesis
      using nat_bytes_mod[of 8 "8 * n div 2 ^ 64"] by (simp add: le_bytes_nat high_count)
  qed
  have "nat_bytes (8 + 8) (8 * n) = nat_bytes 8 (8 * n) @ nat_bytes 8 (8 * n div 256 ^ 8)"
    by (rule nat_bytes_append)
  moreover have "8 + 8 = (16 :: nat)" by simp
  moreover have "le_bytes 8 (SWAP_BE64 x) = rev (le_bytes 8 x)" for x
    by (simp add: SWAP_BE64_def le_bytes_bswap be_bytes_def)
  ultimately show ?thesis by (simp only: length_field512_def lo hi rev_append)
qed

text \<open>The padding loop.\<close>

lemma end_loop512_last:
  assumes "length q + m = 128" "16 \<le> m" "write_at (wbuffer512 c) (128 - m) (replicate m 0) = q @ replicate m 0"
  shows "end_loop512 (128 - m) c =
    run_block512 (c\<lparr>wbuffer512 := q @ replicate (m - 16) 0 @ length_field512 (total512 c)\<rparr>)"
proof -
  have m: "128 - (128 - m) = m" using assms(1) by simp
  have "write_at (write_at (q @ replicate m 0) (128 - 8) b) (128 - 16) a = q @ replicate (m - 16) 0 @ a @ b"
    if "length a = 8" "length b = 8" for a b
  proof -
    have "write_at (q @ replicate m 0) (128 - 8) b = q @ replicate (m - 8) 0 @ b"
      using assms that by (intro write_at_trailer) simp_all
    also have "m - 8 = (m - 16) + 8" using assms(2) by simp
    also have "q @ replicate ((m - 16) + 8) 0 @ b = (q @ replicate (m - 16) 0) @ replicate 8 0 @ b"
      by (simp only: replicate_add append_assoc)
    finally have "write_at (q @ replicate m 0) (128 - 8) b = (q @ replicate (m - 16) 0) @ replicate 8 0 @ b" .
    moreover have "length (q @ replicate (m - 16) 0) = 112" using assms(1,2) by simp
    ultimately show ?thesis using that by (simp add: write_at_def)
  qed
  then show ?thesis
    using assms(2) unfolding m
    by (subst end_loop512.simps) (simp add: Let_def m assms(3) length_field512_def cong: if_cong)
qed

lemma end_loop512_first:
  assumes "m < 16" "write_at (wbuffer512 c) (128 - m) (replicate m 0) = q"
  shows "end_loop512 (128 - m) c = end_loop512 0 (run_block512 (c\<lparr>wbuffer512 := q\<rparr>))"
  using assms by (subst end_loop512.simps) (simp add: Let_def)

lemma sha512_end_absorb:
  assumes "ctx512_ok c"
  shows "hash512 (end_loop512 (bufpos512 c + 1) (c\<lparr>wbuffer512 := (wbuffer512 c)[bufpos512 c := 0x80]\<rparr>))
    = fst (absorb 128 sha512_compress (hash512 c)
        (pending512 c @ padding 128 (unat (total512 c ! 0)) (length_field512 (total512 c))))"
proof -
  let ?b = "bufpos512 c" and ?t = "length_field512 (total512 c)"
  let ?q = "pending512 c @ [0x80]" and ?m = "128 - (bufpos512 c + 1)"
  let ?c = "c\<lparr>wbuffer512 := (wbuffer512 c)[?b := 0x80]\<rparr>"
  have len: "length (wbuffer512 c) = 128" using assms by (simp add: ctx512_ok_def)
  have b: "?b < 128" by (rule bufpos512_less)
  have bm: "unat (total512 c ! 0) mod 128 = ?b" by (simp add: bufpos512_def unat_and_127)
  have pend: "length (pending512 c) = ?b" using len b by (simp add: pending512_def)
  have m: "length ?q + ?m = 128" "128 - ?m = ?b + 1" using b pend by simp_all
  have fill: "write_at (wbuffer512 ?c) (128 - ?m) (replicate ?m 0) = ?q @ replicate ?m 0"
    using write_at_rest[OF len b] unfolding m(2) by (simp add: pending512_def)
  show ?thesis
  proof (cases "16 \<le> ?m")
    case True
    have pad: "pending512 c @ padding 128 (unat (total512 c ! 0)) ?t = (?q @ replicate (?m - 16) 0 @ ?t) @ []"
      using padding_short[of "unat (total512 c ! 0)" 128 ?t] True b bm by simp
    have l: "length (?q @ replicate (?m - 16) 0 @ ?t) = 128" using True m(1) by simp
    have "end_loop512 (?b + 1) ?c = run_block512 (?c\<lparr>wbuffer512 := ?q @ replicate (?m - 16) 0 @ ?t\<rparr>)"
      using end_loop512_last[OF m(1) True fill] unfolding m(2) by simp
    then show ?thesis unfolding pad absorb_block[OF l zero_less_numeral] by simp
  next
    case False
    have pad: "pending512 c @ padding 128 (unat (total512 c ! 0)) ?t
        = (?q @ replicate ?m 0) @ ((replicate 112 0 @ ?t) @ [])"
      using padding_long[of 128 "unat (total512 c ! 0)" ?t] False b bm by simp
    have l: "length (?q @ replicate ?m 0) = 128" using m(1) by simp
    have l': "length (replicate 112 0 @ ?t) = 128" by simp
    let ?c1 = "run_block512 (?c\<lparr>wbuffer512 := ?q @ replicate ?m 0\<rparr>)"
    have "end_loop512 (?b + 1) ?c = end_loop512 0 ?c1"
      using False end_loop512_first[OF _ fill] unfolding m(2) by simp
    also have "\<dots> = run_block512 (?c1\<lparr>wbuffer512 := replicate 112 0 @ ?t\<rparr>)"
      using end_loop512_last[of "[]" 128 ?c1] l by (simp add: write_at_def)
    finally show ?thesis
      unfolding pad absorb_block[OF l zero_less_numeral] absorb_block[OF l' zero_less_numeral] by simp
  qed
qed

lemma sha512_total:
  "ctx512_ok c \<Longrightarrow> \<forall>d \<in> set ds. length d < 2 ^ 64 \<Longrightarrow>
   count_val (total512 (foldl sha512_hash c ds)) mod 2 ^ 128
     = (count_val (total512 c) + length (concat ds)) mod 2 ^ 128"
proof (induction ds arbitrary: c)
  case (Cons d ds)
  have "count_val (total512 (sha512_hash c d)) = (count_val (total512 c) + length d) mod 2 ^ 128"
    using Cons.prems by (simp add: sha512_hash_eq hash_loop512_frame count_val_count512 ctx512_ok_def)
  then show ?case
    using Cons.IH[OF sha512.feed_ok[OF Cons.prems(1), of d]] Cons.prems(2)
    by (simp add: mod_simps add.assoc)
qed simp

lemma count_val_less: "count_val t < 2 ^ 128"
proof -
  have "unat (t ! 0) < 2 ^ 64" "unat (t ! 1) < 2 ^ 64"
    using unsigned_less[of "t ! 0", where 'a = nat] unsigned_less[of "t ! 1", where 'a = nat] by simp_all
  then show ?thesis by (simp add: count_val_def)
qed

definition sha512_spec :: "u8 list \<Rightarrow> u8 list" where
  \<comment> \<open>FIPS 180-2, sections 5 and 6.3.\<close>
  "sha512_spec m = concat (map (be_bytes 8) (fst (absorb 128 sha512_compress
     [0x6a09e667f3bcc908, 0xbb67ae8584caa73b, 0x3c6ef372fe94f82b, 0xa54ff53a5f1d36f1,
      0x510e527fade682d1, 0x9b05688c2b3e6c1f, 0x1f83d9abfb41bd6b, 0x5be0cd19137e2179]
     (m @ padding 128 (length m) (rev (nat_bytes 16 (8 * length m)))))))"

lemma sha512_begin_state:
  "total512 (sha512_begin c) = [0, 0]"
  "hash512 (sha512_begin c) = [0x6a09e667f3bcc908, 0xbb67ae8584caa73b, 0x3c6ef372fe94f82b,
     0xa54ff53a5f1d36f1, 0x510e527fade682d1, 0x9b05688c2b3e6c1f, 0x1f83d9abfb41bd6b, 0x5be0cd19137e2179]"
  "wbuffer512 (sha512_begin c) = wbuffer512 c"
  by (simp_all add: sha512_begin_def Let_def init256_def init512_lo_def upt_rec)



end
