(* ===== verification/Shell_Math.thy ===== *)
theory Shell_Math
  imports C_String "HOL-Library.Signed_Division"
begin

unbundle bit_operations_syntax

text \<open>
  Arithmetic expansion of the shells (\<open>shell/math.c\<close>, \<open>shell/math.h\<close>, with \<open>arith_t\<close> 64 bits
  wide as the configuration sets it): the operators and their table, variables whose values are
  expressions themselves, the application of one operator to the number stack, and the loop
  over the text with its two stacks.

  The two stacks are allocated for a number of entries computed from the length of the text; a
  push beyond it is undefined behaviour (\<open>None\<close>), as are a shift by a count outside the word
  and the division that traps. Addition, subtraction and multiplication wrap around. The shell's
  variables, \<open>lookupvar\<close> and \<open>setvar\<close> in the code, are a map. Recursion through variables is
  counted down by the parameter \<open>d\<close> of \<open>evaluate_string\<close>; running out of it is the message
  \<open>Out_of_fuel\<close>, which no code produces.
\<close>

subsection \<open>Operators\<close>

type_synonym op = u8

definition tok_decl :: "op \<Rightarrow> nat \<Rightarrow> op" where "tok_decl prec i = push_bit 5 (of_nat i) OR prec"
definition PREC :: "op \<Rightarrow> op" where "PREC op = op AND 0x1F"

definition UNARYPREC :: op where "UNARYPREC = 16"
definition PREC_PRE :: op where "PREC_PRE = UNARYPREC + 2"
definition PREC_POST :: op where "PREC_POST = UNARYPREC + 3"
definition SPEC_PREC :: op where "SPEC_PREC = UNARYPREC + 4"

definition TOK_LPAREN :: op where "TOK_LPAREN = tok_decl 0 0"
definition TOK_COMMA :: op where "TOK_COMMA = tok_decl 1 0"
definition TOK_ASSIGN :: op where "TOK_ASSIGN = tok_decl 2 0"
definition TOK_AND_ASSIGN :: op where "TOK_AND_ASSIGN = tok_decl 2 1"
definition TOK_OR_ASSIGN :: op where "TOK_OR_ASSIGN = tok_decl 2 2"
definition TOK_XOR_ASSIGN :: op where "TOK_XOR_ASSIGN = tok_decl 2 3"
definition TOK_PLUS_ASSIGN :: op where "TOK_PLUS_ASSIGN = tok_decl 2 4"
definition TOK_MINUS_ASSIGN :: op where "TOK_MINUS_ASSIGN = tok_decl 2 5"
definition TOK_LSHIFT_ASSIGN :: op where "TOK_LSHIFT_ASSIGN = tok_decl 2 6"
definition TOK_RSHIFT_ASSIGN :: op where "TOK_RSHIFT_ASSIGN = tok_decl 2 7"
definition TOK_MUL_ASSIGN :: op where "TOK_MUL_ASSIGN = tok_decl 3 0"
definition TOK_DIV_ASSIGN :: op where "TOK_DIV_ASSIGN = tok_decl 3 1"
definition TOK_REM_ASSIGN :: op where "TOK_REM_ASSIGN = tok_decl 3 2"
definition TOK_CONDITIONAL :: op where "TOK_CONDITIONAL = tok_decl 4 0"
definition TOK_CONDITIONAL_SEP :: op where "TOK_CONDITIONAL_SEP = tok_decl 4 1"
definition TOK_OR :: op where "TOK_OR = tok_decl 5 0"
definition TOK_AND :: op where "TOK_AND = tok_decl 6 0"
definition TOK_BOR :: op where "TOK_BOR = tok_decl 7 0"
definition TOK_BXOR :: op where "TOK_BXOR = tok_decl 8 0"
definition TOK_BAND :: op where "TOK_BAND = tok_decl 9 0"
definition TOK_EQ :: op where "TOK_EQ = tok_decl 10 0"
definition TOK_NE :: op where "TOK_NE = tok_decl 10 1"
definition TOK_LT :: op where "TOK_LT = tok_decl 11 0"
definition TOK_GT :: op where "TOK_GT = tok_decl 11 1"
definition TOK_GE :: op where "TOK_GE = tok_decl 11 2"
definition TOK_LE :: op where "TOK_LE = tok_decl 11 3"
definition TOK_LSHIFT :: op where "TOK_LSHIFT = tok_decl 12 0"
definition TOK_RSHIFT :: op where "TOK_RSHIFT = tok_decl 12 1"
definition TOK_ADD :: op where "TOK_ADD = tok_decl 13 0"
definition TOK_SUB :: op where "TOK_SUB = tok_decl 13 1"
definition TOK_MUL :: op where "TOK_MUL = tok_decl 14 0"
definition TOK_DIV :: op where "TOK_DIV = tok_decl 14 1"
definition TOK_REM :: op where "TOK_REM = tok_decl 14 2"
definition TOK_EXPONENT :: op where "TOK_EXPONENT = tok_decl 15 1"
definition TOK_BNOT :: op where "TOK_BNOT = tok_decl UNARYPREC 0"
definition TOK_NOT :: op where "TOK_NOT = tok_decl UNARYPREC 1"
definition TOK_UMINUS :: op where "TOK_UMINUS = tok_decl (UNARYPREC + 1) 0"
definition TOK_UPLUS :: op where "TOK_UPLUS = tok_decl (UNARYPREC + 1) 1"
definition TOK_PRE_INC :: op where "TOK_PRE_INC = tok_decl PREC_PRE 0"
definition TOK_PRE_DEC :: op where "TOK_PRE_DEC = tok_decl PREC_PRE 1"
definition TOK_POST_INC :: op where "TOK_POST_INC = tok_decl PREC_POST 0"
definition TOK_POST_DEC :: op where "TOK_POST_DEC = tok_decl PREC_POST 1"
definition TOK_NUM :: op where "TOK_NUM = tok_decl SPEC_PREC 0"
definition TOK_RPAREN :: op where "TOK_RPAREN = tok_decl SPEC_PREC 1"

lemmas tok_defs = TOK_LPAREN_def TOK_COMMA_def TOK_ASSIGN_def TOK_AND_ASSIGN_def
  TOK_OR_ASSIGN_def TOK_XOR_ASSIGN_def TOK_PLUS_ASSIGN_def TOK_MINUS_ASSIGN_def
  TOK_LSHIFT_ASSIGN_def TOK_RSHIFT_ASSIGN_def TOK_MUL_ASSIGN_def TOK_DIV_ASSIGN_def
  TOK_REM_ASSIGN_def TOK_CONDITIONAL_def TOK_CONDITIONAL_SEP_def TOK_OR_def TOK_AND_def
  TOK_BOR_def TOK_BXOR_def TOK_BAND_def TOK_EQ_def TOK_NE_def TOK_LT_def TOK_GT_def TOK_GE_def
  TOK_LE_def TOK_LSHIFT_def TOK_RSHIFT_def TOK_ADD_def TOK_SUB_def TOK_MUL_def TOK_DIV_def
  TOK_REM_def TOK_EXPONENT_def TOK_BNOT_def TOK_NOT_def TOK_UMINUS_def TOK_UPLUS_def
  TOK_PRE_INC_def TOK_PRE_DEC_def TOK_POST_INC_def TOK_POST_DEC_def TOK_NUM_def TOK_RPAREN_def
  tok_decl_def UNARYPREC_def PREC_PRE_def PREC_POST_def SPEC_PREC_def PREC_def

definition fix_assignment_prec :: "op \<Rightarrow> op" where
  "fix_assignment_prec prec = (if prec = 3 then 2 else prec)"

definition is_assign_op :: "op \<Rightarrow> bool" where
  "is_assign_op op = (let prec = fix_assignment_prec (PREC op) in
     prec = PREC TOK_ASSIGN \<or> prec = PREC_PRE \<or> prec = PREC_POST)"

definition is_right_associative :: "op \<Rightarrow> bool" where
  "is_right_associative prec \<longleftrightarrow>
     prec = PREC TOK_ASSIGN \<or> prec = PREC TOK_EXPONENT \<or> prec = PREC TOK_CONDITIONAL"

definition op_tokens :: "(string \<times> op) list" where
  "op_tokens = [
    (''<<='', TOK_LSHIFT_ASSIGN), (''>>='', TOK_RSHIFT_ASSIGN), (''<<'', TOK_LSHIFT),
    (''>>'', TOK_RSHIFT), (''||'', TOK_OR), (''&&'', TOK_AND),
    (''!='', TOK_NE), (''<='', TOK_LE), (''>='', TOK_GE),
    (''=='', TOK_EQ), (''|='', TOK_OR_ASSIGN), (''&='', TOK_AND_ASSIGN),
    (''*='', TOK_MUL_ASSIGN), (''/='', TOK_DIV_ASSIGN), (''%='', TOK_REM_ASSIGN),
    (''+='', TOK_PLUS_ASSIGN), (''-='', TOK_MINUS_ASSIGN), (''--'', TOK_POST_DEC),
    (''^='', TOK_XOR_ASSIGN), (''++'', TOK_POST_INC), (''**'', TOK_EXPONENT),
    (''!'', TOK_NOT), (''<'', TOK_LT), (''>'', TOK_GT),
    (''='', TOK_ASSIGN), (''|'', TOK_BOR), (''&'', TOK_BAND),
    (''*'', TOK_MUL), (''/'', TOK_DIV), (''%'', TOK_REM),
    (''+'', TOK_ADD), (''-'', TOK_SUB), (''^'', TOK_BXOR),
    (''~'', TOK_BNOT), ('','', TOK_COMMA), (''?'', TOK_CONDITIONAL),
    ('':'', TOK_CONDITIONAL_SEP), ('')'', TOK_RPAREN), (''('', TOK_LPAREN)]"

subsection \<open>State\<close>

datatype err = Syntax_error | Recursion_loop | Malformed_conditional | Negative_exponent
  | Divide_by_zero | Out_of_fuel

record var_or_num_t =
  num_val :: s64
  second_val :: s64
  second_val_present :: bool
  var :: "string option"   \<comment> \<open>\<open>None\<close>: just a number\<close>

record arith_state_t =
  errmsg :: "err option"
  vars :: "string \<rightharpoonup> string"             \<comment> \<open>the shell's variables\<close>
  list_of_recursed_names :: "string list"

definition number :: "s64 \<Rightarrow> var_or_num_t" where
  "number v = \<lparr>num_val = v, second_val = 0, second_val_present = False, var = None\<rparr>"

definition named :: "string \<Rightarrow> var_or_num_t" where
  \<comment> \<open>Its value is not set, and not used before it is looked up or assigned.\<close>
  "named x = \<lparr>num_val = 0, second_val = 0, second_val_present = False, var = Some x\<rparr>"

type_synonym evaluator = "arith_state_t \<Rightarrow> string \<Rightarrow> (s64 \<times> arith_state_t) option"

definition arith_lookup_val ::
    "evaluator \<Rightarrow> arith_state_t \<Rightarrow> var_or_num_t \<Rightarrow> (err option \<times> var_or_num_t \<times> arith_state_t) option" where
  "arith_lookup_val ev st t =
     (case var t of
        None \<Rightarrow> Some (None, t, st)
      | Some x \<Rightarrow>
          (case vars st x of
             None \<Rightarrow> Some (None, t\<lparr>num_val := 0\<rparr>, st)
           | Some p \<Rightarrow>
               if x \<in> set (list_of_recursed_names st) then Some (Some Recursion_loop, t, st)
               else do {
                 let cur = list_of_recursed_names st;
                 (v, st) \<leftarrow> ev (st\<lparr>list_of_recursed_names := x # cur\<rparr>) p;
                 Some (errmsg st, t\<lparr>num_val := v\<rparr>, st\<lparr>list_of_recursed_names := cur\<rparr>) }))"

subsection \<open>Applying an operator\<close>

definition of_bool64 :: "bool \<Rightarrow> s64" where "of_bool64 b = (if b then 1 else 0)"

definition unary_value :: "op \<Rightarrow> s64 \<Rightarrow> s64 option" where
  \<comment> \<open>\<open>None\<close>: the operator is not unary.\<close>
  "unary_value op rez =
     (if op = TOK_UMINUS then Some (- rez)
      else if op = TOK_NOT then Some (of_bool64 (rez = 0))
      else if op = TOK_BNOT then Some (NOT rez)
      else if op = TOK_POST_INC \<or> op = TOK_PRE_INC then Some (rez + 1)
      else if op = TOK_POST_DEC \<or> op = TOK_PRE_DEC then Some (rez - 1)
      else if op = TOK_UPLUS then Some rez
      else None)"

fun pow_loop :: "nat \<Rightarrow> s64 \<Rightarrow> s64 \<Rightarrow> s64" where
  "pow_loop 0 rez c = c"
| "pow_loop (Suc n) rez c = pow_loop n rez (c * rez)"

definition binary_value :: "op \<Rightarrow> s64 \<Rightarrow> s64 \<Rightarrow> s64 \<Rightarrow> (err + s64) option" where
  \<comment> \<open>\<open>rez\<close> is the left value, \<open>right\<close> the right one, \<open>second\<close> the alternative of a \<open>:\<close>.\<close>
  "binary_value op rez right second =
     (if op = TOK_CONDITIONAL then Some (Inr (if rez \<noteq> 0 then right else second))
      else if op = TOK_CONDITIONAL_SEP then Some (Inr rez)
      else if op = TOK_BOR \<or> op = TOK_OR_ASSIGN then Some (Inr (rez OR right))
      else if op = TOK_OR then Some (Inr (of_bool64 (right \<noteq> 0 \<or> rez \<noteq> 0)))
      else if op = TOK_BAND \<or> op = TOK_AND_ASSIGN then Some (Inr (rez AND right))
      else if op = TOK_BXOR \<or> op = TOK_XOR_ASSIGN then Some (Inr (rez XOR right))
      else if op = TOK_AND then Some (Inr (of_bool64 (rez \<noteq> 0 \<and> right \<noteq> 0)))
      else if op = TOK_EQ then Some (Inr (of_bool64 (rez = right)))
      else if op = TOK_NE then Some (Inr (of_bool64 (rez \<noteq> right)))
      else if op = TOK_GE then Some (Inr (of_bool64 (sint right \<le> sint rez)))
      else if op = TOK_RSHIFT \<or> op = TOK_RSHIFT_ASSIGN
        then if sint right < 0 \<or> 64 \<le> sint right then None
             else Some (Inr (word_of_int (drop_bit (nat (sint right)) (sint rez))))
      else if op = TOK_LSHIFT \<or> op = TOK_LSHIFT_ASSIGN
        then if sint right < 0 \<or> 64 \<le> sint right then None
             else Some (Inr (push_bit (nat (sint right)) rez))
      else if op = TOK_GT then Some (Inr (of_bool64 (sint right < sint rez)))
      else if op = TOK_LT then Some (Inr (of_bool64 (sint rez < sint right)))
      else if op = TOK_LE then Some (Inr (of_bool64 (sint rez \<le> sint right)))
      else if op = TOK_MUL \<or> op = TOK_MUL_ASSIGN then Some (Inr (rez * right))
      else if op = TOK_ADD \<or> op = TOK_PLUS_ASSIGN then Some (Inr (rez + right))
      else if op = TOK_SUB \<or> op = TOK_MINUS_ASSIGN then Some (Inr (rez - right))
      else if op = TOK_ASSIGN \<or> op = TOK_COMMA then Some (Inr right)
      else if op = TOK_EXPONENT
        then if sint right < 0 then Some (Inl Negative_exponent)
             else Some (Inr (pow_loop (nat (sint right)) rez 1))
      else if right = 0 then Some (Inl Divide_by_zero)
      else if op = TOK_DIV \<or> op = TOK_DIV_ASSIGN
        then if sint rez = - (2 ^ 63) \<and> sint right = -1 then None
             else Some (Inr (word_of_int (sint rez sdiv sint right)))
      else if op = TOK_REM \<or> op = TOK_REM_ASSIGN
        then if sint rez = - (2 ^ 63) \<and> sint right = -1 then None
             else Some (Inr (word_of_int (sint rez smod sint right)))
      else Some (Inr rez))"

fun show_nat :: "nat \<Rightarrow> string" where
  "show_nat n = (if n < 10 then [char_of (48 + n)] else show_nat (n div 10) @ [char_of (48 + n mod 10)])"

declare show_nat.simps [simp del]

definition show_arith :: "s64 \<Rightarrow> string" where
  \<comment> \<open>\<open>sprintf(buf, "%lld", rez)\<close>.\<close>
  "show_arith w = (let i = sint w in if i < 0 then CHR ''-'' # show_nat (nat (- i)) else show_nat (nat i))"

definition finish_apply ::
    "op \<Rightarrow> s64 \<Rightarrow> var_or_num_t \<Rightarrow> arith_state_t \<Rightarrow> err + (var_or_num_t \<times> arith_state_t)" where
  \<comment> \<open>The end of \<open>arith_apply\<close>: assign, and make the top of the stack a number.\<close>
  "finish_apply op rez tos st =
     (if is_assign_op op
      then case var tos of
          None \<Rightarrow> Inl Syntax_error
        | Some x \<Rightarrow>
            (let st = st\<lparr>vars := (vars st)(x \<mapsto> show_arith rez)\<rparr>;
                 rez = (if op = TOK_POST_INC then rez - 1
                        else if op = TOK_POST_DEC then rez + 1 else rez)
             in Inr (tos\<lparr>num_val := rez, var := None\<rparr>, st))
      else Inr (tos\<lparr>num_val := rez, var := None\<rparr>, st))"

definition finish_unary ::
    "op \<Rightarrow> s64 \<Rightarrow> var_or_num_t \<Rightarrow> var_or_num_t list \<Rightarrow> arith_state_t
      \<Rightarrow> err option \<times> var_or_num_t list \<times> arith_state_t" where
  "finish_unary op rez t0 below st =
     (case finish_apply op rez t0 st of
        Inl e \<Rightarrow> (Some e, t0 # below, st)
      | Inr (t1, st) \<Rightarrow> (None, t1 # below, st))"

definition finish_binary ::
    "op \<Rightarrow> var_or_num_t \<Rightarrow> var_or_num_t \<Rightarrow> var_or_num_t list \<Rightarrow> arith_state_t \<Rightarrow> err + s64
      \<Rightarrow> err option \<times> var_or_num_t list \<times> arith_state_t" where
  "finish_binary op right left rest st r =
     (case r of
        Inl e \<Rightarrow> (Some e, left # rest, st)
      | Inr rez \<Rightarrow>
          (let left = (if op = TOK_CONDITIONAL_SEP
                       then left\<lparr>second_val_present := True, second_val := num_val right\<rparr>
                       else left)
           in finish_unary op rez left rest st))"

definition bad_second_val :: "op \<Rightarrow> var_or_num_t \<Rightarrow> bool" where
  "bad_second_val op right =
     (if op = TOK_CONDITIONAL then \<not> second_val_present right else second_val_present right)"

definition apply_binary ::
    "evaluator \<Rightarrow> arith_state_t \<Rightarrow> op \<Rightarrow> var_or_num_t \<Rightarrow> var_or_num_t list
      \<Rightarrow> (err option \<times> var_or_num_t list \<times> arith_state_t) option" where
  \<comment> \<open>The branch of binary operators: \<open>right\<close> has been looked up, \<open>below\<close> is the stack under it.\<close>
  "apply_binary ev st op right below =
     (case below of
        [] \<Rightarrow> Some (Some Syntax_error, [right], st)
      | left # rest \<Rightarrow>
          if bad_second_val op right then Some (Some Malformed_conditional, below, st)
          else do {
             (e, left, st) \<leftarrow> (if op \<noteq> TOK_ASSIGN then arith_lookup_val ev st left
                             else Some (None, left, st));
             (case e of
                Some _ \<Rightarrow> Some (e, left # rest, st)
              | None \<Rightarrow>
                  if op = TOK_CONDITIONAL_SEP \<and> rest = [] then Some (Some Malformed_conditional, [left], st)
                  else do {
                    r \<leftarrow> binary_value op (num_val left) (num_val right) (second_val right);
                    Some (finish_binary op right left rest st r) }) })"

definition arith_apply ::
    "evaluator \<Rightarrow> arith_state_t \<Rightarrow> op \<Rightarrow> var_or_num_t list
      \<Rightarrow> (err option \<times> var_or_num_t list \<times> arith_state_t) option" where
  \<comment> \<open>The top of the number stack is the head of the list.\<close>
  "arith_apply ev st op nums =
     (case nums of
        [] \<Rightarrow> Some (Some Syntax_error, nums, st)
      | tos # below \<Rightarrow> do {
          (e, tos, st) \<leftarrow> arith_lookup_val ev st tos;
          (case e of
             Some _ \<Rightarrow> Some (e, tos # below, st)
           | None \<Rightarrow>
               (case unary_value op (num_val tos) of
                  Some rez \<Rightarrow> Some (finish_unary op rez tos below st)
                | None \<Rightarrow> apply_binary ev st op tos below)) })"

subsection \<open>Tokens\<close>

definition is_name :: "char \<Rightarrow> bool" where "is_name c \<longleftrightarrow> c = CHR ''_'' \<or> is_alpha c"
definition is_in_name :: "char \<Rightarrow> bool" where "is_in_name c \<longleftrightarrow> c = CHR ''_'' \<or> is_alnum c"

definition endofname :: "string \<Rightarrow> string" where
  \<comment> \<open>What follows the name at the start of the text.\<close>
  "endofname s = (case s of [] \<Rightarrow> []
     | c # r \<Rightarrow> if is_name c then dropWhile is_in_name r else s)"

definition hex_digit :: "char \<Rightarrow> nat" where
  \<comment> \<open>The value of a digit in any base up to 16, at least 16 for other characters.\<close>
  "hex_digit c = (if is_digit c then digit_val c
     else if CHR ''a'' \<le> c \<and> c \<le> CHR ''f'' then of_char c - 87
     else if CHR ''A'' \<le> c \<and> c \<le> CHR ''F'' then of_char c - 55 else 99)"

fun scan_base :: "nat \<Rightarrow> nat \<Rightarrow> string \<Rightarrow> nat \<times> string" where
  "scan_base b n [] = (n, [])"
| "scan_base b n (c # s) = (if hex_digit c < b then scan_base b (b * n + hex_digit c) s else (n, c # s))"

definition strto_arith_t :: "string \<Rightarrow> s64 \<times> string" where
  \<comment> \<open>\<open>strtoull\<close> with base 0 on a text that starts with a digit, and 0 when it reports an
      error (a value that does not fit).\<close>
  "strto_arith_t s =
     (let (n, r) =
        (case s of
           c # x # h # _ \<Rightarrow>
             if c = CHR ''0'' \<and> (x = CHR ''x'' \<or> x = CHR ''X'') \<and> hex_digit h < 16
             then scan_base 16 0 (drop 2 s)
             else if c = CHR ''0'' then scan_base 8 0 s else scan_base 10 0 s
         | c # _ \<Rightarrow> if c = CHR ''0'' then scan_base 8 0 s else scan_base 10 0 s
         | [] \<Rightarrow> (0, []))
      in (if n < 2 ^ 64 then of_nat n else 0, r))"

fun find_token :: "(string \<times> op) list \<Rightarrow> string \<Rightarrow> (op \<times> string) option" where
  \<comment> \<open>The first entry of the table that the text starts with, and the text behind it.\<close>
  "find_token [] e = None"
| "find_token ((t, op) # ts) e = (if prefix t e then Some (op, drop (length t) e) else find_token ts e)"

subsection \<open>The evaluation loop\<close>

record loop_state =
  lp_expr :: string
  lp_closed :: bool            \<comment> \<open>\<open>expr\<close> points into the table, at or behind its right paren\<close>
  lp_nums :: "var_or_num_t list"
  lp_stack :: "op list"
  lp_lasttok :: op
  lp_state :: arith_state_t

datatype reduced =
    Applied "var_or_num_t list" "op list" arith_state_t   \<comment> \<open>fall through to the push\<close>
  | Paren "var_or_num_t list" "op list" arith_state_t     \<comment> \<open>the left paren is found\<close>
  | Failed err arith_state_t

fun reduce_stack ::
    "evaluator \<Rightarrow> op \<Rightarrow> op list \<Rightarrow> var_or_num_t list \<Rightarrow> arith_state_t \<Rightarrow> reduced option" where
  \<comment> \<open>\<open>while (stackptr != stack)\<close> and the test after it.\<close>
  "reduce_stack ev op [] nums st =
     Some (if op = TOK_RPAREN then Failed Syntax_error st else Applied nums [] st)"
| "reduce_stack ev op (prev_op # stack) nums st =
     (let prec = fix_assignment_prec (PREC op); prev_prec = fix_assignment_prec (PREC prev_op) in
      if op = TOK_RPAREN \<and> prev_op = TOK_LPAREN then Some (Paren nums stack st)
      else if op \<noteq> TOK_RPAREN \<and> (prev_prec < prec \<or> prev_prec = prec \<and> is_right_associative prec)
      then Some (Applied nums (prev_op # stack) st)
      else do {
        (e, nums, st) \<leftarrow> arith_apply ev st prev_op nums;
        (case e of Some e \<Rightarrow> Some (Failed e st)
         | None \<Rightarrow> reduce_stack ev op stack nums st) })"

definition unary_version :: "op \<Rightarrow> op \<Rightarrow> op" where
  \<comment> \<open>Plus and minus are unary unless they follow a number.\<close>
  "unary_version lasttok op =
     (if lasttok \<noteq> TOK_NUM
      then if op = TOK_ADD then TOK_UPLUS else if op = TOK_SUB then TOK_UMINUS
           else if op = TOK_POST_INC then TOK_PRE_INC else if op = TOK_POST_DEC then TOK_PRE_DEC
           else op
      else op)"

text \<open>A turn of the loop either goes on or ends it with the error and the value of the bottom
  entry of the number stack (\<open>numstack->val\<close>).\<close>

type_synonym step_result = "loop_state + (err option \<times> s64 \<times> arith_state_t)"

definition push_num :: "nat \<Rightarrow> var_or_num_t \<Rightarrow> string \<Rightarrow> loop_state \<Rightarrow> step_result option" where
  \<comment> \<open>The label \<open>num\<close>; the stack has room for \<open>cap\<close> numbers.\<close>
  "push_num cap n rest ls =
     (if length (lp_nums ls) < cap
      then Some (Inl (ls\<lparr>lp_expr := rest, lp_nums := n # lp_nums ls, lp_lasttok := TOK_NUM\<rparr>))
      else None)"

definition push_op :: "nat \<Rightarrow> op \<Rightarrow> loop_state \<Rightarrow> step_result option" where
  \<comment> \<open>The operator stack has room for \<open>cap\<close> tokens.\<close>
  "push_op cap op ls =
     (if length (lp_stack ls) < cap
      then Some (Inl (ls\<lparr>lp_stack := op # lp_stack ls, lp_lasttok := op\<rparr>))
      else None)"

definition after_reduce :: "nat \<Rightarrow> op \<Rightarrow> loop_state \<Rightarrow> reduced \<Rightarrow> step_result option" where
  "after_reduce ocap op ls r =
     (case r of
        Applied nums stack st \<Rightarrow>
          push_op ocap op (ls\<lparr>lp_nums := nums, lp_stack := stack, lp_state := st\<rparr>)
      | Paren nums stack st \<Rightarrow>
          Some (Inl (ls\<lparr>lp_nums := nums, lp_stack := stack, lp_state := st, lp_lasttok := TOK_NUM\<rparr>))
      | Failed e st \<Rightarrow> Some (Inr (Some e, -1, st)))"

definition operator_step :: "evaluator \<Rightarrow> nat \<Rightarrow> op \<Rightarrow> string \<Rightarrow> loop_state \<Rightarrow> step_result option" where
  \<comment> \<open>From the label \<open>tok_found\<close> on.\<close>
  "operator_step ev ocap op rest ls =
     (let ls = ls\<lparr>lp_expr := rest\<rparr>;
          lasttok = (if lp_lasttok ls = TOK_POST_INC \<or> lp_lasttok ls = TOK_POST_DEC
                     then TOK_NUM else lp_lasttok ls);
          op = unary_version lasttok op;
          prec = PREC op
      in if 0 < prec \<and> prec < UNARYPREC \<or> prec = SPEC_PREC
         then if lasttok \<noteq> TOK_NUM then Some (Inr (Some Syntax_error, -1, lp_state ls))
              else do {
                r \<leftarrow> reduce_stack ev op (lp_stack ls) (lp_nums ls) (lp_state ls);
                after_reduce ocap op ls r }
         else push_op ocap op ls)"

definition end_step :: "evaluator \<Rightarrow> bool \<Rightarrow> loop_state \<Rightarrow> step_result option" where
  \<comment> \<open>At the end of the text: append a right paren, or finish; \<open>fresh\<close> says whether the whole
      text is empty (\<open>expr == start_expr\<close>).\<close>
  "end_step ev fresh ls =
     (if fresh then Some (Inr (None, 0, lp_state ls))
      else if \<not> lp_closed ls then Some (Inl (ls\<lparr>lp_expr := '')'', lp_closed := True\<rparr>))
      else case lp_nums ls of
          [n] \<Rightarrow> do {
            (e, n, st) \<leftarrow> arith_lookup_val ev (lp_state ls) n;
            Some (Inr (e, num_val n, st)) }
        | _ \<Rightarrow> Some (Inr (Some Syntax_error, -1, lp_state ls)))"

text \<open>One turn; \<open>ncap\<close> and \<open>ocap\<close> are the sizes of the two stacks.\<close>

definition eval_step :: "evaluator \<Rightarrow> nat \<Rightarrow> nat \<Rightarrow> bool \<Rightarrow> loop_state \<Rightarrow> step_result option" where
  "eval_step ev ncap ocap fresh ls0 =
     (let ls = ls0\<lparr>lp_expr := skip_spaces (lp_expr ls0)\<rparr>; expr = lp_expr ls in
      case expr of
        [] \<Rightarrow> end_step ev fresh ls
      | c # _ \<Rightarrow>
          if endofname expr \<noteq> expr
          then push_num ncap (named (take (length expr - length (endofname expr)) expr))
                 (endofname expr) ls
          else if is_digit c
          then (let (v, rest) = strto_arith_t expr in push_num ncap (number v) rest ls)
          else (case find_token op_tokens expr of
                  None \<Rightarrow> Some (Inr (Some Syntax_error, -1, lp_state ls))
                | Some (op, rest) \<Rightarrow> operator_step ev ocap op rest ls))"

lemma dropWhile_length: "length (dropWhile P xs) \<le> length xs"
  by (induction xs) auto

lemma endofname_less: "endofname s \<noteq> s \<Longrightarrow> length (endofname s) < length s"
  using dropWhile_length[of is_in_name] by (auto simp: endofname_def less_Suc_eq_le split: list.splits if_splits)

lemma scan_base_le: "scan_base b n s = (m, r) \<Longrightarrow> length r \<le> length s"
  by (induction b n s rule: scan_base.induct) (auto split: if_splits simp: le_SucI)

lemma hex_digit_digit: "is_digit c \<Longrightarrow> hex_digit c = digit_val c" "is_digit c \<Longrightarrow> hex_digit c < 10"
  by (auto simp: hex_digit_def digit_val_def is_digit_def less_eq_char_def)

lemma scan_base_less:
  "hex_digit c < b \<Longrightarrow> scan_base b n (c # s) = (m, r) \<Longrightarrow> length r < length (c # s)"
  using scan_base_le[of b "b * n + hex_digit c" s m r] by simp

lemma strto_less:
  assumes "is_digit c" "strto_arith_t (c # s) = (v, r)"
  shows "length r < length (c # s)"
proof -
  have dec: "scan_base 10 0 (c # s) = (m, r') \<Longrightarrow> length r' < length (c # s)" for m r'
    using scan_base_less hex_digit_digit(2)[OF assms(1)] by blast
  have oct: "c = CHR ''0'' \<Longrightarrow> scan_base 8 0 (c # s) = (m, r') \<Longrightarrow> length r' < length (c # s)" for m r'
    using scan_base_less[of c 8 0 s] by (simp add: hex_digit_def is_digit_def digit_val_def)
  have hex: "scan_base 16 0 (drop 2 (c # s)) = (m, r') \<Longrightarrow> s \<noteq> [] \<Longrightarrow> length r' < length (c # s)" for m r'
    using scan_base_le[of 16 0 "drop 2 (c # s)" m r'] by (cases s) auto
  show ?thesis
    using assms(2) dec oct hex
    by (auto simp: strto_arith_t_def Let_def split: prod.splits list.splits if_splits)
qed

lemma find_token_less:
  "find_token ts e = Some (op, r) \<Longrightarrow> \<forall>(t, op) \<in> set ts. t \<noteq> [] \<Longrightarrow> length r < length e"
  by (induction ts e rule: find_token.induct) (auto split: if_splits simp: prefix_def)

lemma op_tokens_nonempty: "\<forall>(t, op) \<in> set op_tokens. t \<noteq> []"
  by (simp add: op_tokens_def)

lemma push_step:
  "push_num cap n rest ls = Some (Inl ls') \<Longrightarrow> lp_expr ls' = rest \<and> lp_closed ls' = lp_closed ls"
  "push_op cap op ls = Some (Inl ls') \<Longrightarrow> lp_expr ls' = lp_expr ls \<and> lp_closed ls' = lp_closed ls"
  by (auto simp: push_num_def push_op_def split: if_splits)

lemma after_reduce_expr:
  "after_reduce len op ls r = Some (Inl ls') \<Longrightarrow> lp_expr ls' = lp_expr ls \<and> lp_closed ls' = lp_closed ls"
  by (cases r) (auto simp: after_reduce_def dest!: push_step)

lemma operator_step_expr:
  "operator_step ev len op rest ls = Some (Inl ls') \<Longrightarrow> lp_expr ls' = rest \<and> lp_closed ls' = lp_closed ls"
  by (auto simp: operator_step_def Let_def bind_Some_iff split: if_splits dest!: push_step after_reduce_expr)

lemma eval_step_decreases:
  assumes "eval_step ev ncap ocap fresh ls = Some (Inl ls')"
  shows "(\<not> lp_closed ls \<and> lp_closed ls') \<or> (lp_closed ls' = lp_closed ls \<and> length (lp_expr ls') < length (lp_expr ls))"
proof -
  let ?e = "skip_spaces (lp_expr ls)"
  have le: "length ?e \<le> length (lp_expr ls)" by (rule length_skip_spaces)
  show ?thesis
  proof (cases ?e)
    case Nil
    then show ?thesis using assms
      by (auto simp: eval_step_def end_step_def Let_def bind_Some_iff split: if_splits list.splits)
  next
    case (Cons c s)
    note step = assms[unfolded eval_step_def Let_def, simplified, unfolded Cons list.case]
    consider "endofname (c # s) \<noteq> c # s" | "endofname (c # s) = c # s" "is_digit c"
      | op r where "endofname (c # s) = c # s" "\<not> is_digit c" "find_token op_tokens (c # s) = Some (op, r)"
      | "endofname (c # s) = c # s" "\<not> is_digit c" "find_token op_tokens (c # s) = None"
      by (cases "find_token op_tokens (c # s)") auto
    then show ?thesis
    proof cases
      case 1
      then show ?thesis using step le endofname_less[OF 1] by (auto simp: Cons dest!: push_step)
    next
      case 2
      obtain v r where v: "strto_arith_t (c # s) = (v, r)" by fastforce
      show ?thesis using step le 2 v strto_less[OF 2(2) v] by (auto simp: Cons dest!: push_step)
    next
      case 3
      then show ?thesis using step le find_token_less[OF 3(3) op_tokens_nonempty]
        by (auto simp: Cons dest!: operator_step_expr)
    next
      case 4
      then show ?thesis using step by simp
    qed
  qed
qed

function eval_loop :: "evaluator \<Rightarrow> nat \<Rightarrow> nat \<Rightarrow> bool \<Rightarrow> loop_state \<Rightarrow> (err option \<times> s64 \<times> arith_state_t) option" where
  "eval_loop ev ncap ocap fresh ls =
     (case eval_step ev ncap ocap fresh ls of
        None \<Rightarrow> None
      | Some (Inl ls) \<Rightarrow> eval_loop ev ncap ocap fresh ls
      | Some (Inr r) \<Rightarrow> Some r)"
  by pat_completeness auto
termination
  by (relation "measures [\<lambda>(ev, ncap, ocap, fresh, ls). if lp_closed ls then 0 else 1,
      \<lambda>(ev, ncap, ocap, fresh, ls). length (lp_expr ls)]") (use eval_step_decreases in fastforce)+

declare eval_loop.simps [simp del]

definition eval_start :: "string \<Rightarrow> arith_state_t \<Rightarrow> loop_state" where
  "eval_start expr st = \<lparr>lp_expr = expr, lp_closed = False, lp_nums = [], lp_stack = [TOK_LPAREN],
     lp_lasttok = TOK_LPAREN, lp_state = st\<rparr>"

definition eval_body :: "evaluator \<Rightarrow> evaluator" where
  "eval_body ev st expr = do {
     let expr = skip_spaces expr;
     let expr_len = length expr + 2;
     (e, v, st) \<leftarrow> eval_loop ev (expr_len div 2) expr_len (expr = []) (eval_start expr st);
     Some (v, st\<lparr>errmsg := e\<rparr>) }"

primrec evaluate_string :: "nat \<Rightarrow> evaluator" where
  "evaluate_string 0 = (\<lambda>st expr. Some (0, st\<lparr>errmsg := Some Out_of_fuel\<rparr>))"
| "evaluate_string (Suc d) = eval_body (evaluate_string d)"

definition arith :: "nat \<Rightarrow> arith_state_t \<Rightarrow> string \<Rightarrow> (s64 \<times> arith_state_t) option" where
  "arith d st expr = evaluate_string d (st\<lparr>errmsg := None, list_of_recursed_names := []\<rparr>) expr"

end
