(* ===== verification/Shell_Math_Stacks.thy ===== *)
theory Shell_Math_Stacks
  imports Shell_Math
begin

unbundle bit_operations_syntax

text \<open>
  The sizes of the two stacks of \<open>evaluate_string\<close> (\<open>shell/math.c\<close>): the operator stack is large
  enough for every text, the number stack for every text in which no number is directly followed by
  a letter, a digit or an underscore. The comment in the code claims the latter for every text.
\<close>

subsection \<open>Operators never add numbers or operators\<close>

lemma finish_length:
  "fst (snd (finish_unary op rez t0 below st)) = nums \<Longrightarrow> length nums = Suc (length below)"
  "fst (snd (finish_binary op right left rest st r)) = nums \<Longrightarrow> length nums = Suc (length rest)"
  by (auto simp: finish_unary_def finish_binary_def Let_def split: sum.splits)

lemma apply_binary_length:
  "apply_binary ev st op r below = Some (e, nums, st') \<Longrightarrow> length nums \<le> Suc (length below)"
  by (cases below) (auto simp: apply_binary_def Let_def bind_Some_iff
      split: if_split_asm option.split_asm dest!: finish_length(2)[OF arg_cong[where f = "\<lambda>x. fst (snd x)"]])

lemma arith_apply_length:
  "arith_apply ev st op nums = Some (e, nums', st') \<Longrightarrow> length nums' \<le> length nums"
  by (cases nums) (auto simp: arith_apply_def bind_Some_iff split: option.split_asm
      dest!: apply_binary_length finish_length(1)[OF arg_cong[where f = "\<lambda>x. fst (snd x)"]])

definition shrunk :: "var_or_num_t list \<Rightarrow> op list \<Rightarrow> reduced \<Rightarrow> bool" where
  "shrunk nums stack r = (case r of
       Applied nums' stack' _ \<Rightarrow> length nums' \<le> length nums \<and> length stack' \<le> length stack
     | Paren nums' stack' _ \<Rightarrow> length nums' \<le> length nums \<and> length stack' \<le> length stack
     | Failed _ _ \<Rightarrow> True)"

lemma shrunk_trans:
  "length nums' \<le> length nums \<Longrightarrow> shrunk nums' stack r \<Longrightarrow> shrunk nums (op # stack) r"
  by (cases r) (auto simp: shrunk_def)

lemma reduce_stack_shrunk: "reduce_stack ev op stack nums st = Some r \<Longrightarrow> shrunk nums stack r"
proof (induction ev op stack nums st rule: reduce_stack.induct)
  case (1 ev op nums st)
  then show ?case by (auto simp: shrunk_def split: if_splits)
next
  case (2 ev op prev_op stack nums st)
  let ?prec = "fix_assignment_prec (PREC op)" and ?prev = "fix_assignment_prec (PREC prev_op)"
  let ?c1 = "op = TOK_RPAREN \<and> prev_op = TOK_LPAREN"
  let ?c2 = "op \<noteq> TOK_RPAREN \<and> (?prev < ?prec \<or> ?prev = ?prec \<and> is_right_associative ?prec)"
  consider "?c1" | "\<not> ?c1" "?c2" | "\<not> ?c1" "\<not> ?c2" by blast
  then show ?case
  proof cases
    case 1
    then show ?thesis using "2.prems" by (auto simp: shrunk_def)
  next
    case 2
    then show ?thesis using "2.prems" by (auto simp: shrunk_def Let_def simp del: de_Morgan_conj)
  next
    case 3
    then obtain e nums' st' where a: "arith_apply ev st prev_op nums = Some (e, nums', st')"
      "(case e of Some e \<Rightarrow> Some (Failed e st') | None \<Rightarrow> reduce_stack ev op stack nums' st') = Some r"
      using "2.prems" by (auto simp: Let_def bind_Some_iff simp del: de_Morgan_conj)
    show ?thesis
    proof (cases e)
      case None
      then have "shrunk nums' stack r"
        using "2.IH"[OF refl refl 3(1) 3(2) a(1) refl refl None] a(2) by simp
      then show ?thesis by (rule shrunk_trans[OF arith_apply_length[OF a(1)]])
    qed (use a in \<open>auto simp: shrunk_def\<close>)
  qed
qed

subsection \<open>Texts whose numbers are delimited\<close>

function separated :: "string \<Rightarrow> bool" where
  \<comment> \<open>Read as the evaluator reads it, no number of the text runs into a name or a number.\<close>
  "separated s = (case s of [] \<Rightarrow> True
     | c # s' \<Rightarrow>
         if is_name c then separated (endofname s)
         else if is_digit c
         then (let r = snd (strto_arith_t s) in (r = [] \<or> \<not> is_in_name (hd r)) \<and> separated r)
         else separated s')"
  by pat_completeness auto
termination
proof (relation "measure length")
  fix s :: string and c s'
  assume "s = c # s'" "is_name c"
  then show "(endofname s, s) \<in> measure length"
    using dropWhile_length[of is_in_name s'] by (simp add: endofname_def less_Suc_eq_le)
next
  fix s :: string and c s' x
  assume "s = c # s'" "\<not> is_name c" "is_digit c" "x = snd (strto_arith_t s)"
  then show "(x, s) \<in> measure length" using strto_less[of c s' _ x] by (metis in_measure prod.collapse)
qed auto

declare separated.simps [simp del]

lemma digit_in_name: "is_digit c \<Longrightarrow> is_in_name c" "is_name c \<Longrightarrow> is_in_name c"
  by (auto simp: is_in_name_def is_alnum_def is_name_def)

lemma digit_not_name: "is_digit c \<Longrightarrow> \<not> is_name c"
  by (auto simp: is_digit_def is_name_def is_alpha_def is_upper_def is_lower_def less_eq_char_def)

lemma space_not_in_name: "is_space c \<Longrightarrow> \<not> is_in_name c"
  by (auto simp: is_space_def is_in_name_def is_alnum_def is_alpha_def is_upper_def is_lower_def
      is_digit_def less_eq_char_def)

lemma not_in_name: "\<not> is_in_name c \<Longrightarrow> \<not> is_name c \<and> \<not> is_digit c"
  using digit_in_name by blast

lemma separated_skip: "separated s \<Longrightarrow> separated (skip_spaces s)"
proof (induction s)
  case (Cons c s)
  show ?case
  proof (cases "is_space c")
    case True
    then have "separated s"
      using Cons.prems not_in_name[OF space_not_in_name[OF True]] by (simp add: separated.simps[of "c # s"])
    then show ?thesis using Cons.IH True by simp
  qed (use Cons.prems in simp)
qed simp

lemma skip_spaces_length_less: "skip_spaces s \<noteq> s \<Longrightarrow> length (skip_spaces s) < length s"
  using length_skip_spaces[of "tl s"] by (cases s) (auto simp: less_Suc_eq_le split: if_splits)

lemma separated_drop:
  "\<forall>c \<in> set t. \<not> is_in_name c \<Longrightarrow> separated (t @ r) \<Longrightarrow> separated r"
proof (induction t)
  case (Cons c t)
  have "separated (t @ r)"
    using Cons.prems not_in_name[of c] by (simp add: separated.simps[of "c # t @ r"])
  then show ?case using Cons by simp
qed simp

lemma find_token_rest:
  "find_token ts e = Some (op, r) \<Longrightarrow> \<exists>t. (t, op) \<in> set ts \<and> e = t @ r"
  by (induction ts e rule: find_token.induct) (auto split: if_splits simp: prefix_def)

lemma op_tokens_chars: "(t, op) \<in> set op_tokens \<Longrightarrow> \<forall>c \<in> set t. \<not> is_in_name c"
proof -
  have "list_all (\<lambda>(t, op). list_all (\<lambda>c. \<not> is_in_name c) t) op_tokens"
    by (simp add: op_tokens_def is_in_name_def is_alnum_def is_alpha_def is_upper_def is_lower_def
        is_digit_def less_eq_char_def)
  then show "(t, op) \<in> set op_tokens \<Longrightarrow> \<forall>c \<in> set t. \<not> is_in_name c"
    by (fastforce simp: list_all_iff)
qed

subsection \<open>The invariant of the loop\<close>

definition room :: "loop_state \<Rightarrow> nat" where
  \<comment> \<open>1 when the next number cannot follow at once.\<close>
  "room ls = (if lp_expr ls = [] \<or> \<not> is_in_name (hd (lp_expr ls)) then 1 else 0)"

definition ops_fit :: "nat \<Rightarrow> loop_state \<Rightarrow> bool" where
  "ops_fit L ls \<longleftrightarrow>
     length (lp_stack ls) + length (lp_expr ls) + (if lp_closed ls then 0 else 1) \<le> L + 2"

definition nums_fit :: "nat \<Rightarrow> loop_state \<Rightarrow> bool" where
  "nums_fit L ls \<longleftrightarrow>
     (if lp_closed ls then set (lp_expr ls) \<subseteq> {CHR '')''}
      else separated (lp_expr ls) \<and> 2 * length (lp_nums ls) + length (lp_expr ls) \<le> L + room ls)"

definition skipped :: "loop_state \<Rightarrow> loop_state" where
  "skipped ls = ls\<lparr>lp_expr := skip_spaces (lp_expr ls)\<rparr>"

lemma skipped_simps [simp]:
  "lp_expr (skipped ls) = skip_spaces (lp_expr ls)" "lp_closed (skipped ls) = lp_closed ls"
  "lp_nums (skipped ls) = lp_nums ls" "lp_stack (skipped ls) = lp_stack ls"
  "lp_state (skipped ls) = lp_state ls" "lp_lasttok (skipped ls) = lp_lasttok ls"
  by (simp_all add: skipped_def)

text \<open>The four kinds of turn.\<close>

lemma eval_step_cases:
  obtains (finish) "skip_spaces (lp_expr ls) = []"
      "\<And>ncap ocap. eval_step ev ncap ocap fresh ls = end_step ev fresh (skipped ls)"
  | (name) c s x r where "skip_spaces (lp_expr ls) = c # s" "is_name c" "r = endofname (c # s)"
      "length r < length (c # s)"
      "\<And>ncap ocap. eval_step ev ncap ocap fresh ls = push_num ncap (named x) r (skipped ls)"
  | (num) c s v r where "skip_spaces (lp_expr ls) = c # s" "is_digit c" "strto_arith_t (c # s) = (v, r)"
      "length r < length (c # s)"
      "\<And>ncap ocap. eval_step ev ncap ocap fresh ls = push_num ncap (number v) r (skipped ls)"
  | (oper) c s op t r where "skip_spaces (lp_expr ls) = c # s" "\<not> is_name c" "\<not> is_digit c"
      "find_token op_tokens (c # s) = Some (op, r)" "(t, op) \<in> set op_tokens" "c # s = t @ r" "length r < length (c # s)"
      "\<And>ncap ocap. eval_step ev ncap ocap fresh ls = operator_step ev ocap op r (skipped ls)"
  | (bad) c s where "skip_spaces (lp_expr ls) = c # s"
      "\<And>ncap ocap. eval_step ev ncap ocap fresh ls = Some (Inr (Some Syntax_error, -1, lp_state ls))"
proof (cases "skip_spaces (lp_expr ls)")
  case Nil
  then show ?thesis using finish by (simp add: eval_step_def skipped_def Let_def)
next
  case (Cons c s)
  have step: "eval_step ev ncap ocap fresh ls =
      (if endofname (c # s) \<noteq> c # s
       then push_num ncap (named (take (length (c # s) - length (endofname (c # s))) (c # s)))
              (endofname (c # s)) (skipped ls)
       else if is_digit c
       then (let (v, rest) = strto_arith_t (c # s) in push_num ncap (number v) rest (skipped ls))
       else (case find_token op_tokens (c # s) of
               None \<Rightarrow> Some (Inr (Some Syntax_error, -1, lp_state ls))
             | Some (op, rest) \<Rightarrow> operator_step ev ocap op rest (skipped ls)))" for ncap ocap
    using Cons by (simp add: eval_step_def skipped_def Let_def split: option.split)
  show ?thesis
  proof (cases "is_name c")
    case True
    then have less: "length (endofname (c # s)) < length (c # s)"
      using dropWhile_length[of is_in_name s] by (simp add: endofname_def less_Suc_eq_le)
    then have "endofname (c # s) \<noteq> c # s" by force
    then show ?thesis using name[OF Cons True refl less] step by simp
  next
    case nn: False
    then have eq: "endofname (c # s) = c # s" by (simp add: endofname_def)
    show ?thesis
    proof (cases "is_digit c")
      case True
      obtain v r where v: "strto_arith_t (c # s) = (v, r)" by fastforce
      show ?thesis using num[OF Cons True v strto_less[OF True v]] step eq True v by simp
    next
      case False
      show ?thesis
      proof (cases "find_token op_tokens (c # s)")
        case None
        then show ?thesis using bad[OF Cons] step eq False by simp
      next
        case (Some p)
        obtain op r where p: "p = (op, r)" by (cases p)
        obtain t where t: "(t, op) \<in> set op_tokens" "c # s = t @ r"
          using find_token_rest Some p by metis
        have less: "length r < length (c # s)"
          using find_token_less[of op_tokens "c # s" op r] Some p op_tokens_nonempty by simp
        show ?thesis
          using oper[OF Cons nn False Some[unfolded p] t less] step eq False Some p by simp
      qed
    qed
  qed
qed

lemma push_op_cases:
  "push_op ocap op ls = Some (Inl ls') \<Longrightarrow> lp_nums ls' = lp_nums ls \<and> lp_expr ls' = lp_expr ls
     \<and> lp_closed ls' = lp_closed ls \<and> length (lp_stack ls') = Suc (length (lp_stack ls))"
  by (auto simp: push_op_def split: if_splits)

lemma after_reduce_sizes:
  assumes "after_reduce ocap op ls r = Some (Inl ls')" "shrunk nums stack r"
  shows "length (lp_nums ls') \<le> length nums \<and> length (lp_stack ls') \<le> Suc (length stack)"
  using assms by (cases r) (auto simp: after_reduce_def shrunk_def dest!: push_op_cases)

lemma operator_step_sizes:
  assumes "operator_step ev ocap op r ls = Some (Inl ls')"
  shows "length (lp_nums ls') \<le> length (lp_nums ls)" "length (lp_stack ls') \<le> Suc (length (lp_stack ls))"
proof -
  have "length (lp_nums ls') \<le> length (lp_nums ls) \<and> length (lp_stack ls') \<le> Suc (length (lp_stack ls))"
    using assms
    by (auto simp: operator_step_def Let_def bind_Some_iff split: if_split_asm
        dest!: push_op_cases dest: after_reduce_sizes[OF _ reduce_stack_shrunk])
  then show "length (lp_nums ls') \<le> length (lp_nums ls)" "length (lp_stack ls') \<le> Suc (length (lp_stack ls))"
    by simp_all
qed

lemma push_op_cap:
  "length (lp_stack ls) < a \<Longrightarrow> length (lp_stack ls) < b \<Longrightarrow> push_op a op ls = push_op b op ls"
  by (simp add: push_op_def)

lemma operator_step_cap:
  assumes "length (lp_stack ls) < a" "length (lp_stack ls) < b"
  shows "operator_step ev a op r ls = operator_step ev b op r ls"
proof -
  have red: "after_reduce a op' (ls\<lparr>lp_expr := r\<rparr>) x = after_reduce b op' (ls\<lparr>lp_expr := r\<rparr>) x"
    if "shrunk (lp_nums ls) (lp_stack ls) x" for op' x
    using that assms by (cases x) (auto simp: after_reduce_def shrunk_def push_op_def)
  have "Option.bind m (after_reduce a op' (ls\<lparr>lp_expr := r\<rparr>)) = Option.bind m (after_reduce b op' (ls\<lparr>lp_expr := r\<rparr>))"
    if "\<And>x. m = Some x \<Longrightarrow> shrunk (lp_nums ls) (lp_stack ls) x" for m op'
    using that red by (cases m) auto
  then show ?thesis
    using assms reduce_stack_shrunk[of ev _ "lp_stack ls" "lp_nums ls" "lp_state ls"]
    by (simp add: operator_step_def Let_def push_op_def)
qed

lemma sizes_step:
  assumes "ops_fit L ls" "L + 2 \<le> ocap"
  shows "eval_step ev ncap ocap fresh ls = eval_step ev ncap (L + 2) fresh ls"
    and "eval_step ev ncap ocap fresh ls = Some (Inl ls') \<Longrightarrow> ops_fit L ls'"
proof -
  have le: "length (skip_spaces (lp_expr ls)) \<le> length (lp_expr ls)" by (rule length_skip_spaces)
  have "eval_step ev ncap ocap fresh ls = eval_step ev ncap (L + 2) fresh ls
    \<and> (eval_step ev ncap ocap fresh ls = Some (Inl ls') \<longrightarrow> ops_fit L ls')"
  proof (cases rule: eval_step_cases[of ls ev fresh])
    case finish
    then show ?thesis using assms
      by (auto simp: end_step_def ops_fit_def bind_Some_iff split: if_split_asm list.split_asm)
  next
    case (name c s x r)
    then show ?thesis using assms le
      by (auto simp: push_num_def ops_fit_def split: if_split_asm)
  next
    case (num c s v r)
    then show ?thesis using assms le
      by (auto simp: push_num_def ops_fit_def split: if_split_asm)
  next
    case (oper c s op t r)
    have "length (lp_stack ls) < L + 2" using assms(1) oper(1,7) le by (auto simp: ops_fit_def)
    then have "operator_step ev ocap op r (skipped ls) = operator_step ev (L + 2) op r (skipped ls)"
      using assms(2) by (intro operator_step_cap) simp_all
    moreover have "ops_fit L ls'" if "operator_step ev ocap op r (skipped ls) = Some (Inl ls')"
      using operator_step_sizes(2)[OF that] operator_step_expr[OF that] assms(1) oper(1,7) le
      by (auto simp: ops_fit_def split: if_splits)
    ultimately show ?thesis unfolding oper(8) by blast
  next
    case (bad c s)
    then show ?thesis by simp
  qed
  then show "eval_step ev ncap ocap fresh ls = eval_step ev ncap (L + 2) fresh ls"
    "eval_step ev ncap ocap fresh ls = Some (Inl ls') \<Longrightarrow> ops_fit L ls'" by simp_all
qed

lemma nums_step:
  assumes "nums_fit L ls" "(L + 2) div 2 \<le> ncap"
  shows "eval_step ev ncap ocap fresh ls = eval_step ev ((L + 2) div 2) ocap fresh ls"
    and "eval_step ev ncap ocap fresh ls = Some (Inl ls') \<Longrightarrow> nums_fit L ls'"
proof -
  let ?e = "skip_spaces (lp_expr ls)"
  have open_text: "separated ?e \<and> 2 * length (lp_nums ls) + length ?e \<le> L + (if ?e = [] \<or> \<not> is_in_name (hd ?e) then 1 else 0)"
    if "\<not> lp_closed ls"
  proof (cases "?e = lp_expr ls")
    case True
    then show ?thesis using assms(1) that separated_skip by (simp add: nums_fit_def room_def split: if_splits)
  next
    case False
    then show ?thesis using assms(1) that separated_skip skip_spaces_length_less[OF False]
      by (auto simp: nums_fit_def room_def split: if_splits)
  qed
  have closed_text: "set ?e \<subseteq> {CHR '')''}" if "lp_closed ls"
  proof -
    have "set (skip_spaces s) \<subseteq> set s" for s by (induction s) auto
    then show ?thesis using assms(1) that by (fastforce simp: nums_fit_def)
  qed
  have "eval_step ev ncap ocap fresh ls = eval_step ev ((L + 2) div 2) ocap fresh ls
    \<and> (eval_step ev ncap ocap fresh ls = Some (Inl ls') \<longrightarrow> nums_fit L ls')"
  proof (cases rule: eval_step_cases[of ls ev fresh])
    case finish
    then show ?thesis using open_text closed_text
      by (auto simp: end_step_def nums_fit_def bind_Some_iff split: if_split_asm list.split_asm)
  next
    case (name c s x r)
    have op: "\<not> lp_closed ls" using closed_text name(1,2)
      by (auto simp: is_name_def is_alpha_def is_upper_def is_lower_def less_eq_char_def)
    have r: "separated r" "r = [] \<or> \<not> is_in_name (hd r)"
      using open_text[OF op] name(1-3) hd_dropWhile[of is_in_name s]
      by (auto simp: separated.simps[of "c # s"] endofname_def)
    have "2 * length (lp_nums ls) + length (c # s) \<le> L"
      using open_text[OF op] name(1,2) digit_in_name(2) by simp
    then have "2 * Suc (length (lp_nums ls)) + length r \<le> L + 1" using name(4) by simp
    then show ?thesis using assms(2) op r name(5)
      by (auto simp: push_num_def nums_fit_def room_def)
  next
    case (num c s v r)
    have op: "\<not> lp_closed ls" using closed_text num(1,2)
      by (auto simp: is_digit_def less_eq_char_def)
    have r: "separated r" "r = [] \<or> \<not> is_in_name (hd r)"
      using open_text[OF op] num(1-3) digit_not_name
      by (simp_all add: separated.simps[of "c # s"] Let_def)
    have "2 * length (lp_nums ls) + length (c # s) \<le> L"
      using open_text[OF op] num(1,2) digit_in_name(1) by simp
    then have "2 * Suc (length (lp_nums ls)) + length r \<le> L + 1" using num(4) by simp
    then show ?thesis using assms(2) op r num(5)
      by (auto simp: push_num_def nums_fit_def room_def)
  next
    case (oper c s op t r)
    have "nums_fit L ls'" if "operator_step ev ocap op r (skipped ls) = Some (Inl ls')"
    proof (cases "lp_closed ls")
      case True
      then show ?thesis using closed_text[OF True] operator_step_expr[OF that] oper(1,6)
        by (auto simp: nums_fit_def)
    next
      case False
      have "separated r" using open_text[OF False] oper(1,6) separated_drop[OF op_tokens_chars[OF oper(5)]] by simp
      then show ?thesis
        using open_text[OF False] operator_step_expr[OF that] operator_step_sizes(1)[OF that] oper(1,7) False
        by (auto simp: nums_fit_def split: if_splits)
    qed
    then show ?thesis using oper(8) by simp
  next
    case (bad c s)
    then show ?thesis by simp
  qed
  then show "eval_step ev ncap ocap fresh ls = eval_step ev ((L + 2) div 2) ocap fresh ls"
    "eval_step ev ncap ocap fresh ls = Some (Inl ls') \<Longrightarrow> nums_fit L ls'" by simp_all
qed

lemma ops_fit_loop:
  "ops_fit L ls \<Longrightarrow> L + 2 \<le> ocap \<Longrightarrow> eval_loop ev ncap ocap fresh ls = eval_loop ev ncap (L + 2) fresh ls"
proof (induction ev ncap ocap fresh ls rule: eval_loop.induct)
  case (1 ev ncap ocap fresh ls)
  note step = sizes_step[OF 1(2,3), of ev ncap fresh]
  show ?case
  proof (cases "eval_step ev ncap ocap fresh ls")
    case (Some r)
    then show ?thesis
      using 1(1)[of r] step 1(3)
      by (cases r) (simp_all add: eval_loop.simps[of ev ncap _ fresh ls])
  next
    case None
    then show ?thesis using step(1) by (simp add: eval_loop.simps[of ev ncap _ fresh ls])
  qed
qed

lemma nums_fit_loop:
  "nums_fit L ls \<Longrightarrow> (L + 2) div 2 \<le> ncap \<Longrightarrow>
   eval_loop ev ncap ocap fresh ls = eval_loop ev ((L + 2) div 2) ocap fresh ls"
proof (induction ev ncap ocap fresh ls rule: eval_loop.induct)
  case (1 ev ncap ocap fresh ls)
  note step = nums_step[OF 1(2,3), of ev ocap fresh]
  show ?case
  proof (cases "eval_step ev ncap ocap fresh ls")
    case (Some r)
    then show ?thesis
      using 1(1)[of r] step 1(3)
      by (cases r) (simp_all add: eval_loop.simps[of ev _ ocap fresh ls])
  next
    case None
    then show ?thesis using step(1) by (simp add: eval_loop.simps[of ev _ ocap fresh ls])
  qed
qed

lemma start_fits:
  "ops_fit (length e) (eval_start e st)" "separated e \<Longrightarrow> nums_fit (length e) (eval_start e st)"
  by (simp_all add: ops_fit_def nums_fit_def eval_start_def)

subsection \<open>Properties\<close>

text \<open>C20. The operator stack of \<open>evaluate_string\<close>, of \<open>strlen + 2\<close> entries, never overflows, and when
  every number of the text is delimited the number stack, of \<open>(strlen + 2) / 2\<close> entries, does not
  either: evaluation with these stacks goes exactly as with stacks of any greater size.\<close>
theorem stacks_suffice:
  assumes "separated expr" "(length (skip_spaces expr) + 2) div 2 \<le> ncap"
    and "length (skip_spaces expr) + 2 \<le> ocap"
  shows "eval_body ev st expr = do {
     (e, v, st') \<leftarrow> eval_loop ev ncap ocap (skip_spaces expr = []) (eval_start (skip_spaces expr) st);
     Some (v, st'\<lparr>errmsg := e\<rparr>) }"
proof -
  let ?e = "skip_spaces expr"
  have "eval_loop ev ncap ocap (?e = []) (eval_start ?e st)
      = eval_loop ev ((length ?e + 2) div 2) (length ?e + 2) (?e = []) (eval_start ?e st)"
    using nums_fit_loop[OF start_fits(2)[OF separated_skip[OF assms(1)]] assms(2)]
      ops_fit_loop[OF start_fits(1) assms(3)] by metis
  then show ?thesis by (simp add: eval_body_def Let_def)
qed

lemmas char_eval = is_name_def is_alpha_def is_upper_def is_lower_def is_digit_def endofname_def
  is_in_name_def is_alnum_def hex_digit_def digit_val_def less_eq_char_def is_space_def

lemma tok_values:
  "TOK_RPAREN = 52" "TOK_LPAREN = 0" "TOK_NUM = 20" "TOK_POST_INC = 19" "TOK_POST_DEC = 51"
  "TOK_ADD = 13" "TOK_SUB = 45" "UNARYPREC = 16" "SPEC_PREC = 20"
  by (simp_all add: tok_defs)

theorem stacks_suffice_witness:
  "\<forall>st. eval_body (\<lambda>_ _. None) st ''1 + x2'' = do {
     (e, v, st') \<leftarrow> eval_loop (\<lambda>_ _. None) 100 100 False (eval_start ''1 + x2'' st);
     Some (v, st'\<lparr>errmsg := e\<rparr>) }"
  using stacks_suffice[of "''1 + x2''" 100 100 "\<lambda>_ _. None"]
  by (simp add: separated.simps strto_arith_t_def char_eval)

text \<open>The comment above the allocation is wrong for texts whose numbers run into each other: the
  three characters \<open>09_\<close> are three numbers, one more than the stack holds, and writing the third is
  undefined behaviour; with room for it the text would only be a syntax error.\<close>
theorem number_stack_overflow:
  "arith (Suc d) st ''09_'' = None
   \<and> eval_loop ev 3 5 False (eval_start ''09_'' st) = Some (Some Syntax_error, -1, st)"
proof
  have none: "eval_loop (evaluate_string d) 2 5 False (eval_start ''09_'' st) = None" for st
    by (simp add: eval_loop.simps eval_step_def eval_start_def char_eval strto_arith_t_def
        push_num_def Let_def)
  have sizes: "skip_spaces ''09_'' = ''09_''" "length ''09_'' + 2 = 5" "5 div 2 = (2 :: nat)"
    "(''09_'' = []) = False" by (simp_all add: is_space_def)
  show "arith (Suc d) st ''09_'' = None"
    by (simp only: arith_def evaluate_string.simps eval_body_def Let_def sizes none bind.simps)
  show "eval_loop ev 3 5 False (eval_start ''09_'' st) = Some (Some Syntax_error, -1, st)"
    by (simp add: eval_loop.simps eval_step_def eval_start_def char_eval strto_arith_t_def
        push_num_def Let_def end_step_def op_tokens_def operator_step_def unary_version_def tok_values
        PREC_def after_reduce_def)
qed

end
