(* ===== verification/Shell_Math_Fuel.thy ===== *)
theory Shell_Math_Fuel
  imports Shell_Math_Stacks
begin

unbundle bit_operations_syntax

text \<open>
  Variables whose values are expressions (\<open>shell/math.c\<close>): the list of names being evaluated bounds
  the recursion, whatever the variables contain. Every layer of the evaluator is shown to keep any
  property of the state that assignments and the evaluation of variables keep (\<open>keeps\<close>); the
  bound on the recursion is one such property.
\<close>

subsection \<open>Properties of the state kept by every layer\<close>

definition keeps :: "string set \<Rightarrow> (arith_state_t \<Rightarrow> bool) \<Rightarrow> evaluator \<Rightarrow> bool" where
  \<comment> \<open>Of the names in \<open>X\<close>, looked up with \<open>ev\<close>.\<close>
  "keeps X I ev \<longleftrightarrow>
     (\<forall>st x v. I st \<longrightarrow> I (st\<lparr>vars := (vars st)(x \<mapsto> show_arith v)\<rparr>))
     \<and> (\<forall>st x p v st'. I st \<and> x \<in> X \<and> vars st x = Some p \<and> x \<notin> set (list_of_recursed_names st)
         \<and> ev (st\<lparr>list_of_recursed_names := x # list_of_recursed_names st\<rparr>) p = Some (v, st')
         \<longrightarrow> I (st'\<lparr>list_of_recursed_names := list_of_recursed_names st\<rparr>) \<and> errmsg st' \<noteq> Some Out_of_fuel)"

definition named_ok :: "string set \<Rightarrow> var_or_num_t list \<Rightarrow> bool" where
  "named_ok X nums \<longleftrightarrow> (\<forall>n \<in> set nums. \<forall>x. var n = Some x \<longrightarrow> x \<in> X)"

definition text_ok :: "string set \<Rightarrow> string \<Rightarrow> bool" where
  "text_ok X s \<longleftrightarrow> X = UNIV \<or> (\<forall>c \<in> set s. \<not> is_name c)"

lemma named_ok_simps [simp]:
  "named_ok X []" "named_ok X (n # nums) \<longleftrightarrow> (\<forall>x. var n = Some x \<longrightarrow> x \<in> X) \<and> named_ok X nums"
  by (auto simp: named_ok_def)

lemma lookup_keeps:
  assumes "keeps X I ev" "I st" "\<forall>x. var t = Some x \<longrightarrow> x \<in> X"
    and "arith_lookup_val ev st t = Some (e, t', st')"
  shows "I st' \<and> e \<noteq> Some Out_of_fuel \<and> var t' = var t"
  using assms(2-4) assms(1)[unfolded keeps_def]
  by (auto simp: arith_lookup_val_def Let_def bind_Some_iff split: option.split_asm if_split_asm)

lemma finish_apply_keeps:
  assumes "keeps X I ev" "I st"
  shows "finish_apply op rez t st = Inl e \<Longrightarrow> e \<noteq> Out_of_fuel"
    and "finish_apply op rez t st = Inr (t', st') \<Longrightarrow> I st' \<and> var t' = None"
  using assms(2) assms(1)[unfolded keeps_def]
  by (auto simp: finish_apply_def Let_def split: option.split_asm if_split_asm)

lemma binary_value_err: "binary_value op a b c = Some (Inl e) \<Longrightarrow> e \<noteq> Out_of_fuel"
  by (auto simp: binary_value_def split: if_split_asm)

definition result_ok :: "string set \<Rightarrow> (arith_state_t \<Rightarrow> bool) \<Rightarrow> err option \<times> var_or_num_t list \<times> arith_state_t \<Rightarrow> bool" where
  "result_ok X I = (\<lambda>(e, nums, st). e \<noteq> Some Out_of_fuel \<and> named_ok X nums \<and> I st)"

lemma finish_unary_keeps:
  assumes "keeps X I ev" "I st" "named_ok X (t # below)"
  shows "result_ok X I (finish_unary op rez t below st)"
  using assms finish_apply_keeps[OF assms(1,2), of op rez t]
  by (auto simp: finish_unary_def result_ok_def split: sum.split prod.split)

lemma finish_binary_keeps:
  assumes "keeps X I ev" "I st" "named_ok X (left # rest)" "\<forall>e. r = Inl e \<longrightarrow> e \<noteq> Out_of_fuel"
  shows "result_ok X I (finish_binary op right left rest st r)"
  using assms finish_unary_keeps[OF assms(1,2)]
  by (auto simp: finish_binary_def result_ok_def Let_def split: sum.split)

lemma apply_binary_keeps:
  assumes "keeps X I ev" "I st" "named_ok X (right # below)"
    and "apply_binary ev st op right below = Some r"
  shows "result_ok X I r"
proof (cases below)
  case Nil
  then show ?thesis using assms by (auto simp: apply_binary_def result_ok_def)
next
  case (Cons left rest)
  show ?thesis
  proof (cases "bad_second_val op right")
    case True
    then show ?thesis using assms Cons by (auto simp: apply_binary_def result_ok_def)
  next
    case False
    then obtain e left' st' where l: "(if op \<noteq> TOK_ASSIGN then arith_lookup_val ev st left
          else Some (None, left, st)) = Some (e, left', st')"
      and r: "(case e of Some _ \<Rightarrow> Some (e, left' # rest, st')
        | None \<Rightarrow> if op = TOK_CONDITIONAL_SEP \<and> rest = [] then Some (Some Malformed_conditional, [left'], st')
            else do { x \<leftarrow> binary_value op (num_val left') (num_val right) (second_val right);
                      Some (finish_binary op right left' rest st' x) }) = Some r"
      using assms(4) unfolding apply_binary_def Cons list.case by (simp only: if_False bind_Some_iff) auto
    have ok: "I st' \<and> e \<noteq> Some Out_of_fuel \<and> var left' = var left"
    proof (cases "op = TOK_ASSIGN")
      case True
      then show ?thesis using l assms(2) by auto
    next
      case False
      then show ?thesis using lookup_keeps[OF assms(1,2), of left e left' st'] l assms(3) Cons by auto
    qed
    then have n: "named_ok X (left' # rest)" using assms(3) Cons by auto
    show ?thesis
    proof (cases e)
      case (Some x)
      then show ?thesis using r ok n by (auto simp: result_ok_def)
    next
      case None
      show ?thesis
      proof (cases "op = TOK_CONDITIONAL_SEP \<and> rest = []")
        case True
        then show ?thesis using r None ok n by (auto simp: result_ok_def)
      next
        case False
        then obtain x where x: "binary_value op (num_val left') (num_val right) (second_val right) = Some x"
          "r = finish_binary op right left' rest st' x"
          using r None by (simp only: option.case if_False bind_Some_iff) auto
        have "\<forall>e. x = Inl e \<longrightarrow> e \<noteq> Out_of_fuel" using binary_value_err x(1) by blast
        from finish_binary_keeps[OF assms(1) _ n this] ok show ?thesis unfolding x(2) by blast
      qed
    qed
  qed
qed

lemma arith_apply_keeps:
  assumes "keeps X I ev" "I st" "named_ok X nums" "arith_apply ev st op nums = Some r"
  shows "result_ok X I r"
proof (cases nums)
  case Nil
  then show ?thesis using assms by (auto simp: arith_apply_def result_ok_def)
next
  case (Cons t below)
  then obtain e t' st' where l: "arith_lookup_val ev st t = Some (e, t', st')"
    and r: "(case e of Some _ \<Rightarrow> Some (e, t' # below, st')
      | None \<Rightarrow> (case unary_value op (num_val t') of Some rez \<Rightarrow> Some (finish_unary op rez t' below st')
          | None \<Rightarrow> apply_binary ev st' op t' below)) = Some r"
    using assms(4) unfolding arith_apply_def Cons list.case by (simp only: bind_Some_iff) auto
  have ok: "I st' \<and> e \<noteq> Some Out_of_fuel \<and> named_ok X (t' # below)"
    using lookup_keeps[OF assms(1,2) _ l] assms(3) Cons by auto
  show ?thesis
  proof (cases e)
    case (Some x)
    then show ?thesis using r ok by (auto simp: result_ok_def)
  next
    case None
    show ?thesis
    proof (cases "unary_value op (num_val t')")
      case None
      with r \<open>e = None\<close> have "apply_binary ev st' op t' below = Some r" by simp
      then show ?thesis using apply_binary_keeps[OF assms(1)] ok by blast
    next
      case (Some rez)
      with r \<open>e = None\<close> have "r = finish_unary op rez t' below st'" by simp
      then show ?thesis using finish_unary_keeps[OF assms(1)] ok by blast
    qed
  qed
qed

definition reduced_ok :: "string set \<Rightarrow> (arith_state_t \<Rightarrow> bool) \<Rightarrow> reduced \<Rightarrow> bool" where
  "reduced_ok X I r = (case r of Applied nums _ st \<Rightarrow> named_ok X nums \<and> I st
     | Paren nums _ st \<Rightarrow> named_ok X nums \<and> I st | Failed e st \<Rightarrow> e \<noteq> Out_of_fuel \<and> I st)"

lemma reduce_stack_keeps:
  "keeps X I ev \<Longrightarrow> I st \<Longrightarrow> named_ok X nums \<Longrightarrow> reduce_stack ev op stack nums st = Some r \<Longrightarrow>
   reduced_ok X I r"
proof (induction ev op stack nums st rule: reduce_stack.induct)
  case (1 ev op nums st)
  then show ?case by (auto simp: reduced_ok_def)
next
  case (2 ev op prev_op stack nums st)
  let ?prec = "fix_assignment_prec (PREC op)" and ?prev = "fix_assignment_prec (PREC prev_op)"
  let ?c1 = "op = TOK_RPAREN \<and> prev_op = TOK_LPAREN"
  let ?c2 = "op \<noteq> TOK_RPAREN \<and> (?prev < ?prec \<or> ?prev = ?prec \<and> is_right_associative ?prec)"
  consider "?c1" | "\<not> ?c1" "?c2" | "\<not> ?c1" "\<not> ?c2" by blast
  then show ?case
  proof cases
    case 1
    then show ?thesis using "2.prems" by (auto simp: reduced_ok_def)
  next
    case 2
    then show ?thesis using "2.prems" by (auto simp: reduced_ok_def Let_def simp del: de_Morgan_conj)
  next
    case 3
    then obtain e nums' st' where a: "arith_apply ev st prev_op nums = Some (e, nums', st')"
      "(case e of Some e \<Rightarrow> Some (Failed e st') | None \<Rightarrow> reduce_stack ev op stack nums' st') = Some r"
      using "2.prems" by (auto simp: Let_def bind_Some_iff simp del: de_Morgan_conj)
    have ok: "result_ok X I (e, nums', st')" by (rule arith_apply_keeps[OF "2.prems"(1-3) a(1)])
    show ?thesis
    proof (cases e)
      case None
      then show ?thesis
        using "2.IH"[OF refl refl 3(1) 3(2) a(1) refl refl None "2.prems"(1)] a(2) ok
        by (simp add: result_ok_def)
    next
      case (Some err)
      then show ?thesis using a(2) ok by (auto simp: reduced_ok_def result_ok_def)
    qed
  qed
qed

subsection \<open>The loop\<close>

definition loop_ok :: "string set \<Rightarrow> (arith_state_t \<Rightarrow> bool) \<Rightarrow> loop_state \<Rightarrow> bool" where
  "loop_ok X I ls \<longleftrightarrow> I (lp_state ls) \<and> named_ok X (lp_nums ls) \<and> text_ok X (lp_expr ls)"

definition step_ok :: "string set \<Rightarrow> (arith_state_t \<Rightarrow> bool) \<Rightarrow> step_result \<Rightarrow> bool" where
  "step_ok X I r = (case r of Inl ls \<Rightarrow> loop_ok X I ls | Inr (e, v, st) \<Rightarrow> e \<noteq> Some Out_of_fuel \<and> I st)"

lemma text_ok_suffix: "text_ok X s \<Longrightarrow> set r \<subseteq> set s \<Longrightarrow> text_ok X r"
  by (auto simp: text_ok_def)

lemma set_skip_spaces: "set (skip_spaces s) \<subseteq> set s"
  by (induction s) auto

lemma set_scan_base: "scan_base b n s = (m, r) \<Longrightarrow> set r \<subseteq> set s"
  by (induction b n s rule: scan_base.induct) (auto split: if_splits)

lemma set_strto: "strto_arith_t s = (v, r) \<Longrightarrow> set r \<subseteq> set s"
  using set_scan_base set_drop_subset[of 2 s]
  by (fastforce simp: strto_arith_t_def Let_def split: list.splits prod.splits if_splits)

lemma push_op_keeps: "loop_ok X I ls \<Longrightarrow> push_op cap op ls = Some r \<Longrightarrow> step_ok X I r"
  by (auto simp: push_op_def step_ok_def loop_ok_def split: if_splits)

lemma after_reduce_keeps:
  "reduced_ok X I r \<Longrightarrow> text_ok X (lp_expr ls) \<Longrightarrow> after_reduce cap op ls r = Some s \<Longrightarrow> step_ok X I s"
  by (cases r) (auto simp: after_reduce_def reduced_ok_def step_ok_def loop_ok_def push_op_def
      split: if_splits)

lemma operator_step_keeps:
  assumes "keeps X I ev" "loop_ok X I ls" "text_ok X rest" "operator_step ev cap op rest ls = Some r"
  shows "step_ok X I r"
proof -
  let ?ls = "ls\<lparr>lp_expr := rest\<rparr>"
  have ok: "loop_ok X I ?ls" using assms(2,3) by (simp add: loop_ok_def)
  have red: "step_ok X I r" if "reduce_stack ev op' (lp_stack ls) (lp_nums ls) (lp_state ls) = Some x"
    "after_reduce cap op' ?ls x = Some r" for op' x
    using reduce_stack_keeps[OF assms(1) _ _ that(1)] assms(2,3) that(2)
    by (intro after_reduce_keeps[of X I x ?ls]) (simp_all add: loop_ok_def)
  show ?thesis
    using assms(2,4) red push_op_keeps[OF ok]
    by (auto simp: operator_step_def Let_def bind_Some_iff step_ok_def loop_ok_def split: if_split_asm)
qed

lemma end_step_keeps:
  assumes "keeps X I ev" "loop_ok X I ls" "end_step ev fresh ls = Some r"
  shows "step_ok X I r"
proof -
  consider "fresh" | "\<not> fresh" "\<not> lp_closed ls"
    | n where "\<not> fresh" "lp_closed ls" "lp_nums ls = [n]"
    | "\<not> fresh" "lp_closed ls" "\<nexists>n. lp_nums ls = [n]" by blast
  then show ?thesis
  proof cases
    case 1
    then show ?thesis using assms by (auto simp: end_step_def step_ok_def loop_ok_def)
  next
    case 2
    have "text_ok X '')''"
      by (simp add: text_ok_def is_name_def is_alpha_def is_upper_def is_lower_def less_eq_char_def)
    then show ?thesis using 2 assms by (auto simp: end_step_def step_ok_def loop_ok_def)
  next
    case 3
    then obtain e n' st where l: "arith_lookup_val ev (lp_state ls) n = Some (e, n', st)"
      "r = Inr (e, num_val n', st)"
      using assms(3) by (auto simp: end_step_def bind_Some_iff)
    have "I (lp_state ls)" "\<forall>x. var n = Some x \<longrightarrow> x \<in> X"
      using assms(2) 3(3) by (simp_all add: loop_ok_def)
    then show ?thesis using lookup_keeps[OF assms(1) _ _ l(1)] l(2) by (simp add: step_ok_def)
  next
    case 4
    then have "r = Inr (Some Syntax_error, -1, lp_state ls)"
      using assms(3) by (auto simp: end_step_def split: list.split_asm)
    then show ?thesis using assms(2) by (simp add: step_ok_def loop_ok_def)
  qed
qed

lemma eval_step_keeps:
  assumes "keeps X I ev" "loop_ok X I ls" "eval_step ev ncap ocap fresh ls = Some r"
  shows "step_ok X I r"
proof -
  have ok: "loop_ok X I (skipped ls)"
    using assms(2) text_ok_suffix set_skip_spaces by (fastforce simp: loop_ok_def)
  show ?thesis
  proof (cases rule: eval_step_cases[of ls ev fresh])
    case finish
    show ?thesis using end_step_keeps[OF assms(1) ok] assms(3) unfolding finish(2) by blast
  next
    case (name c s x r')
    then have "X = UNIV" using ok by (auto simp: loop_ok_def text_ok_def)
    then show ?thesis using assms(3) ok unfolding name(5)
      by (auto simp: push_num_def step_ok_def loop_ok_def named_ok_def text_ok_def split: if_splits)
  next
    case (num c s v r')
    have "text_ok X r'" using ok num(1) set_strto[OF num(3)] text_ok_suffix
      by (metis loop_ok_def skipped_simps(1))
    then show ?thesis using assms(3) ok unfolding num(5)
      by (auto simp: push_num_def step_ok_def loop_ok_def number_def split: if_splits)
  next
    case (oper c s op t r')
    have "set r' \<subseteq> set (c # s)" unfolding oper(6) by simp
    then have "text_ok X r'" using ok oper(1) text_ok_suffix by (metis loop_ok_def skipped_simps(1))
    then show ?thesis using operator_step_keeps[OF assms(1) ok] assms(3) unfolding oper(8) by blast
  next
    case (bad c s)
    then show ?thesis using assms by (auto simp: step_ok_def loop_ok_def)
  qed
qed

lemma eval_loop_keeps:
  "keeps X I ev \<Longrightarrow> loop_ok X I ls \<Longrightarrow> eval_loop ev ncap ocap fresh ls = Some (e, v, st) \<Longrightarrow>
   e \<noteq> Some Out_of_fuel \<and> I st"
proof (induction ev ncap ocap fresh ls rule: eval_loop.induct)
  case (1 ev ncap ocap fresh ls)
  obtain r where r: "eval_step ev ncap ocap fresh ls = Some r"
    using 1(4) by (auto simp: eval_loop.simps[of ev ncap ocap fresh ls] split: option.splits)
  have ok: "step_ok X I r" by (rule eval_step_keeps[OF 1(2,3) r])
  show ?case
  proof (cases r)
    case (Inl ls')
    have "eval_loop ev ncap ocap fresh ls' = Some (e, v, st)"
      using 1(4) r Inl by (simp add: eval_loop.simps[of ev ncap ocap fresh ls])
    then show ?thesis using 1(1)[OF r Inl 1(2)] ok Inl by (simp add: step_ok_def)
  next
    case (Inr x)
    then show ?thesis using ok 1(4) r
      by (auto simp: eval_loop.simps[of ev ncap ocap fresh ls] step_ok_def)
  qed
qed

subsection \<open>The bound on the recursion\<close>

definition numeric :: "string \<Rightarrow> bool" where
  "numeric p \<longleftrightarrow> (\<forall>c \<in> set p. \<not> is_name c)"

definition open_names :: "arith_state_t \<Rightarrow> string set" where
  \<comment> \<open>The variables whose evaluation may look up others.\<close>
  "open_names st = {x. \<exists>p. vars st x = Some p \<and> \<not> numeric p}"

lemma digit_char:
  assumes "(n :: nat) < 10"
  shows "\<not> is_name (char_of (48 + n))"
proof -
  have "n = 0 \<or> n = 1 \<or> n = 2 \<or> n = 3 \<or> n = 4 \<or> n = 5 \<or> n = 6 \<or> n = 7 \<or> n = 8 \<or> n = 9"
    using assms by presburger
  then show ?thesis
    by (elim disjE) (simp_all add: is_name_def is_alpha_def is_upper_def is_lower_def less_eq_char_def
        char_of_def)
qed

lemma numeric_show_nat: "numeric (show_nat n)"
proof (induction n rule: show_nat.induct)
  case (1 n)
  then show ?case
    using digit_char[of n] digit_char[of "n mod 10"] by (subst show_nat.simps) (auto simp: numeric_def)
qed

lemma numeric_show_arith: "numeric (show_arith v)"
  using numeric_show_nat
  by (auto simp: show_arith_def Let_def numeric_def is_name_def is_alpha_def is_upper_def is_lower_def
      less_eq_char_def)

lemma open_names_assign: "open_names (st\<lparr>vars := (vars st)(x \<mapsto> show_arith v)\<rparr>) \<subseteq> open_names st"
  using numeric_show_arith by (auto simp: open_names_def split: if_splits)

definition depth_ok :: "nat \<Rightarrow> arith_state_t \<Rightarrow> string \<Rightarrow> bool" where
  "depth_ok d st expr \<longleftrightarrow> finite (open_names st)
     \<and> (card (open_names st - set (list_of_recursed_names st)) + 2 \<le> d \<or> numeric expr \<and> 1 \<le> d)"

lemma open_names_upd [simp]:
  "open_names (st\<lparr>list_of_recursed_names := l\<rparr>) = open_names st" "open_names (st\<lparr>errmsg := e\<rparr>) = open_names st"
  by (simp_all add: open_names_def)

lemma numeric_skip: "numeric p \<Longrightarrow> numeric (skip_spaces p)"
  using set_skip_spaces by (fastforce simp: numeric_def)

lemma evaluate_string_depth:
  "depth_ok d st expr \<Longrightarrow> evaluate_string d st expr = Some (v, st') \<Longrightarrow>
   errmsg st' \<noteq> Some Out_of_fuel \<and> open_names st' \<subseteq> open_names st
     \<and> list_of_recursed_names st' = list_of_recursed_names st"
proof (induction d arbitrary: st expr v st')
  case 0
  then show ?case by (simp add: depth_ok_def)
next
  case (Suc d)
  let ?I = "\<lambda>s. open_names s \<subseteq> open_names st \<and> list_of_recursed_names s = list_of_recursed_names st"
  let ?X = "if numeric expr then {} else UNIV :: string set"
  let ?e = "skip_spaces expr"
  have lookup: "?I (s'\<lparr>list_of_recursed_names := list_of_recursed_names s\<rparr>) \<and> errmsg s' \<noteq> Some Out_of_fuel"
    if "?I s" "x \<in> ?X" "vars s x = Some p" "x \<notin> set (list_of_recursed_names s)"
      "evaluate_string d (s\<lparr>list_of_recursed_names := x # list_of_recursed_names s\<rparr>) p = Some (v, s')"
    for s x p v s'
  proof -
    let ?s = "s\<lparr>list_of_recursed_names := x # list_of_recursed_names s\<rparr>"
    have fin: "finite (open_names st)" and d: "card (open_names st - set (list_of_recursed_names st)) + 2 \<le> Suc d"
      using Suc.prems(1) that(2) by (auto simp: depth_ok_def split: if_splits)
    have "depth_ok d ?s p"
    proof (cases "numeric p")
      case True
      then show ?thesis using fin d that(1) by (auto simp: depth_ok_def dest: finite_subset)
    next
      case False
      then have "x \<in> open_names s" using that(3) by (auto simp: open_names_def)
      then have "open_names s - set (x # list_of_recursed_names s) \<subset> open_names st - set (list_of_recursed_names st)"
        using that(1,4) by auto
      then have "card (open_names s - set (x # list_of_recursed_names s))
          < card (open_names st - set (list_of_recursed_names st))"
        using fin by (intro psubset_card_mono) auto
      then show ?thesis using fin d that(1) by (auto simp: depth_ok_def dest: finite_subset)
    qed
    from Suc.IH[OF this that(5)] that(1) show ?thesis by auto
  qed
  have k: "keeps ?X ?I (evaluate_string d)"
    unfolding keeps_def
  proof (rule conjI; intro allI impI)
    fix s x v assume "?I s"
    then show "?I (s\<lparr>vars := (vars s)(x \<mapsto> show_arith v)\<rparr>)"
      using subset_trans[OF open_names_assign[of s x v]] by simp
  next
    fix s x p v s'
    assume a: "?I s \<and> x \<in> ?X \<and> vars s x = Some p \<and> x \<notin> set (list_of_recursed_names s)
      \<and> evaluate_string d (s\<lparr>list_of_recursed_names := x # list_of_recursed_names s\<rparr>) p = Some (v, s')"
    show "?I (s'\<lparr>list_of_recursed_names := list_of_recursed_names s\<rparr>) \<and> errmsg s' \<noteq> Some Out_of_fuel"
      by (rule lookup[of s x p v s']) (use a in blast)+
  qed
  have l: "loop_ok ?X ?I (eval_start ?e st)"
    using numeric_skip by (auto simp: loop_ok_def eval_start_def text_ok_def numeric_def)
  obtain e s where r: "eval_loop (evaluate_string d) ((length ?e + 2) div 2) (length ?e + 2) (?e = [])
      (eval_start ?e st) = Some (e, v, s)" "st' = s\<lparr>errmsg := e\<rparr>"
    using Suc.prems(2) by (auto simp: eval_body_def Let_def bind_Some_iff)
  show ?case using eval_loop_keeps[OF k l r(1)] r(2) by simp
qed

definition no_vars :: arith_state_t where
  "no_vars = \<lparr>errmsg = None, vars = (\<lambda>_. None), list_of_recursed_names = []\<rparr>"

text \<open>C19. Evaluation always ends: with recursion through variables at most two levels deeper than there
  are variables, whatever they contain (chains, cycles, assignments inside values), no evaluation
  runs out of levels. It is the list of names being evaluated that ensures it.\<close>
theorem arith_recursion_bounded:
  assumes "finite (dom (vars st))" "card (dom (vars st)) + 2 \<le> d" "arith d st expr = Some (v, st')"
  shows "errmsg st' \<noteq> Some Out_of_fuel \<and> list_of_recursed_names st' = []"
proof -
  let ?st = "st\<lparr>errmsg := None, list_of_recursed_names := []\<rparr>"
  have sub: "open_names ?st \<subseteq> dom (vars st)" by (auto simp: open_names_def)
  have "card (open_names ?st) \<le> card (dom (vars st))" by (rule card_mono[OF assms(1) sub])
  then have "depth_ok d ?st expr" using assms(2) finite_subset[OF sub assms(1)] by (simp add: depth_ok_def)
  from evaluate_string_depth[OF this assms(3)[unfolded arith_def]] show ?thesis by simp
qed

theorem arith_recursion_bounded_witness:
  "errmsg (snd (the (arith 3 (no_vars\<lparr>vars := [''a'' \<mapsto> ''a'']\<rparr>) ''a''))) \<noteq> Some Out_of_fuel"
proof -
  have "arith (Suc (Suc (Suc 0))) (no_vars\<lparr>vars := [''a'' \<mapsto> ''a'']\<rparr>) ''a''
      = Some (0, no_vars\<lparr>errmsg := Some Recursion_loop, vars := [''a'' \<mapsto> ''a'']\<rparr>)"
    by (simp add: arith_def eval_body_def eval_start_def eval_loop.simps eval_step_def char_eval
        push_num_def Let_def end_step_def op_tokens_def operator_step_def unary_version_def tok_values
        PREC_def after_reduce_def arith_lookup_val_def named_def no_vars_def)
  then have "arith 3 (no_vars\<lparr>vars := [''a'' \<mapsto> ''a'']\<rparr>) ''a''
      = Some (0, no_vars\<lparr>errmsg := Some Recursion_loop, vars := [''a'' \<mapsto> ''a'']\<rparr>)"
    by (simp only: numeral_3_eq_3)
  from arith_recursion_bounded[OF _ _ this] this show ?thesis by (simp add: no_vars_def)
qed

end
