(* ===== verification/Shell_Math_Grammar.thy ===== *)
theory Shell_Math_Grammar
  imports Shell_Math_Fuel
begin

unbundle bit_operations_syntax

text \<open>
  What the two stacks of \<open>evaluate_string\<close> (\<open>shell/math.c\<close>) compute: expressions built from numbers,
  the four unary operators and the binary ones without assignment, comma and conditional are
  printed with parentheses only where precedence and associativity require them, and evaluating the
  text is proved to give the value of the expression.
\<close>

subsection \<open>Expressions and their text\<close>

datatype aexp = Lit nat | Unary op aexp | Binary op aexp aexp

definition unary_table :: "(op \<times> string) list" where
  "unary_table = [(TOK_UMINUS, ''-''), (TOK_UPLUS, ''+''), (TOK_NOT, ''!''), (TOK_BNOT, ''~'')]"

definition binary_table :: "(op \<times> string) list" where
  "binary_table = [(TOK_OR, ''||''), (TOK_AND, ''&&''), (TOK_BOR, ''|''), (TOK_BXOR, ''^''), (TOK_BAND, ''&''),
    (TOK_EQ, ''==''), (TOK_NE, ''!=''), (TOK_LT, ''<''), (TOK_GT, ''>''), (TOK_GE, ''>=''), (TOK_LE, ''<=''),
    (TOK_LSHIFT, ''<<''), (TOK_RSHIFT, ''>>''), (TOK_ADD, ''+''), (TOK_SUB, ''-''),
    (TOK_MUL, ''*''), (TOK_DIV, ''/''), (TOK_REM, ''%''), (TOK_EXPONENT, ''**'')]"

definition text_of :: "(op \<times> string) list \<Rightarrow> op \<Rightarrow> string" where
  "text_of tab op = (case map_of tab op of None \<Rightarrow> [] | Some t \<Rightarrow> t)"

fun wf_aexp :: "aexp \<Rightarrow> bool" where
  "wf_aexp (Lit n) \<longleftrightarrow> n < 2 ^ 64"
| "wf_aexp (Unary op e) \<longleftrightarrow> op \<in> fst ` set unary_table \<and> wf_aexp e"
| "wf_aexp (Binary op a b) \<longleftrightarrow> op \<in> fst ` set binary_table \<and> wf_aexp a \<and> wf_aexp b"

fun aval :: "aexp \<Rightarrow> s64 option" where
  \<comment> \<open>\<open>None\<close>: an operation on the way fails or has no value.\<close>
  "aval (Lit n) = Some (of_nat n)"
| "aval (Unary op e) = Option.bind (aval e) (unary_value op)"
| "aval (Binary op a b) = do {
     x \<leftarrow> aval a; y \<leftarrow> aval b;
     (case binary_value op x y 0 of Some (Inr v) \<Rightarrow> Some v | _ \<Rightarrow> None) }"

definition level :: "op \<Rightarrow> nat" where "level op = unat (PREC op)"

definition left_level :: "op \<Rightarrow> nat" where
  "left_level op = (if op = TOK_EXPONENT then level op + 1 else level op)"

definition right_level :: "op \<Rightarrow> nat" where
  "right_level op = (if op = TOK_EXPONENT then level op else level op + 1)"

definition paren :: "bool \<Rightarrow> string \<Rightarrow> string" where
  "paren b s = (if b then ''('' @ s @ '') '' else s)"

fun pretty :: "nat \<Rightarrow> aexp \<Rightarrow> string" where
  \<comment> \<open>In a context that binds with strength \<open>l\<close>.\<close>
  "pretty l (Lit n) = show_nat n @ '' ''"
| "pretty l (Unary op e) = text_of unary_table op @ '' '' @ pretty 16 e"
| "pretty l (Binary op a b) = paren (level op < l)
     (pretty (left_level op) a @ text_of binary_table op @ '' '' @ pretty (right_level op) b)"

subsection \<open>Numbers\<close>

lemma digit_facts:
  assumes "(n :: nat) < 10"
  shows "is_digit (char_of (48 + n))" "hex_digit (char_of (48 + n)) = n"
    "char_of (48 + n) = CHR ''0'' \<Longrightarrow> n = 0"
proof -
  show d: "is_digit (char_of (48 + n))" using assms by (simp add: is_digit_def less_eq_char_def)
  show "hex_digit (char_of (48 + n)) = n" using assms hex_digit_digit(1)[OF d] by (simp add: digit_val_def)
  assume "char_of (48 + n) = CHR ''0''"
  then have "of_char (char_of (48 + n) :: char) = (of_char CHR ''0'' :: nat)" by simp
  then show "n = 0" using assms by simp
qed

lemma show_nat_digit: "c \<in> set (show_nat n) \<Longrightarrow> is_digit c"
proof (induction n rule: show_nat.induct)
  case (1 n)
  then show ?case
    using digit_facts(1)[of n] digit_facts(1)[of "n mod 10"]
    by (cases "n < 10") (auto simp: show_nat.simps[of n])
qed

lemma show_nat_hd:
  "\<exists>c s. show_nat n = c # s \<and> (c = CHR ''0'' \<longrightarrow> n = 0 \<and> s = [])"
proof (induction n rule: show_nat.induct)
  case (1 n)
  show ?case
  proof (cases "n < 10")
    case True
    then show ?thesis using digit_facts(3)[OF True]
      by (auto simp: show_nat.simps[of n])
  next
    case False
    then show ?thesis using 1 by (auto simp: show_nat.simps[of n] div_eq_0_iff)
  qed
qed

lemma scan_base_digits:
  "\<forall>c \<in> set s. hex_digit c < 10 \<Longrightarrow> scan_base 10 m (s @ r) = scan_base 10 (fst (scan_base 10 m s)) r"
  by (induction s arbitrary: m) auto

lemma scan_base_show: "fst (scan_base 10 0 (show_nat n)) = n"
proof (induction n rule: show_nat.induct)
  case (1 n)
  show ?case
  proof (cases "n < 10")
    case True
    then show ?thesis using digit_facts(2)[OF True] by (simp add: show_nat.simps[of n])
  next
    case False
    have "\<forall>c \<in> set (show_nat (n div 10)). hex_digit c < 10"
      using show_nat_digit hex_digit_digit(2) by blast
    then show ?thesis using 1[OF False] False digit_facts(2)[of "n mod 10"]
      by (simp add: show_nat.simps[of n] scan_base_digits)
  qed
qed

lemma strto_show:
  assumes "n < 2 ^ 64"
  shows "strto_arith_t (show_nat n @ '' '' @ r) = (of_nat n, '' '' @ r)"
proof -
  obtain c s where cs: "show_nat n = c # s" "c = CHR ''0'' \<longrightarrow> n = 0 \<and> s = []" using show_nat_hd by blast
  have dig: "\<forall>c \<in> set (show_nat n). hex_digit c < 10" using show_nat_digit hex_digit_digit(2) by blast
  have scan: "scan_base 10 0 (show_nat n @ '' '' @ r) = (n, '' '' @ r)"
    using scan_base_digits[OF dig, of 0 "'' '' @ r"] by (simp add: scan_base_show char_eval)
  show ?thesis
  proof (cases "c = CHR ''0''")
    case True
    then show ?thesis using cs
      by (cases r) (auto simp: strto_arith_t_def char_eval)
  next
    case False
    then have "strto_arith_t (show_nat n @ '' '' @ r) =
        (let (n, r) = scan_base 10 0 (show_nat n @ '' '' @ r) in (if n < 2 ^ 64 then of_nat n else 0, r))"
      using cs by (cases s; cases r; cases "tl s") (auto simp: strto_arith_t_def)
    then show ?thesis using assms by (simp add: scan del: append_Cons)
  qed
qed

subsection \<open>The operators of the tables\<close>

abbreviation binary_op :: "op \<Rightarrow> bool" where "binary_op op \<equiv> op \<in> fst ` set binary_table"
abbreviation unary_op :: "op \<Rightarrow> bool" where "unary_op op \<equiv> op \<in> fst ` set unary_table"

lemma table_values:
  "unary_table = [(17, ''-''), (49, ''+''), (48, ''!''), (16, ''~'')]"
  "binary_table = [(5, ''||''), (6, ''&&''), (7, ''|''), (8, ''^''), (9, ''&''),
    (10, ''==''), (42, ''!=''), (11, ''<''), (43, ''>''), (75, ''>=''), (107, ''<=''),
    (12, ''<<''), (44, ''>>''), (13, ''+''), (45, ''-''),
    (14, ''*''), (46, ''/''), (78, ''%''), (47, ''**'')]"
  by (simp_all add: unary_table_def binary_table_def tok_defs)

lemma op_tokens_values:
  "op_tokens = [(''<<='', 194), (''>>='', 226), (''<<'', 12),
    (''>>'', 44), (''||'', 5), (''&&'', 6),
    (''!='', 42), (''<='', 107), (''>='', 75),
    (''=='', 10), (''|='', 66), (''&='', 34),
    (''*='', 3), (''/='', 35), (''%='', 67),
    (''+='', 130), (''-='', 162), (''--'', 51),
    (''^='', 98), (''++'', 19), (''**'', 47),
    (''!'', 48), (''<'', 11), (''>'', 43),
    (''='', 2), (''|'', 7), (''&'', 9),
    (''*'', 14), (''/'', 46), (''%'', 78),
    (''+'', 13), (''-'', 45), (''^'', 8),
    (''~'', 16), ('','', 1), (''?'', 4),
    ('':'', 36), ('')'', 52), (''('', 0)]"
  by (simp add: op_tokens_def tok_defs)

lemma tok_values':
  "TOK_CONDITIONAL = 4" "TOK_CONDITIONAL_SEP = 36" "TOK_ASSIGN = 2"
  "TOK_EXPONENT = 47" "PREC_PRE = 18" "PREC_POST = 19"
  "TOK_UMINUS = 17" "TOK_UPLUS = 49" "TOK_NOT = 48" "TOK_BNOT = 16"
  "TOK_MUL = 14" "TOK_PRE_INC = 18" "TOK_PRE_DEC = 50"
  by (simp_all add: tok_defs)

lemmas all_values = table_values tok_values tok_values'

lemma binary_level: "binary_op op \<Longrightarrow> 5 \<le> level op \<and> level op \<le> 15 \<and> (level op = 15 \<longleftrightarrow> op = TOK_EXPONENT)"
  by (simp add: all_values; elim disjE; simp add: level_def PREC_def)

lemma binary_prec:
  "binary_op op \<Longrightarrow> 0 < PREC op \<and> PREC op < UNARYPREC \<and> fix_assignment_prec (PREC op) = PREC op"
  by (simp add: all_values; elim disjE; simp add: fix_assignment_prec_def PREC_def)

lemma binary_distinct:
  "binary_op op \<Longrightarrow> op \<noteq> TOK_RPAREN \<and> op \<noteq> TOK_LPAREN \<and> op \<noteq> TOK_NUM \<and> op \<noteq> TOK_POST_INC \<and> op \<noteq> TOK_POST_DEC
     \<and> op \<noteq> TOK_CONDITIONAL \<and> op \<noteq> TOK_CONDITIONAL_SEP \<and> op \<noteq> TOK_ASSIGN"
  by (simp add: all_values; elim disjE; simp)

lemma binary_apply: "binary_op op \<Longrightarrow> unary_value op x = None \<and> \<not> is_assign_op op"
  by (simp add: all_values; elim disjE;
      simp add: unary_value_def is_assign_op_def fix_assignment_prec_def all_values PREC_def)

lemma binary_assoc:
  "binary_op op \<Longrightarrow> is_right_associative (PREC op) \<longleftrightarrow> op = TOK_EXPONENT"
  by (simp add: all_values; elim disjE; simp add: is_right_associative_def all_values PREC_def)

lemma binary_token:
  "binary_op op \<Longrightarrow> find_token op_tokens (text_of binary_table op @ '' '' @ r) = Some (op, '' '' @ r)"
  by (simp add: all_values; elim disjE; simp add: text_of_def op_tokens_values)

lemma unary_facts:
  "unary_op op \<Longrightarrow> \<not> is_assign_op op \<and> 16 \<le> level op \<and> UNARYPREC \<le> PREC op \<and> PREC op \<noteq> SPEC_PREC
    \<and> fix_assignment_prec (PREC op) = PREC op
    \<and> op \<noteq> TOK_RPAREN \<and> op \<noteq> TOK_LPAREN \<and> op \<noteq> TOK_NUM \<and> op \<noteq> TOK_POST_INC \<and> op \<noteq> TOK_POST_DEC"
  by (simp add: all_values; elim disjE;
      simp add: is_assign_op_def fix_assignment_prec_def level_def all_values PREC_def)

lemma unary_token:
  assumes "unary_op op" "lasttok \<noteq> TOK_NUM"
  shows "\<exists>tok. find_token op_tokens (text_of unary_table op @ '' '' @ r) = Some (tok, '' '' @ r)
    \<and> unary_version lasttok tok = op"
  using assms
  by (simp add: all_values; elim disjE; simp add: text_of_def op_tokens_values unary_version_def all_values)

lemma text_start:
  "unary_op op \<Longrightarrow> \<exists>c t. text_of unary_table op = c # t \<and> \<not> is_space c \<and> \<not> is_in_name c"
  "binary_op op \<Longrightarrow> \<exists>c t. text_of binary_table op = c # t \<and> \<not> is_space c \<and> \<not> is_in_name c"
  by (simp add: all_values; elim disjE; simp add: text_of_def char_eval)+

lemma apply_number:
  "unary_value op x = Some v \<Longrightarrow> \<not> is_assign_op op \<Longrightarrow>
   arith_apply ev st op (number x # ns) = Some (None, number v # ns, st)"
  by (simp add: arith_apply_def arith_lookup_val_def number_def finish_unary_def finish_apply_def)

lemma apply_numbers:
  "binary_op op \<Longrightarrow> binary_value op x y 0 = Some (Inr v) \<Longrightarrow>
   arith_apply ev st op (number y # number x # ns) = Some (None, number v # ns, st)"
  using binary_apply[of op y] binary_distinct[of op]
  by (simp add: arith_apply_def arith_lookup_val_def number_def finish_unary_def finish_apply_def
      apply_binary_def bad_second_val_def finish_binary_def)

subsection \<open>Reducing the stack\<close>

definition opens :: "nat \<Rightarrow> op list \<Rightarrow> bool" where
  \<comment> \<open>Operators of strength \<open>l\<close> and more are pushed at once.\<close>
  "opens l stack \<longleftrightarrow> (\<forall>op ev nums st. binary_op op \<longrightarrow> l \<le> level op \<longrightarrow>
     reduce_stack ev op stack nums st = Some (Applied nums stack st))"

definition closes :: "nat \<Rightarrow> op \<Rightarrow> bool" where
  \<comment> \<open>Tokens that end an operand of strength \<open>l\<close>.\<close>
  "closes l op \<longleftrightarrow> op = TOK_RPAREN
     \<or> binary_op op \<and> (level op < l \<or> level op = l \<and> op \<noteq> TOK_EXPONENT)"

lemma level_less: "level a < level b \<longleftrightarrow> PREC a < PREC b" "level a = level b \<longleftrightarrow> PREC a = PREC b"
  by (simp_all add: level_def word_less_nat_alt word_unat_eq_iff)

lemma opens_op: "binary_op op \<Longrightarrow> opens (right_level op) (op # stack)"
  unfolding opens_def
proof (intro allI impI)
  fix o' ev nums st
  assume a: "binary_op op" "binary_op o'" "right_level op \<le> level o'"
  have "level op < level o' \<or> level op = level o' \<and> op = TOK_EXPONENT"
    using a(3) by (auto simp: right_level_def split: if_splits)
  then have "PREC op < PREC o' \<or> PREC op = PREC o' \<and> is_right_associative (PREC o')"
    using a binary_level[of op] binary_level[of o'] binary_assoc[of o'] level_less by metis
  then show "reduce_stack ev o' (op # stack) nums st = Some (Applied nums (op # stack) st)"
    using a binary_distinct[of o'] binary_prec[of o'] binary_prec[of op] by (simp add: Let_def)
qed

lemma opens_paren: "opens l (TOK_LPAREN # stack)"
  unfolding opens_def
proof (intro allI impI)
  fix o' ev nums st
  assume a: "binary_op o'"
  have "fix_assignment_prec (PREC TOK_LPAREN) = 0"
    by (simp add: tok_values PREC_def fix_assignment_prec_def)
  then show "reduce_stack ev o' (TOK_LPAREN # stack) nums st = Some (Applied nums (TOK_LPAREN # stack) st)"
    using a binary_distinct[of o'] binary_prec[of o'] by (simp add: Let_def)
qed

lemma opens_16: "opens 16 stack"
  using binary_level by (fastforce simp: opens_def)

lemma closes_mono: "closes l op \<Longrightarrow> l \<le> l' \<Longrightarrow> closes l' op"
  by (auto simp: closes_def)

lemma closes_not_stronger:
  assumes "closes l op" "l \<le> level prev" "fix_assignment_prec (PREC prev) = PREC prev"
  shows "op = TOK_RPAREN
    \<or> \<not> (fix_assignment_prec (PREC prev) < fix_assignment_prec (PREC op)
         \<or> fix_assignment_prec (PREC prev) = fix_assignment_prec (PREC op)
           \<and> is_right_associative (fix_assignment_prec (PREC op)))"
proof (cases "op = TOK_RPAREN")
  case False
  then have c: "binary_op op" "level op < l \<or> level op = l \<and> op \<noteq> TOK_EXPONENT"
    using assms(1) by (auto simp: closes_def)
  then have "\<not> level prev < level op" "level prev = level op \<Longrightarrow> \<not> is_right_associative (PREC op)"
    using assms(2) binary_assoc[OF c(1)] by auto
  then show ?thesis using level_less[of prev op] assms(3) binary_prec[OF c(1)] by simp
qed simp

lemma reduce_binary:
  assumes "binary_op prev" "closes l op" "l \<le> level prev" "binary_value prev x y 0 = Some (Inr v)"
  shows "reduce_stack ev op (prev # stack) (number y # number x # ns) st
    = reduce_stack ev op stack (number v # ns) st"
proof -
  have f: "fix_assignment_prec (PREC prev) = PREC prev" using binary_prec[OF assms(1)] by simp
  show ?thesis
    using closes_not_stronger[OF assms(2,3) f] binary_distinct[OF assms(1)] apply_numbers[OF assms(1,4)]
    by (auto simp: Let_def)
qed

lemma reduce_unary:
  assumes "unary_op prev" "closes l op" "l \<le> 16" "unary_value prev x = Some v"
  shows "reduce_stack ev op (prev # stack) (number x # ns) st = reduce_stack ev op stack (number v # ns) st"
proof -
  note u = unary_facts[OF assms(1)]
  have f: "fix_assignment_prec (PREC prev) = PREC prev" and l: "l \<le> level prev" using u assms(3) by simp_all
  show ?thesis
    using closes_not_stronger[OF assms(2) l f] u apply_number[OF assms(4)] by (auto simp: Let_def)
qed

subsection \<open>Turns of the loop\<close>

definition conf :: "string \<Rightarrow> var_or_num_t list \<Rightarrow> op list \<Rightarrow> op \<Rightarrow> arith_state_t \<Rightarrow> loop_state" where
  "conf s nums stack lasttok st = \<lparr>lp_expr = s, lp_closed = False, lp_nums = nums, lp_stack = stack,
     lp_lasttok = lasttok, lp_state = st\<rparr>"

definition before_operand :: "op \<Rightarrow> bool" where
  "before_operand t \<longleftrightarrow> t \<noteq> TOK_NUM \<and> t \<noteq> TOK_POST_INC \<and> t \<noteq> TOK_POST_DEC"

lemma before_operand_ops:
  "binary_op op \<Longrightarrow> before_operand op" "unary_op op \<Longrightarrow> before_operand op" "before_operand TOK_LPAREN"
  using binary_distinct unary_facts by (simp_all add: before_operand_def tok_values)

lemma turn:
  "eval_step ev N K fresh ls = Some (Inl ls') \<Longrightarrow> eval_loop ev N K fresh ls = eval_loop ev N K fresh ls'"
  by (simp add: eval_loop.simps[of ev N K fresh ls])

lemma skip_turn:
  "eval_loop ev N K fresh (conf ('' '' @ s) nums stack t st) = eval_loop ev N K fresh (conf s nums stack t st)"
proof -
  have "eval_step ev N K fresh (conf ('' '' @ s) nums stack t st) = eval_step ev N K fresh (conf s nums stack t st)"
    by (simp add: eval_step_def conf_def is_space_def)
  then show ?thesis by (simp only: eval_loop.simps[of ev N K fresh "conf ('' '' @ s) nums stack t st"]
      eval_loop.simps[of ev N K fresh "conf s nums stack t st"])
qed

lemma oper_turn:
  assumes "find_token op_tokens s = Some (op, r)" "s = c # s'" "\<not> is_space c" "\<not> is_in_name c"
  shows "eval_step ev N K fresh (conf s nums stack t st) = operator_step ev K op r (conf s nums stack t st)"
  using assms not_in_name[of c] by (simp add: eval_step_def conf_def Let_def endofname_def)

lemma number_turn:
  assumes "n < 2 ^ 64" "length nums < N"
  shows "eval_loop ev N K fresh (conf (show_nat n @ '' '' @ r) nums stack t st)
    = eval_loop ev N K fresh (conf ('' '' @ r) (number (of_nat n) # nums) stack TOK_NUM st)"
proof (rule turn)
  obtain c s where c: "show_nat n = c # s" using show_nat_hd by blast
  then have d: "is_digit c" using show_nat_digit[of c n] by simp
  then have "\<not> is_space c" "\<not> is_name c" using digit_not_name digit_in_name(1) space_not_in_name by blast+
  then show "eval_step ev N K fresh (conf (show_nat n @ '' '' @ r) nums stack t st)
      = Some (Inl (conf ('' '' @ r) (number (of_nat n) # nums) stack TOK_NUM st))"
    using strto_show[OF assms(1), of r] c d assms(2)
    by (simp add: eval_step_def conf_def Let_def endofname_def push_num_def)
qed

lemma unary_turn:
  assumes "unary_op op" "before_operand t" "length stack < K"
  shows "eval_loop ev N K fresh (conf (text_of unary_table op @ '' '' @ r) nums stack t st)
    = eval_loop ev N K fresh (conf ('' '' @ r) nums (op # stack) op st)"
proof (rule turn)
  have t: "t \<noteq> TOK_NUM" "t \<noteq> TOK_POST_INC" "t \<noteq> TOK_POST_DEC" using assms(2) by (simp_all add: before_operand_def)
  obtain tok where tok: "find_token op_tokens (text_of unary_table op @ '' '' @ r) = Some (tok, '' '' @ r)"
    "unary_version t tok = op" using unary_token[OF assms(1) t(1)] by blast
  obtain c s where c: "text_of unary_table op = c # s" "\<not> is_space c" "\<not> is_in_name c"
    using text_start(1)[OF assms(1)] by blast
  have "eval_step ev N K fresh (conf (text_of unary_table op @ '' '' @ r) nums stack t st)
      = operator_step ev K tok ('' '' @ r) (conf (text_of unary_table op @ '' '' @ r) nums stack t st)"
    using c by (intro oper_turn[OF tok(1)]) simp_all
  moreover have "\<not> PREC op < UNARYPREC" using unary_facts[OF assms(1)] by (simp add: not_less)
  ultimately show "eval_step ev N K fresh (conf (text_of unary_table op @ '' '' @ r) nums stack t st)
      = Some (Inl (conf ('' '' @ r) nums (op # stack) op st))"
    using t tok(2) unary_facts[OF assms(1)] assms(3)
    by (simp add: operator_step_def conf_def Let_def push_op_def)
qed

lemma binary_turn:
  assumes "binary_op op" "reduce_stack ev op stack nums st = Some (Applied nums' stack' st)" "length stack' < K"
  shows "eval_loop ev N K fresh (conf (text_of binary_table op @ '' '' @ r) nums stack TOK_NUM st)
    = eval_loop ev N K fresh (conf ('' '' @ r) nums' (op # stack') op st)"
proof (rule turn)
  obtain c s where c: "text_of binary_table op = c # s" "\<not> is_space c" "\<not> is_in_name c"
    using text_start(2)[OF assms(1)] by blast
  have "eval_step ev N K fresh (conf (text_of binary_table op @ '' '' @ r) nums stack TOK_NUM st)
      = operator_step ev K op ('' '' @ r) (conf (text_of binary_table op @ '' '' @ r) nums stack TOK_NUM st)"
    using c by (intro oper_turn[OF binary_token[OF assms(1)]]) simp_all
  then show "eval_step ev N K fresh (conf (text_of binary_table op @ '' '' @ r) nums stack TOK_NUM st)
      = Some (Inl (conf ('' '' @ r) nums' (op # stack') op st))"
    using binary_prec[OF assms(1)] assms(2,3)
    by (simp add: operator_step_def conf_def Let_def push_op_def unary_version_def after_reduce_def)
qed

lemma lparen_turn:
  assumes "before_operand t" "length stack < K"
  shows "eval_loop ev N K fresh (conf (''('' @ r) nums stack t st)
    = eval_loop ev N K fresh (conf r nums (TOK_LPAREN # stack) TOK_LPAREN st)"
proof (rule turn)
  have "find_token op_tokens (''('' @ r) = Some (TOK_LPAREN, r)" by (simp add: op_tokens_values tok_values)
  then have "eval_step ev N K fresh (conf (''('' @ r) nums stack t st)
      = operator_step ev K TOK_LPAREN r (conf (''('' @ r) nums stack t st)"
    by (rule oper_turn[where c = "CHR ''(''" and s' = r]) (simp_all add: char_eval)
  then show "eval_step ev N K fresh (conf (''('' @ r) nums stack t st)
      = Some (Inl (conf r nums (TOK_LPAREN # stack) TOK_LPAREN st))"
    using assms by (simp add: operator_step_def conf_def Let_def push_op_def unary_version_def
        before_operand_def all_values PREC_def)
qed

lemma rparen_turn:
  assumes "reduce_stack ev TOK_RPAREN stack nums st = Some (Paren nums' stack' st)"
  shows "eval_step ev N K fresh (conf ('')'' @ r) nums stack TOK_NUM st)
    = Some (Inl (conf r nums' stack' TOK_NUM st))"
proof -
  have "find_token op_tokens ('')'' @ r) = Some (TOK_RPAREN, r)" by (simp add: op_tokens_values tok_values)
  then have "eval_step ev N K fresh (conf ('')'' @ r) nums stack TOK_NUM st)
      = operator_step ev K TOK_RPAREN r (conf ('')'' @ r) nums stack TOK_NUM st)"
    by (rule oper_turn[where c = "CHR '')''" and s' = r]) (simp_all add: char_eval)
  moreover have "PREC TOK_RPAREN = SPEC_PREC" by (simp add: tok_values PREC_def)
  ultimately show ?thesis
    using assms by (simp add: operator_step_def conf_def Let_def unary_version_def after_reduce_def)
qed

subsection \<open>Reading an operand\<close>

definition reads :: "evaluator \<Rightarrow> nat \<Rightarrow> nat \<Rightarrow> bool \<Rightarrow> arith_state_t \<Rightarrow> nat \<Rightarrow> string \<Rightarrow> s64 \<Rightarrow> bool" where
  \<comment> \<open>Reading \<open>s\<close> as an operand of strength \<open>l\<close> leaves stacks that are worth the number \<open>v\<close> to
      whatever token ends the operand.\<close>
  "reads ev N K fresh st l s v \<longleftrightarrow> (\<forall>nums stack t r.
     opens l stack \<longrightarrow> before_operand t \<longrightarrow> length nums + length s \<le> N \<longrightarrow> length stack + length s \<le> K \<longrightarrow>
     (\<exists>nums' stack'. eval_loop ev N K fresh (conf (s @ r) nums stack t st)
          = eval_loop ev N K fresh (conf ('' '' @ r) nums' stack' TOK_NUM st)
        \<and> length nums' \<le> length nums + length s \<and> length stack' \<le> length stack + length s
        \<and> (\<forall>op. closes l op \<longrightarrow>
             reduce_stack ev op stack' nums' st = reduce_stack ev op stack (number v # nums) st)))"

lemma readsE:
  assumes "reads ev N K fresh st l s v" "opens l stack" "before_operand t"
    "length nums + length s \<le> N" "length stack + length s \<le> K"
  obtains nums' stack' where
    "eval_loop ev N K fresh (conf (s @ r) nums stack t st)
       = eval_loop ev N K fresh (conf ('' '' @ r) nums' stack' TOK_NUM st)"
    "length nums' \<le> length nums + length s" "length stack' \<le> length stack + length s"
    "\<And>op. closes l op \<Longrightarrow> reduce_stack ev op stack' nums' st = reduce_stack ev op stack (number v # nums) st"
  using assms unfolding reads_def by metis

lemma reads_number: "n < 2 ^ 64 \<Longrightarrow> reads ev N K fresh st l (show_nat n @ '' '') (of_nat n)"
  unfolding reads_def
proof (intro allI impI)
  fix nums :: "var_or_num_t list" and stack :: "op list" and t r
  assume a: "n < 2 ^ 64" "length nums + length (show_nat n @ '' '') \<le> N"
  show "\<exists>nums' stack'. eval_loop ev N K fresh (conf ((show_nat n @ '' '') @ r) nums stack t st)
          = eval_loop ev N K fresh (conf ('' '' @ r) nums' stack' TOK_NUM st)
        \<and> length nums' \<le> length nums + length (show_nat n @ '' '')
        \<and> length stack' \<le> length stack + length (show_nat n @ '' '')
        \<and> (\<forall>op. closes l op \<longrightarrow>
             reduce_stack ev op stack' nums' st = reduce_stack ev op stack (number (of_nat n) # nums) st)"
    by (rule exI[of _ "number (of_nat n) # nums"], rule exI[of _ stack])
      (use a number_turn[OF a(1), of nums N ev K fresh r stack t st] in simp)
qed

lemma reads_unary:
  assumes "unary_op op" "unary_value op x = Some v" "reads ev N K fresh st 16 s x" "l \<le> 16"
  shows "reads ev N K fresh st l (text_of unary_table op @ '' '' @ s) v"
  unfolding reads_def
proof (intro allI impI)
  fix nums :: "var_or_num_t list" and stack :: "op list" and t r
  let ?s = "text_of unary_table op @ '' '' @ s"
  assume a: "opens l stack" "before_operand t" "length nums + length ?s \<le> N" "length stack + length ?s \<le> K"
  have fit: "length nums + length s \<le> N" "length (op # stack) + length s \<le> K" using a by simp_all
  obtain nums' stack' where b:
    "eval_loop ev N K fresh (conf (s @ r) nums (op # stack) op st)
       = eval_loop ev N K fresh (conf ('' '' @ r) nums' stack' TOK_NUM st)"
    "length nums' \<le> length nums + length s" "length stack' \<le> length (op # stack) + length s"
    "\<And>o'. closes 16 o' \<Longrightarrow> reduce_stack ev o' stack' nums' st = reduce_stack ev o' (op # stack) (number x # nums) st"
    by (rule readsE[OF assms(3) opens_16[of "op # stack"] before_operand_ops(2)[OF assms(1)] fit, of r]) blast
  have "eval_loop ev N K fresh (conf (?s @ r) nums stack t st)
      = eval_loop ev N K fresh (conf (s @ r) nums (op # stack) op st)"
    using unary_turn[OF assms(1) a(2), of stack K ev N fresh "s @ r" nums st] a(4) skip_turn[of ev N K fresh "s @ r"]
    by simp
  moreover have "reduce_stack ev o' stack' nums' st = reduce_stack ev o' stack (number v # nums) st" if "closes l o'" for o'
    using b(4)[OF closes_mono[OF that assms(4)]] reduce_unary[OF assms(1) that assms(4,2)] by simp
  ultimately show "\<exists>nums' stack'. eval_loop ev N K fresh (conf (?s @ r) nums stack t st)
          = eval_loop ev N K fresh (conf ('' '' @ r) nums' stack' TOK_NUM st)
        \<and> length nums' \<le> length nums + length ?s \<and> length stack' \<le> length stack + length ?s
        \<and> (\<forall>op. closes l op \<longrightarrow> reduce_stack ev op stack' nums' st = reduce_stack ev op stack (number v # nums) st)"
    using b(1-3) by (intro exI[of _ nums'] exI[of _ stack']) auto
qed

lemma reads_binary:
  assumes "binary_op op" "binary_value op x y 0 = Some (Inr v)" "l \<le> level op"
    and "reads ev N K fresh st (left_level op) s x" "reads ev N K fresh st (right_level op) s' y"
    and "s \<noteq> []"
  shows "reads ev N K fresh st l (s @ text_of binary_table op @ '' '' @ s') v"
  unfolding reads_def
proof (intro allI impI)
  fix nums :: "var_or_num_t list" and stack :: "op list" and t r
  let ?s = "s @ text_of binary_table op @ '' '' @ s'"
  assume a: "opens l stack" "before_operand t" "length nums + length ?s \<le> N" "length stack + length ?s \<le> K"
  have opl: "opens (left_level op) stack"
    using a(1) assms(3) unfolding opens_def left_level_def by (auto split: if_splits)
  have fit: "length nums + length s \<le> N" "length stack + length s \<le> K" using a by simp_all
  have fit': "length (number x # nums) + length s' \<le> N" "length (op # stack) + length s' \<le> K"
    using a assms(6) by (cases s; simp)+
  obtain n1 s1 where one:
    "eval_loop ev N K fresh (conf (s @ text_of binary_table op @ '' '' @ s' @ r) nums stack t st)
       = eval_loop ev N K fresh (conf ('' '' @ text_of binary_table op @ '' '' @ s' @ r) n1 s1 TOK_NUM st)"
    "\<And>o'. closes (left_level op) o' \<Longrightarrow> reduce_stack ev o' s1 n1 st = reduce_stack ev o' stack (number x # nums) st"
    by (rule readsE[OF assms(4) opl a(2) fit, of "text_of binary_table op @ '' '' @ s' @ r"]) blast
  have "closes (left_level op) op" using assms(1) by (auto simp: closes_def left_level_def)
  then have red: "reduce_stack ev op s1 n1 st = Some (Applied (number x # nums) stack st)"
    using one(2) a(1) assms(1,3) by (simp add: opens_def)
  have two: "eval_loop ev N K fresh (conf (?s @ r) nums stack t st)
      = eval_loop ev N K fresh (conf (s' @ r) (number x # nums) (op # stack) op st)"
    using one(1) binary_turn[OF assms(1) red, of K N fresh "s' @ r"] a(4) assms(6)
      skip_turn[of ev N K fresh "s' @ r" "number x # nums" "op # stack" op st]
      skip_turn[of ev N K fresh "text_of binary_table op @ '' '' @ s' @ r" n1 s1 TOK_NUM st]
    by (cases s) auto
  obtain n2 s2 where three:
    "eval_loop ev N K fresh (conf (s' @ r) (number x # nums) (op # stack) op st)
       = eval_loop ev N K fresh (conf ('' '' @ r) n2 s2 TOK_NUM st)"
    "length n2 \<le> length (number x # nums) + length s'" "length s2 \<le> length (op # stack) + length s'"
    "\<And>o'. closes (right_level op) o' \<Longrightarrow>
       reduce_stack ev o' s2 n2 st = reduce_stack ev o' (op # stack) (number y # number x # nums) st"
    by (rule readsE[OF assms(5) opens_op[OF assms(1)] before_operand_ops(1)[OF assms(1)] fit', of r]) blast
  have "reduce_stack ev o' s2 n2 st = reduce_stack ev o' stack (number v # nums) st" if "closes l o'" for o'
  proof -
    have "l \<le> right_level op" using assms(3) unfolding right_level_def by auto
    then show ?thesis
      using three(4)[OF closes_mono[OF that]] reduce_binary[OF assms(1) that assms(3,2)] by simp
  qed
  moreover have "0 < length s" using assms(6) by simp
  ultimately show "\<exists>nums' stack'. eval_loop ev N K fresh (conf (?s @ r) nums stack t st)
          = eval_loop ev N K fresh (conf ('' '' @ r) nums' stack' TOK_NUM st)
        \<and> length nums' \<le> length nums + length ?s \<and> length stack' \<le> length stack + length ?s
        \<and> (\<forall>op. closes l op \<longrightarrow> reduce_stack ev op stack' nums' st = reduce_stack ev op stack (number v # nums) st)"
    using two three(1-3) by (intro exI[of _ n2] exI[of _ s2]) auto
qed

lemma reads_paren:
  assumes "reads ev N K fresh st k s v"
  shows "reads ev N K fresh st l (paren True s) v"
  unfolding reads_def
proof (intro allI impI)
  fix nums :: "var_or_num_t list" and stack :: "op list" and t r
  let ?s = "paren True s"
  assume a: "opens l stack" "before_operand t" "length nums + length ?s \<le> N" "length stack + length ?s \<le> K"
  have fit: "length nums + length s \<le> N" "length (TOK_LPAREN # stack) + length s \<le> K"
    using a by (simp_all add: paren_def)
  obtain n1 s1 where one:
    "eval_loop ev N K fresh (conf (s @ '')'' @ '' '' @ r) nums (TOK_LPAREN # stack) TOK_LPAREN st)
       = eval_loop ev N K fresh (conf ('' '' @ '')'' @ '' '' @ r) n1 s1 TOK_NUM st)"
    "\<And>o'. closes k o' \<Longrightarrow> reduce_stack ev o' s1 n1 st = reduce_stack ev o' (TOK_LPAREN # stack) (number v # nums) st"
    by (rule readsE[OF assms opens_paren[of k stack] before_operand_ops(3) fit, of "'')'' @ '' '' @ r"]) blast
  have "reduce_stack ev TOK_RPAREN s1 n1 st = Some (Paren (number v # nums) stack st)"
    using one(2)[of TOK_RPAREN] by (simp add: closes_def)
  from turn[OF rparen_turn[OF this, of N K fresh "'' '' @ r"]]
  have "eval_loop ev N K fresh (conf (?s @ r) nums stack t st)
      = eval_loop ev N K fresh (conf ('' '' @ r) (number v # nums) stack TOK_NUM st)"
    using lparen_turn[OF a(2), of stack K ev N fresh "s @ '')'' @ '' '' @ r" nums st] one(1) a(4)
      skip_turn[of ev N K fresh "'')'' @ '' '' @ r" n1 s1 TOK_NUM st]
    by (simp add: paren_def)
  then show "\<exists>nums' stack'. eval_loop ev N K fresh (conf (?s @ r) nums stack t st)
          = eval_loop ev N K fresh (conf ('' '' @ r) nums' stack' TOK_NUM st)
        \<and> length nums' \<le> length nums + length ?s \<and> length stack' \<le> length stack + length ?s
        \<and> (\<forall>op. closes l op \<longrightarrow> reduce_stack ev op stack' nums' st = reduce_stack ev op stack (number v # nums) st)"
    by (intro exI[of _ "number v # nums"] exI[of _ stack]) (simp add: paren_def)
qed

lemma pretty_not_Nil: "pretty l e \<noteq> []"
  by (cases e) (auto simp: paren_def)

lemma level_bounds: "binary_op op \<Longrightarrow> left_level op \<le> 16 \<and> right_level op \<le> 16"
  using binary_level[of op] by (auto simp: left_level_def right_level_def)

lemma aval_Binary:
  assumes "aval (Binary op a b) = Some v"
  shows "\<exists>x y. aval a = Some x \<and> aval b = Some y \<and> binary_value op x y 0 = Some (Inr v)"
proof -
  obtain x y where xy: "aval a = Some x" "aval b = Some y"
    "(case binary_value op x y 0 of Some (Inr v) \<Rightarrow> Some v | _ \<Rightarrow> None) = Some v"
    using assms by (auto simp: bind_Some_iff)
  then show ?thesis by (auto split: option.split_asm sum.split_asm)
qed

lemma reads_pretty:
  "wf_aexp e \<Longrightarrow> aval e = Some v \<Longrightarrow> l \<le> 16 \<Longrightarrow> reads ev N K fresh st l (pretty l e) v"
proof (induction e arbitrary: l v)
  case (Lit n)
  then show ?case using reads_number[of n] by auto
next
  case (Unary op e)
  then obtain x where "aval e = Some x" "unary_value op x = Some v" by (auto simp: bind_Some_iff)
  then show ?case using Unary reads_unary[of op x v ev N K fresh st "pretty 16 e" l] by simp
next
  case (Binary op a b)
  then obtain x y where xy: "aval a = Some x" "aval b = Some y" "binary_value op x y 0 = Some (Inr v)"
    using aval_Binary by blast
  have op: "binary_op op" "wf_aexp a" "wf_aexp b" using Binary.prems by simp_all
  note le = level_bounds[OF op(1), THEN conjunct1] level_bounds[OF op(1), THEN conjunct2]
  have inner: "reads ev N K fresh st k
      (pretty (left_level op) a @ text_of binary_table op @ '' '' @ pretty (right_level op) b) v"
    if "k \<le> level op" for k
    by (rule reads_binary[OF op(1) xy(3) that Binary.IH(1)[OF op(2) xy(1) le(1)]
          Binary.IH(2)[OF op(3) xy(2) le(2)] pretty_not_Nil])
  show ?case
  proof (cases "level op < l")
    case True
    then show ?thesis using reads_paren[OF inner[OF order_refl]] by simp
  qed (use inner in \<open>simp add: paren_def\<close>)
qed

subsection \<open>The whole text\<close>

lemma separated_add:
  "\<forall>c \<in> set t. \<not> is_in_name c \<Longrightarrow> separated r \<Longrightarrow> separated (t @ r)"
proof (induction t)
  case (Cons c t)
  then show ?case using not_in_name[of c] by (simp add: separated.simps[of "c # t @ r"])
qed simp

lemma table_chars:
  "unary_op op \<Longrightarrow> \<forall>c \<in> set (text_of unary_table op). \<not> is_in_name c"
  "binary_op op \<Longrightarrow> \<forall>c \<in> set (text_of binary_table op). \<not> is_in_name c"
  by (simp add: all_values; elim disjE; simp add: text_of_def char_eval)+

lemma separated_space: "separated r \<Longrightarrow> separated (CHR '' '' # r)"
  using separated_add[of "'' ''" r] by (simp add: char_eval)

lemma separated_number: "n < 2 ^ 64 \<Longrightarrow> separated r \<Longrightarrow> separated (show_nat n @ '' '' @ r)"
proof -
  assume a: "n < 2 ^ 64" "separated r"
  obtain c s where c: "show_nat n = c # s" using show_nat_hd by blast
  then have "is_digit c" using show_nat_digit[of c n] by simp
  then show ?thesis
    using strto_show[OF a(1), of r] c digit_not_name separated_space[OF a(2)]
    by (simp add: separated.simps[of "c # s @ CHR '' '' # r"] char_eval)
qed

lemma separated_pretty: "wf_aexp e \<Longrightarrow> separated r \<Longrightarrow> separated (pretty l e @ r)"
proof (induction e arbitrary: l r)
  case (Lit n)
  then show ?case using separated_number[of n r] by simp
next
  case (Unary op e)
  then show ?case using separated_add[OF table_chars(1)[of op]] separated_space by auto
next
  case (Binary op a b)
  note chars = separated_add[OF table_chars(2)]
  have op: "binary_op op" "wf_aexp a" "wf_aexp b" using Binary.prems by simp_all
  have inner: "separated (pretty (left_level op) a @ text_of binary_table op @ CHR '' '' # pretty (right_level op) b @ r')"
    if "separated r'" for r'
    by (rule Binary.IH(1)[OF op(2) chars[OF op(1) separated_space[OF Binary.IH(2)[OF op(3) that]]]])
  moreover have "separated ('') '' @ r)" using separated_add[of "'') ''" r] Binary.prems(2) by (simp add: char_eval)
  ultimately show ?case
    using inner[of "'') '' @ r"] inner[OF Binary.prems(2)] separated_add[of "''(''"]
    by (simp add: paren_def char_eval)
qed

lemma close_text:
  assumes "reduce_stack ev TOK_RPAREN stack nums st = Some (Paren [number v] [] st)"
  shows "eval_loop ev N K False (conf ('' '' @ []) nums stack TOK_NUM st) = Some (None, v, st)"
proof -
  let ?c = "\<lambda>s nums stack. (conf s nums stack TOK_NUM st)\<lparr>lp_closed := True\<rparr>"
  have "eval_step ev N K False (conf '' '' nums stack TOK_NUM st) = Some (Inl (?c '')'' nums stack))"
    by (simp add: eval_step_def end_step_def conf_def is_space_def)
  moreover have "eval_step ev N K False (?c '')'' nums stack) = Some (Inl (?c [] [number v] []))"
  proof -
    have "find_token op_tokens '')'' = Some (TOK_RPAREN, [])" by (simp add: op_tokens_values tok_values)
    moreover have "PREC TOK_RPAREN = SPEC_PREC" by (simp add: tok_values PREC_def)
    ultimately show ?thesis using assms
      by (simp add: eval_step_def conf_def char_eval operator_step_def Let_def unary_version_def after_reduce_def)
  qed
  moreover have "eval_step ev N K False (?c [] [number v] []) = Some (Inr (None, v, st))"
    by (simp add: eval_step_def end_step_def conf_def arith_lookup_val_def number_def)
  ultimately show ?thesis by (simp add: turn eval_loop.simps[of ev N K False "?c [] [number v] []"])
qed

lemma eval_pretty:
  assumes "wf_aexp e" "aval e = Some v" "0 < length s" "s = pretty 1 e" "length s \<le> N" "length s < K"
  shows "eval_loop ev N K False (eval_start s st) = Some (None, v, st)"
proof -
  have one: "(1 :: nat) \<le> 16" by simp
  have fit: "length ([] :: var_or_num_t list) + length s \<le> N" "length [TOK_LPAREN] + length s \<le> K"
    using assms by simp_all
  obtain nums stack where r:
    "eval_loop ev N K False (conf (s @ []) [] [TOK_LPAREN] TOK_LPAREN st)
       = eval_loop ev N K False (conf ('' '' @ []) nums stack TOK_NUM st)"
    "\<And>op. closes 1 op \<Longrightarrow> reduce_stack ev op stack nums st = reduce_stack ev op [TOK_LPAREN] [number v] st"
    by (rule readsE[OF reads_pretty[OF assms(1,2) one, folded assms(4)] opens_paren[of 1 "[]"]
          before_operand_ops(3) fit, where r = "[]"]) blast
  have "reduce_stack ev TOK_RPAREN stack nums st = Some (Paren [number v] [] st)"
    using r(2)[of TOK_RPAREN] by (simp add: closes_def)
  from close_text[OF this] r(1) show ?thesis by (simp add: conf_def eval_start_def)
qed

lemma skip_pretty: "wf_aexp e \<Longrightarrow> skip_spaces (pretty l e @ r) = pretty l e @ r"
proof (induction e arbitrary: l r)
  case (Lit n)
  obtain c s where c: "show_nat n = c # s" using show_nat_hd by blast
  then have "is_digit c" using show_nat_digit[of c n] by simp
  then show ?case using c digit_in_name(1) space_not_in_name by auto
next
  case (Unary op e)
  then show ?case using text_start(1)[of op] by auto
next
  case (Binary op a b)
  then show ?case using Binary.IH(1)[of "left_level op"] by (simp add: paren_def is_space_def)
qed

subsection \<open>Properties\<close>

text \<open>C18. Evaluation follows the grammar of C: an expression of numbers, unary and binary operators,
  printed with parentheses only where precedence and associativity (right for \<open>**\<close>, left for the
  others) demand them, evaluates without error to the value of the expression, wherever all its
  operations have one. The parser thus inverts the printer for all eleven levels of precedence.\<close>
theorem arith_follows_grammar:
  assumes "wf_aexp e" "aval e = Some v"
  shows "arith (Suc d) st (pretty 1 e) = Some (v, st\<lparr>errmsg := None, list_of_recursed_names := []\<rparr>)"
proof -
  let ?s = "pretty 1 e" and ?st = "st\<lparr>errmsg := None, list_of_recursed_names := []\<rparr>"
  let ?ev = "evaluate_string d"
  have skip: "skip_spaces ?s = ?s" using skip_pretty[OF assms(1), of 1 "[]"] by simp
  have sep: "separated ?s" using separated_pretty[OF assms(1), of "[]" 1] by (simp add: separated.simps)
  have "eval_loop ?ev (length ?s + 2) (length ?s + 2) False (eval_start ?s ?st)
      = eval_loop ?ev ((length ?s + 2) div 2) (length ?s + 2) False (eval_start ?s ?st)"
    by (rule nums_fit_loop[OF start_fits(2)[OF sep]]) simp
  moreover have "eval_loop ?ev (length ?s + 2) (length ?s + 2) False (eval_start ?s ?st) = Some (None, v, ?st)"
    using pretty_not_Nil[of 1 e] by (intro eval_pretty[OF assms]) auto
  ultimately have "eval_loop ?ev ((length ?s + 2) div 2) (length ?s + 2) False (eval_start ?s ?st) = Some (None, v, ?st)"
    by (rule trans[OF sym])
  then show ?thesis
    using pretty_not_Nil[of 1 e] by (simp add: arith_def eval_body_def Let_def skip[simplified])
qed

theorem arith_follows_grammar_witness:
  "arith 1 no_vars ''2 + - 3 * (4 - 9 ) '' = Some (17, no_vars)"
proof -
  let ?e = "Binary TOK_ADD (Lit 2) (Binary TOK_MUL (Unary TOK_UMINUS (Lit 3)) (Binary TOK_SUB (Lit 4) (Lit 9)))"
  have "pretty 1 ?e = ''2 + - 3 * (4 - 9 ) ''"
    by (simp add: all_values text_of_def left_level_def right_level_def paren_def level_def PREC_def
        show_nat.simps char_of_def bit_0)
  moreover have "wf_aexp ?e" by (simp add: all_values)
  moreover have "aval ?e = Some 17"
    by (simp add: unary_value_def binary_value_def tok_defs)
  ultimately show ?thesis using arith_follows_grammar[of ?e 17 0 no_vars] by (simp add: no_vars_def)
qed

end
