(* ===== verification/Ext2_Base.thy ===== *)
theory Ext2_Base
  imports Prelude
begin

text \<open>
  What the theories on the library of the old \<open>e2fsprogs\<close> (\<open>ext2fs/\<close>) share: error codes, memory
  allocation (\<open>ext2fs_inline.c\<close>), and arrays with checked access.

  \<open>malloc\<close> is the parameter \<open>mem\<close>, which says for which sizes in bytes it succeeds; what \<open>realloc\<close>
  leaves in the new part of a block is the parameter \<open>junk\<close>. \<open>xrealloc\<close> ends the program when
  there is no memory, so \<open>ext2fs_resize_mem\<close> has no failure to return.
\<close>

datatype errcode = OK | EXT2_ET_MAGIC_EXT2FS_FILSYS | EXT2_ET_MAGIC_BADBLOCKS_LIST
  | EXT2_ET_MAGIC_BADBLOCKS_ITERATE | EXT2_ET_MAGIC_GENERIC_BITMAP | EXT2_ET_MAGIC_BLOCK_BITMAP
  | EXT2_ET_MAGIC_INODE_BITMAP | EXT2_ET_MAGIC_ICOUNT | EXT2_ET_NO_MEMORY | EXT2_ET_INVALID_ARGUMENT
  | EXT2_ET_BAD_GENERIC_MARK | EXT2_ET_BAD_BLOCK_MARK | EXT2_ET_BAD_INODE_MARK
  | EXT2_ET_FUDGE_INODE_BITMAP_END | EXT2_ET_FUDGE_BLOCK_BITMAP_END
  | EXT2_ET_NEQ_BLOCK_BITMAP | EXT2_ET_NEQ_INODE_BITMAP | EXT2_ET_NO_INODE_BITMAP | EXT2_ET_NO_BLOCK_BITMAP
  | EXT2_ET_INODE_ALLOC_FAIL | EXT2_ET_BLOCK_ALLOC_FAIL | EXT2_ET_MAGIC_IO_CHANNEL
  | EXT2_ET_MAGIC_UNIX_IO_CHANNEL | EXT2_ET_SHORT_READ | EXT2_ET_SHORT_WRITE | EXT2_ET_BAD_DEVICE_NAME
  | EXT2_ET_RO_FILSYS | EXT2_ET_BLOCK_BITMAP_READ | EXT2_ET_BLOCK_BITMAP_WRITE
  | EXT2_ET_INODE_BITMAP_READ | EXT2_ET_INODE_BITMAP_WRITE | EXT2_ET_GDESC_BAD_BLOCK_MAP
  | EXT2_ET_GDESC_BAD_INODE_MAP | EXT2_ET_GDESC_BAD_INODE_TABLE | EXT2_ET_UNSUPP_FEATURE
  | EXT2_ET_RO_UNSUPP_FEATURE | EXT2_ET_TOOSMALL | EXT2_ET_TOO_MANY_INODES | EXT2_ET_RES_GDT_BLOCKS
  | EXT2_ET_BAD_MAGIC | EXT2_ET_REV_TOO_HIGH | EXT2_ET_CORRUPT_SUPERBLOCK | EXT2_ET_UNEXPECTED_BLOCK_SIZE
  | EXT2_ET_MAGIC_E2IMAGE | EXT2_ET_NOT_IMAGE_FILE
  | Errno nat   \<comment> \<open>an error number of the C library\<close>

type_synonym malloc = "nat \<Rightarrow> bool"

definition ext2fs_get_mem :: "malloc \<Rightarrow> nat \<Rightarrow> errcode" where
  "ext2fs_get_mem mem bytes = (if mem bytes then OK else EXT2_ET_NO_MEMORY)"

definition ext2fs_resize_mem :: "(nat \<Rightarrow> 'a) \<Rightarrow> nat \<Rightarrow> 'a list \<Rightarrow> 'a list" where
  \<comment> \<open>\<open>n\<close> elements in the resized block.\<close>
  "ext2fs_resize_mem junk n xs = take n xs @ map junk [length xs..<n]"

lemma resize_mem [simp]:
  "length (ext2fs_resize_mem junk n xs) = n"
  "k \<le> length xs \<Longrightarrow> k \<le> n \<Longrightarrow> take k (ext2fs_resize_mem junk n xs) = take k xs"
  by (auto simp: ext2fs_resize_mem_def min_def)

lemma nth_resize_mem: "i < n \<Longrightarrow> ext2fs_resize_mem junk n xs ! i = (if i < length xs then xs ! i else junk i)"
  by (simp add: ext2fs_resize_mem_def nth_append min_def)

subsection \<open>Strictly ascending lists\<close>

abbreviation ascending :: "'a::linorder list \<Rightarrow> bool" where "ascending \<equiv> sorted_wrt (<)"

lemma ascending_nth: "ascending xs \<Longrightarrow> i < j \<Longrightarrow> j < length xs \<Longrightarrow> xs ! i < xs ! j"
  by (rule sorted_wrt_nth_less)

lemma ascending_nth_iff:
  "ascending xs \<Longrightarrow> i < length xs \<Longrightarrow> j < length xs \<Longrightarrow> xs ! i < xs ! j \<longleftrightarrow> i < j"
  using ascending_nth by (metis linorder_neqE_nat order_less_asym order_less_irrefl)

lemma ascending_inj:
  "ascending xs \<Longrightarrow> i < length xs \<Longrightarrow> j < length xs \<Longrightarrow> xs ! i = xs ! j \<Longrightarrow> i = j"
  using ascending_nth_iff by (metis linorder_neqE_nat order_less_irrefl)

lemma ascending_insert:
  assumes "ascending xs" "j \<le> length xs" "\<forall>i < j. xs ! i < x" "\<forall>i < length xs. j \<le> i \<longrightarrow> x < xs ! i"
  shows "ascending (take j xs @ x # drop j xs)"
proof -
  have "\<forall>y \<in> set (take j xs). y < x" using assms(2,3) by (auto simp: in_set_conv_nth)
  moreover have "\<forall>y \<in> set (drop j xs). x < y" using assms(2,4) by (auto simp: in_set_conv_nth)
  moreover have "ascending (take j xs @ drop j xs)" using assms(1) by simp
  ultimately show ?thesis by (auto simp: sorted_wrt_append intro: order_less_trans)
qed

lemma ascending_remove: "ascending xs \<Longrightarrow> ascending (take j xs @ drop (Suc j) xs)"
proof (cases "j < length xs")
  case True
  then have "xs = take j xs @ xs ! j # drop (Suc j) xs" by (rule id_take_nth_drop)
  moreover assume "ascending xs"
  ultimately have "ascending (take j xs @ xs ! j # drop (Suc j) xs)" by simp
  then show ?thesis by (simp add: sorted_wrt_append)
qed simp

lemma set_insert_at: "j \<le> length xs \<Longrightarrow> set (take j xs @ x # drop j xs) = insert x (set xs)"
  by (metis append_take_drop_id list.simps(15) set_append Un_insert_right)

lemma set_remove_at:
  assumes "ascending xs" "j < length xs"
  shows "set (take j xs @ drop (Suc j) xs) = set xs - {xs ! j}"
proof -
  have e: "xs = take j xs @ xs ! j # drop (Suc j) xs" using assms(2) by (rule id_take_nth_drop)
  have "xs ! i \<noteq> xs ! j" if "i < length xs" "i \<noteq> j" for i
    using ascending_inj[OF assms(1) that(1) assms(2)] that(2) by blast
  then have "xs ! j \<notin> set (take j xs)" "xs ! j \<notin> set (drop (Suc j) xs)"
    using assms(2) by (auto simp: in_set_conv_nth)
  moreover have "set xs = insert (xs ! j) (set (take j xs) \<union> set (drop (Suc j) xs))"
    using arg_cong[OF e, of set] by simp
  ultimately show ?thesis by auto
qed

subsection \<open>Moving part of an array by one\<close>

text \<open>The loops that make room in an array and that close a gap, and what they amount to.\<close>

function shift_up :: "'a list \<Rightarrow> nat \<Rightarrow> nat \<Rightarrow> 'a list option" where
  \<comment> \<open>\<open>for (; i > j; i--) list[i] = list[i-1];\<close>\<close>
  "shift_up xs j i = (if j < i then do {
     x \<leftarrow> rd xs (i - 1);
     xs \<leftarrow> wr xs i x;
     shift_up xs j (i - 1) } else Some xs)"
  by pat_completeness auto
termination by (relation "measure (\<lambda>(xs, j, i). i)") auto

function shift_down :: "'a list \<Rightarrow> nat \<Rightarrow> nat \<Rightarrow> 'a list option" where
  \<comment> \<open>\<open>for (; i < n - 1; i++) list[i] = list[i+1];\<close>\<close>
  "shift_down xs n i = (if i + 1 < n then do {
     x \<leftarrow> rd xs (i + 1);
     xs \<leftarrow> wr xs i x;
     shift_down xs n (i + 1) } else Some xs)"
  by pat_completeness auto
termination by (relation "measure (\<lambda>(xs, n, i). n - i)") auto

declare shift_up.simps [simp del] shift_down.simps [simp del]

lemma shift_up_result:
  "j \<le> i \<Longrightarrow> i < length xs \<Longrightarrow>
   shift_up xs j i = Some (take j xs @ xs ! j # take (i - j) (drop j xs) @ drop (Suc i) xs)"
proof (induction xs j i rule: shift_up.induct)
  case (1 xs j i)
  show ?case
  proof (cases "j < i")
    case False
    then show ?thesis using 1(2,3) by (simp add: shift_up.simps[of xs i i] id_take_nth_drop[symmetric])
  next
    case True
    let ?xs = "xs[i := xs ! (i - 1)]"
    have IH: "shift_up ?xs j (i - 1)
        = Some (take j ?xs @ ?xs ! j # take (i - 1 - j) (drop j ?xs) @ drop (Suc (i - 1)) ?xs)"
      by (rule 1(1)[OF True]) (use True 1(3) in auto)
    have "take (i - j) (drop j xs) = take (i - 1 - j) (drop j xs) @ [xs ! (i - 1)]"
      using True 1(3) take_Suc_conv_app_nth[of "i - 1 - j" "drop j xs"] by (simp add: Suc_diff_Suc)
    moreover have "drop i ?xs = xs ! (i - 1) # drop (Suc i) xs"
      using 1(3) by (simp add: Cons_nth_drop_Suc[symmetric])
    moreover have "take (i - 1 - j) (drop j ?xs) = take (i - 1 - j) (drop j xs)"
      using True by (simp add: take_drop)
    ultimately show ?thesis
      using True 1(3) IH by (simp add: shift_up.simps[of xs j i])
  qed
qed

lemma shift_down_result:
  "i < n \<Longrightarrow> n \<le> length xs \<Longrightarrow>
   shift_down xs n i = Some (take i xs @ take (n - 1 - i) (drop (Suc i) xs) @ drop (n - 1) xs)"
proof (induction xs n i rule: shift_down.induct)
  case (1 xs n i)
  show ?case
  proof (cases "i + 1 < n")
    case False
    then have "i = n - 1" using 1(2) by simp
    then show ?thesis using 1(2,3) by (simp add: shift_down.simps[of xs n "n - Suc 0"])
  next
    case True
    let ?xs = "xs[i := xs ! (i + 1)]"
    have IH: "shift_down ?xs n (i + 1)
        = Some (take (i + 1) ?xs @ take (n - 1 - (i + 1)) (drop (Suc (i + 1)) ?xs) @ drop (n - 1) ?xs)"
      by (rule 1(1)[OF True]) (use True 1(3) in auto)
    have "take (n - 1 - i) (drop (Suc i) xs) = xs ! (i + 1) # take (n - 1 - (i + 1)) (drop (Suc (i + 1)) xs)"
      using True 1(3) by (simp add: Cons_nth_drop_Suc[symmetric] take_Cons' )
    moreover have "take (i + 1) ?xs = take i xs @ [xs ! (i + 1)]"
      using True 1(3) by (simp add: take_Suc_conv_app_nth)
    ultimately show ?thesis using True 1(3) IH by (simp add: shift_down.simps[of xs n i])
  qed
qed

lemma take_shifted_up:
  assumes "j \<le> n" "n < length xs"
  shows "take (n + 1) (take j xs @ x # take (n - j) (drop j xs) @ drop (Suc n) xs)
    = take j (take n xs) @ x # drop j (take n xs)"
proof -
  have "take j xs @ x # take (n - j) (drop j xs) @ drop (Suc n) xs
      = (take j (take n xs) @ x # drop j (take n xs)) @ drop (Suc n) xs"
    using assms by (simp add: drop_take min_def)
  moreover have "length (take j (take n xs) @ x # drop j (take n xs)) = n + 1" using assms by simp
  ultimately show ?thesis by (metis append_eq_conv_conj)
qed

lemma take_shifted_down:
  assumes "i < n" "n \<le> length xs"
  shows "take (n - 1) (take i xs @ take (n - 1 - i) (drop (Suc i) xs) @ drop (n - 1) xs)
    = take i (take n xs) @ drop (Suc i) (take n xs)"
proof -
  have "take i xs @ take (n - 1 - i) (drop (Suc i) xs) @ drop (n - 1) xs
      = (take i (take n xs) @ drop (Suc i) (take n xs)) @ drop (n - 1) xs"
    using assms by (simp add: drop_take min_def)
  moreover have "length (take i (take n xs) @ drop (Suc i) (take n xs)) = n - 1" using assms by simp
  ultimately show ?thesis by (metis append_eq_conv_conj)
qed

lemma length_shifted:
  "j \<le> n \<Longrightarrow> n < length xs \<Longrightarrow>
     length (take j xs @ x # take (n - j) (drop j xs) @ drop (Suc n) xs) = length xs"
  "i < n \<Longrightarrow> n \<le> length xs \<Longrightarrow>
     length (take i xs @ take (n - 1 - i) (drop (Suc i) xs) @ drop (n - 1) xs) = length xs"
  by simp_all

end
