(* ===== verification/Number_Set.thy ===== *)
theory Number_Set
  imports Ext2_Base
begin

text \<open>
  The interface the block lists and the bitmaps of \<open>ext2fs\<close> provide: a mutable set of 32-bit
  numbers. The provider promises that each operation computes the one on sets and keeps the
  representation invariant, as long as its memory may still grow (\<open>room\<close>); the client lemma
  says what is in the set after any sequence of operations.
\<close>

datatype set_op = Ins u32 | Del u32

primrec op_number :: "set_op \<Rightarrow> u32" where
  "op_number (Ins x) = x"
| "op_number (Del x) = x"

primrec set_after :: "u32 set \<Rightarrow> set_op list \<Rightarrow> u32 set" where
  \<comment> \<open>The set after the operations, in order.\<close>
  "set_after A [] = A"
| "set_after A (p # ps) = set_after (case p of Ins x \<Rightarrow> insert x A | Del x \<Rightarrow> A - {x}) ps"

primrec run_ops :: "('s \<Rightarrow> u32 \<Rightarrow> 's option) \<Rightarrow> ('s \<Rightarrow> u32 \<Rightarrow> 's option) \<Rightarrow> set_op list \<Rightarrow> 's \<Rightarrow> 's option" where
  "run_ops add del [] s = Some s"
| "run_ops add del (p # ps) s =
     Option.bind (case p of Ins x \<Rightarrow> add s x | Del x \<Rightarrow> del s x) (run_ops add del ps)"

locale number_set =
  fixes inv :: "'s \<Rightarrow> bool" and abs :: "'s \<Rightarrow> u32 set" and range :: "u32 set"
    and room :: "nat \<Rightarrow> 's \<Rightarrow> bool"
    and add del :: "'s \<Rightarrow> u32 \<Rightarrow> 's option" and test :: "'s \<Rightarrow> u32 \<Rightarrow> bool option"
  assumes add_law: "inv s \<Longrightarrow> room (Suc n) s \<Longrightarrow> x \<in> range \<Longrightarrow>
      \<exists>s'. add s x = Some s' \<and> inv s' \<and> room n s' \<and> abs s' = insert x (abs s)"
    and del_law: "inv s \<Longrightarrow> room (Suc n) s \<Longrightarrow> x \<in> range \<Longrightarrow>
      \<exists>s'. del s x = Some s' \<and> inv s' \<and> room n s' \<and> abs s' = abs s - {x}"
    and test_law: "inv s \<Longrightarrow> room n s \<Longrightarrow> test s x = Some (x \<in> abs s)"
begin

lemma run_law:
  "inv s \<Longrightarrow> room (length ps) s \<Longrightarrow> op_number ` set ps \<subseteq> range \<Longrightarrow>
   \<exists>s'. run_ops add del ps s = Some s' \<and> inv s' \<and> room 0 s' \<and> abs s' = set_after (abs s) ps"
proof (induction ps arbitrary: s)
  case (Cons p ps)
  have r: "room (Suc (length ps)) s" "op_number p \<in> range" using Cons.prems by simp_all
  obtain s' where s': "(case p of Ins x \<Rightarrow> add s x | Del x \<Rightarrow> del s x) = Some s'" "inv s'"
    "room (length ps) s'" "abs s' = (case p of Ins x \<Rightarrow> insert x (abs s) | Del x \<Rightarrow> abs s - {x})"
    using add_law[OF Cons.prems(1) r(1)] del_law[OF Cons.prems(1) r(1)] r(2) by (cases p) force+
  then show ?case using Cons.IH[OF s'(2,3)] Cons.prems(3) by simp
qed simp

lemma run_test:
  assumes "inv s" "room (length ps) s" "op_number ` set ps \<subseteq> range"
  shows "Option.bind (run_ops add del ps s) (\<lambda>s. test s x) = Some (x \<in> set_after (abs s) ps)"
  using run_law[OF assms] test_law by force

end

end
