(* ===== verification/Ext2_Badblocks.thy ===== *)
theory Ext2_Badblocks
  imports Number_Set
begin

text \<open>
  The lists of bad blocks (\<open>ext2fs/badblocks.c\<close>): a sorted array of \<open>num\<close> of the \<open>size\<close> allocated
  numbers. The operations are proved to be those of a finite set of 32-bit numbers, through the
  interface \<open>number_set\<close>; the iterator visits the set in ascending order.

  The fields \<open>num\<close> and \<open>size\<close>, \<open>int\<close> in the code and never negative, are natural numbers with the
  overflow of \<open>int\<close> written out. The wrappers \<open>ext2fs_badblocks_*\<close>, which only cast, are not
  repeated.
\<close>

record u32_list =
  bb_magic :: errcode
  bb_num :: nat
  bb_size :: nat
  bb_list :: "u32 list"
  badblocks_flags :: int

subsection \<open>Operations\<close>

definition make_u32_list :: "malloc \<Rightarrow> int \<Rightarrow> nat \<Rightarrow> u32 list option \<Rightarrow> (errcode + u32_list) option" where
  "make_u32_list mem sz num list =
     (if ext2fs_get_mem mem 32 \<noteq> OK then Some (Inl (ext2fs_get_mem mem 32))
      else let n = (if sz \<noteq> 0 then sz else 10);
               retval = ext2fs_get_mem mem (nat ((n * 4) mod 2 ^ 64)) in
        if retval \<noteq> OK then Some (Inl retval)
        else if n < 0 then None
        else do {
          xs \<leftarrow> (case list of
                  None \<Rightarrow> Some (replicate (nat n) 0)
                | Some xs \<Rightarrow> if nat n \<le> length xs then Some (take (nat n) xs) else None);
          Some (Inr \<lparr>bb_magic = EXT2_ET_MAGIC_BADBLOCKS_LIST, bb_num = num, bb_size = nat n,
                     bb_list = xs, badblocks_flags = 0\<rparr>) })"

definition ext2fs_u32_list_create :: "malloc \<Rightarrow> int \<Rightarrow> (errcode + u32_list) option" where
  "ext2fs_u32_list_create mem sz = make_u32_list mem sz 0 None"

definition ext2fs_u32_copy :: "malloc \<Rightarrow> u32_list \<Rightarrow> (errcode + u32_list) option" where
  "ext2fs_u32_copy mem src = do {
     r \<leftarrow> make_u32_list mem (int (bb_size src)) (bb_num src) (Some (bb_list src));
     Some (case r of Inl e \<Rightarrow> Inl e
           | Inr dest \<Rightarrow> Inr (dest\<lparr>badblocks_flags := badblocks_flags src\<rparr>)) }"

definition grow :: "(nat \<Rightarrow> u32) \<Rightarrow> u32_list \<Rightarrow> u32_list option" where
  "grow junk bb =
     (if bb_size bb \<le> bb_num bb
      then if 2 ^ 31 \<le> bb_size bb + 100 then None
           else Some (bb\<lparr>bb_size := bb_size bb + 100,
                         bb_list := ext2fs_resize_mem junk (bb_size bb + 100) (bb_list bb)\<rparr>)
      else Some bb)"

datatype slot = Present | Slot nat

function add_scan :: "u32 list \<Rightarrow> u32 \<Rightarrow> nat \<Rightarrow> nat \<Rightarrow> slot option" where
  \<comment> \<open>The loop that looks for the first greater number from index \<open>i\<close> on.\<close>
  "add_scan xs blk num i =
     (if i < num then do {
        x \<leftarrow> rd xs i;
        if x = blk then Some Present
        else if blk < x then Some (Slot i)
        else add_scan xs blk num (i + 1) }
      else Some (Slot num))"
  by pat_completeness auto
termination by (relation "measure (\<lambda>(xs, blk, num, i). num - i)") auto

definition put_at :: "u32_list \<Rightarrow> nat \<Rightarrow> u32 \<Rightarrow> u32_list option" where
  \<comment> \<open>Make room at \<open>j\<close> and store the number there.\<close>
  "put_at bb j blk = do {
     xs \<leftarrow> shift_up (bb_list bb) j (bb_num bb);
     xs \<leftarrow> wr xs j blk;
     Some (bb\<lparr>bb_list := xs, bb_num := bb_num bb + 1\<rparr>) }"

definition list_insert :: "u32_list \<Rightarrow> u32 \<Rightarrow> u32_list option" where
  \<comment> \<open>From the special case for appending on, when the last number is known to be greater.\<close>
  "list_insert bb blk = do {
     s \<leftarrow> add_scan (bb_list bb) blk (bb_num bb) 0;
     (case s of Present \<Rightarrow> Some bb | Slot j \<Rightarrow> put_at bb j blk) }"

definition list_append :: "u32_list \<Rightarrow> u32 \<Rightarrow> u32_list option" where
  "list_append bb blk = do {
     xs \<leftarrow> wr (bb_list bb) (bb_num bb) blk;
     Some (bb\<lparr>bb_list := xs, bb_num := bb_num bb + 1\<rparr>) }"

definition ext2fs_u32_list_add :: "(nat \<Rightarrow> u32) \<Rightarrow> u32_list \<Rightarrow> u32 \<Rightarrow> (errcode \<times> u32_list) option" where
  "ext2fs_u32_list_add junk bb blk =
     (if bb_magic bb \<noteq> EXT2_ET_MAGIC_BADBLOCKS_LIST then Some (EXT2_ET_MAGIC_BADBLOCKS_LIST, bb)
      else do {
        bb \<leftarrow> grow junk bb;
        if bb_num bb = 0 then map_option (Pair OK) (list_append bb blk)
        else do {
          x \<leftarrow> rd (bb_list bb) (bb_num bb - 1);
          if x = blk then Some (OK, bb)
          else if x < blk then map_option (Pair OK) (list_append bb blk)
          else map_option (Pair OK) (list_insert bb blk) } })"

function find_loop :: "u32 list \<Rightarrow> u32 \<Rightarrow> nat \<Rightarrow> nat \<Rightarrow> int option" where
  "find_loop xs blk low high =
     (if low < high
      then if 2 ^ 31 \<le> low + high then None
           else let mid = (low + high) div 2 in
             if mid = low \<or> mid = high then Some (-1)
             else do {
               x \<leftarrow> rd xs mid;
               if blk = x then Some (int mid)
               else if blk < x then find_loop xs blk low mid
               else find_loop xs blk mid high }
      else Some (-1))"
  by pat_completeness auto
termination by (relation "measure (\<lambda>(xs, blk, low, high). high - low)") auto

declare add_scan.simps [simp del] find_loop.simps [simp del]

definition ext2fs_u32_list_find :: "u32_list \<Rightarrow> u32 \<Rightarrow> int option" where
  "ext2fs_u32_list_find bb blk =
     (if bb_magic bb \<noteq> EXT2_ET_MAGIC_BADBLOCKS_LIST then Some (-1)
      else if bb_num bb = 0 then Some (-1)
      else do {
        x \<leftarrow> rd (bb_list bb) 0;
        if blk = x then Some 0
        else do {
          y \<leftarrow> rd (bb_list bb) (bb_num bb - 1);
          if blk = y then Some (int (bb_num bb - 1))
          else find_loop (bb_list bb) blk 0 (bb_num bb - 1) } })"

definition ext2fs_u32_list_test :: "u32_list \<Rightarrow> u32 \<Rightarrow> bool option" where
  "ext2fs_u32_list_test bb blk = map_option (\<lambda>i. \<not> i < 0) (ext2fs_u32_list_find bb blk)"

definition ext2fs_u32_list_del :: "u32_list \<Rightarrow> u32 \<Rightarrow> (int \<times> u32_list) option" where
  "ext2fs_u32_list_del bb blk =
     (if bb_num bb = 0 then Some (-1, bb)
      else do {
        remloc \<leftarrow> ext2fs_u32_list_find bb blk;
        if remloc < 0 then Some (-1, bb)
        else do {
          xs \<leftarrow> shift_down (bb_list bb) (bb_num bb) (nat remloc);
          Some (0, bb\<lparr>bb_list := xs, bb_num := bb_num bb - 1\<rparr>) } })"

record u32_iterate =
  it_magic :: errcode
  it_ptr :: nat

definition ext2fs_u32_list_iterate_begin :: "malloc \<Rightarrow> u32_list \<Rightarrow> errcode + u32_iterate" where
  \<comment> \<open>The list the iterator points to is an argument of \<open>ext2fs_u32_list_iterate\<close>.\<close>
  "ext2fs_u32_list_iterate_begin mem bb =
     (if bb_magic bb \<noteq> EXT2_ET_MAGIC_BADBLOCKS_LIST then Inl EXT2_ET_MAGIC_BADBLOCKS_LIST
      else if ext2fs_get_mem mem 24 \<noteq> OK then Inl (ext2fs_get_mem mem 24)
      else Inr \<lparr>it_magic = EXT2_ET_MAGIC_BADBLOCKS_ITERATE, it_ptr = 0\<rparr>)"

definition ext2fs_u32_list_iterate ::
    "u32_iterate \<Rightarrow> u32_list \<Rightarrow> u32 \<Rightarrow> (bool \<times> u32 \<times> u32_iterate) option" where
  \<comment> \<open>The argument \<open>blk\<close> is the value of the caller's variable before the call.\<close>
  "ext2fs_u32_list_iterate iter bb blk =
     (if it_magic iter \<noteq> EXT2_ET_MAGIC_BADBLOCKS_ITERATE then Some (False, blk, iter)
      else if bb_magic bb \<noteq> EXT2_ET_MAGIC_BADBLOCKS_LIST then Some (False, blk, iter)
      else if it_ptr iter < bb_num bb then do {
        x \<leftarrow> rd (bb_list bb) (it_ptr iter);
        Some (True, x, iter\<lparr>it_ptr := it_ptr iter + 1\<rparr>) }
      else Some (False, 0, iter))"

datatype equal_result = Magic_error | Equal bool

definition ext2fs_u32_list_equal :: "u32_list \<Rightarrow> u32_list \<Rightarrow> equal_result option" where
  "ext2fs_u32_list_equal bb1 bb2 =
     (if bb_magic bb1 \<noteq> EXT2_ET_MAGIC_BADBLOCKS_LIST \<or> bb_magic bb2 \<noteq> EXT2_ET_MAGIC_BADBLOCKS_LIST
      then Some Magic_error
      else if bb_num bb1 \<noteq> bb_num bb2 then Some (Equal False)
      else if length (bb_list bb1) < bb_num bb1 \<or> length (bb_list bb2) < bb_num bb1 then None
      else Some (Equal (take (bb_num bb1) (bb_list bb1) = take (bb_num bb1) (bb_list bb2))))"

definition ext2fs_u32_list_count :: "u32_list \<Rightarrow> nat" where
  "ext2fs_u32_list_count bb = bb_num bb"

subsection \<open>The invariant and the set\<close>

definition bb_ok :: "u32_list \<Rightarrow> bool" where
  "bb_ok bb \<longleftrightarrow> bb_magic bb = EXT2_ET_MAGIC_BADBLOCKS_LIST \<and> bb_num bb \<le> bb_size bb
     \<and> bb_size bb = length (bb_list bb) \<and> 0 < bb_size bb \<and> ascending (take (bb_num bb) (bb_list bb))"

definition bb_set :: "u32_list \<Rightarrow> u32 set" where
  "bb_set bb = set (take (bb_num bb) (bb_list bb))"

definition bb_room :: "nat \<Rightarrow> u32_list \<Rightarrow> bool" where
  \<comment> \<open>Room for \<open>n\<close> more additions before an index could overflow.\<close>
  "bb_room n bb \<longleftrightarrow> bb_size bb + 100 * n \<le> 2 ^ 30"

lemma in_bb_set: "bb_ok bb \<Longrightarrow> x \<in> bb_set bb \<longleftrightarrow> (\<exists>i < bb_num bb. bb_list bb ! i = x)"
  by (auto simp: bb_ok_def bb_set_def in_set_conv_nth)

lemma bb_nth_less:
  "bb_ok bb \<Longrightarrow> i < j \<Longrightarrow> j < bb_num bb \<Longrightarrow> bb_list bb ! i < bb_list bb ! j"
  using ascending_nth[of "take (bb_num bb) (bb_list bb)" i j] by (simp add: bb_ok_def)

lemma bb_ok_upd:
  "bb_ok bb \<Longrightarrow> length ys = length (bb_list bb) \<Longrightarrow> n \<le> bb_size bb \<Longrightarrow> ascending (take n ys) \<Longrightarrow>
   bb_ok (bb\<lparr>bb_list := ys, bb_num := n\<rparr>)"
  "bb_set (bb\<lparr>bb_list := ys, bb_num := n\<rparr>) = set (take n ys)"
  by (auto simp: bb_ok_def bb_set_def)

lemma create_ok:
  "0 \<le> sz \<Longrightarrow> ext2fs_u32_list_create mem sz = Some (Inr bb) \<Longrightarrow>
   bb_ok bb \<and> bb_set bb = {} \<and> bb_size bb = nat (if sz \<noteq> 0 then sz else 10)"
  by (auto simp: ext2fs_u32_list_create_def make_u32_list_def bb_ok_def bb_set_def Let_def
      ext2fs_get_mem_def split: if_splits)

lemma grow_ok:
  assumes "bb_ok bb" "bb_room (Suc n) bb"
  obtains bb' where "grow junk bb = Some bb'" "bb_ok bb'" "bb_room n bb'" "bb_set bb' = bb_set bb"
    "bb_num bb' = bb_num bb" "bb_num bb' < bb_size bb'"
proof (cases "bb_size bb \<le> bb_num bb")
  case True
  then show ?thesis using assms
    by (intro that[of "bb\<lparr>bb_size := bb_size bb + 100,
        bb_list := ext2fs_resize_mem junk (bb_size bb + 100) (bb_list bb)\<rparr>"])
      (auto simp: grow_def bb_ok_def bb_room_def bb_set_def)
next
  case False
  then show ?thesis using assms that[of bb] by (auto simp: grow_def bb_room_def)
qed

lemma add_scan_result:
  "num \<le> length xs \<Longrightarrow> ascending (take num xs) \<Longrightarrow> i \<le> num \<Longrightarrow> \<forall>k < i. xs ! k < blk \<Longrightarrow>
   (add_scan xs blk num i = Some Present \<and> blk \<in> set (take num xs))
   \<or> (\<exists>j \<le> num. add_scan xs blk num i = Some (Slot j) \<and> (\<forall>k < j. xs ! k < blk)
        \<and> (\<forall>k < num. j \<le> k \<longrightarrow> blk < xs ! k))"
proof (induction xs blk num i rule: add_scan.induct)
  case (1 xs blk num i)
  have asc: "xs ! i < xs ! k" if "i < k" "k < num" for k
    using ascending_nth[OF 1(3) that(1)] that 1(2) by simp
  consider "num \<le> i" | "i < num" "xs ! i = blk" | "i < num" "blk < xs ! i" | "i < num" "xs ! i < blk"
    by (meson linorder_less_linear not_less)
  then show ?case
  proof cases
    case 1
    then have "add_scan xs blk num i = Some (Slot num)" by (simp add: add_scan.simps[of xs blk num i])
    then show ?thesis using 1 "1.prems"(3,4) by auto
  next
    case 2
    then show ?thesis using "1.prems"(1) by (auto simp: add_scan.simps[of xs blk num i] in_set_conv_nth)
  next
    case 3
    have "blk < xs ! k" if "i \<le> k" "k < num" for k
      using asc[of k] 3(2) that by (cases "i = k") auto
    then show ?thesis using 3 "1.prems" by (auto simp: add_scan.simps[of xs blk num i])
  next
    case 4
    have "rd xs i = Some (xs ! i)" using 4 "1.prems" by simp
    moreover have "\<forall>k < i + 1. xs ! k < blk" using 4 "1.prems"(4) by (simp add: less_Suc_eq)
    ultimately show ?thesis
      using 4 "1.IH"[OF 4(1) _ _ _ "1.prems"(1,2)] by (auto simp: add_scan.simps[of xs blk num i])
  qed
qed

lemma put_at_ok:
  assumes "bb_ok bb" "bb_num bb < bb_size bb" "j \<le> bb_num bb" "\<forall>k < j. bb_list bb ! k < blk"
    "\<forall>k < bb_num bb. j \<le> k \<longrightarrow> blk < bb_list bb ! k"
  obtains bb' where "put_at bb j blk = Some bb'" "bb_ok bb'" "bb_set bb' = insert blk (bb_set bb)"
    "bb_size bb' = bb_size bb"
proof -
  let ?n = "bb_num bb" and ?xs = "bb_list bb"
  let ?T = "take ?n ?xs"
  have len: "?n < length ?xs" using assms(1,2) by (simp add: bb_ok_def)
  let ?ys = "take j ?xs @ blk # take (?n - j) (drop j ?xs) @ drop (Suc ?n) ?xs"
  have "shift_up ?xs j ?n = Some (take j ?xs @ ?xs ! j # take (?n - j) (drop j ?xs) @ drop (Suc ?n) ?xs)"
    using shift_up_result[OF assms(3) len] .
  moreover have "wr (take j ?xs @ ?xs ! j # take (?n - j) (drop j ?xs) @ drop (Suc ?n) ?xs) j blk = Some ?ys"
    using assms(3) len by (simp add: wr_def list_update_append min_def)
  ultimately have r: "put_at bb j blk = Some (bb\<lparr>bb_list := ?ys, bb_num := ?n + 1\<rparr>)"
    by (simp add: put_at_def)
  have t: "take (?n + 1) ?ys = take j ?T @ blk # drop j ?T"
    by (rule take_shifted_up[OF assms(3) len])
  have l: "length ?ys = length ?xs" by (rule length_shifted(1)[OF assms(3) len])
  have "ascending (take j ?T @ blk # drop j ?T)"
    using assms(1,3,4,5) len by (intro ascending_insert) (auto simp: bb_ok_def)
  then have "ascending (take (?n + 1) ?ys)" using t by simp
  from bb_ok_upd(1)[OF assms(1) l _ this] have "bb_ok (bb\<lparr>bb_list := ?ys, bb_num := ?n + 1\<rparr>)"
    using assms(2) by simp
  moreover have "bb_set (bb\<lparr>bb_list := ?ys, bb_num := ?n + 1\<rparr>) = insert blk (bb_set bb)"
    unfolding bb_ok_upd(2) t using set_insert_at[of j ?T blk] assms(3) len by (simp add: bb_set_def)
  ultimately show ?thesis using r that[of "bb\<lparr>bb_list := ?ys, bb_num := ?n + 1\<rparr>"] by simp
qed

lemma list_append_put: "bb_num bb < length (bb_list bb) \<Longrightarrow> list_append bb blk = put_at bb (bb_num bb) blk"
  by (simp add: list_append_def put_at_def shift_up.simps)

lemma add_ok:
  assumes "bb_ok bb" "bb_room (Suc n) bb"
  shows "\<exists>bb'. ext2fs_u32_list_add junk bb blk = Some (OK, bb') \<and> bb_ok bb' \<and> bb_room n bb'
    \<and> bb_set bb' = insert blk (bb_set bb)"
proof -
  obtain b where b: "grow junk bb = Some b" "bb_ok b" "bb_room n b" "bb_set b = bb_set bb"
    "bb_num b < bb_size b" using grow_ok[OF assms] by metis
  let ?xs = "bb_list b" and ?n = "bb_num b"
  have len: "?n < length ?xs" and m: "bb_magic bb = EXT2_ET_MAGIC_BADBLOCKS_LIST"
    using assms(1) b(2,5) by (simp_all add: bb_ok_def)
  have add: "ext2fs_u32_list_add junk bb blk =
      (if ?n = 0 then map_option (Pair OK) (put_at b ?n blk)
       else if ?xs ! (?n - 1) = blk then Some (OK, b)
       else if ?xs ! (?n - 1) < blk then map_option (Pair OK) (put_at b ?n blk)
       else map_option (Pair OK) (list_insert b blk))"
    using m b(1) len by (simp add: ext2fs_u32_list_add_def list_append_put[OF len])
  have put: "\<exists>bb'. map_option (Pair OK) (put_at b j blk) = Some (OK, bb') \<and> bb_ok bb' \<and> bb_room n bb'
      \<and> bb_set bb' = insert blk (bb_set bb)"
    if "j \<le> ?n" "\<forall>k < j. ?xs ! k < blk" "\<forall>k < ?n. j \<le> k \<longrightarrow> blk < ?xs ! k" for j
    using put_at_ok[OF b(2,5) that] b(3,4) by (metis bb_room_def option.simps(9))
  show ?thesis
  proof (cases "?n = 0 \<or> ?xs ! (?n - 1) < blk")
    case True
    have "?xs ! k < blk" if "k < ?n" for k
    proof -
      have "k = ?n - 1 \<or> k < ?n - 1 \<and> ?n - 1 < ?n" using that by auto
      moreover have "?xs ! (?n - 1) < blk" using True that by auto
      ultimately show ?thesis using bb_nth_less[OF b(2), of k "?n - 1"] by (auto intro: order_less_trans)
    qed
    moreover have "?xs ! (?n - 1) \<noteq> blk \<or> ?n = 0" using True by auto
    ultimately show ?thesis using put[of ?n] add True by auto
  next
    case False
    show ?thesis
    proof (cases "?xs ! (?n - 1) = blk")
      case True
      then have "blk \<in> bb_set b" using False by (auto simp: in_bb_set[OF b(2)] intro!: exI[of _ "?n - 1"])
      then show ?thesis using True False add b by (auto simp: insert_absorb)
    next
      case ne: False
      have r: "ext2fs_u32_list_add junk bb blk = map_option (Pair OK) (list_insert b blk)"
        using False ne add by simp
      have "?n \<le> length ?xs" "ascending (take ?n ?xs)" using b(2) len by (simp_all add: bb_ok_def)
      then consider (present) "add_scan ?xs blk ?n 0 = Some Present" "blk \<in> set (take ?n ?xs)"
        | (free) j where "j \<le> ?n" "add_scan ?xs blk ?n 0 = Some (Slot j)" "\<forall>k < j. ?xs ! k < blk"
          "\<forall>k < ?n. j \<le> k \<longrightarrow> blk < ?xs ! k"
        using add_scan_result[of ?n ?xs 0 blk] by auto
      then show ?thesis
      proof cases
        case present
        then show ?thesis using r b by (simp add: list_insert_def bb_set_def insert_absorb)
      next
        case free
        then show ?thesis using put[of j] r by (simp add: list_insert_def)
      qed
    qed
  qed
qed

lemma find_loop_result:
  "num \<le> length xs \<Longrightarrow> ascending (take num xs) \<Longrightarrow> high < num \<Longrightarrow> num \<le> 2 ^ 30 \<Longrightarrow>
   \<forall>k < num. k \<le> low \<or> high \<le> k \<longrightarrow> xs ! k \<noteq> blk \<Longrightarrow>
   (\<exists>i < num. find_loop xs blk low high = Some (int i) \<and> xs ! i = blk)
   \<or> (find_loop xs blk low high = Some (-1) \<and> (\<forall>k < num. xs ! k \<noteq> blk))"
proof (induction xs blk low high rule: find_loop.induct)
  case (1 xs blk low high)
  let ?mid = "(low + high) div 2"
  note step = find_loop.simps[of xs blk low high]
  have asc: "xs ! i < xs ! k" if "i < k" "k < num" for i k
    using ascending_nth[OF "1.prems"(2) that(1)] that "1.prems"(1) by simp
  show ?case
  proof (cases "low < high \<and> ?mid \<noteq> low \<and> ?mid \<noteq> high")
    case False
    then have "\<forall>k < num. k \<le> low \<or> high \<le> k" by auto
    then show ?thesis using False "1.prems"(3-5) by (auto simp: step Let_def)
  next
    case True
    then have mid: "low < ?mid" "?mid < high" "\<not> 2 ^ 31 \<le> low + high" using "1.prems"(3,4) by auto
    then have rd: "rd xs ?mid = Some (xs ! ?mid)" using "1.prems"(1,3) by simp
    note IH = "1.IH"[OF _ _ refl _ rd]
    consider "xs ! ?mid = blk" | "blk < xs ! ?mid" | "xs ! ?mid < blk" by (rule linorder_cases)
    then show ?thesis
    proof cases
      case 1
      then show ?thesis using True mid rd "1.prems"(3) by (auto simp: step Let_def intro!: exI[of _ ?mid])
    next
      case 2
      have "xs ! k \<noteq> blk" if "?mid \<le> k" "k < num" for k
        using asc[of ?mid k] 2 that by (cases "k = ?mid") auto
      then have "\<forall>k < num. k \<le> low \<or> ?mid \<le> k \<longrightarrow> xs ! k \<noteq> blk" using "1.prems"(5) by blast
      then show ?thesis using True mid rd 2 IH(1) "1.prems" by (simp add: step Let_def)
    next
      case 3
      have "xs ! k \<noteq> blk" if "k \<le> ?mid" for k
        using asc[of k ?mid] 3 that mid "1.prems"(3) by (cases "k = ?mid") auto
      then have "\<forall>k < num. k \<le> ?mid \<or> high \<le> k \<longrightarrow> xs ! k \<noteq> blk" using "1.prems"(5) by blast
      moreover have "\<not> blk < xs ! ?mid" "blk \<noteq> xs ! ?mid" using 3 by auto
      ultimately show ?thesis using True mid rd IH(2) "1.prems" by (simp add: step Let_def)
    qed
  qed
qed

lemma find_result:
  assumes "bb_ok bb" "bb_room n bb"
  shows "(\<exists>i < bb_num bb. ext2fs_u32_list_find bb blk = Some (int i) \<and> bb_list bb ! i = blk)
    \<or> (ext2fs_u32_list_find bb blk = Some (-1) \<and> blk \<notin> bb_set bb)"
proof (cases "bb_num bb = 0")
  case True
  then show ?thesis using assms by (simp add: ext2fs_u32_list_find_def bb_set_def)
next
  case False
  let ?n = "bb_num bb" and ?xs = "bb_list bb"
  have f: "ext2fs_u32_list_find bb blk = (if blk = ?xs ! 0 then Some 0
      else if blk = ?xs ! (?n - 1) then Some (int (?n - 1)) else find_loop ?xs blk 0 (?n - 1))"
  proof -
    have "0 < length ?xs" "?n - 1 < length ?xs" using assms(1) False by (auto simp: bb_ok_def)
    then have "rd ?xs 0 = Some (?xs ! 0)" "rd ?xs (?n - 1) = Some (?xs ! (?n - 1))" by simp_all
    then show ?thesis using assms(1) False by (simp add: ext2fs_u32_list_find_def bb_ok_def)
  qed
  show ?thesis
  proof (cases "blk = ?xs ! 0 \<or> blk = ?xs ! (?n - 1)")
    case True
    let ?i = "if blk = ?xs ! 0 then 0 else ?n - 1"
    have "ext2fs_u32_list_find bb blk = Some (int ?i)" "?xs ! ?i = blk" "?i < ?n" using f True False by auto
    then show ?thesis by blast
  next
    case ne: False
    then have "\<forall>k < ?n. k \<le> 0 \<or> ?n - 1 \<le> k \<longrightarrow> ?xs ! k \<noteq> blk"
    proof (intro allI impI)
      fix k assume "k < ?n" "k \<le> 0 \<or> ?n - 1 \<le> k"
      then have "k = 0 \<or> k = ?n - 1" by auto
      then show "?xs ! k \<noteq> blk" using ne by auto
    qed
    note ends = this
    have ok: "?n \<le> length ?xs" "ascending (take ?n ?xs)" "?n - 1 < ?n" "?n \<le> 2 ^ 30"
      using assms False by (auto simp: bb_ok_def bb_room_def)
    have e: "ext2fs_u32_list_find bb blk = find_loop ?xs blk 0 (?n - 1)" using f ne by simp
    have m: "blk \<notin> bb_set bb \<longleftrightarrow> (\<forall>k < ?n. ?xs ! k \<noteq> blk)" using in_bb_set[OF assms(1)] by blast
    show ?thesis unfolding e m by (rule find_loop_result[OF ok ends])
  qed
qed

lemma test_ok: "bb_ok bb \<Longrightarrow> bb_room n bb \<Longrightarrow> ext2fs_u32_list_test bb blk = Some (blk \<in> bb_set bb)"
  using find_result[of bb n blk] by (auto simp: ext2fs_u32_list_test_def in_bb_set)

lemma del_ok:
  assumes "bb_ok bb" "bb_room n bb"
  shows "\<exists>bb'. ext2fs_u32_list_del bb blk = Some (if blk \<in> bb_set bb then 0 else -1, bb') \<and> bb_ok bb'
    \<and> bb_size bb' = bb_size bb \<and> bb_set bb' = bb_set bb - {blk}"
proof (cases "blk \<in> bb_set bb")
  case False
  then have "ext2fs_u32_list_find bb blk = Some (-1)"
    using find_result[OF assms] by (auto simp: in_bb_set[OF assms(1)])
  then show ?thesis using False assms by (auto simp: ext2fs_u32_list_del_def)
next
  case True
  let ?n = "bb_num bb" and ?xs = "bb_list bb"
  let ?T = "take ?n ?xs"
  obtain i where i: "i < ?n" "ext2fs_u32_list_find bb blk = Some (int i)" "?xs ! i = blk"
    using find_result[OF assms, of blk] True by auto
  have len: "?n \<le> length ?xs" using assms(1) by (simp add: bb_ok_def)
  let ?ys = "take i ?xs @ take (?n - 1 - i) (drop (Suc i) ?xs) @ drop (?n - 1) ?xs"
  let ?b = "bb\<lparr>bb_list := ?ys, bb_num := ?n - 1\<rparr>"
  have r: "ext2fs_u32_list_del bb blk = Some (0, ?b)"
    using i shift_down_result[OF i(1) len] by (simp add: ext2fs_u32_list_del_def)
  have t: "take (?n - 1) ?ys = take i ?T @ drop (Suc i) ?T"
    by (rule take_shifted_down[OF i(1) len])
  have l: "length ?ys = length ?xs" by (rule length_shifted(2)[OF i(1) len])
  have asc: "ascending ?T" using assms(1) by (simp add: bb_ok_def)
  have "ascending (take (?n - 1) ?ys)" unfolding t by (rule ascending_remove[OF asc])
  moreover have "?n - 1 \<le> bb_size bb" using assms(1) by (auto simp: bb_ok_def)
  ultimately have "bb_ok ?b" by (intro bb_ok_upd(1)[OF assms(1) l])
  moreover have "bb_set ?b = bb_set bb - {blk}"
    unfolding bb_ok_upd(2) t using set_remove_at[OF asc, of i] i len by (simp add: bb_set_def)
  ultimately show ?thesis using r True by auto
qed

subsection \<open>The interface\<close>

definition bb_add :: "(nat \<Rightarrow> u32) \<Rightarrow> u32_list \<Rightarrow> u32 \<Rightarrow> u32_list option" where
  "bb_add junk bb blk = map_option snd (ext2fs_u32_list_add junk bb blk)"

definition bb_del :: "u32_list \<Rightarrow> u32 \<Rightarrow> u32_list option" where
  "bb_del bb blk = map_option snd (ext2fs_u32_list_del bb blk)"

interpretation bb: number_set bb_ok bb_set UNIV bb_room "bb_add junk" bb_del ext2fs_u32_list_test for junk
proof
  fix s n x
  assume a: "bb_ok s" "bb_room (Suc n) s"
  then show "\<exists>s'. bb_add junk s x = Some s' \<and> bb_ok s' \<and> bb_room n s' \<and> bb_set s' = insert x (bb_set s)"
    using add_ok[OF a, of junk x] by (auto simp: bb_add_def)
  have "bb_room n s" using a(2) by (simp add: bb_room_def)
  then show "\<exists>s'. bb_del s x = Some s' \<and> bb_ok s' \<and> bb_room n s' \<and> bb_set s' = bb_set s - {x}"
    using del_ok[OF a(1), of n x] by (auto simp: bb_del_def bb_room_def)
next
  fix s n x
  assume "bb_ok s" "bb_room n s"
  then show "ext2fs_u32_list_test s x = Some (x \<in> bb_set s)" by (rule test_ok)
qed

primrec drain :: "nat \<Rightarrow> u32_iterate \<Rightarrow> u32_list \<Rightarrow> u32 list option" where
  \<comment> \<open>What a client reads from an iterator until it returns 0, in at most the given number of calls.\<close>
  "drain 0 it bb = None"
| "drain (Suc n) it bb = do {
     (more, x, it) \<leftarrow> ext2fs_u32_list_iterate it bb 0;
     if more then map_option (Cons x) (drain n it bb) else Some [] }"

lemma drain_result:
  "bb_ok bb \<Longrightarrow> p \<le> bb_num bb \<Longrightarrow> bb_num bb - p < n \<Longrightarrow>
   drain n \<lparr>it_magic = EXT2_ET_MAGIC_BADBLOCKS_ITERATE, it_ptr = p\<rparr> bb
     = Some (drop p (take (bb_num bb) (bb_list bb)))"
proof (induction n arbitrary: p)
  case (Suc n)
  have len: "bb_num bb \<le> length (bb_list bb)" and m: "bb_magic bb = EXT2_ET_MAGIC_BADBLOCKS_LIST"
    using Suc.prems(1) by (simp_all add: bb_ok_def)
  show ?case
  proof (cases "p < bb_num bb")
    case True
    then have "drop p (take (bb_num bb) (bb_list bb)) = bb_list bb ! p # drop (Suc p) (take (bb_num bb) (bb_list bb))"
      using len by (simp add: Cons_nth_drop_Suc[symmetric])
    then show ?thesis using True len m Suc.IH[of "Suc p"] Suc.prems
      by (simp add: ext2fs_u32_list_iterate_def)
  qed (use m Suc.prems(2) in \<open>simp add: ext2fs_u32_list_iterate_def\<close>)
qed simp

subsection \<open>Properties\<close>

text \<open>C23. A list of bad blocks is a set: after any sequence of additions and removals on a new list,
  whatever size it was created with and whatever \<open>realloc\<close> left in the memory it added,
  \<open>ext2fs_u32_list_test\<close> says of every block whether it is in the set the sequence builds, and no
  access is out of bounds. (The sizes are bounded so that no index overflows an \<open>int\<close>.)\<close>
theorem badblocks_set:
  assumes "ext2fs_u32_list_create mem sz = Some (Inr bb)" "0 \<le> sz" "nat sz + 10 + 100 * length ps \<le> 2 ^ 30"
  shows "Option.bind (run_ops (bb_add junk) bb_del ps bb) (\<lambda>bb. ext2fs_u32_list_test bb x)
    = Some (x \<in> set_after {} ps)"
proof -
  have "bb_ok bb" "bb_set bb = {}" "bb_room (length ps) bb"
    using create_ok[OF assms(2,1)] assms(3) by (auto simp: bb_room_def split: if_splits)
  then show ?thesis using bb.run_test[of bb ps junk x] by simp
qed

theorem badblocks_set_witness:
  "\<exists>bb. ext2fs_u32_list_create (\<lambda>_. True) 1 = Some (Inr bb)
     \<and> Option.bind (run_ops (bb_add (\<lambda>_. 7)) bb_del [Ins 5, Ins 3, Ins 9, Ins 3, Del 5, Del 8] bb)
         (\<lambda>bb. ext2fs_u32_list_test bb 3) = Some True
     \<and> Option.bind (run_ops (bb_add (\<lambda>_. 7)) bb_del [Ins 5, Ins 3, Ins 9, Ins 3, Del 5, Del 8] bb)
         (\<lambda>bb. ext2fs_u32_list_test bb 5) = Some False"
proof -
  obtain bb where c: "ext2fs_u32_list_create (\<lambda>_. True) 1 = Some (Inr bb)"
    by (simp add: ext2fs_u32_list_create_def make_u32_list_def ext2fs_get_mem_def)
  show ?thesis
    using c badblocks_set[OF c, of "[Ins 5, Ins 3, Ins 9, Ins 3, Del 5, Del 8]" "\<lambda>_. 7"]
    by (intro exI[of _ bb]) simp
qed

text \<open>C27. The iterator ends, and visits exactly the blocks of the set, in ascending order: a client that
  calls it until it returns 0 reads the sorted list of the set in as many calls as there are
  blocks, and one more.\<close>
theorem badblocks_iterate:
  assumes "bb_ok bb" "ext2fs_u32_list_iterate_begin mem bb = Inr it" "ext2fs_u32_list_count bb < n"
  shows "drain n it bb = Some (sorted_list_of_set (bb_set bb))"
proof -
  have "it = \<lparr>it_magic = EXT2_ET_MAGIC_BADBLOCKS_ITERATE, it_ptr = 0\<rparr>"
    using assms(2) by (auto simp: ext2fs_u32_list_iterate_begin_def split: if_splits)
  moreover have "sorted_list_of_set (bb_set bb) = take (bb_num bb) (bb_list bb)"
    using assms(1) by (auto simp: bb_ok_def bb_set_def intro!: sorted_list_of_set.idem_if_sorted_distinct
        strict_sorted_imp_sorted dest: strict_sorted_iff[THEN iffD1])
  ultimately show ?thesis
    using drain_result[OF assms(1), of 0 n] assms(3) by (simp add: ext2fs_u32_list_count_def)
qed

theorem badblocks_iterate_witness:
  "drain 3 \<lparr>it_magic = EXT2_ET_MAGIC_BADBLOCKS_ITERATE, it_ptr = 0\<rparr>
     \<lparr>bb_magic = EXT2_ET_MAGIC_BADBLOCKS_LIST, bb_num = 2, bb_size = 3, bb_list = [4, 7, 1], badblocks_flags = 0\<rparr>
   = Some [4, 7]"
  using badblocks_iterate[of "\<lparr>bb_magic = EXT2_ET_MAGIC_BADBLOCKS_LIST, bb_num = 2, bb_size = 3,
      bb_list = [4, 7, 1], badblocks_flags = 0\<rparr>" "\<lambda>_. True"
      "\<lparr>it_magic = EXT2_ET_MAGIC_BADBLOCKS_ITERATE, it_ptr = 0\<rparr>" 3]
  by (simp add: bb_ok_def bb_set_def ext2fs_u32_list_iterate_begin_def ext2fs_get_mem_def
      ext2fs_u32_list_count_def)

end
