(* ===== verification/Ext2_Bitmap.thy ===== *)
theory Ext2_Bitmap
  imports Number_Set
begin

unbundle bit_operations_syntax

text \<open>
  The bitmaps of \<open>ext2fs\<close>: bits in an array of bytes (\<open>bitops.c\<close>), bitmaps of inodes and blocks
  with the range of their numbers (\<open>gen_bitmap.c\<close>, \<open>ext2fs_inline.c\<close>, \<open>bitmaps.c\<close>), their
  comparison (\<open>cmp_bitmaps.c\<close>) and resizing (\<open>rs_bitmap.c\<close>). The wrappers for inodes and
  blocks, which only cast, share the generic operation here. Warnings that are printed are not
  modelled. Loops that may run for ever are partial functions; \<open>None\<close> then covers not returning.
\<close>

subsection \<open>Bits in bytes\<close>

definition ext2fs_set_bit :: "u32 \<Rightarrow> u8 list \<Rightarrow> (u8 \<times> u8 list) option" where
  "ext2fs_set_bit nr ADDR = do {
     let i = unat (drop_bit 3 nr);
     let mask = push_bit (unat (nr AND 7)) 1;
     b \<leftarrow> rd ADDR i;
     ADDR \<leftarrow> wr ADDR i (b OR mask);
     Some (mask AND b, ADDR) }"

definition ext2fs_clear_bit :: "u32 \<Rightarrow> u8 list \<Rightarrow> (u8 \<times> u8 list) option" where
  "ext2fs_clear_bit nr ADDR = do {
     let i = unat (drop_bit 3 nr);
     let mask = push_bit (unat (nr AND 7)) 1;
     b \<leftarrow> rd ADDR i;
     ADDR \<leftarrow> wr ADDR i (b AND NOT mask);
     Some (mask AND b, ADDR) }"

definition ext2fs_test_bit :: "u32 \<Rightarrow> u8 list \<Rightarrow> u8 option" where
  "ext2fs_test_bit nr ADDR = do {
     b \<leftarrow> rd ADDR (unat (drop_bit 3 nr));
     Some (push_bit (unat (nr AND 7)) 1 AND b) }"

subsection \<open>Bitmaps\<close>

record bitmap =
  bm_magic :: errcode
  bm_start :: u32
  bm_end :: u32
  bm_real_end :: u32
  bm_description :: "string option"
  bm_bytes :: "u8 list"
  bm_error :: errcode            \<comment> \<open>\<open>base_error_code\<close>\<close>

definition map_bytes :: "u32 \<Rightarrow> u32 \<Rightarrow> nat" where
  \<comment> \<open>The size of the array.\<close>
  "map_bytes start real_end = unat ((real_end - start) div 8 + 1)"

definition ext2fs_mark_generic_bitmap :: "bitmap \<Rightarrow> u32 \<Rightarrow> (u8 \<times> bitmap) option" where
  "ext2fs_mark_generic_bitmap bm bitno =
     (if bitno < bm_start bm \<or> bm_end bm < bitno then Some (0, bm)
      else do {
        (r, xs) \<leftarrow> ext2fs_set_bit (bitno - bm_start bm) (bm_bytes bm);
        Some (r, bm\<lparr>bm_bytes := xs\<rparr>) })"

definition ext2fs_unmark_generic_bitmap :: "bitmap \<Rightarrow> u32 \<Rightarrow> (u8 \<times> bitmap) option" where
  "ext2fs_unmark_generic_bitmap bm bitno =
     (if bitno < bm_start bm \<or> bm_end bm < bitno then Some (0, bm)
      else do {
        (r, xs) \<leftarrow> ext2fs_clear_bit (bitno - bm_start bm) (bm_bytes bm);
        Some (r, bm\<lparr>bm_bytes := xs\<rparr>) })"

definition ext2fs_test_generic_bitmap :: "bitmap \<Rightarrow> u32 \<Rightarrow> u8 option" where
  "ext2fs_test_generic_bitmap bm bitno =
     (if bitno < bm_start bm \<or> bm_end bm < bitno then Some 0
      else ext2fs_test_bit (bitno - bm_start bm) (bm_bytes bm))"

definition fast_test :: "bitmap \<Rightarrow> u32 \<Rightarrow> u8 option" where
  \<comment> \<open>\<open>ext2fs_fast_test_block_bitmap\<close> and \<open>ext2fs_fast_test_inode_bitmap\<close>.\<close>
  "fast_test bm n = ext2fs_test_bit (n - bm_start bm) (bm_bytes bm)"

fun test_range_loop :: "bitmap \<Rightarrow> u32 \<Rightarrow> nat \<Rightarrow> bool option" where
  \<comment> \<open>The bits from \<open>block\<close> on, as many as the last argument.\<close>
  "test_range_loop bm block 0 = Some True"
| "test_range_loop bm block (Suc n) = do {
     r \<leftarrow> fast_test bm block;
     if r \<noteq> 0 then Some False else test_range_loop bm (block + 1) n }"

definition ext2fs_fast_test_block_bitmap_range :: "bitmap \<Rightarrow> u32 \<Rightarrow> int \<Rightarrow> bool option" where
  "ext2fs_fast_test_block_bitmap_range bm block num = test_range_loop bm block (nat num)"

definition range_outside :: "bitmap \<Rightarrow> u32 \<Rightarrow> int \<Rightarrow> bool" where
  \<comment> \<open>The check of the three range operations, in 32-bit arithmetic as in the code.\<close>
  "range_outside bm block num \<longleftrightarrow> block < bm_start bm \<or> bm_end bm < block + of_int num - 1"

definition ext2fs_test_block_bitmap_range :: "bitmap \<Rightarrow> u32 \<Rightarrow> int \<Rightarrow> bool option" where
  "ext2fs_test_block_bitmap_range bm block num =
     (if range_outside bm block num then Some False else test_range_loop bm block (nat num))"

fun set_range_loop :: "u8 list \<Rightarrow> u32 \<Rightarrow> nat \<Rightarrow> u8 list option" where
  "set_range_loop xs nr 0 = Some xs"
| "set_range_loop xs nr (Suc n) = do { (_, xs) \<leftarrow> ext2fs_set_bit nr xs; set_range_loop xs (nr + 1) n }"

fun clear_range_loop :: "u8 list \<Rightarrow> u32 \<Rightarrow> nat \<Rightarrow> u8 list option" where
  "clear_range_loop xs nr 0 = Some xs"
| "clear_range_loop xs nr (Suc n) = do { (_, xs) \<leftarrow> ext2fs_clear_bit nr xs; clear_range_loop xs (nr + 1) n }"

definition ext2fs_fast_mark_block_bitmap_range :: "bitmap \<Rightarrow> u32 \<Rightarrow> int \<Rightarrow> bitmap option" where
  "ext2fs_fast_mark_block_bitmap_range bm block num = do {
     xs \<leftarrow> set_range_loop (bm_bytes bm) (block - bm_start bm) (nat num);
     Some (bm\<lparr>bm_bytes := xs\<rparr>) }"

definition ext2fs_mark_block_bitmap_range :: "bitmap \<Rightarrow> u32 \<Rightarrow> int \<Rightarrow> bitmap option" where
  "ext2fs_mark_block_bitmap_range bm block num =
     (if range_outside bm block num then Some bm
      else do {
        xs \<leftarrow> set_range_loop (bm_bytes bm) (block - bm_start bm) (nat num);
        Some (bm\<lparr>bm_bytes := xs\<rparr>) })"

definition ext2fs_fast_unmark_block_bitmap_range :: "bitmap \<Rightarrow> u32 \<Rightarrow> int \<Rightarrow> bitmap option" where
  "ext2fs_fast_unmark_block_bitmap_range bm block num = do {
     xs \<leftarrow> clear_range_loop (bm_bytes bm) (block - bm_start bm) (nat num);
     Some (bm\<lparr>bm_bytes := xs\<rparr>) }"

definition ext2fs_unmark_block_bitmap_range :: "bitmap \<Rightarrow> u32 \<Rightarrow> int \<Rightarrow> bitmap option" where
  "ext2fs_unmark_block_bitmap_range bm block num =
     (if range_outside bm block num then Some bm
      else do {
        xs \<leftarrow> clear_range_loop (bm_bytes bm) (block - bm_start bm) (nat num);
        Some (bm\<lparr>bm_bytes := xs\<rparr>) })"

subsection \<open>Making, copying and clearing\<close>

definition make_bitmap ::
    "malloc \<Rightarrow> u32 \<Rightarrow> u32 \<Rightarrow> u32 \<Rightarrow> string option \<Rightarrow> u8 list option \<Rightarrow> (errcode + bitmap) option" where
  "make_bitmap mem start end real_end descr init_map =
     (if ext2fs_get_mem mem 88 \<noteq> OK then Some (Inl (ext2fs_get_mem mem 88))
      else if descr \<noteq> None \<and> ext2fs_get_mem mem (length (the descr) + 1) \<noteq> OK
      then Some (Inl (ext2fs_get_mem mem (length (the descr) + 1)))
      else let bytes = map_bytes start real_end in
        if ext2fs_get_mem mem bytes \<noteq> OK then Some (Inl (ext2fs_get_mem mem bytes))
        else do {
          xs \<leftarrow> (case init_map of
                  None \<Rightarrow> Some (replicate bytes 0)
                | Some xs \<Rightarrow> if bytes \<le> length xs then Some (take bytes xs) else None);
          Some (Inr \<lparr>bm_magic = EXT2_ET_MAGIC_GENERIC_BITMAP, bm_start = start, bm_end = end,
                     bm_real_end = real_end, bm_description = descr, bm_bytes = xs,
                     bm_error = EXT2_ET_BAD_GENERIC_MARK\<rparr>) })"

definition ext2fs_allocate_generic_bitmap ::
    "malloc \<Rightarrow> u32 \<Rightarrow> u32 \<Rightarrow> u32 \<Rightarrow> string option \<Rightarrow> (errcode + bitmap) option" where
  "ext2fs_allocate_generic_bitmap mem start end real_end descr =
     make_bitmap mem start end real_end descr None"

definition ext2fs_copy_bitmap :: "malloc \<Rightarrow> bitmap \<Rightarrow> (errcode + bitmap) option" where
  "ext2fs_copy_bitmap mem src = do {
     r \<leftarrow> make_bitmap mem (bm_start src) (bm_end src) (bm_real_end src) (bm_description src) (Some (bm_bytes src));
     Some (case r of Inl e \<Rightarrow> Inl e
           | Inr new_map \<Rightarrow> Inr (new_map\<lparr>bm_magic := bm_magic src, bm_error := bm_error src\<rparr>)) }"

record ext2_filsys =
  fs_magic :: errcode
  s_inodes_count :: u32
  s_blocks_count :: u32
  s_first_data_block :: u32
  s_inodes_per_group :: u32
  s_blocks_per_group :: u32
  s_first_ino :: u32              \<comment> \<open>\<open>EXT2_FIRST_INODE\<close>\<close>
  group_desc_count :: u32
  inode_map :: "bitmap option"
  block_map :: "bitmap option"

definition ext2fs_allocate_inode_bitmap :: "malloc \<Rightarrow> 'z ext2_filsys_scheme \<Rightarrow> string option \<Rightarrow> (errcode + bitmap) option" where
  "ext2fs_allocate_inode_bitmap mem fs descr =
     (if fs_magic fs \<noteq> EXT2_ET_MAGIC_EXT2FS_FILSYS then Some (Inl EXT2_ET_MAGIC_EXT2FS_FILSYS)
      else do {
        r \<leftarrow> ext2fs_allocate_generic_bitmap mem 1 (s_inodes_count fs)
              (s_inodes_per_group fs * group_desc_count fs) descr;
        Some (case r of Inl e \<Rightarrow> Inl e
              | Inr bm \<Rightarrow> Inr (bm\<lparr>bm_magic := EXT2_ET_MAGIC_INODE_BITMAP, bm_error := EXT2_ET_BAD_INODE_MARK\<rparr>)) })"

definition ext2fs_allocate_block_bitmap :: "malloc \<Rightarrow> 'z ext2_filsys_scheme \<Rightarrow> string option \<Rightarrow> (errcode + bitmap) option" where
  "ext2fs_allocate_block_bitmap mem fs descr =
     (if fs_magic fs \<noteq> EXT2_ET_MAGIC_EXT2FS_FILSYS then Some (Inl EXT2_ET_MAGIC_EXT2FS_FILSYS)
      else do {
        let start = s_first_data_block fs;
        r \<leftarrow> ext2fs_allocate_generic_bitmap mem start (s_blocks_count fs - 1)
              (s_blocks_per_group fs * group_desc_count fs - 1 + start) descr;
        Some (case r of Inl e \<Rightarrow> Inl e
              | Inr bm \<Rightarrow> Inr (bm\<lparr>bm_magic := EXT2_ET_MAGIC_BLOCK_BITMAP, bm_error := EXT2_ET_BAD_BLOCK_MARK\<rparr>)) })"

partial_function (option) padding_loop :: "u32 \<Rightarrow> u32 \<Rightarrow> u32 \<Rightarrow> u8 list \<Rightarrow> u8 list option" where
  "padding_loop real_end i j xs =
     (if i \<le> real_end
      then Option.bind (ext2fs_set_bit j xs) (\<lambda>(_, xs). padding_loop real_end (i + 1) (j + 1) xs)
      else Some xs)"

definition ext2fs_set_bitmap_padding :: "bitmap \<Rightarrow> bitmap option" where
  "ext2fs_set_bitmap_padding bm = do {
     let i = bm_end bm + 1;
     xs \<leftarrow> padding_loop (bm_real_end bm) i (i - bm_start bm) (bm_bytes bm);
     Some (bm\<lparr>bm_bytes := xs\<rparr>) }"

definition ext2fs_fudge_inode_bitmap_end :: "bitmap \<Rightarrow> u32 \<Rightarrow> errcode \<times> u32 option \<times> bitmap" where
  \<comment> \<open>The second component is what is stored in \<open>oend\<close>.\<close>
  "ext2fs_fudge_inode_bitmap_end bm end =
     (if bm_magic bm \<noteq> EXT2_ET_MAGIC_INODE_BITMAP then (EXT2_ET_MAGIC_INODE_BITMAP, None, bm)
      else if bm_real_end bm < end then (EXT2_ET_FUDGE_INODE_BITMAP_END, None, bm)
      else (OK, Some (bm_end bm), bm\<lparr>bm_end := end\<rparr>))"

definition ext2fs_fudge_block_bitmap_end :: "bitmap \<Rightarrow> u32 \<Rightarrow> errcode \<times> u32 option \<times> bitmap" where
  "ext2fs_fudge_block_bitmap_end bm end =
     (if bm_magic bm \<noteq> EXT2_ET_MAGIC_BLOCK_BITMAP then (EXT2_ET_MAGIC_BLOCK_BITMAP, None, bm)
      else if bm_real_end bm < end then (EXT2_ET_FUDGE_BLOCK_BITMAP_END, None, bm)
      else (OK, Some (bm_end bm), bm\<lparr>bm_end := end\<rparr>))"

definition clear_bytes :: "bitmap \<Rightarrow> bitmap option" where
  "clear_bytes bm = (let n = map_bytes (bm_start bm) (bm_real_end bm) in
     if length (bm_bytes bm) < n then None
     else Some (bm\<lparr>bm_bytes := replicate n 0 @ drop n (bm_bytes bm)\<rparr>))"

definition ext2fs_clear_inode_bitmap :: "bitmap \<Rightarrow> bitmap option" where
  "ext2fs_clear_inode_bitmap bm =
     (if bm_magic bm \<noteq> EXT2_ET_MAGIC_INODE_BITMAP then Some bm else clear_bytes bm)"

definition ext2fs_clear_block_bitmap :: "bitmap \<Rightarrow> bitmap option" where
  "ext2fs_clear_block_bitmap bm =
     (if bm_magic bm \<noteq> EXT2_ET_MAGIC_BLOCK_BITMAP then Some bm else clear_bytes bm)"

subsection \<open>Comparing\<close>

partial_function (option) compare_loop :: "bitmap \<Rightarrow> bitmap \<Rightarrow> u32 \<Rightarrow> bool option" where
  "compare_loop bm1 bm2 i =
     (if i \<le> bm_end bm1
      then Option.bind (fast_test bm1 i) (\<lambda>a. Option.bind (fast_test bm2 i) (\<lambda>b.
        if a \<noteq> b then Some False else compare_loop bm1 bm2 (i + 1)))
      else Some True)"

definition compare_bitmaps :: "errcode \<Rightarrow> errcode \<Rightarrow> bitmap \<Rightarrow> bitmap \<Rightarrow> errcode option" where
  \<comment> \<open>The two comparisons differ in the magic number and the error.\<close>
  "compare_bitmaps magic neq bm1 bm2 =
     (if bm_magic bm1 \<noteq> magic \<or> bm_magic bm2 \<noteq> magic then Some magic
      else if bm_start bm1 \<noteq> bm_start bm2 \<or> bm_end bm1 \<noteq> bm_end bm2 then Some neq
      else let n = unat (bm_end bm1 - bm_start bm1) div 8 in
        if length (bm_bytes bm1) < n \<or> length (bm_bytes bm2) < n then None
        else if take n (bm_bytes bm1) \<noteq> take n (bm_bytes bm2) then Some neq
        else do {
          same \<leftarrow> compare_loop bm1 bm2 (bm_end bm1 - (bm_end bm1 - bm_start bm1) mod 8);
          Some (if same then OK else neq) })"

definition ext2fs_compare_block_bitmap :: "bitmap \<Rightarrow> bitmap \<Rightarrow> errcode option" where
  "ext2fs_compare_block_bitmap = compare_bitmaps EXT2_ET_MAGIC_BLOCK_BITMAP EXT2_ET_NEQ_BLOCK_BITMAP"

definition ext2fs_compare_inode_bitmap :: "bitmap \<Rightarrow> bitmap \<Rightarrow> errcode option" where
  "ext2fs_compare_inode_bitmap = compare_bitmaps EXT2_ET_MAGIC_INODE_BITMAP EXT2_ET_NEQ_INODE_BITMAP"

subsection \<open>Resizing\<close>

function clear_down :: "bitmap \<Rightarrow> u32 \<Rightarrow> u8 list \<Rightarrow> u8 list option" where
  \<comment> \<open>\<open>for (; bitno > bmap->end; bitno--)\<close>\<close>
  "clear_down bm bitno xs =
     (if bm_end bm < bitno
      then Option.bind (ext2fs_clear_bit (bitno - bm_start bm) xs) (\<lambda>(_, xs). clear_down bm (bitno - 1) xs)
      else Some xs)"
  by pat_completeness auto
termination
proof (relation "measure (\<lambda>(bm, bitno, xs). unat bitno)")
  fix bm :: bitmap and bitno :: u32 and xs :: "u8 list" and p a b
  assume "bm_end bm < bitno"
  then have "bitno \<noteq> 0" by auto
  then show "((bm, bitno - 1, b), bm, bitno, xs) \<in> measure (\<lambda>(bm, bitno, xs). unat bitno)"
    by (simp add: unat_minus_one unat_gt_0)
qed simp

declare clear_down.simps [simp del]

definition ext2fs_resize_generic_bitmap :: "(nat \<Rightarrow> u8) \<Rightarrow> u32 \<Rightarrow> u32 \<Rightarrow> bitmap \<Rightarrow> (errcode \<times> bitmap) option" where
  "ext2fs_resize_generic_bitmap junk new_end new_real_end bm =
     (if bm_magic bm \<noteq> EXT2_ET_MAGIC_GENERIC_BITMAP then Some (EXT2_ET_MAGIC_GENERIC_BITMAP, bm)
      else do {
        xs \<leftarrow> (if bm_end bm < new_end
               then clear_down bm (min (bm_real_end bm) new_end) (bm_bytes bm)
               else Some (bm_bytes bm));
        if new_real_end = bm_real_end bm
        then Some (OK, bm\<lparr>bm_bytes := xs, bm_end := new_end\<rparr>)
        else do {
          let n = map_bytes (bm_start bm) (bm_real_end bm);
          let new_n = map_bytes (bm_start bm) new_real_end;
          let xs = (if n \<noteq> new_n then ext2fs_resize_mem junk new_n xs else xs);
          let xs = (if n < new_n then take n xs @ replicate (new_n - n) 0 else xs);
          Some (OK, bm\<lparr>bm_bytes := xs, bm_end := new_end, bm_real_end := new_real_end\<rparr>) } })"

definition resize_as :: "errcode \<Rightarrow> (nat \<Rightarrow> u8) \<Rightarrow> u32 \<Rightarrow> u32 \<Rightarrow> bitmap \<Rightarrow> (errcode \<times> bitmap) option" where
  \<comment> \<open>The bodies of the resizing of inode and block bitmaps.\<close>
  "resize_as magic junk new_end new_real_end bm =
     (if bm_magic bm \<noteq> magic then Some (magic, bm)
      else do {
        (e, bm) \<leftarrow> ext2fs_resize_generic_bitmap junk new_end new_real_end
                    (bm\<lparr>bm_magic := EXT2_ET_MAGIC_GENERIC_BITMAP\<rparr>);
        Some (e, bm\<lparr>bm_magic := magic\<rparr>) })"

definition ext2fs_resize_inode_bitmap :: "(nat \<Rightarrow> u8) \<Rightarrow> u32 \<Rightarrow> u32 \<Rightarrow> bitmap \<Rightarrow> (errcode \<times> bitmap) option" where
  "ext2fs_resize_inode_bitmap = resize_as EXT2_ET_MAGIC_INODE_BITMAP"

definition ext2fs_resize_block_bitmap :: "(nat \<Rightarrow> u8) \<Rightarrow> u32 \<Rightarrow> u32 \<Rightarrow> bitmap \<Rightarrow> (errcode \<times> bitmap) option" where
  "ext2fs_resize_block_bitmap = resize_as EXT2_ET_MAGIC_BLOCK_BITMAP"

subsection \<open>The bits of an array\<close>

definition bitget :: "u8 list \<Rightarrow> nat \<Rightarrow> bool" where
  "bitget xs k = bit (xs ! (k div 8)) (k mod 8)"

lemma byte_index: "unat (drop_bit 3 nr) = unat nr div 8" for nr :: u32
  by (simp add: drop_bit_eq_div unat_div)

lemma bit_index: "unat (nr AND 7) = unat nr mod 8" for nr :: u32
proof -
  have "nr AND 7 = take_bit 3 nr" by (simp add: take_bit_eq_mask mask_numeral)
  then show ?thesis by (simp add: take_bit_eq_mod unat_mod)
qed

lemma mask_bit:
  "bit (push_bit m 1 :: u8) j \<longleftrightarrow> j = m \<and> m < 8" "bit (2 ^ m :: u8) j \<longleftrightarrow> j = m \<and> m < 8"
  by (auto simp: bit_simps)

lemma same_bit: "k = n \<longleftrightarrow> k div 8 = n div 8 \<and> k mod 8 = n mod 8" for k n :: nat
  by (metis div_mult_mod_eq)

lemma mask_and:
  fixes b :: u8
  assumes "m < 8"
  shows "(push_bit m 1 AND b = 0) \<longleftrightarrow> \<not> bit b m" "(2 ^ m AND b = 0) \<longleftrightarrow> \<not> bit b m"
proof -
  have m: "bit (push_bit m 1 AND b) m = bit b m"
    using assms by (simp add: bit_and_iff mask_bit del: push_bit_of_1)
  show "(push_bit m 1 AND b = 0) \<longleftrightarrow> \<not> bit b m"
  proof
    assume "\<not> bit b m"
    then show "push_bit m 1 AND b = 0"
      by (intro bit_word_eqI) (auto simp: bit_and_iff mask_bit simp del: push_bit_of_1)
  qed (use m in auto)
  then show "(2 ^ m AND b = 0) \<longleftrightarrow> \<not> bit b m" by simp
qed

lemma mask_and_value: "m < 8 \<Longrightarrow> 2 ^ m AND b = (if bit b m then 2 ^ m else 0)" for b :: u8
  by (rule bit_word_eqI) (auto simp: bit_and_iff mask_bit)

lemma test_bit_value:
  "unat nr div 8 < length xs \<Longrightarrow>
   ext2fs_test_bit nr xs = Some (if bitget xs (unat nr) then 2 ^ (unat nr mod 8) else 0)"
  by (simp add: ext2fs_test_bit_def byte_index bit_index bitget_def mask_and_value)

lemma power_not_0: "m < 8 \<Longrightarrow> (2 :: u8) ^ m \<noteq> 0"
  using mask_bit(2)[of m m] by (metis bit_0_eq bot_apply bot_bool_def)

lemma test_bit_result:
  "unat nr div 8 < length xs \<Longrightarrow> \<exists>r. ext2fs_test_bit nr xs = Some r \<and> (r \<noteq> 0 \<longleftrightarrow> bitget xs (unat nr))"
  using power_not_0[of "unat nr mod 8"] by (simp add: test_bit_value)

lemma set_bit_result:
  assumes "unat nr div 8 < length xs"
  shows "\<exists>r ys. ext2fs_set_bit nr xs = Some (r, ys) \<and> (r \<noteq> 0 \<longleftrightarrow> bitget xs (unat nr))
    \<and> length ys = length xs \<and> (\<forall>k. k div 8 < length xs \<longrightarrow> bitget ys k = (k = unat nr \<or> bitget xs k))"
proof -
  let ?i = "unat nr div 8" and ?m = "unat nr mod 8"
  let ?ys = "xs[?i := xs ! ?i OR push_bit ?m 1]"
  have "ext2fs_set_bit nr xs = Some (push_bit ?m 1 AND xs ! ?i, ?ys)"
    using assms by (simp add: ext2fs_set_bit_def byte_index bit_index Let_def)
  moreover have "push_bit ?m 1 AND xs ! ?i \<noteq> 0 \<longleftrightarrow> bitget xs (unat nr)" by (simp add: mask_and bitget_def)
  moreover have "bitget ?ys k = (k = unat nr \<or> bitget xs k)" if "k div 8 < length xs" for k
  proof (cases "k div 8 = ?i")
    case True
    then have "bitget ?ys k = (bit (xs ! ?i) (k mod 8) \<or> k mod 8 = ?m)"
      using assms by (simp add: bitget_def bit_or_iff mask_bit)
    then show ?thesis using True same_bit[of k "unat nr"] by (auto simp: bitget_def)
  next
    case False
    then show ?thesis using same_bit[of k "unat nr"] by (simp add: bitget_def)
  qed
  ultimately show ?thesis by simp
qed

lemma clear_bit_result:
  assumes "unat nr div 8 < length xs"
  shows "\<exists>r ys. ext2fs_clear_bit nr xs = Some (r, ys) \<and> (r \<noteq> 0 \<longleftrightarrow> bitget xs (unat nr))
    \<and> length ys = length xs \<and> (\<forall>k. k div 8 < length xs \<longrightarrow> bitget ys k = (k \<noteq> unat nr \<and> bitget xs k))"
proof -
  let ?i = "unat nr div 8" and ?m = "unat nr mod 8"
  let ?ys = "xs[?i := xs ! ?i AND NOT (push_bit ?m 1)]"
  have "ext2fs_clear_bit nr xs = Some (push_bit ?m 1 AND xs ! ?i, ?ys)"
    using assms by (simp add: ext2fs_clear_bit_def byte_index bit_index Let_def)
  moreover have "push_bit ?m 1 AND xs ! ?i \<noteq> 0 \<longleftrightarrow> bitget xs (unat nr)" by (simp add: mask_and bitget_def)
  moreover have "bitget ?ys k = (k \<noteq> unat nr \<and> bitget xs k)" if "k div 8 < length xs" for k
  proof (cases "k div 8 = ?i")
    case True
    then have "bitget ?ys k = (bit (xs ! ?i) (k mod 8) \<and> k mod 8 \<noteq> ?m)"
      using assms by (auto simp: bitget_def bit_and_iff bit_not_iff mask_bit)
    then show ?thesis using True same_bit[of k "unat nr"] by (auto simp: bitget_def)
  next
    case False
    then show ?thesis using same_bit[of k "unat nr"] by (auto simp: bitget_def)
  qed
  ultimately show ?thesis by simp
qed

subsection \<open>The set of a bitmap\<close>

definition bm_ok :: "bitmap \<Rightarrow> bool" where
  "bm_ok bm \<longleftrightarrow> bm_start bm \<le> bm_end bm \<and> bm_end bm \<le> bm_real_end bm
     \<and> length (bm_bytes bm) = map_bytes (bm_start bm) (bm_real_end bm)"

definition bm_bit :: "bitmap \<Rightarrow> u32 \<Rightarrow> bool" where
  "bm_bit bm n = bitget (bm_bytes bm) (unat (n - bm_start bm))"

definition bm_set :: "bitmap \<Rightarrow> u32 set" where
  "bm_set bm = {n. bm_start bm \<le> n \<and> n \<le> bm_end bm \<and> bm_bit bm n}"

lemma map_bytes_nat: "map_bytes start real_end = unat (real_end - start) div 8 + 1"
proof -
  have "unat (real_end - start) < 2 ^ LENGTH(32)" by (rule unsigned_less)
  then have "unat (real_end - start) div 8 + 1 < 2 ^ 32" by simp
  then show ?thesis by (simp add: map_bytes_def unat_word_ariths unat_div)
qed

lemma unat_offset: "s \<le> n \<Longrightarrow> unat (n - s) = unat n - unat s" for n s :: u32
  by (rule unat_sub)

lemma offset_in:
  fixes s n e :: u32
  assumes "s \<le> n" "n \<le> e"
  shows "unat (n - s) div 8 < map_bytes s e"
proof -
  have "unat (n - s) \<le> unat (e - s)"
    using assms by (simp add: unat_offset word_le_nat_alt)
  then show ?thesis by (simp add: map_bytes_nat less_Suc_eq_le div_le_mono)
qed

lemma bm_in: "bm_ok bm \<Longrightarrow> bm_start bm \<le> n \<Longrightarrow> n \<le> bm_real_end bm \<Longrightarrow> unat (n - bm_start bm) div 8 < length (bm_bytes bm)"
  by (simp add: bm_ok_def offset_in)

lemma offset_inj: "(n - s = m - s) \<longleftrightarrow> n = m" for n m s :: u32
  by simp

lemma mark_result:
  assumes "bm_ok bm" "bm_start bm \<le> n" "n \<le> bm_end bm"
  obtains r bm' where "ext2fs_mark_generic_bitmap bm n = Some (r, bm')" "r \<noteq> 0 \<longleftrightarrow> n \<in> bm_set bm"
    "bm_ok bm'" "bm_set bm' = insert n (bm_set bm)" "bm_start bm' = bm_start bm" "bm_end bm' = bm_end bm"
    "bm_real_end bm' = bm_real_end bm" "\<forall>k. bm_start bm \<le> k \<and> k \<le> bm_real_end bm \<longrightarrow> bm_bit bm' k = (k = n \<or> bm_bit bm k)"
proof -
  have le: "n \<le> bm_real_end bm" using assms(1,3) by (auto simp: bm_ok_def)
  obtain r ys where r: "ext2fs_set_bit (n - bm_start bm) (bm_bytes bm) = Some (r, ys)"
    "r \<noteq> 0 \<longleftrightarrow> bm_bit bm n" "length ys = length (bm_bytes bm)"
    "\<forall>k. k div 8 < length (bm_bytes bm) \<longrightarrow> bitget ys k = (k = unat (n - bm_start bm) \<or> bitget (bm_bytes bm) k)"
    using set_bit_result[OF bm_in[OF assms(1,2) le]] by (elim exE conjE) (rule that; simp add: bm_bit_def)
  let ?b = "bm\<lparr>bm_bytes := ys\<rparr>"
  have bits: "\<forall>k. bm_start bm \<le> k \<and> k \<le> bm_real_end bm \<longrightarrow> bm_bit ?b k = (k = n \<or> bm_bit bm k)"
    using r(4) bm_in[OF assms(1)] by (simp add: bm_bit_def word_unat_eq_iff[symmetric])
  have "bm_set ?b = insert n (bm_set bm)"
  proof (rule set_eqI)
    fix k
    show "k \<in> bm_set ?b \<longleftrightarrow> k \<in> insert n (bm_set bm)"
    proof (cases "bm_start bm \<le> k \<and> k \<le> bm_end bm")
      case True
      moreover from this have "k \<le> bm_real_end bm" using assms(1) by (auto simp: bm_ok_def)
      ultimately show ?thesis using bits by (simp add: bm_set_def)
    qed (use assms(2,3) in \<open>auto simp: bm_set_def\<close>)
  qed
  moreover have "ext2fs_mark_generic_bitmap bm n = Some (r, ?b)"
    using r(1) assms(2,3) by (auto simp: ext2fs_mark_generic_bitmap_def not_less)
  moreover have "bm_ok ?b" using assms(1) r(3) by (simp add: bm_ok_def)
  moreover have "r \<noteq> 0 \<longleftrightarrow> n \<in> bm_set bm" using r(2) assms(2,3) by (simp add: bm_set_def)
  ultimately show ?thesis using bits by (intro that[of r ?b]) simp_all
qed

lemma unmark_result:
  assumes "bm_ok bm" "bm_start bm \<le> n" "n \<le> bm_end bm"
  obtains r bm' where "ext2fs_unmark_generic_bitmap bm n = Some (r, bm')" "r \<noteq> 0 \<longleftrightarrow> n \<in> bm_set bm"
    "bm_ok bm'" "bm_set bm' = bm_set bm - {n}" "bm_start bm' = bm_start bm" "bm_end bm' = bm_end bm"
    "bm_real_end bm' = bm_real_end bm" "\<forall>k. bm_start bm \<le> k \<and> k \<le> bm_real_end bm \<longrightarrow> bm_bit bm' k = (bm_bit bm k \<and> k \<noteq> n)"
proof -
  have le: "n \<le> bm_real_end bm" using assms(1,3) by (auto simp: bm_ok_def)
  obtain r ys where r: "ext2fs_clear_bit (n - bm_start bm) (bm_bytes bm) = Some (r, ys)"
    "r \<noteq> 0 \<longleftrightarrow> bm_bit bm n" "length ys = length (bm_bytes bm)"
    "\<forall>k. k div 8 < length (bm_bytes bm) \<longrightarrow> bitget ys k = (k \<noteq> unat (n - bm_start bm) \<and> bitget (bm_bytes bm) k)"
    using clear_bit_result[OF bm_in[OF assms(1,2) le]] by (elim exE conjE) (rule that; simp add: bm_bit_def)
  let ?b = "bm\<lparr>bm_bytes := ys\<rparr>"
  have bits: "\<forall>k. bm_start bm \<le> k \<and> k \<le> bm_real_end bm \<longrightarrow> bm_bit ?b k = (bm_bit bm k \<and> k \<noteq> n)"
    using r(4) bm_in[OF assms(1)] by (auto simp: bm_bit_def word_unat_eq_iff[symmetric])
  have "bm_set ?b = bm_set bm - {n}"
  proof (rule set_eqI)
    fix k
    show "k \<in> bm_set ?b \<longleftrightarrow> k \<in> bm_set bm - {n}"
    proof (cases "bm_start bm \<le> k \<and> k \<le> bm_end bm")
      case True
      moreover from this have "k \<le> bm_real_end bm" using assms(1) by (auto simp: bm_ok_def)
      ultimately show ?thesis using bits by (simp add: bm_set_def)
    qed (use assms(2,3) in \<open>auto simp: bm_set_def\<close>)
  qed
  moreover have "ext2fs_unmark_generic_bitmap bm n = Some (r, ?b)"
    using r(1) assms(2,3) by (auto simp: ext2fs_unmark_generic_bitmap_def not_less)
  moreover have "bm_ok ?b" using assms(1) r(3) by (simp add: bm_ok_def)
  moreover have "r \<noteq> 0 \<longleftrightarrow> n \<in> bm_set bm" using r(2) assms(2,3) by (simp add: bm_set_def)
  ultimately show ?thesis using bits by (intro that[of r ?b]) simp_all
qed

lemma test_result:
  assumes "bm_ok bm"
  shows "\<exists>r. ext2fs_test_generic_bitmap bm n = Some r \<and> (r \<noteq> 0 \<longleftrightarrow> n \<in> bm_set bm)"
proof (cases "n < bm_start bm \<or> bm_end bm < n")
  case True
  then show ?thesis by (auto simp: ext2fs_test_generic_bitmap_def bm_set_def)
next
  case False
  then have le: "bm_start bm \<le> n" "n \<le> bm_real_end bm" "n \<le> bm_end bm"
    using assms by (auto simp: bm_ok_def)
  show ?thesis
    using False le test_bit_result[OF bm_in[OF assms le(1,2)]]
    by (auto simp: ext2fs_test_generic_bitmap_def bm_set_def bm_bit_def)
qed

subsection \<open>The interface\<close>

definition bm_mark :: "bitmap \<Rightarrow> u32 \<Rightarrow> bitmap option" where
  "bm_mark bm n = map_option snd (ext2fs_mark_generic_bitmap bm n)"

definition bm_unmark :: "bitmap \<Rightarrow> u32 \<Rightarrow> bitmap option" where
  "bm_unmark bm n = map_option snd (ext2fs_unmark_generic_bitmap bm n)"

definition bm_test :: "bitmap \<Rightarrow> u32 \<Rightarrow> bool option" where
  "bm_test bm n = map_option (\<lambda>r. r \<noteq> 0) (ext2fs_test_generic_bitmap bm n)"

definition bm_over :: "u32 \<Rightarrow> u32 \<Rightarrow> bitmap \<Rightarrow> bool" where
  "bm_over s e bm \<longleftrightarrow> bm_ok bm \<and> bm_start bm = s \<and> bm_end bm = e"

lemma bm_mark_result:
  assumes "bm_over s e bm" "s \<le> n" "n \<le> e"
  shows "\<exists>bm'. bm_mark bm n = Some bm' \<and> bm_over s e bm' \<and> bm_set bm' = insert n (bm_set bm)"
proof -
  have "bm_ok bm" "bm_start bm \<le> n" "n \<le> bm_end bm" using assms by (simp_all add: bm_over_def)
  then obtain r bm' where "ext2fs_mark_generic_bitmap bm n = Some (r, bm')" "bm_ok bm'"
    "bm_set bm' = insert n (bm_set bm)" "bm_start bm' = bm_start bm" "bm_end bm' = bm_end bm"
    by (rule mark_result)
  then show ?thesis using assms(1) by (simp add: bm_mark_def bm_over_def)
qed

lemma bm_unmark_result:
  assumes "bm_over s e bm" "s \<le> n" "n \<le> e"
  shows "\<exists>bm'. bm_unmark bm n = Some bm' \<and> bm_over s e bm' \<and> bm_set bm' = bm_set bm - {n}"
proof -
  have "bm_ok bm" "bm_start bm \<le> n" "n \<le> bm_end bm" using assms by (simp_all add: bm_over_def)
  then obtain r bm' where "ext2fs_unmark_generic_bitmap bm n = Some (r, bm')" "bm_ok bm'"
    "bm_set bm' = bm_set bm - {n}" "bm_start bm' = bm_start bm" "bm_end bm' = bm_end bm"
    by (rule unmark_result)
  then show ?thesis using assms(1) by (simp add: bm_unmark_def bm_over_def)
qed

lemma bm_test_result: "bm_over s e bm \<Longrightarrow> bm_test bm n = Some (n \<in> bm_set bm)"
  using test_result[of bm n] by (auto simp: bm_test_def bm_over_def)

interpretation bm: number_set "bm_over s e" bm_set "{s..e}" "\<lambda>_ _. True" bm_mark bm_unmark bm_test for s e
  by unfold_locales (simp_all add: bm_mark_result bm_unmark_result bm_test_result)

subsection \<open>Ranges\<close>

lemma set_range_result:
  "unat nr + n \<le> 8 * length xs \<Longrightarrow> unat nr + n \<le> 2 ^ 32 \<Longrightarrow>
   \<exists>ys. set_range_loop xs nr n = Some ys \<and> length ys = length xs
     \<and> (\<forall>k < 8 * length xs. bitget ys k = (unat nr \<le> k \<and> k < unat nr + n \<or> bitget xs k))"
proof (induction n arbitrary: nr xs)
  case (Suc n)
  have in1: "unat nr div 8 < length xs" using Suc.prems(1) by auto
  obtain r ys where s: "ext2fs_set_bit nr xs = Some (r, ys)" "length ys = length xs"
    "\<forall>k. k div 8 < length xs \<longrightarrow> bitget ys k = (k = unat nr \<or> bitget xs k)"
    using set_bit_result[OF in1] by (elim exE conjE) (rule that)
  show ?case
  proof (cases "n = 0")
    case True
    then show ?thesis using s by auto
  next
    case False
    then have nx: "unat (nr + 1) = unat nr + 1"
      using Suc.prems(2) by (simp add: unat_word_ariths)
    obtain zs where z: "set_range_loop ys (nr + 1) n = Some zs" "length zs = length ys"
      "\<forall>k < 8 * length ys. bitget zs k = (unat (nr + 1) \<le> k \<and> k < unat (nr + 1) + n \<or> bitget ys k)"
      using Suc.IH[of "nr + 1" ys] Suc.prems s(2) nx by auto
    have "bitget zs k = (unat nr \<le> k \<and> k < unat nr + Suc n \<or> bitget xs k)" if "k < 8 * length xs" for k
      using z(3) s(2,3) nx that by auto
    then show ?thesis using s z by simp
  qed
qed auto

lemma clear_range_result:
  "unat nr + n \<le> 8 * length xs \<Longrightarrow> unat nr + n \<le> 2 ^ 32 \<Longrightarrow>
   \<exists>ys. clear_range_loop xs nr n = Some ys \<and> length ys = length xs
     \<and> (\<forall>k < 8 * length xs. bitget ys k = (\<not> (unat nr \<le> k \<and> k < unat nr + n) \<and> bitget xs k))"
proof (induction n arbitrary: nr xs)
  case (Suc n)
  have in1: "unat nr div 8 < length xs" using Suc.prems(1) by auto
  obtain r ys where s: "ext2fs_clear_bit nr xs = Some (r, ys)" "length ys = length xs"
    "\<forall>k. k div 8 < length xs \<longrightarrow> bitget ys k = (k \<noteq> unat nr \<and> bitget xs k)"
    using clear_bit_result[OF in1] by (elim exE conjE) (rule that)
  show ?case
  proof (cases "n = 0")
    case True
    then show ?thesis using s by auto
  next
    case False
    then have nx: "unat (nr + 1) = unat nr + 1"
      using Suc.prems(2) by (simp add: unat_word_ariths)
    obtain zs where z: "clear_range_loop ys (nr + 1) n = Some zs" "length zs = length ys"
      "\<forall>k < 8 * length ys. bitget zs k = (\<not> (unat (nr + 1) \<le> k \<and> k < unat (nr + 1) + n) \<and> bitget ys k)"
      using Suc.IH[of "nr + 1" ys] Suc.prems s(2) nx by auto
    have "bitget zs k = (\<not> (unat nr \<le> k \<and> k < unat nr + Suc n) \<and> bitget xs k)" if "k < 8 * length xs" for k
      using z(3) s(2,3) nx that by auto
    then show ?thesis using s z by simp
  qed
qed auto

lemma test_range_result:
  assumes "bm_ok bm" "bm_start bm \<le> block" "unat block + n \<le> unat (bm_end bm) + 1"
  shows "test_range_loop bm block n
    = Some (\<forall>x. unat block \<le> unat x \<and> unat x < unat block + n \<longrightarrow> x \<notin> bm_set bm)"
  using assms(2,3)
proof (induction n arbitrary: block)
  case (Suc n)
  have le: "block \<le> bm_end bm" "block \<le> bm_real_end bm"
    using Suc.prems assms(1) by (auto simp: word_le_nat_alt bm_ok_def)
  obtain r where r: "fast_test bm block = Some r" "r \<noteq> 0 \<longleftrightarrow> block \<in> bm_set bm"
    using test_bit_result[OF bm_in[OF assms(1) Suc.prems(1) le(2)]] Suc.prems(1) le(1)
    by (auto simp: fast_test_def bm_set_def bm_bit_def)
  show ?case
  proof (cases "n = 0")
    case True
    then show ?thesis using r by (auto simp: word_unat_eq_iff[symmetric] less_Suc_eq)
  next
    case False
    have lt: "unat (bm_end bm) < 2 ^ LENGTH(32)" by (rule unsigned_less)
    then have nx: "unat (block + 1) = unat block + 1"
      using Suc.prems(2) False by (simp add: unat_word_ariths)
    have IH: "test_range_loop bm (block + 1) n
        = Some (\<forall>x. unat (block + 1) \<le> unat x \<and> unat x < unat (block + 1) + n \<longrightarrow> x \<notin> bm_set bm)"
      using Suc.prems nx by (intro Suc.IH) (auto simp: word_le_nat_alt)
    have "(\<forall>x. unat block \<le> unat x \<and> unat x < unat block + Suc n \<longrightarrow> x \<notin> bm_set bm) \<longleftrightarrow>
        block \<notin> bm_set bm \<and> (\<forall>x. unat (block + 1) \<le> unat x \<and> unat x < unat (block + 1) + n \<longrightarrow> x \<notin> bm_set bm)"
      unfolding nx by (auto simp: word_unat_eq_iff[symmetric]) (metis Suc_leI le_neq_implies_less word_unat_eq_iff)
    then show ?thesis using r IH by auto
  qed
qed auto

subsection \<open>Equal bytes and equal bits\<close>

lemma byte_eq: "a = b \<longleftrightarrow> (\<forall>j < 8. bit a j = bit b j)" for a b :: u8
  by (auto intro: bit_word_eqI)

lemma bytes_eq:
  assumes "n \<le> length xs" "n \<le> length ys"
  shows "take n xs = take n ys \<longleftrightarrow> (\<forall>k < 8 * n. bitget xs k = bitget ys k)"
proof
  assume eq: "take n xs = take n ys"
  show "\<forall>k < 8 * n. bitget xs k = bitget ys k"
  proof (intro allI impI)
    fix k assume "k < 8 * n"
    then have "k div 8 < n" by auto
    then have "xs ! (k div 8) = ys ! (k div 8)" using eq by (metis nth_take)
    then show "bitget xs k = bitget ys k" by (simp add: bitget_def)
  qed
next
  assume bits: "\<forall>k < 8 * n. bitget xs k = bitget ys k"
  show "take n xs = take n ys"
  proof (rule nth_equalityI)
    fix i assume "i < length (take n xs)"
    then have i: "i < n" by simp
    have "xs ! i = ys ! i"
      unfolding byte_eq
    proof (intro allI impI)
      fix j :: nat assume j: "j < 8"
      then have "8 * i + j < 8 * n" using i by linarith
      then have "bitget xs (8 * i + j) = bitget ys (8 * i + j)" using bits by blast
      then show "bit (xs ! i) j = bit (ys ! i) j" using j by (simp add: bitget_def)
    qed
    then show "take n xs ! i = take n ys ! i" using i by simp
  qed (use assms in simp)
qed

subsection \<open>Comparison\<close>

lemma compare_loop_result:
  assumes "bm_ok bm1" "bm_ok bm2" "bm_start bm1 = bm_start bm2" "bm_end bm1 = bm_end bm2"
    and "bm_end bm1 \<noteq> - 1" "bm_start bm1 \<le> i"
  shows "compare_loop bm1 bm2 i = Some (\<forall>k. i \<le> k \<and> k \<le> bm_end bm1 \<longrightarrow> bm_bit bm1 k = bm_bit bm2 k)"
  using assms(6)
proof (induction "unat (bm_end bm1) + 1 - unat i" arbitrary: i rule: less_induct)
  case less
  show ?case
  proof (cases "i \<le> bm_end bm1")
    case False
    then show ?thesis by (auto simp: compare_loop.simps[of bm1 bm2 i])
  next
    case True
    have le: "i \<le> bm_real_end bm1" "i \<le> bm_real_end bm2" "bm_start bm2 \<le> i"
      using True assms(1-4) less.prems by (auto simp: bm_ok_def)
    let ?v = "\<lambda>b :: bool. if b then 2 ^ (unat (i - bm_start bm1) mod 8) else 0 :: u8"
    have t: "fast_test bm1 i = Some (?v (bm_bit bm1 i))" "fast_test bm2 i = Some (?v (bm_bit bm2 i))"
      using test_bit_value[OF bm_in[OF assms(1) less.prems le(1)]] test_bit_value[OF bm_in[OF assms(2) le(3,2)]]
        assms(3) by (simp_all add: fast_test_def bm_bit_def)
    have v: "?v a = ?v b \<longleftrightarrow> a = b" for a b
      using power_not_0[of "unat (i - bm_start bm1) mod 8"] by auto
    have lt: "unat (bm_end bm1) < 2 ^ LENGTH(32)" by (rule unsigned_less)
    have "i \<noteq> - 1" using True assms(5) by (metis word_order.extremum_uniqueI)
    then have nx: "unat (i + 1) = unat i + 1" by (metis add.commute unatSuc plus_1_eq_Suc add_eq_0_iff)
    then have gt: "bm_start bm1 \<le> i + 1" "i < i + 1" using less.prems by (simp_all add: word_le_nat_alt word_less_nat_alt)
    have IH: "compare_loop bm1 bm2 (i + 1)
        = Some (\<forall>k. i + 1 \<le> k \<and> k \<le> bm_end bm1 \<longrightarrow> bm_bit bm1 k = bm_bit bm2 k)"
      using True nx gt(1) by (intro less.hyps) (auto simp: word_le_nat_alt)
    have "i \<le> k \<longleftrightarrow> k = i \<or> i + 1 \<le> k" for k
      using nx by (auto simp: word_le_nat_alt word_unat_eq_iff)
    then have "(\<forall>k. i \<le> k \<and> k \<le> bm_end bm1 \<longrightarrow> bm_bit bm1 k = bm_bit bm2 k) \<longleftrightarrow>
        bm_bit bm1 i = bm_bit bm2 i \<and> (\<forall>k. i + 1 \<le> k \<and> k \<le> bm_end bm1 \<longrightarrow> bm_bit bm1 k = bm_bit bm2 k)"
      using True by auto
    then show ?thesis using True t v IH by (simp add: compare_loop.simps[of bm1 bm2 i])
  qed
qed

lemma compare_result:
  assumes "bm_ok bm1" "bm_ok bm2" "bm_magic bm1 = magic" "bm_magic bm2 = magic" "bm_end bm1 \<noteq> - 1"
  shows "compare_bitmaps magic neq bm1 bm2 = Some (if bm_start bm1 = bm_start bm2
     \<and> bm_end bm1 = bm_end bm2 \<and> bm_set bm1 = bm_set bm2 then OK else neq)"
proof (cases "bm_start bm1 = bm_start bm2 \<and> bm_end bm1 = bm_end bm2")
  case False
  then show ?thesis using assms(3,4) by (auto simp: compare_bitmaps_def)
next
  case True
  let ?s = "bm_start bm1" and ?e = "bm_end bm1"
  let ?n = "unat (?e - ?s) div 8" and ?i = "?e - (?e - ?s) mod 8"
  have le: "?s \<le> ?e" "?e \<le> bm_real_end bm1" "?e \<le> bm_real_end bm2" using assms(1,2) True by (simp_all add: bm_ok_def)
  have "unat (?e - ?s) div 8 < length (bm_bytes bm1)" "unat (?e - ?s) div 8 < length (bm_bytes bm2)"
    using bm_in[OF assms(1) le(1,2)] bm_in[OF assms(2) _ le(3)] le(1) True by simp_all
  then have len: "?n \<le> length (bm_bytes bm1)" "?n \<le> length (bm_bytes bm2)" by simp_all
  have m: "unat ((?e - ?s) mod 8) = unat (?e - ?s) mod 8" by (simp add: unat_mod)
  have ule: "unat ?s \<le> unat ?e" using le(1) by (simp add: word_le_nat_alt)
  have es: "unat (?e - ?s) = unat ?e - unat ?s" by (rule unat_offset[OF le(1)])
  have mle: "(?e - ?s) mod 8 \<le> ?e" using m es by (simp add: word_le_nat_alt)
  have i: "unat ?i = unat ?s + 8 * ?n"
    using unat_offset[OF mle] m es ule by (simp add: minus_mod_eq_mult_div[symmetric])
  have si: "?s \<le> ?i" using i by (simp add: word_le_nat_alt)
  have bits: "take ?n (bm_bytes bm1) = take ?n (bm_bytes bm2)
      \<longleftrightarrow> (\<forall>k. ?s \<le> k \<and> k < ?i \<longrightarrow> bm_bit bm1 k = bm_bit bm2 k)"
    unfolding bytes_eq[OF len]
  proof
    assume a: "\<forall>k < 8 * ?n. bitget (bm_bytes bm1) k = bitget (bm_bytes bm2) k"
    show "\<forall>k. ?s \<le> k \<and> k < ?i \<longrightarrow> bm_bit bm1 k = bm_bit bm2 k"
    proof (intro allI impI)
      fix k assume k: "?s \<le> k \<and> k < ?i"
      then have "unat (k - ?s) < 8 * ?n" using i unat_offset[of ?s k] by (auto simp: word_less_nat_alt word_le_nat_alt)
      then show "bm_bit bm1 k = bm_bit bm2 k" using a True by (simp add: bm_bit_def)
    qed
  next
    assume bits: "\<forall>k. ?s \<le> k \<and> k < ?i \<longrightarrow> bm_bit bm1 k = bm_bit bm2 k"
    show "\<forall>k < 8 * ?n. bitget (bm_bytes bm1) k = bitget (bm_bytes bm2) k"
    proof (intro allI impI)
      fix k assume "k < 8 * ?n"
      note a = bits this
      have "unat ?e < 2 ^ LENGTH(32)" by (rule unsigned_less)
      then have "unat ?s + k < 2 ^ 32" using a(2) es ule by simp
      then have k: "unat (?s + of_nat k) = unat ?s + k" by (simp add: unat_word_ariths unat_of_nat)
      then have "?s \<le> ?s + of_nat k" "?s + of_nat k < ?i" using a(2) i by (simp_all add: word_le_nat_alt word_less_nat_alt)
      then have "bm_bit bm1 (?s + of_nat k) = bm_bit bm2 (?s + of_nat k)" using a(1) by blast
      moreover have "unat (of_nat k :: u32) = k" using \<open>unat ?s + k < 2 ^ 32\<close> by (simp add: unat_of_nat)
      ultimately show "bitget (bm_bytes bm1) k = bitget (bm_bytes bm2) k" using True by (simp add: bm_bit_def)
    qed
  qed
  have "bm_set bm1 = bm_set bm2 \<longleftrightarrow> (\<forall>k. ?s \<le> k \<and> k \<le> ?e \<longrightarrow> bm_bit bm1 k = bm_bit bm2 k)"
    using True by (auto simp: bm_set_def)
  also have "\<dots> \<longleftrightarrow> (\<forall>k. ?s \<le> k \<and> k < ?i \<longrightarrow> bm_bit bm1 k = bm_bit bm2 k)
      \<and> (\<forall>k. ?i \<le> k \<and> k \<le> ?e \<longrightarrow> bm_bit bm1 k = bm_bit bm2 k)"
  proof -
    have "?i \<le> ?e" using i es ule by (simp add: word_le_nat_alt)
    then show ?thesis using si by (meson le_less_linear order_less_imp_le order_trans)
  qed
  finally show ?thesis
    using compare_loop_result[OF assms(1,2) _ _ assms(5) si] True bits len assms(3,4)
    by (auto simp: compare_bitmaps_def Let_def)
qed

subsection \<open>Resizing\<close>

definition tail_clear :: "bitmap \<Rightarrow> bool" where
  \<comment> \<open>The bits of the last byte behind \<open>real_end\<close> are zero, as in every bitmap just made.\<close>
  "tail_clear bm \<longleftrightarrow> (\<forall>k. unat (bm_real_end bm - bm_start bm) < k \<and> k < 8 * length (bm_bytes bm)
     \<longrightarrow> \<not> bitget (bm_bytes bm) k)"

lemma clear_down_result:
  "bm_start bm \<le> bm_end bm \<Longrightarrow> bm_end bm \<le> bitno \<Longrightarrow> unat (bitno - bm_start bm) div 8 < length xs \<Longrightarrow>
   \<exists>ys. clear_down bm bitno xs = Some ys \<and> length ys = length xs
     \<and> (\<forall>k < 8 * length xs. bitget ys k = (bitget xs k
          \<and> \<not> (unat (bm_end bm - bm_start bm) < k \<and> k \<le> unat (bitno - bm_start bm))))"
proof (induction bm bitno xs rule: clear_down.induct)
  case (1 bm bitno xs)
  show ?case
  proof (cases "bm_end bm < bitno")
    case False
    then have "bitno = bm_end bm" using 1(3) by auto
    then show ?thesis by (auto simp: clear_down.simps[of bm "bm_end bm"])
  next
    case True
    obtain r ys where c: "ext2fs_clear_bit (bitno - bm_start bm) xs = Some (r, ys)" "length ys = length xs"
      "\<forall>k. k div 8 < length xs \<longrightarrow> bitget ys k = (k \<noteq> unat (bitno - bm_start bm) \<and> bitget xs k)"
      using clear_bit_result[OF 1(4)] by (elim exE conjE) (rule that)
    have b0: "bitno \<noteq> 0" using True by auto
    have p: "unat (bitno - 1) = unat bitno - 1" using b0 by (simp add: unat_minus_one)
    have le: "bm_end bm \<le> bitno - 1" "bm_start bm \<le> bitno - 1" "bm_start bm \<le> bitno"
      using True p 1(2) by (auto simp: word_le_nat_alt word_less_nat_alt)
    have off: "unat (bitno - 1 - bm_start bm) = unat (bitno - bm_start bm) - 1"
      using unat_offset[OF le(2)] unat_offset[OF le(3)] p by simp
    have pos: "unat (bm_end bm - bm_start bm) < unat (bitno - bm_start bm)"
      using unat_offset[OF 1(2)] unat_offset[OF le(3)] True 1(2) by (auto simp: word_le_nat_alt word_less_nat_alt)
    have "unat (bitno - 1 - bm_start bm) div 8 < length ys"
      using 1(4) c(2) off by (metis diff_le_self div_le_mono le_less_trans)
    then obtain zs where z: "clear_down bm (bitno - 1) ys = Some zs" "length zs = length ys"
      "\<forall>k < 8 * length ys. bitget zs k = (bitget ys k
          \<and> \<not> (unat (bm_end bm - bm_start bm) < k \<and> k \<le> unat (bitno - 1 - bm_start bm)))"
      using 1(1)[OF True c(1) refl 1(2) le(1)] by blast
    have "bitget zs k = (bitget xs k
          \<and> \<not> (unat (bm_end bm - bm_start bm) < k \<and> k \<le> unat (bitno - bm_start bm)))"
      if "k < 8 * length xs" for k
    proof -
      have "k div 8 < length xs" using that by auto
      then show ?thesis using z(3) c(2,3) that off pos by auto
    qed
    then show ?thesis using True c z by (simp add: clear_down.simps[of bm bitno])
  qed
qed

lemma bitget_append: "bitget (xs @ ys) k = (if k < 8 * length xs then bitget xs k else bitget ys (k - 8 * length xs))"
proof (cases "k < 8 * length xs")
  case True
  then have "k div 8 < length xs" by auto
  then show ?thesis using True by (simp add: bitget_def nth_append)
next
  case False
  then have "length xs \<le> k div 8" by auto
  moreover obtain d where "k = d + 8 * length xs" using False by (metis add.commute le_Suc_ex not_less)
  then have "(k - 8 * length xs) div 8 = k div 8 - length xs" "(k - 8 * length xs) mod 8 = k mod 8"
    by simp_all
  ultimately show ?thesis using False by (simp add: bitget_def nth_append)
qed

lemma bitget_zeros: "k < 8 * n \<Longrightarrow> \<not> bitget (replicate n 0) k"
  by (simp add: bitget_def)

lemma map_bytes_mono: "s \<le> e \<Longrightarrow> e \<le> e' \<Longrightarrow> map_bytes s e \<le> map_bytes s e'"
  by (simp add: map_bytes_nat unat_offset word_le_nat_alt div_le_mono)

lemma resize_result:
  assumes "bm_ok bm" "tail_clear bm" "bm_magic bm = EXT2_ET_MAGIC_GENERIC_BITMAP"
    and "bm_end bm \<le> new_end" "new_end \<le> new_real_end" "bm_real_end bm \<le> new_real_end"
  shows "\<exists>bm'. ext2fs_resize_generic_bitmap junk new_end new_real_end bm = Some (OK, bm')
    \<and> bm_ok bm' \<and> tail_clear bm' \<and> bm_start bm' = bm_start bm \<and> bm_end bm' = new_end
    \<and> bm_real_end bm' = new_real_end \<and> bm_set bm' = bm_set bm"
proof -
  let ?s = "bm_start bm" and ?e = "bm_end bm" and ?r = "bm_real_end bm"
  let ?n = "map_bytes ?s ?r" and ?m = "map_bytes ?s new_real_end" and ?b = "min ?r new_end"
  have ok: "?s \<le> ?e" "?e \<le> ?r" "length (bm_bytes bm) = ?n" using assms(1) by (simp_all add: bm_ok_def)
  have nm: "?n \<le> ?m" using map_bytes_mono[of ?s ?r new_real_end] ok assms(6) by auto
  have in_b: "unat (?b - ?s) div 8 < length (bm_bytes bm)"
    using bm_in[OF assms(1), of ?b] ok assms(4) by (auto simp: min_def)
  have sb: "?s \<le> ?b" "?e \<le> ?b" using ok assms(4) by (auto simp: min_def)
  obtain xs where xs: "(if ?e < new_end then clear_down bm ?b (bm_bytes bm) else Some (bm_bytes bm)) = Some xs"
    "length xs = ?n"
    "\<forall>k < 8 * ?n. bitget xs k = (bitget (bm_bytes bm) k \<and> \<not> (unat (?e - ?s) < k \<and> k \<le> unat (?b - ?s)))"
  proof (cases "?e < new_end")
    case True
    then show ?thesis using clear_down_result[OF ok(1) sb(2) in_b] ok(3) that by auto
  next
    case False
    then have "new_end = ?e" using assms(4) by auto
    then show ?thesis using that[of "bm_bytes bm"] ok by (auto simp: min_def)
  qed
  let ?ys = "xs @ replicate (?m - ?n) 0"
  have r: "ext2fs_resize_generic_bitmap junk new_end new_real_end bm
      = Some (OK, bm\<lparr>bm_bytes := ?ys, bm_end := new_end, bm_real_end := new_real_end\<rparr>)"
  proof (cases "new_real_end = ?r")
    case True
    then show ?thesis using xs(1) assms(3) by (simp add: ext2fs_resize_generic_bitmap_def)
  next
    case False
    have "take ?n (ext2fs_resize_mem junk ?m xs) = xs" using nm xs(2) by simp
    then show ?thesis using False xs(1,2) nm assms(3)
      by (cases "?n = ?m") (simp_all add: ext2fs_resize_generic_bitmap_def Let_def)
  qed
  let ?bm = "bm\<lparr>bm_bytes := ?ys, bm_end := new_end, bm_real_end := new_real_end\<rparr>"
  have er: "unat (?e - ?s) \<le> unat (?r - ?s)" using ok by (simp add: unat_offset word_le_nat_alt)
  have bits: "bitget ?ys k \<longleftrightarrow> k \<le> unat (?e - ?s) \<and> bitget (bm_bytes bm) k"
    if "k \<le> unat (new_end - ?s) \<or> unat (?r - ?s) < k" "k < 8 * ?m" for k
  proof (cases "k < 8 * ?n")
    case False
    moreover have "unat (?r - ?s) < 8 * ?n" by (simp add: map_bytes_nat)
    ultimately show ?thesis using er xs(2) that(2) nm bitget_zeros[of "k - 8 * ?n" "?m - ?n"]
      by (auto simp: bitget_append)
  next
    case True
    have "unat (?b - ?s) = min (unat (?r - ?s)) (unat (new_end - ?s))"
      using ok assms(4) by (simp add: unat_offset min_def word_le_nat_alt)
    then show ?thesis using True xs(2,3) that(1) assms(2) ok(3) er
      by (auto simp: bitget_append tail_clear_def)
  qed
  have len: "length ?ys = ?m" using xs(2) nm by simp
  have "bm_ok ?bm" using ok assms len by (simp add: bm_ok_def)
  moreover have "tail_clear ?bm"
  proof -
    have "unat (?r - ?s) \<le> unat (new_real_end - ?s)"
      using ok assms(6) by (simp add: unat_offset word_le_nat_alt)
    moreover have "unat (?e - ?s) \<le> unat (?r - ?s)" by (rule er)
    ultimately show ?thesis using bits len by (auto simp: tail_clear_def simp del: length_append)
  qed
  moreover have "bm_set ?bm = bm_set bm"
  proof (rule set_eqI)
    fix k
    show "k \<in> bm_set ?bm \<longleftrightarrow> k \<in> bm_set bm"
    proof (cases "?s \<le> k \<and> k \<le> new_end")
      case False
      then show ?thesis using assms(4) by (auto simp: bm_set_def)
    next
      case True
      then have "unat (k - ?s) \<le> unat (new_end - ?s)" "unat (k - ?s) div 8 < ?m"
        using offset_in[of ?s k new_real_end] assms(5)
        by (auto simp: unat_offset word_le_nat_alt)
      then have "bm_bit ?bm k \<longleftrightarrow> unat (k - ?s) \<le> unat (?e - ?s) \<and> bm_bit bm k"
        using bits[of "unat (k - ?s)"] by (auto simp: bm_bit_def)
      moreover have "unat (k - ?s) \<le> unat (?e - ?s) \<longleftrightarrow> k \<le> ?e"
        using True ok(1) by (auto simp: unat_offset word_le_nat_alt)
      ultimately show ?thesis using True by (auto simp: bm_set_def)
    qed
  qed
  ultimately show ?thesis using r by simp
qed

subsection \<open>Properties\<close>

lemma make_ok:
  assumes "make_bitmap mem s e r descr None = Some (Inr bm)" "s \<le> e" "e \<le> r"
  shows "bm_over s e bm \<and> bm_set bm = {} \<and> tail_clear bm \<and> bm_real_end bm = r"
proof -
  have bm: "bm = \<lparr>bm_magic = EXT2_ET_MAGIC_GENERIC_BITMAP, bm_start = s, bm_end = e, bm_real_end = r,
      bm_description = descr, bm_bytes = replicate (map_bytes s r) 0, bm_error = EXT2_ET_BAD_GENERIC_MARK\<rparr>"
    using assms(1) by (auto simp: make_bitmap_def Let_def split: if_splits)
  have z: "\<not> bitget (replicate n 0) k" if "k div 8 < n" for n k
    using that by (simp add: bitget_def)
  have "n \<notin> bm_set bm" for n
    using z[of "unat (n - s)" "map_bytes s r"] offset_in[of s n r] assms(3)
    by (auto simp: bm bm_set_def bm_bit_def)
  moreover have "tail_clear bm" using bitget_zeros by (simp add: tail_clear_def bm)
  ultimately show ?thesis using assms(2,3) by (auto simp: bm_over_def bm_ok_def bm)
qed

text \<open>C22. A bitmap is a set of the numbers from \<open>start\<close> to \<open>end\<close>: after any sequence of marks and
  unmarks of such numbers on a new bitmap, the test of any number whatever, in the range or not,
  tells whether it is in the set the sequence builds, and no byte outside the array is touched.\<close>
theorem bitmap_set:
  assumes "ext2fs_allocate_generic_bitmap mem s e r descr = Some (Inr bm)" "s \<le> e" "e \<le> r"
    and "op_number ` set ps \<subseteq> {s..e}"
  shows "Option.bind (run_ops bm_mark bm_unmark ps bm) (\<lambda>bm. bm_test bm x) = Some (x \<in> set_after {} ps)"
proof -
  have "bm_over s e bm" "bm_set bm = {}"
    using make_ok[OF assms(1)[unfolded ext2fs_allocate_generic_bitmap_def] assms(2,3)] by simp_all
  then show ?thesis using bm.run_test[of s e bm ps x] assms(4) by simp
qed

theorem bitmap_set_witness:
  "\<exists>bm. ext2fs_allocate_generic_bitmap (\<lambda>_. True) 1 20 24 None = Some (Inr bm)
     \<and> Option.bind (run_ops bm_mark bm_unmark [Ins 9, Ins 20, Del 9, Ins 1] bm) (\<lambda>bm. bm_test bm 20) = Some True
     \<and> Option.bind (run_ops bm_mark bm_unmark [Ins 9, Ins 20, Del 9, Ins 1] bm) (\<lambda>bm. bm_test bm 9) = Some False"
proof -
  obtain bm where c: "ext2fs_allocate_generic_bitmap (\<lambda>_. True) 1 20 24 None = Some (Inr bm)"
    by (simp add: ext2fs_allocate_generic_bitmap_def make_bitmap_def ext2fs_get_mem_def Let_def)
  show ?thesis
    using c bitmap_set[OF c, of "[Ins 9, Ins 20, Del 9, Ins 1]"] by (intro exI[of _ bm]) simp
qed

definition numbers :: "u32 \<Rightarrow> int \<Rightarrow> u32 set" where
  "numbers block num = {x. unat block \<le> unat x \<and> unat x < unat block + nat num}"

lemma range_inside:
  assumes "bm_start bm \<le> block" "1 \<le> num" "unat block + nat num \<le> unat (bm_end bm) + 1"
  shows "\<not> range_outside bm block num"
proof -
  have "unat (bm_end bm) < 2 ^ LENGTH(32)" by (rule unsigned_less)
  then have lt: "unat block + nat (num - 1) < 2 ^ 32" using assms(2,3) by (simp add: nat_diff_distrib)
  have e: "block + of_int num - 1 = block + of_nat (nat (num - 1))"
    using assms(2) by (simp add: of_nat_nat)
  have "unat (block + of_int num - 1) = unat block + nat (num - 1)"
    unfolding e using lt by (simp add: unat_word_ariths unat_of_nat)
  then have "unat (block + of_int num - 1) \<le> unat (bm_end bm)" using assms(2,3) by (simp add: nat_diff_distrib)
  then show ?thesis using assms(1) by (simp add: range_outside_def not_less word_le_nat_alt)
qed

lemma range_offsets:
  assumes "bm_ok bm" "bm_start bm \<le> block" "unat block + n \<le> unat (bm_end bm) + 1"
  shows "unat (block - bm_start bm) + n \<le> 8 * length (bm_bytes bm)"
    "unat (block - bm_start bm) + n \<le> 2 ^ 32"
proof -
  have ok: "bm_start bm \<le> bm_end bm" "bm_end bm \<le> bm_real_end bm" "bm_start bm \<le> bm_real_end bm"
    "length (bm_bytes bm) = map_bytes (bm_start bm) (bm_real_end bm)"
    using assms(1) by (auto simp: bm_ok_def)
  have o: "unat (block - bm_start bm) = unat block - unat (bm_start bm)"
    "unat (bm_real_end bm - bm_start bm) = unat (bm_real_end bm) - unat (bm_start bm)"
    using assms(2) ok(3) by (simp_all add: unat_offset)
  have lt: "unat (bm_real_end bm) < 2 ^ LENGTH(32)" by (rule unsigned_less)
  have le: "unat (bm_start bm) \<le> unat block" "unat (bm_start bm) \<le> unat (bm_end bm)" "unat (bm_end bm) \<le> unat (bm_real_end bm)"
    using assms(2) ok by (simp_all add: word_le_nat_alt)
  have r: "unat (block - bm_start bm) + n \<le> unat (bm_real_end bm - bm_start bm) + 1"
    using assms(3) o le by linarith
  also have "\<dots> \<le> 8 * length (bm_bytes bm)" by (simp add: ok(4) map_bytes_nat)
  finally show "unat (block - bm_start bm) + n \<le> 8 * length (bm_bytes bm)" .
  show "unat (block - bm_start bm) + n \<le> 2 ^ 32" using r o lt le by simp
qed

lemma range_update:
  assumes "bm_ok bm" "bm_start bm \<le> block" "unat block + n \<le> unat (bm_end bm) + 1" "length ys = length (bm_bytes bm)"
    and "\<forall>k < 8 * length (bm_bytes bm). bitget ys k
      = f (unat (block - bm_start bm) \<le> k \<and> k < unat (block - bm_start bm) + n) (bitget (bm_bytes bm) k)"
  shows "bm_ok (bm\<lparr>bm_bytes := ys\<rparr>)"
    "bm_start bm \<le> x \<and> x \<le> bm_end bm \<Longrightarrow>
      x \<in> bm_set (bm\<lparr>bm_bytes := ys\<rparr>) \<longleftrightarrow> f (unat block \<le> unat x \<and> unat x < unat block + n) (x \<in> bm_set bm)"
proof -
  show "bm_ok (bm\<lparr>bm_bytes := ys\<rparr>)" using assms(1,4) by (simp add: bm_ok_def)
  assume x: "bm_start bm \<le> x \<and> x \<le> bm_end bm"
  then have xr: "x \<le> bm_real_end bm" using assms(1) by (auto simp: bm_ok_def)
  have "unat (x - bm_start bm) div 8 < length (bm_bytes bm)" using bm_in[OF assms(1) _ xr] x by simp
  then have k: "unat (x - bm_start bm) < 8 * length (bm_bytes bm)" by auto
  have "unat (x - bm_start bm) = unat x - unat (bm_start bm)" "unat (block - bm_start bm) = unat block - unat (bm_start bm)"
    "unat (bm_start bm) \<le> unat x" "unat (bm_start bm) \<le> unat block"
    using x assms(2) by (simp_all add: unat_offset word_le_nat_alt)
  then have "(unat (block - bm_start bm) \<le> unat (x - bm_start bm)
      \<and> unat (x - bm_start bm) < unat (block - bm_start bm) + n) \<longleftrightarrow> (unat block \<le> unat x \<and> unat x < unat block + n)"
    by linarith
  then show "x \<in> bm_set (bm\<lparr>bm_bytes := ys\<rparr>) \<longleftrightarrow> f (unat block \<le> unat x \<and> unat x < unat block + n) (x \<in> bm_set bm)"
    using assms(5) k x by (simp add: bm_set_def bm_bit_def)
qed

lemma numbers_in:
  assumes "bm_start bm \<le> block" "unat block + nat num \<le> unat (bm_end bm) + 1" "x \<in> numbers block num"
  shows "bm_start bm \<le> x \<and> x \<le> bm_end bm"
  using assms by (auto simp: numbers_def word_le_nat_alt)

text \<open>C26. The operations on ranges of blocks do what their loops over single blocks mean: for a range
  inside the bitmap, marking adds and unmarking removes exactly its blocks, and the test answers
  whether all of them are free.\<close>
theorem bitmap_ranges:
  assumes "bm_ok bm" "bm_start bm \<le> block" "1 \<le> num" "unat block + nat num \<le> unat (bm_end bm) + 1"
  shows "(\<exists>bm'. ext2fs_mark_block_bitmap_range bm block num = Some bm' \<and> bm_ok bm'
       \<and> bm_set bm' = bm_set bm \<union> numbers block num)
   \<and> (\<exists>bm'. ext2fs_unmark_block_bitmap_range bm block num = Some bm' \<and> bm_ok bm'
       \<and> bm_set bm' = bm_set bm - numbers block num)
   \<and> ext2fs_test_block_bitmap_range bm block num = Some (bm_set bm \<inter> numbers block num = {})"
proof (intro conjI)
  have ins: "\<not> range_outside bm block num" by (rule range_inside[OF assms(2-4)])
  note off = range_offsets[OF assms(1,2,4)]
  have out: "x \<in> numbers block num \<Longrightarrow> bm_start bm \<le> x \<and> x \<le> bm_end bm" for x
    by (rule numbers_in[OF assms(2,4)])
  obtain ys where y: "set_range_loop (bm_bytes bm) (block - bm_start bm) (nat num) = Some ys"
    "length ys = length (bm_bytes bm)"
    "\<forall>k < 8 * length (bm_bytes bm). bitget ys k = (unat (block - bm_start bm) \<le> k
        \<and> k < unat (block - bm_start bm) + nat num \<or> bitget (bm_bytes bm) k)"
    using set_range_result[OF off] by blast
  note u = range_update[OF assms(1,2,4) y(2), of "(\<or>)", OF y(3)]
  have "bm_set (bm\<lparr>bm_bytes := ys\<rparr>) = bm_set bm \<union> numbers block num"
  proof (rule set_eqI)
    fix x
    show "x \<in> bm_set (bm\<lparr>bm_bytes := ys\<rparr>) \<longleftrightarrow> x \<in> bm_set bm \<union> numbers block num"
      using u(2)[of x] out[of x] by (cases "bm_start bm \<le> x \<and> x \<le> bm_end bm") (auto simp: numbers_def bm_set_def)
  qed
  then show "\<exists>bm'. ext2fs_mark_block_bitmap_range bm block num = Some bm' \<and> bm_ok bm'
       \<and> bm_set bm' = bm_set bm \<union> numbers block num"
    using ins y(1) u(1) by (simp add: ext2fs_mark_block_bitmap_range_def)
  obtain zs where z: "clear_range_loop (bm_bytes bm) (block - bm_start bm) (nat num) = Some zs"
    "length zs = length (bm_bytes bm)"
    "\<forall>k < 8 * length (bm_bytes bm). bitget zs k = (\<not> (unat (block - bm_start bm) \<le> k
        \<and> k < unat (block - bm_start bm) + nat num) \<and> bitget (bm_bytes bm) k)"
    using clear_range_result[OF off] by blast
  note v = range_update[OF assms(1,2,4) z(2), of "\<lambda>a b. \<not> a \<and> b", OF z(3)]
  have "bm_set (bm\<lparr>bm_bytes := zs\<rparr>) = bm_set bm - numbers block num"
  proof (rule set_eqI)
    fix x
    show "x \<in> bm_set (bm\<lparr>bm_bytes := zs\<rparr>) \<longleftrightarrow> x \<in> bm_set bm - numbers block num"
      using v(2)[of x] by (cases "bm_start bm \<le> x \<and> x \<le> bm_end bm") (auto simp: numbers_def bm_set_def)
  qed
  then show "\<exists>bm'. ext2fs_unmark_block_bitmap_range bm block num = Some bm' \<and> bm_ok bm'
       \<and> bm_set bm' = bm_set bm - numbers block num"
    using ins z(1) v(1) by (simp add: ext2fs_unmark_block_bitmap_range_def)
  show "ext2fs_test_block_bitmap_range bm block num = Some (bm_set bm \<inter> numbers block num = {})"
    using ins test_range_result[OF assms(1,2,4)]
    by (auto simp: ext2fs_test_block_bitmap_range_def numbers_def)
qed

definition small_map :: bitmap where
  \<comment> \<open>A bitmap of 8 numbers, of which 5 is marked.\<close>
  "small_map = \<lparr>bm_magic = EXT2_ET_MAGIC_GENERIC_BITMAP, bm_start = 0, bm_end = 7, bm_real_end = 7,
     bm_description = None, bm_bytes = [32], bm_error = EXT2_ET_BAD_GENERIC_MARK\<rparr>"

theorem bitmap_ranges_witness:
  "ext2fs_test_block_bitmap_range small_map 1 4 = Some (bm_set small_map \<inter> numbers 1 4 = {})"
  using bitmap_ranges[of small_map 1 4]
  by (simp add: small_map_def bm_ok_def map_bytes_def)

text \<open>The comparison of bitmaps, which compares whole bytes and then single bits, answers that two
  bitmaps are equal exactly when they are the same set over the same range. (With \<open>end\<close> at the
  greatest 32-bit number its loop would not end.)\<close>
theorem bitmap_compare:
  assumes "bm_ok bm1" "bm_ok bm2" "bm_end bm1 \<noteq> - 1"
    and "bm_magic bm1 = EXT2_ET_MAGIC_BLOCK_BITMAP" "bm_magic bm2 = EXT2_ET_MAGIC_BLOCK_BITMAP"
  shows "ext2fs_compare_block_bitmap bm1 bm2 = Some (if bm_start bm1 = bm_start bm2
    \<and> bm_end bm1 = bm_end bm2 \<and> bm_set bm1 = bm_set bm2 then OK else EXT2_ET_NEQ_BLOCK_BITMAP)"
  unfolding ext2fs_compare_block_bitmap_def by (rule compare_result[OF assms(1,2,4,5,3)])

theorem bitmap_compare_witness:
  "ext2fs_compare_block_bitmap (small_map\<lparr>bm_magic := EXT2_ET_MAGIC_BLOCK_BITMAP\<rparr>)
     (small_map\<lparr>bm_magic := EXT2_ET_MAGIC_BLOCK_BITMAP\<rparr>) = Some OK"
  using bitmap_compare[of "small_map\<lparr>bm_magic := EXT2_ET_MAGIC_BLOCK_BITMAP\<rparr>"
      "small_map\<lparr>bm_magic := EXT2_ET_MAGIC_BLOCK_BITMAP\<rparr>"]
  by (simp add: small_map_def bm_ok_def map_bytes_def)



text \<open>Shrinking and extending again brings numbers back from the dead: in a bitmap of the numbers
  0 to 7 with 5 marked, shrunk to 0 to 3 and extended to 0 to 7, the new number 5 is marked, although
  the code sets out to make the new part zero. Bits behind \<open>real_end\<close> in the last byte are never
  cleared.\<close>
theorem bitmap_resize_stale:
  "Option.bind (ext2fs_resize_generic_bitmap junk 3 3 small_map)
     (\<lambda>(_, bm). Option.bind (ext2fs_resize_generic_bitmap junk 7 7 bm) (\<lambda>(_, bm). bm_test bm 5)) = Some True
   \<and> Option.bind (ext2fs_resize_generic_bitmap junk 3 3 small_map) (\<lambda>(_, bm). bm_test bm 5) = Some False"
  by (simp add: small_map_def ext2fs_resize_generic_bitmap_def clear_down.simps map_bytes_def Let_def
      bm_test_def ext2fs_test_generic_bitmap_def ext2fs_test_bit_def)

lemma mark_range_wraps:
  \<comment> \<open>The check of the range operations wraps around: the end of the range is taken modulo \<open>2 ^ 32\<close>.\<close>
  "ext2fs_mark_block_bitmap_range (small_map\<lparr>bm_start := - 16, bm_end := - 9, bm_real_end := - 9\<rparr>) (- 12) 100 = None"
proof -
  have "set_range_loop [32] 4 (Suc (Suc (Suc (Suc (Suc n))))) = None" for n
    by (simp add: ext2fs_set_bit_def rd_def wr_def Let_def)
  from this[of 95] have "set_range_loop [32] 4 100 = None" by simp
  then show ?thesis by (simp add: small_map_def ext2fs_mark_block_bitmap_range_def range_outside_def)
qed

end
