(* ===== verification/Float_Single.thy ===== *)
theory Float_Single
  imports Complex_Main "HOL-Library.Log_Nat"
begin

text \<open>
  Single-precision floating point (\<open>float\<close>) for positive numbers in the normal range: a value is a
  rational number, and every operation rounds the exact result to 24 significant bits, to nearest
  with ties to even. This is what a C compiler does where \<open>float\<close> expressions are evaluated in
  \<open>float\<close> (\<open>FLT_EVAL_METHOD\<close> 0).
\<close>

definition expo :: "rat \<Rightarrow> int" where
  \<comment> \<open>The exponent of the leading bit of a positive number.\<close>
  "expo x = (let (n, d) = quotient_of x; e = bitlen n - bitlen d in
     if 2 powi e \<le> x then e else e - 1)"

definition round_even :: "rat \<Rightarrow> int" where
  "round_even x = (let f = \<lfloor>x\<rfloor>; r = x - of_int f in
     if r < 1 / 2 then f else if 1 / 2 < r then f + 1 else if even f then f else f + 1)"

definition rnd24 :: "rat \<Rightarrow> rat" where
  "rnd24 x = (if x \<le> 0 then 0
     else of_int (round_even (x / 2 powi (expo x - 23))) * 2 powi (expo x - 23))"

subsection \<open>The exponent\<close>

lemma bitlen_powi:
  assumes "0 < n"
  shows "2 powi (bitlen n - 1) \<le> (of_int n :: rat)" "(of_int n :: rat) < 2 powi (bitlen n)"
proof -
  have b: "1 \<le> bitlen n" using assms bitlen_eq_zero_iff[of n] bitlen_nonneg[of n] by linarith
  have "(2 :: int) ^ nat (bitlen n - 1) \<le> n" "n < 2 ^ nat (bitlen n)" using bitlen_bounds[OF assms] by simp_all
  then have "of_int (2 ^ nat (bitlen n - 1)) \<le> (of_int n :: rat)" "(of_int n :: rat) < of_int (2 ^ nat (bitlen n))"
    by (simp_all only: of_int_le_iff of_int_less_iff)
  then show "2 powi (bitlen n - 1) \<le> (of_int n :: rat)" "(of_int n :: rat) < 2 powi (bitlen n)"
    using b by (simp_all add: power_int_def)
qed

lemma powi_less: "(2 :: rat) powi a < 2 powi b \<longleftrightarrow> a < b" "(2 :: rat) powi a \<le> 2 powi b \<longleftrightarrow> a \<le> b"
proof -
  show l: "(2 :: rat) powi a < 2 powi b \<longleftrightarrow> a < b" for a b
    using power_int_strict_increasing[of a b "2 :: rat"] power_int_increasing[of b a "2 :: rat"] by force
  show "(2 :: rat) powi a \<le> 2 powi b \<longleftrightarrow> a \<le> b" using l[of b a] by (simp add: not_less[symmetric])
qed

lemma expo_bounds:
  assumes "0 < x"
  shows "2 powi expo x \<le> x" "x < 2 powi (expo x + 1)"
proof -
  obtain n d where q: "quotient_of x = (n, d)" by (cases "quotient_of x")
  have d: "0 < d" using quotient_of_denom_pos[OF q] .
  have x: "x = of_int n / of_int d" using quotient_of_div[OF q] .
  have n: "0 < n" using assms d by (simp add: x zero_less_divide_iff)
  let ?e = "bitlen n - bitlen d"
  have pos: "(0 :: rat) < of_int d" "(0 :: rat) < 2 powi (bitlen d - 1)" "(0 :: rat) < 2 powi bitlen d"
    using d by simp_all
  have "x < 2 powi (bitlen n) / 2 powi (bitlen d - 1)"
    unfolding x using bitlen_powi[OF n] bitlen_powi[OF d] pos n
    by (intro frac_less) simp_all
  also have "\<dots> = 2 powi (?e + 1)" by (simp add: power_int_diff power_int_add)
  finally have up: "x < 2 powi (?e + 1)" .
  have "2 powi (bitlen n - 1) / 2 powi (bitlen d) \<le> x"
    unfolding x using bitlen_powi[OF n] bitlen_powi[OF d] pos n d
    by (intro frac_le) simp_all
  moreover have "2 powi (bitlen n - 1) / 2 powi (bitlen d) = (2 powi (?e - 1) :: rat)"
    by (simp add: power_int_diff)
  ultimately have low: "2 powi (?e - 1) \<le> x" by simp
  show "2 powi expo x \<le> x" "x < 2 powi (expo x + 1)"
    using up low by (auto simp: expo_def q Let_def)
qed

lemma expo_mono: "0 < x \<Longrightarrow> x \<le> y \<Longrightarrow> expo x \<le> expo y"
proof -
  assume a: "0 < x" "x \<le> y"
  have "2 powi expo x \<le> x" by (rule expo_bounds(1)[OF a(1)])
  also have "x \<le> y" by (rule a(2))
  also have "y < 2 powi (expo y + 1)" using a by (intro expo_bounds(2)) simp
  finally show ?thesis by (simp add: powi_less)
qed

subsection \<open>Rounding\<close>

lemma round_even_int [simp]: "round_even (of_int n) = n"
  by (simp add: round_even_def)

lemma round_even_near: "\<lfloor>x\<rfloor> \<le> round_even x" "round_even x \<le> \<lfloor>x\<rfloor> + 1"
  by (auto simp: round_even_def Let_def)

lemma round_even_mono: "x \<le> y \<Longrightarrow> round_even x \<le> round_even y"
proof -
  assume le: "x \<le> y"
  then have f: "\<lfloor>x\<rfloor> \<le> \<lfloor>y\<rfloor>" by (rule floor_mono)
  show ?thesis
  proof (cases "\<lfloor>x\<rfloor> = \<lfloor>y\<rfloor>")
    case True
    then show ?thesis using le by (auto simp: round_even_def Let_def)
  next
    case False
    then show ?thesis using f round_even_near[of x] round_even_near[of y] by linarith
  qed
qed

lemma rnd24_0 [simp]: "rnd24 0 = 0" by (simp add: rnd24_def)

lemma rnd24_exact: "0 < x \<Longrightarrow> x / 2 powi (expo x - 23) = of_int n \<Longrightarrow> rnd24 x = x"
proof -
  assume a: "0 < x" "x / 2 powi (expo x - 23) = of_int n"
  then have "rnd24 x = of_int n * 2 powi (expo x - 23)" by (simp add: rnd24_def)
  also have "\<dots> = x" unfolding a(2)[symmetric] by simp
  finally show "rnd24 x = x" .
qed

lemma rnd24_range:
  assumes "0 < x"
  shows "2 powi expo x \<le> rnd24 x" "rnd24 x \<le> 2 powi (expo x + 1)"
proof -
  let ?u = "2 powi (expo x - 23) :: rat"
  have u: "0 < ?u" by simp
  have s: "(2 :: rat) powi expo x = of_int (2 ^ 23) * ?u" "(2 :: rat) powi (expo x + 1) = of_int (2 ^ 24) * ?u"
    by (simp_all add: power_int_diff power_int_add)
  have "of_int (2 ^ 23) \<le> x / ?u" "x / ?u \<le> of_int (2 ^ 24)"
    using expo_bounds[OF assms] u unfolding s by (simp_all add: pos_le_divide_eq pos_divide_le_eq del: of_int_power)
  then have "2 ^ 23 \<le> round_even (x / ?u)" "round_even (x / ?u) \<le> 2 ^ 24"
    using round_even_mono[of "of_int (2 ^ 23)" "x / ?u"] round_even_mono[of "x / ?u" "of_int (2 ^ 24)"]
    by (simp_all only: round_even_int)
  then have "of_int (2 ^ 23) \<le> (of_int (round_even (x / ?u)) :: rat)" "of_int (round_even (x / ?u)) \<le> (of_int (2 ^ 24) :: rat)"
    by (simp_all only: of_int_le_iff)
  then show "2 powi expo x \<le> rnd24 x" "rnd24 x \<le> 2 powi (expo x + 1)"
    using assms u unfolding s rnd24_def by (simp_all del: of_int_power)
qed

lemma rnd24_mono:
  assumes "x \<le> y"
  shows "rnd24 x \<le> rnd24 y"
proof -
  have nonneg: "0 \<le> rnd24 z" for z
    using rnd24_range(1)[of z] by (cases "0 < z") (auto simp: rnd24_def[of z] intro: order_trans[rotated])
  show ?thesis
  proof (cases "0 < x")
    case False
    then have "rnd24 x = 0" by (simp add: rnd24_def)
    then show ?thesis using nonneg by simp
  next
    case True
    then have y: "0 < y" using assms by simp
    show ?thesis
    proof (cases "expo x = expo y")
      case True
      then show ?thesis using \<open>0 < x\<close> y assms
        by (auto simp: rnd24_def intro!: mult_right_mono round_even_mono divide_right_mono)
    next
      case False
      then have "expo x + 1 \<le> expo y" using expo_mono[OF \<open>0 < x\<close> assms] by simp
      then have "(2 :: rat) powi (expo x + 1) \<le> 2 powi expo y" by (simp add: powi_less)
      then show ?thesis using rnd24_range(2)[OF \<open>0 < x\<close>] rnd24_range(1)[OF y] by simp
    qed
  qed
qed

lemma rnd24_nonneg: "0 \<le> rnd24 x"
  using rnd24_mono[of 0 x] by (cases "0 \<le> x") (simp_all add: rnd24_def)

lemma rnd24_double: "0 < x \<Longrightarrow> rnd24 x \<le> 2 * x"
proof -
  assume x: "0 < x"
  have "rnd24 x \<le> 2 powi (expo x + 1)" by (rule rnd24_range(2)[OF x])
  also have "\<dots> = 2 * 2 powi expo x" by (simp add: power_int_add)
  also have "\<dots> \<le> 2 * x" using expo_bounds(1)[OF x] by simp
  finally show ?thesis .
qed

lemma rnd24_int:
  assumes "n \<le> 2 ^ 24"
  shows "rnd24 (of_nat n) = of_nat n"
proof (cases "n = 0")
  case False
  then have pos: "(0 :: rat) < of_nat n" by simp
  have "(of_nat n :: rat) \<le> of_nat (2 ^ 24)" using assms by (simp only: of_nat_le_iff)
  then have "(2 :: rat) powi expo (of_nat n) \<le> 2 powi 24" using expo_bounds(1)[OF pos] by (simp add: order_trans)
  then have e: "expo (of_nat n) \<le> 24" by (simp only: powi_less)
  show ?thesis
  proof (cases "expo (of_nat n) = 24")
    case True
    then have "(2 :: rat) powi 24 \<le> of_nat n" using expo_bounds(1)[OF pos] by simp
    then have "of_nat (2 ^ 24) \<le> (of_nat n :: rat)" by simp
    then have n: "n = 2 ^ 24" using assms by (simp only: of_nat_le_iff)
    show ?thesis by (rule rnd24_exact[OF pos, of "2 ^ 23"]) (simp only: True, simp add: n)
  next
    case False
    let ?k = "nat (23 - expo (of_nat n))"
    have "(2 :: rat) powi (expo (of_nat n) - 23) = inverse (2 ^ ?k)"
      using e False by (simp add: power_int_def nat_diff_distrib power_divide inverse_eq_divide)
    then show ?thesis by (intro rnd24_exact[OF pos, of "int n * 2 ^ ?k"]) (simp only: divide_inverse inverse_inverse_eq, simp)
  qed
qed simp

end
