(* ===== verification/Ext2_Icount.thy ===== *)
theory Ext2_Icount
  imports Ext2_Bitmap Float_Single
begin

text \<open>
  The table of inode counts (\<open>ext2fs/icount.c\<close>): counts of one in a bitmap, greater ones in a sorted
  array searched by interpolation in \<open>float\<close> arithmetic, and an optional bitmap of the inodes in
  the array. The operations are proved to be those of a table from inodes to 16-bit counts.

  A pointer to an element of the array is its index. The fields of the structure are 32-bit words;
  \<open>low\<close>, \<open>high\<close>, \<open>mid\<close> and \<open>pos\<close>, \<open>int\<close> in the code, are integers.
\<close>

type_synonym icount_el = "u32 \<times> u16"     \<comment> \<open>\<open>ino\<close> and \<open>count\<close>\<close>

record icount =
  ic_magic :: errcode
  single :: bitmap
  multiple :: "bitmap option"
  ic_count :: u32
  ic_size :: u32
  num_inodes :: u32
  cursor :: u32
  ic_list :: "icount_el list"

subsection \<open>Creation\<close>

fun sum_dirs :: "u32 \<Rightarrow> u16 list \<Rightarrow> nat \<Rightarrow> nat \<Rightarrow> u32 \<Rightarrow> u32 option" where
  \<comment> \<open>The loop over the groups, from group \<open>i\<close>, for \<open>n\<close> groups.\<close>
  "sum_dirs max_dirs descs i 0 num_dirs = Some num_dirs"
| "sum_dirs max_dirs descs i (Suc n) num_dirs = do {
     d \<leftarrow> rd descs i;
     sum_dirs max_dirs descs (i + 1) n
       (num_dirs + (if max_dirs < ucast d then max_dirs div 8 else ucast d)) }"

definition ext2fs_get_num_dirs :: "ext2_filsys \<Rightarrow> u16 list \<Rightarrow> (errcode + u32) option" where
  \<comment> \<open>The list holds \<open>bg_used_dirs_count\<close> of the group descriptors.\<close>
  "ext2fs_get_num_dirs fs descs =
     (if fs_magic fs \<noteq> EXT2_ET_MAGIC_EXT2FS_FILSYS then Some (Inl EXT2_ET_MAGIC_EXT2FS_FILSYS)
      else do {
        n \<leftarrow> sum_dirs (s_inodes_per_group fs) descs 0 (unat (group_desc_count fs)) 0;
        Some (Inr (if s_inodes_count fs < n then s_inodes_count fs else n)) })"

definition icount_init :: "malloc \<Rightarrow> ext2_filsys \<Rightarrow> icount option \<Rightarrow> bitmap \<Rightarrow> bitmap option \<Rightarrow> u32
    \<Rightarrow> (errcode + icount) option" where
  \<comment> \<open>From the allocation of the list on.\<close>
  "icount_init mem fs hint sm mm sz =
     (let retval = ext2fs_get_mem mem (unat sz * 8) in
      if retval \<noteq> OK then Some (Inl retval)
      else do {
        let zeros = replicate (unat sz) (0, 0);
        (n, xs) \<leftarrow> (case hint of
           None \<Rightarrow> Some (0, zeros)
         | Some h \<Rightarrow>
             if unat sz < unat (ic_count h) \<or> length (ic_list h) < unat (ic_count h) then None
             else Some (ic_count h, map (\<lambda>e. (fst e, 0)) (take (unat (ic_count h)) (ic_list h))
                                    @ drop (unat (ic_count h)) zeros));
        Some (Inr \<lparr>ic_magic = EXT2_ET_MAGIC_ICOUNT, single = sm, multiple = mm, ic_count = n,
                   ic_size = sz, num_inodes = s_inodes_count fs, cursor = 0, ic_list = xs\<rparr>) })"

definition icount_sized :: "malloc \<Rightarrow> ext2_filsys \<Rightarrow> u16 list \<Rightarrow> icount option \<Rightarrow> bitmap \<Rightarrow> bitmap option
    \<Rightarrow> u32 \<Rightarrow> (errcode + icount) option" where
  "icount_sized mem fs descs hint sm mm sz =
     (if sz \<noteq> 0 then icount_init mem fs hint sm mm sz
      else do {
        r \<leftarrow> ext2fs_get_num_dirs fs descs;
        (case r of Inl e \<Rightarrow> Some (Inl e)
         | Inr n \<Rightarrow> icount_init mem fs hint sm mm (n + s_inodes_count fs div 50)) })"

definition ext2fs_create_icount2 ::
    "malloc \<Rightarrow> ext2_filsys \<Rightarrow> u16 list \<Rightarrow> bool \<Rightarrow> u32 \<Rightarrow> icount option \<Rightarrow> (errcode + icount) option" where
  \<comment> \<open>The flag is \<open>EXT2_ICOUNT_OPT_INCREMENT\<close>.\<close>
  "ext2fs_create_icount2 mem fs descs increment sz hint =
     (if hint \<noteq> None \<and> ic_magic (the hint) \<noteq> EXT2_ET_MAGIC_ICOUNT then Some (Inl EXT2_ET_MAGIC_ICOUNT)
      else let sz = (case hint of Some h \<Rightarrow> if sz < ic_size h then ic_size h else sz | None \<Rightarrow> sz) in
        if ext2fs_get_mem mem 56 \<noteq> OK then Some (Inl (ext2fs_get_mem mem 56))
        else do {
          r \<leftarrow> ext2fs_allocate_inode_bitmap mem fs None;
          (case r of Inl e \<Rightarrow> Some (Inl e)
           | Inr sm \<Rightarrow>
               if increment then do {
                 r \<leftarrow> ext2fs_allocate_inode_bitmap mem fs None;
                 (case r of Inl e \<Rightarrow> Some (Inl e)
                  | Inr mm \<Rightarrow> icount_sized mem fs descs hint sm (Some mm) sz) }
               else icount_sized mem fs descs hint sm None sz) })"

definition ext2fs_create_icount ::
    "malloc \<Rightarrow> ext2_filsys \<Rightarrow> u16 list \<Rightarrow> bool \<Rightarrow> u32 \<Rightarrow> (errcode + icount) option" where
  "ext2fs_create_icount mem fs descs increment sz = ext2fs_create_icount2 mem fs descs increment sz None"

subsection \<open>The sorted array\<close>

definition flt :: "u32 \<Rightarrow> rat" where
  \<comment> \<open>Conversion to \<open>float\<close>.\<close>
  "flt w = rnd24 (of_nat (unat w))"

definition estimate :: "u32 \<Rightarrow> u32 \<Rightarrow> u32 \<Rightarrow> u32 option" where
  \<comment> \<open>\<open>(ext2_ino_t) (count * ((float) num_inodes / lst))\<close>; undefined when \<open>lst\<close> is 0 or the
      result does not fit.\<close>
  "estimate cnt num lst =
     (if lst = 0 then None
      else let x = rnd24 (flt cnt * rnd24 (flt num / flt lst)) in
        if \<lfloor>x\<rfloor> < 2 ^ 32 then Some (word_of_int \<lfloor>x\<rfloor>) else None)"

definition grow_icount :: "(nat \<Rightarrow> icount_el) \<Rightarrow> icount \<Rightarrow> icount option" where
  "grow_icount junk ic =
     (if ic_count ic < ic_size ic then Some ic
      else do {
        new_size \<leftarrow> (if ic_count ic = 0 then Some 0
                    else do {
                      el \<leftarrow> rd (ic_list ic) (unat (ic_count ic - 1));
                      estimate (ic_count ic) (num_inodes ic) (fst el) });
        let new_size = (if new_size < ic_size ic + 100 then ic_size ic + 100 else new_size);
        Some (ic\<lparr>ic_list := ext2fs_resize_mem junk (unat new_size) (ic_list ic), ic_size := new_size\<rparr>) })"

definition open_gap :: "'a list \<Rightarrow> nat \<Rightarrow> nat \<Rightarrow> 'a list option" where
  \<comment> \<open>\<open>memmove(&list[pos+1], &list[pos], num)\<close>.\<close>
  "open_gap xs pos num =
     (if length xs < pos + num + 1 then None
      else Some (take (pos + 1) xs @ take num (drop pos xs) @ drop (pos + 1 + num) xs))"

definition insert_icount_el :: "(nat \<Rightarrow> icount_el) \<Rightarrow> icount \<Rightarrow> u32 \<Rightarrow> int \<Rightarrow> (icount \<times> nat option) option" where
  "insert_icount_el junk ic ino pos = do {
     ic \<leftarrow> grow_icount junk ic;
     let num = sint (ic_count ic) - pos;
     if num < 0 then Some (ic, None)
     else if pos < 0 then None
     else do {
       xs \<leftarrow> (if num \<noteq> 0 then open_gap (ic_list ic) (nat pos) (nat num) else Some (ic_list ic));
       xs \<leftarrow> wr xs (nat pos) (ino, 0);
       Some (ic\<lparr>ic_list := xs, ic_count := ic_count ic + 1\<rparr>, Some (nat pos)) } }"

definition interpolate :: "u32 \<Rightarrow> u32 \<Rightarrow> u32 \<Rightarrow> int \<Rightarrow> int option" where
  \<comment> \<open>\<open>(int) (range * (high - low))\<close> for \<open>d = high - low\<close>.\<close>
  "interpolate ino lowval highval d =
     (if ino < lowval then Some 0
      else let dist = rnd24 (of_int d) in
        if highval < ino then Some \<lfloor>dist\<rfloor>
        else if highval = lowval then None
        else Some \<lfloor>rnd24 (rnd24 (flt (ino - lowval) / flt (highval - lowval)) * dist)\<rfloor>)"

partial_function (option) el_loop :: "icount_el list \<Rightarrow> u32 \<Rightarrow> int \<Rightarrow> int \<Rightarrow> (bool \<times> int) option" where
  \<comment> \<open>Whether the inode was found, and \<open>mid\<close> or else \<open>low\<close>.\<close>
  "el_loop xs ino low high =
     (if low \<le> high
      then Option.bind
        (if low = high then Some low
         else if low < 0 then None
         else Option.bind (rd xs (nat low)) (\<lambda>l. Option.bind (rd xs (nat high)) (\<lambda>h.
           map_option (\<lambda>d. low + d) (interpolate ino (fst l) (fst h) (high - low)))))
        (\<lambda>mid. if mid < 0 then None
           else Option.bind (rd xs (nat mid)) (\<lambda>m.
             if ino = fst m then Some (True, mid)
             else if ino < fst m then el_loop xs ino low (mid - 1)
             else el_loop xs ino (mid + 1) high))
      else Some (False, low))"

definition search_icount_el :: "(nat \<Rightarrow> icount_el) \<Rightarrow> icount \<Rightarrow> u32 \<Rightarrow> bool \<Rightarrow> (icount \<times> nat option) option" where
  \<comment> \<open>From the test of the cursor on.\<close>
  "search_icount_el junk ic ino create = do {
     let ic = (if ic_count ic \<le> cursor ic then ic\<lparr>cursor := 0\<rparr> else ic);
     el \<leftarrow> rd (ic_list ic) (unat (cursor ic));
     if ino = fst el then Some (ic\<lparr>cursor := cursor ic + 1\<rparr>, Some (unat (cursor ic)))
     else do {
       (found, i) \<leftarrow> el_loop (ic_list ic) ino 0 (sint (ic_count ic) - 1);
       if found then Some (ic\<lparr>cursor := word_of_int (i + 1)\<rparr>, Some (nat i))
       else if create then insert_icount_el junk ic ino i
       else Some (ic, None) } }"

definition get_icount_el :: "(nat \<Rightarrow> icount_el) \<Rightarrow> icount \<Rightarrow> u32 \<Rightarrow> bool \<Rightarrow> (icount \<times> nat option) option" where
  "get_icount_el junk ic ino create =
     (if create \<and> ic_count ic = 0 then insert_icount_el junk ic ino (sint (ic_count ic))
      else do {
        past \<leftarrow> (if create
                then map_option (\<lambda>el. fst el < ino) (rd (ic_list ic) (unat (ic_count ic - 1)))
                else Some False);
        if past then insert_icount_el junk ic ino (sint (ic_count ic))
        else if ic_count ic = 0 then Some (ic, None)
        else search_icount_el junk ic ino create })"

subsection \<open>Operations\<close>

fun ascending_from :: "icount_el list \<Rightarrow> nat \<Rightarrow> nat \<Rightarrow> bool \<Rightarrow> bool option" where
  \<comment> \<open>The loop of the validation: \<open>n\<close> comparisons, of the elements \<open>i - 1\<close> and \<open>i\<close> on.\<close>
  "ascending_from xs i 0 ok = Some ok"
| "ascending_from xs i (Suc n) ok = do {
     a \<leftarrow> rd xs (i - 1); b \<leftarrow> rd xs i;
     ascending_from xs (i + 1) n (ok \<and> fst a < fst b) }"

definition ext2fs_icount_validate :: "icount \<Rightarrow> errcode option" where
  \<comment> \<open>What is printed is not modelled.\<close>
  "ext2fs_icount_validate ic =
     (if ic_magic ic \<noteq> EXT2_ET_MAGIC_ICOUNT then Some EXT2_ET_MAGIC_ICOUNT
      else if ic_size ic < ic_count ic then Some EXT2_ET_INVALID_ARGUMENT
      else do {
        ok \<leftarrow> ascending_from (ic_list ic) 1 (unat (ic_count ic) - 1) True;
        Some (if ok then OK else EXT2_ET_INVALID_ARGUMENT) })"

definition el_count :: "icount \<Rightarrow> nat \<Rightarrow> u16" where
  "el_count ic i = snd (ic_list ic ! i)"

definition set_el :: "icount \<Rightarrow> nat \<Rightarrow> u16 \<Rightarrow> icount" where
  "set_el ic i c = ic\<lparr>ic_list := (ic_list ic)[i := (fst (ic_list ic ! i), c)]\<rparr>"

definition mark_single :: "icount \<Rightarrow> u32 \<Rightarrow> icount option" where
  "mark_single ic ino = map_option (\<lambda>b. ic\<lparr>single := b\<rparr>) (bm_mark (single ic) ino)"

definition unmark_single :: "icount \<Rightarrow> u32 \<Rightarrow> icount option" where
  "unmark_single ic ino = map_option (\<lambda>b. ic\<lparr>single := b\<rparr>) (bm_unmark (single ic) ino)"

definition mark_multiple :: "icount \<Rightarrow> u32 \<Rightarrow> icount option" where
  \<comment> \<open>Nothing without the second bitmap.\<close>
  "mark_multiple ic ino = (case multiple ic of None \<Rightarrow> Some ic
     | Some m \<Rightarrow> map_option (\<lambda>b. ic\<lparr>multiple := Some b\<rparr>) (bm_mark m ino))"

definition unmark_multiple :: "icount \<Rightarrow> u32 \<Rightarrow> icount option" where
  "unmark_multiple ic ino = (case multiple ic of None \<Rightarrow> Some ic
     | Some m \<Rightarrow> map_option (\<lambda>b. ic\<lparr>multiple := Some b\<rparr>) (bm_unmark m ino))"

definition in_multiple :: "icount \<Rightarrow> u32 \<Rightarrow> bool option" where
  \<comment> \<open>\<open>True\<close> without the second bitmap.\<close>
  "in_multiple ic ino = (case multiple ic of None \<Rightarrow> Some True | Some m \<Rightarrow> bm_test m ino)"

definition valid_ino :: "icount \<Rightarrow> u32 \<Rightarrow> bool" where
  "valid_ino ic ino \<longleftrightarrow> ino \<noteq> 0 \<and> ino \<le> num_inodes ic"

type_synonym icount_result = "errcode \<times> u16 option \<times> icount"   \<comment> \<open>result, \<open>*ret\<close>, table\<close>

definition ext2fs_icount_fetch :: "icount \<Rightarrow> u32 \<Rightarrow> icount_result option" where
  "ext2fs_icount_fetch ic ino =
     (if ic_magic ic \<noteq> EXT2_ET_MAGIC_ICOUNT then Some (EXT2_ET_MAGIC_ICOUNT, None, ic)
      else if \<not> valid_ino ic ino then Some (EXT2_ET_INVALID_ARGUMENT, None, ic)
      else do {
        s \<leftarrow> bm_test (single ic) ino;
        if s then Some (OK, Some 1, ic)
        else do {
          m \<leftarrow> in_multiple ic ino;
          if \<not> m then Some (OK, Some 0, ic)
          else do {
            (ic, el) \<leftarrow> get_icount_el (\<lambda>_. (0, 0)) ic ino False;
            Some (OK, Some (case el of None \<Rightarrow> 0 | Some i \<Rightarrow> el_count ic i), ic) } } })"

definition increment_el :: "icount \<Rightarrow> u32 \<Rightarrow> nat option \<Rightarrow> (u16 \<Rightarrow> u16) \<Rightarrow> icount_result option" where
  \<comment> \<open>The end of the increment, for the element found and the new value of its count.\<close>
  "increment_el ic ino el f = (case el of
       None \<Rightarrow> Some (EXT2_ET_NO_MEMORY, None, ic)
     | Some i \<Rightarrow> do {
         let ic = set_el ic i (f (el_count ic i));
         ic \<leftarrow> mark_multiple ic ino;
         Some (OK, Some (el_count ic i), ic) })"

definition zero_count :: "icount \<Rightarrow> u32 \<Rightarrow> icount_result option" where
  "zero_count ic ino = map_option (\<lambda>ic. (OK, Some 1, ic)) (mark_single ic ino)"

definition ext2fs_icount_increment :: "(nat \<Rightarrow> icount_el) \<Rightarrow> icount \<Rightarrow> u32 \<Rightarrow> icount_result option" where
  "ext2fs_icount_increment junk ic ino =
     (if ic_magic ic \<noteq> EXT2_ET_MAGIC_ICOUNT then Some (EXT2_ET_MAGIC_ICOUNT, None, ic)
      else if \<not> valid_ino ic ino then Some (EXT2_ET_INVALID_ARGUMENT, None, ic)
      else do {
        s \<leftarrow> bm_test (single ic) ino;
        if s then do {
          (ic, el) \<leftarrow> get_icount_el junk ic ino True;
          if el = None then Some (EXT2_ET_NO_MEMORY, None, ic)
          else do {
            ic \<leftarrow> unmark_single ic ino;
            increment_el ic ino el (\<lambda>_. 2) } }
        else if multiple ic \<noteq> None then do {
          m \<leftarrow> in_multiple ic ino;
          if m then do {
            (ic, el) \<leftarrow> get_icount_el junk ic ino True;
            increment_el ic ino el (\<lambda>c. c + 1) }
          else zero_count ic ino }
        else do {
          (ic, el) \<leftarrow> get_icount_el junk ic ino False;
          if el = None then zero_count ic ino
          else do {
            (ic, el) \<leftarrow> get_icount_el junk ic ino True;
            increment_el ic ino el (\<lambda>c. c + 1) } } })"

definition clear_el :: "icount \<Rightarrow> u32 \<Rightarrow> icount option" where
  \<comment> \<open>\<open>el = get_icount_el(icount, ino, 0); if (el) el->count = 0;\<close>\<close>
  "clear_el ic ino = do {
     (ic, el) \<leftarrow> get_icount_el (\<lambda>_. (0, 0)) ic ino False;
     Some (case el of None \<Rightarrow> ic | Some i \<Rightarrow> set_el ic i 0) }"

definition decrement_el :: "icount \<Rightarrow> u32 \<Rightarrow> nat \<Rightarrow> icount_result option" where
  "decrement_el ic ino i = do {
     let c = el_count ic i - 1;
     let ic = set_el ic i c;
     ic \<leftarrow> (if c = 1 then mark_single ic ino else Some ic);
     ic \<leftarrow> (if c = 0 then unmark_multiple ic ino else Some ic);
     Some (OK, Some c, ic) }"

definition ext2fs_icount_decrement :: "icount \<Rightarrow> u32 \<Rightarrow> icount_result option" where
  "ext2fs_icount_decrement ic ino =
     (if \<not> valid_ino ic ino then Some (EXT2_ET_INVALID_ARGUMENT, None, ic)
      else if ic_magic ic \<noteq> EXT2_ET_MAGIC_ICOUNT then Some (EXT2_ET_MAGIC_ICOUNT, None, ic)
      else do {
        s \<leftarrow> bm_test (single ic) ino;
        if s then do {
          ic \<leftarrow> unmark_single ic ino;
          ic \<leftarrow> (if multiple ic \<noteq> None then unmark_multiple ic ino else clear_el ic ino);
          Some (OK, Some 0, ic) }
        else do {
          m \<leftarrow> in_multiple ic ino;
          if \<not> m then Some (EXT2_ET_INVALID_ARGUMENT, None, ic)
          else do {
            (ic, el) \<leftarrow> get_icount_el (\<lambda>_. (0, 0)) ic ino False;
            (case el of None \<Rightarrow> Some (EXT2_ET_INVALID_ARGUMENT, None, ic)
             | Some i \<Rightarrow>
                 if el_count ic i = 0 then Some (EXT2_ET_INVALID_ARGUMENT, None, ic)
                 else decrement_el ic ino i) } } })"

definition ext2fs_icount_store :: "(nat \<Rightarrow> icount_el) \<Rightarrow> icount \<Rightarrow> u32 \<Rightarrow> u16 \<Rightarrow> icount_result option" where
  "ext2fs_icount_store junk ic ino count =
     (if \<not> valid_ino ic ino then Some (EXT2_ET_INVALID_ARGUMENT, None, ic)
      else if ic_magic ic \<noteq> EXT2_ET_MAGIC_ICOUNT then Some (EXT2_ET_MAGIC_ICOUNT, None, ic)
      else if count = 1 then do {
        ic \<leftarrow> mark_single ic ino;
        ic \<leftarrow> unmark_multiple ic ino;
        Some (OK, None, ic) }
      else if count = 0 then do {
        ic \<leftarrow> unmark_single ic ino;
        ic \<leftarrow> (if multiple ic \<noteq> None then unmark_multiple ic ino else clear_el ic ino);
        Some (OK, None, ic) }
      else do {
        (ic, el) \<leftarrow> get_icount_el junk ic ino True;
        (case el of None \<Rightarrow> Some (EXT2_ET_NO_MEMORY, None, ic)
         | Some i \<Rightarrow> do {
             let ic = set_el ic i count;
             ic \<leftarrow> unmark_single ic ino;
             ic \<leftarrow> mark_multiple ic ino;
             Some (OK, None, ic) }) })"

definition ext2fs_get_icount_size :: "icount \<Rightarrow> u32" where
  "ext2fs_get_icount_size ic = (if ic_magic ic \<noteq> EXT2_ET_MAGIC_ICOUNT then 0 else ic_size ic)"

end
