(* ===== verification/Ext2_Icount_Search.thy ===== *)
theory Ext2_Icount_Search
  imports Ext2_Icount
begin

text \<open>
  The interpolation search of the table of inode counts: with at most \<open>2 ^ 24\<close> entries the estimate
  stays between \<open>low\<close> and \<open>high\<close> whatever the rounding, so the search ends with the entry or the
  place for it; with more it may read past the entries in use.
\<close>

subsection \<open>The estimate\<close>

lemma flt_mono: "v \<le> w \<Longrightarrow> flt v \<le> flt w"
  unfolding flt_def by (rule rnd24_mono) (simp only: word_le_nat_alt of_nat_le_iff)

lemma rnd24_1 [simp]: "rnd24 1 = 1" using rnd24_int[of 1] by simp

lemma flt_pos: "0 < w \<Longrightarrow> 0 < flt w"
  using flt_mono[of 1 w] by (simp add: flt_def word_le_nat_alt word_less_nat_alt)

lemma flt_int: "unat w \<le> 2 ^ 24 \<Longrightarrow> flt w = of_nat (unat w)"
  unfolding flt_def by (rule rnd24_int)

lemma rnd24_ratio: "0 \<le> x \<Longrightarrow> x \<le> y \<Longrightarrow> 0 < y \<Longrightarrow> rnd24 (x / y) \<le> 1"
  using rnd24_mono[of "x / y" 1] by simp

lemma interpolate_between:
  assumes "lv < hv" "0 < d" "d \<le> 2 ^ 24"
  shows "\<exists>r. interpolate ino lv hv d = Some r \<and> 0 \<le> r \<and> r \<le> d"
proof -
  have d: "rnd24 (of_int d) = of_int d" using rnd24_int[of "nat d"] assms(2,3) by simp
  let ?q = "rnd24 (flt (ino - lv) / flt (hv - lv))"
  have "\<lfloor>rnd24 (?q * of_int d)\<rfloor> \<le> d" if "lv \<le> ino" "ino \<le> hv"
  proof -
    have "ino - lv \<le> hv - lv" using that by (simp add: word_le_nat_alt unat_sub)
    then have "flt (ino - lv) \<le> flt (hv - lv)" by (rule flt_mono)
    moreover have "0 < flt (hv - lv)" using assms(1) 
      by (intro flt_pos) (simp add: word_neq_0_conv[symmetric])
    moreover have "0 \<le> flt (ino - lv)" by (simp add: flt_def rnd24_nonneg)
    ultimately have "?q \<le> 1" by (intro rnd24_ratio)
    then have "?q * of_int d \<le> of_int d" using assms(2) by (simp add: mult_left_le_one_le rnd24_nonneg)
    then have "rnd24 (?q * of_int d) \<le> of_int d" using rnd24_mono[of "?q * of_int d" "of_int d"] d by simp
    then show ?thesis by (simp add: floor_le_iff)
  qed
  moreover have "0 \<le> rnd24 (?q * of_int d)" by (rule rnd24_nonneg)
  ultimately show ?thesis using assms(1,2) d by (auto simp: interpolate_def Let_def)
qed

subsection \<open>The search\<close>

lemma el_loop_result:
  assumes "n \<le> length xs" "ascending (map fst (take n xs))" "n \<le> 2 ^ 24"
    "0 \<le> low" "low \<le> high + 1" "high < int n"
    "\<forall>k < n. int k < low \<longrightarrow> fst (xs ! k) < ino" "\<forall>k < n. high < int k \<longrightarrow> ino < fst (xs ! k)"
  shows "(\<exists>i < n. el_loop xs ino low high = Some (True, int i) \<and> fst (xs ! i) = ino)
    \<or> (\<exists>j \<le> n. el_loop xs ino low high = Some (False, int j) \<and> (\<forall>k < j. fst (xs ! k) < ino)
         \<and> (\<forall>k < n. j \<le> k \<longrightarrow> ino < fst (xs ! k)))"
  using assms(4-)
proof (induction "nat (high + 1 - low)" arbitrary: low high rule: less_induct)
  case less
  have asc: "fst (xs ! i) < fst (xs ! j)" if "i < j" "j < n" for i j
    using ascending_nth[OF assms(2) that(1)] that assms(1) by simp
  show ?case
  proof (cases "low \<le> high")
    case False
    then have "el_loop xs ino low high = Some (False, int (nat low))"
      using less.prems(1) by (simp add: el_loop.simps[of xs ino low high])
    moreover have "\<forall>k < nat low. fst (xs ! k) < ino" using less.prems False by auto
    moreover have "\<forall>k < n. nat low \<le> k \<longrightarrow> ino < fst (xs ! k)" using less.prems False by auto
    ultimately show ?thesis 
      using less.prems(2,3) by (intro disjI2 exI[of _ "nat low"] conjI) auto
  next
    case True
    let ?mid = "if low = high then Some low
         else if low < 0 then None
         else Option.bind (rd xs (nat low)) (\<lambda>l. Option.bind (rd xs (nat high)) (\<lambda>h.
           map_option (\<lambda>d. low + d) (interpolate ino (fst l) (fst h) (high - low))))"
    obtain mid where mid: "?mid = Some mid" "low \<le> mid" "mid \<le> high"
    proof (cases "low = high")
      case False
      then have "fst (xs ! nat low) < fst (xs ! nat high)" using asc True less.prems by simp
      then obtain r where "interpolate ino (fst (xs ! nat low)) (fst (xs ! nat high)) (high - low) = Some r"
        "0 \<le> r" "r \<le> high - low"
        using interpolate_between[of "fst (xs ! nat low)" "fst (xs ! nat high)" "high - low" ino]
          True False less.prems assms(3) by auto
      then show thesis using that[of "low + r"] True False less.prems assms(1) by simp
    qed (use that[of low] in simp)
    have m: "nat mid < n" "int (nat mid) = mid" "\<not> mid < 0" using mid(2,3) less.prems by simp_all
    have e: "el_loop xs ino low high = (if ino = fst (xs ! nat mid) then Some (True, mid)
        else if ino < fst (xs ! nat mid) then el_loop xs ino low (mid - 1) else el_loop xs ino (mid + 1) high)"
      using True mid(1) m assms(1) by (simp add: el_loop.simps[of xs ino low high])
    have below: "fst (xs ! k) \<le> fst (xs ! nat mid)" if "k < n" "int k \<le> mid" for k
      using asc[of k "nat mid"] m that by (cases "k = nat mid") (simp_all add: order_less_imp_le)
    have above: "fst (xs ! nat mid) \<le> fst (xs ! k)" if "k < n" "mid \<le> int k" for k
      using asc[of "nat mid" k] m that by (cases "k = nat mid") (simp_all add: order_less_imp_le)
    show ?thesis
    proof (cases "ino" "fst (xs ! nat mid)" rule: linorder_cases)
      case equal
      then show ?thesis using e m by (intro disjI1 exI[of _ "nat mid"]) simp
    next
      case lt: less
      then have eq: "el_loop xs ino low high = el_loop xs ino low (mid - 1)" using e by auto
      have "\<forall>k < n. mid - 1 < int k \<longrightarrow> ino < fst (xs ! k)" using above lt order_less_le_trans by force
      then show ?thesis unfolding eq
        by (intro less.hyps) (use less.prems mid(2,3) in simp_all)
    next
      case gt: greater
      then have eq: "el_loop xs ino low high = el_loop xs ino (mid + 1) high" using e by auto
      have "\<forall>k < n. int k < mid + 1 \<longrightarrow> fst (xs ! k) < ino" using below gt order_le_less_trans by force
      then show ?thesis unfolding eq
        by (intro less.hyps) (use less.prems mid(2,3) in simp_all)
    qed
  qed
qed

subsection \<open>The invariant of the table\<close>

abbreviation els :: "icount \<Rightarrow> icount_el list" where "els ic \<equiv> take (unat (ic_count ic)) (ic_list ic)"

abbreviation tab :: "icount \<Rightarrow> u32 \<Rightarrow> u16 option" where "tab ic \<equiv> map_of (els ic)"

definition ic_ok :: "icount \<Rightarrow> bool" where
  "ic_ok ic \<longleftrightarrow> ic_magic ic = EXT2_ET_MAGIC_ICOUNT
     \<and> bm_over 1 (num_inodes ic) (single ic) \<and> pred_option (bm_over 1 (num_inodes ic)) (multiple ic)
     \<and> unat (num_inodes ic) \<le> 2 ^ 24 \<and> length (ic_list ic) = unat (ic_size ic) \<and> ic_count ic \<le> ic_size ic
     \<and> ascending (map fst (els ic)) \<and> (\<forall>e \<in> set (els ic). valid_ino ic (fst e))"

lemma ascending_bound:
  assumes "ascending ws" "\<forall>w \<in> set ws. 0 < w" "i < length ws"
  shows "i < unat (ws ! i)"
  using assms(3)
proof (induction i)
  case 0
  then show ?case using assms(2) by (simp add: word_less_nat_alt)
next
  case (Suc i)
  then have "ws ! i < ws ! Suc i" using assms(1) by (simp add: ascending_nth)
  then show ?case using Suc by (simp add: word_less_nat_alt)
qed

lemma ic_okD:
  assumes "ic_ok ic"
  shows "unat (ic_count ic) \<le> length (ic_list ic)" "length (els ic) = unat (ic_count ic)"
    "i < unat (ic_count ic) \<Longrightarrow> i < unat (fst (ic_list ic ! i))"
    "i < unat (ic_count ic) \<Longrightarrow> fst (ic_list ic ! i) \<le> num_inodes ic"
    "unat (ic_count ic) \<le> unat (num_inodes ic)" "sint (ic_count ic) = int (unat (ic_count ic))"
proof -
  show l: "unat (ic_count ic) \<le> length (ic_list ic)" using assms by (simp add: ic_ok_def word_le_nat_alt)
  then show "length (els ic) = unat (ic_count ic)" by simp
  have v: "\<forall>i < unat (ic_count ic). valid_ino ic (fst (ic_list ic ! i))"
    using assms l by (simp add: ic_ok_def all_set_conv_all_nth)
  have b: "i < unat (fst (ic_list ic ! i))" if "i < unat (ic_count ic)" for i
    using ascending_bound[of "map fst (els ic)" i] assms l that
    by (auto simp: ic_ok_def valid_ino_def word_neq_0_conv)
  show "i < unat (ic_count ic) \<Longrightarrow> i < unat (fst (ic_list ic ! i))" by (rule b)
  show "i < unat (ic_count ic) \<Longrightarrow> fst (ic_list ic ! i) \<le> num_inodes ic"
    using v by (simp add: valid_ino_def)
  show n: "unat (ic_count ic) \<le> unat (num_inodes ic)"
  proof (cases "ic_count ic = 0")
    case False
    then have "unat (ic_count ic) - 1 < unat (ic_count ic)" by (simp add: unat_gt_0)
    then show ?thesis using b[of "unat (ic_count ic) - 1"] v by (fastforce simp: valid_ino_def word_le_nat_alt)
  qed simp
  have "unat (ic_count ic) < 2 ^ 31" using n assms by (simp add: ic_ok_def)
  then have "int (unat (ic_count ic)) < int (2 ^ 31)" by (simp only: of_nat_less_iff)
  then have "uint (ic_count ic) < 2 ^ 31" by simp
  then show "sint (ic_count ic) = int (unat (ic_count ic))"
    using signed_take_bit_int_eq_self[of 31 "uint (ic_count ic)"] uint_ge_0[of "ic_count ic"]
    by (simp add: sint_uint del: uint_ge_0)
qed

lemma tab_nth:
  assumes "ic_ok ic" "i < unat (ic_count ic)"
  shows "tab ic (fst (ic_list ic ! i)) = Some (snd (ic_list ic ! i))"
proof -
  have "distinct (map fst (els ic))"
    using assms(1) by (simp add: ic_ok_def strict_sorted_iff)
  moreover have "els ic ! i \<in> set (els ic)" using ic_okD(2)[OF assms(1)] assms(2) by (metis nth_mem)
  ultimately show ?thesis using assms(2) by (intro map_of_is_SomeI) simp_all
qed

lemma tab_None:
  assumes "ic_ok ic"
  shows "tab ic ino = None \<longleftrightarrow> (\<forall>i < unat (ic_count ic). fst (ic_list ic ! i) \<noteq> ino)"
proof -
  have "tab ic ino = None \<longleftrightarrow> (\<forall>e \<in> set (els ic). fst e \<noteq> ino)" by (auto simp: map_of_eq_None_iff)
  also have "\<dots> \<longleftrightarrow> (\<forall>i < unat (ic_count ic). fst (ic_list ic ! i) \<noteq> ino)"
    by (simp only: all_set_conv_all_nth ic_okD(2)[OF assms], simp)
  finally show ?thesis .
qed

subsection \<open>Insertion\<close>

lemma estimate_fits:
  assumes "0 < cnt" "unat cnt \<le> unat lst" "lst \<le> num" "unat num \<le> 2 ^ 24"
  shows "\<exists>w. estimate cnt num lst = Some w"
proof -
  have le: "unat cnt \<le> 2 ^ 24" "unat lst \<le> 2 ^ 24" "0 < unat cnt" "unat lst \<le> unat num"
    using assms by (simp_all add: word_le_nat_alt word_less_nat_alt)
  let ?c = "of_nat (unat cnt) :: rat" and ?n = "of_nat (unat num) :: rat" and ?l = "of_nat (unat lst) :: rat"
  have f: "flt cnt = ?c" "flt num = ?n" "flt lst = ?l" using flt_int le(1,2) assms(4) by blast+
  have "(0 :: rat) < of_nat (unat cnt)" using le(3) by (simp only: of_nat_0_less_iff)
  moreover have "?c \<le> ?l" using assms(2) by (simp only: of_nat_le_iff)
  moreover have "?l \<le> ?n" using le(4) by (simp only: of_nat_le_iff)
  ultimately have pos: "0 < ?c" "0 < ?l" "0 < ?n" "?c \<le> ?l" by simp_all
  have "rnd24 (?n / ?l) \<le> 2 * (?n / ?l)" by (rule rnd24_double) (rule divide_pos_pos[OF pos(3,2)])
  then have "?c * rnd24 (?n / ?l) \<le> ?c * (2 * (?n / ?l))" using pos(1) by (intro mult_left_mono) simp_all
  also have "\<dots> = 2 * ?n * (?c / ?l)" by simp
  also have "\<dots> \<le> 2 * ?n * 1" using pos by (intro mult_left_mono) simp_all
  finally have b: "?c * rnd24 (?n / ?l) \<le> 2 * ?n" by simp
  have "rnd24 (?c * rnd24 (?n / ?l)) \<le> rnd24 (2 * ?n)" by (rule rnd24_mono[OF b])
  also have "\<dots> \<le> 2 * (2 * ?n)" using pos(3) by (intro rnd24_double) simp
  also have "\<dots> \<le> of_nat (4 * 2 ^ 24)"
    using assms(4) of_nat_le_iff[of "4 * unat num" "4 * 2 ^ 24", where 'a = rat] by simp
  finally have "\<lfloor>rnd24 (?c * rnd24 (?n / ?l))\<rfloor> < 2 ^ 32" by (simp add: floor_less_iff)
  moreover have "lst \<noteq> 0" using assms(2) le(3) by auto
  ultimately show ?thesis by (simp only: estimate_def f Let_def if_False if_True) simp
qed

lemma grow_icount_ok:
  assumes "ic_ok ic"
  shows "\<exists>xs sz. grow_icount junk ic = Some (ic\<lparr>ic_list := xs, ic_size := sz\<rparr>) \<and> ic_count ic < sz
    \<and> length xs = unat sz \<and> take (unat (ic_count ic)) xs = els ic"
proof (cases "ic_count ic < ic_size ic")
  case True
  then show ?thesis using assms
    by (intro exI[of _ "ic_list ic"] exI[of _ "ic_size ic"]) (simp add: grow_icount_def ic_ok_def)
next
  case False
  let ?c = "ic_count ic"
  have sz: "ic_size ic = ?c" using False assms by (simp add: ic_ok_def)
  have small: "unat ?c \<le> 2 ^ 24" using ic_okD(5)[OF assms] assms by (simp add: ic_ok_def)
  obtain w where w: "(if ?c = 0 then Some 0 else do {
      el \<leftarrow> rd (ic_list ic) (unat (?c - 1)); estimate ?c (num_inodes ic) (fst el) }) = Some w"
  proof (cases "?c = 0")
    case False
    then have i: "unat (?c - 1) < unat ?c" "unat (?c - 1) + 1 = unat ?c"
      by (simp_all add: unat_minus_one unat_gt_0)
    have "\<exists>w. estimate ?c (num_inodes ic) (fst (ic_list ic ! unat (?c - 1))) = Some w"
      using ic_okD(3,4)[OF assms i(1)] i(2) False assms
      by (intro estimate_fits) (simp_all add: ic_ok_def word_neq_0_conv)
    then show thesis using that False i(1) ic_okD(1)[OF assms] by auto
  qed (use that in simp)
  let ?n = "if w < ic_size ic + 100 then ic_size ic + 100 else w"
  have "unat (?c + 100) = unat ?c + 100" using small by (simp add: unat_word_ariths)
  then have n: "?c < ?n" "unat ?c \<le> unat ?n" by (auto simp: sz word_less_nat_alt not_less word_le_nat_alt)
  have "grow_icount junk ic
      = Some (ic\<lparr>ic_list := ext2fs_resize_mem junk (unat ?n) (ic_list ic), ic_size := ?n\<rparr>)"
    using False w by (simp add: grow_icount_def Let_def)
  moreover have "take (unat ?c) (ext2fs_resize_mem junk (unat ?n) (ic_list ic)) = els ic"
    using n(2) ic_okD(1)[OF assms] by simp
  ultimately show ?thesis using n(1)
    by (intro exI[of _ "ext2fs_resize_mem junk (unat ?n) (ic_list ic)"] exI[of _ ?n]) simp
qed

lemma map_of_insert: "k \<notin> fst ` set xs \<Longrightarrow> map_of (xs @ (k, v) # ys) = (map_of (xs @ ys))(k \<mapsto> v)"
proof -
  assume "k \<notin> fst ` set xs"
  then have "map_of xs k = None" by (simp add: map_of_eq_None_iff)
  then show ?thesis by (auto simp: map_add_def fun_eq_iff split: option.split)
qed

lemma gap_write:
  assumes "pos \<le> n" "n < length xs"
  shows "Option.bind (if n - pos \<noteq> 0 then open_gap xs pos (n - pos) else Some xs) (\<lambda>xs. wr xs pos x)
    = Some (take pos xs @ x # take (n - pos) (drop pos xs) @ drop (Suc n) xs)"
proof (cases "pos = n")
  case True
  then show ?thesis using assms(2) by (simp add: upd_conv_take_nth_drop)
next
  case False
  then have "(take (pos + 1) xs @ ys)[pos := x] = take pos xs @ x # ys" for ys
    using assms by (simp add: list_update_append upd_conv_take_nth_drop take_Suc_conv_app_nth)
  then show ?thesis using assms False by (simp add: open_gap_def)
qed

lemma insert_ok:
  assumes "ic_ok ic" "valid_ino ic ino" "j \<le> unat (ic_count ic)"
    "\<forall>k < j. fst (ic_list ic ! k) < ino" "\<forall>k < unat (ic_count ic). j \<le> k \<longrightarrow> ino < fst (ic_list ic ! k)"
  shows "\<exists>ic'. insert_icount_el junk ic ino (int j) = Some (ic', Some j) \<and> ic_ok ic' \<and> tab ic' = (tab ic)(ino \<mapsto> 0)
    \<and> j < unat (ic_count ic') \<and> fst (ic_list ic' ! j) = ino
    \<and> single ic' = single ic \<and> multiple ic' = multiple ic \<and> num_inodes ic' = num_inodes ic"
proof -
  let ?n = "unat (ic_count ic)"
  obtain xs sz where g: "grow_icount junk ic = Some (ic\<lparr>ic_list := xs, ic_size := sz\<rparr>)" "ic_count ic < sz"
    "length xs = unat sz" "take ?n xs = els ic"
    using grow_icount_ok[OF assms(1), of junk] by blast
  have n: "?n < length xs" using g(2,3) by (simp add: word_less_nat_alt)
  have "unat sz < 2 ^ LENGTH(32)" by (rule unsigned_less)
  then have n1: "unat (ic_count ic + 1) = ?n + 1" using n g(3) by (simp add: unat_word_ariths)
  let ?ys = "take j xs @ (ino, 0) # take (?n - j) (drop j xs) @ drop (Suc ?n) xs"
  let ?ic = "ic\<lparr>ic_size := sz, ic_list := ?ys, ic_count := ic_count ic + 1\<rparr>"
  have num: "sint (ic_count ic) - int j = int (?n - j)" using assms(3) ic_okD(6)[OF assms(1)] by (simp del: of_nat_unat)
  obtain zs where "(if ?n - j \<noteq> 0 then open_gap xs j (?n - j) else Some xs) = Some zs" "wr zs j (ino, 0) = Some ?ys"
    using gap_write[OF assms(3) n, of "(ino, 0)"] by (auto simp: bind_Some_iff simp del: diff_is_0_eq diff_is_0_eq')
  then have "insert_icount_el junk ic ino (int j) = Some (?ic, Some j)"
    using g(1) num assms(3) by (cases "j = ?n") (simp_all add: insert_icount_el_def Let_def nat_diff_distrib del: of_nat_unat)
  moreover have e: "els ?ic = take j (els ic) @ (ino, 0) # drop j (els ic)"
    using take_shifted_up[OF assms(3) n, of "(ino, 0)"] n1 g(4) by simp
  moreover have "ino \<notin> fst ` set (take j (els ic))"
    using assms(3,4) ic_okD(1)[OF assms(1)] by (force simp: in_set_conv_nth)
  then have "tab ?ic = (tab ic)(ino \<mapsto> 0)" 
    unfolding e by (subst map_of_insert) (assumption, simp only: append_take_drop_id)
  moreover have "ic_ok ?ic"
  proof -
    have "ascending (take j (map fst (els ic)) @ ino # drop j (map fst (els ic)))"
      using assms ic_okD(1)[OF assms(1)] by (intro ascending_insert) (simp_all add: ic_ok_def)
    then have "ascending (map fst (els ?ic))" unfolding e by (simp add: take_map drop_map)
    moreover have "\<forall>e \<in> set (els ?ic). valid_ino ic (fst e)"
      unfolding e using assms(1-3) ic_okD(2)[OF assms(1)] set_insert_at[of j "els ic" "(ino, 0)"]
      by (simp add: ic_ok_def)
    moreover have "length ?ys = unat sz" using length_shifted(1)[OF assms(3) n, of "(ino, 0)"] g(3) by simp
    moreover have "ic_count ic + 1 \<le> sz" using n n1 g(3) by (simp add: word_le_nat_alt)
    ultimately show ?thesis using assms(1) by (simp add: ic_ok_def valid_ino_def del: length_append)
  qed
  moreover have "j < unat (ic_count ?ic)" using n1 assms(3) by simp
  moreover have "fst (ic_list ?ic ! j) = ino" using assms(3) n by (simp add: nth_append)
  ultimately show ?thesis by (intro exI[of _ ?ic]) simp
qed

subsection \<open>Finding an element\<close>

lemma ic_ok_cursor [simp]: "ic_ok (ic\<lparr>cursor := c\<rparr>) = ic_ok ic"
  by (simp add: ic_ok_def valid_ino_def)

text \<open>What the callers rely on: with \<open>create\<close> there always is an element, a new one with count 0 if need be.\<close>

definition same_bitmaps :: "icount \<Rightarrow> icount \<Rightarrow> bool" where
  "same_bitmaps ic ic' \<longleftrightarrow> single ic' = single ic \<and> multiple ic' = multiple ic \<and> num_inodes ic' = num_inodes ic"

definition element :: "icount \<Rightarrow> u32 \<Rightarrow> nat \<Rightarrow> bool" where
  "element ic ino i \<longleftrightarrow> i < unat (ic_count ic) \<and> fst (ic_list ic ! i) = ino"

definition created :: "icount \<Rightarrow> u32 \<Rightarrow> icount \<times> nat option \<Rightarrow> bool" where
  "created ic ino r \<longleftrightarrow> ic_ok (fst r) \<and> same_bitmaps ic (fst r)
     \<and> tab (fst r) = (if tab ic ino = None then (tab ic)(ino \<mapsto> 0) else tab ic)
     \<and> (\<exists>i. snd r = Some i \<and> element (fst r) ino i)"

definition found :: "icount \<Rightarrow> u32 \<Rightarrow> icount \<times> nat option \<Rightarrow> bool" where
  "found ic ino r \<longleftrightarrow> ic_ok (fst r) \<and> same_bitmaps ic (fst r) \<and> tab (fst r) = tab ic
     \<and> (case snd r of None \<Rightarrow> tab ic ino = None | Some i \<Rightarrow> element (fst r) ino i)"

lemma created_cursor [simp]: "created (ic\<lparr>cursor := c\<rparr>) ino r = created ic ino r"
  by (simp add: created_def same_bitmaps_def cong: if_cong)

lemma insert_created:
  assumes "ic_ok ic" "valid_ino ic ino" "j \<le> unat (ic_count ic)"
    "\<forall>k < j. fst (ic_list ic ! k) < ino" "\<forall>k < unat (ic_count ic). j \<le> k \<longrightarrow> ino < fst (ic_list ic ! k)"
  shows "\<exists>r. insert_icount_el junk ic ino (int j) = Some r \<and> created ic ino r"
proof -
  have "fst (ic_list ic ! k) \<noteq> ino" if "k < unat (ic_count ic)" for k
    using assms(4,5) that by (cases "k < j") auto
  then have "tab ic ino = None" by (simp add: tab_None[OF assms(1)])
  then show ?thesis
    using insert_ok[OF assms, of junk] by (auto simp: created_def same_bitmaps_def element_def)
qed

lemma search_el_result:
  assumes "ic_ok ic" "valid_ino ic ino" "ic_count ic \<noteq> 0"
  shows "\<exists>r. search_icount_el junk ic ino create = Some r \<and> (if create then created ic ino r else found ic ino r)"
proof -
  let ?n = "unat (ic_count ic)"
  obtain c where reset: "(if ic_count ic \<le> cursor ic then ic\<lparr>cursor := 0\<rparr> else ic) = ic\<lparr>cursor := c\<rparr>"
    and c: "unat c < ?n"
  proof (cases "ic_count ic \<le> cursor ic")
    case True
    then show thesis using that[of 0] assms(3) by (simp add: unat_gt_0)
  next
    case False
    then show thesis using that[of "cursor ic"] by (simp add: word_less_nat_alt word_le_nat_alt)
  qed
  let ?ic = "ic\<lparr>cursor := c\<rparr>"
  have hit: "created ic ino (ic\<lparr>cursor := d\<rparr>, Some i) \<and> found ic ino (ic\<lparr>cursor := d\<rparr>, Some i)"
    if "i < ?n" "fst (ic_list ic ! i) = ino" for i d
    using that assms(1) tab_nth[OF assms(1) that(1)]
    by (auto simp: created_def found_def same_bitmaps_def element_def)
  have rd: "rd (ic_list ic) (unat c) = Some (ic_list ic ! unat c)" using c ic_okD(1)[OF assms(1)] by simp
  have "length (els ic) = ?n" by (rule ic_okD(2)[OF assms(1)])
  have loop: "(\<exists>i < ?n. el_loop (ic_list ic) ino 0 (sint (ic_count ic) - 1) = Some (True, int i) \<and> fst (ic_list ic ! i) = ino)
    \<or> (\<exists>j \<le> ?n. el_loop (ic_list ic) ino 0 (sint (ic_count ic) - 1) = Some (False, int j)
         \<and> (\<forall>k < j. fst (ic_list ic ! k) < ino) \<and> (\<forall>k < ?n. j \<le> k \<longrightarrow> ino < fst (ic_list ic ! k)))"
    by (rule el_loop_result)
      (use assms ic_okD(1,5,6)[OF assms(1)] in \<open>simp_all add: ic_ok_def unat_gt_0 del: of_nat_unat\<close>)
  have unfold: "search_icount_el junk ic ino create =
    (if ino = fst (ic_list ic ! unat c) then Some (?ic\<lparr>cursor := c + 1\<rparr>, Some (unat c))
     else Option.bind (el_loop (ic_list ic) ino 0 (sint (ic_count ic) - 1))
       (\<lambda>(f, i). if f then Some (?ic\<lparr>cursor := word_of_int (i + 1)\<rparr>, Some (nat i))
          else if create then insert_icount_el junk ?ic ino i else Some (?ic, None)))"
    using rd by (simp add: search_icount_el_def Let_def reset)
  show ?thesis
  proof (cases "ino = fst (ic_list ic ! unat c)")
    case True
    then show ?thesis unfolding unfold using hit[OF c, of "c + 1"] by simp
  next
    case False
    from loop show ?thesis
    proof (elim disjE exE conjE)
      fix i assume "i < ?n" "el_loop (ic_list ic) ino 0 (sint (ic_count ic) - 1) = Some (True, int i)"
        "fst (ic_list ic ! i) = ino"
      then show ?thesis unfolding unfold using False hit by simp
    next
      fix j assume j: "j \<le> ?n" "el_loop (ic_list ic) ino 0 (sint (ic_count ic) - 1) = Some (False, int j)"
        "\<forall>k < j. fst (ic_list ic ! k) < ino" "\<forall>k < ?n. j \<le> k \<longrightarrow> ino < fst (ic_list ic ! k)"
      show ?thesis
      proof (cases create)
        case True
        have "\<exists>r. insert_icount_el junk ?ic ino (int j) = Some r \<and> created ?ic ino r"
          using assms(1,2) j by (intro insert_created) (simp_all add: valid_ino_def)
        then show ?thesis unfolding unfold using False j(2) True by simp
      next
        case f: False
        have "fst (ic_list ic ! k) \<noteq> ino" if "k < ?n" for k using j(3,4) that by (cases "k < j") auto
        then have "tab ic ino = None" by (simp add: tab_None[OF assms(1)])
        then show ?thesis unfolding unfold using False j(2) f assms(1)
          by (simp add: found_def same_bitmaps_def)
      qed
    qed
  qed
qed

lemma get_el_found:
  assumes "ic_ok ic" "valid_ino ic ino"
  shows "\<exists>r. get_icount_el junk ic ino False = Some r \<and> found ic ino r"
proof (cases "ic_count ic = 0")
  case True
  then show ?thesis using assms(1) by (simp add: get_icount_el_def found_def same_bitmaps_def)
next
  case False
  then show ?thesis using search_el_result[OF assms False, of junk False] by (simp add: get_icount_el_def)
qed

lemma get_el_created:
  assumes "ic_ok ic" "valid_ino ic ino"
  shows "\<exists>r. get_icount_el junk ic ino True = Some r \<and> created ic ino r"
proof (cases "ic_count ic = 0")
  case True
  then show ?thesis using insert_created[OF assms, of 0 junk] ic_okD(6)[OF assms(1)]
    by (simp add: get_icount_el_def)
next
  case False
  let ?n = "unat (ic_count ic)"
  have i: "unat (ic_count ic - 1) = ?n - 1" "0 < ?n" using False by (simp_all add: unat_minus_one unat_gt_0)
  then have rd: "rd (ic_list ic) (unat (ic_count ic - 1)) = Some (ic_list ic ! (?n - 1))"
    using ic_okD(1)[OF assms(1)] by simp
  show ?thesis
  proof (cases "fst (ic_list ic ! (?n - 1)) < ino")
    case True
    have "fst (ic_list ic ! k) \<le> fst (ic_list ic ! (?n - 1))" if "k < ?n" for k
      using ascending_nth[of "map fst (els ic)" k "?n - 1"] assms(1) that ic_okD(1)[OF assms(1)]
      by (cases "k = ?n - 1") (simp_all add: ic_ok_def order_less_imp_le)
    then have "\<forall>k < ?n. fst (ic_list ic ! k) < ino" using True order_le_less_trans by blast
    then show ?thesis using insert_created[OF assms, of ?n junk] rd True ic_okD(6)[OF assms(1)] False
      by (simp add: get_icount_el_def)
  next
    case f: False
    then show ?thesis using search_el_result[OF assms False, of junk True] rd False
      by (simp add: get_icount_el_def)
  qed
qed

end
