(* ===== verification/Simulation.thy ===== *)
theory Simulation
  imports Prelude
begin

text \<open>
  The interface between an object of the program and its abstract specification: every operation
  succeeds in every reachable state, keeps the invariant, returns what the specification returns and
  commutes with the abstraction. The client lemmas extend that to any sequence of operations.
\<close>

primrec run_steps :: "('op \<Rightarrow> 's \<Rightarrow> ('r \<times> 's) option) \<Rightarrow> 'op list \<Rightarrow> 's \<Rightarrow> ('r list \<times> 's) option" where
  "run_steps step [] s = Some ([], s)"
| "run_steps step (p # ps) s = do {
     (r, s) \<leftarrow> step p s;
     (rs, s) \<leftarrow> run_steps step ps s;
     Some (r # rs, s) }"

primrec run_spec :: "('op \<Rightarrow> 'a \<Rightarrow> 'r \<times> 'a) \<Rightarrow> 'op list \<Rightarrow> 'a \<Rightarrow> 'r list \<times> 'a" where
  "run_spec spec [] a = ([], a)"
| "run_spec spec (p # ps) a = (let (r, a) = spec p a; (rs, a) = run_spec spec ps a in (r # rs, a))"

primrec ok_run :: "('op \<Rightarrow> 'a \<Rightarrow> bool) \<Rightarrow> ('op \<Rightarrow> 'a \<Rightarrow> 'r \<times> 'a) \<Rightarrow> 'op list \<Rightarrow> 'a \<Rightarrow> bool" where
  \<comment> \<open>Every operation is called where it may be called.\<close>
  "ok_run pre spec [] a \<longleftrightarrow> True"
| "ok_run pre spec (p # ps) a \<longleftrightarrow> pre p a \<and> ok_run pre spec ps (snd (spec p a))"

lemma ok_run_True [simp]: "ok_run (\<lambda>_ _. True) spec ps a"
  by (induction ps arbitrary: a) simp_all

text \<open>
  In general the object is related to a value of the specification, operations have preconditions,
  and the relation may hold for a limited number of operations only (its first argument).
\<close>

locale contract =
  fixes rel :: "nat \<Rightarrow> 's \<Rightarrow> 'a \<Rightarrow> bool" and pre :: "'op \<Rightarrow> 'a \<Rightarrow> bool"
    and step :: "'op \<Rightarrow> 's \<Rightarrow> ('r \<times> 's) option" and spec :: "'op \<Rightarrow> 'a \<Rightarrow> 'r \<times> 'a"
  assumes contract_law: "rel (Suc n) s a \<Longrightarrow> pre p a \<Longrightarrow>
      \<exists>r s' a'. step p s = Some (r, s') \<and> spec p a = (r, a') \<and> rel n s' a'"
begin

lemma run_contract:
  "rel (length ps + n) s a \<Longrightarrow> ok_run pre spec ps a \<Longrightarrow>
   \<exists>rs s' a'. run_steps step ps s = Some (rs, s') \<and> run_spec spec ps a = (rs, a') \<and> rel n s' a'"
proof (induction ps arbitrary: s a)
  case (Cons p ps)
  obtain r s' a' where s': "step p s = Some (r, s')" "spec p a = (r, a')" "rel (length ps + n) s' a'"
    using contract_law[of "length ps + n" s a p] Cons.prems by auto
  then show ?case using Cons.IH[OF s'(3)] Cons.prems(2) by auto
qed auto

end

locale simulation =
  fixes inv :: "'s \<Rightarrow> bool" and abs :: "'s \<Rightarrow> 'a"
    and step :: "'op \<Rightarrow> 's \<Rightarrow> ('r \<times> 's) option" and spec :: "'op \<Rightarrow> 'a \<Rightarrow> 'r \<times> 'a"
  assumes step_law: "inv s \<Longrightarrow> \<exists>r s'. step p s = Some (r, s') \<and> inv s' \<and> spec p (abs s) = (r, abs s')"

sublocale simulation \<subseteq> contract "\<lambda>_ s a. inv s \<and> a = abs s" "\<lambda>_ _. True" step spec
  by unfold_locales (use step_law in blast)

context simulation
begin

lemma run_law:
  "inv s \<Longrightarrow> \<exists>rs s'. run_steps step ps s = Some (rs, s') \<and> inv s' \<and> run_spec spec ps (abs s) = (rs, abs s')"
  using run_contract[where s = s and ps = ps and a = "abs s"] by auto

end

text \<open>
  The same for a program that has no specification to follow but an invariant to keep, under inputs
  that satisfy a condition: every step succeeds and keeps the invariant, hence so does any run.
\<close>

locale guarded =
  fixes inv :: "'s \<Rightarrow> bool" and ok :: "'op \<Rightarrow> bool" and step :: "'op \<Rightarrow> 's \<Rightarrow> ('r \<times> 's) option"
  assumes step_ok: "inv s \<and> ok p \<Longrightarrow> \<exists>r s'. step p s = Some (r, s') \<and> inv s'"
begin

lemma run_ok: "inv s \<Longrightarrow> list_all ok ps \<Longrightarrow> \<exists>rs s'. run_steps step ps s = Some (rs, s') \<and> inv s'"
proof (induction ps arbitrary: s)
  case (Cons p ps)
  obtain r s' where s': "step p s = Some (r, s')" "inv s'" using step_ok[of s p] Cons.prems by auto
  then show ?case using Cons.IH[OF s'(2)] Cons.prems by auto
qed simp

end

end
