(* ===== verification/Ext2_Icount_Table.thy ===== *)
theory Ext2_Icount_Table
  imports Ext2_Icount_Search Simulation
begin

text \<open>
  The table of inode counts against its specification: a function from inodes to 16-bit counts,
  with increments that wrap, and decrements that are refused at 0.
\<close>

subsection \<open>The specification\<close>

datatype icount_op = Fetch u32 | Incr u32 | Decr u32 | Store u32 u16

fun table_step :: "u32 \<Rightarrow> icount_op \<Rightarrow> (u32 \<Rightarrow> u16) \<Rightarrow> (errcode \<times> u16 option) \<times> (u32 \<Rightarrow> u16)" where
  "table_step n (Fetch i) t = (if i = 0 \<or> n < i then ((EXT2_ET_INVALID_ARGUMENT, None), t) else ((OK, Some (t i)), t))"
| "table_step n (Incr i) t = (if i = 0 \<or> n < i then ((EXT2_ET_INVALID_ARGUMENT, None), t)
     else ((OK, Some (t i + 1)), t(i := t i + 1)))"
| "table_step n (Decr i) t = (if i = 0 \<or> n < i \<or> t i = 0 then ((EXT2_ET_INVALID_ARGUMENT, None), t)
     else ((OK, Some (t i - 1)), t(i := t i - 1)))"
| "table_step n (Store i c) t = (if i = 0 \<or> n < i then ((EXT2_ET_INVALID_ARGUMENT, None), t)
     else ((OK, None), t(i := c)))"

fun icount_step :: "(nat \<Rightarrow> icount_el) \<Rightarrow> icount_op \<Rightarrow> icount \<Rightarrow> ((errcode \<times> u16 option) \<times> icount) option" where
  "icount_step junk p ic = map_option (\<lambda>(e, r, ic). ((e, r), ic)) (case p of
       Fetch i \<Rightarrow> ext2fs_icount_fetch ic i
     | Incr i \<Rightarrow> ext2fs_icount_increment junk ic i
     | Decr i \<Rightarrow> ext2fs_icount_decrement ic i
     | Store i c \<Rightarrow> ext2fs_icount_store junk ic i c)"

subsection \<open>The abstraction\<close>

definition listed :: "icount \<Rightarrow> u32 \<Rightarrow> bool" where
  "listed ic i = (case multiple ic of None \<Rightarrow> True | Some m \<Rightarrow> i \<in> bm_set m)"

definition count_of :: "icount \<Rightarrow> u32 \<Rightarrow> u16" where
  "count_of ic i = (if i \<in> bm_set (single ic) then 1
     else if listed ic i then (case tab ic i of None \<Rightarrow> 0 | Some c \<Rightarrow> c) else 0)"

definition table :: "u32 \<Rightarrow> icount \<Rightarrow> bool" where
  "table n ic \<longleftrightarrow> ic_ok ic \<and> num_inodes ic = n"

lemma in_range: "valid_ino ic i \<Longrightarrow> 1 \<le> i \<and> i \<le> num_inodes ic"
  by (auto simp: valid_ino_def word_le_nat_alt unat_gt_0 Suc_le_eq)

lemma valid_single [simp]: "valid_ino (ic\<lparr>single := b\<rparr>) = valid_ino ic" by (simp add: valid_ino_def fun_eq_iff)
lemma valid_multiple [simp]: "valid_ino (ic\<lparr>multiple := b\<rparr>) = valid_ino ic" by (simp add: valid_ino_def fun_eq_iff)
lemma valid_list [simp]: "valid_ino (ic\<lparr>ic_list := xs\<rparr>) = valid_ino ic" by (simp add: valid_ino_def fun_eq_iff)

lemma ic_ok_single: "ic_ok ic \<Longrightarrow> bm_over 1 (num_inodes ic) b \<Longrightarrow> ic_ok (ic\<lparr>single := b\<rparr>)"
  by (simp add: ic_ok_def)

lemma ic_ok_multiple: "ic_ok ic \<Longrightarrow> bm_over 1 (num_inodes ic) b \<Longrightarrow> ic_ok (ic\<lparr>multiple := Some b\<rparr>)"
  by (simp add: ic_ok_def)

lemma test_single: "ic_ok ic \<Longrightarrow> bm_test (single ic) i = Some (i \<in> bm_set (single ic))"
  by (auto simp: ic_ok_def intro: bm_test_result)

lemma in_multiple_listed: "ic_ok ic \<Longrightarrow> in_multiple ic i = Some (listed ic i)"
  by (auto simp: ic_ok_def in_multiple_def listed_def intro: bm_test_result split: option.splits)

text \<open>The four updates of the bitmaps; each leaves the array and the other bitmap alone.\<close>

definition updated :: "icount \<Rightarrow> icount \<Rightarrow> u32 set \<Rightarrow> (u32 \<Rightarrow> bool) \<Rightarrow> bool" where
  "updated ic ic' S L \<longleftrightarrow> ic_ok ic' \<and> num_inodes ic' = num_inodes ic \<and> ic_list ic' = ic_list ic
     \<and> ic_count ic' = ic_count ic \<and> bm_set (single ic') = S \<and> listed ic' = L
     \<and> (multiple ic' = None \<longleftrightarrow> multiple ic = None)"

lemma mark_single_ok:
  assumes "ic_ok ic" "valid_ino ic i"
  shows "\<exists>ic'. mark_single ic i = Some ic' \<and> updated ic ic' (insert i (bm_set (single ic))) (listed ic)"
proof -
  have "bm_over 1 (num_inodes ic) (single ic)" using assms(1) by (simp add: ic_ok_def)
  then obtain b where "bm_mark (single ic) i = Some b" "bm_over 1 (num_inodes ic) b"
    "bm_set b = insert i (bm_set (single ic))"
    using bm_mark_result in_range[OF assms(2)] by blast
  then show ?thesis using ic_ok_single[OF assms(1)]
    by (simp add: mark_single_def updated_def listed_def fun_eq_iff)
qed

lemma unmark_single_ok:
  assumes "ic_ok ic" "valid_ino ic i"
  shows "\<exists>ic'. unmark_single ic i = Some ic' \<and> updated ic ic' (bm_set (single ic) - {i}) (listed ic)"
proof -
  have "bm_over 1 (num_inodes ic) (single ic)" using assms(1) by (simp add: ic_ok_def)
  then obtain b where "bm_unmark (single ic) i = Some b" "bm_over 1 (num_inodes ic) b"
    "bm_set b = bm_set (single ic) - {i}"
    using bm_unmark_result in_range[OF assms(2)] by blast
  then show ?thesis using ic_ok_single[OF assms(1)]
    by (simp add: unmark_single_def updated_def listed_def fun_eq_iff)
qed

lemma mark_multiple_ok:
  assumes "ic_ok ic" "valid_ino ic i"
  shows "\<exists>ic'. mark_multiple ic i = Some ic' \<and> updated ic ic' (bm_set (single ic)) ((listed ic)(i := True))"
proof (cases "multiple ic")
  case None
  then show ?thesis using assms(1) by (auto simp: mark_multiple_def updated_def listed_def)
next
  case (Some m)
  then have "bm_over 1 (num_inodes ic) m" using assms(1) by (simp add: ic_ok_def)
  then obtain b where "bm_mark m i = Some b" "bm_over 1 (num_inodes ic) b" "bm_set b = insert i (bm_set m)"
    using bm_mark_result in_range[OF assms(2)] by blast
  then show ?thesis using ic_ok_multiple[OF assms(1)] Some
    by (auto simp: mark_multiple_def updated_def listed_def fun_eq_iff)
qed

lemma unmark_multiple_ok:
  assumes "ic_ok ic" "valid_ino ic i"
  shows "\<exists>ic'. unmark_multiple ic i = Some ic'
    \<and> updated ic ic' (bm_set (single ic)) ((listed ic)(i := multiple ic = None))"
proof (cases "multiple ic")
  case None
  then show ?thesis using assms(1) by (auto simp: unmark_multiple_def updated_def listed_def)
next
  case (Some m)
  then have "bm_over 1 (num_inodes ic) m" using assms(1) by (simp add: ic_ok_def)
  then obtain b where "bm_unmark m i = Some b" "bm_over 1 (num_inodes ic) b" "bm_set b = bm_set m - {i}"
    using bm_unmark_result in_range[OF assms(2)] by blast
  then show ?thesis using ic_ok_multiple[OF assms(1)] Some
    by (auto simp: unmark_multiple_def updated_def listed_def fun_eq_iff)
qed

lemma set_el_ok:
  assumes "ic_ok ic" "element ic ino i"
  shows "ic_ok (set_el ic i c)" "tab (set_el ic i c) = (tab ic)(ino \<mapsto> c)" "element (set_el ic i c) ino i"
    "el_count (set_el ic i c) i = c" "same_bitmaps ic (set_el ic i c)"
proof -
  have i: "i < unat (ic_count ic)" "fst (ic_list ic ! i) = ino" "i < length (ic_list ic)"
    using assms ic_okD(1)[OF assms(1)] by (simp_all add: element_def)
  let ?e = "els ic"
  have e: "els (set_el ic i c) = ?e[i := (ino, c)]" using i by (simp add: set_el_def take_update_swap)
  have keys: "map fst (?e[i := (ino, c)]) = map fst ?e" using i by (simp add: map_update list_update_same_conv)
  have nth: "?e ! i = (ino, snd (ic_list ic ! i))" "i < length ?e" using i by (simp_all add: prod_eq_iff)
  have "?e ! i \<in> set ?e" using nth(2) by (rule nth_mem)
  then have "valid_ino ic ino" using assms(1) nth(1) by (force simp: ic_ok_def)
  then have "\<forall>e \<in> set (?e[i := (ino, c)]). valid_ino ic (fst e)"
    using assms(1) set_update_subset_insert[of ?e i "(ino, c)"] by (force simp: ic_ok_def)
  then show "ic_ok (set_el ic i c)"
    using assms(1) unfolding ic_ok_def e keys by (simp add: set_el_def)
  have split: "?e = take i ?e @ (ino, snd (ic_list ic ! i)) # drop (Suc i) ?e"
    using id_take_nth_drop[OF nth(2)] nth(1) by simp
  have "distinct (map fst ?e)" using assms(1) by (simp add: ic_ok_def strict_sorted_iff)
  then have "distinct (map fst (take i ?e @ (ino, snd (ic_list ic ! i)) # drop (Suc i) ?e))" using split by metis
  then have "ino \<notin> fst ` set (take i ?e)" by simp
  then have ins: "map_of (take i ?e @ (ino, v) # drop (Suc i) ?e) = (map_of (take i ?e @ drop (Suc i) ?e))(ino \<mapsto> v)" for v
    by (rule map_of_insert)
  have "tab ic = (map_of (take i ?e @ drop (Suc i) ?e))(ino \<mapsto> snd (ic_list ic ! i))"
    using arg_cong[OF split, of map_of] ins[of "snd (ic_list ic ! i)"] by (rule trans)
  then show "tab (set_el ic i c) = (tab ic)(ino \<mapsto> c)"
    unfolding e using ins[of c] nth(2) by (simp add: upd_conv_take_nth_drop)
  show "element (set_el ic i c) ino i" "el_count (set_el ic i c) i = c" "same_bitmaps ic (set_el ic i c)"
    using i by (simp_all add: element_def set_el_def el_count_def same_bitmaps_def)
qed

lemma element_tab: "ic_ok ic \<Longrightarrow> element ic ino i \<Longrightarrow> tab ic ino = Some (el_count ic i)"
  using tab_nth[of ic i] by (auto simp: element_def el_count_def)

definition dflt :: "u16 option \<Rightarrow> u16" where
  "dflt x = (case x of None \<Rightarrow> 0 | Some c \<Rightarrow> c)"

lemma count_of_dflt:
  "count_of ic i = (if i \<in> bm_set (single ic) then 1 else if listed ic i then dflt (tab ic i) else 0)"
  by (simp add: count_of_def dflt_def)

lemma updated_count:
  "updated ic ic' S L \<Longrightarrow> count_of ic' = (\<lambda>i. if i \<in> S then 1 else if L i then dflt (tab ic i) else 0)"
  by (simp add: updated_def count_of_dflt fun_eq_iff)

lemma updatedD:
  "updated ic ic' S L \<Longrightarrow> ic_ok ic'" "updated ic ic' S L \<Longrightarrow> tab ic' = tab ic"
  "updated ic ic' S L \<Longrightarrow> element ic' = element ic" "updated ic ic' S L \<Longrightarrow> el_count ic' = el_count ic"
  "updated ic ic' S L \<Longrightarrow> valid_ino ic' = valid_ino ic" "updated ic ic' S L \<Longrightarrow> num_inodes ic' = num_inodes ic"
  "updated ic ic' S L \<Longrightarrow> bm_set (single ic') = S" "updated ic ic' S L \<Longrightarrow> listed ic' = L"
  "updated ic ic' S L \<Longrightarrow> multiple ic' = None \<longleftrightarrow> multiple ic = None"
  by (simp_all add: updated_def element_def el_count_def valid_ino_def fun_eq_iff)

lemma same_bitmapsD:
  "same_bitmaps ic ic' \<Longrightarrow> single ic' = single ic" "same_bitmaps ic ic' \<Longrightarrow> listed ic' = listed ic"
  "same_bitmaps ic ic' \<Longrightarrow> num_inodes ic' = num_inodes ic" "same_bitmaps ic ic' \<Longrightarrow> valid_ino ic' = valid_ino ic"
  "same_bitmaps ic ic' \<Longrightarrow> multiple ic' = multiple ic"
  by (simp_all add: same_bitmaps_def listed_def valid_ino_def fun_eq_iff)

lemma createdE:
  assumes "ic_ok ic" "valid_ino ic i"
  obtains ic' k where "get_icount_el junk ic i True = Some (ic', Some k)" "ic_ok ic'" "element ic' i k"
    "same_bitmaps ic ic'" "count_of ic' = count_of ic" "dflt (tab ic i) = el_count ic' k"
proof -
  obtain ic' el where r: "get_icount_el junk ic i True = Some (ic', el)" "created ic i (ic', el)"
    using get_el_created[OF assms, of junk] by auto
  then obtain k where k: "el = Some k" "element ic' i k" "ic_ok ic'" "same_bitmaps ic ic'"
    by (auto simp: created_def)
  have t: "dflt (tab ic' j) = dflt (tab ic j)" for j
    using r(2) by (auto simp: created_def dflt_def)
  then have "count_of ic' = count_of ic"
    using same_bitmapsD[OF k(4)] by (simp add: fun_eq_iff count_of_dflt)
  moreover have "dflt (tab ic i) = el_count ic' k"
    using t[of i] element_tab[OF k(3,2)] by (simp add: dflt_def)
  ultimately show thesis using that r(1) k by blast
qed

lemma foundE:
  assumes "ic_ok ic" "valid_ino ic i"
  obtains ic' el where "get_icount_el junk ic i False = Some (ic', el)" "ic_ok ic'"
    "same_bitmaps ic ic'" "tab ic' = tab ic" "count_of ic' = count_of ic"
    "tab ic i = map_option (el_count ic') el" "\<forall>k. el = Some k \<longrightarrow> element ic' i k"
proof -
  obtain ic' el where r: "get_icount_el junk ic i False = Some (ic', el)" "found ic i (ic', el)"
    using get_el_found[OF assms, of junk] by auto
  then have k: "ic_ok ic'" "same_bitmaps ic ic'" "tab ic' = tab ic" by (simp_all add: found_def)
  moreover have "count_of ic' = count_of ic"
    using same_bitmapsD[OF k(2)] k(3) by (simp add: fun_eq_iff count_of_dflt)
  moreover have "tab ic i = map_option (el_count ic') el" "\<forall>k. el = Some k \<longrightarrow> element ic' i k"
    using r(2) element_tab[OF k(1)] k(3) by (cases el; force simp: found_def)+
  ultimately show thesis using that r(1) by blast
qed

lemma increment_el_ok:
  assumes "ic_ok ic" "valid_ino ic i" "element ic i k" "i \<notin> bm_set (single ic)"
  shows "\<exists>ic'. increment_el ic i (Some k) f = Some (OK, Some (f (el_count ic k)), ic') \<and> ic_ok ic'
    \<and> num_inodes ic' = num_inodes ic \<and> count_of ic' = (count_of ic)(i := f (el_count ic k))"
proof -
  let ?ic = "set_el ic k (f (el_count ic k))"
  have s: "ic_ok ?ic" "tab ?ic = (tab ic)(i \<mapsto> f (el_count ic k))" "element ?ic i k"
    "el_count ?ic k = f (el_count ic k)" and sb: "same_bitmaps ic ?ic"
    by (rule set_el_ok[OF assms(1,3)])+
  have "valid_ino ?ic i" using assms(2) same_bitmapsD(4)[OF sb] by simp
  then obtain ic' where m: "mark_multiple ?ic i = Some ic'"
    "updated ?ic ic' (bm_set (single ?ic)) ((listed ?ic)(i := True))"
    using mark_multiple_ok[OF s(1)] by blast
  have "count_of ic' = (count_of ic)(i := f (el_count ic k))"
    using assms(4) s(2) same_bitmapsD(1,2)[OF sb]
    unfolding updated_count[OF m(2)] by (auto simp: fun_eq_iff count_of_dflt dflt_def)
  then show ?thesis
    using m(1) s(4) updatedD[OF m(2)] same_bitmapsD(3)[OF sb] by (simp add: increment_el_def Let_def)
qed

lemma zero_count_ok:
  assumes "ic_ok ic" "valid_ino ic i" "count_of ic i = 0"
  shows "\<exists>ic'. zero_count ic i = Some (OK, Some (count_of ic i + 1), ic') \<and> ic_ok ic'
    \<and> num_inodes ic' = num_inodes ic \<and> count_of ic' = (count_of ic)(i := count_of ic i + 1)"
proof -
  obtain ic' where m: "mark_single ic i = Some ic'" "updated ic ic' (insert i (bm_set (single ic))) (listed ic)"
    using mark_single_ok[OF assms(1,2)] by blast
  have "count_of ic' = (count_of ic)(i := 1)"
    unfolding updated_count[OF m(2)] by (auto simp: fun_eq_iff count_of_dflt)
  then show ?thesis using m(1) updatedD[OF m(2)] assms(3) by (simp add: zero_count_def)
qed

subsection \<open>Each operation\<close>

definition agrees :: "u32 \<Rightarrow> icount_op \<Rightarrow> icount \<Rightarrow> icount_result option \<Rightarrow> bool" where
  "agrees n p ic res \<longleftrightarrow> (\<exists>e r ic'. res = Some (e, r, ic') \<and> table n ic'
     \<and> table_step n p (count_of ic) = ((e, r), count_of ic'))"

lemma agreesI:
  "res = Some (e, r, ic') \<Longrightarrow> ic_ok ic' \<Longrightarrow> num_inodes ic' = n \<Longrightarrow>
   table_step n p (count_of ic) = ((e, r), count_of ic') \<Longrightarrow> agrees n p ic res"
  by (auto simp: agrees_def table_def)

lemma table_magic: "table n ic \<Longrightarrow> ic_magic ic = EXT2_ET_MAGIC_ICOUNT" "table n ic \<Longrightarrow> ic_ok ic"
  "table n ic \<Longrightarrow> num_inodes ic = n"
  by (auto simp: table_def ic_ok_def)

lemma table_valid: "table n ic \<Longrightarrow> valid_ino ic i \<longleftrightarrow> \<not> (i = 0 \<or> n < i)"
  by (auto simp: valid_ino_def table_def)

lemma fetch_agrees:
  assumes "table n ic"
  shows "agrees n (Fetch i) ic (ext2fs_icount_fetch ic i)"
proof (cases "valid_ino ic i")
  case False
  then show ?thesis using assms table_valid[OF assms, of i]
    by (intro agreesI) (auto simp: ext2fs_icount_fetch_def table_magic)
next
  case v: True
  note ok = table_magic(2)[OF assms]
  have sem: "ext2fs_icount_fetch ic i = (if i \<in> bm_set (single ic) then Some (OK, Some 1, ic)
      else if \<not> listed ic i then Some (OK, Some 0, ic)
      else do { (ic, el) \<leftarrow> get_icount_el (\<lambda>_. (0, 0)) ic i False;
        Some (OK, Some (case el of None \<Rightarrow> 0 | Some i \<Rightarrow> el_count ic i), ic) })"
    using v by (simp add: ext2fs_icount_fetch_def table_magic[OF assms] test_single[OF ok] in_multiple_listed[OF ok])
  obtain ic' el where g: "get_icount_el (\<lambda>_. (0, 0)) ic i False = Some (ic', el)" "ic_ok ic'" "same_bitmaps ic ic'"
    "count_of ic' = count_of ic" "tab ic i = map_option (el_count ic') el"
    using foundE[OF ok v] by metis
  have t: "dflt (tab ic i) = (case el of None \<Rightarrow> 0 | Some i \<Rightarrow> el_count ic' i)" by (simp add: g(5) dflt_def split: option.split)
  have "table_step n (Fetch i) (count_of ic) = ((OK, Some (count_of ic i)), count_of ic)"
    using v table_valid[OF assms] by simp
  then show ?thesis
    using g(1-4) t ok table_magic(3)[OF assms] same_bitmapsD(3)[OF g(3)]
    by (simp add: sem agrees_def table_def count_of_dflt[of ic i])
qed

lemma increment_agrees:
  assumes "table n ic"
  shows "agrees n (Incr i) ic (ext2fs_icount_increment junk ic i)"
proof (cases "valid_ino ic i")
  case False
  then show ?thesis using assms table_valid[OF assms, of i]
    by (intro agreesI) (auto simp: ext2fs_icount_increment_def table_magic)
next
  case v: True
  note ok = table_magic(2)[OF assms]
  have goal: ?thesis if "ext2fs_icount_increment junk ic i = Some (OK, Some (count_of ic i + 1), ic')" "ic_ok ic'"
    "num_inodes ic' = n" "count_of ic' = (count_of ic)(i := count_of ic i + 1)" for ic'
    by (rule agreesI[OF that(1-3)]) (use v table_valid[OF assms] that(4) in simp)
  obtain ic1 k where g: "get_icount_el junk ic i True = Some (ic1, Some k)" "ic_ok ic1" "element ic1 i k"
    "same_bitmaps ic ic1" "count_of ic1 = count_of ic" "dflt (tab ic i) = el_count ic1 k"
    by (rule createdE[OF ok v])
  have sb: "single ic1 = single ic" "listed ic1 = listed ic" "num_inodes ic1 = n" "valid_ino ic1 i"
    using same_bitmapsD[OF g(4)] table_magic(3)[OF assms] v by simp_all
  note def = ext2fs_icount_increment_def table_magic(1)[OF assms] test_single[OF ok] in_multiple_listed[OF ok]
  show ?thesis
  proof (cases "i \<in> bm_set (single ic)")
    case True
    obtain ic2 where u: "unmark_single ic1 i = Some ic2" "updated ic1 ic2 (bm_set (single ic1) - {i}) (listed ic1)"
      using unmark_single_ok[OF g(2) sb(4)] by blast
    obtain ic' where r: "increment_el ic2 i (Some k) (\<lambda>_. 2) = Some (OK, Some 2, ic')" "ic_ok ic'"
      "num_inodes ic' = num_inodes ic2" "count_of ic' = (count_of ic2)(i := 2)"
      using increment_el_ok[OF updatedD(1)[OF u(2)], of i k "\<lambda>_. 2"] g(3) sb(4) updatedD(3,5,7)[OF u(2)] by auto
    have "(count_of ic2)(i := 2) = (count_of ic1)(i := 2)"
      unfolding updated_count[OF u(2)] by (auto simp: fun_eq_iff count_of_dflt)
    then show ?thesis using r u(1) g(1,5) sb(3) updatedD(6)[OF u(2)] True v
      by (intro goal[of ic']) (simp_all add: def count_of_dflt[of ic i])
  next
    case False
    then have c: "count_of ic i = (if listed ic i then dflt (tab ic i) else 0)" by (simp add: count_of_dflt)
    have zero: ?thesis if "count_of ic i = 0" "ext2fs_icount_increment junk ic i = zero_count ic i"
      using zero_count_ok[OF ok v that(1)] that(2) table_magic(3)[OF assms] goal by fastforce
    have bump: "\<exists>ic'. increment_el ic1 i (Some k) (\<lambda>c. c + 1) = Some (OK, Some (dflt (tab ic i) + 1), ic') \<and> ic_ok ic'
        \<and> num_inodes ic' = n \<and> count_of ic' = (count_of ic)(i := dflt (tab ic i) + 1)"
      using increment_el_ok[OF g(2) sb(4) g(3), of "\<lambda>c. c + 1"] False g(5,6) sb by simp
    show ?thesis
    proof (cases "multiple ic = None")
      case m: False
      show ?thesis
      proof (cases "listed ic i")
        case True
        then show ?thesis using bump goal False m v g(1) c by (auto simp: def)
      next
        case f: False
        then show ?thesis using zero c False m v by (simp add: def)
      qed
    next
      case m: True
      then have l: "listed ic i" by (simp add: listed_def)
      obtain ic' el where f: "get_icount_el junk ic i False = Some (ic', el)" "ic_ok ic'" "same_bitmaps ic ic'"
        "tab ic' = tab ic" "count_of ic' = count_of ic" "tab ic i = map_option (el_count ic') el"
        by (rule foundE[OF ok v])
      have v': "valid_ino ic' i" using same_bitmapsD(4)[OF f(3)] v by simp
      show ?thesis
      proof (cases el)
        case None
        then have z: "count_of ic' i = 0" using c f(5,6) by (simp add: dflt_def)
        then show ?thesis
          using zero_count_ok[OF f(2) v' z] goal f(1,5) None False m v same_bitmapsD(3)[OF f(3)] table_magic(3)[OF assms]
          by (auto simp: def)
      next
        case (Some j)
        obtain ic2 l where g2: "get_icount_el junk ic' i True = Some (ic2, Some l)" "ic_ok ic2" "element ic2 i l"
          "same_bitmaps ic' ic2" "count_of ic2 = count_of ic'" "dflt (tab ic' i) = el_count ic2 l"
          by (rule createdE[OF f(2) v'])
        have "single ic2 = single ic" "num_inodes ic2 = n" "valid_ino ic2 i"
          using same_bitmapsD[OF g2(4)] same_bitmapsD[OF f(3)] table_magic(3)[OF assms] v by simp_all
        then obtain ic3 where "increment_el ic2 i (Some l) (\<lambda>c. c + 1) = Some (OK, Some (dflt (tab ic i) + 1), ic3)"
          "ic_ok ic3" "num_inodes ic3 = n" "count_of ic3 = (count_of ic)(i := dflt (tab ic i) + 1)"
          using increment_el_ok[OF g2(2) _ g2(3), of "\<lambda>c. c + 1"] False g2(5,6) f(4,5) by auto
        then show ?thesis using goal f(1) g2(1) Some c l False m v by (simp add: def)
      qed
    qed
  qed
qed

lemma clear_el_ok:
  assumes "ic_ok ic" "valid_ino ic i" "i \<notin> bm_set (single ic)"
  shows "\<exists>ic'. clear_el ic i = Some ic' \<and> ic_ok ic' \<and> num_inodes ic' = num_inodes ic
    \<and> count_of ic' = (count_of ic)(i := 0)"
proof -
  obtain ic1 el where f: "get_icount_el (\<lambda>_. (0, 0)) ic i False = Some (ic1, el)" "ic_ok ic1" "same_bitmaps ic ic1"
    "tab ic1 = tab ic" "count_of ic1 = count_of ic" "tab ic i = map_option (el_count ic1) el"
    "\<forall>k. el = Some k \<longrightarrow> element ic1 i k"
    by (rule foundE[OF assms(1,2)])
  show ?thesis
  proof (cases el)
    case None
    then have "(count_of ic)(i := 0) = count_of ic" using f(6) assms(3) by (auto simp: count_of_dflt dflt_def)
    then show ?thesis using f None same_bitmapsD(3)[OF f(3)] by (simp add: clear_el_def)
  next
    case (Some k)
    then have s: "ic_ok (set_el ic1 k 0)" "tab (set_el ic1 k 0) = (tab ic1)(i \<mapsto> 0)" "same_bitmaps ic1 (set_el ic1 k 0)"
      using set_el_ok[OF f(2)] f(7) by blast+
    have "count_of (set_el ic1 k 0) = (count_of ic)(i := 0)"
      using assms(3) s(2) f(4) same_bitmapsD(1,2)[OF s(3)] same_bitmapsD(1,2)[OF f(3)]
      by (auto simp: fun_eq_iff count_of_dflt dflt_def)
    then show ?thesis
      using f(1) Some s(1) same_bitmapsD(3)[OF f(3)] same_bitmapsD(3)[OF s(3)] by (simp add: clear_el_def)
  qed
qed

text \<open>\<open>ic <- (if multiple ic <> None then unmark_multiple ic i else clear_el ic i)\<close>, after the single
  bit is gone: the count is 0.\<close>

lemma forget_ok:
  assumes "ic_ok ic" "valid_ino ic i"
  shows "\<exists>ic2 ic'. unmark_single ic i = Some ic2
    \<and> (if multiple ic2 \<noteq> None then unmark_multiple ic2 i else clear_el ic2 i) = Some ic'
    \<and> ic_ok ic' \<and> num_inodes ic' = num_inodes ic \<and> count_of ic' = (count_of ic)(i := 0)"
proof -
  obtain ic2 where u: "unmark_single ic i = Some ic2" "updated ic ic2 (bm_set (single ic) - {i}) (listed ic)"
    using unmark_single_ok[OF assms] by blast
  have v: "valid_ino ic2 i" "i \<notin> bm_set (single ic2)" using updatedD(5,7)[OF u(2)] assms(2) by simp_all
  have c: "(count_of ic2)(i := 0) = (count_of ic)(i := 0)"
    unfolding updated_count[OF u(2)] by (auto simp: fun_eq_iff count_of_dflt)
  show ?thesis
  proof (cases "multiple ic2 = None")
    case True
    then show ?thesis using clear_el_ok[OF updatedD(1)[OF u(2)] v] c u(1) updatedD(6)[OF u(2)] by auto
  next
    case False
    then obtain ic3 where m: "unmark_multiple ic2 i = Some ic3"
      "updated ic2 ic3 (bm_set (single ic2)) ((listed ic2)(i := False))"
      using unmark_multiple_ok[OF updatedD(1)[OF u(2)] v(1)] by auto
    have "count_of ic3 = (count_of ic2)(i := 0)"
      unfolding updated_count[OF m(2)] using v(2) by (auto simp: fun_eq_iff count_of_dflt)
    then show ?thesis using u(1) m(1) False c updatedD(1,6)[OF m(2)] updatedD(6)[OF u(2)] by simp
  qed
qed

lemma decrement_el_ok:
  assumes "ic_ok ic" "valid_ino ic i" "element ic i k" "i \<notin> bm_set (single ic)" "listed ic i" "el_count ic k \<noteq> 0"
  shows "\<exists>ic'. decrement_el ic i k = Some (OK, Some (count_of ic i - 1), ic') \<and> ic_ok ic'
    \<and> num_inodes ic' = num_inodes ic \<and> count_of ic' = (count_of ic)(i := count_of ic i - 1)"
proof -
  let ?c = "el_count ic k - 1" and ?ic = "set_el ic k (el_count ic k - 1)"
  have s: "ic_ok ?ic" "tab ?ic = (tab ic)(i \<mapsto> ?c)" and sb: "same_bitmaps ic ?ic"
    by (rule set_el_ok[OF assms(1,3)])+
  have v: "valid_ino ?ic i" using assms(2) same_bitmapsD(4)[OF sb] by simp
  have c: "count_of ic i = el_count ic k" using assms(4,5) element_tab[OF assms(1,3)] by (simp add: count_of_dflt dflt_def)
  have e: "count_of ?ic = (count_of ic)(i := ?c)"
    using s(2) assms(4,5) same_bitmapsD(1,2)[OF sb] by (auto simp: fun_eq_iff count_of_dflt dflt_def)
  obtain ic2 where m: "(if ?c = 1 then mark_single ?ic i else Some ?ic) = Some ic2" "ic_ok ic2"
    "num_inodes ic2 = num_inodes ic" "count_of ic2 = count_of ?ic" "valid_ino ic2 i" "?c \<noteq> 1 \<longrightarrow> ic2 = ?ic"
  proof (cases "?c = 1")
    case True
    obtain ic2 where u: "mark_single ?ic i = Some ic2" "updated ?ic ic2 (insert i (bm_set (single ?ic))) (listed ?ic)"
      using mark_single_ok[OF s(1) v] by blast
    have "count_of ic2 = (count_of ?ic)(i := 1)"
      unfolding updated_count[OF u(2)] by (auto simp: fun_eq_iff count_of_dflt)
    moreover have "(count_of ?ic)(i := 1) = count_of ?ic" using e True by auto
    ultimately show thesis using that[of ic2] True u(1) updatedD(1,5,6)[OF u(2)] same_bitmapsD(3)[OF sb] v by simp
  qed (use that[of ?ic] s(1) same_bitmapsD(3)[OF sb] v in simp)
  obtain ic3 where w: "(if ?c = 0 then unmark_multiple ic2 i else Some ic2) = Some ic3" "ic_ok ic3"
    "num_inodes ic3 = num_inodes ic" "count_of ic3 = count_of ic2"
  proof (cases "?c = 0")
    case True
    then have i2: "ic2 = ?ic" using m(6) by simp
    obtain ic3 where u: "unmark_multiple ic2 i = Some ic3"
      "updated ic2 ic3 (bm_set (single ic2)) ((listed ic2)(i := multiple ic2 = None))"
      using unmark_multiple_ok[OF m(2,5)] by blast
    have "count_of ic2 i = 0" using m(4) e True by simp
    moreover have "count_of ic3 = (count_of ic2)(i := if i \<in> bm_set (single ic2) then 1 else
        if multiple ic2 = None then dflt (tab ic2 i) else 0)"
      unfolding updated_count[OF u(2)] by (auto simp: fun_eq_iff count_of_dflt)
    moreover have "i \<notin> bm_set (single ic2)" "dflt (tab ic2 i) = 0"
      using i2 assms(4) same_bitmapsD(1)[OF sb] s(2) True by (simp_all add: dflt_def)
    ultimately have "count_of ic3 = count_of ic2" by (simp add: fun_eq_iff)
    then show thesis using that[of ic3] True u(1) updatedD(1,6)[OF u(2)] m(3) by simp
  qed (use that[of ic2] m in simp)
  show ?thesis using m(1,4) w e c by (simp add: decrement_el_def Let_def)
qed

lemma decrement_agrees:
  assumes "table n ic"
  shows "agrees n (Decr i) ic (ext2fs_icount_decrement ic i)"
proof (cases "valid_ino ic i")
  case False
  then show ?thesis using assms table_valid[OF assms, of i]
    by (intro agreesI) (auto simp: ext2fs_icount_decrement_def table_magic)
next
  case v: True
  note ok = table_magic(2)[OF assms] and n = table_magic(3)[OF assms]
  note def = ext2fs_icount_decrement_def table_magic(1)[OF assms] test_single[OF ok] in_multiple_listed[OF ok]
  have valid: "\<not> (i = 0 \<or> n < i)" using v table_valid[OF assms] by simp
  have goal: ?thesis if "ext2fs_icount_decrement ic i = Some (OK, Some (count_of ic i - 1), ic')" "ic_ok ic'"
    "num_inodes ic' = n" "count_of ic' = (count_of ic)(i := count_of ic i - 1)" "count_of ic i \<noteq> 0" for ic'
    by (rule agreesI[OF that(1-3)]) (use valid that(4,5) in simp)
  have refuse: ?thesis if "ext2fs_icount_decrement ic i = Some (EXT2_ET_INVALID_ARGUMENT, None, ic')" "ic_ok ic'"
    "num_inodes ic' = n" "count_of ic' = count_of ic" "count_of ic i = 0" for ic'
    by (rule agreesI[OF that(1-3)]) (use that(4,5) in simp)
  show ?thesis
  proof (cases "i \<in> bm_set (single ic)")
    case True
    then have c: "count_of ic i = 1" by (simp add: count_of_dflt)
    obtain ic2 ic' where f: "unmark_single ic i = Some ic2"
      "(if multiple ic2 \<noteq> None then unmark_multiple ic2 i else clear_el ic2 i) = Some ic'"
      "ic_ok ic'" "num_inodes ic' = num_inodes ic" "count_of ic' = (count_of ic)(i := 0)"
      using forget_ok[OF ok v] by blast
    have "ext2fs_icount_decrement ic i = Some (OK, Some 0, ic')"
      using f(1,2) True v by (simp add: def del: not_None_eq)
    then show ?thesis using goal[of ic'] f(3-5) c n by simp
  next
    case False
    show ?thesis
    proof (cases "listed ic i")
      case l: False
      then show ?thesis using refuse[of ic] False v ok n by (simp add: def count_of_dflt)
    next
      case l: True
      obtain ic1 el where f: "get_icount_el (\<lambda>_. (0, 0)) ic i False = Some (ic1, el)" "ic_ok ic1" "same_bitmaps ic ic1"
        "tab ic1 = tab ic" "count_of ic1 = count_of ic" "tab ic i = map_option (el_count ic1) el"
        "\<forall>k. el = Some k \<longrightarrow> element ic1 i k"
        by (rule foundE[OF ok v])
      note sb = same_bitmapsD[OF f(3)]
      show ?thesis
      proof (cases "dflt (tab ic i) = 0")
        case True
        then show ?thesis using refuse[of ic1] f False l v n sb(3)
          by (cases el) (simp_all add: def count_of_dflt dflt_def)
      next
        case nz: False
        then obtain k where k: "el = Some k" "element ic1 i k" "el_count ic1 k \<noteq> 0"
          using f(6,7) by (cases el) (auto simp: dflt_def)
        have "count_of ic i \<noteq> 0" using nz False l by (simp add: count_of_dflt)
        moreover obtain ic' where "decrement_el ic1 i k = Some (OK, Some (count_of ic1 i - 1), ic')" "ic_ok ic'"
          "num_inodes ic' = num_inodes ic1" "count_of ic' = (count_of ic1)(i := count_of ic1 i - 1)"
          using decrement_el_ok[OF f(2) _ k(2) _ _ k(3)] sb v False l by auto
        ultimately show ?thesis using goal[of ic'] f(1,5) k(1,3) False l v n sb(3) by (simp add: def)
      qed
    qed
  qed
qed

lemma store_agrees:
  assumes "table n ic"
  shows "agrees n (Store i c) ic (ext2fs_icount_store junk ic i c)"
proof (cases "valid_ino ic i")
  case False
  then show ?thesis using assms table_valid[OF assms, of i]
    by (intro agreesI) (auto simp: ext2fs_icount_store_def table_magic)
next
  case v: True
  note ok = table_magic(2)[OF assms] and n = table_magic(3)[OF assms]
  note def = ext2fs_icount_store_def table_magic(1)[OF assms]
  have valid: "\<not> (i = 0 \<or> n < i)" using v table_valid[OF assms] by simp
  have goal: ?thesis if "ext2fs_icount_store junk ic i c = Some (OK, None, ic')" "ic_ok ic'"
    "num_inodes ic' = n" "count_of ic' = (count_of ic)(i := c)" for ic'
    by (rule agreesI[OF that(1-3)]) (use valid that(4) in simp)
  consider "c = 1" | "c = 0" | "c \<noteq> 1" "c \<noteq> 0" by blast
  then show ?thesis
  proof cases
    case 1
    obtain ic2 where u: "mark_single ic i = Some ic2" "updated ic ic2 (insert i (bm_set (single ic))) (listed ic)"
      using mark_single_ok[OF ok v] by blast
    obtain ic3 where m: "unmark_multiple ic2 i = Some ic3"
      "updated ic2 ic3 (bm_set (single ic2)) ((listed ic2)(i := multiple ic2 = None))"
      using unmark_multiple_ok[OF updatedD(1)[OF u(2)]] updatedD(5)[OF u(2)] v by auto
    have "count_of ic3 = (count_of ic)(i := 1)"
      unfolding updated_count[OF m(2)] using updatedD(2,7,8)[OF u(2)] by (auto simp: fun_eq_iff count_of_dflt)
    then show ?thesis using goal[of ic3] u(1) m(1) 1 v n updatedD(1,6)[OF m(2)] updatedD(6)[OF u(2)]
      by (simp add: def)
  next
    case 2
    obtain ic2 ic' where f: "unmark_single ic i = Some ic2"
      "(if multiple ic2 \<noteq> None then unmark_multiple ic2 i else clear_el ic2 i) = Some ic'"
      "ic_ok ic'" "num_inodes ic' = num_inodes ic" "count_of ic' = (count_of ic)(i := 0)"
      using forget_ok[OF ok v] by blast
    have "ext2fs_icount_store junk ic i c = Some (OK, None, ic')"
      using f(1,2) 2 v by (simp add: def del: not_None_eq)
    then show ?thesis using goal[of ic'] f(3-5) 2 n by simp
  next
    case 3
    obtain ic1 k where g: "get_icount_el junk ic i True = Some (ic1, Some k)" "ic_ok ic1" "element ic1 i k"
      "same_bitmaps ic ic1" "count_of ic1 = count_of ic" "dflt (tab ic i) = el_count ic1 k"
      by (rule createdE[OF ok v])
    let ?ic = "set_el ic1 k c"
    have s: "ic_ok ?ic" "tab ?ic = (tab ic1)(i \<mapsto> c)" and sb: "same_bitmaps ic1 ?ic"
      by (rule set_el_ok[OF g(2,3)])+
    have v2: "valid_ino ?ic i" using same_bitmapsD(4)[OF sb] same_bitmapsD(4)[OF g(4)] v by simp
    obtain ic2 where u: "unmark_single ?ic i = Some ic2" "updated ?ic ic2 (bm_set (single ?ic) - {i}) (listed ?ic)"
      using unmark_single_ok[OF s(1) v2] by blast
    obtain ic3 where m: "mark_multiple ic2 i = Some ic3"
      "updated ic2 ic3 (bm_set (single ic2)) ((listed ic2)(i := True))"
      using mark_multiple_ok[OF updatedD(1)[OF u(2)]] updatedD(5)[OF u(2)] v2 by auto
    have "count_of ic3 = (count_of ic1)(i := c)"
      unfolding updated_count[OF m(2)] using updatedD(2,7,8)[OF u(2)] s(2) same_bitmapsD(1,2)[OF sb]
      by (auto simp: fun_eq_iff count_of_dflt dflt_def)
    then show ?thesis
      using goal[of ic3] g(1,5) u(1) m(1) 3 v n updatedD(1,6)[OF m(2)] updatedD(6)[OF u(2)]
        same_bitmapsD(3)[OF sb] same_bitmapsD(3)[OF g(4)]
      by (simp add: def Let_def)
  qed
qed

subsection \<open>Properties\<close>

interpretation table: simulation "table n" count_of "icount_step junk" "table_step n" for n junk
proof unfold_locales
  fix s p assume "table n s"
  then show "\<exists>r s'. icount_step junk p s = Some (r, s') \<and> table n s' \<and> table_step n p (count_of s) = (r, count_of s')"
    using fetch_agrees[of n s] increment_agrees[of n s] decrement_agrees[of n s] store_agrees[of n s]
    by (cases p) (fastforce simp: agrees_def)+
qed

lemma ascending_from_ok:
  "i + n \<le> length xs \<Longrightarrow> 0 < i \<Longrightarrow> ok \<Longrightarrow> ascending (map fst (take (i + n) xs)) \<Longrightarrow> ascending_from xs i n ok = Some True"
proof (induction n arbitrary: i ok)
  case (Suc n)
  have "fst (xs ! (i - 1)) < fst (xs ! i)"
    using ascending_nth[OF Suc.prems(4), of "i - 1" i] Suc.prems(1,2) by simp
  then show ?case using Suc.IH[of "i + 1" True] Suc.prems by simp
qed simp

lemma validate_ok: "ic_ok ic \<Longrightarrow> ext2fs_icount_validate ic = Some OK"
proof -
  assume ok: "ic_ok ic"
  have "ascending_from (ic_list ic) 1 (unat (ic_count ic) - 1) True = Some True"
  proof (cases "ic_count ic = 0")
    case False
    then have "1 + (unat (ic_count ic) - 1) = unat (ic_count ic)" by (simp add: unat_gt_0)
    then show ?thesis
      using ascending_from_ok[of 1 "unat (ic_count ic) - 1" "ic_list ic" True] ok ic_okD(1)[OF ok]
      by (simp add: ic_ok_def)
  qed simp
  then show ?thesis using ok by (auto simp: ext2fs_icount_validate_def ic_ok_def)
qed

lemma inode_bitmap_ok:
  assumes "ext2fs_allocate_inode_bitmap mem fs d = Some (Inr b)" "s_inodes_count fs \<noteq> 0"
    "s_inodes_count fs \<le> s_inodes_per_group fs * group_desc_count fs"
  shows "bm_over 1 (s_inodes_count fs) b" "bm_set b = {}"
proof -
  obtain b0 where b0: "make_bitmap mem 1 (s_inodes_count fs) (s_inodes_per_group fs * group_desc_count fs) d None = Some (Inr b0)"
    "b = b0\<lparr>bm_magic := EXT2_ET_MAGIC_INODE_BITMAP, bm_error := EXT2_ET_BAD_INODE_MARK\<rparr>"
  proof -
    obtain r where r: "make_bitmap mem 1 (s_inodes_count fs) (s_inodes_per_group fs * group_desc_count fs) d None = Some r"
      "(case r of Inl e \<Rightarrow> Inl e
        | Inr bm \<Rightarrow> Inr (bm\<lparr>bm_magic := EXT2_ET_MAGIC_INODE_BITMAP, bm_error := EXT2_ET_BAD_INODE_MARK\<rparr>)) = Inr b"
      using assms(1) by (auto simp: ext2fs_allocate_inode_bitmap_def ext2fs_allocate_generic_bitmap_def bind_Some_iff
          split: if_splits)
    then show thesis using that by (cases r) simp_all
  qed
  have "1 \<le> s_inodes_count fs" using assms(2) by (simp add: word_le_nat_alt unat_gt_0 Suc_le_eq)
  from make_ok[OF b0(1) this assms(3)] show "bm_over 1 (s_inodes_count fs) b" "bm_set b = {}"
    by (simp_all add: b0(2) bm_over_def bm_ok_def bm_set_def bm_bit_def, auto)
qed

lemma icount_init_ok:
  assumes "icount_init mem fs hint sm mm sz = Some (Inr ic)" "unat (s_inodes_count fs) \<le> 2 ^ 24"
    "bm_over 1 (s_inodes_count fs) sm" "bm_set sm = {}" "pred_option (bm_over 1 (s_inodes_count fs)) mm"
    "pred_option (\<lambda>h. ic_ok h \<and> num_inodes h \<le> s_inodes_count fs) hint"
  shows "table (s_inodes_count fs) ic" "count_of ic = (\<lambda>_. 0)"
proof -
  have ic: "ic_magic ic = EXT2_ET_MAGIC_ICOUNT" "single ic = sm" "multiple ic = mm" "ic_size ic = sz"
    "num_inodes ic = s_inodes_count fs"
    and len: "length (ic_list ic) = unat sz" "ic_count ic \<le> sz"
    and els: "els ic = (case hint of None \<Rightarrow> [] | Some h \<Rightarrow> map (\<lambda>e. (fst e, 0)) (els h))"
    using assms(1) by (auto simp: icount_init_def Let_def word_le_nat_alt split: if_splits option.splits)
  have "ascending (map fst (els ic)) \<and> (\<forall>e \<in> set (els ic). valid_ino ic (fst e))"
  proof (cases hint)
    case (Some h)
    then have h: "ic_ok h" "num_inodes h \<le> num_inodes ic" using assms(6) ic(5) by simp_all
    have "valid_ino ic (fst e)" if "e \<in> set (els h)" for e
      using h that by (auto simp: ic_ok_def valid_ino_def)
    then show ?thesis using h(1) unfolding els Some by (simp add: comp_def ic_ok_def)
  qed (simp add: els)
  then show "table (s_inodes_count fs) ic" using assms(2-5) ic len by (simp add: table_def ic_ok_def)
  have "dflt (tab ic i) = 0" for i
  proof (cases "tab ic i")
    case (Some c)
    then have "(i, c) \<in> set (els ic)" by (rule map_of_SomeD)
    then have "c = 0" unfolding els by (auto split: option.splits)
    then show ?thesis using Some by (simp add: dflt_def)
  qed (simp add: dflt_def)
  then show "count_of ic = (\<lambda>_. 0)"
    using assms(4) by (simp add: fun_eq_iff count_of_dflt ic(2))
qed

text \<open>C21. A new table of inode counts, with or without the second bitmap and whatever the hint, is a
  table from inodes to 16-bit counts that starts at 0: any sequence of fetches, increments (which wrap),
  decrements (refused at 0) and stores returns exactly what that table returns, inodes that do not exist
  are refused, the search never leaves the array, and the validation accepts the final state. The
  bound on the number of inodes is the precision of the \<open>float\<close> the search interpolates with.\<close>
theorem icount_runs:
  assumes "ext2fs_create_icount2 mem fs descs increment sz hint = Some (Inr ic)"
    "0 < s_inodes_count fs" "unat (s_inodes_count fs) \<le> 2 ^ 24"
    "s_inodes_count fs \<le> s_inodes_per_group fs * group_desc_count fs"
    "pred_option (\<lambda>h. ic_ok h \<and> num_inodes h \<le> s_inodes_count fs) hint"
  shows "\<exists>rs ic'. run_steps (icount_step junk) ps ic = Some (rs, ic')
    \<and> rs = fst (run_spec (table_step (s_inodes_count fs)) ps (\<lambda>_. 0)) \<and> ext2fs_icount_validate ic' = Some OK"
proof -
  have nz: "s_inodes_count fs \<noteq> 0" using assms(2) by auto
  obtain sm mm sz' where sm: "ext2fs_allocate_inode_bitmap mem fs None = Some (Inr sm)"
    and mm: "mm = None \<or> (\<exists>m. mm = Some m \<and> ext2fs_allocate_inode_bitmap mem fs None = Some (Inr m))"
    and init: "icount_init mem fs hint sm mm sz' = Some (Inr ic)"
    using assms(1)
    by (auto simp: ext2fs_create_icount2_def icount_sized_def Let_def bind_Inr_iff split: if_splits)
  have "table (s_inodes_count fs) ic" "count_of ic = (\<lambda>_. 0)"
    by (rule icount_init_ok[OF init assms(3)];
        use inode_bitmap_ok[OF _ nz assms(4)] sm mm assms(5) in auto)+
  then show ?thesis
    using table.run_law[of "s_inodes_count fs" ic junk ps] validate_ok table_magic(2) by fastforce
qed

definition demo_fs :: ext2_filsys where
  "demo_fs = \<lparr>fs_magic = EXT2_ET_MAGIC_EXT2FS_FILSYS, s_inodes_count = 16, s_blocks_count = 64,
     s_first_data_block = 1, s_inodes_per_group = 16, s_blocks_per_group = 64, s_first_ino = 11,
     group_desc_count = 1, inode_map = None, block_map = None\<rparr>"

theorem icount_runs_witness:
  "\<exists>ic ic'. ext2fs_create_icount2 (\<lambda>_. True) demo_fs [2] True 0 None = Some (Inr ic)
     \<and> run_steps (icount_step (\<lambda>_. (7, 7))) [Incr 5, Incr 5, Fetch 5, Decr 5, Decr 5, Decr 5, Store 20 3] ic
       = Some ([(OK, Some 1), (OK, Some 2), (OK, Some 2), (OK, Some 1), (OK, Some 0),
                (EXT2_ET_INVALID_ARGUMENT, None), (EXT2_ET_INVALID_ARGUMENT, None)], ic')"
proof -
  obtain ic where c: "ext2fs_create_icount2 (\<lambda>_. True) demo_fs [2] True 0 None = Some (Inr ic)"
    by (simp add: ext2fs_create_icount2_def icount_sized_def icount_init_def ext2fs_get_num_dirs_def
        ext2fs_allocate_inode_bitmap_def ext2fs_allocate_generic_bitmap_def make_bitmap_def ext2fs_get_mem_def
        demo_fs_def Let_def)
  let ?ps = "[Incr 5, Incr 5, Fetch 5, Decr 5, Decr 5, Decr 5, Store 20 3]"
  obtain rs ic' where "run_steps (icount_step (\<lambda>_. (7, 7))) ?ps ic = Some (rs, ic')"
    "rs = fst (run_spec (table_step (s_inodes_count demo_fs)) ?ps (\<lambda>_. 0))"
    using icount_runs[OF c, of "\<lambda>_. (7, 7)" ?ps] by (auto simp: demo_fs_def simp del: run_steps.simps)
  moreover have "fst (run_spec (table_step (s_inodes_count demo_fs)) ?ps (\<lambda>_. 0))
      = [(OK, Some 1), (OK, Some 2), (OK, Some 2), (OK, Some 1), (OK, Some 0),
         (EXT2_ET_INVALID_ARGUMENT, None), (EXT2_ET_INVALID_ARGUMENT, None)]"
    by (simp add: demo_fs_def)
  ultimately show ?thesis using c by (intro exI[of _ ic] exI[of _ ic'] conjI) (simp_all only:)
qed


subsection \<open>Too many entries\<close>

definition crowded :: icount where
  \<comment> \<open>The inodes from 1 on, one more than the multiple of 4 above \<open>2 ^ 24\<close>, all with count 2.\<close>
  "crowded = \<lparr>ic_magic = EXT2_ET_MAGIC_ICOUNT,
     single = \<lparr>bm_magic = EXT2_ET_MAGIC_INODE_BITMAP, bm_start = 1, bm_end = 16777232, bm_real_end = 16777232,
       bm_description = None, bm_bytes = replicate 2097154 0, bm_error = EXT2_ET_BAD_INODE_MARK\<rparr>,
     multiple = None, ic_count = 16777220, ic_size = 16777220, num_inodes = 16777232, cursor = 0,
     ic_list = map (\<lambda>i. (of_nat (i + 1), 2)) [0..<16777220]\<rparr>"

lemma crowded_estimate: "interpolate 16777225 1 16777220 16777219 = Some 16777220"
proof -
  have "rnd24 16777219 = 16777220" by code_simp
  then show ?thesis by (simp add: interpolate_def)
qed

text \<open>The precision is needed: in a table that passes the validation, with 16777220 entries, the
  fetch of the count of an existing inode above all of them interpolates to one entry past the end of
  the array, because \<open>16777219\<close> rounds to \<open>16777220\<close> as a \<open>float\<close>.\<close>
theorem fetch_overrun: "ext2fs_icount_fetch crowded 16777225 = None \<and> ext2fs_icount_validate crowded = Some OK"
proof
  have len: "length (ic_list crowded) = 16777220" by (simp add: crowded_def)
  have nth: "ic_list crowded ! i = (of_nat (i + 1), 2)" if "i < 16777220" for i using that by (simp add: crowded_def)
  have "bm_over 1 16777232 (single crowded)"
    by (simp add: crowded_def bm_over_def bm_ok_def map_bytes_def)
  then have s: "bm_test (single crowded) 16777225 = Some False"
    by (simp add: bm_test_result bm_set_def bm_bit_def crowded_def bitget_def)
  have l: "el_loop (ic_list crowded) 16777225 0 16777219 = None"
    by (subst el_loop.simps) (simp add: nth len crowded_estimate rd_def)
  have f: "ic_magic crowded = EXT2_ET_MAGIC_ICOUNT" "multiple crowded = None" "ic_count crowded = 16777220"
    "cursor crowded = 0" "num_inodes crowded = 16777232" "ic_size crowded = 16777220"
    by (simp_all add: crowded_def)
  show "ext2fs_icount_fetch crowded 16777225 = None"
    by (simp add: ext2fs_icount_fetch_def valid_ino_def in_multiple_def get_icount_el_def search_icount_el_def
        f s len nth l)
  have "ascending_from (ic_list crowded) 1 n True = Some True" if "1 + n \<le> 16777220" for n
  proof (rule ascending_from_ok)
    show "ascending (map fst (take (1 + n) (ic_list crowded)))"
      using that by (auto simp: sorted_wrt_iff_nth_less len nth word_less_nat_alt unat_of_nat
          unat_word_ariths)
  qed (use that len in auto)
  then show "ext2fs_icount_validate crowded = Some OK"
    by (simp add: ext2fs_icount_validate_def f)
qed

end
