(* ===== verification/Ext2_Alloc.thy ===== *)
theory Ext2_Alloc
  imports Ext2_Bitmap
begin

text \<open>
  The search for free inodes and blocks (\<open>ext2fs/alloc.c\<close>). The searches of \<open>ext2fs_new_inode\<close>
  and \<open>ext2fs_new_block\<close> go round the numbers from a start back to it; both are instances of one
  loop here. \<open>ext2fs_alloc_block\<close>, which writes the block, is in \<open>Ext2_Filsys\<close>.
\<close>

partial_function (option) search_loop :: "bitmap \<Rightarrow> u32 \<Rightarrow> (u32 \<Rightarrow> bool) \<Rightarrow> u32 \<Rightarrow> u32 \<Rightarrow> (bool \<times> u32) option" where
  \<comment> \<open>Whether a free number was found, and the last value of \<open>i\<close>, which goes back to \<open>lo\<close> when it is
      \<open>past\<close> the last number.\<close>
  "search_loop bmap lo past start i =
     Option.bind (fast_test bmap i) (\<lambda>r.
       if r = 0 then Some (True, i)
       else let j = (if past (i + 1) then lo else i + 1) in
         if j \<noteq> start then search_loop bmap lo past start j else Some (False, j))"

definition ext2fs_new_inode :: "'z ext2_filsys_scheme \<Rightarrow> u32 \<Rightarrow> bitmap option \<Rightarrow> (errcode + u32) option" where
  "ext2fs_new_inode fs dir bmap =
     (if fs_magic fs \<noteq> EXT2_ET_MAGIC_EXT2FS_FILSYS then Some (Inl EXT2_ET_MAGIC_EXT2FS_FILSYS)
      else case (if bmap = None then inode_map fs else bmap) of
        None \<Rightarrow> Some (Inl EXT2_ET_NO_INODE_BITMAP)
      | Some bmap \<Rightarrow>
          if 0 < dir \<and> s_inodes_per_group fs = 0 then None
          else do {
            let dir_group = (if 0 < dir then (dir - 1) div s_inodes_per_group fs else 0);
            let start_inode = dir_group * s_inodes_per_group fs + 1;
            let start_inode = (if start_inode < s_first_ino fs then s_first_ino fs else start_inode);
            (_, i) \<leftarrow> search_loop bmap (s_first_ino fs) ((<) (s_inodes_count fs)) start_inode start_inode;
            r \<leftarrow> ext2fs_test_generic_bitmap bmap i;
            Some (if r \<noteq> 0 then Inl EXT2_ET_INODE_ALLOC_FAIL else Inr i) })"

definition ext2fs_new_block :: "'z ext2_filsys_scheme \<Rightarrow> u32 \<Rightarrow> bitmap option \<Rightarrow> (errcode + u32) option" where
  "ext2fs_new_block fs goal bmap =
     (if fs_magic fs \<noteq> EXT2_ET_MAGIC_EXT2FS_FILSYS then Some (Inl EXT2_ET_MAGIC_EXT2FS_FILSYS)
      else case (if bmap = None then block_map fs else bmap) of
        None \<Rightarrow> Some (Inl EXT2_ET_NO_BLOCK_BITMAP)
      | Some bmap \<Rightarrow> do {
          let goal = (if goal = 0 \<or> s_blocks_count fs \<le> goal then s_first_data_block fs else goal);
          (found, i) \<leftarrow> search_loop bmap (s_first_data_block fs) ((\<le>) (s_blocks_count fs)) goal goal;
          Some (if found then Inr i else Inl EXT2_ET_BLOCK_ALLOC_FAIL) })"

partial_function (option) free_blocks_loop :: "bitmap \<Rightarrow> 'z ext2_filsys_scheme \<Rightarrow> u32 \<Rightarrow> int \<Rightarrow> u32 \<Rightarrow> (errcode + u32) option" where
  "free_blocks_loop bmap fs finish num b =
     (let b = (if s_blocks_count fs < b + of_int num - 1 then s_first_data_block fs else b) in
      Option.bind (ext2fs_fast_test_block_bitmap_range bmap b num) (\<lambda>free.
        if free then Some (Inr b)
        else if b + 1 \<noteq> finish then free_blocks_loop bmap fs finish num (b + 1)
        else Some (Inl EXT2_ET_BLOCK_ALLOC_FAIL)))"

definition ext2fs_get_free_blocks ::
    "'z ext2_filsys_scheme \<Rightarrow> u32 \<Rightarrow> u32 \<Rightarrow> int \<Rightarrow> bitmap option \<Rightarrow> (errcode + u32) option" where
  "ext2fs_get_free_blocks fs start finish num bmap =
     (if fs_magic fs \<noteq> EXT2_ET_MAGIC_EXT2FS_FILSYS then Some (Inl EXT2_ET_MAGIC_EXT2FS_FILSYS)
      else case (if bmap = None then block_map fs else bmap) of
        None \<Rightarrow> Some (Inl EXT2_ET_NO_BLOCK_BITMAP)
      | Some bmap \<Rightarrow>
          free_blocks_loop bmap fs (if finish = 0 then start else finish) (if num = 0 then 1 else num)
            (if start = 0 then s_first_data_block fs else start))"

subsection \<open>The search round\<close>

lemma fast_test_result:
  assumes "bm_over s hi bmap" "s \<le> i" "i \<le> hi"
  shows "\<exists>r. fast_test bmap i = Some r \<and> (r \<noteq> 0 \<longleftrightarrow> i \<in> bm_set bmap)"
proof -
  have ok: "bm_ok bmap" "bm_start bmap = s" "bm_end bmap = hi" using assms(1) by (simp_all add: bm_over_def)
  then have "bm_start bmap \<le> i" "i \<le> bm_real_end bmap" using assms(2,3) by (auto simp: bm_ok_def)
  from test_bit_result[OF bm_in[OF ok(1) this]] show ?thesis
    using ok assms(2,3) by (auto simp: fast_test_def bm_set_def bm_bit_def)
qed

definition searched :: "bitmap \<Rightarrow> u32 \<Rightarrow> u32 \<Rightarrow> (bool \<times> u32) option \<Rightarrow> bool" where
  \<comment> \<open>What a search from any start may return.\<close>
  "searched bmap lo hi r \<longleftrightarrow>
     (\<exists>i. r = Some (True, i) \<and> lo \<le> i \<and> i \<le> hi \<and> i \<notin> bm_set bmap)
     \<or> (\<exists>i. r = Some (False, i) \<and> lo \<le> i \<and> i \<le> hi \<and> {lo..hi} \<subseteq> bm_set bmap)"

lemma next_number: "hi \<noteq> - 1 \<Longrightarrow> i \<le> hi \<Longrightarrow> unat (i + 1) = unat i + 1" for i hi :: u32
proof -
  assume a: "hi \<noteq> - 1" "i \<le> hi"
  then have "i \<noteq> - 1" by (metis word_order.extremum_uniqueI)
  then show ?thesis by (metis add.commute unatSuc plus_1_eq_Suc add_eq_0_iff)
qed

lemma search_second_half:
  assumes "bm_over s hi bmap" "s \<le> lo" "hi \<noteq> - 1" "start \<le> hi" "{start..hi} \<subseteq> bm_set bmap"
  shows "lo \<le> i \<Longrightarrow> i < start \<Longrightarrow> {lo..<i} \<subseteq> bm_set bmap \<Longrightarrow> searched bmap lo hi (search_loop bmap lo ((<) hi) start i)"
proof (induction "unat start - unat i" arbitrary: i rule: less_induct)
  case less
  have ile: "i \<le> hi" using less.prems(2) assms(4) by auto
  obtain r where r: "fast_test bmap i = Some r" "r \<noteq> 0 \<longleftrightarrow> i \<in> bm_set bmap"
    using fast_test_result[OF assms(1) order_trans[OF assms(2) less.prems(1)] ile] by blast
  note step = search_loop.simps[of bmap lo "(<) hi" start i]
  show ?case
  proof (cases "r = 0")
    case True
    then show ?thesis using r less.prems(1) ile by (auto simp: step searched_def)
  next
    case False
    have nx: "unat (i + 1) = unat i + 1" by (rule next_number[OF assms(3) ile])
    have le: "i + 1 \<le> start" "\<not> hi < i + 1" "lo \<le> i + 1"
      using nx less.prems(1,2) assms(4) by (auto simp: word_le_nat_alt word_less_nat_alt)
    have used: "{lo..<i + 1} \<subseteq> bm_set bmap"
    proof
      fix k assume "k \<in> {lo..<i + 1}"
      then have "k \<in> {lo..<i} \<or> k = i" using nx by (auto simp: word_le_nat_alt word_less_nat_alt word_unat_eq_iff)
      then show "k \<in> bm_set bmap" using less.prems(3) r(2) False by auto
    qed
    show ?thesis
    proof (cases "i + 1 = start")
      case True
      then have "{lo..hi} \<subseteq> bm_set bmap" using used assms(5) by (force simp: not_less)
      then show ?thesis using r(1) False True le assms(4) by (auto simp: step searched_def)
    next
      case ne: False
      then have "i + 1 < start" using le(1) by simp
      then have "searched bmap lo hi (search_loop bmap lo ((<) hi) start (i + 1))"
        using nx less.prems(2) le(3) used by (intro less.hyps) (auto simp: word_less_nat_alt)
      then show ?thesis using r(1) False ne le(2) by (simp add: step)
    qed
  qed
qed

lemma search_first_half:
  assumes "bm_over s hi bmap" "s \<le> lo" "hi \<noteq> - 1" "lo \<le> start"
  shows "start \<le> i \<Longrightarrow> i \<le> hi \<Longrightarrow> {start..<i} \<subseteq> bm_set bmap \<Longrightarrow> searched bmap lo hi (search_loop bmap lo ((<) hi) start i)"
proof (induction "unat hi - unat i" arbitrary: i rule: less_induct)
  case less
  have lo: "lo \<le> i" using less.prems(1) assms(4) by auto
  obtain r where r: "fast_test bmap i = Some r" "r \<noteq> 0 \<longleftrightarrow> i \<in> bm_set bmap"
    using fast_test_result[OF assms(1) order_trans[OF assms(2) lo] less.prems(2)] by blast
  note step = search_loop.simps[of bmap lo "(<) hi" start i]
  show ?case
  proof (cases "r = 0")
    case True
    then show ?thesis using r lo less.prems(2) by (auto simp: step searched_def)
  next
    case False
    have nx: "unat (i + 1) = unat i + 1" by (rule next_number[OF assms(3) less.prems(2)])
    have used: "{start..<i + 1} \<subseteq> bm_set bmap"
    proof
      fix k assume "k \<in> {start..<i + 1}"
      then have "k \<in> {start..<i} \<or> k = i" using nx by (auto simp: word_le_nat_alt word_less_nat_alt word_unat_eq_iff)
      then show "k \<in> bm_set bmap" using less.prems(3) r(2) False by auto
    qed
    show ?thesis
    proof (cases "hi < i + 1")
      case False
      then have "searched bmap lo hi (search_loop bmap lo ((<) hi) start (i + 1))"
        using nx less.prems(1) used by (intro less.hyps) (auto simp: word_le_nat_alt word_less_nat_alt)
      moreover have "i + 1 \<noteq> start" using nx less.prems(1) by (auto simp: word_le_nat_alt)
      ultimately show ?thesis using r(1) \<open>r \<noteq> 0\<close> False by (simp add: step)
    next
      case True
      then have "i = hi" using less.prems(2) nx by (auto simp: word_le_nat_alt word_less_nat_alt word_unat_eq_iff)
      then have all: "{start..hi} \<subseteq> bm_set bmap" using used nx
        by (auto simp: word_le_nat_alt word_less_nat_alt less_Suc_eq_le)
      have shi: "start \<le> hi" using less.prems(1,2) by auto
      show ?thesis
      proof (cases "lo = start")
        case True
        have "search_loop bmap lo ((<) hi) start i = Some (False, lo)"
          unfolding step using r(1) \<open>r \<noteq> 0\<close> \<open>hi < i + 1\<close> True by simp
        then show ?thesis using all shi True by (simp add: searched_def)
      next
        case False
        then have "lo < start" using assms(4) by simp
        then have "searched bmap lo hi (search_loop bmap lo ((<) hi) start lo)"
          by (intro search_second_half[OF assms(1-3) shi all]) auto
        then show ?thesis using r(1) \<open>r \<noteq> 0\<close> \<open>hi < i + 1\<close> False by (simp add: step)
      qed
    qed
  qed
qed

lemma search_result:
  "bm_over s hi bmap \<Longrightarrow> s \<le> lo \<Longrightarrow> hi \<noteq> - 1 \<Longrightarrow> lo \<le> start \<Longrightarrow> start \<le> hi \<Longrightarrow>
   searched bmap lo hi (search_loop bmap lo ((<) hi) start start)"
  by (rule search_first_half) auto

lemma new_inode_result:
  assumes "fs_magic fs = EXT2_ET_MAGIC_EXT2FS_FILSYS" "bm_over 1 (s_inodes_count fs) bmap"
    and "s_inodes_count fs \<noteq> - 1" "0 < s_inodes_per_group fs" "1 \<le> s_first_ino fs"
    and "s_first_ino fs \<le> s_inodes_count fs" "dir \<le> s_inodes_count fs"
  shows "(\<exists>i. ext2fs_new_inode fs dir (Some bmap) = Some (Inr i) \<and> s_first_ino fs \<le> i
        \<and> i \<le> s_inodes_count fs \<and> i \<notin> bm_set bmap)
    \<or> (ext2fs_new_inode fs dir (Some bmap) = Some (Inl EXT2_ET_INODE_ALLOC_FAIL)
        \<and> {s_first_ino fs..s_inodes_count fs} \<subseteq> bm_set bmap)"
proof -
  let ?g = "if 0 < dir then (dir - 1) div s_inodes_per_group fs else 0"
  let ?t = "?g * s_inodes_per_group fs + 1"
  let ?start = "if ?t < s_first_ino fs then s_first_ino fs else ?t"
  let ?lo = "s_first_ino fs" and ?hi = "s_inodes_count fs"
  have hi: "1 \<le> ?hi" using assms(5,6) by auto
  have "?t \<le> ?hi"
  proof (cases "0 < dir")
    case True
    have d: "unat ((dir - 1) div s_inodes_per_group fs) * unat (s_inodes_per_group fs) \<le> unat (dir - 1)"
      unfolding unat_div by (rule div_times_less_eq_dividend)
    have m: "unat (x * y) \<le> unat x * unat y" for x y :: u32
      by (simp add: unat_word_ariths)
    have "unat ((dir - 1) div s_inodes_per_group fs * s_inodes_per_group fs) \<le> unat (dir - 1)"
      by (rule order_trans[OF m d])
    moreover have "unat (dir - 1) = unat dir - 1" "0 < unat dir"
      using True by (simp_all add: unat_minus_one unat_gt_0)
    ultimately have "unat ?t \<le> unat dir" using True unsigned_less[of dir, where 'a = nat]
      by (simp add: unat_word_ariths)
    then show ?thesis using assms(7) by (simp add: word_le_nat_alt)
  qed (use hi in simp)
  then have st: "?lo \<le> ?start" "?start \<le> ?hi" using assms(6) by auto
  have n: "ext2fs_new_inode fs dir (Some bmap) = do {
      (_, i) \<leftarrow> search_loop bmap ?lo ((<) ?hi) ?start ?start;
      r \<leftarrow> ext2fs_test_generic_bitmap bmap i;
      Some (if r \<noteq> 0 then Inl EXT2_ET_INODE_ALLOC_FAIL else Inr i) }"
    using assms(1,4) by (simp add: ext2fs_new_inode_def Let_def word_neq_0_conv[symmetric])
  have t: "\<exists>r. ext2fs_test_generic_bitmap bmap i = Some r \<and> (r \<noteq> 0 \<longleftrightarrow> i \<in> bm_set bmap)" for i
    using test_result assms(2) by (simp add: bm_over_def)
  from search_result[OF assms(2,5,3) st] show ?thesis
    unfolding searched_def
  proof (elim disjE exE conjE)
    fix i assume a: "search_loop bmap ?lo ((<) ?hi) ?start ?start = Some (True, i)" "?lo \<le> i" "i \<le> ?hi" "i \<notin> bm_set bmap"
    then show ?thesis using n t[of i] by auto
  next
    fix i assume a: "search_loop bmap ?lo ((<) ?hi) ?start ?start = Some (False, i)" "?lo \<le> i" "i \<le> ?hi"
      "{?lo..?hi} \<subseteq> bm_set bmap"
    then show ?thesis using n t[of i] by auto
  qed
qed

lemma new_block_result:
  assumes "fs_magic fs = EXT2_ET_MAGIC_EXT2FS_FILSYS" "block_map fs = Some bmap"
    and "bm_over (s_first_data_block fs) (s_blocks_count fs - 1) bmap" "0 < s_blocks_count fs"
    and "goal = 0 \<or> s_first_data_block fs \<le> goal"
  shows "(\<exists>b. ext2fs_new_block fs goal None = Some (Inr b) \<and> s_first_data_block fs \<le> b
        \<and> b < s_blocks_count fs \<and> b \<notin> bm_set bmap)
    \<or> (ext2fs_new_block fs goal None = Some (Inl EXT2_ET_BLOCK_ALLOC_FAIL)
        \<and> (\<forall>b. s_first_data_block fs \<le> b \<and> b < s_blocks_count fs \<longrightarrow> b \<in> bm_set bmap))"
proof -
  let ?goal = "if goal = 0 \<or> s_blocks_count fs \<le> goal then s_first_data_block fs else goal"
  let ?lo = "s_first_data_block fs" and ?hi = "s_blocks_count fs - 1"
  have lohi: "?lo \<le> ?hi" using assms(3) by (auto simp: bm_over_def bm_ok_def)
  have lt: "b < s_blocks_count fs \<longleftrightarrow> b \<le> ?hi" for b
  proof -
    have "0 < unat (s_blocks_count fs)" using assms(4) by (simp add: unat_gt_0)
    moreover have "unat (s_blocks_count fs - 1) = unat (s_blocks_count fs) - 1"
      using assms(4) by (intro unat_minus_one) auto
    ultimately show ?thesis unfolding word_le_nat_alt word_less_nat_alt by linarith
  qed
  have past: "(\<le>) (s_blocks_count fs) = (<) ?hi"
  proof
    fix b show "(s_blocks_count fs \<le> b) = (?hi < b)" using lt[of b] by auto
  qed
  have "?lo \<le> ?goal" "?goal \<le> ?hi" using assms(5) lohi lt[of goal] by (auto simp: not_le)
  moreover have "?hi \<noteq> - 1" using assms(4) by auto
  ultimately have s: "searched bmap ?lo ?hi (search_loop bmap ?lo ((<) ?hi) ?goal ?goal)"
    by (intro search_result[OF assms(3) order_refl])
  have n: "ext2fs_new_block fs goal None = do {
      (found, i) \<leftarrow> search_loop bmap ?lo ((<) ?hi) ?goal ?goal;
      Some (if found then Inr i else Inl EXT2_ET_BLOCK_ALLOC_FAIL) }"
    using assms(1,2) past by (simp add: ext2fs_new_block_def Let_def)
  from s show ?thesis
    unfolding searched_def lt
  proof (elim disjE exE conjE)
    fix i assume "search_loop bmap ?lo ((<) ?hi) ?goal ?goal = Some (True, i)" "?lo \<le> i" "i \<le> ?hi" "i \<notin> bm_set bmap"
    then show "(\<exists>b. ext2fs_new_block fs goal None = Some (Inr b) \<and> ?lo \<le> b \<and> b \<le> ?hi \<and> b \<notin> bm_set bmap)
      \<or> (ext2fs_new_block fs goal None = Some (Inl EXT2_ET_BLOCK_ALLOC_FAIL)
        \<and> (\<forall>b. ?lo \<le> b \<and> b \<le> ?hi \<longrightarrow> b \<in> bm_set bmap))" using n by simp
  next
    fix i assume "search_loop bmap ?lo ((<) ?hi) ?goal ?goal = Some (False, i)" "{?lo..?hi} \<subseteq> bm_set bmap"
    then show "(\<exists>b. ext2fs_new_block fs goal None = Some (Inr b) \<and> ?lo \<le> b \<and> b \<le> ?hi \<and> b \<notin> bm_set bmap)
      \<or> (ext2fs_new_block fs goal None = Some (Inl EXT2_ET_BLOCK_ALLOC_FAIL)
        \<and> (\<forall>b. ?lo \<le> b \<and> b \<le> ?hi \<longrightarrow> b \<in> bm_set bmap))" using n by auto
  qed
qed

subsection \<open>Properties\<close>

text \<open>C24. The search for a free block ends and is complete: whatever the goal, \<open>ext2fs_new_block\<close>
  returns a block of the filesystem that is free in the bitmap, and reports that there is none only
  when every block is in use; it reads no bit outside the bitmap.\<close>
theorem new_block_search:
  assumes "fs_magic fs = EXT2_ET_MAGIC_EXT2FS_FILSYS" "block_map fs = Some bmap"
    and "bm_over (s_first_data_block fs) (s_blocks_count fs - 1) bmap" "0 < s_blocks_count fs"
    and "goal = 0 \<or> s_first_data_block fs \<le> goal"
  shows "(\<exists>b. ext2fs_new_block fs goal None = Some (Inr b) \<and> s_first_data_block fs \<le> b
        \<and> b < s_blocks_count fs \<and> b \<notin> bm_set bmap)
    \<or> (ext2fs_new_block fs goal None = Some (Inl EXT2_ET_BLOCK_ALLOC_FAIL)
        \<and> (\<forall>b. s_first_data_block fs \<le> b \<and> b < s_blocks_count fs \<longrightarrow> b \<in> bm_set bmap))"
  by (rule new_block_result[OF assms])

definition tiny_fs :: ext2_filsys where
  \<comment> \<open>Blocks 1 to 4, all in use; the bitmap has padding for blocks 5 to 8.\<close>
  "tiny_fs = \<lparr>fs_magic = EXT2_ET_MAGIC_EXT2FS_FILSYS, s_inodes_count = 8, s_blocks_count = 5,
     s_first_data_block = 1, s_inodes_per_group = 8, s_blocks_per_group = 8, s_first_ino = 1,
     group_desc_count = 1, inode_map = None, block_map = Some
       \<lparr>bm_magic = EXT2_ET_MAGIC_BLOCK_BITMAP, bm_start = 1, bm_end = 4, bm_real_end = 8,
        bm_description = None, bm_bytes = [15], bm_error = EXT2_ET_BAD_BLOCK_MARK\<rparr>\<rparr>"

theorem new_block_search_witness:
  "(\<exists>b. ext2fs_new_block tiny_fs 3 None = Some (Inr b) \<and> 1 \<le> b \<and> b < 5 \<and> b \<notin> bm_set (the (block_map tiny_fs)))
   \<or> ext2fs_new_block tiny_fs 3 None = Some (Inl EXT2_ET_BLOCK_ALLOC_FAIL)"
  using new_block_search[of tiny_fs "the (block_map tiny_fs)" 3]
  by (auto simp: tiny_fs_def bm_over_def bm_ok_def map_bytes_def)

text \<open>The search for a run of free blocks goes one block too far: on a filesystem of the blocks 1
  to 4, all in use, \<open>ext2fs_get_free_blocks\<close> finds the block 5, which does not exist, free. Its
  test against the number of blocks lets a run end at \<open>s_blocks_count\<close>, one behind the last block,
  and reads the padding of the bitmap.\<close>
theorem get_free_blocks_overrun:
  "ext2fs_get_free_blocks tiny_fs 1 0 1 None = Some (Inr 5)
   \<and> ext2fs_new_block tiny_fs 1 None = Some (Inl EXT2_ET_BLOCK_ALLOC_FAIL)"
  by (simp add: ext2fs_get_free_blocks_def ext2fs_new_block_def tiny_fs_def free_blocks_loop.simps
      search_loop.simps ext2fs_fast_test_block_bitmap_range_def fast_test_def ext2fs_test_bit_def rd_def Let_def)

end
