(* ===== verification/Unix_Io.thy ===== *)
theory Unix_Io
  imports Ext2_Base C_String
begin

unbundle bit_operations_syntax

text \<open>
  The I/O channel of \<open>ext2fs\<close> on a device (\<open>unix_io.c\<close>, \<open>ext2_io.h\<close>, \<open>io_manager.c\<close>): raw reads
  and writes, the write-back cache of eight blocks in front of them, and the operations of the
  I/O manager. The build with \<open>NEED_BOUNCE_BUFFER\<close> and that with \<open>NO_IO_CACHE\<close> are left out.

  The device is what the descriptor refers to: an array of bytes of a fixed length, some of which
  may not be readable and writable. \<open>read\<close> and \<open>write\<close> transfer the bytes up to the first one that
  does not exist or is bad, as the system calls document. The private data of the
  channel is part of its record. A buffer the caller passes is a list of bytes, and one that is
  filled is returned. Sizes and times are \<open>int\<close> in C: where they overflow the result is \<open>None\<close>.
\<close>

subsection \<open>The device\<close>

record device =
  dev_bytes :: "u8 list"
  dev_bad :: "nat \<Rightarrow> bool"

definition dev_count :: "device \<Rightarrow> nat \<Rightarrow> nat \<Rightarrow> nat" where
  \<comment> \<open>How many of the \<open>n\<close> bytes at \<open>l\<close> can be transferred.\<close>
  "dev_count d l n = length (takeWhile (\<lambda>p. p < length (dev_bytes d) \<and> \<not> dev_bad d p) [l..<l + n])"

definition dev_read :: "device \<Rightarrow> nat \<Rightarrow> nat \<Rightarrow> u8 list" where
  "dev_read d l n = take (dev_count d l n) (drop l (dev_bytes d))"

definition dev_write :: "device \<Rightarrow> nat \<Rightarrow> u8 list \<Rightarrow> device" where
  "dev_write d l xs = d\<lparr>dev_bytes := write_at (dev_bytes d) l (take (dev_count d l (length xs)) xs)\<rparr>"

subsection \<open>The channel\<close>

record unix_cache =
  uc_buf :: "u8 list"
  uc_block :: u64
  uc_access_time :: int
  uc_dirty :: bool
  uc_in_use :: bool

type_synonym read_handler = "u64 \<Rightarrow> int \<Rightarrow> u8 list \<Rightarrow> nat \<Rightarrow> int \<Rightarrow> errcode \<Rightarrow> errcode \<times> u8 list"
type_synonym write_handler = "u64 \<Rightarrow> int \<Rightarrow> u8 list \<Rightarrow> nat \<Rightarrow> int \<Rightarrow> errcode \<Rightarrow> errcode"

record io_channel =
  ch_magic :: errcode
  ch_name :: string
  ch_block_size :: int
  ch_read_error :: "read_handler option"
  ch_write_error :: "write_handler option"
  ch_refcount :: int
  ch_flags :: u32
  ch_data_magic :: errcode             \<comment> \<open>from here on the private data\<close>
  ch_dev :: device
  ch_access_time :: int
  ch_offset :: int
  ch_cache :: "unix_cache list"

definition io_size :: "io_channel \<Rightarrow> int \<Rightarrow> nat option" where
  \<comment> \<open>\<open>(count < 0) ? -count : count * channel->block_size\<close>, computed in \<open>int\<close>\<close>
  "io_size ch count =
     (let n = (if count < 0 then - count else count * ch_block_size ch)
      in if n < 2147483648 then Some (nat n) else None)"

definition io_location :: "io_channel \<Rightarrow> u64 \<Rightarrow> int option" where
  \<comment> \<open>\<open>((ext2_loff_t) block * channel->block_size) + data->offset\<close>\<close>
  "io_location ch block =
     (let m = sint block * ch_block_size ch; l = m + ch_offset ch
      in if - (2 ^ 63) \<le> m \<and> m < 2 ^ 63 \<and> - (2 ^ 63) \<le> l \<and> l < 2 ^ 63 then Some l else None)"

definition EINVAL :: errcode where "EINVAL = Errno 22"

definition raw_read_blk :: "io_channel \<Rightarrow> u64 \<Rightarrow> int \<Rightarrow> (errcode \<times> u8 list) option" where
  \<comment> \<open>With the contents of the buffer. A negative offset is what \<open>lseek\<close> refuses.\<close>
  "raw_read_blk ch block count = do {
     n \<leftarrow> io_size ch count;
     l \<leftarrow> io_location ch block;
     let (e, xs) = (if l < 0 then (EINVAL, [])
                    else let xs = dev_read (ch_dev ch) (nat l) n
                      in (if length xs = n then OK else EXT2_ET_SHORT_READ, xs));
     Some (if e = OK then (OK, xs)
       else let buf = xs @ replicate (n - length xs) 0 in
         case ch_read_error ch of
           None \<Rightarrow> (e, buf)
         | Some handler \<Rightarrow> handler block count buf n (int (length xs)) e) }"

definition raw_write_blk :: "io_channel \<Rightarrow> u64 \<Rightarrow> int \<Rightarrow> u8 list \<Rightarrow> (errcode \<times> io_channel) option" where
  "raw_write_blk ch block count buf = do {
     n \<leftarrow> io_size ch count;
     l \<leftarrow> io_location ch block;
     if length buf < n then None
     else let
       actual = dev_count (ch_dev ch) (nat l) n;
       (e, a, ch) = (if l < 0 then (EINVAL, 0, ch)
         else let ch' = ch\<lparr>ch_dev := dev_write (ch_dev ch) (nat l) (take n buf)\<rparr>
           in if actual = n then (OK, int n, ch')
              else (EXT2_ET_SHORT_WRITE, if actual = 0 then - 1 else int actual, ch'))
       in Some (if e = OK then OK else case ch_write_error ch of
             None \<Rightarrow> e
           | Some handler \<Rightarrow> handler block count buf n a e, ch) }"

subsection \<open>The cache\<close>

definition CACHE_SIZE :: nat where "CACHE_SIZE = 8"

definition READ_DIRECT_SIZE :: int where "READ_DIRECT_SIZE = 4"
definition WRITE_DIRECT_SIZE :: int where "WRITE_DIRECT_SIZE = 4"

definition alloc_cache :: "malloc \<Rightarrow> (nat \<Rightarrow> u8) \<Rightarrow> io_channel \<Rightarrow> errcode \<times> io_channel" where
  \<comment> \<open>All eight buffers have the size of a block, so the first \<open>malloc\<close> that fails is the first one.\<close>
  "alloc_cache mem junk ch =
     (let n = nat (ch_block_size ch);
          c = \<lparr>uc_buf = ext2fs_resize_mem junk n [], uc_block = 0, uc_access_time = 0,
               uc_dirty = False, uc_in_use = False\<rparr>
      in (ext2fs_get_mem mem n,
          if ext2fs_get_mem mem n = OK
          then ch\<lparr>ch_access_time := 0, ch_cache := replicate CACHE_SIZE c\<rparr>
          else ch\<lparr>ch_access_time := 0, ch_cache := (ch_cache ch)[0 := c\<lparr>uc_buf := []\<rparr>]\<rparr>))"

definition free_cache :: "io_channel \<Rightarrow> io_channel" where
  "free_cache ch = ch\<lparr>ch_access_time := 0, ch_cache := replicate CACHE_SIZE
     \<lparr>uc_buf = [], uc_block = 0, uc_access_time = 0, uc_dirty = False, uc_in_use = False\<rparr>\<rparr>"

definition tick :: "io_channel \<Rightarrow> (int \<times> io_channel) option" where
  \<comment> \<open>\<open>++data->access_time\<close>\<close>
  "tick ch = (let t = ch_access_time ch + 1 in
     if t < 2147483648 then Some (t, ch\<lparr>ch_access_time := t\<rparr>) else None)"

fun cache_scan :: "u64 \<Rightarrow> unix_cache list \<Rightarrow> nat \<Rightarrow> nat option \<Rightarrow> (nat \<times> int) option \<Rightarrow> nat + nat option" where
  \<comment> \<open>The entry with the block, or the one to be reused; \<open>oldest\<close> comes with its time.\<close>
  "cache_scan block [] i unused oldest =
     Inr (if unused \<noteq> None then unused else map_option fst oldest)"
| "cache_scan block (c # cs) i unused oldest =
     (if \<not> uc_in_use c then cache_scan block cs (i + 1) (if unused = None then Some i else unused) oldest
      else if uc_block c = block then Inl i
      else cache_scan block cs (i + 1) unused
        (if oldest = None \<or> uc_access_time c < snd (the oldest) then Some (i, uc_access_time c) else oldest))"

definition find_cached_block :: "io_channel \<Rightarrow> u64 \<Rightarrow> ((nat + nat option) \<times> io_channel) option" where
  "find_cached_block ch block =
     (case cache_scan block (ch_cache ch) 0 None None of
        Inl k \<Rightarrow> do {
          (t, ch) \<leftarrow> tick ch;
          c \<leftarrow> rd (ch_cache ch) k;
          Some (Inl k, ch\<lparr>ch_cache := (ch_cache ch)[k := c\<lparr>uc_access_time := t\<rparr>]\<rparr>) }
      | Inr eldest \<Rightarrow> Some (Inr eldest, ch))"

definition reuse_cache :: "io_channel \<Rightarrow> nat \<Rightarrow> u64 \<Rightarrow> io_channel option" where
  "reuse_cache ch k block = do {
     c \<leftarrow> rd (ch_cache ch) k;
     (_, ch) \<leftarrow> (if uc_dirty c \<and> uc_in_use c then raw_write_blk ch (uc_block c) 1 (uc_buf c)
                 else Some (OK, ch));
     (t, ch) \<leftarrow> tick ch;
     Some (ch\<lparr>ch_cache := (ch_cache ch)[k :=
       c\<lparr>uc_in_use := True, uc_dirty := False, uc_block := block, uc_access_time := t\<rparr>]\<rparr>) }"

definition fill_cache :: "io_channel \<Rightarrow> nat \<Rightarrow> u8 list \<Rightarrow> io_channel option" where
  \<comment> \<open>\<open>memcpy(cache->buf, cp, channel->block_size)\<close>\<close>
  "fill_cache ch k cp = do {
     c \<leftarrow> rd (ch_cache ch) k;
     let n = nat (ch_block_size ch);
     if length cp < n \<or> length (uc_buf c) < n then None
     else Some (ch\<lparr>ch_cache := (ch_cache ch)[k := c\<lparr>uc_buf := write_at (uc_buf c) 0 (take n cp)\<rparr>]\<rparr>) }"

definition flush_entry :: "bool \<Rightarrow> nat \<Rightarrow> errcode \<times> io_channel \<Rightarrow> (errcode \<times> io_channel) option" where
  \<comment> \<open>One round of the loop of \<open>flush_cached_blocks\<close>; the first component is \<open>retval2\<close>.\<close>
  "flush_entry invalidate i = (\<lambda>(retval2, ch). do {
     c \<leftarrow> rd (ch_cache ch) i;
     if \<not> uc_in_use c then Some (retval2, ch)
     else do {
       let c = c\<lparr>uc_in_use := \<not> invalidate\<rparr>;
       let ch = ch\<lparr>ch_cache := (ch_cache ch)[i := c]\<rparr>;
       if \<not> uc_dirty c then Some (retval2, ch)
       else do {
         (retval, ch) \<leftarrow> raw_write_blk ch (uc_block c) 1 (uc_buf c);
         Some (if retval \<noteq> OK then (retval, ch)
               else (retval2, ch\<lparr>ch_cache := (ch_cache ch)[i := c\<lparr>uc_dirty := False\<rparr>]\<rparr>)) } } })"

fun flush_loop :: "bool \<Rightarrow> nat list \<Rightarrow> errcode \<times> io_channel \<Rightarrow> (errcode \<times> io_channel) option" where
  "flush_loop invalidate [] s = Some s"
| "flush_loop invalidate (i # is) s = Option.bind (flush_entry invalidate i s) (flush_loop invalidate is)"

definition flush_cached_blocks :: "io_channel \<Rightarrow> bool \<Rightarrow> (errcode \<times> io_channel) option" where
  "flush_cached_blocks ch invalidate = flush_loop invalidate [0..<CACHE_SIZE] (OK, ch)"

subsection \<open>The operations of the manager\<close>

definition checked :: "io_channel \<Rightarrow> errcode" where
  \<comment> \<open>The two \<open>EXT2_CHECK_MAGIC\<close> every operation begins with.\<close>
  "checked ch = (if ch_magic ch \<noteq> EXT2_ET_MAGIC_IO_CHANNEL then EXT2_ET_MAGIC_IO_CHANNEL
     else if ch_data_magic ch \<noteq> EXT2_ET_MAGIC_UNIX_IO_CHANNEL then EXT2_ET_MAGIC_UNIX_IO_CHANNEL else OK)"

definition unix_open :: "malloc \<Rightarrow> (nat \<Rightarrow> u8) \<Rightarrow> (string \<Rightarrow> bool \<Rightarrow> errcode + device) \<Rightarrow> string option \<Rightarrow> u32
    \<Rightarrow> errcode + io_channel" where
  \<comment> \<open>\<open>open_dev\<close> is the system call, with whether it is to open for writing. The adjustment of the limit on
      file sizes for old kernels is left out.\<close>
  "unix_open mem junk open_dev name flags =
     (case name of None \<Rightarrow> Inl EXT2_ET_BAD_DEVICE_NAME
      | Some name \<Rightarrow>
        if ext2fs_get_mem mem 128 \<noteq> OK then Inl (ext2fs_get_mem mem 128)
        else if ext2fs_get_mem mem 216 \<noteq> OK then Inl (ext2fs_get_mem mem 216)
        else if ext2fs_get_mem mem (length name + 1) \<noteq> OK then Inl (ext2fs_get_mem mem (length name + 1))
        else let io = \<lparr>ch_magic = EXT2_ET_MAGIC_IO_CHANNEL, ch_name = name, ch_block_size = 1024,
                ch_read_error = None, ch_write_error = None, ch_refcount = 1, ch_flags = 0,
                ch_data_magic = EXT2_ET_MAGIC_UNIX_IO_CHANNEL,
                ch_dev = \<lparr>dev_bytes = [], dev_bad = \<lambda>_. False\<rparr>,
                ch_access_time = 0, ch_offset = 0, ch_cache = []\<rparr>;
              (retval, io) = alloc_cache mem junk io
          in if retval \<noteq> OK then Inl retval
             else case open_dev name (flags AND 1 \<noteq> 0) of
               Inl errno \<Rightarrow> Inl errno
             | Inr d \<Rightarrow> Inr (io\<lparr>ch_dev := d\<rparr>))"

definition unix_close :: "io_channel \<Rightarrow> (errcode \<times> io_channel option \<times> device) option" where
  \<comment> \<open>The channel is freed unless there is another reference; the device stays. \<open>close\<close> succeeds.\<close>
  "unix_close ch =
     (if checked ch \<noteq> OK then Some (checked ch, Some ch, ch_dev ch)
      else let ch = ch\<lparr>ch_refcount := ch_refcount ch - 1\<rparr> in
        if 0 < ch_refcount ch then Some (OK, Some ch, ch_dev ch)
        else do {
          (retval, ch) \<leftarrow> flush_cached_blocks ch False;
          Some (retval, None, ch_dev ch) })"

definition unix_set_blksize :: "malloc \<Rightarrow> (nat \<Rightarrow> u8) \<Rightarrow> io_channel \<Rightarrow> int \<Rightarrow> (errcode \<times> io_channel) option" where
  "unix_set_blksize mem junk ch blksize =
     (if checked ch \<noteq> OK then Some (checked ch, ch)
      else if ch_block_size ch = blksize then Some (OK, ch)
      else do {
        (retval, ch) \<leftarrow> flush_cached_blocks ch False;
        Some (if retval \<noteq> OK then (retval, ch)
              else alloc_cache mem junk (free_cache (ch\<lparr>ch_block_size := blksize\<rparr>))) })"

definition read_cached :: "io_channel \<Rightarrow> nat \<Rightarrow> u8 list option" where
  \<comment> \<open>\<open>memcpy(cp, cache->buf, channel->block_size)\<close>\<close>
  "read_cached ch k = do {
     c \<leftarrow> rd (ch_cache ch) k;
     let n = nat (ch_block_size ch);
     if length (uc_buf c) < n then None else Some (take n (uc_buf c)) }"

fun uncached_run :: "io_channel \<Rightarrow> u64 \<Rightarrow> nat \<Rightarrow> nat option list \<Rightarrow> (nat option list \<times> io_channel) option" where
  \<comment> \<open>Looks for a cached block among as many as the third argument says; the list is \<open>reuse\<close>, one entry
      for each of the \<open>i\<close> blocks before \<open>block\<close> that are not cached.\<close>
  "uncached_run ch block 0 reuse = Some (reuse, ch)"
| "uncached_run ch block (Suc n) reuse = do {
     (r, ch) \<leftarrow> find_cached_block ch block;
     case r of
       Inl _ \<Rightarrow> Some (reuse, ch)
     | Inr e \<Rightarrow> uncached_run ch (block + 1) n (reuse @ [e]) }"

fun save_blocks :: "io_channel \<Rightarrow> nat option list \<Rightarrow> u64 \<Rightarrow> u8 list \<Rightarrow> io_channel option" where
  \<comment> \<open>An entry of \<open>reuse\<close> that is no entry of the cache would be a null pointer.\<close>
  "save_blocks ch [] block cp = Some ch"
| "save_blocks ch (r # reuse) block cp =
     (case r of None \<Rightarrow> None
      | Some k \<Rightarrow> do {
          ch \<leftarrow> reuse_cache ch k block;
          ch \<leftarrow> fill_cache ch k cp;
          save_blocks ch reuse (block + 1) (drop (nat (ch_block_size ch)) cp) })"

lemma uncached_run_grows: "uncached_run ch block n reuse = Some (reuse', ch') \<Longrightarrow> length reuse \<le> length reuse'"
proof (induction n arbitrary: ch block reuse)
  case (Suc n)
  obtain r ch1 where f: "find_cached_block ch block = Some (r, ch1)"
    using Suc.prems by (auto simp: bind_Some_iff)
  show ?case
  proof (cases r)
    case (Inr e)
    then show ?thesis using Suc.prems f Suc.IH[of ch1 "block + 1" "reuse @ [e]"] by simp
  qed (use Suc.prems f in simp)
qed simp

function read_blocks :: "io_channel \<Rightarrow> u64 \<Rightarrow> nat \<Rightarrow> (errcode \<times> u8 list \<times> io_channel) option" where
  \<comment> \<open>The loop of \<open>unix_read_blk\<close>, with the part of the buffer it fills.\<close>
  "read_blocks ch block count =
     (if count = 0 then Some (OK, [], ch)
      else do {
        (r, ch) \<leftarrow> find_cached_block ch block;
        case r of
          Inl k \<Rightarrow> do {
            xs \<leftarrow> read_cached ch k;
            (e, ys, ch) \<leftarrow> read_blocks ch (block + 1) (count - 1);
            Some (e, xs @ ys, ch) }
        | Inr eldest \<Rightarrow> do {
            (reuse, ch) \<leftarrow> uncached_run ch (block + 1) (count - 1) [eldest];
            let i = length reuse;
            (retval, xs) \<leftarrow> raw_read_blk ch block (int i);
            if retval \<noteq> OK then Some (retval, xs, ch)
            else do {
              ch \<leftarrow> save_blocks ch reuse block xs;
              (e, ys, ch) \<leftarrow> read_blocks ch (block + of_nat i) (count - i);
              Some (e, xs @ ys, ch) } } })"
  by pat_completeness auto
termination
  by (relation "measure (\<lambda>(ch, block, count). count)") (auto dest: uncached_run_grows)

declare read_blocks.simps [simp del]

definition unix_read_blk :: "io_channel \<Rightarrow> u64 \<Rightarrow> int \<Rightarrow> (errcode \<times> u8 list \<times> io_channel) option" where
  "unix_read_blk ch block count =
     (if checked ch \<noteq> OK then Some (checked ch, [], ch)
      else if count < 0 \<or> WRITE_DIRECT_SIZE < count
      then do {
        (retval, ch) \<leftarrow> flush_cached_blocks ch False;
        if retval \<noteq> OK then Some (retval, [], ch)
        else do {
          (retval, xs) \<leftarrow> raw_read_blk ch block count;
          Some (retval, xs, ch) } }
      else read_blocks ch block (nat count))"

fun write_cached_blocks :: "bool \<Rightarrow> io_channel \<Rightarrow> u64 \<Rightarrow> nat \<Rightarrow> u8 list \<Rightarrow> io_channel option" where
  \<comment> \<open>The loop of \<open>unix_write_blk\<close>.\<close>
  "write_cached_blocks writethrough ch block 0 cp = Some ch"
| "write_cached_blocks writethrough ch block (Suc count) cp = do {
     (r, ch) \<leftarrow> find_cached_block ch block;
     (k, ch) \<leftarrow> (case r of
         Inl k \<Rightarrow> Some (k, ch)
       | Inr None \<Rightarrow> None
       | Inr (Some k) \<Rightarrow> do { ch \<leftarrow> reuse_cache ch k block; Some (k, ch) });
     ch \<leftarrow> fill_cache ch k cp;
     c \<leftarrow> rd (ch_cache ch) k;
     let ch = ch\<lparr>ch_cache := (ch_cache ch)[k := c\<lparr>uc_dirty := \<not> writethrough\<rparr>]\<rparr>;
     write_cached_blocks writethrough ch (block + 1) count (drop (nat (ch_block_size ch)) cp) }"

definition CHANNEL_FLAGS_WRITETHROUGH :: u32 where "CHANNEL_FLAGS_WRITETHROUGH = 1"

definition unix_write_blk :: "io_channel \<Rightarrow> u64 \<Rightarrow> int \<Rightarrow> u8 list \<Rightarrow> (errcode \<times> io_channel) option" where
  "unix_write_blk ch block count buf =
     (if checked ch \<noteq> OK then Some (checked ch, ch)
      else if count < 0 \<or> WRITE_DIRECT_SIZE < count
      then do {
        (retval, ch) \<leftarrow> flush_cached_blocks ch True;
        if retval \<noteq> OK then Some (retval, ch) else raw_write_blk ch block count buf }
      else do {
        let writethrough = ch_flags ch AND CHANNEL_FLAGS_WRITETHROUGH \<noteq> 0;
        (retval, ch) \<leftarrow> (if writethrough then raw_write_blk ch block count buf else Some (OK, ch));
        ch \<leftarrow> write_cached_blocks writethrough ch block (nat count) buf;
        Some (retval, ch) })"

definition unix_write_byte :: "io_channel \<Rightarrow> u64 \<Rightarrow> int \<Rightarrow> u8 list \<Rightarrow> (errcode \<times> io_channel) option" where
  \<comment> \<open>The sum of \<open>offset\<close> and that of the channel is an \<open>unsigned long\<close> converted to an offset.\<close>
  "unix_write_byte ch offset n buf =
     (if checked ch \<noteq> OK then Some (checked ch, ch)
      else do {
        (retval, ch) \<leftarrow> flush_cached_blocks ch True;
        if retval \<noteq> OK then Some (retval, ch)
        else let l = sint (offset + of_int (ch_offset ch)) in
          if l < 0 then Some (EINVAL, ch)
          else if n < 0 \<or> length buf < nat n then None
          else Some (if dev_count (ch_dev ch) (nat l) (nat n) = nat n then OK else EXT2_ET_SHORT_WRITE,
                     ch\<lparr>ch_dev := dev_write (ch_dev ch) (nat l) (take (nat n) buf)\<rparr>) })"

definition unix_flush :: "io_channel \<Rightarrow> (errcode \<times> io_channel) option" where
  \<comment> \<open>What \<open>fsync\<close> does to the device is not visible to the program.\<close>
  "unix_flush ch =
     (if checked ch \<noteq> OK then Some (checked ch, ch) else flush_cached_blocks ch False)"

subsection \<open>Options of the channel\<close>

definition digit_value :: "char \<Rightarrow> nat" where
  "digit_value c = (let n = of_char c in
     if is_digit c then n - 48 else if is_lower c then n - 87 else if is_upper c then n - 55 else 36)"

definition strtoul :: "string \<Rightarrow> u64 \<times> string" where
  \<comment> \<open>The library function with base 0: the value, and what \<open>end\<close> points to.\<close>
  "strtoul s =
     (let t = skip_spaces s;
          (neg, t) = (case t of c # t' \<Rightarrow> (if c = CHR ''-'' then (True, t') else if c = CHR ''+'' then (False, t') else (False, t))
                      | [] \<Rightarrow> (False, t));
          hex = (case t of z # x # d # _ \<Rightarrow> z = CHR ''0'' \<and> (x = CHR ''x'' \<or> x = CHR ''X'') \<and> digit_value d < 16
                 | _ \<Rightarrow> False);
          base = (if hex then 16 else if t \<noteq> [] \<and> hd t = CHR ''0'' then 8 else 10);
          t = (if hex then drop 2 t else t);
          ds = takeWhile (\<lambda>c. digit_value c < base) t;
          v = foldl (\<lambda>v c. base * v + digit_value c) 0 ds
      in if ds = [] then (0, s)
         else (if 2 ^ 64 \<le> v then - 1 else if neg then - of_nat v else of_nat v, drop (length ds) t))"

definition unix_set_option :: "io_channel \<Rightarrow> string \<Rightarrow> string option \<Rightarrow> errcode \<times> io_channel" where
  "unix_set_option ch opt arg =
     (if checked ch \<noteq> OK then (checked ch, ch)
      else if opt = ''offset''
      then case arg of
          None \<Rightarrow> (EXT2_ET_INVALID_ARGUMENT, ch)
        | Some arg \<Rightarrow> (let (tmp, end) = strtoul arg in
            if end \<noteq> [] then (EXT2_ET_INVALID_ARGUMENT, ch)
            else (OK, ch\<lparr>ch_offset := sint tmp\<rparr>))
      else (EXT2_ET_INVALID_ARGUMENT, ch))"

definition strchr_cut :: "char \<Rightarrow> string \<Rightarrow> string \<times> string option" where
  \<comment> \<open>\<open>p = strchr(s, c); if (p) *p++ = 0;\<close>: what is left of \<open>s\<close>, and \<open>p\<close>.\<close>
  "strchr_cut c s = (let t = takeWhile (\<lambda>d. d \<noteq> c) s in
     (t, if length t < length s then Some (drop (length t + 1) s) else None))"

lemma strchr_cut_shorter: "strchr_cut c s = (t, Some u) \<Longrightarrow> length u < length s"
  by (auto simp: strchr_cut_def Let_def split: if_split_asm)

function set_options_loop :: "io_channel \<Rightarrow> string option \<Rightarrow> errcode \<times> io_channel" where
  "set_options_loop ch ptr =
     (case ptr of
        None \<Rightarrow> (OK, ch)
      | Some s \<Rightarrow>
          if s = [] then (OK, ch)
          else let (s, rest) = strchr_cut (CHR ''&'') s;
                   (opt, arg) = strchr_cut (CHR ''='') s;
                   (retval, ch) = unix_set_option ch opt arg
            in if retval \<noteq> OK then (retval, ch) else set_options_loop ch rest)"
  by pat_completeness auto
termination
  by (relation "measure (\<lambda>(ch, ptr). case ptr of None \<Rightarrow> 0 | Some s \<Rightarrow> Suc (length s))")
     (auto split: option.split dest: strchr_cut_shorter[OF sym])

declare set_options_loop.simps [simp del]

definition io_channel_set_options :: "malloc \<Rightarrow> io_channel \<Rightarrow> string option \<Rightarrow> errcode \<times> io_channel" where
  "io_channel_set_options mem ch opts =
     (if ch_magic ch \<noteq> EXT2_ET_MAGIC_IO_CHANNEL then (EXT2_ET_MAGIC_IO_CHANNEL, ch)
      else case opts of
        None \<Rightarrow> (OK, ch)
      | Some s \<Rightarrow> if \<not> mem (length s + 1) then (EXT2_ET_NO_MEMORY, ch) else set_options_loop ch (Some s))"

definition io_channel_write_byte :: "io_channel \<Rightarrow> u64 \<Rightarrow> int \<Rightarrow> u8 list \<Rightarrow> (errcode \<times> io_channel) option" where
  "io_channel_write_byte ch offset count data =
     (if ch_magic ch \<noteq> EXT2_ET_MAGIC_IO_CHANNEL then Some (EXT2_ET_MAGIC_IO_CHANNEL, ch)
      else unix_write_byte ch offset count data)"

end
