(* ===== verification/Ext2_Filsys.thy ===== *)
theory Ext2_Filsys
  imports Ext2_Alloc Unix_Io "HOL-Library.Signed_Division"
begin

unbundle bit_operations_syntax

text \<open>
  The open filesystem of \<open>ext2fs\<close>: its flags and the groups of blocks and inodes
  (\<open>ext2fs_inline.c\<close>), the counts of free blocks and inodes (\<open>alloc_stats.c\<close>), and the bitmaps
  on the device (\<open>rw_bitmaps.c\<close>), which are read and written through the I/O channel. The build for
  big-endian bitmaps of old PowerPC systems is left out.
\<close>

record ext2_group_desc =
  bg_block_bitmap :: u32
  bg_inode_bitmap :: u32
  bg_inode_table :: u32
  bg_free_blocks_count :: u16
  bg_free_inodes_count :: u16
  bg_used_dirs_count :: u16
  bg_unused :: "u8 list"   \<comment> \<open>the 14 bytes of \<open>bg_pad\<close> and \<open>bg_reserved\<close>\<close>

record ext2_image_hdr =
  magic_number :: u32
  image_blocksize :: u32   \<comment> \<open>\<open>fs_blocksize\<close> in C\<close>
  offset_inodemap :: u32
  offset_blockmap :: u32

record ext2_super_block =
  \<comment> \<open>The fields of the superblock that are not fields of the record of the filesystem below. The bytes of those
      the library does not use are in three lists.\<close>
  s_r_blocks_count :: u32
  s_log_block_size :: u32
  s_log_frag_size :: int
  s_frags_per_group :: u32
  s_mtime :: u32
  s_wtime :: u32
  s_mnt_count :: u16
  s_max_mnt_count :: int
  s_magic :: u16
  s_state :: u16
  s_errors :: u16
  s_minor_rev_level :: u16
  s_lastcheck :: u32
  s_checkinterval :: u32
  s_creator_os :: u32
  s_rev_level :: u32
  s_def_resuid :: u16
  s_def_resgid :: u16
  s_first_ino_field :: u32       \<comment> \<open>\<open>s_first_ino\<close> in C\<close>
  s_inode_size :: u16
  s_block_group_nr :: u16
  s_feature_compat :: u32
  s_feature_incompat :: u32
  s_feature_ro_compat :: u32
  s_uuid_names :: "u8 list"      \<comment> \<open>from \<open>s_uuid\<close> to \<open>s_prealloc_dir_blocks\<close>: 102 bytes\<close>
  s_reserved_gdt_blocks :: u16
  s_journal :: "u8 list"         \<comment> \<open>from \<open>s_journal_uuid\<close> to \<open>s_default_mount_opts\<close>: 52 bytes\<close>
  s_first_meta_bg :: u32
  s_mkfs_time :: u32
  s_reserved :: "u8 list"        \<comment> \<open>\<open>s_jnl_blocks\<close> and \<open>s_reserved\<close>: 756 bytes\<close>

record ext2_fs = ext2_filsys +
  fs_io :: io_channel
  fs_flags :: u32
  fs_device_name :: string
  s_free_blocks_count :: u32
  s_free_inodes_count :: u32
  fs_super :: ext2_super_block
  fs_blocksize :: u32
  fs_fragsize :: int
  desc_blocks :: u64
  group_desc :: "ext2_group_desc list"
  desc_rest :: "u8 list"         \<comment> \<open>the bytes behind the last descriptor in its block\<close>
  inode_blocks_per_group :: int
  fs_stride :: u32
  fs_umask :: u32
  image_header :: ext2_image_hdr
  image_io :: io_channel
  orig_super :: "u8 list option"

subsection \<open>Flags and groups\<close>

definition EXT2_FLAG_RW :: u32 where "EXT2_FLAG_RW = 0x01"
definition EXT2_FLAG_CHANGED :: u32 where "EXT2_FLAG_CHANGED = 0x02"
definition EXT2_FLAG_DIRTY :: u32 where "EXT2_FLAG_DIRTY = 0x04"
definition EXT2_FLAG_VALID :: u32 where "EXT2_FLAG_VALID = 0x08"
definition EXT2_FLAG_IB_DIRTY :: u32 where "EXT2_FLAG_IB_DIRTY = 0x10"
definition EXT2_FLAG_BB_DIRTY :: u32 where "EXT2_FLAG_BB_DIRTY = 0x20"
definition EXT2_FLAG_IMAGE_FILE :: u32 where "EXT2_FLAG_IMAGE_FILE = 0x2000"

definition ext2fs_mark_super_dirty :: "ext2_fs \<Rightarrow> ext2_fs" where
  "ext2fs_mark_super_dirty fs = fs\<lparr>fs_flags := fs_flags fs OR (EXT2_FLAG_DIRTY OR EXT2_FLAG_CHANGED)\<rparr>"

definition ext2fs_mark_changed :: "ext2_fs \<Rightarrow> ext2_fs" where
  "ext2fs_mark_changed fs = fs\<lparr>fs_flags := fs_flags fs OR EXT2_FLAG_CHANGED\<rparr>"

definition ext2fs_test_changed :: "ext2_fs \<Rightarrow> u32" where
  "ext2fs_test_changed fs = fs_flags fs AND EXT2_FLAG_CHANGED"

definition ext2fs_mark_valid :: "ext2_fs \<Rightarrow> ext2_fs" where
  "ext2fs_mark_valid fs = fs\<lparr>fs_flags := fs_flags fs OR EXT2_FLAG_VALID\<rparr>"

definition ext2fs_unmark_valid :: "ext2_fs \<Rightarrow> ext2_fs" where
  "ext2fs_unmark_valid fs = fs\<lparr>fs_flags := fs_flags fs AND NOT EXT2_FLAG_VALID\<rparr>"

definition ext2fs_test_valid :: "ext2_fs \<Rightarrow> u32" where
  "ext2fs_test_valid fs = fs_flags fs AND EXT2_FLAG_VALID"

definition ext2fs_mark_ib_dirty :: "ext2_fs \<Rightarrow> ext2_fs" where
  "ext2fs_mark_ib_dirty fs = fs\<lparr>fs_flags := fs_flags fs OR (EXT2_FLAG_IB_DIRTY OR EXT2_FLAG_CHANGED)\<rparr>"

definition ext2fs_mark_bb_dirty :: "ext2_fs \<Rightarrow> ext2_fs" where
  "ext2fs_mark_bb_dirty fs = fs\<lparr>fs_flags := fs_flags fs OR (EXT2_FLAG_BB_DIRTY OR EXT2_FLAG_CHANGED)\<rparr>"

definition ext2fs_test_ib_dirty :: "ext2_fs \<Rightarrow> u32" where
  "ext2fs_test_ib_dirty fs = fs_flags fs AND EXT2_FLAG_IB_DIRTY"

definition ext2fs_test_bb_dirty :: "ext2_fs \<Rightarrow> u32" where
  "ext2fs_test_bb_dirty fs = fs_flags fs AND EXT2_FLAG_BB_DIRTY"

definition ext2fs_group_of_blk :: "ext2_fs \<Rightarrow> u32 \<Rightarrow> int option" where
  "ext2fs_group_of_blk fs blk =
     (if s_blocks_per_group fs = 0 then None
      else Some (sint ((blk - s_first_data_block fs) div s_blocks_per_group fs)))"

definition ext2fs_group_of_ino :: "ext2_fs \<Rightarrow> u32 \<Rightarrow> int option" where
  "ext2fs_group_of_ino fs ino =
     (if s_inodes_per_group fs = 0 then None else Some (sint ((ino - 1) div s_inodes_per_group fs)))"

subsection \<open>Statistics\<close>

definition upd_group :: "ext2_fs \<Rightarrow> int \<Rightarrow> (ext2_group_desc \<Rightarrow> ext2_group_desc) \<Rightarrow> ext2_fs option" where
  \<comment> \<open>A statement on \<open>fs->group_desc[group]\<close>.\<close>
  "upd_group fs grp f =
     (if grp < 0 then None
      else do {
        g \<leftarrow> rd (group_desc fs) (nat grp);
        Some (fs\<lparr>group_desc := (group_desc fs)[nat grp := f g]\<rparr>) })"

definition ext2fs_inode_alloc_stats2 :: "ext2_fs \<Rightarrow> u32 \<Rightarrow> int \<Rightarrow> bool \<Rightarrow> ext2_fs option" where
  "ext2fs_inode_alloc_stats2 fs ino inuse isdir = do {
     grp \<leftarrow> ext2fs_group_of_ino fs ino;
     bm \<leftarrow> inode_map fs;
     (_, bm) \<leftarrow> (if 0 < inuse then ext2fs_mark_generic_bitmap bm ino else ext2fs_unmark_generic_bitmap bm ino);
     let fs = fs\<lparr>inode_map := Some bm\<rparr>;
     fs \<leftarrow> upd_group fs grp (\<lambda>g. g\<lparr>bg_free_inodes_count := bg_free_inodes_count g - of_int inuse\<rparr>);
     fs \<leftarrow> (if isdir
            then upd_group fs grp (\<lambda>g. g\<lparr>bg_used_dirs_count := bg_used_dirs_count g + of_int inuse\<rparr>)
            else Some fs);
     let fs = fs\<lparr>s_free_inodes_count := s_free_inodes_count fs - of_int inuse\<rparr>;
     Some (ext2fs_mark_ib_dirty (ext2fs_mark_super_dirty fs)) }"

definition ext2fs_inode_alloc_stats :: "ext2_fs \<Rightarrow> u32 \<Rightarrow> int \<Rightarrow> ext2_fs option" where
  "ext2fs_inode_alloc_stats fs ino inuse = ext2fs_inode_alloc_stats2 fs ino inuse False"

definition ext2fs_block_alloc_stats :: "ext2_fs \<Rightarrow> u32 \<Rightarrow> int \<Rightarrow> ext2_fs option" where
  "ext2fs_block_alloc_stats fs blk inuse = do {
     grp \<leftarrow> ext2fs_group_of_blk fs blk;
     bm \<leftarrow> block_map fs;
     (_, bm) \<leftarrow> (if 0 < inuse then ext2fs_mark_generic_bitmap bm blk else ext2fs_unmark_generic_bitmap bm blk);
     let fs = fs\<lparr>block_map := Some bm\<rparr>;
     fs \<leftarrow> upd_group fs grp (\<lambda>g. g\<lparr>bg_free_blocks_count := bg_free_blocks_count g - of_int inuse\<rparr>);
     let fs = fs\<lparr>s_free_blocks_count := s_free_blocks_count fs - of_int inuse\<rparr>;
     Some (ext2fs_mark_bb_dirty (ext2fs_mark_super_dirty fs)) }"

subsection \<open>Writing the bitmaps\<close>

definition io_channel_write_blk :: "io_channel \<Rightarrow> u32 \<Rightarrow> u8 list \<Rightarrow> (errcode \<times> io_channel) option" where
  \<comment> \<open>One block, by the manager of the channel.\<close>
  "io_channel_write_blk ch blk buf = unix_write_blk ch (ucast blk) 1 buf"

definition block_with :: "u8 list \<Rightarrow> nat \<Rightarrow> nat \<Rightarrow> u8 list \<Rightarrow> u8 list option" where
  \<comment> \<open>\<open>memcpy(bitmap_block, bitmap + p, nbytes)\<close>\<close>
  "block_with bitmap p nbytes bitmap_block =
     (if length bitmap < p + nbytes \<or> length bitmap_block < nbytes then None
      else Some (write_at bitmap_block 0 (take nbytes (drop p bitmap))))"

fun write_maps :: "(ext2_group_desc \<Rightarrow> u32) \<Rightarrow> errcode \<Rightarrow> (nat \<Rightarrow> u8 list \<Rightarrow> u8 list option)
    \<Rightarrow> nat list \<Rightarrow> nat \<Rightarrow> u8 list \<Rightarrow> u8 list \<Rightarrow> ext2_fs \<Rightarrow> (errcode \<times> ext2_fs) option" where
  \<comment> \<open>The loop over the groups, which the two functions share but for the field of the descriptor, the error
      and the padding.\<close>
  "write_maps blk_of err pad [] nbytes bitmap buf fs = Some (OK, fs)"
| "write_maps blk_of err pad (i # is) nbytes bitmap buf fs = do {
     buf \<leftarrow> block_with bitmap (i * nbytes) nbytes buf;
     buf \<leftarrow> pad i buf;
     g \<leftarrow> rd (group_desc fs) i;
     (retval, fs) \<leftarrow> (if blk_of g \<noteq> 0
        then do { (e, ch) \<leftarrow> io_channel_write_blk (fs_io fs) (blk_of g) buf; Some (e, fs\<lparr>fs_io := ch\<rparr>) }
        else Some (OK, fs));
     if retval \<noteq> OK then Some (err, fs) else write_maps blk_of err pad is nbytes bitmap buf fs }"

definition ext2fs_write_inode_bitmap :: "malloc \<Rightarrow> ext2_fs \<Rightarrow> (errcode \<times> ext2_fs) option" where
  "ext2fs_write_inode_bitmap mem fs = do {
     bm \<leftarrow> inode_map fs;
     if fs_magic fs \<noteq> EXT2_ET_MAGIC_EXT2FS_FILSYS then Some (EXT2_ET_MAGIC_EXT2FS_FILSYS, fs)
     else if fs_flags fs AND EXT2_FLAG_RW = 0 then Some (EXT2_ET_RO_FILSYS, fs)
     else let
       nbytes = unat ((s_inodes_per_group fs + 7) div 8);
       n = unat (fs_blocksize fs) in
       if ext2fs_get_mem mem n \<noteq> OK then Some (ext2fs_get_mem mem n, fs)
       else do {
         (e, fs) \<leftarrow> write_maps bg_inode_bitmap EXT2_ET_INODE_BITMAP_WRITE (\<lambda>i. Some)
           [0..<unat (group_desc_count fs)] nbytes (bm_bytes bm) (replicate n 255) fs;
         Some (e, if e \<noteq> OK then fs else fs\<lparr>fs_flags := fs_flags fs AND NOT EXT2_FLAG_IB_DIRTY\<rparr>) } }"

fun set_bits :: "nat list \<Rightarrow> u8 list \<Rightarrow> u8 list option" where
  "set_bits [] buf = Some buf"
| "set_bits (j # js) buf = do { (_, buf) \<leftarrow> ext2fs_set_bit (of_nat j) buf; set_bits js buf }"

definition pad_last :: "ext2_fs \<Rightarrow> nat \<Rightarrow> u8 list \<Rightarrow> u8 list option" where
  \<comment> \<open>Force bitmap padding for the last group.\<close>
  "pad_last fs i buf =
     (if i = unat (group_desc_count fs - 1)
      then if s_blocks_per_group fs = 0 then None
        else let nbits = (s_blocks_count fs - s_first_data_block fs) mod s_blocks_per_group fs in
          if nbits \<noteq> 0 then set_bits [unat nbits..<unat (fs_blocksize fs * 8)] buf else Some buf
      else Some buf)"

definition ext2fs_write_block_bitmap :: "malloc \<Rightarrow> ext2_fs \<Rightarrow> (errcode \<times> ext2_fs) option" where
  "ext2fs_write_block_bitmap mem fs = do {
     bm \<leftarrow> block_map fs;
     if fs_magic fs \<noteq> EXT2_ET_MAGIC_EXT2FS_FILSYS then Some (EXT2_ET_MAGIC_EXT2FS_FILSYS, fs)
     else if fs_flags fs AND EXT2_FLAG_RW = 0 then Some (EXT2_ET_RO_FILSYS, fs)
     else let
       nbytes = unat (s_blocks_per_group fs div 8);
       n = unat (fs_blocksize fs) in
       if ext2fs_get_mem mem n \<noteq> OK then Some (ext2fs_get_mem mem n, fs)
       else do {
         (e, fs) \<leftarrow> write_maps bg_block_bitmap EXT2_ET_BLOCK_BITMAP_WRITE (pad_last fs)
           [0..<unat (group_desc_count fs)] nbytes (bm_bytes bm) (replicate n 255) fs;
         Some (e, if e \<noteq> OK then fs else fs\<lparr>fs_flags := fs_flags fs AND NOT EXT2_FLAG_BB_DIRTY\<rparr>) } }"

definition ext2fs_write_bitmaps :: "malloc \<Rightarrow> ext2_fs \<Rightarrow> (errcode \<times> ext2_fs) option" where
  "ext2fs_write_bitmaps mem fs =
     (if fs_magic fs \<noteq> EXT2_ET_MAGIC_EXT2FS_FILSYS then Some (EXT2_ET_MAGIC_EXT2FS_FILSYS, fs)
      else do {
        (e, fs) \<leftarrow> (if block_map fs \<noteq> None \<and> ext2fs_test_bb_dirty fs \<noteq> 0
                    then ext2fs_write_block_bitmap mem fs else Some (OK, fs));
        if e \<noteq> OK then Some (e, fs)
        else if inode_map fs \<noteq> None \<and> ext2fs_test_ib_dirty fs \<noteq> 0
        then ext2fs_write_inode_bitmap mem fs else Some (OK, fs) })"

subsection \<open>Reading the bitmaps\<close>

definition put_bytes :: "u8 list \<Rightarrow> nat \<Rightarrow> u8 list \<Rightarrow> u8 list option" where
  \<comment> \<open>Bytes written through a pointer into an array.\<close>
  "put_bytes xs p ys = (if length xs < p + length ys then None else Some (write_at xs p ys))"

definition read_map_part :: "io_channel \<Rightarrow> u32 \<Rightarrow> int \<Rightarrow> nat \<Rightarrow> u8 list \<Rightarrow> (errcode \<times> u8 list \<times> io_channel) option" where
  \<comment> \<open>The part of a bitmap that belongs to one group: from the device, or zero.\<close>
  "read_map_part ch blk nbytes p bitmap =
     (if blk \<noteq> 0
      then do {
        (e, xs, ch) \<leftarrow> unix_read_blk ch (ucast blk) (- nbytes);
        bitmap \<leftarrow> put_bytes bitmap p xs;
        Some (e, bitmap, ch) }
      else do {
        bitmap \<leftarrow> put_bytes bitmap p (replicate (nat nbytes) 0);
        Some (OK, bitmap, ch) })"

definition set_block_bytes :: "ext2_fs \<Rightarrow> u8 list \<Rightarrow> io_channel \<Rightarrow> ext2_fs" where
  "set_block_bytes fs xs ch = fs\<lparr>block_map := map_option (bm_bytes_update (\<lambda>_. xs)) (block_map fs), fs_io := ch\<rparr>"

definition set_inode_bytes :: "ext2_fs \<Rightarrow> u8 list \<Rightarrow> io_channel \<Rightarrow> ext2_fs" where
  "set_inode_bytes fs xs ch = fs\<lparr>inode_map := map_option (bm_bytes_update (\<lambda>_. xs)) (inode_map fs), fs_io := ch\<rparr>"

definition read_group_map :: "bool \<Rightarrow> bool \<Rightarrow> int \<Rightarrow> int \<Rightarrow> nat \<Rightarrow> ext2_fs \<Rightarrow> (errcode \<times> ext2_fs) option" where
  \<comment> \<open>One round of the loop of \<open>read_bitmaps\<close>.\<close>
  "read_group_map do_inode do_block inode_nbytes block_nbytes i fs = do {
     g \<leftarrow> rd (group_desc fs) i;
     (e, fs) \<leftarrow> (if do_block then do {
          bm \<leftarrow> block_map fs;
          (e, xs, ch) \<leftarrow> read_map_part (fs_io fs) (bg_block_bitmap g) block_nbytes (i * nat block_nbytes) (bm_bytes bm);
          Some (if e \<noteq> OK then EXT2_ET_BLOCK_BITMAP_READ else OK, set_block_bytes fs xs ch) }
        else Some (OK, fs));
     if e \<noteq> OK then Some (e, fs)
     else if do_inode then do {
          bm \<leftarrow> inode_map fs;
          (e, xs, ch) \<leftarrow> read_map_part (fs_io fs) (bg_inode_bitmap g) inode_nbytes (i * nat inode_nbytes) (bm_bytes bm);
          Some (if e \<noteq> OK then EXT2_ET_INODE_BITMAP_READ else OK, set_inode_bytes fs xs ch) }
        else Some (OK, fs) }"

fun read_group_maps :: "bool \<Rightarrow> bool \<Rightarrow> int \<Rightarrow> int \<Rightarrow> nat list \<Rightarrow> ext2_fs \<Rightarrow> (errcode \<times> ext2_fs) option" where
  "read_group_maps do_inode do_block ni nb [] fs = Some (OK, fs)"
| "read_group_maps do_inode do_block ni nb (i # is) fs = do {
     (e, fs) \<leftarrow> read_group_map do_inode do_block ni nb i fs;
     if e \<noteq> OK then Some (e, fs) else read_group_maps do_inode do_block ni nb is fs }"

definition read_image_maps :: "bool \<Rightarrow> bool \<Rightarrow> int \<Rightarrow> int \<Rightarrow> ext2_fs \<Rightarrow> (errcode \<times> ext2_fs) option" where
  \<comment> \<open>From an image file; the sizes are computed in 32 bits.\<close>
  "read_image_maps do_inode do_block inode_nbytes block_nbytes fs =
     (if (do_inode \<or> do_block) \<and> fs_blocksize fs = 0 then None
      else do {
        (e, fs) \<leftarrow> (if do_inode then do {
             bm \<leftarrow> inode_map fs;
             (e, xs, ch) \<leftarrow> unix_read_blk (image_io fs) (ucast (offset_inodemap (image_header fs) div fs_blocksize fs))
               (sint (- (of_int inode_nbytes * group_desc_count fs)));
             ys \<leftarrow> put_bytes (bm_bytes bm) 0 xs;
             Some (e, (set_inode_bytes fs ys (fs_io fs))\<lparr>image_io := ch\<rparr>) }
           else Some (OK, fs));
        if e \<noteq> OK then Some (e, fs)
        else if do_block then do {
             bm \<leftarrow> block_map fs;
             (e, xs, ch) \<leftarrow> unix_read_blk (image_io fs) (ucast (offset_blockmap (image_header fs) div fs_blocksize fs))
               (sint (- (of_int block_nbytes * group_desc_count fs)));
             ys \<leftarrow> put_bytes (bm_bytes bm) 0 xs;
             Some (e, (set_block_bytes fs ys (fs_io fs))\<lparr>image_io := ch\<rparr>) }
           else Some (OK, fs) })"

definition maps_freed :: "bool \<Rightarrow> bool \<Rightarrow> ext2_fs \<Rightarrow> ext2_fs" where
  \<comment> \<open>The label \<open>cleanup\<close>.\<close>
  "maps_freed do_inode do_block fs =
     fs\<lparr>block_map := (if do_block then None else block_map fs), inode_map := (if do_inode then None else inode_map fs)\<rparr>"

definition dangling :: "errcode \<Rightarrow> bitmap option \<Rightarrow> bool" where
  \<comment> \<open>The old bitmap has been freed, and the pointer to it is still in the record.\<close>
  "dangling magic bm \<longleftrightarrow> bm \<noteq> None \<and> bm_magic (the bm) = magic"

definition fresh_maps :: "malloc \<Rightarrow> ext2_fs \<Rightarrow> bool \<Rightarrow> bool \<Rightarrow> (errcode \<times> ext2_fs) option" where
  \<comment> \<open>The first part of \<open>read_bitmaps\<close>: new bitmaps for the old ones. When there is no memory, \<open>cleanup\<close> frees
      an old bitmap that is already freed.\<close>
  "fresh_maps mem fs do_inode do_block = do {
     (e, fs) \<leftarrow> (if do_block then do {
          r \<leftarrow> ext2fs_allocate_block_bitmap mem fs (Some (''block bitmap for '' @ fs_device_name fs));
          case r of
            Inl e \<Rightarrow> if dangling EXT2_ET_MAGIC_BLOCK_BITMAP (block_map fs) then None
                     else Some (e, maps_freed do_inode do_block fs)
          | Inr bm \<Rightarrow> Some (OK, fs\<lparr>block_map := Some bm\<rparr>) }
        else Some (OK, fs));
     if e \<noteq> OK then Some (e, fs)
     else if do_inode then do {
          r \<leftarrow> ext2fs_allocate_inode_bitmap mem fs (Some (''inode bitmap for '' @ fs_device_name fs));
          case r of
            Inl e \<Rightarrow> if dangling EXT2_ET_MAGIC_INODE_BITMAP (inode_map fs) then None
                     else Some (e, maps_freed do_inode do_block fs)
          | Inr bm \<Rightarrow> Some (OK, fs\<lparr>inode_map := Some bm\<rparr>) }
        else Some (OK, fs) }"

definition read_bitmaps :: "malloc \<Rightarrow> ext2_fs \<Rightarrow> bool \<Rightarrow> bool \<Rightarrow> (errcode \<times> ext2_fs) option" where
  "read_bitmaps mem fs do_inode do_block = (let
     block_nbytes = sint (s_blocks_per_group fs) sdiv 8;
     inode_nbytes = sint (s_inodes_per_group fs) sdiv 8;
     n = length (fs_device_name fs) + 80 in
     if fs_magic fs \<noteq> EXT2_ET_MAGIC_EXT2FS_FILSYS then Some (EXT2_ET_MAGIC_EXT2FS_FILSYS, fs)
     else if ext2fs_get_mem mem n \<noteq> OK then Some (ext2fs_get_mem mem n, fs)
     else do {
       (e, fs) \<leftarrow> fresh_maps mem fs do_inode do_block;
       if e \<noteq> OK then Some (e, fs)
       else do {
         (e, fs) \<leftarrow> (if fs_flags fs AND EXT2_FLAG_IMAGE_FILE \<noteq> 0
            then read_image_maps do_inode do_block inode_nbytes block_nbytes fs
            else if block_nbytes < 0 \<or> inode_nbytes < 0 then None
            else read_group_maps do_inode do_block inode_nbytes block_nbytes [0..<unat (group_desc_count fs)] fs);
         Some (e, if e \<noteq> OK then maps_freed do_inode do_block fs else fs) } })"

definition ext2fs_read_inode_bitmap :: "malloc \<Rightarrow> ext2_fs \<Rightarrow> (errcode \<times> ext2_fs) option" where
  "ext2fs_read_inode_bitmap mem fs = read_bitmaps mem fs True False"

definition ext2fs_read_block_bitmap :: "malloc \<Rightarrow> ext2_fs \<Rightarrow> (errcode \<times> ext2_fs) option" where
  "ext2fs_read_block_bitmap mem fs = read_bitmaps mem fs False True"

definition ext2fs_read_bitmaps :: "malloc \<Rightarrow> ext2_fs \<Rightarrow> (errcode \<times> ext2_fs) option" where
  "ext2fs_read_bitmaps mem fs =
     (if fs_magic fs \<noteq> EXT2_ET_MAGIC_EXT2FS_FILSYS then Some (EXT2_ET_MAGIC_EXT2FS_FILSYS, fs)
      else if inode_map fs \<noteq> None \<and> block_map fs \<noteq> None then Some (OK, fs)
      else read_bitmaps mem fs (inode_map fs = None) (block_map fs = None))"

subsection \<open>Allocating a block\<close>

definition ext2fs_alloc_block :: "malloc \<Rightarrow> ext2_fs \<Rightarrow> u32 \<Rightarrow> u8 list option \<Rightarrow> ((errcode + u32) \<times> ext2_fs) option" where
  \<comment> \<open>The fourth argument is the caller's buffer, if any.\<close>
  "ext2fs_alloc_block mem fs goal block_buf = (let n = unat (fs_blocksize fs) in
     if block_buf = None \<and> ext2fs_get_mem mem n \<noteq> OK then Some (Inl (ext2fs_get_mem mem n), fs)
     else if block_buf \<noteq> None \<and> length (the block_buf) < n then None
     else let buf = (case block_buf of None \<Rightarrow> replicate n 0 | Some b \<Rightarrow> replicate n 0 @ drop n b) in do {
       (e, fs) \<leftarrow> (if block_map fs = None then ext2fs_read_block_bitmap mem fs else Some (OK, fs));
       if e \<noteq> OK then Some (Inl e, fs)
       else do {
         r \<leftarrow> ext2fs_new_block fs goal None;
         case r of
           Inl e \<Rightarrow> Some (Inl e, fs)
         | Inr block \<Rightarrow> do {
             (e, ch) \<leftarrow> io_channel_write_blk (fs_io fs) block buf;
             let fs = fs\<lparr>fs_io := ch\<rparr>;
             if e \<noteq> OK then Some (Inl e, fs)
             else do {
               fs \<leftarrow> ext2fs_block_alloc_stats fs block 1;
               Some (Inr block, fs) } } } })"

end
