(* ===== verification/Ext2_Layout.thy ===== *)
theory Ext2_Layout
  imports Ext2_Filsys
begin

unbundle bit_operations_syntax

text \<open>
  Where the parts of a filesystem lie: which groups have a copy of the superblock
  (\<open>closefs.c\<close>), the blocks they reserve for it and for the group descriptors (\<open>alloc_sb.c\<close>), the
  blocks of the bitmaps and inode tables (\<open>alloc_tables.c\<close>) and the check of the descriptors
  (\<open>check_desc.c\<close>).
\<close>

definition EXT2_FEATURE_RO_COMPAT_SPARSE_SUPER :: u32 where "EXT2_FEATURE_RO_COMPAT_SPARSE_SUPER = 0x0001"
definition EXT2_FEATURE_INCOMPAT_META_BG :: u32 where "EXT2_FEATURE_INCOMPAT_META_BG = 0x0010"

subsection \<open>The copies of the superblock\<close>

partial_function (option) root_loop :: "int \<Rightarrow> int \<Rightarrow> bool option" where
  "root_loop b a =
     (if a = 1 then Some True
      else if b = 0 then None
      else if a smod b \<noteq> 0 then Some False
      else root_loop b (a sdiv b))"

definition test_root :: "int \<Rightarrow> int \<Rightarrow> bool option" where
  "test_root a b = (if a = 0 then Some True else root_loop b a)"

definition ext2fs_bg_has_super :: "ext2_fs \<Rightarrow> int \<Rightarrow> bool option" where
  "ext2fs_bg_has_super fs group_block =
     (if s_feature_ro_compat (fs_super fs) AND EXT2_FEATURE_RO_COMPAT_SPARSE_SUPER = 0 then Some True
      else do {
        r3 \<leftarrow> test_root group_block 3;
        if r3 then Some True
        else do {
          r5 \<leftarrow> test_root group_block 5;
          if r5 then Some True else test_root group_block 7 } })"

definition has_meta_bg :: "ext2_fs \<Rightarrow> bool" where
  "has_meta_bg fs \<longleftrightarrow> s_feature_incompat (fs_super fs) AND EXT2_FEATURE_INCOMPAT_META_BG \<noteq> 0"

definition old_desc_blocks :: "ext2_fs \<Rightarrow> int" where
  \<comment> \<open>The variable of this name in \<open>ext2fs_super_and_bgd_loc\<close> and \<open>ext2fs_reserve_super_and_bgd\<close>.\<close>
  "old_desc_blocks fs =
     (if has_meta_bg fs then sint (s_first_meta_bg (fs_super fs))
      else sint (ucast (desc_blocks fs + ucast (s_reserved_gdt_blocks (fs_super fs))) :: u32))"

record bgd_loc =
  \<comment> \<open>What \<open>ext2fs_super_and_bgd_loc\<close> returns and stores.\<close>
  loc_numblocks :: int
  loc_super_blk :: u32
  loc_old_desc_blk :: u32
  loc_new_desc_blk :: u32
  loc_meta_bg :: int

definition group_start :: "ext2_fs \<Rightarrow> u32 \<Rightarrow> u32" where
  "group_start fs grp = s_first_data_block fs + grp * s_blocks_per_group fs"

definition group_blocks :: "ext2_fs \<Rightarrow> u32 \<Rightarrow> int" where
  \<comment> \<open>The initial value of \<open>numblocks\<close>; the divisor is not zero.\<close>
  "group_blocks fs grp =
     (if grp = group_desc_count fs - 1
      then let n = sint ((s_blocks_count fs - s_first_data_block fs) mod s_blocks_per_group fs) in
        if n = 0 then sint (s_blocks_per_group fs) else n
      else sint (s_blocks_per_group fs))"

definition meta_copy :: "u32 \<Rightarrow> u32 \<Rightarrow> bool" where
  \<comment> \<open>A copy of the descriptors of a meta group is in its first two groups and its last one.\<close>
  "meta_copy grp meta_bg_size \<longleftrightarrow>
     grp mod meta_bg_size = 0 \<or> grp mod meta_bg_size = 1 \<or> grp mod meta_bg_size = meta_bg_size - 1"

definition ext2fs_super_and_bgd_loc :: "ext2_fs \<Rightarrow> u32 \<Rightarrow> bgd_loc option" where
  "ext2fs_super_and_bgd_loc fs grp =
     (if grp = group_desc_count fs - 1 \<and> s_blocks_per_group fs = 0 then None
      else do {
        let group_block = group_start fs grp;
        let numblocks = group_blocks fs grp;
        has_super \<leftarrow> ext2fs_bg_has_super fs (sint grp);
        let super_blk = (if has_super then group_block else 0);
        let numblocks = (if has_super then numblocks - 1 else numblocks);
        let meta_bg_size = fs_blocksize fs div 32;
        if meta_bg_size = 0 then None
        else let
          meta_bg = grp div meta_bg_size;
          (numblocks, old_desc_blk, new_desc_blk) =
            (if \<not> has_meta_bg fs \<or> meta_bg < s_first_meta_bg (fs_super fs)
             then if has_super then (numblocks - old_desc_blocks fs, group_block + 1, 0) else (numblocks, 0, 0)
             else if meta_copy grp meta_bg_size
             then (numblocks - 1, 0, group_block + (if has_super then 1 else 0))
             else (numblocks, 0, 0))
        in Some \<lparr>loc_numblocks = numblocks - (2 + inode_blocks_per_group fs), loc_super_blk = super_blk,
             loc_old_desc_blk = old_desc_blk, loc_new_desc_blk = new_desc_blk, loc_meta_bg = sint meta_bg\<rparr> })"

subsection \<open>Reserving blocks\<close>

fun mark_run :: "bitmap \<Rightarrow> u32 \<Rightarrow> nat \<Rightarrow> bitmap option" where
  \<comment> \<open>A loop of \<open>ext2fs_mark_block_bitmap\<close> over consecutive blocks.\<close>
  "mark_run bm blk 0 = Some bm"
| "mark_run bm blk (Suc n) = do { (_, bm) \<leftarrow> ext2fs_mark_generic_bitmap bm blk; mark_run bm (blk + 1) n }"

definition ext2fs_reserve_super_and_bgd :: "ext2_fs \<Rightarrow> u32 \<Rightarrow> bitmap \<Rightarrow> (int \<times> bitmap) option" where
  "ext2fs_reserve_super_and_bgd fs grp bmap = do {
     loc \<leftarrow> ext2fs_super_and_bgd_loc fs grp;
     bmap \<leftarrow> (if loc_super_blk loc \<noteq> 0 \<or> grp = 0 then mark_run bmap (loc_super_blk loc) 1 else Some bmap);
     bmap \<leftarrow> (if loc_old_desc_blk loc \<noteq> 0 then mark_run bmap (loc_old_desc_blk loc) (nat (old_desc_blocks fs)) else Some bmap);
     bmap \<leftarrow> (if loc_new_desc_blk loc \<noteq> 0 then mark_run bmap (loc_new_desc_blk loc) 1 else Some bmap);
     Some (loc_numblocks loc, bmap) }"

subsection \<open>The tables of a group\<close>

definition the_map :: "ext2_fs \<Rightarrow> bitmap option \<Rightarrow> bitmap option" where
  \<comment> \<open>The bitmap that is used: the caller's, or the one of the filesystem.\<close>
  "the_map fs bmap = (if bmap = None then block_map fs else bmap)"

definition mark_in :: "ext2_fs \<Rightarrow> bitmap option \<Rightarrow> u32 \<Rightarrow> nat \<Rightarrow> (ext2_fs \<times> bitmap option) option" where
  "mark_in fs bmap blk n = do {
     bm \<leftarrow> the_map fs bmap;
     bm \<leftarrow> mark_run bm blk n;
     Some (if bmap = None then (fs\<lparr>block_map := Some bm\<rparr>, None) else (fs, Some bm)) }"

definition find_block :: "ext2_fs \<Rightarrow> bitmap option \<Rightarrow> u32 \<Rightarrow> u32 \<Rightarrow> u32 \<Rightarrow> (errcode + u32) option" where
  \<comment> \<open>The block for a bitmap: from \<open>start_blk\<close> on, then from the start of the group.\<close>
  "find_block fs bmap start_blk group_blk last_blk = do {
     r \<leftarrow> ext2fs_get_free_blocks fs start_blk last_blk 1 bmap;
     if r = Inl EXT2_ET_BLOCK_ALLOC_FAIL then ext2fs_get_free_blocks fs group_blk last_blk 1 bmap else Some r }"

definition place :: "(ext2_group_desc \<Rightarrow> u32) \<Rightarrow> (u32 \<Rightarrow> ext2_group_desc \<Rightarrow> ext2_group_desc) \<Rightarrow> u32 \<Rightarrow> nat
    \<Rightarrow> (ext2_fs \<Rightarrow> bitmap option \<Rightarrow> (errcode + u32) option) \<Rightarrow> ext2_fs \<Rightarrow> bitmap option
    \<Rightarrow> (errcode \<times> ext2_fs \<times> bitmap option) option" where
  \<comment> \<open>One of the three parts of \<open>ext2fs_allocate_group_table\<close>: when the field of the descriptor is zero,
      \<open>n\<close> blocks are searched, marked and entered.\<close>
  "place get put grp n search fs bmap = do {
     g \<leftarrow> rd (group_desc fs) (unat grp);
     if get g \<noteq> 0 then Some (OK, fs, bmap)
     else do {
       r \<leftarrow> search fs bmap;
       case r of
         Inl e \<Rightarrow> Some (e, fs, bmap)
       | Inr new_blk \<Rightarrow> do {
           (fs, bmap) \<leftarrow> mark_in fs bmap new_blk n;
           fs \<leftarrow> upd_group fs (uint grp) (put new_blk);
           Some (OK, fs, bmap) } } }"

definition last_block :: "ext2_fs \<Rightarrow> u32 \<Rightarrow> u32" where
  "last_block fs group_blk =
     (let last_blk = group_blk + s_blocks_per_group fs in
      if s_blocks_count fs \<le> last_blk then s_blocks_count fs - 1 else last_blk)"

definition stride_start :: "ext2_fs \<Rightarrow> u32 \<Rightarrow> u32 \<Rightarrow> u32 \<Rightarrow> u32 option" where
  "stride_start fs grp group_blk last_blk =
     (if fs_stride fs \<noteq> 0
      then let start_blk = group_blk + of_int (inode_blocks_per_group fs) in
        if last_blk - start_blk = 0 then None
        else let start_blk = start_blk + (fs_stride fs * grp) mod (last_blk - start_blk) in
          Some (if last_blk < start_blk then group_blk else start_blk)
      else Some group_blk)"

definition ext2fs_allocate_group_table :: "ext2_fs \<Rightarrow> u32 \<Rightarrow> bitmap option \<Rightarrow> (errcode \<times> ext2_fs \<times> bitmap option) option" where
  \<comment> \<open>The third component is the caller's bitmap, if it is not the one of the filesystem.\<close>
  "ext2fs_allocate_group_table fs grp bmap = do {
     let group_blk = group_start fs grp;
     let last_blk = last_block fs group_blk;
     start_blk \<leftarrow> stride_start fs grp group_blk last_blk;
     (e, fs, bmap) \<leftarrow> place bg_block_bitmap (\<lambda>b. bg_block_bitmap_update (\<lambda>_. b)) grp 1
       (\<lambda>fs bmap. find_block fs bmap start_blk group_blk last_blk) fs bmap;
     if e \<noteq> OK then Some (e, fs, bmap)
     else do {
       (e, fs, bmap) \<leftarrow> place bg_inode_bitmap (\<lambda>b. bg_inode_bitmap_update (\<lambda>_. b)) grp 1
         (\<lambda>fs bmap. find_block fs bmap start_blk group_blk last_blk) fs bmap;
       if e \<noteq> OK then Some (e, fs, bmap)
       else place bg_inode_table (\<lambda>b. bg_inode_table_update (\<lambda>_. b)) grp (nat (inode_blocks_per_group fs))
         (\<lambda>fs bmap. ext2fs_get_free_blocks fs group_blk last_blk (inode_blocks_per_group fs) bmap) fs bmap } }"

fun allocate_groups :: "nat list \<Rightarrow> ext2_fs \<Rightarrow> (errcode \<times> ext2_fs) option" where
  "allocate_groups [] fs = Some (OK, fs)"
| "allocate_groups (i # is) fs = do {
     (e, fs, _) \<leftarrow> ext2fs_allocate_group_table fs (of_nat i) None;
     if e \<noteq> OK then Some (e, fs) else allocate_groups is fs }"

definition ext2fs_allocate_tables :: "ext2_fs \<Rightarrow> (errcode \<times> ext2_fs) option" where
  \<comment> \<open>The bitmap it passes on is the one of the filesystem.\<close>
  "ext2fs_allocate_tables fs = allocate_groups [0..<unat (group_desc_count fs)] fs"

subsection \<open>Checking the descriptors\<close>

fun check_groups :: "ext2_fs \<Rightarrow> ext2_group_desc list \<Rightarrow> u32 \<Rightarrow> errcode" where
  "check_groups fs [] block = OK"
| "check_groups fs (g # gs) block =
     (let next = block + s_blocks_per_group fs in
      if bg_block_bitmap g < block \<or> next \<le> bg_block_bitmap g then EXT2_ET_GDESC_BAD_BLOCK_MAP
      else if bg_inode_bitmap g < block \<or> next \<le> bg_inode_bitmap g then EXT2_ET_GDESC_BAD_INODE_MAP
      else if bg_inode_table g < block \<or> next \<le> bg_inode_table g + of_int (inode_blocks_per_group fs)
      then EXT2_ET_GDESC_BAD_INODE_TABLE
      else check_groups fs gs next)"

definition ext2fs_check_desc :: "ext2_fs \<Rightarrow> errcode option" where
  "ext2fs_check_desc fs =
     (if fs_magic fs \<noteq> EXT2_ET_MAGIC_EXT2FS_FILSYS then Some EXT2_ET_MAGIC_EXT2FS_FILSYS
      else if length (group_desc fs) < unat (group_desc_count fs) then None
      else Some (check_groups fs (take (unat (group_desc_count fs)) (group_desc fs)) (s_first_data_block fs)))"

end
