(* ===== verification/Ext2_Initialize.thy ===== *)
theory Ext2_Initialize
  imports Ext2_Layout
begin

unbundle bit_operations_syntax

text \<open>
  Making a new filesystem (\<open>initialize.c\<close>): from the parameters of the caller, the sizes of the
  groups and tables are planned, with new attempts when the last group is too small or a group has too
  many inodes; then the bitmaps are made, the superblocks and group descriptors reserved, and the free
  blocks counted. A little-endian machine with 64-bit pointers, Linux.
\<close>

record ext2_param =
  \<comment> \<open>The fields of the caller's superblock that are read.\<close>
  p_inodes_count :: u32
  p_blocks_count :: u32
  p_r_blocks_count :: u32
  p_first_data_block :: u32
  p_log_block_size :: u32
  p_log_frag_size :: int
  p_blocks_per_group :: u32
  p_max_mnt_count :: int
  p_errors :: u16
  p_checkinterval :: u32
  p_rev_level :: u32
  p_first_ino :: u32
  p_inode_size :: u16
  p_feature_compat :: u32
  p_feature_incompat :: u32
  p_feature_ro_compat :: u32
  p_reserved_gdt_blocks :: u16
  p_first_meta_bg :: u32

definition EXT2_FEATURE_COMPAT_RESIZE_INODE :: u32 where "EXT2_FEATURE_COMPAT_RESIZE_INODE = 0x0010"
definition EXT3_FEATURE_INCOMPAT_JOURNAL_DEV :: u32 where "EXT3_FEATURE_INCOMPAT_JOURNAL_DEV = 0x0008"
definition EXT2_LIB_FEATURE_INCOMPAT_SUPP :: u32 where "EXT2_LIB_FEATURE_INCOMPAT_SUPP = 0x0002 OR 0x0008 OR 0x0010 OR 0x0004"
definition EXT2_LIB_FEATURE_RO_COMPAT_SUPP :: u32 where "EXT2_LIB_FEATURE_RO_COMPAT_SUPP = 0x0001 OR 0x0002"

definition set_field :: "'a::zero \<Rightarrow> 'a \<Rightarrow> 'a" where
  "set_field param dflt = (if param \<noteq> 0 then param else dflt)"

definition EXT2_BLOCK_SIZE :: "u32 \<Rightarrow> u32 option" where
  \<comment> \<open>The shift of the \<open>int\<close> 1024 must not reach its sign.\<close>
  "EXT2_BLOCK_SIZE log = (if unat log < 21 then Some (push_bit (unat log) 1024) else None)"

definition EXT2_FRAG_SIZE :: "int \<Rightarrow> int option" where
  "EXT2_FRAG_SIZE log = (if 0 \<le> log \<and> log < 21 then Some (push_bit (nat log) 1024) else None)"

definition EXT2_INODE_SIZE :: "ext2_fs \<Rightarrow> u32" where
  "EXT2_INODE_SIZE fs = (if s_rev_level (fs_super fs) = 0 then 128 else ucast (s_inode_size (fs_super fs)))"

definition EXT2_MAX_BLOCKS_PER_GROUP :: u32 where "EXT2_MAX_BLOCKS_PER_GROUP = 65536 - 8"

definition EXT2_MAX_INODES_PER_GROUP :: "ext2_fs \<Rightarrow> u32" where
  "EXT2_MAX_INODES_PER_GROUP fs = 65536 - fs_blocksize fs div EXT2_INODE_SIZE fs"

subsection \<open>The plan\<close>

datatype plan = Fail errcode | Retry ext2_fs | Done ext2_fs

definition plan_groups :: "ext2_fs \<Rightarrow> (errcode + ext2_fs) option" where
  \<comment> \<open>The number of groups and of the blocks of their descriptors.\<close>
  "plan_groups fs =
     (if s_blocks_per_group fs = 0 \<or> fs_blocksize fs div 32 = 0 then None
      else let
        n = (s_blocks_count fs - s_first_data_block fs + s_blocks_per_group fs - 1) div s_blocks_per_group fs;
        desc_per_block = ucast (fs_blocksize fs) div 32
      in Some (if n = 0 then Inl EXT2_ET_TOOSMALL
           else Inr (fs\<lparr>group_desc_count := n, desc_blocks := (ucast n + desc_per_block - 1) div desc_per_block\<rparr>)))"

definition wanted_inodes :: "ext2_param \<Rightarrow> ext2_fs \<Rightarrow> u32" where
  "wanted_inodes param fs = (let
     i = (if 4096 \<le> fs_blocksize fs then 1 else 4096 div fs_blocksize fs);
     n = set_field (p_inodes_count param) (s_blocks_count fs div i)
   in if n < s_first_ino fs + 1 then s_first_ino fs + 1 else n)"

definition table_blocks :: "ext2_fs \<Rightarrow> u32 \<Rightarrow> int" where
  \<comment> \<open>The blocks of a table of \<open>ipg\<close> inodes.\<close>
  "table_blocks fs ipg = sint ((ipg * EXT2_INODE_SIZE fs + fs_blocksize fs - 1) div fs_blocksize fs)"

definition plan_inodes :: "ext2_fs \<Rightarrow> u32 \<Rightarrow> ext2_fs option" where
  \<comment> \<open>The inodes of a group fill the blocks of its table, and are a multiple of eight. The size of the table
      is computed in \<open>int\<close>.\<close>
  "plan_inodes fs ipg = (let
     ipg = (if EXT2_MAX_INODES_PER_GROUP fs < ipg then EXT2_MAX_INODES_PER_GROUP fs else ipg);
     bytes = table_blocks fs ipg * uint (fs_blocksize fs)
   in if EXT2_INODE_SIZE fs = 0 \<or> bytes < - 2147483648 \<or> 2147483648 \<le> bytes then None
      else let ipg = word_of_int (bytes sdiv uint (EXT2_INODE_SIZE fs)) AND NOT 7 in
        Some (fs\<lparr>s_inodes_per_group := ipg, inode_blocks_per_group := table_blocks fs ipg,
           s_inodes_count := ipg * group_desc_count fs, s_free_inodes_count := ipg * group_desc_count fs\<rparr>))"

definition calc_reserved_gdt_blocks :: "ext2_fs \<Rightarrow> int option" where
  "calc_reserved_gdt_blocks fs = (let
     bpg = ucast (s_blocks_per_group fs) :: u64;
     gdpb = ucast (fs_blocksize fs div 32) :: u64;
     max_blocks = (if ucast (s_blocks_count fs) < (0xffffffff div 1024 :: u64)
                   then ucast (s_blocks_count fs * 1024) else 0xffffffff)
   in if bpg = 0 \<or> gdpb = 0 then None
      else let
        rsv_groups = (max_blocks - ucast (s_first_data_block fs) + bpg - 1) div bpg;
        rsv_gdb = sint (ucast ((rsv_groups + gdpb - 1) div gdpb - desc_blocks fs) :: u32);
        addr_per_block = ucast (fs_blocksize fs) div 4 :: u64
      in Some (if addr_per_block < of_int rsv_gdb then sint (ucast addr_per_block :: u32) else rsv_gdb))"

definition plan_reserved :: "ext2_param \<Rightarrow> ext2_fs \<Rightarrow> ext2_fs option" where
  "plan_reserved param fs = do {
     rsv_gdt \<leftarrow> (if s_feature_compat (fs_super fs) AND EXT2_FEATURE_COMPAT_RESIZE_INODE \<noteq> 0
                 then calc_reserved_gdt_blocks fs else Some 0);
     Some (fs\<lparr>fs_super := (fs_super fs)\<lparr>s_reserved_gdt_blocks := set_field (p_reserved_gdt_blocks param) (of_int rsv_gdt)\<rparr>\<rparr>) }"

definition overhead :: "ext2_fs \<Rightarrow> u32 option" where
  \<comment> \<open>The blocks of bookkeeping of the last group.\<close>
  "overhead fs = do {
     has_super \<leftarrow> ext2fs_bg_has_super fs (sint (group_desc_count fs - 1));
     let n = (of_int (2 + inode_blocks_per_group fs) :: u32);
     Some (if has_super then n + ucast (1 + desc_blocks fs + ucast (s_reserved_gdt_blocks (fs_super fs))) else n) }"

definition plan_end :: "ext2_fs \<Rightarrow> plan option" where
  \<comment> \<open>Whether the tables fit into the groups.\<close>
  "plan_end fs =
     (if ucast (fs_blocksize fs) div 4 < (ucast (s_reserved_gdt_blocks (fs_super fs)) :: u64) then Some (Fail EXT2_ET_RES_GDT_BLOCKS)
      else do {
        n \<leftarrow> overhead fs;
        if s_blocks_per_group fs < n then Some (Fail EXT2_ET_TOO_MANY_INODES)
        else let rem = (s_blocks_count fs - s_first_data_block fs) mod s_blocks_per_group fs in
          if group_desc_count fs = 1 \<and> rem \<noteq> 0 \<and> rem < n then Some (Fail EXT2_ET_TOOSMALL)
          else if rem \<noteq> 0 \<and> rem < n + 50 then Some (Retry (fs\<lparr>s_blocks_count := s_blocks_count fs - rem\<rparr>))
          else Some (Done fs) })"

definition plan_step :: "ext2_param \<Rightarrow> u32 \<Rightarrow> ext2_fs \<Rightarrow> plan option" where
  \<comment> \<open>From the label \<open>retry\<close> to a \<open>goto retry\<close>, an error, or the end of the plan.\<close>
  "plan_step param frags_per_block fs = do {
     r \<leftarrow> plan_groups fs;
     case r of
       Inl e \<Rightarrow> Some (Fail e)
     | Inr fs \<Rightarrow> let
         fs = fs\<lparr>s_inodes_count := wanted_inodes param fs\<rparr>;
         ipg = (s_inodes_count fs + group_desc_count fs - 1) div group_desc_count fs
       in if fs_blocksize fs * 8 < ipg
          then let bpg = s_blocks_per_group fs - 8 in
            Some (if 256 \<le> s_blocks_per_group fs
                  then Retry (fs\<lparr>s_blocks_per_group := bpg, s_blocks_count := p_blocks_count param,
                         fs_super := (fs_super fs)\<lparr>s_frags_per_group := bpg * frags_per_block\<rparr>\<rparr>)
                  else Fail EXT2_ET_TOO_MANY_INODES)
          else do {
            fs \<leftarrow> plan_inodes fs ipg;
            fs \<leftarrow> plan_reserved param fs;
            plan_end fs } }"

text \<open>Every new attempt has smaller groups, or the same groups and a last one that is full.\<close>

definition plan_measure :: "ext2_fs \<Rightarrow> nat" where
  "plan_measure fs = 2 * unat (s_blocks_per_group fs)
     + (if (s_blocks_count fs - s_first_data_block fs) mod s_blocks_per_group fs = 0 then 0 else 1)"

lemma rem_of_rest: "(x - x mod n) mod n = 0" for x n :: "'a::len word"
proof -
  have "x mod n \<le> x" by (simp add: word_le_nat_alt unat_mod)
  then have "unat (x - x mod n) = unat x - unat x mod unat n" by (simp add: unat_sub unat_mod)
  then show ?thesis by (simp add: word_unat_eq_iff unat_mod mod_eq_0_iff_dvd dvd_minus_mod)
qed

definition same_blocks :: "ext2_fs \<Rightarrow> ext2_fs \<Rightarrow> bool" where
  "same_blocks fs fs' \<longleftrightarrow> s_blocks_count fs' = s_blocks_count fs \<and> s_blocks_per_group fs' = s_blocks_per_group fs
     \<and> s_first_data_block fs' = s_first_data_block fs \<and> group_desc_count fs' = group_desc_count fs"

lemma plan_groups_frame: "plan_groups fs = Some (Inr fs') \<Longrightarrow> s_blocks_count fs' = s_blocks_count fs
    \<and> s_blocks_per_group fs' = s_blocks_per_group fs \<and> s_first_data_block fs' = s_first_data_block fs \<and> s_blocks_per_group fs \<noteq> 0"
  by (auto simp: plan_groups_def Let_def split: if_splits)

lemma plan_inodes_frame: "plan_inodes fs ipg = Some fs' \<Longrightarrow> same_blocks fs fs'"
  by (auto simp: plan_inodes_def same_blocks_def Let_def split: if_splits)

lemma plan_reserved_frame: "plan_reserved param fs = Some fs' \<Longrightarrow> same_blocks fs fs'"
  by (auto simp: plan_reserved_def same_blocks_def bind_Some_iff)

lemma plan_end_retry:
  assumes "plan_end fs = Some (Retry fs')"
  shows "(s_blocks_count fs - s_first_data_block fs) mod s_blocks_per_group fs \<noteq> 0"
    "fs' = fs\<lparr>s_blocks_count := s_blocks_count fs - (s_blocks_count fs - s_first_data_block fs) mod s_blocks_per_group fs\<rparr>"
  using assms by (auto simp: plan_end_def Let_def bind_Some_iff split: if_splits)

lemma smaller_groups: "256 \<le> bpg \<Longrightarrow> 2 * unat (bpg - 8) + 1 < 2 * unat bpg" for bpg :: u32
proof -
  assume "256 \<le> bpg"
  then have "8 \<le> bpg" "256 \<le> unat bpg" by (auto simp: word_le_nat_alt)
  then show ?thesis by (simp add: unat_sub)
qed

lemma plan_retry_decreases:
  assumes "plan_step param f fs = Some (Retry fs')"
  shows "plan_measure fs' < plan_measure fs"
proof -
  obtain r where "plan_groups fs = Some r" using assms by (cases "plan_groups fs") (simp_all add: plan_step_def)
  then obtain fs1 where g: "plan_groups fs = Some (Inr fs1)" using assms by (cases r) (simp_all add: plan_step_def)
  let ?fs = "fs1\<lparr>s_inodes_count := wanted_inodes param fs1\<rparr>"
  let ?ipg = "(s_inodes_count ?fs + group_desc_count ?fs - 1) div group_desc_count ?fs"
  note fr = plan_groups_frame[OF g]
  show ?thesis
  proof (cases "fs_blocksize ?fs * 8 < ?ipg")
    case True
    then have "256 \<le> s_blocks_per_group fs" "s_blocks_per_group fs' = s_blocks_per_group fs - 8"
      using assms g fr by (auto simp: plan_step_def Let_def split: if_splits)
    then show ?thesis using smaller_groups[of "s_blocks_per_group fs"] by (simp add: plan_measure_def)
  next
    case False
    then obtain fs2 fs3 where e: "plan_inodes ?fs ?ipg = Some fs2" "plan_reserved param fs2 = Some fs3"
      "plan_end fs3 = Some (Retry fs')"
      using assms g by (auto simp: plan_step_def Let_def bind_Some_iff)
    have same: "s_blocks_count fs3 = s_blocks_count fs" "s_blocks_per_group fs3 = s_blocks_per_group fs"
      "s_first_data_block fs3 = s_first_data_block fs"
      using plan_inodes_frame[OF e(1)] plan_reserved_frame[OF e(2)] fr by (simp_all add: same_blocks_def)
    let ?x = "s_blocks_count fs - s_first_data_block fs"
    have "?x mod s_blocks_per_group fs \<noteq> 0" using plan_end_retry(1)[OF e(3)] same by simp
    moreover have "(s_blocks_count fs' - s_first_data_block fs') mod s_blocks_per_group fs' = 0"
      using rem_of_rest[of ?x "s_blocks_per_group fs"] by (simp add: plan_end_retry(2)[OF e(3)] same algebra_simps)
    moreover have "s_blocks_per_group fs' = s_blocks_per_group fs" by (simp add: plan_end_retry(2)[OF e(3)] same)
    ultimately show ?thesis by (simp add: plan_measure_def)
  qed
qed

function make_plan :: "ext2_param \<Rightarrow> u32 \<Rightarrow> ext2_fs \<Rightarrow> (errcode + ext2_fs) option" where
  "make_plan param frags_per_block fs =
     (case plan_step param frags_per_block fs of
        None \<Rightarrow> None
      | Some (Fail e) \<Rightarrow> Some (Inl e)
      | Some (Retry fs') \<Rightarrow> make_plan param frags_per_block fs'
      | Some (Done fs') \<Rightarrow> Some (Inr fs'))"
  by pat_completeness auto
termination
  by (relation "measure (\<lambda>(_, _, fs). plan_measure fs)") (simp_all add: plan_retry_decreases)

declare make_plan.simps [simp del]

subsection \<open>The filesystem\<close>

definition no_super :: ext2_super_block where
  \<comment> \<open>All fields zero.\<close>
  "no_super = \<lparr>s_r_blocks_count = 0, s_log_block_size = 0, s_log_frag_size = 0, s_frags_per_group = 0, s_mtime = 0, s_wtime = 0,
     s_mnt_count = 0, s_max_mnt_count = 0, s_magic = 0, s_state = 0, s_errors = 0, s_minor_rev_level = 0, s_lastcheck = 0,
     s_checkinterval = 0, s_creator_os = 0, s_rev_level = 0, s_def_resuid = 0, s_def_resgid = 0, s_first_ino_field = 0,
     s_inode_size = 0, s_block_group_nr = 0, s_feature_compat = 0, s_feature_incompat = 0, s_feature_ro_compat = 0,
     s_uuid_names = replicate 102 0, s_reserved_gdt_blocks = 0, s_journal = replicate 52 0, s_first_meta_bg = 0,
     s_mkfs_time = 0, s_reserved = replicate 756 0\<rparr>"

definition start_super :: "ext2_param \<Rightarrow> u32 \<Rightarrow> ext2_super_block" where
  \<comment> \<open>The fields set from the parameters, at the time \<open>now\<close>.\<close>
  "start_super param now = no_super\<lparr>s_magic := 0xEF53, s_state := 1,
     s_log_block_size := set_field (p_log_block_size param) 0, s_log_frag_size := set_field (p_log_frag_size param) 0,
     s_max_mnt_count := set_field (p_max_mnt_count param) 20, s_errors := set_field (p_errors param) 1,
     s_feature_compat := set_field (p_feature_compat param) 0, s_feature_incompat := set_field (p_feature_incompat param) 0,
     s_feature_ro_compat := set_field (p_feature_ro_compat param) 0, s_first_meta_bg := set_field (p_first_meta_bg param) 0,
     s_rev_level := set_field (p_rev_level param) 0,
     s_first_ino_field := (if 1 \<le> p_rev_level param then set_field (p_first_ino param) 11 else 0),
     s_inode_size := (if 1 \<le> p_rev_level param then set_field (p_inode_size param) 128 else 0),
     s_checkinterval := set_field (p_checkinterval param) (86400 * 180),
     s_mkfs_time := now, s_lastcheck := now, s_creator_os := 0, s_r_blocks_count := p_r_blocks_count param\<rparr>"

definition start_fs :: "string \<Rightarrow> u32 \<Rightarrow> ext2_param \<Rightarrow> u32 \<Rightarrow> io_channel \<Rightarrow> u32 \<Rightarrow> int \<Rightarrow> ext2_fs" where
  \<comment> \<open>The record before the plan. \<open>s_first_ino\<close> is the value of \<open>EXT2_FIRST_INODE\<close>; \<open>image_io\<close> is the same
      channel as \<open>io\<close>, and is not used without the flag \<open>EXT2_FLAG_IMAGE_FILE\<close>.\<close>
  "start_fs name flags param now io blocksize fragsize = (let
     frags_per_block = blocksize div of_int fragsize;
     bpg = set_field (p_blocks_per_group param) (blocksize * 8);
     bpg = (if EXT2_MAX_BLOCKS_PER_GROUP < bpg then EXT2_MAX_BLOCKS_PER_GROUP else bpg)
   in \<lparr>fs_magic = EXT2_ET_MAGIC_EXT2FS_FILSYS, s_inodes_count = 0, s_blocks_count = p_blocks_count param,
     s_first_data_block = set_field (p_first_data_block param) (if set_field (p_log_block_size param) 0 \<noteq> 0 then 0 else 1),
     s_inodes_per_group = 0, s_blocks_per_group = bpg,
     s_first_ino = (if 1 \<le> p_rev_level param then set_field (p_first_ino param) 11 else 11),
     group_desc_count = 0, inode_map = None, block_map = None, fs_io = io, fs_flags = flags OR EXT2_FLAG_RW,
     fs_device_name = name, s_free_blocks_count = 0, s_free_inodes_count = 0,
     fs_super = (start_super param now)\<lparr>s_frags_per_group := bpg * frags_per_block\<rparr>,
     fs_blocksize = blocksize, fs_fragsize = fragsize, desc_blocks = 0, group_desc = [], desc_rest = [], inode_blocks_per_group = 0,
     fs_stride = 0, fs_umask = 18,
     image_header = \<lparr>magic_number = 0, image_blocksize = 0, offset_inodemap = 0, offset_blockmap = 0\<rparr>, image_io = io,
     orig_super = None\<rparr>)"

fun reserve_groups :: "nat list \<Rightarrow> ext2_fs \<Rightarrow> ext2_fs option" where
  \<comment> \<open>The superblocks and descriptors of every group are reserved, and its statistics filled in.\<close>
  "reserve_groups [] fs = Some fs"
| "reserve_groups (i # is) fs = do {
     bm \<leftarrow> block_map fs;
     (numblocks, bm) \<leftarrow> ext2fs_reserve_super_and_bgd fs (of_nat i) bm;
     let fs = fs\<lparr>block_map := Some bm, s_free_blocks_count := s_free_blocks_count fs + of_int numblocks\<rparr>;
     fs \<leftarrow> upd_group fs (int i) (\<lambda>g. g\<lparr>bg_free_blocks_count := of_int numblocks,
        bg_free_inodes_count := ucast (s_inodes_per_group fs), bg_used_dirs_count := 0\<rparr>);
     reserve_groups is fs }"

definition blank_desc :: ext2_group_desc where
  "blank_desc = \<lparr>bg_block_bitmap = 0, bg_inode_bitmap = 0, bg_inode_table = 0, bg_free_blocks_count = 0,
     bg_free_inodes_count = 0, bg_used_dirs_count = 0, bg_unused = replicate 14 0\<rparr>"

definition blank_groups :: "ext2_fs \<Rightarrow> ext2_fs" where
  \<comment> \<open>The descriptors are all zero.\<close>
  "blank_groups fs = fs\<lparr>s_free_blocks_count := 0, group_desc := replicate (unat (group_desc_count fs)) blank_desc,
     desc_rest := replicate (unat (desc_blocks fs * ucast (fs_blocksize fs)) - 32 * unat (group_desc_count fs)) 0\<rparr>"

definition finish_fs :: "malloc \<Rightarrow> (nat \<Rightarrow> u8) \<Rightarrow> ext2_fs \<Rightarrow> (errcode + ext2_fs) option" where
  \<comment> \<open>After the plan.\<close>
  "finish_fs mem junk fs = (let
     name = fs_device_name fs;
     bytes = unat (desc_blocks fs * ucast (fs_blocksize fs)) in
     if ext2fs_get_mem mem (length name + 80) \<noteq> OK then Some (Inl (ext2fs_get_mem mem (length name + 80)))
     else do {
       r \<leftarrow> ext2fs_allocate_block_bitmap mem fs (Some (''block bitmap for '' @ name));
       case r of
         Inl e \<Rightarrow> Some (Inl e)
       | Inr bm \<Rightarrow> do {
           let fs = fs\<lparr>block_map := Some bm\<rparr>;
           r \<leftarrow> ext2fs_allocate_inode_bitmap mem fs (Some (''inode bitmap for '' @ name));
           case r of
             Inl e \<Rightarrow> Some (Inl e)
           | Inr im \<Rightarrow>
               if ext2fs_get_mem mem bytes \<noteq> OK then Some (Inl (ext2fs_get_mem mem bytes))
               else do {
                 let fs = blank_groups (fs\<lparr>inode_map := Some im\<rparr>);
                 fs \<leftarrow> reserve_groups [0..<unat (group_desc_count fs)] fs;
                 let fs = ext2fs_mark_ib_dirty (ext2fs_mark_bb_dirty (ext2fs_mark_super_dirty fs));
                 (_, ch) \<leftarrow> unix_set_blksize mem junk (fs_io fs) (sint (fs_blocksize fs));
                 Some (Inr (fs\<lparr>fs_io := ch\<rparr>)) } } })"

definition ext2fs_initialize :: "malloc \<Rightarrow> (nat \<Rightarrow> u8) \<Rightarrow> (string \<Rightarrow> bool \<Rightarrow> errcode + device) \<Rightarrow> u32 \<Rightarrow> string \<Rightarrow> u32
    \<Rightarrow> ext2_param option \<Rightarrow> (errcode + ext2_fs) option" where
  \<comment> \<open>With the manager of \<open>unix_io.c\<close>, at the time \<open>now\<close>. After an error the record is released; nothing has
      been written.\<close>
  "ext2fs_initialize mem junk open_dev now name flags param =
     (case param of None \<Rightarrow> Some (Inl EXT2_ET_INVALID_ARGUMENT)
      | Some param \<Rightarrow>
        if p_blocks_count param = 0 then Some (Inl EXT2_ET_INVALID_ARGUMENT)
        else if ext2fs_get_mem mem 240 \<noteq> OK then Some (Inl (ext2fs_get_mem mem 240))
        else case unix_open mem junk open_dev (Some name) 1 of
          Inl e \<Rightarrow> Some (Inl e)
        | Inr io \<Rightarrow>
          if ext2fs_get_mem mem (length name + 1) \<noteq> OK then Some (Inl (ext2fs_get_mem mem (length name + 1)))
          else if ext2fs_get_mem mem 1024 \<noteq> OK then Some (Inl (ext2fs_get_mem mem 1024))
          else if p_feature_incompat param AND NOT EXT2_LIB_FEATURE_INCOMPAT_SUPP \<noteq> 0 then Some (Inl EXT2_ET_UNSUPP_FEATURE)
          else if p_feature_ro_compat param AND NOT EXT2_LIB_FEATURE_RO_COMPAT_SUPP \<noteq> 0 then Some (Inl EXT2_ET_RO_UNSUPP_FEATURE)
          else do {
            blocksize \<leftarrow> EXT2_BLOCK_SIZE (p_log_block_size param);
            fragsize \<leftarrow> EXT2_FRAG_SIZE (p_log_frag_size param);
            let fs = start_fs name flags param now io blocksize fragsize;
            if p_blocks_count param \<le> p_r_blocks_count param then Some (Inl EXT2_ET_INVALID_ARGUMENT)
            else if p_feature_incompat param AND EXT3_FEATURE_INCOMPAT_JOURNAL_DEV \<noteq> 0
            then Some (Inr (ext2fs_mark_super_dirty fs))
            else do {
              r \<leftarrow> make_plan param (blocksize div of_int fragsize) fs;
              case r of Inl e \<Rightarrow> Some (Inl e) | Inr fs \<Rightarrow> finish_fs mem junk fs } })"

end
