(* ===== verification/Unix_Io_View.thy ===== *)
theory Unix_Io_View
  imports Unix_Io
begin

text \<open>
  What the cache and the device of a channel stand for together: an array of bytes \<open>v\<close>. An entry
  in use holds the bytes of its block in \<open>v\<close>, and the device differs from \<open>v\<close> at most in the blocks of
  dirty entries. While several blocks are written the blocks in the set \<open>S\<close> are still to come:
  their entries may be stale, and without write-through also their bytes on the device.
\<close>

definition extent :: "nat \<Rightarrow> nat \<Rightarrow> u64 \<Rightarrow> nat" where
  \<comment> \<open>Where a block of \<open>bs\<close> bytes begins.\<close>
  "extent bs off b = off + unat b * bs"

definition covers :: "nat \<Rightarrow> nat \<Rightarrow> u64 \<Rightarrow> nat \<Rightarrow> bool" where
  "covers bs off b p \<longleftrightarrow> extent bs off b \<le> p \<and> p < extent bs off b + bs"

definition part :: "nat \<Rightarrow> nat \<Rightarrow> 'a list \<Rightarrow> 'a list" where
  "part l n v = take n (drop l v)"

lemma length_part [simp]: "l + n \<le> length v \<Longrightarrow> length (part l n v) = n"
  by (simp add: part_def)

lemma nth_part [simp]: "l + n \<le> length v \<Longrightarrow> i < n \<Longrightarrow> part l n v ! i = v ! (l + i)"
  by (simp add: part_def)

lemma part_append: "part l (m + n) v = part l m v @ part (l + m) n v"
  by (simp add: part_def take_add add.commute)

lemma part_eqI:
  "l + n \<le> length v \<Longrightarrow> l + n \<le> length w \<Longrightarrow> (\<And>p. l \<le> p \<Longrightarrow> p < l + n \<Longrightarrow> v ! p = w ! p) \<Longrightarrow> part l n v = part l n w"
  by (rule nth_equalityI) auto

lemma part_write_at: "l + length xs \<le> length v \<Longrightarrow> part l (length xs) (write_at v l xs) = xs"
  by (simp add: part_def write_at_def)

lemma covers_unique:
  assumes "covers bs off b p" "covers bs off b' p"
  shows "b = b'"
proof -
  have d: "(p - off) div bs = unat c" if "covers bs off c p" for c
  proof -
    have "unat c * bs \<le> p - off" "p - off < unat c * bs + bs"
      using that by (auto simp: covers_def extent_def)
    then show ?thesis by (intro div_nat_eqI) (simp_all add: mult.commute)
  qed
  show ?thesis using d[OF assms(1)] d[OF assms(2)] by (simp add: word_unat_eq_iff)
qed

lemma covers_extent [simp]: "0 < bs \<Longrightarrow> covers bs off b (extent bs off b)"
  by (simp add: covers_def)

definition cached_view ::
    "nat \<Rightarrow> nat \<Rightarrow> bool \<Rightarrow> unix_cache list \<Rightarrow> u8 list \<Rightarrow> u64 set \<Rightarrow> u8 list \<Rightarrow> bool" where
  "cached_view bs off wt cs D S v \<longleftrightarrow> length v = length D
     \<and> (\<forall>i < length cs. length (uc_buf (cs ! i)) = bs)
     \<and> (\<forall>i < length cs. uc_in_use (cs ! i) \<longrightarrow> extent bs off (uc_block (cs ! i)) + bs \<le> length D)
     \<and> (\<forall>i < length cs. \<forall>j < length cs. uc_in_use (cs ! i) \<and> uc_in_use (cs ! j)
          \<and> uc_block (cs ! i) = uc_block (cs ! j) \<longrightarrow> i = j)
     \<and> (\<forall>i < length cs. uc_in_use (cs ! i) \<and> uc_block (cs ! i) \<notin> S
          \<longrightarrow> uc_buf (cs ! i) = part (extent bs off (uc_block (cs ! i))) bs v)
     \<and> (\<forall>p < length D. D ! p \<noteq> v ! p
          \<longrightarrow> (\<exists>i < length cs. uc_in_use (cs ! i) \<and> uc_dirty (cs ! i) \<and> covers bs off (uc_block (cs ! i)) p)
            \<or> \<not> wt \<and> (\<exists>b \<in> S. covers bs off b p))
     \<and> (wt \<longrightarrow> (\<forall>i < length cs. uc_in_use (cs ! i) \<longrightarrow> \<not> uc_dirty (cs ! i)))"

lemma viewD:
  assumes "cached_view bs off wt cs D S v"
  shows "length v = length D"
    and "i < length cs \<Longrightarrow> length (uc_buf (cs ! i)) = bs"
    and "i < length cs \<Longrightarrow> uc_in_use (cs ! i) \<Longrightarrow> extent bs off (uc_block (cs ! i)) + bs \<le> length D"
    and "i < length cs \<Longrightarrow> j < length cs \<Longrightarrow> uc_in_use (cs ! i) \<Longrightarrow> uc_in_use (cs ! j)
         \<Longrightarrow> uc_block (cs ! i) = uc_block (cs ! j) \<Longrightarrow> i = j"
    and "i < length cs \<Longrightarrow> uc_in_use (cs ! i) \<Longrightarrow> uc_block (cs ! i) \<notin> S
         \<Longrightarrow> uc_buf (cs ! i) = part (extent bs off (uc_block (cs ! i))) bs v"
    and "i < length cs \<Longrightarrow> wt \<Longrightarrow> uc_in_use (cs ! i) \<Longrightarrow> \<not> uc_dirty (cs ! i)"
    and "p < length D \<Longrightarrow> D ! p \<noteq> v ! p
         \<Longrightarrow> (\<exists>i < length cs. uc_in_use (cs ! i) \<and> uc_dirty (cs ! i) \<and> covers bs off (uc_block (cs ! i)) p)
            \<or> \<not> wt \<and> (\<exists>b \<in> S. covers bs off b p)"
proof -
  note r0 = assms[unfolded cached_view_def]
  note r1 = conjunct2[OF r0] note r2 = conjunct2[OF r1] note r3 = conjunct2[OF r2]
  note r4 = conjunct2[OF r3] note r5 = conjunct2[OF r4] note r6 = conjunct2[OF r5]
  show "length v = length D" using conjunct1[OF r0] .
  show "i < length cs \<Longrightarrow> length (uc_buf (cs ! i)) = bs" using conjunct1[OF r1] by blast
  show "i < length cs \<Longrightarrow> uc_in_use (cs ! i) \<Longrightarrow> extent bs off (uc_block (cs ! i)) + bs \<le> length D"
    using conjunct1[OF r2] by blast
  show "i < length cs \<Longrightarrow> j < length cs \<Longrightarrow> uc_in_use (cs ! i) \<Longrightarrow> uc_in_use (cs ! j)
      \<Longrightarrow> uc_block (cs ! i) = uc_block (cs ! j) \<Longrightarrow> i = j" using conjunct1[OF r3] by blast
  show "i < length cs \<Longrightarrow> uc_in_use (cs ! i) \<Longrightarrow> uc_block (cs ! i) \<notin> S
      \<Longrightarrow> uc_buf (cs ! i) = part (extent bs off (uc_block (cs ! i))) bs v" using conjunct1[OF r4] by blast
  show "i < length cs \<Longrightarrow> wt \<Longrightarrow> uc_in_use (cs ! i) \<Longrightarrow> \<not> uc_dirty (cs ! i)" using r6 by blast
  show "p < length D \<Longrightarrow> D ! p \<noteq> v ! p
      \<Longrightarrow> (\<exists>i < length cs. uc_in_use (cs ! i) \<and> uc_dirty (cs ! i) \<and> covers bs off (uc_block (cs ! i)) p)
         \<or> \<not> wt \<and> (\<exists>b \<in> S. covers bs off b p)" using conjunct1[OF r5] by blast
qed

text \<open>The time of an access does not matter.\<close>

lemma view_time:
  assumes "cached_view bs off wt cs D S v"
  shows "cached_view bs off wt (cs[k := (cs ! k)\<lparr>uc_access_time := t\<rparr>]) D S v"
proof -
  let ?cs = "cs[k := (cs ! k)\<lparr>uc_access_time := t\<rparr>]"
  have same: "uc_buf (?cs ! i) = uc_buf (cs ! i)" "uc_block (?cs ! i) = uc_block (cs ! i)"
    "uc_dirty (?cs ! i) = uc_dirty (cs ! i)" "uc_in_use (?cs ! i) = uc_in_use (cs ! i)" for i
    by (cases "k < length cs"; cases "i = k"; simp add: list_update_beyond)+
  show ?thesis unfolding cached_view_def same length_list_update by (rule assms[unfolded cached_view_def])
qed

text \<open>The bytes of a block that has no entry are right on the device.\<close>

lemma view_uncached:
  assumes "cached_view bs off wt cs D S v" "S = {} \<or> wt"
    and "\<And>i p. i < length cs \<Longrightarrow> uc_in_use (cs ! i) \<Longrightarrow> uc_dirty (cs ! i) \<Longrightarrow> l \<le> p \<Longrightarrow> p < l + n
           \<Longrightarrow> \<not> covers bs off (uc_block (cs ! i)) p"
    and "l + n \<le> length v"
  shows "part l n D = part l n v"
proof (rule part_eqI)
  fix p assume p: "l \<le> p" "p < l + n"
  then have "p < length D" using assms(4) viewD(1)[OF assms(1)] by simp
  then show "D ! p = v ! p" using viewD(7)[OF assms(1)] assms(2,3) p by blast
qed (use viewD(1)[OF assms(1)] assms(4) in simp_all)

text \<open>Evicting an entry: its bytes go to the device if it is dirty.\<close>

definition evicted :: "nat \<Rightarrow> nat \<Rightarrow> unix_cache \<Rightarrow> u8 list \<Rightarrow> u8 list" where
  "evicted bs off c D = (if uc_dirty c \<and> uc_in_use c then write_at D (extent bs off (uc_block c)) (uc_buf c) else D)"

lemma view_written:
  assumes "cached_view bs off wt cs D S v" "k < length cs" "p < length v"
  shows "evicted bs off (cs ! k) D ! p =
    (if uc_dirty (cs ! k) \<and> uc_in_use (cs ! k) \<and> covers bs off (uc_block (cs ! k)) p
     then uc_buf (cs ! k) ! (p - extent bs off (uc_block (cs ! k))) else D ! p)"
  using assms(3) viewD(1)[OF assms(1)] viewD(2,3)[OF assms(1,2)]
  by (auto simp: evicted_def nth_write_at covers_def)

lemma length_evicted: "cached_view bs off wt cs D S v \<Longrightarrow> k < length cs \<Longrightarrow> length (evicted bs off (cs ! k) D) = length D"
  using viewD(2,3)[of bs off wt cs D S v k] by (simp add: evicted_def)

lemma view_evict_device:
  assumes "cached_view bs off wt cs D S v" "k < length cs" "p < length v"
    and "evicted bs off (cs ! k) D ! p \<noteq> v ! p"
  shows "(\<exists>i < length cs. i \<noteq> k \<and> uc_in_use (cs ! i) \<and> uc_dirty (cs ! i) \<and> covers bs off (uc_block (cs ! i)) p)
       \<or> \<not> wt \<and> (\<exists>b \<in> S. covers bs off b p)"
proof (cases "uc_dirty (cs ! k) \<and> uc_in_use (cs ! k) \<and> covers bs off (uc_block (cs ! k)) p")
  case True
  let ?b = "uc_block (cs ! k)"
  have "?b \<in> S"
  proof (rule ccontr)
    assume "?b \<notin> S"
    then have "uc_buf (cs ! k) = part (extent bs off ?b) bs v" "extent bs off ?b + bs \<le> length v"
      using viewD(1)[OF assms(1)] viewD(3,5)[OF assms(1,2)] True by auto
    then have "evicted bs off (cs ! k) D ! p = v ! p"
      using view_written[OF assms(1-3)] True by (auto simp: covers_def)
    then show False using assms(4) by simp
  qed
  then show ?thesis using True viewD(6)[OF assms(1,2)] by auto
next
  case False
  then have "D ! p \<noteq> v ! p" using view_written[OF assms(1-3)] assms(4) by (simp only: if_False not_False_eq_True)
  then show ?thesis using viewD(1,7)[OF assms(1)] assms(3) False by fastforce
qed


text \<open>Entry \<open>k\<close> takes over the block \<open>b\<close>, which no entry had, with the bytes it has in \<open>v\<close>.\<close>

lemma view_install:
  assumes view: "cached_view bs off wt cs D S v" and k: "k < length cs" and "0 < bs"
    and b: "\<And>i. i < length cs \<Longrightarrow> uc_in_use (cs ! i) \<Longrightarrow> uc_block (cs ! i) \<noteq> b"
    and room: "extent bs off b + bs \<le> length v"
    and c: "uc_in_use c" "uc_block c = b" "uc_buf c = part (extent bs off b) bs v" "uc_dirty c \<longleftrightarrow> d"
    and d: "wt \<longrightarrow> \<not> d" "b \<in> S \<longrightarrow> d \<or> wt"
  shows "cached_view bs off wt (cs[k := c]) (evicted bs off (cs ! k) D) (S - {b}) v"
  unfolding cached_view_def
proof (intro conjI allI impI)
  let ?cs = "cs[k := c]" and ?D = "evicted bs off (cs ! k) D"
  show "length v = length ?D" using viewD(1)[OF view] length_evicted[OF view k] by simp
  show "length (uc_buf (?cs ! i)) = bs" if "i < length ?cs" for i
    using viewD(2)[OF view, of i] that c(3) room k by (cases "i = k") simp_all
  show "extent bs off (uc_block (?cs ! i)) + bs \<le> length ?D" if "i < length ?cs" "uc_in_use (?cs ! i)" for i
    using viewD(1)[OF view] length_evicted[OF view k] viewD(3)[OF view, of i] that c(2) room k by (cases "i = k") simp_all
  show "i = j" if "i < length ?cs" "j < length ?cs" "uc_in_use (?cs ! i) \<and> uc_in_use (?cs ! j)
      \<and> uc_block (?cs ! i) = uc_block (?cs ! j)" for i j
    using viewD(4)[OF view, of i j] that c(2) b k by (cases "i = k"; cases "j = k") auto
  show "uc_buf (?cs ! i) = part (extent bs off (uc_block (?cs ! i))) bs v"
    if "i < length ?cs" "uc_in_use (?cs ! i) \<and> uc_block (?cs ! i) \<notin> S - {b}" for i
    using viewD(5)[OF view, of i] that c(2,3) b k by (cases "i = k") auto
  show "\<not> uc_dirty (?cs ! i)" if wt "i < length ?cs" "uc_in_use (?cs ! i)" for i
    using viewD(6)[OF view, of i] that c(4) d(1) k by (cases "i = k") auto
  fix p assume "p < length ?D" and ne: "?D ! p \<noteq> v ! p"
  then have p: "p < length v" "?D ! p \<noteq> v ! p" using viewD(1)[OF view] length_evicted[OF view k] by simp_all
  show "(\<exists>i < length ?cs. uc_in_use (?cs ! i) \<and> uc_dirty (?cs ! i) \<and> covers bs off (uc_block (?cs ! i)) p)
      \<or> \<not> wt \<and> (\<exists>b \<in> S - {b}. covers bs off b p)"
    using view_evict_device[OF view k p]
  proof (elim disjE exE conjE bexE)
    fix i assume "i < length cs" "i \<noteq> k" "uc_in_use (cs ! i)" "uc_dirty (cs ! i)" "covers bs off (uc_block (cs ! i)) p"
    then show ?thesis by (intro disjI1 exI[of _ i]) simp
  next
    fix b' assume a: "\<not> wt" "b' \<in> S" "covers bs off b' p"
    then show ?thesis using c d(2) k by (cases "b' = b") (auto intro!: exI[of _ k])
  qed
qed

text \<open>An entry gets the bytes its block has in \<open>v\<close>.\<close>

lemma view_refill:
  assumes view: "cached_view bs off wt cs D S v" and k: "k < length cs" "uc_in_use (cs ! k)"
    and c: "uc_in_use c" "uc_block c = uc_block (cs ! k)" "uc_dirty c \<longleftrightarrow> \<not> wt"
      "uc_buf c = part (extent bs off (uc_block (cs ! k))) bs v"
  shows "cached_view bs off wt (cs[k := c]) D (S - {uc_block (cs ! k)}) v"
  unfolding cached_view_def
proof (intro conjI allI impI)
  let ?cs = "cs[k := c]" and ?b = "uc_block (cs ! k)"
  have same: "uc_block (?cs ! i) = uc_block (cs ! i)" "uc_in_use (?cs ! i) = uc_in_use (cs ! i)" for i
    using c(1,2) k by (cases "i = k"; simp)+
  have room: "extent bs off ?b + bs \<le> length v" using viewD(1,3)[OF view] k by simp
  show "length v = length D" using viewD(1,7)[OF view] by simp
  show "length (uc_buf (?cs ! i)) = bs" if "i < length ?cs" for i
    using viewD(2)[OF view, of i] that c(4) room k by (cases "i = k") simp_all
  show "extent bs off (uc_block (?cs ! i)) + bs \<le> length D" if "i < length ?cs" "uc_in_use (?cs ! i)" for i
    using viewD(1)[OF view] viewD(2,3)[OF view, of i] that unfolding same by simp
  show "i = j" if "i < length ?cs" "j < length ?cs" "uc_in_use (?cs ! i) \<and> uc_in_use (?cs ! j)
      \<and> uc_block (?cs ! i) = uc_block (?cs ! j)" for i j
    using viewD(4)[OF view, of i j] that unfolding same by simp
  show "uc_buf (?cs ! i) = part (extent bs off (uc_block (?cs ! i))) bs v"
    if "i < length ?cs" "uc_in_use (?cs ! i) \<and> uc_block (?cs ! i) \<notin> S - {?b}" for i
    using viewD(5)[OF view, of i] viewD(4)[OF view, of i k] that c(4) k unfolding same by (cases "i = k") auto
  show "\<not> uc_dirty (?cs ! i)" if wt "i < length ?cs" "uc_in_use (?cs ! i)" for i
    using viewD(6)[OF view, of i] that c(3) k by (cases "i = k") auto
  fix p assume p: "p < length D" "D ! p \<noteq> v ! p"
  then have "(\<exists>i < length cs. uc_in_use (cs ! i) \<and> uc_dirty (cs ! i) \<and> covers bs off (uc_block (cs ! i)) p)
      \<or> \<not> wt \<and> (\<exists>b \<in> S. covers bs off b p)" using viewD(1,7)[OF view] by simp
  then show "(\<exists>i < length ?cs. uc_in_use (?cs ! i) \<and> uc_dirty (?cs ! i) \<and> covers bs off (uc_block (?cs ! i)) p)
      \<or> \<not> wt \<and> (\<exists>b \<in> S - {?b}. covers bs off b p)"
  proof (elim disjE exE conjE bexE)
    fix i assume i: "i < length cs" "uc_in_use (cs ! i)" "uc_dirty (cs ! i)" "covers bs off (uc_block (cs ! i)) p"
    then have "\<not> wt" using viewD(6)[OF view, of i] by auto
    then show ?thesis using i c(3) unfolding same by (cases "i = k") (auto intro!: exI[of _ i])
  next
    fix b' assume "\<not> wt" "b' \<in> S" "covers bs off b' p"
    then show ?thesis using k c unfolding same by (cases "b' = ?b") (auto intro!: exI[of _ k])
  qed
qed

text \<open>An entry is written to the device and is clean, or no longer in use.\<close>

lemma view_flush:
  assumes view: "cached_view bs off wt cs D {} v" and k: "k < length cs"
    and c: "c = (cs ! k)\<lparr>uc_in_use := inuse, uc_dirty := dirty\<rparr>" "inuse \<longrightarrow> uc_in_use (cs ! k) \<and> \<not> dirty"
  shows "cached_view bs off wt (cs[k := c]) (evicted bs off (cs ! k) D) {} v"
  unfolding cached_view_def
proof (intro conjI allI impI)
  let ?cs = "cs[k := c]" and ?D = "evicted bs off (cs ! k) D"
  have same: "uc_block (?cs ! i) = uc_block (cs ! i)" "uc_buf (?cs ! i) = uc_buf (cs ! i)"
    "uc_in_use (?cs ! i) \<Longrightarrow> uc_in_use (cs ! i)" "uc_in_use (?cs ! i) \<Longrightarrow> uc_dirty (?cs ! i) \<Longrightarrow> uc_dirty (cs ! i)" for i
    using c k by (cases "i = k"; auto)+
  show "length v = length ?D" using viewD(1)[OF view] length_evicted[OF view k] by simp
  show "length (uc_buf (?cs ! i)) = bs" if "i < length ?cs" for i
    using viewD(1)[OF view] viewD(2,3)[OF view, of i] that unfolding same by simp
  show "extent bs off (uc_block (?cs ! i)) + bs \<le> length ?D" if "i < length ?cs" "uc_in_use (?cs ! i)" for i
    using viewD(1)[OF view] length_evicted[OF view k] viewD(3-5)[OF view, of i] that same(3) unfolding same(1,2) by simp
  show "i = j" if "i < length ?cs" "j < length ?cs" "uc_in_use (?cs ! i) \<and> uc_in_use (?cs ! j)
      \<and> uc_block (?cs ! i) = uc_block (?cs ! j)" for i j
    using viewD(4)[OF view, of i j] that same(3) unfolding same(1,2) by simp
  show "uc_buf (?cs ! i) = part (extent bs off (uc_block (?cs ! i))) bs v"
    if "i < length ?cs" "uc_in_use (?cs ! i) \<and> uc_block (?cs ! i) \<notin> {}" for i
    using viewD(1)[OF view] viewD(3-5)[OF view, of i] that same(3) unfolding same(1,2) by simp
  show "\<not> uc_dirty (?cs ! i)" if wt "i < length ?cs" "uc_in_use (?cs ! i)" for i
    using viewD(6)[OF view, of i] that same(3,4)[of i] by auto
  fix p assume "p < length ?D" and ne: "?D ! p \<noteq> v ! p"
  then have p: "p < length v" "?D ! p \<noteq> v ! p" using viewD(1)[OF view] length_evicted[OF view k] by simp_all
  obtain i where "i < length cs" "i \<noteq> k" "uc_in_use (cs ! i)" "uc_dirty (cs ! i)" "covers bs off (uc_block (cs ! i)) p"
    using view_evict_device[OF view k p] by auto
  then show "(\<exists>i < length ?cs. uc_in_use (?cs ! i) \<and> uc_dirty (?cs ! i) \<and> covers bs off (uc_block (?cs ! i)) p)
      \<or> \<not> wt \<and> (\<exists>b \<in> {}. covers bs off b p)" by (intro disjI1 exI[of _ i]) simp
qed

text \<open>Without dirty entries the device holds \<open>v\<close>; with no entries in use any array can be written.\<close>

lemma view_clean:
  assumes "cached_view bs off wt cs D {} v" "\<forall>i < length cs. uc_in_use (cs ! i) \<longrightarrow> \<not> uc_dirty (cs ! i)"
  shows "D = v"
  using assms by (intro nth_equalityI) (auto simp: cached_view_def)

lemma view_empty:
  "\<forall>i < length cs. length (uc_buf (cs ! i)) = bs \<and> \<not> uc_in_use (cs ! i) \<Longrightarrow> cached_view bs off wt cs D {} D"
  by (simp add: cached_view_def)

text \<open>Before a write of \<open>n\<close> blocks from \<open>b\<close> on.\<close>

definition blocks :: "u64 \<Rightarrow> nat \<Rightarrow> u64 set" where
  "blocks b n = (\<lambda>i. b + of_nat i) ` {..<n}"

lemma blocks_Suc: "blocks b (Suc n) = insert b (blocks (b + 1) n)"
  by (auto simp: blocks_def lessThan_Suc_eq_insert_0 image_image add.assoc)

end
