(* ===== verification/Ext2_Super.thy ===== *)
theory Ext2_Super
  imports Ext2_Initialize Unix_Io_View Byte_Order
begin

unbundle bit_operations_syntax

text \<open>
  The superblock and the group descriptors in memory and on the device (\<open>ext2_fs.h\<close>): the bytes of the
  C structures on a little-endian machine, and the records read from bytes.
\<close>

definition field32 :: "u8 list \<Rightarrow> nat \<Rightarrow> u32" where "field32 xs p = le_word (part p 4 xs)"
definition field16 :: "u8 list \<Rightarrow> nat \<Rightarrow> u16" where "field16 xs p = le_word (part p 2 xs)"

subsection \<open>The superblock\<close>

definition super_bytes :: "ext2_fs \<Rightarrow> u8 list" where
  "super_bytes fs = (let sb = fs_super fs in
     le_bytes 4 (s_inodes_count fs) @ le_bytes 4 (s_blocks_count fs) @ le_bytes 4 (s_r_blocks_count sb)
     @ le_bytes 4 (s_free_blocks_count fs) @ le_bytes 4 (s_free_inodes_count fs) @ le_bytes 4 (s_first_data_block fs)
     @ le_bytes 4 (s_log_block_size sb) @ le_bytes 4 (of_int (s_log_frag_size sb) :: u32) @ le_bytes 4 (s_blocks_per_group fs)
     @ le_bytes 4 (s_frags_per_group sb) @ le_bytes 4 (s_inodes_per_group fs) @ le_bytes 4 (s_mtime sb) @ le_bytes 4 (s_wtime sb)
     @ le_bytes 2 (s_mnt_count sb) @ le_bytes 2 (of_int (s_max_mnt_count sb) :: u16) @ le_bytes 2 (s_magic sb)
     @ le_bytes 2 (s_state sb) @ le_bytes 2 (s_errors sb) @ le_bytes 2 (s_minor_rev_level sb) @ le_bytes 4 (s_lastcheck sb)
     @ le_bytes 4 (s_checkinterval sb) @ le_bytes 4 (s_creator_os sb) @ le_bytes 4 (s_rev_level sb)
     @ le_bytes 2 (s_def_resuid sb) @ le_bytes 2 (s_def_resgid sb) @ le_bytes 4 (s_first_ino_field sb)
     @ le_bytes 2 (s_inode_size sb) @ le_bytes 2 (s_block_group_nr sb) @ le_bytes 4 (s_feature_compat sb)
     @ le_bytes 4 (s_feature_incompat sb) @ le_bytes 4 (s_feature_ro_compat sb) @ s_uuid_names sb
     @ le_bytes 2 (s_reserved_gdt_blocks sb) @ s_journal sb @ le_bytes 4 (s_first_meta_bg sb) @ le_bytes 4 (s_mkfs_time sb)
     @ s_reserved sb)"

definition EXT2_FIRST_INODE :: "u32 \<Rightarrow> u32 \<Rightarrow> u32" where
  "EXT2_FIRST_INODE rev_level first_ino = (if rev_level = 0 then 11 else first_ino)"

definition load_super :: "u8 list \<Rightarrow> ext2_fs \<Rightarrow> ext2_fs" where
  \<comment> \<open>\<open>fs->super\<close> filled with the bytes \<open>xs\<close>.\<close>
  "load_super xs fs = fs\<lparr>s_inodes_count := field32 xs 0, s_blocks_count := field32 xs 4, s_free_blocks_count := field32 xs 12,
     s_free_inodes_count := field32 xs 16, s_first_data_block := field32 xs 20, s_blocks_per_group := field32 xs 32,
     s_inodes_per_group := field32 xs 40, s_first_ino := EXT2_FIRST_INODE (field32 xs 76) (field32 xs 84),
     fs_super := \<lparr>s_r_blocks_count = field32 xs 8, s_log_block_size = field32 xs 24, s_log_frag_size = sint (field32 xs 28),
       s_frags_per_group = field32 xs 36, s_mtime = field32 xs 44, s_wtime = field32 xs 48, s_mnt_count = field16 xs 52,
       s_max_mnt_count = sint (field16 xs 54), s_magic = field16 xs 56, s_state = field16 xs 58, s_errors = field16 xs 60,
       s_minor_rev_level = field16 xs 62, s_lastcheck = field32 xs 64, s_checkinterval = field32 xs 68, s_creator_os = field32 xs 72,
       s_rev_level = field32 xs 76, s_def_resuid = field16 xs 80, s_def_resgid = field16 xs 82, s_first_ino_field = field32 xs 84,
       s_inode_size = field16 xs 88, s_block_group_nr = field16 xs 90, s_feature_compat = field32 xs 92,
       s_feature_incompat = field32 xs 96, s_feature_ro_compat = field32 xs 100, s_uuid_names = part 104 102 xs,
       s_reserved_gdt_blocks = field16 xs 206, s_journal = part 208 52 xs, s_first_meta_bg = field32 xs 260,
       s_mkfs_time = field32 xs 264, s_reserved = part 268 756 xs\<rparr>\<rparr>"

definition super_ok :: "ext2_fs \<Rightarrow> bool" where
  \<comment> \<open>The sizes of the C types.\<close>
  "super_ok fs \<longleftrightarrow> - (2 ^ 31) \<le> s_log_frag_size (fs_super fs) \<and> s_log_frag_size (fs_super fs) < 2 ^ 31
     \<and> - (2 ^ 15) \<le> s_max_mnt_count (fs_super fs) \<and> s_max_mnt_count (fs_super fs) < 2 ^ 15
     \<and> length (s_uuid_names (fs_super fs)) = 102 \<and> length (s_journal (fs_super fs)) = 52 \<and> length (s_reserved (fs_super fs)) = 756
     \<and> s_first_ino fs = EXT2_FIRST_INODE (s_rev_level (fs_super fs)) (s_first_ino_field (fs_super fs))"

lemma part_skip: "length xs \<le> p \<Longrightarrow> part p n (xs @ ys) = part (p - length xs) n ys"
  by (simp add: part_def)

lemma part_head: "length xs = n \<Longrightarrow> part 0 n (xs @ ys) = xs" "length xs = n \<Longrightarrow> part 0 n xs = xs"
  by (simp_all add: part_def)

lemma length_super_bytes: "super_ok fs \<Longrightarrow> length (super_bytes fs) = 1024"
  by (simp add: super_bytes_def super_ok_def Let_def)

lemma load_super_bytes:
  assumes "super_ok fs"
  shows "load_super (super_bytes fs) fs0 = fs0\<lparr>s_inodes_count := s_inodes_count fs, s_blocks_count := s_blocks_count fs,
     s_free_blocks_count := s_free_blocks_count fs, s_free_inodes_count := s_free_inodes_count fs,
     s_first_data_block := s_first_data_block fs, s_blocks_per_group := s_blocks_per_group fs,
     s_inodes_per_group := s_inodes_per_group fs, s_first_ino := s_first_ino fs, fs_super := fs_super fs\<rparr>"
proof -
  have "sint (of_int (s_log_frag_size (fs_super fs)) :: u32) = s_log_frag_size (fs_super fs)"
    "sint (of_int (s_max_mnt_count (fs_super fs)) :: u16) = s_max_mnt_count (fs_super fs)"
    using assms by (simp_all add: super_ok_def signed_of_int signed_take_bit_int_eq_self)
  then show ?thesis
    using assms
    by (simp add: load_super_def super_bytes_def super_ok_def field32_def field16_def Let_def part_skip part_head le_word_le_bytes)
qed

subsection \<open>The group descriptors\<close>

definition desc_bytes :: "ext2_group_desc \<Rightarrow> u8 list" where
  "desc_bytes g = le_bytes 4 (bg_block_bitmap g) @ le_bytes 4 (bg_inode_bitmap g) @ le_bytes 4 (bg_inode_table g)
     @ le_bytes 2 (bg_free_blocks_count g) @ le_bytes 2 (bg_free_inodes_count g) @ le_bytes 2 (bg_used_dirs_count g) @ bg_unused g"

definition load_desc :: "u8 list \<Rightarrow> ext2_group_desc" where
  "load_desc xs = \<lparr>bg_block_bitmap = field32 xs 0, bg_inode_bitmap = field32 xs 4, bg_inode_table = field32 xs 8,
     bg_free_blocks_count = field16 xs 12, bg_free_inodes_count = field16 xs 14, bg_used_dirs_count = field16 xs 16,
     bg_unused = part 18 14 xs\<rparr>"

definition group_bytes_of :: "ext2_fs \<Rightarrow> u8 list" where
  \<comment> \<open>What \<open>fs->group_desc\<close> points to.\<close>
  "group_bytes_of fs = concat (map desc_bytes (group_desc fs)) @ desc_rest fs"

definition load_groups :: "u8 list \<Rightarrow> ext2_fs \<Rightarrow> ext2_fs" where
  "load_groups xs fs = (let n = unat (group_desc_count fs) in
     fs\<lparr>group_desc := map (\<lambda>i. load_desc (part (32 * i) 32 xs)) [0..<n], desc_rest := drop (32 * n) xs\<rparr>)"

definition descs_ok :: "ext2_fs \<Rightarrow> bool" where
  "descs_ok fs \<longleftrightarrow> length (group_desc fs) = unat (group_desc_count fs) \<and> (\<forall>g \<in> set (group_desc fs). length (bg_unused g) = 14)
     \<and> 32 * length (group_desc fs) + length (desc_rest fs) = unat (desc_blocks fs) * unat (fs_blocksize fs)"

lemma length_desc_bytes: "length (bg_unused g) = 14 \<Longrightarrow> length (desc_bytes g) = 32"
  by (simp add: desc_bytes_def)

lemma load_desc_bytes: "length (bg_unused g) = 14 \<Longrightarrow> load_desc (desc_bytes g) = g"
  by (simp add: load_desc_def desc_bytes_def field32_def field16_def part_skip part_head le_word_le_bytes)

lemma length_descs:
  "\<forall>g \<in> set gs. length (bg_unused g) = 14 \<Longrightarrow> length (concat (map desc_bytes gs)) = 32 * length gs"
  by (induction gs) (simp_all add: length_desc_bytes)

lemma part_descs:
  "\<forall>g \<in> set gs. length (bg_unused g) = 14 \<Longrightarrow> i < length gs \<Longrightarrow> part (32 * i) 32 (concat (map desc_bytes gs) @ ys) = desc_bytes (gs ! i)"
proof (induction gs arbitrary: i)
  case (Cons g gs)
  then show ?case
    by (cases i) (simp_all add: part_head part_skip length_desc_bytes)
qed simp

lemma length_group_bytes: "descs_ok fs \<Longrightarrow> length (group_bytes_of fs) = unat (desc_blocks fs) * unat (fs_blocksize fs)"
  by (simp add: descs_ok_def group_bytes_of_def length_descs)

lemma load_group_bytes:
  assumes "descs_ok fs" "group_desc_count fs0 = group_desc_count fs"
  shows "load_groups (group_bytes_of fs) fs0 = fs0\<lparr>group_desc := group_desc fs, desc_rest := desc_rest fs\<rparr>"
proof -
  have ok: "\<forall>g \<in> set (group_desc fs). length (bg_unused g) = 14" "unat (group_desc_count fs) = length (group_desc fs)"
    using assms(1) by (simp_all add: descs_ok_def)
  have "map (\<lambda>i. load_desc (part (32 * i) 32 (group_bytes_of fs))) [0..<length (group_desc fs)] = group_desc fs"
    using ok(1) by (intro nth_equalityI) (simp_all add: group_bytes_of_def part_descs load_desc_bytes)
  then show ?thesis using ok assms(2) by (simp add: load_groups_def Let_def group_bytes_of_def length_descs)
qed

end
