(* ===== verification/Ext2_Close.thy ===== *)
theory Ext2_Close
  imports Ext2_Super
begin

unbundle bit_operations_syntax

text \<open>
  Writing out a filesystem and closing it (\<open>closefs.c\<close>, \<open>freefs.c\<close>): the copies of the superblock and of
  the group descriptors, the bitmaps, and last the primary superblock. On a little-endian machine the
  superblock and the descriptors are written from the memory of the record itself. The function
  \<open>fs->write_bitmaps\<close> is \<open>ext2fs_write_bitmaps\<close>, which does nothing without bitmaps, when it would be null.
  The memory that is released is not part of the model.
\<close>

definition EXT2_FLAG_SWAP_BYTES :: u32 where "EXT2_FLAG_SWAP_BYTES = 0x40"
definition EXT2_FLAG_MASTER_SB_ONLY :: u32 where "EXT2_FLAG_MASTER_SB_ONLY = 0x200"
definition EXT2_FLAG_SUPER_ONLY :: u32 where "EXT2_FLAG_SUPER_ONLY = 0x800"
definition JOURNAL_DEV :: "ext2_fs \<Rightarrow> bool" where
  "JOURNAL_DEV fs \<longleftrightarrow> s_feature_incompat (fs_super fs) AND EXT3_FEATURE_INCOMPAT_JOURNAL_DEV \<noteq> 0"

subsection \<open>The primary superblock\<close>

function run_end :: "u8 list \<Rightarrow> u8 list \<Rightarrow> nat \<Rightarrow> nat" where
  \<comment> \<open>The inner loop of \<open>write_primary_superblock\<close>: the first index from \<open>i\<close> on where the words agree.\<close>
  "run_end old new i =
     (if 512 \<le> i then i else if field16 old (2 * i) = field16 new (2 * i) then i else run_end old new (i + 1))"
  by pat_completeness auto
termination by (relation "measure (\<lambda>(_, _, i). 512 - i)") auto

declare run_end.simps [simp del]

lemma run_end_ge: "i \<le> run_end old new i"
  by (induction old new i rule: run_end.induct) (subst run_end.simps, auto)

function write_changed :: "u8 list \<Rightarrow> u8 list \<Rightarrow> io_channel \<Rightarrow> nat \<Rightarrow> (errcode \<times> io_channel) option" where
  \<comment> \<open>The outer loop, at \<open>check_idx = i\<close>: the runs of words that have changed are written.\<close>
  "write_changed old new ch i =
     (if 512 \<le> i then Some (OK, ch)
      else if field16 old (2 * i) = field16 new (2 * i) then write_changed old new ch (i + 1)
      else let j = run_end old new (i + 1) in do {
        (retval, ch) \<leftarrow> io_channel_write_byte ch (of_nat (1024 + 2 * i)) (int (2 * (j - i))) (drop (2 * i) new);
        if retval \<noteq> OK then Some (retval, ch) else write_changed old new ch (j + 1) })"
  by pat_completeness auto
termination
proof (relation "measure (\<lambda>(_, _, _, i). 512 - i)", goal_cases)
  case (3 old new ch i j r e ch')
  then show ?case using run_end_ge[of "i + 1" old new] by simp
qed auto

declare write_changed.simps [simp del]

definition write_primary_superblock :: "malloc \<Rightarrow> (nat \<Rightarrow> u8) \<Rightarrow> ext2_fs \<Rightarrow> u8 list \<Rightarrow> (errcode \<times> ext2_fs) option" where
  \<comment> \<open>The manager has \<open>write_byte\<close>.\<close>
  "write_primary_superblock mem junk fs super =
     (case orig_super fs of
        None \<Rightarrow> do {
          (_, ch) \<leftarrow> unix_set_blksize mem junk (fs_io fs) 1024;
          (retval, ch) \<leftarrow> unix_write_blk ch 1 (- 1024) super;
          (_, ch) \<leftarrow> unix_set_blksize mem junk ch (sint (fs_blocksize fs));
          Some (retval, fs\<lparr>fs_io := ch\<rparr>) }
      | Some old \<Rightarrow> do {
          (retval, ch) \<leftarrow> write_changed old super (fs_io fs) 0;
          Some (retval, if retval \<noteq> OK then fs\<lparr>fs_io := ch\<rparr> else fs\<lparr>fs_io := ch, orig_super := Some super\<rparr>) })"

definition ext2fs_update_dynamic_rev :: "ext2_fs \<Rightarrow> ext2_fs" where
  "ext2fs_update_dynamic_rev fs =
     (if 0 < s_rev_level (fs_super fs) then fs
      else fs\<lparr>s_first_ino := 11, fs_super := (fs_super fs)\<lparr>s_rev_level := 1, s_first_ino_field := 11, s_inode_size := 128\<rparr>\<rparr>)"

subsection \<open>The copies\<close>

definition set_group_nr :: "u16 \<Rightarrow> ext2_fs \<Rightarrow> ext2_fs" where
  "set_group_nr n fs = fs\<lparr>fs_super := (fs_super fs)\<lparr>s_block_group_nr := n\<rparr>\<rparr>"

definition set_state :: "u16 \<Rightarrow> ext2_fs \<Rightarrow> ext2_fs" where
  "set_state x fs = fs\<lparr>fs_super := (fs_super fs)\<lparr>s_state := x\<rparr>\<rparr>"

definition write_backup_super :: "ext2_fs \<Rightarrow> u32 \<Rightarrow> u32 \<Rightarrow> (errcode \<times> ext2_fs) option" where
  "write_backup_super fs grp group_block = do {
     let sgrp = (if 65535 < grp then 65535 else grp);
     let fs = set_group_nr (ucast sgrp) fs;
     (retval, ch) \<leftarrow> unix_write_blk (fs_io fs) (ucast group_block) (- 1024) (super_bytes fs);
     Some (retval, fs\<lparr>fs_io := ch\<rparr>) }"

definition write_at_blk :: "ext2_fs \<Rightarrow> u32 \<Rightarrow> int \<Rightarrow> u8 list \<Rightarrow> (errcode \<times> ext2_fs) option" where
  "write_at_blk fs blk count buf = do {
     (retval, ch) \<leftarrow> unix_write_blk (fs_io fs) (ucast blk) count buf;
     Some (retval, fs\<lparr>fs_io := ch\<rparr>) }"

definition flush_desc_blocks :: "ext2_fs \<Rightarrow> int" where
  \<comment> \<open>The variable \<open>old_desc_blocks\<close> of \<open>ext2fs_flush\<close>.\<close>
  "flush_desc_blocks fs =
     (if has_meta_bg fs then sint (s_first_meta_bg (fs_super fs)) else sint (ucast (desc_blocks fs) :: u32))"

definition flush_group :: "nat \<Rightarrow> ext2_fs \<Rightarrow> (errcode \<times> ext2_fs) option" where
  \<comment> \<open>One round of the loop.\<close>
  "flush_group i fs = do {
     loc \<leftarrow> ext2fs_super_and_bgd_loc fs (of_nat i);
     let master_only = (fs_flags fs AND EXT2_FLAG_MASTER_SB_ONLY \<noteq> 0);
     (retval, fs) \<leftarrow> (if \<not> master_only \<and> i \<noteq> 0 \<and> loc_super_blk loc \<noteq> 0
                      then write_backup_super fs (of_nat i) (loc_super_blk loc) else Some (OK, fs));
     if retval \<noteq> OK then Some (retval, fs)
     else if fs_flags fs AND EXT2_FLAG_SUPER_ONLY \<noteq> 0 then Some (OK, fs)
     else do {
       (retval, fs) \<leftarrow> (if loc_old_desc_blk loc \<noteq> 0 \<and> (\<not> master_only \<or> i = 0)
          then write_at_blk fs (loc_old_desc_blk loc) (flush_desc_blocks fs) (group_bytes_of fs) else Some (OK, fs));
       if retval \<noteq> OK then Some (retval, fs)
       else if loc_new_desc_blk loc \<noteq> 0
       then write_at_blk fs (loc_new_desc_blk loc) 1 (drop (unat (of_int (loc_meta_bg loc) * fs_blocksize fs)) (group_bytes_of fs))
       else Some (OK, fs) } }"

fun flush_groups :: "nat list \<Rightarrow> ext2_fs \<Rightarrow> (errcode \<times> ext2_fs) option" where
  "flush_groups [] fs = Some (OK, fs)"
| "flush_groups (i # is) fs = do {
     (retval, fs) \<leftarrow> flush_group i fs;
     if retval \<noteq> OK then Some (retval, fs) else flush_groups is fs }"

subsection \<open>Flushing and closing\<close>

definition flush_primary :: "malloc \<Rightarrow> (nat \<Rightarrow> u8) \<Rightarrow> ext2_fs \<Rightarrow> (errcode \<times> ext2_fs) option" where
  \<comment> \<open>From the label \<open>write_primary_superblock_only\<close> on; the result of the first flush is not used.\<close>
  "flush_primary mem junk fs = do {
     (_, ch) \<leftarrow> unix_flush (fs_io fs);
     (retval, fs) \<leftarrow> write_primary_superblock mem junk (fs\<lparr>fs_io := ch\<rparr>) (super_bytes fs);
     if retval \<noteq> OK then Some (retval, fs)
     else do {
       (retval, ch) \<leftarrow> unix_flush (fs_io fs);
       Some (retval, fs\<lparr>fs_io := ch, fs_flags := fs_flags fs AND NOT EXT2_FLAG_DIRTY\<rparr>) } }"

definition ext2fs_flush :: "malloc \<Rightarrow> (nat \<Rightarrow> u8) \<Rightarrow> u32 \<Rightarrow> ext2_fs \<Rightarrow> (errcode \<times> ext2_fs) option" where
  \<comment> \<open>At the time \<open>now\<close>. With the flag \<open>EXT2_FLAG_SWAP_BYTES\<close> the superblock and the descriptors that the record
      points to would be released at the end.\<close>
  "ext2fs_flush mem junk now fs =
     (if fs_magic fs \<noteq> EXT2_ET_MAGIC_EXT2FS_FILSYS then Some (EXT2_ET_MAGIC_EXT2FS_FILSYS, fs)
      else if fs_flags fs AND EXT2_FLAG_SWAP_BYTES \<noteq> 0 then None
      else do {
        let fs_state = s_state (fs_super fs);
        let fs = set_group_nr 0 (fs\<lparr>fs_super := (fs_super fs)\<lparr>s_wtime := now\<rparr>\<rparr>);
        (retval, fs) \<leftarrow> (if JOURNAL_DEV fs then Some (OK, fs)
          else do {
            (retval, fs) \<leftarrow> flush_groups [0..<unat (group_desc_count fs)] (set_state (fs_state AND NOT 1) fs);
            if retval \<noteq> OK then Some (retval, fs)
            else ext2fs_write_bitmaps mem (set_state fs_state (set_group_nr 0 fs)) });
        (retval, fs) \<leftarrow> (if retval \<noteq> OK then Some (retval, fs) else flush_primary mem junk fs);
        Some (retval, set_state fs_state fs) })"

definition ext2fs_free :: "ext2_fs \<Rightarrow> device option" where
  \<comment> \<open>The device after the channel is closed, whose result is not used; \<open>image_io\<close> is the same channel.\<close>
  "ext2fs_free fs =
     (if fs_magic fs \<noteq> EXT2_ET_MAGIC_EXT2FS_FILSYS then Some (ch_dev (fs_io fs))
      else do { (_, _, d) \<leftarrow> unix_close (fs_io fs); Some d })"

definition ext2fs_close :: "malloc \<Rightarrow> (nat \<Rightarrow> u8) \<Rightarrow> u32 \<Rightarrow> ext2_fs \<Rightarrow> (errcode \<times> ext2_fs + device) option" where
  \<comment> \<open>An error and the record, or the device after closing.\<close>
  "ext2fs_close mem junk now fs =
     (if fs_magic fs \<noteq> EXT2_ET_MAGIC_EXT2FS_FILSYS then Some (Inl (EXT2_ET_MAGIC_EXT2FS_FILSYS, fs))
      else do {
        (retval, fs) \<leftarrow> (if fs_flags fs AND EXT2_FLAG_DIRTY \<noteq> 0 then ext2fs_flush mem junk now fs else Some (OK, fs));
        if retval \<noteq> OK then Some (Inl (retval, fs))
        else do {
          (retval, fs) \<leftarrow> ext2fs_write_bitmaps mem fs;
          if retval \<noteq> OK then Some (Inl (retval, fs)) else map_option Inr (ext2fs_free fs) } })"

end
