(* ===== verification/Ext2_Open.thy ===== *)
theory Ext2_Open
  imports Ext2_Close
begin

unbundle bit_operations_syntax

text \<open>
  Opening a filesystem (\<open>openfs.c\<close>): the superblock and the group descriptors are read from the device, or from an
  image file, and checked. A little-endian machine. An error closes the channel; nothing has been written.
\<close>

definition EXT2_FLAG_FORCE :: u32 where "EXT2_FLAG_FORCE = 0x400"
definition EXT2_FLAG_JOURNAL_DEV_OK :: u32 where "EXT2_FLAG_JOURNAL_DEV_OK = 0x1000"
definition E2IMAGE_MAGIC :: u32 where "E2IMAGE_MAGIC = 2133571344"

definition ext2fs_descriptor_block_loc :: "ext2_fs \<Rightarrow> u32 \<Rightarrow> u32 \<Rightarrow> u32 option" where
  "ext2fs_descriptor_block_loc fs group_block i =
     (if \<not> has_meta_bg fs \<or> i < s_first_meta_bg (fs_super fs) then Some (group_block + i + 1)
      else do {
        let bg = (fs_blocksize fs div 32) * i;
        has_super \<leftarrow> ext2fs_bg_has_super fs (sint bg);
        let ret_blk = s_first_data_block fs + (if has_super then 1 else 0) + bg * s_blocks_per_group fs;
        Some (if group_block \<noteq> s_first_data_block fs \<and> ret_blk + s_blocks_per_group fs < s_blocks_count fs
              then ret_blk + s_blocks_per_group fs else ret_blk) })"

subsection \<open>The channel and the superblock\<close>

definition load_image_hdr :: "u8 list \<Rightarrow> ext2_image_hdr" where
  "load_image_hdr xs = \<lparr>magic_number = field32 xs 0, image_blocksize = field32 xs 204, offset_inodemap = field32 xs 292,
     offset_blockmap = field32 xs 296\<rparr>"

definition raw_fs :: "string \<Rightarrow> u32 \<Rightarrow> io_channel \<Rightarrow> ext2_fs" where
  \<comment> \<open>The record before the superblock is read. All other fields are zero.\<close>
  "raw_fs name flags io = \<lparr>fs_magic = EXT2_ET_MAGIC_EXT2FS_FILSYS, s_inodes_count = 0, s_blocks_count = 0, s_first_data_block = 0,
     s_inodes_per_group = 0, s_blocks_per_group = 0, s_first_ino = 0, group_desc_count = 0, inode_map = None, block_map = None,
     fs_io = io, fs_flags = flags, fs_device_name = name, s_free_blocks_count = 0, s_free_inodes_count = 0, fs_super = no_super,
     fs_blocksize = 0, fs_fragsize = 0, desc_blocks = 0, group_desc = [], desc_rest = [], inode_blocks_per_group = 0, fs_stride = 0,
     fs_umask = 18, image_header = load_image_hdr (replicate 332 0), image_io = io, orig_super = None\<rparr>"

definition open_channel :: "malloc \<Rightarrow> (nat \<Rightarrow> u8) \<Rightarrow> (string \<Rightarrow> bool \<Rightarrow> errcode + device) \<Rightarrow> string \<Rightarrow> string option \<Rightarrow> u32
    \<Rightarrow> errcode + ext2_fs" where
  \<comment> \<open>Options of the channel may follow a question mark in the name.\<close>
  "open_channel mem junk open_dev name io_options flags =
     (if ext2fs_get_mem mem 240 \<noteq> OK then Inl (ext2fs_get_mem mem 240)
      else if ext2fs_get_mem mem (length name + 1) \<noteq> OK then Inl (ext2fs_get_mem mem (length name + 1))
      else let (device_name, io_options) = (if io_options = None then strchr_cut (CHR ''?'') name else (name, io_options))
        in case unix_open mem junk open_dev (Some device_name) (if flags AND EXT2_FLAG_RW \<noteq> 0 then 1 else 0) of
             Inl e \<Rightarrow> Inl e
           | Inr io \<Rightarrow> let (retval, io) = (if io_options = None then (OK, io) else io_channel_set_options mem io io_options)
               in if retval \<noteq> OK then Inl retval
                  else if ext2fs_get_mem mem 1024 \<noteq> OK then Inl (ext2fs_get_mem mem 1024)
                  else Inr (raw_fs device_name flags io))"

definition read_image_hdr :: "malloc \<Rightarrow> ext2_fs \<Rightarrow> (errcode + ext2_fs) option" where
  "read_image_hdr mem fs =
     (if ext2fs_get_mem mem 332 \<noteq> OK then Some (Inl (ext2fs_get_mem mem 332))
      else do {
        (retval, xs, ch) \<leftarrow> unix_read_blk (fs_io fs) 0 (- 332);
        Some (if retval \<noteq> OK then Inl retval
              else if field32 xs 0 \<noteq> E2IMAGE_MAGIC then Inl EXT2_ET_MAGIC_E2IMAGE
              else Inr (fs\<lparr>fs_io := ch, image_io := ch, image_header := load_image_hdr xs\<rparr>)) })"

definition read_super :: "malloc \<Rightarrow> (nat \<Rightarrow> u8) \<Rightarrow> int \<Rightarrow> u32 \<Rightarrow> ext2_fs \<Rightarrow> (errcode + u32 \<times> ext2_fs) option" where
  \<comment> \<open>With the value of \<open>group_block\<close>. Only the primary superblock is kept for comparison.\<close>
  "read_super mem junk superblock block_size fs =
     (if superblock \<noteq> 0 \<and> block_size = 0 then Some (Inl EXT2_ET_INVALID_ARGUMENT)
      else do {
        (_, ch) \<leftarrow> unix_set_blksize mem junk (fs_io fs) (if superblock \<noteq> 0 then sint block_size else 1024);
        if superblock = 0 \<and> ext2fs_get_mem mem 1024 \<noteq> OK then Some (Inl (ext2fs_get_mem mem 1024))
        else do {
          (retval, xs, ch) \<leftarrow> unix_read_blk ch (if superblock \<noteq> 0 then of_int superblock else 1) (- 1024);
          Some (if retval \<noteq> OK then Inl retval
                else Inr (of_int superblock, (load_super xs fs)\<lparr>fs_io := ch, image_io := ch,
                  orig_super := (if superblock \<noteq> 0 then None else Some xs)\<rparr>)) } })"

subsection \<open>Checks\<close>

definition features_ok :: "ext2_fs \<Rightarrow> u32 \<Rightarrow> errcode" where
  "features_ok fs flags =
     (if s_magic (fs_super fs) \<noteq> 0xEF53 then EXT2_ET_BAD_MAGIC
      else if 1 < s_rev_level (fs_super fs) then EXT2_ET_REV_TOO_HIGH
      else if flags AND EXT2_FLAG_FORCE \<noteq> 0 then OK
      else if s_feature_incompat (fs_super fs) AND NOT EXT2_LIB_FEATURE_INCOMPAT_SUPP \<noteq> 0 then EXT2_ET_UNSUPP_FEATURE
      else if flags AND EXT2_FLAG_RW \<noteq> 0 \<and> s_feature_ro_compat (fs_super fs) AND NOT EXT2_LIB_FEATURE_RO_COMPAT_SUPP \<noteq> 0
      then EXT2_ET_RO_UNSUPP_FEATURE
      else if flags AND EXT2_FLAG_JOURNAL_DEV_OK = 0 \<and> JOURNAL_DEV fs then EXT2_ET_UNSUPP_FEATURE
      else OK)"

definition set_sizes :: "ext2_fs \<Rightarrow> ext2_fs option" where
  \<comment> \<open>The sizes of blocks and inode tables; the block size is never zero where it is defined.\<close>
  "set_sizes fs = do {
     bs \<leftarrow> EXT2_BLOCK_SIZE (s_log_block_size (fs_super fs));
     frag \<leftarrow> EXT2_FRAG_SIZE (s_log_frag_size (fs_super fs));
     let fs = fs\<lparr>fs_blocksize := bs, fs_fragsize := frag\<rparr>;
     Some (fs\<lparr>inode_blocks_per_group := table_blocks fs (s_inodes_per_group fs)\<rparr>) }"

definition groups_corrupt :: "ext2_fs \<Rightarrow> bool option" where
  \<comment> \<open>\<open>blocks_per_group\<close> is an \<open>int\<close>.\<close>
  "groups_corrupt fs = (let blocks_per_group = sint (s_blocks_per_group fs) in
     if blocks_per_group = 0 \<or> sint EXT2_MAX_BLOCKS_PER_GROUP < blocks_per_group then Some True
     else if EXT2_INODE_SIZE fs = 0 then None
     else Some (sint (EXT2_MAX_INODES_PER_GROUP fs) < inode_blocks_per_group fs))"

definition count_groups :: "ext2_fs \<Rightarrow> ext2_fs option" where
  "count_groups fs =
     (if fs_blocksize fs div 32 = 0 then None
      else let
        n = (s_blocks_count fs - s_first_data_block fs + s_blocks_per_group fs - 1) div s_blocks_per_group fs;
        desc_per_block = ucast (fs_blocksize fs) div 32
      in Some (fs\<lparr>group_desc_count := n, desc_blocks := (ucast n + desc_per_block - 1) div desc_per_block\<rparr>))"

subsection \<open>The descriptors\<close>

fun read_desc_blocks :: "(nat \<Rightarrow> u8) \<Rightarrow> nat list \<Rightarrow> u32 \<Rightarrow> ext2_fs \<Rightarrow> (errcode \<times> u8 list \<times> ext2_fs) option" where
  \<comment> \<open>With what is in the memory of the blocks, whose size is that of the filesystem, also if the channel has
      another one.\<close>
  "read_desc_blocks junk [] group_block fs = Some (OK, [], fs)"
| "read_desc_blocks junk (i # is) group_block fs = do {
     blk \<leftarrow> ext2fs_descriptor_block_loc fs group_block (of_nat i);
     (retval, xs, ch) \<leftarrow> unix_read_blk (fs_io fs) (ucast blk) 1;
     if retval \<noteq> OK then Some (retval, xs, fs\<lparr>fs_io := ch\<rparr>)
     else if unat (fs_blocksize fs) < length xs then None
     else do {
       (retval, ys, fs) \<leftarrow> read_desc_blocks junk is group_block (fs\<lparr>fs_io := ch\<rparr>);
       Some (retval, ext2fs_resize_mem junk (unat (fs_blocksize fs)) xs @ ys, fs) } }"

definition read_groups :: "malloc \<Rightarrow> (nat \<Rightarrow> u8) \<Rightarrow> u32 \<Rightarrow> ext2_fs \<Rightarrow> (errcode + ext2_fs) option" where
  "read_groups mem junk group_block fs = do {
     corrupt \<leftarrow> groups_corrupt fs;
     if corrupt then Some (Inl EXT2_ET_CORRUPT_SUPERBLOCK)
     else do {
       fs \<leftarrow> count_groups fs;
       let n = unat (desc_blocks fs * ucast (fs_blocksize fs));
       if ext2fs_get_mem mem n \<noteq> OK then Some (Inl (ext2fs_get_mem mem n))
       else do {
         (retval, xs, fs) \<leftarrow> read_desc_blocks junk [0..<unat (desc_blocks fs)]
           (if group_block = 0 then s_first_data_block fs else group_block) fs;
         Some (if retval \<noteq> OK then Inl retval else Inr ((load_groups xs fs)\<lparr>image_io := fs_io fs\<rparr>)) } } }"

subsection \<open>Opening\<close>

definition open_with :: "malloc \<Rightarrow> (nat \<Rightarrow> u8) \<Rightarrow> u32 \<Rightarrow> int \<Rightarrow> u32 \<Rightarrow> ext2_fs \<Rightarrow> (errcode + ext2_fs) option" where
  \<comment> \<open>After the channel has been opened.\<close>
  "open_with mem junk flags superblock block_size fs = do {
     r \<leftarrow> read_super mem junk superblock block_size fs;
     case r of
       Inl e \<Rightarrow> Some (Inl e)
     | Inr (group_block, fs) \<Rightarrow>
         if features_ok fs flags \<noteq> OK then Some (Inl (features_ok fs flags))
         else do {
           fs \<leftarrow> set_sizes fs;
           if block_size \<noteq> 0 \<and> block_size \<noteq> fs_blocksize fs then Some (Inl EXT2_ET_UNEXPECTED_BLOCK_SIZE)
           else do {
             (_, ch) \<leftarrow> unix_set_blksize mem junk (fs_io fs) (sint (fs_blocksize fs));
             let fs = fs\<lparr>fs_io := ch, image_io := ch\<rparr>;
             if JOURNAL_DEV fs then Some (Inr (fs\<lparr>group_desc_count := 0\<rparr>)) else read_groups mem junk group_block fs } } }"

definition ext2fs_open2 :: "malloc \<Rightarrow> (nat \<Rightarrow> u8) \<Rightarrow> (string \<Rightarrow> bool \<Rightarrow> errcode + device) \<Rightarrow> string \<Rightarrow> string option \<Rightarrow> u32 \<Rightarrow> int \<Rightarrow> u32
    \<Rightarrow> (errcode + ext2_fs) option" where
  \<comment> \<open>With the manager of \<open>unix_io.c\<close>.\<close>
  "ext2fs_open2 mem junk open_dev name io_options flags superblock block_size =
     (case open_channel mem junk open_dev name io_options flags of
        Inl e \<Rightarrow> Some (Inl e)
      | Inr fs \<Rightarrow>
          if flags AND EXT2_FLAG_IMAGE_FILE \<noteq> 0
          then do {
            r \<leftarrow> read_image_hdr mem fs;
            case r of Inl e \<Rightarrow> Some (Inl e)
            | Inr fs \<Rightarrow> open_with mem junk flags 1 (image_blocksize (image_header fs)) fs }
          else open_with mem junk flags superblock block_size fs)"

definition ext2fs_open :: "malloc \<Rightarrow> (nat \<Rightarrow> u8) \<Rightarrow> (string \<Rightarrow> bool \<Rightarrow> errcode + device) \<Rightarrow> string \<Rightarrow> u32 \<Rightarrow> int \<Rightarrow> u32
    \<Rightarrow> (errcode + ext2_fs) option" where
  "ext2fs_open mem junk open_dev name flags superblock block_size =
     ext2fs_open2 mem junk open_dev name None flags superblock block_size"

subsection \<open>The data channel of an image file\<close>

definition ext2fs_set_data_io :: "ext2_fs \<Rightarrow> io_channel option \<Rightarrow> errcode \<times> ext2_fs" where
  "ext2fs_set_data_io fs new_io =
     (if fs_flags fs AND EXT2_FLAG_IMAGE_FILE = 0 then (EXT2_ET_NOT_IMAGE_FILE, fs)
      else (OK, fs\<lparr>fs_io := (case new_io of None \<Rightarrow> image_io fs | Some io \<Rightarrow> io)\<rparr>))"

definition ext2fs_rewrite_to_io :: "ext2_fs \<Rightarrow> io_channel \<Rightarrow> errcode \<times> ext2_fs" where
  "ext2fs_rewrite_to_io fs new_io =
     (if fs_flags fs AND EXT2_FLAG_IMAGE_FILE = 0 then (EXT2_ET_NOT_IMAGE_FILE, fs)
      else (OK, fs\<lparr>fs_io := new_io, image_io := new_io,
        fs_flags := (fs_flags fs OR (EXT2_FLAG_DIRTY OR EXT2_FLAG_RW OR EXT2_FLAG_BB_DIRTY OR EXT2_FLAG_IB_DIRTY))
          AND NOT EXT2_FLAG_IMAGE_FILE\<rparr>))"

end
