(* ===== verification/Unix_Io_Channel.thy ===== *)
theory Unix_Io_Channel
  imports Unix_Io_View
begin

unbundle bit_operations_syntax

text \<open>
  The operations of a channel whose device has no bad bytes, against the bytes the channel shows:
  the raw transfers, the search of the cache, eviction and flushing keep what is shown, reads
  return a part of it, writes change that part. No result is \<open>None\<close> as long as the clock of the
  cache does not reach the end of its range.
\<close>

abbreviation cbs :: "io_channel \<Rightarrow> nat" where "cbs ch \<equiv> nat (ch_block_size ch)"
abbreviation coff :: "io_channel \<Rightarrow> nat" where "coff ch \<equiv> nat (ch_offset ch)"
abbreviation cwt :: "io_channel \<Rightarrow> bool" where "cwt ch \<equiv> ch_flags ch AND CHANNEL_FLAGS_WRITETHROUGH \<noteq> 0"
abbreviation cdev :: "io_channel \<Rightarrow> u8 list" where "cdev ch \<equiv> dev_bytes (ch_dev ch)"
abbreviation at :: "io_channel \<Rightarrow> u64 \<Rightarrow> nat" where "at ch b \<equiv> extent (cbs ch) (coff ch) b"

definition channel_ok :: "io_channel \<Rightarrow> bool" where
  "channel_ok ch \<longleftrightarrow> checked ch = OK \<and> 0 < ch_block_size ch \<and> ch_block_size ch < 2147483648
     \<and> 0 \<le> ch_offset ch \<and> length (ch_cache ch) = CACHE_SIZE
     \<and> (\<forall>p < length (cdev ch). \<not> dev_bad (ch_dev ch) p) \<and> length (cdev ch) < 2 ^ 63"

definition holds :: "io_channel \<Rightarrow> u64 set \<Rightarrow> u8 list \<Rightarrow> bool" where
  \<comment> \<open>The channel stands for the bytes \<open>v\<close>, but for the blocks of \<open>S\<close>.\<close>
  "holds ch S v \<longleftrightarrow> channel_ok ch \<and> cached_view (cbs ch) (coff ch) (cwt ch) (ch_cache ch) (cdev ch) S v"

definition like :: "io_channel \<Rightarrow> io_channel \<Rightarrow> bool" where
  \<comment> \<open>The same but for the bytes of the device and the cache.\<close>
  "like ch ch' \<longleftrightarrow>
     (\<exists>D cs t. ch' = ch\<lparr>ch_dev := (ch_dev ch)\<lparr>dev_bytes := D\<rparr>, ch_cache := cs, ch_access_time := t\<rparr>)"

lemma like_trans [trans]: "like a b \<Longrightarrow> like b c \<Longrightarrow> like a c"
  unfolding like_def by (elim exE) (rule exI, rule exI, rule exI, simp)

lemma like_update [simp]:
  "like ch ch" "like ch (ch\<lparr>ch_cache := cs\<rparr>)" "like ch (ch\<lparr>ch_access_time := t\<rparr>)"
  "like ch (ch\<lparr>ch_access_time := t, ch_cache := cs\<rparr>)"
  "like ch (ch\<lparr>ch_dev := (ch_dev ch)\<lparr>dev_bytes := D\<rparr>\<rparr>)"
  "like ch (ch\<lparr>ch_dev := (ch_dev ch)\<lparr>dev_bytes := D\<rparr>, ch_access_time := t, ch_cache := cs\<rparr>)"
  unfolding like_def
  by (intro exI[of _ "cdev ch"] exI[of _ "ch_cache ch"] exI[of _ cs] exI[of _ "ch_access_time ch"] exI[of _ t] exI[of _ D]; simp)+

lemma like_fields:
  assumes "like ch ch'"
  shows "ch_block_size ch' = ch_block_size ch" "ch_offset ch' = ch_offset ch" "ch_flags ch' = ch_flags ch"
    "checked ch' = checked ch" "dev_bad (ch_dev ch') = dev_bad (ch_dev ch)"
    "ch_refcount ch' = ch_refcount ch" "ch_name ch' = ch_name ch"
  using assms by (auto simp: like_def checked_def)

lemma holdsD:
  assumes "holds ch S v"
  shows "channel_ok ch" "length v = length (cdev ch)" "length (ch_cache ch) = CACHE_SIZE" "0 < cbs ch"
    "checked ch = OK" "length v < 2 ^ 63"
    "cached_view (cbs ch) (coff ch) (cwt ch) (ch_cache ch) (cdev ch) S v"
  using assms viewD(1) by (auto simp: holds_def channel_ok_def)

lemma channel_like:
  "channel_ok ch \<Longrightarrow> like ch ch' \<Longrightarrow> length (ch_cache ch') = length (ch_cache ch) \<Longrightarrow> length (cdev ch') = length (cdev ch)
   \<Longrightarrow> channel_ok ch'"
  by (simp add: channel_ok_def like_fields)

subsection \<open>Raw transfers\<close>

lemma all_transferred:
  assumes "l + n \<le> length (dev_bytes d)" "\<forall>p < length (dev_bytes d). \<not> dev_bad d p"
  shows "dev_count d l n = n"
proof -
  have "takeWhile (\<lambda>p. p < length (dev_bytes d) \<and> \<not> dev_bad d p) [l..<l + n] = [l..<l + n]"
    using assms by (auto simp: takeWhile_eq_all_conv)
  then show ?thesis unfolding dev_count_def by (simp only: length_upt add_diff_cancel_left')
qed

lemma extent_plus:
  assumes "extent bs off b + m * bs \<le> len" "len < 2 ^ 63" "0 < bs" "i \<le> m"
  shows "extent bs off (b + of_nat i) = extent bs off b + i * bs"
proof -
  have "unat b + m \<le> (unat b + m) * bs" using assms(3) by simp
  also have "\<dots> \<le> len" using assms(1) by (simp add: extent_def add_mult_distrib)
  finally have "unat b + m < 2 ^ 63" using assms(2) by simp
  then have lt: "unat b + i < 2 ^ 63" "i < 2 ^ 63" using assms(4) by simp_all
  then have "unat (of_nat i :: u64) = i" by (simp add: unat_of_nat)
  then have "unat (b + of_nat i) = unat b + i" using lt by (subst unat_add_lem[THEN iffD1]) simp_all
  then show ?thesis by (simp add: extent_def add_mult_distrib)
qed

lemma block_small:
  assumes "extent bs off b \<le> len" "len < 2 ^ 63" "0 < bs"
  shows "sint (b :: u64) = int (unat b)" "unat b < 2 ^ 63"
proof -
  have "unat b \<le> unat b * bs" using assms(3) by simp
  then have lt: "unat b < 2 ^ 63" using assms(1,2) unfolding extent_def by linarith
  then have "uint b < 2 ^ 63" by (metis uint_nat of_nat_less_numeral_power_cancel_iff)
  moreover have "- (2 ^ 63) \<le> uint b" by (rule order_trans[of _ 0]) simp_all
  ultimately have "sint b = uint b" by (simp add: sint_uint signed_take_bit_int_eq_self_iff)
  then show "sint b = int (unat b)" "unat b < 2 ^ 63" using lt by simp_all
qed

lemma io_location_in:
  assumes "channel_ok ch" "at ch b \<le> length (cdev ch)"
  shows "io_location ch b = Some (int (at ch b))"
proof -
  have c: "0 < ch_block_size ch" "0 \<le> ch_offset ch" "length (cdev ch) < 2 ^ 63" "0 < cbs ch"
    using assms(1) by (auto simp: channel_ok_def)
  have m: "sint b * ch_block_size ch = int (unat b * cbs ch)"
    using block_small(1)[OF assms(2) c(3,4)] c(1) by simp
  have "m + ch_offset ch = int (at ch b)" if "m = int (unat b * cbs ch)" for m
    using that c(2) by (simp add: extent_def)
  then have l: "int (unat b * cbs ch) + ch_offset ch = int (at ch b)" by blast
  have "unat b * cbs ch \<le> at ch b" by (simp add: extent_def)
  then have "unat b * cbs ch < 2 ^ 63" "at ch b < 2 ^ 63" using assms(2) c(3) by linarith+
  then have "int (unat b * cbs ch) < 2 ^ 63" "int (at ch b) < 2 ^ 63" by (simp_all only: of_nat_less_numeral_power_cancel_iff)
  moreover have "- (2 ^ 63) \<le> int n" for n by (rule order_trans[of _ 0]) simp_all
  ultimately show ?thesis unfolding io_location_def Let_def m l by (simp only: if_True simp_thms)
qed

lemma io_size_blocks: "0 \<le> count \<Longrightarrow> count * ch_block_size ch < 2147483648 \<Longrightarrow> 0 < ch_block_size ch
    \<Longrightarrow> io_size ch count = Some (nat count * cbs ch)"
  by (simp add: io_size_def nat_mult_distrib)

lemma raw_read_ok:
  assumes "channel_ok ch" "io_size ch count = Some n" "at ch b + n \<le> length (cdev ch)"
  shows "raw_read_blk ch b count = Some (OK, part (at ch b) n (cdev ch))"
proof -
  have "dev_read (ch_dev ch) (at ch b) n = part (at ch b) n (cdev ch)"
    using assms(1,3) by (simp add: dev_read_def part_def all_transferred channel_ok_def)
  then show ?thesis using assms io_location_in[OF assms(1), of b] by (simp add: raw_read_blk_def)
qed

lemma raw_write_ok:
  assumes "channel_ok ch" "io_size ch count = Some n" "at ch b + n \<le> length (cdev ch)" "n \<le> length buf"
  shows "raw_write_blk ch b count buf
    = Some (OK, ch\<lparr>ch_dev := (ch_dev ch)\<lparr>dev_bytes := write_at (cdev ch) (at ch b) (take n buf)\<rparr>\<rparr>)"
proof -
  have "dev_count (ch_dev ch) (at ch b) n = n"
    using assms(1,3) by (intro all_transferred) (auto simp: channel_ok_def)
  then show ?thesis using assms io_location_in[OF assms(1), of b]
    by (simp add: raw_write_blk_def dev_write_def min_def)
qed

subsection \<open>The search of the cache\<close>

definition cached :: "unix_cache list \<Rightarrow> u64 set" where
  "cached cs = {uc_block c | c. c \<in> set cs \<and> uc_in_use c}"

lemma cached_iff: "b \<in> cached cs \<longleftrightarrow> (\<exists>i < length cs. uc_in_use (cs ! i) \<and> uc_block (cs ! i) = b)"
  unfolding cached_def in_set_conv_nth by blast

lemma scan_hit:
  "cache_scan b cs i u e = Inl k \<Longrightarrow> i \<le> k \<and> k < i + length cs \<and> uc_in_use (cs ! (k - i)) \<and> uc_block (cs ! (k - i)) = b"
proof (induction b cs i u e rule: cache_scan.induct)
  case (2 b c cs i u e)
  show ?case
  proof (cases "uc_in_use c \<and> uc_block c = b")
    case False
    then have "i + 1 \<le> k \<and> k < i + 1 + length cs \<and> uc_in_use (cs ! (k - (i + 1))) \<and> uc_block (cs ! (k - (i + 1))) = b"
      using 2 by (cases "uc_in_use c") simp_all
    then show ?thesis by (auto simp: nth_Cons' )
  qed (use "2.prems" in auto)
qed simp

lemma scan_miss:
  "cache_scan b cs i u e = Inr r \<Longrightarrow> b \<notin> cached cs
     \<and> ((\<forall>k. u = Some k \<longrightarrow> k < n) \<and> (\<forall>k. map_option fst e = Some k \<longrightarrow> k < n) \<and> i + length cs \<le> n
        \<and> (cs \<noteq> [] \<or> u \<noteq> None \<or> e \<noteq> None) \<longrightarrow> (\<exists>k < n. r = Some k))"
proof (induction b cs i u e rule: cache_scan.induct)
  case (2 b c cs i u e)
  show ?case
  proof (cases "uc_in_use c")
    case False
    then show ?thesis using "2.IH"(1) "2.prems" by (auto simp: cached_def)
  next
    case True
    then have "uc_block c \<noteq> b" using "2.prems" by auto
    then show ?thesis using True "2.IH"(2) "2.prems" by (auto simp: cached_def)
  qed
qed (auto simp: cached_def)

lemma cached_time: "cached (cs[k := (cs ! k)\<lparr>uc_access_time := t\<rparr>]) = cached cs"
proof (cases "k < length cs")
  case True
  have "uc_block (cs[k := (cs ! k)\<lparr>uc_access_time := t\<rparr>] ! i) = uc_block (cs ! i)"
    "uc_in_use (cs[k := (cs ! k)\<lparr>uc_access_time := t\<rparr>] ! i) = uc_in_use (cs ! i)" for i
    using True by (cases "i = k"; simp)+
  then show ?thesis by (simp add: set_eq_iff cached_iff)
qed (simp add: list_update_beyond)

definition clock :: "io_channel \<Rightarrow> nat \<Rightarrow> bool" where
  \<comment> \<open>There is room for \<open>n\<close> accesses to the cache.\<close>
  "clock ch n \<longleftrightarrow> ch_access_time ch + int n < 2147483648"

lemma clock_le: "clock ch n \<Longrightarrow> ch_access_time ch' \<le> ch_access_time ch + int m \<Longrightarrow> m + k \<le> n \<Longrightarrow> clock ch' k"
  by (simp add: clock_def)

lemma find_cached_result:
  assumes "holds ch S v" "clock ch (Suc n)"
  obtains (hit) k ch' where "find_cached_block ch b = Some (Inl k, ch')" "like ch ch'" "holds ch' S v"
      "clock ch' n" "cached (ch_cache ch') = cached (ch_cache ch)"
      "k < CACHE_SIZE" "uc_in_use (ch_cache ch' ! k)" "uc_block (ch_cache ch' ! k) = b"
  | (miss) k where "find_cached_block ch b = Some (Inr (Some k), ch)" "k < CACHE_SIZE" "b \<notin> cached (ch_cache ch)"
proof (cases "cache_scan b (ch_cache ch) 0 None None")
  case (Inl k)
  let ?t = "ch_access_time ch + 1" and ?cs = "ch_cache ch"
  let ?ch = "ch\<lparr>ch_access_time := ?t, ch_cache := ?cs[k := (?cs ! k)\<lparr>uc_access_time := ?t\<rparr>]\<rparr>"
  note h = holdsD[OF assms(1)]
  have k: "k < length ?cs" "uc_in_use (?cs ! k)" "uc_block (?cs ! k) = b" using scan_hit[OF Inl] by auto
  have "find_cached_block ch b = Some (Inl k, ?ch)"
    using Inl k(1) assms(2) by (simp add: find_cached_block_def tick_def clock_def Let_def)
  moreover have "holds ?ch S v"
    using channel_like[OF h(1), of ?ch] view_time[OF h(7), of k ?t] by (simp add: holds_def)
  moreover have "clock ?ch n" using assms(2) by (simp add: clock_def)
  ultimately show ?thesis using k h(3) by (intro hit[of k ?ch]) (simp_all add: cached_time)
next
  case (Inr e)
  have "ch_cache ch \<noteq> []" using holdsD(3)[OF assms(1)] by (auto simp: CACHE_SIZE_def)
  then obtain k where "k < length (ch_cache ch)" "e = Some k" "b \<notin> cached (ch_cache ch)"
    using scan_miss[OF Inr, of "length (ch_cache ch)"] by auto
  then show ?thesis using Inr holdsD(3)[OF assms(1)] by (intro miss[of k]) (simp_all add: find_cached_block_def)
qed

subsection \<open>Taking over and filling an entry\<close>

lemma block_size_1: "channel_ok ch \<Longrightarrow> io_size ch 1 = Some (cbs ch)"
  using io_size_blocks[of 1 ch] by (simp add: channel_ok_def)

lemma reuse_result:
  assumes "holds ch S v" "clock ch (Suc n)" "k < CACHE_SIZE"
  shows "reuse_cache ch k b = Some (ch\<lparr>
      ch_dev := (ch_dev ch)\<lparr>dev_bytes := evicted (cbs ch) (coff ch) (ch_cache ch ! k) (cdev ch)\<rparr>,
      ch_access_time := ch_access_time ch + 1,
      ch_cache := (ch_cache ch)[k := (ch_cache ch ! k)\<lparr>uc_in_use := True, uc_dirty := False,
        uc_block := b, uc_access_time := ch_access_time ch + 1\<rparr>]\<rparr>)"
proof -
  note h = holdsD[OF assms(1)]
  let ?c = "ch_cache ch ! k"
  have k: "k < length (ch_cache ch)" using assms(3) h(3) by simp
  have "raw_write_blk ch (uc_block ?c) 1 (uc_buf ?c) = Some (OK, ch\<lparr>ch_dev := (ch_dev ch)\<lparr>dev_bytes :=
      write_at (cdev ch) (at ch (uc_block ?c)) (uc_buf ?c)\<rparr>\<rparr>)" if "uc_in_use ?c"
    using raw_write_ok[OF h(1) block_size_1[OF h(1)] viewD(3)[OF h(7) k that], of "uc_buf ?c"]
      viewD(2)[OF h(7) k] by simp
  then show ?thesis using k assms(2)
    by (auto simp: reuse_cache_def evicted_def tick_def clock_def Let_def)
qed

lemma fill_cache_result:
  assumes "k < length (ch_cache ch)" "length (uc_buf (ch_cache ch ! k)) = cbs ch" "cbs ch \<le> length cp"
  shows "fill_cache ch k cp = Some (ch\<lparr>ch_cache := (ch_cache ch)[k := (ch_cache ch ! k)\<lparr>uc_buf := take (cbs ch) cp\<rparr>]\<rparr>)"
  using assms by (simp add: fill_cache_def Let_def write_at_def)

lemma install_result:
  assumes "holds ch S v" "clock ch (Suc n)" "k < CACHE_SIZE" "b \<notin> cached (ch_cache ch)"
    and "at ch b + cbs ch \<le> length v" "take (cbs ch) cp = part (at ch b) (cbs ch) v"
  obtains ch1 ch2 where "reuse_cache ch k b = Some ch1" "fill_cache ch1 k cp = Some ch2" "like ch ch2" "clock ch2 n"
    "cached (ch_cache ch2) \<subseteq> insert b (cached (ch_cache ch))" "length (ch_cache ch2) = CACHE_SIZE"
    "uc_in_use (ch_cache ch2 ! k)" "uc_block (ch_cache ch2 ! k) = b" "\<not> uc_dirty (ch_cache ch2 ! k)"
    "uc_buf (ch_cache ch2 ! k) = part (at ch b) (cbs ch) v"
    "\<And>c. uc_in_use c \<Longrightarrow> uc_block c = b \<Longrightarrow> uc_buf c = part (at ch b) (cbs ch) v
       \<Longrightarrow> cwt ch \<longrightarrow> \<not> uc_dirty c \<Longrightarrow> b \<in> S \<longrightarrow> uc_dirty c \<or> cwt ch
       \<Longrightarrow> holds (ch2\<lparr>ch_cache := (ch_cache ch2)[k := c]\<rparr>) (S - {b}) v"
proof -
  note h = holdsD[OF assms(1)]
  let ?D = "evicted (cbs ch) (coff ch) (ch_cache ch ! k) (cdev ch)" and ?t = "ch_access_time ch + 1"
  let ?c = "(ch_cache ch ! k)\<lparr>uc_in_use := True, uc_dirty := False, uc_block := b, uc_access_time := ?t\<rparr>"
  let ?ch1 = "ch\<lparr>ch_dev := (ch_dev ch)\<lparr>dev_bytes := ?D\<rparr>, ch_access_time := ?t, ch_cache := (ch_cache ch)[k := ?c]\<rparr>"
  let ?ch2 = "?ch1\<lparr>ch_cache := (ch_cache ch)[k := ?c\<lparr>uc_buf := take (cbs ch) cp\<rparr>]\<rparr>"
  have k: "k < length (ch_cache ch)" using assms(3) h(3) by simp
  have len: "cbs ch \<le> length cp"
    using arg_cong[OF assms(6), of length] assms(5) by simp
  have fill: "fill_cache ?ch1 k cp = Some ?ch2"
    using fill_cache_result[of k ?ch1 cp] k viewD(2)[OF h(7) k] len by simp
  have lk: "like ch ?ch2" by simp
  have D: "length ?D = length (cdev ch)" by (rule length_evicted[OF h(7) k])
  have "holds (?ch2\<lparr>ch_cache := (ch_cache ?ch2)[k := c]\<rparr>) (S - {b}) v"
    if c: "uc_in_use c" "uc_block c = b" "uc_buf c = part (at ch b) (cbs ch) v"
      "cwt ch \<longrightarrow> \<not> uc_dirty c" "b \<in> S \<longrightarrow> uc_dirty c \<or> cwt ch" for c
  proof -
    let ?ch3 = "?ch2\<lparr>ch_cache := (ch_cache ?ch2)[k := c]\<rparr>"
    have "like ch ?ch3" by simp
    then have ok: "channel_ok ?ch3" by (rule channel_like[OF h(1)]) (simp_all add: D)
    have b: "\<And>i. i < length (ch_cache ch) \<Longrightarrow> uc_in_use (ch_cache ch ! i) \<Longrightarrow> uc_block (ch_cache ch ! i) \<noteq> b"
      using assms(4) by (auto simp: cached_iff)
    have "cached_view (cbs ch) (coff ch) (cwt ch) ((ch_cache ch)[k := c]) ?D (S - {b}) v"
      by (rule view_install[OF h(7) k h(4) b assms(5) c(1-3) refl c(4,5)])
    then show ?thesis using ok by (simp add: holds_def)
  qed
  moreover have "cached (ch_cache ?ch2) \<subseteq> insert b (cached (ch_cache ch))"
    by (auto simp: cached_def dest!: set_update_subset_insert[THEN subsetD])
  ultimately show ?thesis
    using reuse_result[OF assms(1-3), of b] fill lk k h(3) assms(2,6)
    by (intro that[of ?ch1 ?ch2]) (simp_all add: clock_def)
qed

end
