(* ===== verification/Unix_Io_Plain.thy ===== *)
theory Unix_Io_Plain
  imports Unix_Io_Channel Simulation
begin

unbundle bit_operations_syntax

text \<open>
  The operations of the I/O manager against plain bytes: the loops over blocks, flushing, and the
  contract of the channel, which is an instance of the locale \<open>contract\<close>. The plain device is the
  block size, the offset and the bytes; it has no cache.
\<close>

subsection \<open>Reading blocks\<close>

lemma later_block: "j < 8 \<Longrightarrow> b + 1 + of_nat j \<noteq> b" for b :: u64
proof
  assume "j < 8" "b + 1 + of_nat j = b"
  then have "of_nat (Suc j) = (0 :: u64)" by (simp add: add.assoc)
  then have "2 ^ 64 dvd Suc j" by (simp only: word_of_nat_eq_0_iff) simp
  then show False using \<open>j < 8\<close> by (auto dest: dvd_imp_le)
qed

lemma extent_next:
  assumes "holds ch S v" "at ch b + m * cbs ch \<le> length v" "i \<le> m"
  shows "at ch (b + of_nat i) = at ch b + i * cbs ch"
  using extent_plus[OF assms(2) holdsD(6,4)[OF assms(1)] assms(3)] .

lemma io_size_nat:
  "int n * ch_block_size ch < 2147483648 \<Longrightarrow> 0 < ch_block_size ch \<Longrightarrow> io_size ch (int n) = Some (n * cbs ch)"
  using io_size_blocks[of "int n" ch] by (simp only: nat_int of_nat_0_le_iff simp_thms)

lemma block_of_byte:
  fixes l p i bs :: nat
  assumes "l \<le> p" "p < l + i * bs" "0 < bs"
  shows "\<exists>j < i. l + j * bs \<le> p \<and> p < l + j * bs + bs"
proof (intro exI conjI)
  let ?j = "(p - l) div bs"
  show "?j < i" using assms by (simp add: div_less_iff_less_mult less_diff_conv2 add.commute)
  have "?j * bs \<le> p - l" "p - l < ?j * bs + bs"
    using div_mult_mod_eq[of "p - l" bs] mod_less_divisor[OF assms(3), of "p - l"] by linarith+
  then show "l + ?j * bs \<le> p" "p < l + ?j * bs + bs" using assms(1) by linarith+
qed

lemma save_blocks_ok:
  "holds ch {} v \<Longrightarrow> clock ch (length reuse + n) \<Longrightarrow> \<forall>r \<in> set reuse. \<exists>k < CACHE_SIZE. r = Some k
   \<Longrightarrow> \<forall>j < length reuse. b + of_nat j \<notin> cached (ch_cache ch) \<Longrightarrow> length reuse \<le> 8
   \<Longrightarrow> at ch b + length reuse * cbs ch \<le> length v
   \<Longrightarrow> cp = part (at ch b) (length reuse * cbs ch) v
   \<Longrightarrow> \<exists>ch'. save_blocks ch reuse b cp = Some ch' \<and> like ch ch' \<and> holds ch' {} v \<and> clock ch' n"
proof (induction reuse arbitrary: ch b cp)
  case (Cons r reuse)
  note prems = Cons.prems
  let ?bs = "cbs ch"
  obtain k where k: "r = Some k" "k < CACHE_SIZE" using prems(3) by auto
  have "b \<notin> cached (ch_cache ch)" using prems(4)[rule_format, of 0] by simp
  moreover have "at ch b + ?bs \<le> length v" using prems(6) by simp
  moreover have cp: "cp = part (at ch b) ?bs v @ part (at ch b + ?bs) (length reuse * ?bs) v"
    using prems(7) by (simp add: part_append)
  then have "take ?bs cp = part (at ch b) ?bs v" using prems(6) by simp
  moreover have "clock ch (Suc (length reuse + n))" using prems(2) by simp
  ultimately have "\<exists>ch1 ch2. reuse_cache ch k b = Some ch1 \<and> fill_cache ch1 k cp = Some ch2 \<and> like ch ch2
      \<and> clock ch2 (length reuse + n) \<and> cached (ch_cache ch2) \<subseteq> insert b (cached (ch_cache ch)) \<and> holds ch2 {} v"
  proof (rule_tac install_result[OF prems(1) _ k(2), of "length reuse + n" b cp])
    fix ch1 ch2
    assume a: "reuse_cache ch k b = Some ch1" "fill_cache ch1 k cp = Some ch2" "like ch ch2"
      "clock ch2 (length reuse + n)" "cached (ch_cache ch2) \<subseteq> insert b (cached (ch_cache ch))"
      "uc_in_use (ch_cache ch2 ! k)" "uc_block (ch_cache ch2 ! k) = b" "\<not> uc_dirty (ch_cache ch2 ! k)"
      "uc_buf (ch_cache ch2 ! k) = part (at ch b) ?bs v"
      and ins: "\<And>c. uc_in_use c \<Longrightarrow> uc_block c = b \<Longrightarrow> uc_buf c = part (at ch b) ?bs v
       \<Longrightarrow> cwt ch \<longrightarrow> \<not> uc_dirty c \<Longrightarrow> b \<in> {} \<longrightarrow> uc_dirty c \<or> cwt ch
       \<Longrightarrow> holds (ch2\<lparr>ch_cache := (ch_cache ch2)[k := c]\<rparr>) ({} - {b}) v"
    have "holds ch2 {} v" using ins[of "ch_cache ch2 ! k"] a by simp
    then show ?thesis using a by blast
  qed
  then obtain ch1 ch2 where ch2: "reuse_cache ch k b = Some ch1" "fill_cache ch1 k cp = Some ch2"
    "like ch ch2" "clock ch2 (length reuse + n)" "cached (ch_cache ch2) \<subseteq> insert b (cached (ch_cache ch))"
    and h2: "holds ch2 {} v" by blast
  note lk = like_fields[OF ch2(3)]
  have at: "at ch2 (b + 1) = at ch b + ?bs"
    using extent_next[OF prems(1,6), of 1] lk by simp
  have drop: "drop (cbs ch2) cp = part (at ch b + ?bs) (length reuse * ?bs) v"
    using cp prems(6) lk by simp
  have "\<exists>ch'. save_blocks ch2 reuse (b + 1) (drop (cbs ch2) cp) = Some ch' \<and> like ch2 ch' \<and> holds ch' {} v \<and> clock ch' n"
  proof (rule Cons.IH[OF h2 ch2(4)])
    show "\<forall>j < length reuse. b + 1 + of_nat j \<notin> cached (ch_cache ch2)"
    proof (intro allI impI)
      fix j assume j: "j < length reuse"
      have "b + 1 + of_nat j \<notin> cached (ch_cache ch)" using prems(4)[rule_format, of "Suc j"] j by (simp add: add.assoc)
      moreover have "b + 1 + of_nat j \<noteq> b" using later_block prems(5) j by simp
      ultimately show "b + 1 + of_nat j \<notin> cached (ch_cache ch2)" using ch2(5) by blast
    qed
  qed (use prems(3,5,6) at drop lk in simp_all)
  then show ?case using k(1) ch2(1-3) like_trans by auto
qed simp

lemma uncached_run_ok:
  "holds ch S v \<Longrightarrow> clock ch (Suc n) \<Longrightarrow> \<forall>r \<in> set reuse. \<exists>k < CACHE_SIZE. r = Some k
   \<Longrightarrow> \<exists>m rs ch'. m \<le> c \<and> uncached_run ch b c reuse = Some (reuse @ rs, ch') \<and> length rs = m
     \<and> like ch ch' \<and> holds ch' S v \<and> clock ch' n \<and> cached (ch_cache ch') = cached (ch_cache ch)
     \<and> (\<forall>r \<in> set rs. \<exists>k < CACHE_SIZE. r = Some k) \<and> (\<forall>j < m. b + of_nat j \<notin> cached (ch_cache ch))"
proof (induction c arbitrary: b reuse)
  case 0
  have "clock ch n" using 0(2) by (simp add: clock_def)
  then show ?case using 0 by simp
next
  case (Suc c)
  show ?case
  proof (cases rule: find_cached_result[OF Suc.prems(1,2), of b])
    case (1 k ch')
    then show ?thesis by simp
  next
    case (2 k)
    have "\<forall>r \<in> set (reuse @ [Some k]). \<exists>k < CACHE_SIZE. r = Some k" using Suc.prems(3) 2 by auto
    from Suc.IH[OF Suc.prems(1,2) this, of "b + 1"] obtain rs ch' where r:
      "length rs \<le> c" "uncached_run ch (b + 1) c (reuse @ [Some k]) = Some ((reuse @ [Some k]) @ rs, ch')"
      "like ch ch'" "holds ch' S v" "clock ch' n" "cached (ch_cache ch') = cached (ch_cache ch)"
      "\<forall>r \<in> set rs. \<exists>k < CACHE_SIZE. r = Some k" "\<forall>j < length rs. b + 1 + of_nat j \<notin> cached (ch_cache ch)"
      by blast
    have "b + of_nat j \<notin> cached (ch_cache ch)" if "j < Suc (length rs)" for j
      using that r(8) 2 by (cases j) (auto simp: add.assoc)
    then show ?thesis using r 2 by (intro exI[of _ "Suc (length rs)"] exI[of _ "Some k # rs"] exI[of _ ch']) auto
  qed
qed

lemma run_on_device:
  assumes "holds ch {} v" "at ch b + i * cbs ch \<le> length v" "\<And>j. j < i \<Longrightarrow> b + of_nat j \<notin> cached (ch_cache ch)"
  shows "part (at ch b) (i * cbs ch) (cdev ch) = part (at ch b) (i * cbs ch) v"
proof (rule view_uncached[OF holdsD(7)[OF assms(1)] _ _ assms(2)])
  fix n p assume n: "n < length (ch_cache ch)" "uc_in_use (ch_cache ch ! n)" "at ch b \<le> p" "p < at ch b + i * cbs ch"
  show "\<not> covers (cbs ch) (coff ch) (uc_block (ch_cache ch ! n)) p"
  proof
    assume cov: "covers (cbs ch) (coff ch) (uc_block (ch_cache ch ! n)) p"
    obtain j where j: "j < i" "at ch b + j * cbs ch \<le> p" "p < at ch b + j * cbs ch + cbs ch"
      using block_of_byte[OF n(3,4) holdsD(4)[OF assms(1)]] by blast
    have "at ch (b + of_nat j) = at ch b + j * cbs ch" using extent_next[OF assms(1,2)] j(1) by simp
    then have "covers (cbs ch) (coff ch) (b + of_nat j) p" unfolding covers_def using j(2,3) by simp
    then have "uc_block (ch_cache ch ! n) = b + of_nat j" using cov by (rule covers_unique[rotated])
    then show False using assms(3)[OF j(1)] n(1,2) by (auto simp: cached_iff)
  qed
qed simp

lemma read_blocks_miss:
  assumes "count \<noteq> 0" "find_cached_block ch b = Some (Inr e, ch0)"
    and "uncached_run ch0 (b + 1) (count - 1) [e] = Some (reuse, ch1)"
    and "raw_read_blk ch1 b (int (length reuse)) = Some (OK, xs)" "save_blocks ch1 reuse b xs = Some ch2"
    and "read_blocks ch2 (b + of_nat (length reuse)) (count - length reuse) = Some (r, ys, ch3)"
  shows "read_blocks ch b count = Some (r, xs @ ys, ch3)"
  using assms by (simp add: read_blocks.simps[of ch b count] Let_def)

lemma read_blocks_ok:
  "holds ch {} v \<Longrightarrow> clock ch (2 * count + n) \<Longrightarrow> at ch b + count * cbs ch \<le> length v \<Longrightarrow> count \<le> 8
   \<Longrightarrow> int count * ch_block_size ch < 2147483648
   \<Longrightarrow> \<exists>ch'. read_blocks ch b count = Some (OK, part (at ch b) (count * cbs ch) v, ch')
       \<and> like ch ch' \<and> holds ch' {} v \<and> clock ch' n"
proof (induction count arbitrary: ch b rule: less_induct)
  case (less count)
  note prems = less.prems
  let ?bs = "cbs ch"
  show ?case
  proof (cases "count = 0")
    case True
    then show ?thesis using prems by (simp add: read_blocks.simps part_def)
  next
    case False
    then obtain c where c: "count = Suc c" by (cases count) auto
    have ck: "clock ch (Suc (2 * c + 1 + n))" using prems(2) c by simp
    have int_le: "int m * ch_block_size ch < 2147483648" if "m \<le> count" for m
    proof -
      have "int m * ch_block_size ch \<le> int count * ch_block_size ch"
        using that prems(1) by (intro mult_right_mono) (auto simp: holds_def channel_ok_def)
      then show ?thesis using prems(5) by linarith
    qed
    show ?thesis
    proof (cases rule: find_cached_result[OF prems(1) ck, of b])
      case (1 k ch1)
      note lk = like_fields[OF 1(2)]
      have h: "k < length (ch_cache ch1)" using 1(6) holdsD(3)[OF 1(3)] by simp
      have "uc_buf (ch_cache ch1 ! k) = part (at ch b) ?bs v"
        using viewD(5)[OF holdsD(7)[OF 1(3)] h 1(7)] 1(8) lk by simp
      then have rc: "read_cached ch1 k = Some (part (at ch b) ?bs v)"
        using h prems(3) c lk by (simp add: read_cached_def Let_def)
      have at: "at ch1 (b + 1) = at ch b + ?bs" using extent_next[OF prems(1,3), of 1] c lk by simp
      have "\<exists>ch'. read_blocks ch1 (b + 1) c = Some (OK, part (at ch1 (b + 1)) (c * cbs ch1) v, ch')
          \<and> like ch1 ch' \<and> holds ch' {} v \<and> clock ch' n"
      proof (rule less.IH)
        show "clock ch1 (2 * c + n)" using 1(4) by (simp add: clock_def)
      qed (use 1 at lk prems int_le[of c] c in simp_all)
      then obtain ch2 where ch2: "read_blocks ch1 (b + 1) c = Some (OK, part (at ch b + ?bs) (c * ?bs) v, ch2)"
        "like ch1 ch2" "holds ch2 {} v" "clock ch2 n" using at lk by auto
      have "like ch ch2" by (rule like_trans[OF 1(2) ch2(2)])
      then show ?thesis using 1(1) rc ch2 c by (simp add: read_blocks.simps[of ch b "Suc c"] part_append)
    next
      case (2 k)
      have "\<forall>r \<in> set [Some k]. \<exists>k < CACHE_SIZE. r = Some k" using 2 by simp
      from uncached_run_ok[OF prems(1) ck this, of c "b + 1"] obtain rs ch1 where r:
        "length rs \<le> c" "uncached_run ch (b + 1) c [Some k] = Some ([Some k] @ rs, ch1)"
        "like ch ch1" "holds ch1 {} v" "clock ch1 (2 * c + 1 + n)" "cached (ch_cache ch1) = cached (ch_cache ch)"
        "\<forall>r \<in> set rs. \<exists>k < CACHE_SIZE. r = Some k" "\<forall>j < length rs. b + 1 + of_nat j \<notin> cached (ch_cache ch)"
        by blast
      let ?i = "Suc (length rs)"
      note lk = like_fields[OF r(3)]
      have un: "b + of_nat j \<notin> cached (ch_cache ch1)" if "j < ?i" for j
        using that r(6,8) 2(3) by (cases j) (auto simp: add.assoc)
      have part_le: "at ch b + ?i * ?bs \<le> length v"
      proof -
        have "?i * ?bs \<le> count * ?bs" using r(1) c by (intro mult_le_mono1) simp
        then show ?thesis using prems(3) by linarith
      qed
      have same: "part (at ch b) (?i * ?bs) (cdev ch1) = part (at ch b) (?i * ?bs) v"
        using run_on_device[OF r(4), of b ?i] un part_le lk by simp
      have sz: "io_size ch1 (int ?i) = Some (?i * ?bs)"
        using io_size_nat[of ?i ch1] int_le[of ?i] r(1) c lk holdsD(4)[OF prems(1)] by simp
      have raw: "raw_read_blk ch1 b (int ?i) = Some (OK, part (at ch b) (?i * ?bs) v)"
        using raw_read_ok[OF holdsD(1)[OF r(4)] sz, of b] part_le same lk holdsD(2)[OF r(4)] by simp
      have "\<exists>ch'. save_blocks ch1 (Some k # rs) b (part (at ch b) (?i * ?bs) v) = Some ch' \<and> like ch1 ch'
          \<and> holds ch' {} v \<and> clock ch' (2 * (c - length rs) + n)"
      proof (rule save_blocks_ok[OF r(4)])
        show "clock ch1 (length (Some k # rs) + (2 * (c - length rs) + n))" using r(1,5) by (simp add: clock_def)
      qed (use 2 r(1,7) un part_le lk prems(4) c in auto)
      then obtain ch2 where ch2: "save_blocks ch1 (Some k # rs) b (part (at ch b) (?i * ?bs) v) = Some ch2"
        "like ch1 ch2" "holds ch2 {} v" "clock ch2 (2 * (c - length rs) + n)" by blast
      note lk2 = like_fields[OF ch2(2)]
      have at: "at ch2 (b + of_nat ?i) = at ch b + ?i * ?bs"
        using extent_next[OF prems(1,3), of ?i] r(1) c lk lk2 by simp
      have split: "count * ?bs = ?i * ?bs + (c - length rs) * ?bs"
        using r(1) c by (simp flip: add_mult_distrib)
      have "\<exists>ch'. read_blocks ch2 (b + of_nat ?i) (c - length rs)
          = Some (OK, part (at ch2 (b + of_nat ?i)) ((c - length rs) * cbs ch2) v, ch') \<and> like ch2 ch' \<and> holds ch' {} v \<and> clock ch' n"
      proof (rule less.IH)
        show "at ch2 (b + of_nat ?i) + (c - length rs) * cbs ch2 \<le> length v"
          using prems(3) at split lk lk2 by simp
      qed (use ch2 prems(4) int_le[of "c - length rs"] c lk lk2 in simp_all)
      then obtain ch3 where "read_blocks ch2 (b + of_nat ?i) (c - length rs)
          = Some (OK, part (at ch b + ?i * ?bs) ((c - length rs) * ?bs) v, ch3)" "like ch2 ch3" "holds ch3 {} v" "clock ch3 n"
        using at lk lk2 by auto
      note ch3 = this
      have "like ch ch3" using r(3) ch2(2) ch3(2) like_trans by blast
      moreover have "read_blocks ch b count
          = Some (OK, part (at ch b) (?i * ?bs) v @ part (at ch b + ?i * ?bs) ((c - length rs) * ?bs) v, ch3)"
      proof (rule read_blocks_miss[OF False 2(1)])
        show "uncached_run ch (b + 1) (count - 1) [Some k] = Some (Some k # rs, ch1)" using r(2) c by simp
        show "read_blocks ch2 (b + of_nat (length (Some k # rs))) (count - length (Some k # rs))
            = Some (OK, part (at ch b + ?i * ?bs) ((c - length rs) * ?bs) v, ch3)" using ch3(1) c by simp
      qed (use raw ch2(1) in simp_all)
      ultimately show ?thesis unfolding split part_append using ch3(3,4) by blast
    qed
  qed
qed

subsection \<open>Writing blocks\<close>

lemma holds_mono: "holds ch S v \<Longrightarrow> S \<subseteq> T \<Longrightarrow> holds ch T v"
  unfolding holds_def cached_view_def by blast

lemma write_cached_blocks_ok:
  "holds ch S v \<Longrightarrow> S \<subseteq> blocks b count \<Longrightarrow> clock ch (count + n) \<Longrightarrow> at ch b + count * cbs ch \<le> length v
   \<Longrightarrow> take (count * cbs ch) cp = part (at ch b) (count * cbs ch) v
   \<Longrightarrow> \<exists>ch'. write_cached_blocks (cwt ch) ch b count cp = Some ch' \<and> like ch ch' \<and> holds ch' {} v \<and> clock ch' n"
proof (induction count arbitrary: ch S b cp)
  case 0
  then show ?case by (auto simp: blocks_def)
next
  case (Suc count)
  note prems = Suc.prems
  let ?bs = "cbs ch"
  have cp: "take (?bs + count * ?bs) cp = part (at ch b) ?bs v @ part (at ch b + ?bs) (count * ?bs) v"
    using prems(5) by (simp add: part_append)
  have room: "at ch b + ?bs \<le> length v" using prems(4) by simp
  have tk: "take ?bs cp = part (at ch b) ?bs v"
    using arg_cong[OF cp, of "take ?bs"] room by simp
  have drop: "take (count * ?bs) (drop ?bs cp) = part (at ch b + ?bs) (count * ?bs) v"
    using arg_cong[OF cp, of "drop ?bs"] room by (simp add: drop_take)
  have len: "?bs \<le> length cp" using arg_cong[OF tk, of length] room by simp
  have S: "S - {b} \<subseteq> blocks (b + 1) count" using prems(2) by (auto simp: blocks_Suc)
  have ck: "clock ch (Suc (count + n))" using prems(3) by simp
  have rest: "\<exists>ch'. write_cached_blocks (cwt ch) ch3 (b + 1) count (drop (cbs ch3) cp) = Some ch' \<and> like ch3 ch' \<and> holds ch' {} v \<and> clock ch' n"
    if ch3: "like ch ch3" "holds ch3 (S - {b}) v" "clock ch3 (count + n)" for ch3
  proof -
    note lk = like_fields[OF ch3(1)]
    have at: "at ch3 (b + 1) = at ch b + ?bs" using extent_next[OF prems(1,4), of 1] lk by simp
    show ?thesis using Suc.IH[OF ch3(2) S ch3(3)] at drop prems(4) lk by simp
  qed
  show ?case
  proof (cases rule: find_cached_result[OF prems(1) ck, of b])
    case (1 k ch1)
    note lk = like_fields[OF 1(2)]
    let ?c = "(ch_cache ch1 ! k)\<lparr>uc_buf := take ?bs cp, uc_dirty := \<not> cwt ch\<rparr>"
    let ?ch3 = "ch1\<lparr>ch_cache := (ch_cache ch1)[k := ?c]\<rparr>"
    note h = holdsD[OF 1(3)]
    have k: "k < length (ch_cache ch1)" using 1(6) h(3) by simp
    have fill: "fill_cache ch1 k cp = Some (ch1\<lparr>ch_cache := (ch_cache ch1)[k := (ch_cache ch1 ! k)\<lparr>uc_buf := take ?bs cp\<rparr>]\<rparr>)"
      using fill_cache_result[OF k, of cp] viewD(2)[OF h(7) k] len lk by simp
    have "cached_view ?bs (coff ch) (cwt ch) ((ch_cache ch1)[k := ?c]) (cdev ch1) (S - {uc_block (ch_cache ch1 ! k)}) v"
      using h(7) k 1(7,8) tk lk by (intro view_refill) simp_all
    then have "holds ?ch3 (S - {b}) v"
      using channel_like[OF h(1), of ?ch3] 1(8) lk by (simp add: holds_def)
    moreover have lk3: "like ch ?ch3" by (rule like_trans[OF 1(2)]) simp
    moreover have "clock ?ch3 (count + n)" using 1(4) by (simp add: clock_def)
    ultimately obtain ch' where ch': "write_cached_blocks (cwt ch) ?ch3 (b + 1) count (drop (cbs ?ch3) cp) = Some ch'"
      "like ?ch3 ch'" "holds ch' {} v" "clock ch' n" using rest[of ?ch3] by blast
    have "like ch ch'" by (rule like_trans[OF lk3 ch'(2)])
    moreover have "write_cached_blocks (cwt ch) ch b (Suc count) cp = Some ch'" using 1(1) fill k ch'(1) by simp
    ultimately show ?thesis using ch'(3,4) by blast
  next
    case (2 k)
    show ?thesis
    proof (rule install_result[OF prems(1) ck 2(2,3) room tk])
      fix ch1 ch2
      assume a: "reuse_cache ch k b = Some ch1" "fill_cache ch1 k cp = Some ch2" "like ch ch2" "clock ch2 (count + n)"
        "length (ch_cache ch2) = CACHE_SIZE" "uc_in_use (ch_cache ch2 ! k)" "uc_block (ch_cache ch2 ! k) = b"
        "uc_buf (ch_cache ch2 ! k) = part (at ch b) ?bs v"
        and ins: "\<And>c. uc_in_use c \<Longrightarrow> uc_block c = b \<Longrightarrow> uc_buf c = part (at ch b) ?bs v
          \<Longrightarrow> cwt ch \<longrightarrow> \<not> uc_dirty c \<Longrightarrow> b \<in> S \<longrightarrow> uc_dirty c \<or> cwt ch
          \<Longrightarrow> holds (ch2\<lparr>ch_cache := (ch_cache ch2)[k := c]\<rparr>) (S - {b}) v"
      let ?ch3 = "ch2\<lparr>ch_cache := (ch_cache ch2)[k := (ch_cache ch2 ! k)\<lparr>uc_dirty := \<not> cwt ch\<rparr>]\<rparr>"
      have "holds ?ch3 (S - {b}) v" by (rule ins) (use a in simp_all)
      moreover have lk3: "like ch ?ch3" by (rule like_trans[OF a(3)]) simp
      moreover have "clock ?ch3 (count + n)" using a(4) by (simp add: clock_def)
      ultimately obtain ch' where ch': "write_cached_blocks (cwt ch) ?ch3 (b + 1) count (drop (cbs ?ch3) cp) = Some ch'"
        "like ?ch3 ch'" "holds ch' {} v" "clock ch' n" using rest[of ?ch3] by blast
      have "like ch ch'" by (rule like_trans[OF lk3 ch'(2)])
      moreover have "write_cached_blocks (cwt ch) ch b (Suc count) cp = Some ch'" using 2(1,2) a(1,2,5) ch'(1) by simp
      ultimately show ?thesis using ch'(3,4) by blast
    qed
  qed
qed

text \<open>When a write begins: the blocks of the set are still to come; with write-through the
  device has them already.\<close>

lemma blocks_cover:
  assumes "holds ch {} v" "at ch b + count * cbs ch \<le> length v" "at ch b \<le> p" "p < at ch b + count * cbs ch"
  shows "\<exists>b' \<in> blocks b count. covers (cbs ch) (coff ch) b' p"
proof -
  obtain j where j: "j < count" "at ch b + j * cbs ch \<le> p" "p < at ch b + j * cbs ch + cbs ch"
    using block_of_byte[OF assms(3,4) holdsD(4)[OF assms(1)]] by blast
  then have "at ch (b + of_nat j) = at ch b + j * cbs ch" using extent_next[OF assms(1,2)] by simp
  then have "covers (cbs ch) (coff ch) (b + of_nat j) p" unfolding covers_def using j(2,3) by simp
  then show ?thesis using j(1) by (auto simp: blocks_def)
qed

lemma covered_blocks:
  assumes "holds ch {} v" "at ch b + count * cbs ch \<le> length v" "b' \<in> blocks b count" "covers (cbs ch) (coff ch) b' p"
  shows "at ch b \<le> p \<and> p < at ch b + count * cbs ch"
proof -
  obtain j where j: "j < count" "b' = b + of_nat j" using assms(3) by (auto simp: blocks_def)
  then have "at ch b' = at ch b + j * cbs ch" using extent_next[OF assms(1,2)] by simp
  moreover have "j * cbs ch + cbs ch \<le> count * cbs ch"
    using mult_le_mono1[of "Suc j" count "cbs ch"] j(1) by simp
  ultimately show ?thesis using assms(4) unfolding covers_def by linarith
qed

lemma begin_write:
  assumes "holds ch {} v" "at ch b + count * cbs ch \<le> length v" "length xs = count * cbs ch"
  shows "holds (ch\<lparr>ch_dev := (ch_dev ch)\<lparr>dev_bytes := if cwt ch then write_at (cdev ch) (at ch b) xs else cdev ch\<rparr>\<rparr>)
     (blocks b count) (write_at v (at ch b) xs)"
proof -
  note h = holdsD[OF assms(1)]
  let ?v = "write_at v (at ch b) xs" and ?D = "if cwt ch then write_at (cdev ch) (at ch b) xs else cdev ch"
  have len: "length ?v = length v" "length ?D = length (cdev ch)" using assms(2,3) h(2) by simp_all
  have ok: "channel_ok (ch\<lparr>ch_dev := (ch_dev ch)\<lparr>dev_bytes := ?D\<rparr>\<rparr>)"
    by (rule channel_like[OF h(1)]) (use len(2) in simp_all)
  have "cached_view (cbs ch) (coff ch) (cwt ch) (ch_cache ch) ?D (blocks b count) ?v"
    unfolding cached_view_def
  proof (intro conjI allI impI)
    fix i assume i: "i < length (ch_cache ch)" "uc_in_use (ch_cache ch ! i) \<and> uc_block (ch_cache ch ! i) \<notin> blocks b count"
    let ?b = "uc_block (ch_cache ch ! i)"
    have room: "at ch ?b + cbs ch \<le> length v" using viewD(3)[OF h(7) i(1)] i(2) h(2) by simp
    have "part (at ch ?b) (cbs ch) v = part (at ch ?b) (cbs ch) ?v"
    proof (rule part_eqI)
      fix p assume p: "at ch ?b \<le> p" "p < at ch ?b + cbs ch"
      then have "covers (cbs ch) (coff ch) ?b p" by (simp add: covers_def)
      then have "\<not> (at ch b \<le> p \<and> p < at ch b + count * cbs ch)"
        using blocks_cover[OF assms(1,2)] i(2) covers_unique by blast
      then show "v ! p = ?v ! p" using assms(2,3) p room by (auto simp: nth_write_at)
    qed (use room len in simp_all)
    then show "uc_buf (ch_cache ch ! i) = part (at ch ?b) (cbs ch) ?v" using viewD(5)[OF h(7) i(1)] i(2) by simp
  next
    fix p assume p: "p < length ?D" "?D ! p \<noteq> ?v ! p"
    then have pv: "p < length v" "p < length (cdev ch)" using len h(2) by simp_all
    show "(\<exists>i < length (ch_cache ch). uc_in_use (ch_cache ch ! i) \<and> uc_dirty (ch_cache ch ! i)
        \<and> covers (cbs ch) (coff ch) (uc_block (ch_cache ch ! i)) p)
      \<or> \<not> cwt ch \<and> (\<exists>b \<in> blocks b count. covers (cbs ch) (coff ch) b p)"
    proof (cases "at ch b \<le> p \<and> p < at ch b + count * cbs ch")
      case True
      have "?D ! p = ?v ! p" if "cwt ch" using that True pv assms(2,3) h(2) by (simp add: nth_write_at)
      then have "\<not> cwt ch" using p(2) by blast
      then show ?thesis using blocks_cover[OF assms(1,2)] True by blast
    next
      case False
      then have "cdev ch ! p \<noteq> v ! p" using p(2) pv assms(2,3) h(2) by (auto simp: nth_write_at split: if_split_asm)
      then show ?thesis using viewD(7)[OF h(7) pv(2)] by blast
    qed
  qed (use viewD(2-4,6)[OF h(7)] len h(2) in auto)
  then show ?thesis using ok by (simp add: holds_def)
qed

subsection \<open>Flushing\<close>

definition flushed :: "bool \<Rightarrow> unix_cache \<Rightarrow> bool" where
  "flushed invalidate c \<longleftrightarrow> (uc_in_use c \<longrightarrow> \<not> uc_dirty c \<and> \<not> invalidate)"

lemma flush_entry_ok:
  assumes "holds ch {} v" "i < CACHE_SIZE"
  shows "\<exists>ch'. flush_entry inval i (OK, ch) = Some (OK, ch') \<and> like ch ch' \<and> holds ch' {} v
    \<and> ch_access_time ch' = ch_access_time ch \<and> flushed inval (ch_cache ch' ! i)
    \<and> (\<forall>j. j \<noteq> i \<longrightarrow> ch_cache ch' ! j = ch_cache ch ! j)"
proof -
  note h = holdsD[OF assms(1)]
  let ?c = "ch_cache ch ! i"
  have i: "i < length (ch_cache ch)" using assms(2) h(3) by simp
  show ?thesis
  proof (cases "uc_in_use ?c")
    case False
    then show ?thesis using assms(1) i by (intro exI[of _ ch]) (simp add: flush_entry_def flushed_def)
  next
    case True
    let ?D = "evicted (cbs ch) (coff ch) ?c (cdev ch)"
    let ?c' = "?c\<lparr>uc_in_use := \<not> inval, uc_dirty := False\<rparr>"
    let ?ch' = "ch\<lparr>ch_dev := (ch_dev ch)\<lparr>dev_bytes := ?D\<rparr>, ch_cache := (ch_cache ch)[i := ?c']\<rparr>"
    have lk: "like ch ?ch'" unfolding like_def
      by (intro exI[of _ ?D] exI[of _ "(ch_cache ch)[i := ?c']"] exI[of _ "ch_access_time ch"]) simp
    have "cached_view (cbs ch) (coff ch) (cwt ch) ((ch_cache ch)[i := ?c']) ?D {} v"
      by (rule view_flush[OF h(7) i refl]) (use True in simp)
    moreover have "channel_ok ?ch'"
      by (rule channel_like[OF h(1) lk]) (simp_all add: length_evicted[OF h(7) i])
    ultimately have "holds ?ch' {} v" by (simp add: holds_def)
    moreover have "flush_entry inval i (OK, ch) = Some (OK, ?ch')"
    proof (cases "uc_dirty ?c")
      case False
      have "?c\<lparr>uc_in_use := \<not> inval\<rparr> = ?c'" using False by simp
      moreover have "?ch' = ch\<lparr>ch_cache := (ch_cache ch)[i := ?c']\<rparr>" using False by (simp add: evicted_def)
      moreover have "flush_entry inval i (OK, ch)
          = Some (OK, ch\<lparr>ch_cache := (ch_cache ch)[i := ?c\<lparr>uc_in_use := \<not> inval\<rparr>]\<rparr>)"
        using False True i by (simp add: flush_entry_def)
      ultimately show ?thesis by simp
    next
      case dirty: True
      let ?ch1 = "ch\<lparr>ch_cache := (ch_cache ch)[i := ?c\<lparr>uc_in_use := \<not> inval\<rparr>]\<rparr>"
      have ok: "channel_ok ?ch1" by (rule channel_like[OF h(1)]) simp_all
      have "raw_write_blk ?ch1 (uc_block ?c) 1 (uc_buf ?c) = Some (OK, ?ch1\<lparr>ch_dev := (ch_dev ?ch1)\<lparr>dev_bytes :=
          write_at (cdev ?ch1) (at ?ch1 (uc_block ?c)) (take (cbs ?ch1) (uc_buf ?c))\<rparr>\<rparr>)"
        by (rule raw_write_ok[OF ok block_size_1[OF ok]])
           (use viewD(2,3)[OF h(7) i] True in simp_all)
      then show ?thesis using True dirty i viewD(2)[OF h(7) i]
        by (simp add: flush_entry_def evicted_def Let_def)
    qed
    ultimately show ?thesis using lk i by (intro exI[of _ ?ch']) (simp add: flushed_def)
  qed
qed

lemma flush_loop_ok:
  "holds ch {} v \<Longrightarrow> \<forall>i \<in> set is. i < CACHE_SIZE \<Longrightarrow>
   \<exists>ch'. flush_loop inval is (OK, ch) = Some (OK, ch') \<and> like ch ch' \<and> holds ch' {} v
    \<and> ch_access_time ch' = ch_access_time ch
    \<and> (\<forall>j. j \<in> set is \<or> flushed inval (ch_cache ch ! j) \<longrightarrow> flushed inval (ch_cache ch' ! j))"
proof (induction "is" arbitrary: ch)
  case (Cons i "is")
  obtain ch1 where ch1: "flush_entry inval i (OK, ch) = Some (OK, ch1)" "like ch ch1" "holds ch1 {} v"
    "ch_access_time ch1 = ch_access_time ch" "flushed inval (ch_cache ch1 ! i)"
    "\<forall>j. j \<noteq> i \<longrightarrow> ch_cache ch1 ! j = ch_cache ch ! j"
    using flush_entry_ok[OF Cons.prems(1), of i inval] Cons.prems(2) by auto
  obtain ch2 where ch2: "flush_loop inval is (OK, ch1) = Some (OK, ch2)" "like ch1 ch2" "holds ch2 {} v"
    "ch_access_time ch2 = ch_access_time ch1"
    "\<forall>j. j \<in> set is \<or> flushed inval (ch_cache ch1 ! j) \<longrightarrow> flushed inval (ch_cache ch2 ! j)"
    using Cons.IH[OF ch1(3)] Cons.prems(2) by auto
  have "flushed inval (ch_cache ch2 ! j)" if "j \<in> set (i # is) \<or> flushed inval (ch_cache ch ! j)" for j
    using that ch1(5,6) ch2(5) by (cases "j = i") auto
  then show ?case using ch1(1,4) ch2(1,3,4) like_trans[OF ch1(2) ch2(2)] by auto
qed auto

lemma flush_ok:
  assumes "holds ch {} v"
  obtains ch' where "flush_cached_blocks ch inval = Some (OK, ch')" "like ch ch'" "holds ch' {} v"
    "ch_access_time ch' = ch_access_time ch" "cdev ch' = v" "\<forall>c \<in> set (ch_cache ch'). flushed inval c"
proof -
  obtain ch' where ch': "flush_cached_blocks ch inval = Some (OK, ch')" "like ch ch'" "holds ch' {} v"
    "ch_access_time ch' = ch_access_time ch" "\<forall>j < CACHE_SIZE. flushed inval (ch_cache ch' ! j)"
    using flush_loop_ok[OF assms, of "[0..<CACHE_SIZE]" inval] by (auto simp: flush_cached_blocks_def)
  have all: "\<forall>c \<in> set (ch_cache ch'). flushed inval c"
    using ch'(5) holdsD(3)[OF ch'(3)] by (auto simp: in_set_conv_nth)
  have "cdev ch' = v"
    by (rule view_clean[OF holdsD(7)[OF ch'(3)]]) (use all in \<open>auto simp: flushed_def\<close>)
  then show ?thesis using that ch' all by blast
qed

end
