(* ===== verification/Unix_Io_Contract.thy ===== *)
theory Unix_Io_Contract
  imports Unix_Io_Plain
begin

unbundle bit_operations_syntax

text \<open>
  The contract of the I/O manager: every operation on a channel does what it does on a plain device,
  without a cache. It instantiates the locale \<open>contract\<close>, so any sequence of operations from
  the opening to the closing of the channel does.
\<close>

record plain =
  p_bs :: int
  p_off :: int
  p_bytes :: "u8 list"

datatype io_op = Read u64 int | Write u64 int "u8 list" | Write_bytes u64 int "u8 list" | Set_size int | Flush

definition plain_at :: "plain \<Rightarrow> u64 \<Rightarrow> nat" where
  "plain_at pl b = extent (nat (p_bs pl)) (nat (p_off pl)) b"

definition plain_size :: "plain \<Rightarrow> int \<Rightarrow> int" where
  "plain_size pl count = (if count < 0 then - count else count * p_bs pl)"

fun plain_step :: "io_op \<Rightarrow> plain \<Rightarrow> (errcode \<times> u8 list) \<times> plain" where
  "plain_step (Read b count) pl = ((OK, part (plain_at pl b) (nat (plain_size pl count)) (p_bytes pl)), pl)"
| "plain_step (Write b count data) pl =
     ((OK, []), pl\<lparr>p_bytes := write_at (p_bytes pl) (plain_at pl b) (take (nat (plain_size pl count)) data)\<rparr>)"
| "plain_step (Write_bytes l n data) pl =
     ((OK, []), pl\<lparr>p_bytes := write_at (p_bytes pl) (nat (p_off pl) + unat l) (take (nat n) data)\<rparr>)"
| "plain_step (Set_size bs) pl = ((OK, []), pl\<lparr>p_bs := bs\<rparr>)"
| "plain_step Flush pl = ((OK, []), pl)"

fun may :: "malloc \<Rightarrow> io_op \<Rightarrow> plain \<Rightarrow> bool" where
  \<comment> \<open>The part of the device exists, the buffer is large enough, and sizes fit into \<open>int\<close>.\<close>
  "may mem (Read b count) pl \<longleftrightarrow> plain_size pl count < 2147483648
     \<and> plain_at pl b + nat (plain_size pl count) \<le> length (p_bytes pl)"
| "may mem (Write b count data) pl \<longleftrightarrow> plain_size pl count < 2147483648
     \<and> plain_at pl b + nat (plain_size pl count) \<le> length (p_bytes pl) \<and> nat (plain_size pl count) \<le> length data"
| "may mem (Write_bytes l n data) pl \<longleftrightarrow> 0 \<le> n
     \<and> nat (p_off pl) + unat l + nat n \<le> length (p_bytes pl) \<and> nat n \<le> length data"
| "may mem (Set_size bs) pl \<longleftrightarrow> 0 < bs \<and> bs < 2147483648 \<and> mem (nat bs)"
| "may mem Flush pl \<longleftrightarrow> True"

definition no_data :: "errcode \<times> io_channel \<Rightarrow> (errcode \<times> u8 list) \<times> io_channel" where
  "no_data = (\<lambda>(e, ch). ((e, []), ch))"

fun io_step :: "malloc \<Rightarrow> (nat \<Rightarrow> u8) \<Rightarrow> io_op \<Rightarrow> io_channel \<Rightarrow> ((errcode \<times> u8 list) \<times> io_channel) option" where
  "io_step mem junk (Read b count) ch = map_option (\<lambda>(e, xs, ch). ((e, xs), ch)) (unix_read_blk ch b count)"
| "io_step mem junk (Write b count data) ch = map_option no_data (unix_write_blk ch b count data)"
| "io_step mem junk (Write_bytes l n data) ch = map_option no_data (io_channel_write_byte ch l n data)"
| "io_step mem junk (Set_size bs) ch = map_option no_data (unix_set_blksize mem junk ch bs)"
| "io_step mem junk Flush ch = map_option no_data (unix_flush ch)"

definition stands_for :: "nat \<Rightarrow> io_channel \<Rightarrow> plain \<Rightarrow> bool" where
  "stands_for n ch pl \<longleftrightarrow> holds ch {} (p_bytes pl) \<and> clock ch (8 * n) \<and> 8 * n < 2147483648
     \<and> p_bs pl = ch_block_size ch \<and> p_off pl = ch_offset ch \<and> ch_refcount ch = 1"

lemma stands_forD:
  assumes "stands_for (Suc n) ch pl"
  shows "holds ch {} (p_bytes pl)" "clock ch (8 + 8 * n)" "p_bs pl = ch_block_size ch" "p_off pl = ch_offset ch"
    "plain_at pl b = at ch b"
  using assms by (simp_all add: stands_for_def plain_at_def)

lemma stands_for_like:
  assumes "stands_for (Suc n) ch pl" "like ch ch'" "holds ch' {} v" "clock ch' (8 * n)"
  shows "stands_for n ch' (pl\<lparr>p_bytes := v\<rparr>)"
  using assms(1,3,4) like_fields[OF assms(2)] by (simp add: stands_for_def)

lemma clock_kept: "clock ch (8 + n) \<Longrightarrow> ch_access_time ch' = ch_access_time ch \<Longrightarrow> clock ch' n"
  by (simp add: clock_def)

lemma clock_mono: "clock ch m \<Longrightarrow> k \<le> m \<Longrightarrow> clock ch k"
  by (simp add: clock_def)

lemma io_size_like: "like ch ch' \<Longrightarrow> io_size ch' count = io_size ch count"
  by (simp add: io_size_def like_fields)

lemma plain_size_io:
  "stands_for n ch pl \<Longrightarrow> plain_size pl count < 2147483648 \<Longrightarrow> io_size ch count = Some (nat (plain_size pl count))"
  by (auto simp: stands_for_def io_size_def plain_size_def Let_def)

subsection \<open>The operations\<close>

lemma read_ok:
  assumes s: "stands_for (Suc n) ch pl" and m: "may mem (Read b count) pl"
  shows "\<exists>ch'. unix_read_blk ch b count
      = Some (OK, part (plain_at pl b) (nat (plain_size pl count)) (p_bytes pl), ch') \<and> stands_for n ch' pl"
proof -
  note h = stands_forD[OF s]
  have pl: "pl\<lparr>p_bytes := p_bytes pl\<rparr> = pl" by simp
  have ok: "checked ch = OK" by (rule holdsD(5)[OF h(1)])
  show ?thesis
  proof (cases "count < 0 \<or> WRITE_DIRECT_SIZE < count")
    case True
    obtain ch' where ch': "flush_cached_blocks ch False = Some (OK, ch')" "like ch ch'" "holds ch' {} (p_bytes pl)"
      "ch_access_time ch' = ch_access_time ch" "cdev ch' = p_bytes pl" by (rule flush_ok[OF h(1)])
    have sf: "stands_for n ch' pl"
      using stands_for_like[OF s ch'(2,3) clock_kept[OF h(2) ch'(4)]] pl by simp
    have "raw_read_blk ch' b count = Some (OK, part (at ch' b) (nat (plain_size pl count)) (cdev ch'))"
      using m ch'(5) h(5) like_fields[OF ch'(2)]
      by (intro raw_read_ok[OF holdsD(1)[OF ch'(3)] plain_size_io[OF sf]]) simp_all
    then show ?thesis using True ok ch'(1,5) sf h(5) like_fields[OF ch'(2)]
      by (simp add: unix_read_blk_def)
  next
    case False
    then have c: "count = int (nat count)" "nat count \<le> 4" "\<not> count < 0" by (auto simp: WRITE_DIRECT_SIZE_def)
    have size: "nat (plain_size pl count) = nat count * cbs ch"
      using False h(3) c(3) holdsD(4)[OF h(1)] by (simp add: plain_size_def nat_mult_distrib)
    have ck: "clock ch (2 * nat count + 8 * n)" using clock_mono[OF h(2)] c(2) by simp
    have "int (nat count) * ch_block_size ch < 2147483648" using m c h(3) by (simp add: plain_size_def)
    moreover have "at ch b + nat count * cbs ch \<le> length (p_bytes pl)" using m size h(5) by simp
    moreover have "nat count \<le> 8" using c(2) by simp
    ultimately obtain ch' where "read_blocks ch b (nat count) = Some (OK, part (at ch b) (nat count * cbs ch) (p_bytes pl), ch')"
      "like ch ch'" "holds ch' {} (p_bytes pl)" "clock ch' (8 * n)"
      using read_blocks_ok[OF h(1) ck, of b] by blast
    note ch' = this
    have "stands_for n ch' pl" using stands_for_like[OF s ch'(2-4)] pl by simp
    then show ?thesis using False ok size h(5) ch'(1) by (simp add: unix_read_blk_def)
  qed
qed

lemma direct_write_ok:
  assumes s: "stands_for (Suc n) ch pl" and l: "l + length xs \<le> length (p_bytes pl)"
  obtains ch' where "flush_cached_blocks ch True = Some (OK, ch')" "like ch ch'" "channel_ok ch'" "cdev ch' = p_bytes pl"
    "stands_for n (ch'\<lparr>ch_dev := (ch_dev ch')\<lparr>dev_bytes := write_at (cdev ch') l xs\<rparr>\<rparr>)
       (pl\<lparr>p_bytes := write_at (p_bytes pl) l xs\<rparr>)"
proof -
  note h = stands_forD[OF s]
  obtain ch' where ch': "flush_cached_blocks ch True = Some (OK, ch')" "like ch ch'" "holds ch' {} (p_bytes pl)"
    "ch_access_time ch' = ch_access_time ch" "cdev ch' = p_bytes pl" "\<forall>c \<in> set (ch_cache ch'). flushed True c"
    by (rule flush_ok[OF h(1)])
  let ?v = "write_at (p_bytes pl) l xs"
  let ?ch = "ch'\<lparr>ch_dev := (ch_dev ch')\<lparr>dev_bytes := ?v\<rparr>\<rparr>"
  have len: "length ?v = length (p_bytes pl)" using l by simp
  have lk: "like ch ?ch" by (rule like_trans[OF ch'(2)]) simp
  have "channel_ok ?ch" by (rule channel_like[OF holdsD(1)[OF ch'(3)]]) (use len ch'(5) in simp_all)
  moreover have "cached_view (cbs ch') (coff ch') (cwt ch') (ch_cache ch') ?v {} ?v"
    using viewD(2)[OF holdsD(7)[OF ch'(3)]] ch'(6) by (intro view_empty) (auto simp: flushed_def)
  ultimately have "holds ?ch {} ?v" by (simp add: holds_def)
  moreover have "clock ?ch (8 * n)" using clock_kept[OF h(2), of ?ch] ch'(4) by simp
  ultimately have "stands_for n ?ch (pl\<lparr>p_bytes := ?v\<rparr>)" by (rule stands_for_like[OF s lk])
  then show ?thesis using that[OF ch'(1,2) holdsD(1)[OF ch'(3)] ch'(5)] ch'(5) by simp
qed

lemma write_ok:
  assumes s: "stands_for (Suc n) ch pl" and m: "may mem (Write b count data) pl"
  shows "\<exists>ch'. unix_write_blk ch b count data = Some (OK, ch') \<and> stands_for n ch'
      (pl\<lparr>p_bytes := write_at (p_bytes pl) (plain_at pl b) (take (nat (plain_size pl count)) data)\<rparr>)"
proof -
  note h = stands_forD[OF s]
  have ok: "checked ch = OK" by (rule holdsD(5)[OF h(1)])
  let ?xs = "take (nat (plain_size pl count)) data"
  have len: "length ?xs = nat (plain_size pl count)" using m by simp
  show ?thesis
  proof (cases "count < 0 \<or> WRITE_DIRECT_SIZE < count")
    case True
    have l: "plain_at pl b + length ?xs \<le> length (p_bytes pl)" using m len by simp
    obtain ch' where ch': "flush_cached_blocks ch True = Some (OK, ch')" "like ch ch'" "channel_ok ch'"
      "cdev ch' = p_bytes pl"
      and sf: "stands_for n (ch'\<lparr>ch_dev := (ch_dev ch')\<lparr>dev_bytes := write_at (cdev ch') (plain_at pl b) ?xs\<rparr>\<rparr>)
       (pl\<lparr>p_bytes := write_at (p_bytes pl) (plain_at pl b) ?xs\<rparr>)"
      by (rule direct_write_ok[OF s l])
    have at: "at ch' b = plain_at pl b" using h(5) like_fields[OF ch'(2)] by simp
    have "io_size ch' count = Some (nat (plain_size pl count))"
      using plain_size_io[OF s, of count] m io_size_like[OF ch'(2)] by simp
    from raw_write_ok[OF ch'(3) this, of b data]
    have "raw_write_blk ch' b count data = Some (OK, ch'\<lparr>ch_dev := (ch_dev ch')\<lparr>dev_bytes :=
        write_at (cdev ch') (plain_at pl b) ?xs\<rparr>\<rparr>)" using m at ch'(4) by simp
    then show ?thesis using True ok ch'(1) sf by (simp add: unix_write_blk_def)
  next
    case False
    then have c: "nat count \<le> 4" "\<not> count < 0" by (auto simp: WRITE_DIRECT_SIZE_def)
    have size: "nat (plain_size pl count) = nat count * cbs ch"
      using h(3) c(2) by (simp add: plain_size_def nat_mult_distrib)
    have room: "at ch b + nat count * cbs ch \<le> length (p_bytes pl)" using m size h(5) by simp
    let ?D = "if cwt ch then write_at (cdev ch) (at ch b) ?xs else cdev ch"
    let ?ch = "ch\<lparr>ch_dev := (ch_dev ch)\<lparr>dev_bytes := ?D\<rparr>\<rparr>" and ?v = "write_at (p_bytes pl) (at ch b) ?xs"
    have b: "holds ?ch (blocks b (nat count)) ?v"
      by (rule begin_write[OF h(1) room]) (use len size in simp)
    have first: "(if cwt ch then raw_write_blk ch b count data else Some (OK, ch)) = Some (OK, ?ch)"
      using raw_write_ok[OF holdsD(1)[OF h(1)] plain_size_io[OF s], of count b data] m h(5) holdsD(2)[OF h(1)] by simp
    have v: "part (at ch b) (nat count * cbs ch) ?v = ?xs"
      using part_write_at[of "at ch b" ?xs "p_bytes pl"] room len size by simp
    have "clock ch (nat count + 8 * n)" using clock_mono[OF h(2)] c(1) by simp
    then have "clock ?ch (nat count + 8 * n)" by (simp add: clock_def)
    moreover have "at ?ch b + nat count * cbs ?ch \<le> length ?v" using room len size by simp
    moreover have "take (nat count * cbs ?ch) data = part (at ?ch b) (nat count * cbs ?ch) ?v" using v size by simp
    ultimately obtain ch' where w: "write_cached_blocks (cwt ?ch) ?ch b (nat count) data = Some ch'"
      "like ?ch ch'" "holds ch' {} ?v" "clock ch' (8 * n)"
      using write_cached_blocks_ok[OF b order_refl] by blast
    have "like ch ch'" by (rule like_trans[OF _ w(2)]) simp
    from stands_for_like[OF s this w(3,4)] have sf: "stands_for n ch' (pl\<lparr>p_bytes := ?v\<rparr>)" .
    have "write_cached_blocks (cwt ch) ?ch b (nat count) data = Some ch'" using w(1) by simp
    then show ?thesis using False ok first sf h(5) by (simp add: unix_write_blk_def Let_def)
  qed
qed

lemma unix_write_byte_result:
  assumes "checked ch = OK" "flush_cached_blocks ch True = Some (OK, ch')" "sint (l + of_int (ch_offset ch')) = int p"
    and "0 \<le> k" "nat k \<le> length data" "dev_count (ch_dev ch') p (nat k) = nat k"
    and "dev_write (ch_dev ch') p (take (nat k) data) = d"
  shows "unix_write_byte ch l k data = Some (OK, ch'\<lparr>ch_dev := d\<rparr>)"
  using assms by (simp add: unix_write_byte_def Let_def)

lemma write_byte_ok:
  assumes s: "stands_for (Suc n) ch pl" and m: "may mem (Write_bytes l k data) pl"
  shows "\<exists>ch'. io_channel_write_byte ch l k data = Some (OK, ch') \<and> stands_for n ch'
      (pl\<lparr>p_bytes := write_at (p_bytes pl) (nat (p_off pl) + unat l) (take (nat k) data)\<rparr>)"
proof -
  note h = stands_forD[OF s]
  have ok: "checked ch = OK" by (rule holdsD(5)[OF h(1)])
  then have magic: "ch_magic ch = EXT2_ET_MAGIC_IO_CHANNEL" by (auto simp: checked_def split: if_split_asm)
  let ?l = "nat (p_off pl) + unat l" and ?xs = "take (nat k) data"
  have len: "length ?xs = nat k" using m by simp
  have room: "?l + length ?xs \<le> length (p_bytes pl)" using m len by simp
  obtain ch' where ch': "flush_cached_blocks ch True = Some (OK, ch')" "like ch ch'" "channel_ok ch'"
      "cdev ch' = p_bytes pl"
    and sf: "stands_for n (ch'\<lparr>ch_dev := (ch_dev ch')\<lparr>dev_bytes := write_at (cdev ch') ?l ?xs\<rparr>\<rparr>)
       (pl\<lparr>p_bytes := write_at (p_bytes pl) ?l ?xs\<rparr>)"
    by (rule direct_write_ok[OF s room])
  have off: "0 \<le> ch_offset ch" using holdsD(1)[OF h(1)] by (simp add: channel_ok_def)
  have lt: "?l < 2 ^ 63" using room holdsD(6)[OF h(1)] by linarith
  have sum: "l + of_int (ch_offset ch') = of_nat ?l"
    using h(4) like_fields(2)[OF ch'(2)] off by (simp add: add.commute)
  have u: "unat (of_nat ?l :: u64) = ?l" using lt by (simp add: unat_of_nat del: of_nat_add)
  have sint: "sint (of_nat ?l :: u64) = int ?l"
    using block_small(1)[of 1 0 "of_nat ?l" ?l] lt u by (simp add: extent_def del: of_nat_add)
  have at: "sint (l + of_int (ch_offset ch')) = int ?l" unfolding sum by (rule sint)
  have count: "dev_count (ch_dev ch') ?l (nat k) = nat k"
    using room len ch'(3,4) by (intro all_transferred) (auto simp: channel_ok_def)
  have dw: "dev_write (ch_dev ch') ?l ?xs = (ch_dev ch')\<lparr>dev_bytes := write_at (cdev ch') ?l ?xs\<rparr>"
    unfolding dev_write_def len count using m by simp
  have "unix_write_byte ch l k data
      = Some (OK, ch'\<lparr>ch_dev := (ch_dev ch')\<lparr>dev_bytes := write_at (cdev ch') ?l ?xs\<rparr>\<rparr>)"
    by (rule unix_write_byte_result[OF ok ch'(1) at _ _ count dw]) (use m in simp_all)
  then show ?thesis using sf magic by (simp add: io_channel_write_byte_def)
qed

lemma set_blksize_ok:
  assumes s: "stands_for (Suc n) ch pl" and m: "may mem (Set_size bs) pl"
  shows "\<exists>ch'. unix_set_blksize mem junk ch bs = Some (OK, ch') \<and> stands_for n ch' (pl\<lparr>p_bs := bs\<rparr>)"
proof -
  note h = stands_forD[OF s]
  have ok: "checked ch = OK" by (rule holdsD(5)[OF h(1)])
  show ?thesis
  proof (cases "ch_block_size ch = bs")
    case True
    then have "pl\<lparr>p_bs := bs\<rparr> = pl" using h(3) by simp
    moreover have "stands_for n ch pl" using s by (simp add: stands_for_def clock_def)
    ultimately show ?thesis using True ok by (simp add: unix_set_blksize_def)
  next
    case False
    obtain ch' where ch': "flush_cached_blocks ch False = Some (OK, ch')" "like ch ch'" "holds ch' {} (p_bytes pl)"
      "ch_access_time ch' = ch_access_time ch" "cdev ch' = p_bytes pl" by (rule flush_ok[OF h(1)])
    let ?c = "\<lparr>uc_buf = ext2fs_resize_mem junk (nat bs) [], uc_block = 0, uc_access_time = 0, uc_dirty = False, uc_in_use = False\<rparr>"
    let ?ch = "ch'\<lparr>ch_block_size := bs, ch_access_time := 0, ch_cache := replicate CACHE_SIZE ?c\<rparr>"
    have "alloc_cache mem junk (free_cache (ch'\<lparr>ch_block_size := bs\<rparr>)) = (OK, ?ch)"
      using m by (simp add: alloc_cache_def free_cache_def ext2fs_get_mem_def Let_def)
    then have "unix_set_blksize mem junk ch bs = Some (OK, ?ch)"
      using False ok ch'(1) by (simp add: unix_set_blksize_def)
    moreover have "channel_ok ?ch"
      using holdsD(1)[OF ch'(3)] m by (auto simp: channel_ok_def checked_def split: if_split_asm)
    moreover have "cached_view (nat bs) (coff ch') (cwt ch') (replicate CACHE_SIZE ?c) (cdev ch') {} (p_bytes pl)"
      unfolding ch'(5) by (rule view_empty) simp
    moreover have "clock ?ch (8 * n)" using s by (simp add: clock_def stands_for_def)
    moreover have "8 * n < 2147483648" "ch_refcount ch = 1" using s by (simp_all add: stands_for_def)
    ultimately show ?thesis using h(4) like_fields[OF ch'(2)] by (intro exI[of _ ?ch]) (simp add: stands_for_def holds_def)
  qed
qed

lemma flush_op_ok:
  assumes s: "stands_for (Suc n) ch pl"
  shows "\<exists>ch'. unix_flush ch = Some (OK, ch') \<and> stands_for n ch' pl"
proof -
  note h = stands_forD[OF s]
  have pl: "pl\<lparr>p_bytes := p_bytes pl\<rparr> = pl" by simp
  obtain ch' where ch': "flush_cached_blocks ch False = Some (OK, ch')" "like ch ch'" "holds ch' {} (p_bytes pl)"
    "ch_access_time ch' = ch_access_time ch" "cdev ch' = p_bytes pl" by (rule flush_ok[OF h(1)])
  have "stands_for n ch' pl" using stands_for_like[OF s ch'(2,3) clock_kept[OF h(2) ch'(4)]] pl by simp
  then show ?thesis using ch'(1) holdsD(5)[OF h(1)] by (simp add: unix_flush_def)
qed

lemma io_step_ok:
  assumes s: "stands_for (Suc n) ch pl" and m: "may mem p pl"
  shows "\<exists>r ch' pl'. io_step mem junk p ch = Some (r, ch') \<and> plain_step p pl = (r, pl') \<and> stands_for n ch' pl'"
proof (cases p)
  case (Read b count)
  then show ?thesis using read_ok[OF s, of mem b count] m by auto
next
  case (Write b count data)
  then show ?thesis using write_ok[OF s, of mem b count data] m by (auto simp: no_data_def)
next
  case (Write_bytes l k data)
  then show ?thesis using write_byte_ok[OF s, of mem l k data] m by (auto simp: no_data_def)
next
  case (Set_size bs)
  then show ?thesis using set_blksize_ok[OF s, of mem bs junk] m by (auto simp: no_data_def)
next
  case Flush
  then show ?thesis using flush_op_ok[OF s] by (auto simp: no_data_def)
qed

interpretation channel: contract stands_for "may mem" "io_step mem junk" plain_step for mem junk
  by unfold_locales (rule io_step_ok)

subsection \<open>Opening and closing\<close>

lemma open_result:
  assumes "unix_open mem junk open_dev (Some name) flags = Inr ch"
  obtains d where "open_dev name (flags AND 1 \<noteq> 0) = Inr d" "ch_dev ch = d" "mem 1024" "ch_block_size ch = 1024"
    "ch_offset ch = 0" "ch_access_time ch = 0" "ch_refcount ch = 1" "checked ch = OK"
    "ch_cache ch = replicate CACHE_SIZE \<lparr>uc_buf = ext2fs_resize_mem junk 1024 [], uc_block = 0,
       uc_access_time = 0, uc_dirty = False, uc_in_use = False\<rparr>"
  using assms
  by (auto simp: unix_open_def alloc_cache_def ext2fs_get_mem_def checked_def Let_def split: if_split_asm sum.split_asm)

lemma opened:
  assumes "unix_open mem junk open_dev (Some name) flags = Inr ch" "open_dev name (flags AND 1 \<noteq> 0) = Inr d"
    and "\<forall>p < length (dev_bytes d). \<not> dev_bad d p" "length (dev_bytes d) < 2 ^ 63" "8 * n < 2147483648"
  shows "stands_for n ch \<lparr>p_bs = 1024, p_off = 0, p_bytes = dev_bytes d\<rparr>"
proof -
  obtain d' where o: "open_dev name (flags AND 1 \<noteq> 0) = Inr d'" "ch_dev ch = d'" "ch_block_size ch = 1024"
    "ch_offset ch = 0" "ch_access_time ch = 0" "ch_refcount ch = 1" "checked ch = OK"
    "ch_cache ch = replicate CACHE_SIZE \<lparr>uc_buf = ext2fs_resize_mem junk 1024 [], uc_block = 0,
       uc_access_time = 0, uc_dirty = False, uc_in_use = False\<rparr>"
    using open_result[OF assms(1)] by metis
  have d: "d' = d" using o(1) assms(2) by simp
  have "channel_ok ch" using o d assms(3,4) by (simp add: channel_ok_def)
  moreover have "cached_view 1024 0 (cwt ch) (ch_cache ch) (dev_bytes d) {} (dev_bytes d)"
    by (rule view_empty) (simp add: o(8))
  ultimately show "stands_for n ch \<lparr>p_bs = 1024, p_off = 0, p_bytes = dev_bytes d\<rparr>"
    using o d assms(5) by (simp add: stands_for_def holds_def clock_def)
qed

lemma close_ok:
  assumes "stands_for n ch pl"
  shows "\<exists>d. unix_close ch = Some (OK, None, d) \<and> dev_bytes d = p_bytes pl"
proof -
  let ?ch = "ch\<lparr>ch_refcount := 0\<rparr>"
  have h: "holds ch {} (p_bytes pl)" and rc: "ch_refcount ch = 1" using assms by (simp_all add: stands_for_def)
  moreover have "checked ?ch = checked ch" by (simp add: checked_def)
  ultimately have "holds ?ch {} (p_bytes pl)" by (simp add: holds_def channel_ok_def)
  then obtain ch' where "flush_cached_blocks ?ch False = Some (OK, ch')" "cdev ch' = p_bytes pl" by (rule flush_ok)
  then show ?thesis using rc holdsD(5)[OF h] by (simp add: unix_close_def)
qed

subsection \<open>Properties\<close>


definition small_device :: device where
  "small_device = \<lparr>dev_bytes = replicate 16 0, dev_bad = \<lambda>_. False\<rparr>"

definition small_channel :: io_channel where
  "small_channel = projr (unix_open (\<lambda>_. True) (\<lambda>_. 0) (\<lambda>_ _. Inr small_device) (Some ''d'') 1)"


definition failing_channel :: io_channel where
  \<comment> \<open>A channel with blocks of 4 bytes on a device of 64 bytes, of which the byte 4 is bad.\<close>
  "failing_channel = snd (alloc_cache (\<lambda>_. True) (\<lambda>_. 0)
     \<lparr>ch_magic = EXT2_ET_MAGIC_IO_CHANNEL, ch_name = ''d'', ch_block_size = 4,
      ch_read_error = None, ch_write_error = None, ch_refcount = 1, ch_flags = 0,
      ch_data_magic = EXT2_ET_MAGIC_UNIX_IO_CHANNEL,
      ch_dev = \<lparr>dev_bytes = replicate 64 0, dev_bad = \<lambda>p. p = 4\<rparr>,
      ch_access_time = 0, ch_offset = 0, ch_cache = []\<rparr>)"

text \<open>A block that cannot be written is lost without a word when it is evicted from the cache. The device
  has 64 bytes, in blocks of 4, and the byte 4 is bad. The write of block 1 succeeds, into the cache; after
  writes to eight other blocks its entry is gone; flushing and closing report no error, but the
  device never got the block.\<close>
theorem evicted_write_lost:
  "(case run_steps (io_step (\<lambda>_. True) (\<lambda>_. 0))
       (Write 1 1 [1, 2, 3, 4] # map (\<lambda>b. Write b 1 [5, 6, 7, 8]) [2, 3, 4, 5, 6, 7, 8, 9] @ [Flush])
       failing_channel of
     None \<Rightarrow> False
   | Some (rs, ch) \<Rightarrow> list_all (\<lambda>r. r = (OK, [])) rs \<and>
       (case unix_close ch of
          None \<Rightarrow> False
        | Some (e, _, d) \<Rightarrow> e = OK \<and> take 12 (dev_bytes d) = [0, 0, 0, 0, 0, 0, 0, 0, 5, 6, 7, 8]))"
  by code_simp

end
