(* ===== verification/Ext2_Accounts.thy ===== *)
theory Ext2_Accounts
  imports Ext2_Filsys Unix_Io_Contract
begin

unbundle bit_operations_syntax

text \<open>
  The books of the filesystem: the counts of free blocks in the groups and in the superblock are the
  numbers of clear bits of the block bitmap. Allocating a block and changing its state keep them,
  and the block that is allocated is zero on the device, seen through the cache of the channel.
\<close>

definition blk_in :: "ext2_fs \<Rightarrow> u32 \<Rightarrow> bool" where
  "blk_in fs b \<longleftrightarrow> s_first_data_block fs \<le> b \<and> b < s_blocks_count fs"

definition blk_group :: "ext2_fs \<Rightarrow> u32 \<Rightarrow> nat" where
  "blk_group fs b = unat ((b - s_first_data_block fs) div s_blocks_per_group fs)"

definition free_blocks :: "ext2_fs \<Rightarrow> u32 set \<Rightarrow> u32 set" where
  "free_blocks fs A = {b. blk_in fs b \<and> b \<notin> A}"

definition free_in_group :: "ext2_fs \<Rightarrow> u32 set \<Rightarrow> nat \<Rightarrow> u32 set" where
  "free_in_group fs A k = {b \<in> free_blocks fs A. blk_group fs b = k}"

definition books :: "ext2_fs \<Rightarrow> u32 set \<Rightarrow> bool" where
  \<comment> \<open>The blocks of \<open>A\<close> are in use, and all counts say so.\<close>
  "books fs A \<longleftrightarrow> fs_magic fs = EXT2_ET_MAGIC_EXT2FS_FILSYS
     \<and> (\<exists>bm. block_map fs = Some bm \<and> bm_over (s_first_data_block fs) (s_blocks_count fs - 1) bm \<and> bm_set bm = A)
     \<and> 0 < s_blocks_per_group fs \<and> s_blocks_per_group fs < 65536 \<and> s_first_data_block fs < s_blocks_count fs
     \<and> length (group_desc fs) < 2 ^ 31 \<and> (\<forall>b. blk_in fs b \<longrightarrow> blk_group fs b < length (group_desc fs))
     \<and> (\<forall>k < length (group_desc fs). unat (bg_free_blocks_count (group_desc fs ! k)) = card (free_in_group fs A k))
     \<and> unat (s_free_blocks_count fs) = card (free_blocks fs A)"

lemma finite_free [simp]: "finite (free_blocks fs A)" "finite (free_in_group fs A k)"
  by (simp_all add: free_blocks_def free_in_group_def)

lemma blk_in_le: "s_first_data_block fs < s_blocks_count fs \<Longrightarrow> blk_in fs b \<longleftrightarrow> s_first_data_block fs \<le> b \<and> b \<le> s_blocks_count fs - 1"
proof -
  assume "s_first_data_block fs < s_blocks_count fs"
  then have nz: "s_blocks_count fs \<noteq> 0" by auto
  then have "0 < unat (s_blocks_count fs)" "unat (s_blocks_count fs - 1) = unat (s_blocks_count fs) - 1"
    by (simp_all add: unat_gt_0 unat_minus_one)
  then show ?thesis unfolding blk_in_def word_le_nat_alt word_less_nat_alt by linarith
qed

lemma free_insert:
  "blk_in fs b \<Longrightarrow> b \<notin> A \<Longrightarrow> free_blocks fs A = insert b (free_blocks fs (insert b A)) \<and> b \<notin> free_blocks fs (insert b A)"
  by (auto simp: free_blocks_def)

lemma free_group_insert:
  "blk_in fs b \<Longrightarrow> b \<notin> A \<Longrightarrow> free_in_group fs A k
    = (if blk_group fs b = k then insert b (free_in_group fs (insert b A) k) else free_in_group fs (insert b A) k)
    \<and> b \<notin> free_in_group fs (insert b A) k"
  by (auto simp: free_in_group_def free_blocks_def)

subsection \<open>A block changes hands\<close>

text \<open>The fields the statistics do not touch.\<close>

definition same_geometry :: "ext2_fs \<Rightarrow> ext2_fs \<Rightarrow> bool" where
  "same_geometry fs fs' \<longleftrightarrow> fs_magic fs' = fs_magic fs \<and> s_first_data_block fs' = s_first_data_block fs
     \<and> s_blocks_count fs' = s_blocks_count fs \<and> s_blocks_per_group fs' = s_blocks_per_group fs
     \<and> length (group_desc fs') = length (group_desc fs) \<and> fs_blocksize fs' = fs_blocksize fs"

lemma same_geometry_free:
  assumes "same_geometry fs fs'"
  shows "blk_in fs' b = blk_in fs b" "blk_group fs' b = blk_group fs b" "free_blocks fs' A = free_blocks fs A"
    "free_in_group fs' A k = free_in_group fs A k"
  using assms by (simp_all add: same_geometry_def blk_in_def blk_group_def free_blocks_def free_in_group_def)

lemma stats_result:
  assumes "books fs A" "blk_in fs b"
  obtains bm bm' fs' where "ext2fs_block_alloc_stats fs b inuse = Some fs'" "same_geometry fs fs'"
    "block_map fs' = Some bm'" "bm_over (s_first_data_block fs) (s_blocks_count fs - 1) bm'"
    "bm_set bm' = (if 0 < inuse then insert b A else A - {b})" "fs_io fs' = fs_io fs"
    "group_desc fs' = (group_desc fs)[blk_group fs b := (group_desc fs ! blk_group fs b)
       \<lparr>bg_free_blocks_count := bg_free_blocks_count (group_desc fs ! blk_group fs b) - of_int inuse\<rparr>]"
    "s_free_blocks_count fs' = s_free_blocks_count fs - of_int inuse"
    "fs_flags fs' = fs_flags (ext2fs_mark_bb_dirty (ext2fs_mark_super_dirty fs))"
proof -
  note bk = assms(1)[unfolded books_def]
  obtain bm where bm: "block_map fs = Some bm" "bm_over (s_first_data_block fs) (s_blocks_count fs - 1) bm" "bm_set bm = A"
    using bk by blast
  have range: "bm_start bm \<le> b" "b \<le> bm_end bm" "bm_ok bm"
    using assms(2) blk_in_le[of fs b] bk bm(2) by (simp_all add: bm_over_def)
  obtain r bm' where m: "(if 0 < inuse then ext2fs_mark_generic_bitmap bm b else ext2fs_unmark_generic_bitmap bm b) = Some (r, bm')"
    "bm_set bm' = (if 0 < inuse then insert b A else A - {b})" "bm_ok bm'" "bm_start bm' = bm_start bm"
    "bm_end bm' = bm_end bm" "bm_real_end bm' = bm_real_end bm"
  proof (cases "0 < inuse")
    case True
    show ?thesis
      by (rule mark_result[OF range(3,1,2)]) (use True bm(3) that in force)
  next
    case False
    show ?thesis
      by (rule unmark_result[OF range(3,1,2)]) (use False bm(3) that in force)
  qed
  let ?k = "blk_group fs b"
  have k: "?k < length (group_desc fs)" using bk assms(2) by blast
  have "sint ((b - s_first_data_block fs) div s_blocks_per_group fs) = int ?k"
  proof -
    have "?k < 2 ^ 31" using k bk by linarith
    then show ?thesis unfolding blk_group_def by (rule sint_unat_small)
  qed
  then have g: "ext2fs_group_of_blk fs b = Some (int ?k)" using bk by (auto simp: ext2fs_group_of_blk_def)
  show ?thesis
    by (rule that[of "ext2fs_mark_bb_dirty (ext2fs_mark_super_dirty (fs\<lparr>block_map := Some bm',
          group_desc := (group_desc fs)[?k := (group_desc fs ! ?k)\<lparr>bg_free_blocks_count := bg_free_blocks_count (group_desc fs ! ?k) - of_int inuse\<rparr>],
          s_free_blocks_count := s_free_blocks_count fs - of_int inuse\<rparr>))" bm'])
       (use g bm m k in \<open>simp_all add: ext2fs_block_alloc_stats_def upd_group_def same_geometry_def bm_over_def
          ext2fs_mark_bb_dirty_def ext2fs_mark_super_dirty_def Let_def\<close>)
qed

text \<open>The counts fit their fields.\<close>

lemma free_count_fits: "card (free_blocks fs A) < 2 ^ 32"
proof -
  have "card (free_blocks fs A) \<le> card {..<unat (s_blocks_count fs)}"
    by (rule card_inj_on_le[of unat]) (auto simp: free_blocks_def blk_in_def word_less_nat_alt inj_on_def word_unat_eq_iff)
  also have "\<dots> < 2 ^ 32" using unsigned_less[of "s_blocks_count fs", where 'a = nat] by simp
  finally show ?thesis .
qed

lemma group_count_fits:
  assumes "0 < s_blocks_per_group fs" "s_blocks_per_group fs < 65536"
  shows "card (free_in_group fs A k) < 2 ^ 16"
proof -
  let ?n = "unat (s_blocks_per_group fs)"
  have n: "0 < ?n" "?n < 2 ^ 16" using assms by (simp_all add: unat_gt_0 word_less_nat_alt)
  have "inj_on (\<lambda>b. unat (b - s_first_data_block fs) mod ?n) (free_in_group fs A k)"
  proof (rule inj_onI)
    fix b c
    assume b: "b \<in> free_in_group fs A k" and c: "c \<in> free_in_group fs A k"
      and m: "unat (b - s_first_data_block fs) mod ?n = unat (c - s_first_data_block fs) mod ?n"
    have "unat (b - s_first_data_block fs) div ?n = k" "unat (c - s_first_data_block fs) div ?n = k"
      using b c by (simp_all add: free_in_group_def blk_group_def unat_div)
    then have "unat (b - s_first_data_block fs) = unat (c - s_first_data_block fs)" using m by (metis div_mult_mod_eq)
    then show "b = c" by (simp add: word_unat_eq_iff[symmetric])
  qed
  then have "card (free_in_group fs A k) \<le> card {..<?n}" by (rule card_inj_on_le) (use n in auto)
  then show ?thesis using n by simp
qed

lemma mark_keeps_books:
  assumes "books fs A" "blk_in fs b" "b \<notin> A"
  shows "\<exists>fs'. ext2fs_block_alloc_stats fs b 1 = Some fs' \<and> books fs' (insert b A) \<and> same_geometry fs fs' \<and> fs_io fs' = fs_io fs"
proof -
  note bk = assms(1)[unfolded books_def]
  obtain bm' fs' where r: "ext2fs_block_alloc_stats fs b 1 = Some fs'" "same_geometry fs fs'"
    "block_map fs' = Some bm'" "bm_over (s_first_data_block fs) (s_blocks_count fs - 1) bm'"
    "bm_set bm' = insert b A" "fs_io fs' = fs_io fs"
    "group_desc fs' = (group_desc fs)[blk_group fs b := (group_desc fs ! blk_group fs b)
       \<lparr>bg_free_blocks_count := bg_free_blocks_count (group_desc fs ! blk_group fs b) - 1\<rparr>]"
    "s_free_blocks_count fs' = s_free_blocks_count fs - 1"
    by (rule stats_result[OF assms(1,2), of 1]) simp
  let ?k = "blk_group fs b"
  note g = same_geometry_free[OF r(2)]
  have k: "?k < length (group_desc fs)" using bk assms(2) by blast
  have "unat (bg_free_blocks_count (group_desc fs' ! j)) = card (free_in_group fs (insert b A) j)"
    if j: "j < length (group_desc fs)" for j
  proof -
    have old: "unat (bg_free_blocks_count (group_desc fs ! j)) = card (free_in_group fs A j)" using bk j by blast
    show ?thesis
    proof (cases "j = ?k")
      case True
      then have "card (free_in_group fs A j) = Suc (card (free_in_group fs (insert b A) j))"
        using free_group_insert[OF assms(2,3), of j] by simp
      then show ?thesis using old r(7) True k unat_minus_1[of "bg_free_blocks_count (group_desc fs ! j)"] by simp
    next
      case False
      then show ?thesis using old r(7) free_group_insert[OF assms(2,3), of j] by simp
    qed
  qed
  moreover have "unat (s_free_blocks_count fs') = card (free_blocks fs (insert b A))"
  proof -
    have "card (free_blocks fs A) = Suc (card (free_blocks fs (insert b A)))" using free_insert[OF assms(2,3)] by simp
    then show ?thesis using bk r(8) unat_minus_1[of "s_free_blocks_count fs"] by simp
  qed
  ultimately have "books fs' (insert b A)"
    using bk r(2-5) g unfolding books_def by (simp add: same_geometry_def)
  then show ?thesis using r(1,2,6) by blast
qed

lemma unmark_keeps_books:
  assumes "books fs A" "blk_in fs b" "b \<in> A"
  shows "\<exists>fs'. ext2fs_block_alloc_stats fs b (- 1) = Some fs' \<and> books fs' (A - {b}) \<and> same_geometry fs fs' \<and> fs_io fs' = fs_io fs"
proof -
  note bk = assms(1)[unfolded books_def]
  obtain bm' fs' where r: "ext2fs_block_alloc_stats fs b (- 1) = Some fs'" "same_geometry fs fs'"
    "block_map fs' = Some bm'" "bm_over (s_first_data_block fs) (s_blocks_count fs - 1) bm'"
    "bm_set bm' = A - {b}" "fs_io fs' = fs_io fs"
    "group_desc fs' = (group_desc fs)[blk_group fs b := (group_desc fs ! blk_group fs b)
       \<lparr>bg_free_blocks_count := bg_free_blocks_count (group_desc fs ! blk_group fs b) + 1\<rparr>]"
    "s_free_blocks_count fs' = s_free_blocks_count fs + 1"
    by (rule stats_result[OF assms(1,2), of "- 1"]) simp
  let ?k = "blk_group fs b"
  note g = same_geometry_free[OF r(2)]
  have A: "insert b (A - {b}) = A" using assms(3) by auto
  have k: "?k < length (group_desc fs)" using bk assms(2) by blast
  have fits: "card (free_in_group fs (A - {b}) j) < 2 ^ 16" for j using bk by (intro group_count_fits) simp_all
  have "unat (bg_free_blocks_count (group_desc fs' ! j)) = card (free_in_group fs (A - {b}) j)"
    if j: "j < length (group_desc fs)" for j
  proof -
    have old: "unat (bg_free_blocks_count (group_desc fs ! j)) = card (free_in_group fs A j)" using bk j by blast
    show ?thesis
    proof (cases "j = ?k")
      case True
      then have "card (free_in_group fs (A - {b}) j) = Suc (card (free_in_group fs A j))"
        using free_group_insert[OF assms(2), of "A - {b}" j] A by simp
      then show ?thesis using old r(7) True k fits[of j] unat_plus_1[of "bg_free_blocks_count (group_desc fs ! j)"] by simp
    next
      case False
      then show ?thesis using old r(7) free_group_insert[OF assms(2), of "A - {b}" j] A by simp
    qed
  qed
  moreover have "unat (s_free_blocks_count fs') = card (free_blocks fs (A - {b}))"
  proof -
    have "card (free_blocks fs (A - {b})) = Suc (card (free_blocks fs A))"
      using free_insert[OF assms(2), of "A - {b}"] A by simp
    then show ?thesis using bk r(8) free_count_fits[of fs "A - {b}"] unat_plus_1[of "s_free_blocks_count fs"] by simp
  qed
  ultimately have "books fs' (A - {b})"
    using bk r(2-5) g unfolding books_def by (simp add: same_geometry_def)
  then show ?thesis using r(1,2,6) by blast
qed

subsection \<open>Properties\<close>

text \<open>C29. Allocation keeps the books. In a filesystem whose counts of free blocks, in every group and in the
  superblock, are the numbers of clear bits, \<open>ext2fs_alloc_block\<close> returns a block that was free,
  marks it, decreases both counts, and the block is zero on the device as the channel shows it, with
  every other byte as before; releasing the block again restores the old set with its counts. Only
  when no block is free does it fail, and then nothing has changed.\<close>
theorem alloc_block_books:
  assumes "books fs A" "stands_for (Suc n) (fs_io fs) pl" "p_bs pl = uint (fs_blocksize fs)" "uint (fs_blocksize fs) < 2 ^ 31"
    and "\<forall>b. blk_in fs b \<longrightarrow> plain_at pl (ucast b) + unat (fs_blocksize fs) \<le> length (p_bytes pl)"
    and "mem (unat (fs_blocksize fs))" "goal = 0 \<or> s_first_data_block fs \<le> goal"
  shows "(\<exists>b fs'. ext2fs_alloc_block mem fs goal None = Some (Inr b, fs') \<and> blk_in fs b \<and> b \<notin> A \<and> books fs' (insert b A)
        \<and> stands_for n (fs_io fs') (pl\<lparr>p_bytes := write_at (p_bytes pl) (plain_at pl (ucast b)) (replicate (unat (fs_blocksize fs)) 0)\<rparr>)
        \<and> (\<exists>fs''. ext2fs_block_alloc_stats fs' b (- 1) = Some fs'' \<and> books fs'' A))
    \<or> ext2fs_alloc_block mem fs goal None = Some (Inl EXT2_ET_BLOCK_ALLOC_FAIL, fs) \<and> free_blocks fs A = {}"
proof -
  note bk = assms(1)[unfolded books_def]
  let ?n = "unat (fs_blocksize fs)" and ?buf = "replicate (unat (fs_blocksize fs)) (0 :: u8)"
  obtain bm where bm: "block_map fs = Some bm" "bm_over (s_first_data_block fs) (s_blocks_count fs - 1) bm" "bm_set bm = A"
    using bk by blast
  have magic: "fs_magic fs = EXT2_ET_MAGIC_EXT2FS_FILSYS" and "s_first_data_block fs < s_blocks_count fs" using bk by blast+
  then have pos: "0 < s_blocks_count fs" by (rule_tac order_le_less_trans[rotated]) simp_all
  have alloc: "ext2fs_alloc_block mem fs goal None = do {
       r \<leftarrow> ext2fs_new_block fs goal None;
       case r of
         Inl e \<Rightarrow> Some (Inl e, fs)
       | Inr block \<Rightarrow> do {
           (e, ch) \<leftarrow> io_channel_write_blk (fs_io fs) block ?buf;
           let fs = fs\<lparr>fs_io := ch\<rparr>;
           if e \<noteq> OK then Some (Inl e, fs)
           else do { fs \<leftarrow> ext2fs_block_alloc_stats fs block 1; Some (Inr block, fs) } } }"
    using assms(6) bm(1) by (simp add: ext2fs_alloc_block_def ext2fs_get_mem_def)
  show ?thesis
    using new_block_result[OF magic bm(1,2) pos assms(7)]
  proof (elim disjE exE conjE)
    fix b assume b: "ext2fs_new_block fs goal None = Some (Inr b)" "s_first_data_block fs \<le> b" "b < s_blocks_count fs" "b \<notin> bm_set bm"
    then have inb: "blk_in fs b" "b \<notin> A" using bm(3) by (simp_all add: blk_in_def)
    have size: "plain_size pl 1 = int ?n" using assms(3) by (simp add: plain_size_def)
    have "may mem (Write (ucast b) 1 ?buf) pl" using size assms(4,5) inb(1) by simp
    from write_ok[OF assms(2) this] obtain ch where ch: "unix_write_blk (fs_io fs) (ucast b) 1 ?buf = Some (OK, ch)"
      "stands_for n ch (pl\<lparr>p_bytes := write_at (p_bytes pl) (plain_at pl (ucast b)) ?buf\<rparr>)" using size by auto
    let ?fs = "fs\<lparr>fs_io := ch\<rparr>"
    have io: "books ?fs X \<longleftrightarrow> books fs X" "blk_in ?fs = blk_in fs" for X
      by (simp_all add: books_def blk_in_def blk_group_def free_blocks_def free_in_group_def fun_eq_iff)
    obtain fs' where fs': "ext2fs_block_alloc_stats ?fs b 1 = Some fs'" "books fs' (insert b A)" "same_geometry ?fs fs'" "fs_io fs' = ch"
      using mark_keeps_books[of ?fs A b] io assms(1) inb by auto
    have "blk_in fs' b" using same_geometry_free(1)[OF fs'(3)] io(2) inb(1) by simp
    then obtain fs'' where fs'': "ext2fs_block_alloc_stats fs' b (- 1) = Some fs''" "books fs'' (insert b A - {b})"
      using unmark_keeps_books[OF fs'(2), of b] by blast
    have "insert b A - {b} = A" using inb(2) by simp
    then show ?thesis using alloc b(1) ch fs' fs'' inb by (simp add: io_channel_write_blk_def)
  next
    assume "ext2fs_new_block fs goal None = Some (Inl EXT2_ET_BLOCK_ALLOC_FAIL)"
      "\<forall>b. s_first_data_block fs \<le> b \<and> b < s_blocks_count fs \<longrightarrow> b \<in> bm_set bm"
    then show ?thesis using alloc bm(3) by (auto simp: free_blocks_def blk_in_def)
  qed
qed

text \<open>A filesystem of the blocks 1 to 4 in blocks of 4 bytes; 1 and 3 are in use.\<close>

definition small_super :: ext2_super_block where
  "small_super = \<lparr>s_r_blocks_count = 0, s_log_block_size = 0, s_log_frag_size = 0, s_frags_per_group = 8, s_mtime = 0, s_wtime = 0,
     s_mnt_count = 0, s_max_mnt_count = 20, s_magic = 0xEF53, s_state = 1, s_errors = 1, s_minor_rev_level = 0, s_lastcheck = 0,
     s_checkinterval = 0, s_creator_os = 0, s_rev_level = 0, s_def_resuid = 0, s_def_resgid = 0, s_first_ino_field = 0,
     s_inode_size = 0, s_block_group_nr = 0, s_feature_compat = 0, s_feature_incompat = 0, s_feature_ro_compat = 0,
     s_uuid_names = replicate 102 0, s_reserved_gdt_blocks = 0, s_journal = replicate 52 0, s_first_meta_bg = 0,
     s_mkfs_time = 0, s_reserved = replicate 756 0\<rparr>"

definition small_fs :: ext2_fs where
  "small_fs = \<lparr>fs_magic = EXT2_ET_MAGIC_EXT2FS_FILSYS, s_inodes_count = 8, s_blocks_count = 5,
     s_first_data_block = 1, s_inodes_per_group = 8, s_blocks_per_group = 8, s_first_ino = 1,
     group_desc_count = 1, inode_map = None, block_map = Some
       \<lparr>bm_magic = EXT2_ET_MAGIC_BLOCK_BITMAP, bm_start = 1, bm_end = 4, bm_real_end = 8,
        bm_description = None, bm_bytes = [5], bm_error = EXT2_ET_BAD_BLOCK_MARK\<rparr>,
     fs_io = small_channel\<lparr>ch_block_size := 4, ch_cache := replicate 8
       \<lparr>uc_buf = [0, 0, 0, 0], uc_block = 0, uc_access_time = 0, uc_dirty = False, uc_in_use = False\<rparr>,
       ch_dev := \<lparr>dev_bytes = replicate 20 7, dev_bad = \<lambda>_. False\<rparr>\<rparr>,
     fs_flags = EXT2_FLAG_RW, fs_device_name = ''d'', s_free_blocks_count = 2, s_free_inodes_count = 8,
     fs_super = small_super, fs_blocksize = 4, fs_fragsize = 4, desc_blocks = 1, group_desc = [\<lparr>bg_block_bitmap = 0, bg_inode_bitmap = 0, bg_inode_table = 0,
       bg_free_blocks_count = 2, bg_free_inodes_count = 8, bg_used_dirs_count = 0, bg_unused = replicate 14 0\<rparr>], desc_rest = [],
     inode_blocks_per_group = 1, fs_stride = 0, fs_umask = 0,
     image_header = \<lparr>magic_number = 0, image_blocksize = 0, offset_inodemap = 0, offset_blockmap = 0\<rparr>, image_io = small_channel,
     orig_super = None\<rparr>"

definition small_plain :: plain where
  "small_plain = \<lparr>p_bs = 4, p_off = 0, p_bytes = replicate 20 7\<rparr>"

lemma small_blk_in: "blk_in small_fs b \<longleftrightarrow> b \<in> {1, 2, 3, 4}"
proof -
  have "blk_in small_fs b \<longleftrightarrow> 1 \<le> unat b \<and> unat b < 5"
    by (simp add: blk_in_def small_fs_def word_le_nat_alt word_less_nat_alt)
  also have "\<dots> \<longleftrightarrow> unat b \<in> {1, 2, 3, 4}" by auto
  also have "\<dots> \<longleftrightarrow> b \<in> {1, 2, 3, 4}" by (simp add: word_unat_eq_iff)
  finally show ?thesis .
qed

lemma small_free: "free_blocks small_fs {1, 3} = {2, 4}"
  unfolding free_blocks_def small_blk_in by auto

lemma small_books: "books small_fs {1, 3}"
proof -
  have set: "bm_set (the (block_map small_fs)) = {1, 3}"
  proof -
    have "b \<in> bm_set (the (block_map small_fs)) \<longleftrightarrow> b \<in> {1, 3}" for b
    proof (cases "blk_in small_fs b")
      case True
      then show ?thesis unfolding small_blk_in
        by (auto simp: bm_set_def bm_bit_def bitget_def small_fs_def bit_numeral_rec)
    next
      case False
      then have "b \<notin> {1, 3}" unfolding small_blk_in by auto
      moreover have "\<not> (1 \<le> b \<and> b \<le> 4)" using False blk_in_le[of small_fs b] by (simp add: small_fs_def)
      ultimately show ?thesis by (auto simp: bm_set_def small_fs_def)
    qed
    then show ?thesis by auto
  qed
  note free = small_free
  have group: "blk_group small_fs b = 0" if "blk_in small_fs b" for b
    using that unfolding small_blk_in by (auto simp: blk_group_def small_fs_def)
  have "free_in_group small_fs {1, 3} 0 = {2, 4}"
    using group free small_blk_in unfolding free_in_group_def by auto
  then show ?thesis unfolding books_def using set free group
    by (auto simp: small_fs_def bm_over_def bm_ok_def map_bytes_def)
qed

lemma small_stands: "n < 1000 \<Longrightarrow> stands_for n (fs_io small_fs) small_plain"
proof -
  assume "n < 1000"
  have "cached_view 4 0 wt (replicate 8 \<lparr>uc_buf = [0, 0, 0, 0], uc_block = 0, uc_access_time = 0, uc_dirty = False, uc_in_use = False\<rparr>)
      (replicate 20 7) {} (replicate 20 7)" for wt by (rule view_empty) simp
  with \<open>n < 1000\<close> show ?thesis
    by (simp add: stands_for_def holds_def channel_ok_def small_plain_def small_fs_def small_channel_def unix_open_def alloc_cache_def
        ext2fs_get_mem_def checked_def clock_def CACHE_SIZE_def Let_def)
qed

theorem alloc_block_books_witness:
  "\<exists>b fs'. ext2fs_alloc_block (\<lambda>_. True) small_fs 0 None = Some (Inr b, fs') \<and> b \<in> {2, 4} \<and> books fs' (insert b {1, 3})"
proof -
  have free: "free_blocks small_fs {1, 3} \<noteq> {}" "blk_in small_fs b \<and> b \<notin> {1, 3} \<longrightarrow> b \<in> {2, 4}" for b
    using small_free unfolding free_blocks_def by blast+
  have at: "\<forall>b. blk_in small_fs b \<longrightarrow> plain_at small_plain (ucast b) + unat (fs_blocksize small_fs) \<le> length (p_bytes small_plain)"
    unfolding small_blk_in by (auto simp: small_fs_def small_plain_def plain_at_def extent_def)
  have bs: "p_bs small_plain = uint (fs_blocksize small_fs)" "uint (fs_blocksize small_fs) < 2 ^ 31" "Suc 0 < 1000"
    by (simp_all add: small_fs_def small_plain_def)
  show ?thesis
    using alloc_block_books[where mem = "\<lambda>_. True" and goal = 0, OF small_books small_stands[OF bs(3)] bs(1,2) at TrueI disjI1[OF refl]]
      free by blast
qed

end
