(* ===== verification/Ext2_Format.thy ===== *)
theory Ext2_Format
  imports Ext2_Initialize Ext2_Accounts
begin

unbundle bit_operations_syntax

text \<open>
  A new filesystem is in order: after \<open>ext2fs_initialize\<close> and \<open>ext2fs_allocate_tables\<close> the counts
  of free blocks agree with the bitmap, and the check of the descriptors accepts them. In
  every group the blocks in use are the first ones: the superblock and the group
  descriptors, the two bitmaps, the inode table.
\<close>

subsection \<open>Groups with a superblock\<close>

lemma root_loop_result:
  assumes "1 < b" "1 \<le> a"
  shows "root_loop b a = Some (\<exists>k. a = b ^ k)"
  using assms(2)
proof (induction "nat a" arbitrary: a rule: less_induct)
  case less
  note step = root_loop.simps[of b a]
  consider "a = 1" | "a \<noteq> 1" "a mod b \<noteq> 0" | "a \<noteq> 1" "a mod b = 0" by linarith
  then show ?case
  proof cases
    case 1
    then show ?thesis by (subst step) (auto intro: exI[of _ 0])
  next
    case 2
    have "a \<noteq> b ^ k" for k using 2 by (cases k) auto
    then show ?thesis using 2 assms(1) less.prems by (simp add: step signed_modulo_int_def)
  next
    case 3
    define q where "q = a div b"
    have a: "a = b * q" using 3(2) by (auto simp: q_def)
    have q: "1 \<le> q" using less.prems assms(1) unfolding a by (simp add: zero_less_mult_iff int_one_le_iff_zero_less)
    have "q < a" using q assms(1) unfolding a by simp
    then have IH: "root_loop b q = Some (\<exists>k. q = b ^ k)" using q by (intro less.hyps) simp_all
    have "(\<exists>k. a = b ^ k) \<longleftrightarrow> (\<exists>k. q = b ^ k)"
    proof
      assume "\<exists>k. a = b ^ k"
      then obtain k where k: "a = b ^ k" by blast
      then show "\<exists>k. q = b ^ k" using 3(1) a assms(1) by (cases k) auto
    next
      assume "\<exists>k. q = b ^ k"
      then obtain k where "q = b ^ k" by blast
      then show "\<exists>k. a = b ^ k" using a by (intro exI[of _ "Suc k"]) simp
    qed
    moreover have "a sdiv b = q" using less.prems assms(1) by (simp add: signed_divide_int_def sgn_if q_def)
    ultimately show ?thesis using 3 assms(1) less.prems IH by (simp add: step signed_modulo_int_def)
  qed
qed

definition sparse_super :: "ext2_fs \<Rightarrow> bool" where
  "sparse_super fs \<longleftrightarrow> s_feature_ro_compat (fs_super fs) AND EXT2_FEATURE_RO_COMPAT_SPARSE_SUPER \<noteq> 0"

lemma bg_has_super_result:
  assumes "0 \<le> g"
  shows "ext2fs_bg_has_super fs g
    = Some (\<not> sparse_super fs \<or> g = 0 \<or> (\<exists>k. g = 3 ^ k) \<or> (\<exists>k. g = 5 ^ k) \<or> (\<exists>k. g = 7 ^ k))"
proof (cases "g = 0")
  case False
  then have "1 \<le> g" using assms by simp
  then show ?thesis using False by (simp add: ext2fs_bg_has_super_def sparse_super_def test_root_def root_loop_result)
qed (simp add: ext2fs_bg_has_super_def sparse_super_def test_root_def)

text \<open>C33. The groups with a copy of the superblock: all of them, unless the filesystem has the feature \<open>sparse_super\<close>; then
  group 0 and the groups whose number is a power of 3, 5 or 7. The divisions of \<open>test_root\<close> end for every group.\<close>
theorem superblock_copies:
  "ext2fs_bg_has_super fs (int n) =
     (if sparse_super fs then Some (n = 0 \<or> (\<exists>k. n = 3 ^ k) \<or> (\<exists>k. n = 5 ^ k) \<or> (\<exists>k. n = 7 ^ k)) else Some True)"
proof -
  have pow: "(\<exists>k. int n = int b ^ k) \<longleftrightarrow> (\<exists>k. n = b ^ k)" for b by (metis of_nat_eq_iff of_nat_power)
  show ?thesis using bg_has_super_result[of "int n" fs] pow[of 3] pow[of 5] pow[of 7] by simp
qed

subsection \<open>Groups filled from the front\<close>

abbreviation groups :: "ext2_fs \<Rightarrow> nat" where
  "groups fs \<equiv> unat (group_desc_count fs)"

definition gstart :: "ext2_fs \<Rightarrow> nat \<Rightarrow> nat" where
  "gstart fs i = unat (s_first_data_block fs) + i * unat (s_blocks_per_group fs)"

definition gend :: "ext2_fs \<Rightarrow> nat \<Rightarrow> nat" where
  "gend fs i = min (gstart fs (Suc i)) (unat (s_blocks_count fs))"

definition grouped :: "ext2_fs \<Rightarrow> bool" where
  \<comment> \<open>The blocks are divided into groups, of which only the last one may be shorter.\<close>
  "grouped fs \<longleftrightarrow> 0 < groups fs \<and> groups fs < 2 ^ 31 \<and> 0 < unat (s_blocks_per_group fs) \<and> unat (s_blocks_per_group fs) < 65536
     \<and> gstart fs (groups fs - 1) < unat (s_blocks_count fs) \<and> unat (s_blocks_count fs) \<le> gstart fs (groups fs)
     \<and> unat (s_blocks_count fs) + 65536 \<le> 2 ^ 32"

lemma groupedD:
  assumes "grouped fs"
  shows "0 < groups fs" "groups fs < 2 ^ 31" "0 < unat (s_blocks_per_group fs)" "unat (s_blocks_per_group fs) < 65536"
    "gstart fs (groups fs - 1) < unat (s_blocks_count fs)" "unat (s_blocks_count fs) \<le> gstart fs (groups fs)"
    "unat (s_blocks_count fs) + 65536 \<le> 2 ^ 32"
  using assms unfolding grouped_def by blast+

lemma gstart_mono: "i \<le> j \<Longrightarrow> gstart fs i \<le> gstart fs j"
  by (simp add: gstart_def)

lemma gstart_next: "gstart fs (Suc i) = gstart fs i + unat (s_blocks_per_group fs)"
  by (simp add: gstart_def)

lemma gstart_less_next: "i < j \<Longrightarrow> gstart fs i + unat (s_blocks_per_group fs) \<le> gstart fs j"
  using gstart_mono[of "Suc i" j fs] by (simp add: gstart_next)

lemma gend_bounds:
  assumes "grouped fs" "i < groups fs"
  shows "gstart fs i < gend fs i" "gend fs i \<le> gstart fs i + unat (s_blocks_per_group fs)" "gend fs i \<le> unat (s_blocks_count fs)"
    "gstart fs i + unat (s_blocks_per_group fs) < 2 ^ 32"
    "i < groups fs - 1 \<Longrightarrow> gend fs i = gstart fs i + unat (s_blocks_per_group fs)"
    "i < groups fs - 1 \<Longrightarrow> gend fs i < unat (s_blocks_count fs)"
    "i = groups fs - 1 \<Longrightarrow> gend fs i = unat (s_blocks_count fs)"
proof -
  note g = groupedD[OF assms(1)]
  have i: "gstart fs i \<le> gstart fs (groups fs - 1)" using assms(2) by (intro gstart_mono) simp
  show "gstart fs i < gend fs i" using i g(3,5) by (simp add: gend_def gstart_next)
  show "gend fs i \<le> gstart fs i + unat (s_blocks_per_group fs)" "gend fs i \<le> unat (s_blocks_count fs)"
    by (simp_all add: gend_def gstart_next)
  show "gstart fs i + unat (s_blocks_per_group fs) < 2 ^ 32" using i g(4,5,7) by linarith
  {
    assume "i < groups fs - 1"
    then have "gstart fs i + unat (s_blocks_per_group fs) \<le> gstart fs (groups fs - 1)" by (rule gstart_less_next)
    then show "gend fs i = gstart fs i + unat (s_blocks_per_group fs)" "gend fs i < unat (s_blocks_count fs)"
      using g(5) by (simp_all add: gend_def gstart_next)
  }
  assume "i = groups fs - 1"
  then have "Suc i = groups fs" using g(1) by simp
  then show "gend fs i = unat (s_blocks_count fs)" using g(6) by (simp add: gend_def)
qed

lemma gend_next: "grouped fs \<Longrightarrow> i < j \<Longrightarrow> j < groups fs \<Longrightarrow> gend fs i \<le> gstart fs j"
  using gend_bounds(2)[of fs i] gstart_less_next[of i j fs] by simp

definition filled :: "ext2_fs \<Rightarrow> (nat \<Rightarrow> nat) \<Rightarrow> u32 set" where
  \<comment> \<open>The first \<open>c i\<close> blocks of every group \<open>i\<close>.\<close>
  "filled fs c = {x. \<exists>i < groups fs. gstart fs i \<le> unat x \<and> unat x < gstart fs i + c i}"

definition inside :: "ext2_fs \<Rightarrow> (nat \<Rightarrow> nat) \<Rightarrow> bool" where
  "inside fs c \<longleftrightarrow> (\<forall>i < groups fs. gstart fs i + c i \<le> gend fs i)"

lemma in_filled:
  assumes "grouped fs" "inside fs c" "i < groups fs" "gstart fs i \<le> unat x" "unat x < gend fs i"
  shows "x \<in> filled fs c \<longleftrightarrow> unat x < gstart fs i + c i"
proof
  assume "x \<in> filled fs c"
  then obtain j where j: "j < groups fs" "gstart fs j \<le> unat x" "unat x < gstart fs j + c j" by (auto simp: filled_def)
  have "\<not> j < i" using gend_next[OF assms(1) _ assms(3), of j] assms(2,4) j by (force simp: inside_def)
  moreover have "\<not> i < j" using gend_next[OF assms(1) _ j(1), of i] assms(5) j(2) by force
  ultimately have "j = i" by simp
  then show "unat x < gstart fs i + c i" using j(3) by simp
qed (use assms(3,4) in \<open>auto simp: filled_def\<close>)

lemma filled_more:
  assumes "i < groups fs" "gstart fs i + c i < 2 ^ 32"
  shows "filled fs (c(i := c i + k)) = filled fs c \<union> numbers (of_nat (gstart fs i + c i)) (int k)"
proof -
  have u: "unat (of_nat (gstart fs i + c i) :: u32) = gstart fs i + c i"
    using assms(2) by (simp add: unat_of_nat del: of_nat_add)
  have "x \<in> filled fs (c(i := c i + k)) \<longleftrightarrow> x \<in> filled fs c \<or> gstart fs i + c i \<le> unat x \<and> unat x < gstart fs i + c i + k" for x
    using assms(1) by (force simp: filled_def not_less)
  then show ?thesis unfolding numbers_def u by auto
qed

lemma mark_run_result:
  assumes "bm_over s e bm" "s \<le> blk" "unat blk + k \<le> unat e + 1"
  shows "\<exists>bm'. mark_run bm blk k = Some bm' \<and> bm_over s e bm' \<and> bm_set bm' = bm_set bm \<union> numbers blk (int k)"
  using assms
proof (induction k arbitrary: bm blk)
  case 0
  then show ?case by (auto simp: numbers_def)
next
  case (Suc k)
  have le: "s \<le> blk" "blk \<le> e" using Suc.prems(2,3) by (simp_all add: word_le_nat_alt)
  obtain r bm1 where m: "ext2fs_mark_generic_bitmap bm blk = Some (r, bm1)" "bm_over s e bm1" "bm_set bm1 = insert blk (bm_set bm)"
    using bm_mark_result[OF Suc.prems(1) le] by (auto simp: bm_mark_def)
  show ?case
  proof (cases k)
    case 0
    have "numbers blk 1 = {blk}" by (auto simp: numbers_def word_unat_eq_iff)
    then show ?thesis using 0 m by simp
  next
    case (Suc j)
    have "unat (blk + 1) = Suc (unat blk)"
      using Suc.prems(3) Suc unsigned_less[of e, where 'a = nat] by (intro unat_plus_1) simp_all
    moreover from this have "s \<le> blk + 1" using le(1) by (simp add: word_le_nat_alt)
    ultimately obtain bm' where "mark_run bm1 (blk + 1) k = Some bm'" "bm_over s e bm'"
      "bm_set bm' = bm_set bm1 \<union> numbers (blk + 1) (int k)"
      using Suc.IH[OF m(2), of "blk + 1"] Suc.prems(3) by auto
    moreover have "numbers blk (int (Suc k)) = insert blk (numbers (blk + 1) (int k))"
      using \<open>unat (blk + 1) = Suc (unat blk)\<close> by (auto simp: numbers_def word_unat_eq_iff)
    ultimately show ?thesis using m by auto
  qed
qed

subsection \<open>The first run of free blocks\<close>

lemma run_end: "1 \<le> num \<Longrightarrow> unat b + nat num \<le> n \<Longrightarrow> n < 2 ^ 32 \<Longrightarrow> unat (b + of_int num - 1) = unat b + nat num - 1" for b :: u32
proof -
  assume a: "1 \<le> num" "unat b + nat num \<le> n" "n < 2 ^ 32"
  then have lt: "unat b + nat (num - 1) < 2 ^ 32" by (simp add: nat_diff_distrib)
  have e: "b + of_int num - 1 = b + of_nat (nat (num - 1))" using a(1) by (simp add: of_nat_nat)
  have "unat (b + of_int num - 1) = unat b + nat (num - 1)"
    unfolding e using lt by (simp add: unat_word_ariths unat_of_nat)
  then show ?thesis using a(1) by (simp add: nat_diff_distrib)
qed

lemma free_loop_first:
  assumes "bm_over s (s_blocks_count fs - 1) bm" "0 < unat (s_blocks_count fs)" "1 \<le> num"
  shows "s \<le> b \<Longrightarrow> unat b + d + nat num \<le> unat (s_blocks_count fs)
    \<Longrightarrow> \<forall>k < d. \<exists>x \<in> bm_set bm. unat b + k \<le> unat x \<and> unat x < unat b + k + nat num
    \<Longrightarrow> \<forall>x. unat b + d \<le> unat x \<and> unat x < unat b + d + nat num \<longrightarrow> x \<notin> bm_set bm
    \<Longrightarrow> \<forall>k. 0 < k \<and> k \<le> d \<longrightarrow> unat finish \<noteq> unat b + k
    \<Longrightarrow> free_blocks_loop bm fs finish num b = Some (Inr (b + of_nat d))"
proof (induction d arbitrary: b)
  case (0 b)
  have ok: "bm_ok bm" "bm_start bm \<le> b" "unat b + nat num \<le> unat (bm_end bm) + 1"
    using assms(1,2) "0.prems"(1,2) unat_minus_1[of "s_blocks_count fs" "unat (s_blocks_count fs) - 1"] by (simp_all add: bm_over_def)
  have "\<not> s_blocks_count fs < b + of_int num - 1"
    using run_end[OF assms(3), of b "unat (s_blocks_count fs)"] "0.prems"(2) unsigned_less[of "s_blocks_count fs", where 'a = nat]
    by (simp add: word_less_nat_alt)
  then show ?case using test_range_result[OF ok] "0.prems"(4)
    by (subst free_blocks_loop.simps) (auto simp: Let_def ext2fs_fast_test_block_bitmap_range_def)
next
  case (Suc d b)
  have ok: "bm_ok bm" "bm_start bm \<le> b" "unat b + nat num \<le> unat (bm_end bm) + 1"
    using assms(1,2) Suc.prems(1,2) unat_minus_1[of "s_blocks_count fs" "unat (s_blocks_count fs) - 1"] by (simp_all add: bm_over_def)
  have lt: "unat (s_blocks_count fs) < 2 ^ 32" using unsigned_less[of "s_blocks_count fs", where 'a = nat] by simp
  have past: "\<not> s_blocks_count fs < b + of_int num - 1"
    using run_end[OF assms(3), of b "unat (s_blocks_count fs)"] Suc.prems(2) lt by (simp add: word_less_nat_alt)
  have u: "unat (b + 1) = Suc (unat b)" using Suc.prems(2) lt by (intro unat_plus_1) simp_all
  have "\<exists>x \<in> bm_set bm. unat b \<le> unat x \<and> unat x < unat b + nat num" using Suc.prems(3) by force
  then have used: "test_range_loop bm b (nat num) = Some False" using test_range_result[OF ok] by auto
  have "free_blocks_loop bm fs finish num (b + 1) = Some (Inr (b + 1 + of_nat d))"
  proof (rule Suc.IH)
    show "s \<le> b + 1" using Suc.prems(1) u by (simp add: word_le_nat_alt)
    show "\<forall>k < d. \<exists>x \<in> bm_set bm. unat (b + 1) + k \<le> unat x \<and> unat x < unat (b + 1) + k + nat num"
    proof (intro allI impI)
      fix k assume "k < d"
      then show "\<exists>x \<in> bm_set bm. unat (b + 1) + k \<le> unat x \<and> unat x < unat (b + 1) + k + nat num"
        using Suc.prems(3)[rule_format, of "Suc k"] u by simp
    qed
    show "\<forall>k. 0 < k \<and> k \<le> d \<longrightarrow> unat finish \<noteq> unat (b + 1) + k"
    proof (intro allI impI)
      fix k assume "0 < k \<and> k \<le> d"
      then show "unat finish \<noteq> unat (b + 1) + k" using Suc.prems(5)[rule_format, of "Suc k"] u by simp
    qed
  qed (use Suc.prems(2,4) u in simp_all)
  moreover have "b + 1 \<noteq> finish" using Suc.prems(5)[rule_format, of 1] u by auto
  ultimately show ?case using past used
    by (subst free_blocks_loop.simps) (simp add: Let_def ext2fs_fast_test_block_bitmap_range_def add.assoc)
qed

subsection \<open>One group\<close>

lemma unat_group_start:
  assumes "grouped fs" "i < groups fs"
  shows "unat (group_start fs (of_nat i)) = gstart fs i"
proof -
  have "gstart fs i < 2 ^ 32" using gend_bounds(4)[OF assms] by simp
  moreover have "group_start fs (of_nat i) = of_nat (gstart fs i)" by (simp add: group_start_def gstart_def)
  ultimately show ?thesis by (simp only: unat_of_nat) simp
qed

lemma unat_last_block:
  assumes "grouped fs" "i < groups fs"
  shows "gend fs i - 1 \<le> unat (last_block fs (group_start fs (of_nat i)))" "unat (last_block fs (group_start fs (of_nat i))) \<le> gend fs i"
proof -
  let ?g = "group_start fs (of_nat i)"
  note b = gend_bounds[OF assms] and s = unat_group_start[OF assms]
  have e: "unat (?g + s_blocks_per_group fs) = gstart fs i + unat (s_blocks_per_group fs)"
    using b(4) s by (simp add: unat_word_ariths)
  have c: "unat (s_blocks_count fs - 1) = unat (s_blocks_count fs) - 1"
    using b(1,3) unat_minus_1[of "s_blocks_count fs" "unat (s_blocks_count fs) - 1"] by simp
  have "unat (last_block fs ?g) = (if unat (s_blocks_count fs) \<le> gstart fs i + unat (s_blocks_per_group fs)
      then unat (s_blocks_count fs) - 1 else gstart fs i + unat (s_blocks_per_group fs))"
    using e c by (simp add: last_block_def Let_def word_le_nat_alt)
  moreover have "gend fs i = (if unat (s_blocks_count fs) \<le> gstart fs i + unat (s_blocks_per_group fs)
      then unat (s_blocks_count fs) else gstart fs i + unat (s_blocks_per_group fs))"
    by (simp add: gend_def gstart_next)
  moreover have "0 < unat (s_blocks_per_group fs)" by (rule groupedD(3)[OF assms(1)])
  ultimately show "gend fs i - 1 \<le> unat (last_block fs ?g)" "unat (last_block fs ?g) \<le> gend fs i"
    using b(1,3) by auto
qed

definition front :: "ext2_fs \<Rightarrow> (nat \<Rightarrow> nat) \<Rightarrow> nat \<Rightarrow> u32" where
  \<comment> \<open>The first free block of a group.\<close>
  "front fs c i = of_nat (gstart fs i + c i)"

definition mapped :: "ext2_fs \<Rightarrow> (nat \<Rightarrow> nat) \<Rightarrow> bitmap \<Rightarrow> bool" where
  \<comment> \<open>The bitmap marks the first \<open>c i\<close> blocks of every group \<open>i\<close>.\<close>
  "mapped fs c bm \<longleftrightarrow> bm_over (s_first_data_block fs) (s_blocks_count fs - 1) bm \<and> bm_set bm = filled fs c \<and> inside fs c"

lemma unat_front:
  assumes "grouped fs" "inside fs c" "i < groups fs"
  shows "unat (front fs c i) = gstart fs i + c i"
proof -
  have "gstart fs i + c i < 2 ^ 32"
    using assms(2,3) gend_bounds(3)[OF assms(1,3)] groupedD(7)[OF assms(1)] by (force simp: inside_def)
  then show ?thesis by (simp add: front_def unat_of_nat del: of_nat_add)
qed

lemma blocks_count_nz: "grouped fs \<Longrightarrow> 0 < unat (s_blocks_count fs)"
  using groupedD(5)[of fs] by simp

lemma mark_front:
  assumes "grouped fs" "mapped fs c bm" "i < groups fs" "gstart fs i + c i + k \<le> gend fs i"
  shows "\<exists>bm'. mark_run bm (front fs c i) k = Some bm' \<and> mapped fs (c(i := c i + k)) bm'"
proof -
  have m: "bm_over (s_first_data_block fs) (s_blocks_count fs - 1) bm" "bm_set bm = filled fs c" "inside fs c"
    using assms(2) by (simp_all add: mapped_def)
  note u = unat_front[OF assms(1) m(3) assms(3)]
  have e: "unat (s_blocks_count fs - 1) + 1 = unat (s_blocks_count fs)"
    using blocks_count_nz[OF assms(1)] unat_minus_1[of "s_blocks_count fs" "unat (s_blocks_count fs) - 1"] by simp
  have "s_first_data_block fs \<le> front fs c i" using u by (simp add: word_le_nat_alt gstart_def)
  moreover have "unat (front fs c i) + k \<le> unat (s_blocks_count fs - 1) + 1"
    using u e assms(4) gend_bounds(3)[OF assms(1,3)] by linarith
  ultimately obtain bm' where "mark_run bm (front fs c i) k = Some bm'" "bm_over (s_first_data_block fs) (s_blocks_count fs - 1) bm'"
    "bm_set bm' = bm_set bm \<union> numbers (front fs c i) (int k)"
    using mark_run_result[OF m(1)] by blast
  moreover have "gstart fs i + c i < 2 ^ 32"
    using assms(4) gend_bounds(3)[OF assms(1,3)] groupedD(7)[OF assms(1)] by linarith
  then have "filled fs (c(i := c i + k)) = filled fs c \<union> numbers (front fs c i) (int k)"
    unfolding front_def by (rule filled_more[OF assms(3)])
  moreover have "inside fs (c(i := c i + k))" using m(3) assms(4) by (auto simp: inside_def)
  ultimately show ?thesis using m(2) by (simp add: mapped_def)
qed

lemma find_front:
  assumes "grouped fs" "mapped fs c bm" "i < groups fs" "0 \<le> num" "gstart fs i + c i + nat num \<le> gend fs i"
    and "gstart fs i + c i + 1 < gend fs i" "fs_magic fs = EXT2_ET_MAGIC_EXT2FS_FILSYS" "block_map fs = Some bm"
  shows "ext2fs_get_free_blocks fs (group_start fs (of_nat i)) (last_block fs (group_start fs (of_nat i))) num None
    = Some (Inr (front fs c i))"
proof -
  have m: "bm_over (s_first_data_block fs) (s_blocks_count fs - 1) bm" "bm_set bm = filled fs c" "inside fs c"
    using assms(2) by (simp_all add: mapped_def)
  let ?g = "group_start fs (of_nat i)" and ?n = "if num = 0 then 1 else num"
  note ug = unat_group_start[OF assms(1,3)] and ul = unat_last_block[OF assms(1,3)] and b = gend_bounds[OF assms(1,3)]
  have n: "1 \<le> ?n" "gstart fs i + c i + nat ?n \<le> gend fs i" using assms(4-6) by auto
  have in_group: "x \<in> bm_set bm \<longleftrightarrow> unat x < gstart fs i + c i" if "gstart fs i \<le> unat x" "unat x < gend fs i" for x
    unfolding m(2) by (rule in_filled[OF assms(1) m(3) assms(3) that])
  have "free_blocks_loop bm fs (last_block fs ?g) ?n ?g = Some (Inr (?g + of_nat (c i)))"
  proof (rule free_loop_first[OF m(1) blocks_count_nz[OF assms(1)] n(1)])
    show "s_first_data_block fs \<le> ?g" using ug by (simp add: word_le_nat_alt gstart_def)
    show "unat ?g + c i + nat ?n \<le> unat (s_blocks_count fs)" using ug n(2) b(3) by simp
    show "\<forall>k < c i. \<exists>x \<in> bm_set bm. unat ?g + k \<le> unat x \<and> unat x < unat ?g + k + nat ?n"
    proof (intro allI impI)
      fix k assume k: "k < c i"
      have u: "unat (of_nat (gstart fs i + k) :: u32) = gstart fs i + k"
        using k n(2) b(3) groupedD(7)[OF assms(1)] by (simp add: unat_of_nat del: of_nat_add)
      moreover have "gstart fs i + k < gend fs i" using k n(2) by linarith
      ultimately have "of_nat (gstart fs i + k) \<in> bm_set bm" using in_group[of "of_nat (gstart fs i + k)"] k by simp
      then show "\<exists>x \<in> bm_set bm. unat ?g + k \<le> unat x \<and> unat x < unat ?g + k + nat ?n"
        using u ug n(1) by (intro bexI[of _ "of_nat (gstart fs i + k)"]) auto
    qed
    show "\<forall>x. unat ?g + c i \<le> unat x \<and> unat x < unat ?g + c i + nat ?n \<longrightarrow> x \<notin> bm_set bm"
      using in_group ug n(2) by auto
    show "\<forall>k. 0 < k \<and> k \<le> c i \<longrightarrow> unat (last_block fs ?g) \<noteq> unat ?g + k"
      using ul ug assms(6) by auto
  qed
  moreover have "?g + of_nat (c i) = front fs c i" by (simp add: front_def group_start_def gstart_def)
  moreover have "last_block fs ?g \<noteq> 0" using ul(1) assms(6) by auto
  moreover have "?g = 0 \<Longrightarrow> s_first_data_block fs = ?g" using ug by (simp add: gstart_def) (metis unat_eq_zero)
  ultimately show ?thesis using assms(7,8) by (auto simp: ext2fs_get_free_blocks_def)
qed

subsection \<open>The tables of a group\<close>

lemma layout_frame [simp]:
  "gstart (fs\<lparr>block_map := x\<rparr>) = gstart fs" "gstart (fs\<lparr>group_desc := y\<rparr>) = gstart fs" "gstart (fs\<lparr>s_free_blocks_count := z\<rparr>) = gstart fs"
  "gend (fs\<lparr>block_map := x\<rparr>) = gend fs" "gend (fs\<lparr>group_desc := y\<rparr>) = gend fs" "gend (fs\<lparr>s_free_blocks_count := z\<rparr>) = gend fs"
  "grouped (fs\<lparr>block_map := x\<rparr>) = grouped fs" "grouped (fs\<lparr>group_desc := y\<rparr>) = grouped fs"
  "grouped (fs\<lparr>s_free_blocks_count := z\<rparr>) = grouped fs"
  "inside (fs\<lparr>block_map := x\<rparr>) = inside fs" "inside (fs\<lparr>group_desc := y\<rparr>) = inside fs" "inside (fs\<lparr>s_free_blocks_count := z\<rparr>) = inside fs"
  "filled (fs\<lparr>block_map := x\<rparr>) = filled fs" "filled (fs\<lparr>group_desc := y\<rparr>) = filled fs" "filled (fs\<lparr>s_free_blocks_count := z\<rparr>) = filled fs"
  "mapped (fs\<lparr>block_map := x\<rparr>) = mapped fs" "mapped (fs\<lparr>group_desc := y\<rparr>) = mapped fs" "mapped (fs\<lparr>s_free_blocks_count := z\<rparr>) = mapped fs"
  "front (fs\<lparr>block_map := x\<rparr>) = front fs" "front (fs\<lparr>group_desc := y\<rparr>) = front fs" "front (fs\<lparr>s_free_blocks_count := z\<rparr>) = front fs"
  "group_start (fs\<lparr>block_map := x\<rparr>) = group_start fs" "group_start (fs\<lparr>group_desc := y\<rparr>) = group_start fs"
  "last_block (fs\<lparr>block_map := x\<rparr>) = last_block fs" "last_block (fs\<lparr>group_desc := y\<rparr>) = last_block fs"
  by (simp_all add: fun_eq_iff gstart_def gend_def grouped_def inside_def filled_def mapped_def front_def group_start_def last_block_def Let_def)

lemma unat_group: "grouped fs \<Longrightarrow> i < groups fs \<Longrightarrow> unat (of_nat i :: u32) = i"
  using groupedD(2)[of fs] by (simp add: unat_of_nat)

lemma upd_group_nat:
  "i < length (group_desc fs) \<Longrightarrow> upd_group fs (int i) f = Some (fs\<lparr>group_desc := (group_desc fs)[i := f (group_desc fs ! i)]\<rparr>)"
  by (simp add: upd_group_def)

lemma place_ok:
  assumes "grouped fs" "mapped fs c bm" "i < groups fs" "length (group_desc fs) = groups fs" "block_map fs = Some bm"
    and "get (group_desc fs ! i) = 0" "search fs None = Some (Inr (front fs c i))" "gstart fs i + c i + n \<le> gend fs i"
  shows "\<exists>bm'. place get put (of_nat i) n search fs None
      = Some (OK, fs\<lparr>block_map := Some bm', group_desc := (group_desc fs)[i := put (front fs c i) (group_desc fs ! i)]\<rparr>, None)
    \<and> mapped fs (c(i := c i + n)) bm'"
proof -
  obtain bm' where "mark_run bm (front fs c i) n = Some bm'" "mapped fs (c(i := c i + n)) bm'"
    using mark_front[OF assms(1-3,8)] by blast
  moreover have "uint (of_nat i :: u32) = int i" using unat_group[OF assms(1,3)] by (metis uint_nat)
  ultimately show ?thesis using assms(3-7) unat_group[OF assms(1,3)] upd_group_nat[of i "fs\<lparr>block_map := Some bm'\<rparr>"]
    by (intro exI[of _ bm']) (simp add: place_def mark_in_def the_map_def)
qed

definition tables :: "ext2_fs \<Rightarrow> (nat \<Rightarrow> nat) \<Rightarrow> nat \<Rightarrow> ext2_group_desc \<Rightarrow> ext2_group_desc" where
  \<comment> \<open>The bitmaps and the inode table in the first free blocks of the group.\<close>
  "tables fs c i g = g\<lparr>bg_block_bitmap := of_nat (gstart fs i + c i), bg_inode_bitmap := of_nat (gstart fs i + c i + 1),
     bg_inode_table := of_nat (gstart fs i + c i + 2)\<rparr>"

definition no_tables :: "ext2_group_desc \<Rightarrow> bool" where
  "no_tables g \<longleftrightarrow> bg_block_bitmap g = 0 \<and> bg_inode_bitmap g = 0 \<and> bg_inode_table g = 0"

lemma group_table_ok:
  assumes "grouped fs" "mapped fs c bm" "i < groups fs" "length (group_desc fs) = groups fs" "block_map fs = Some bm"
    and "fs_magic fs = EXT2_ET_MAGIC_EXT2FS_FILSYS" "fs_stride fs = 0" "0 < inode_blocks_per_group fs"
    and "no_tables (group_desc fs ! i)" "gstart fs i + c i + 2 + nat (inode_blocks_per_group fs) < gend fs i"
  shows "\<exists>bm'. ext2fs_allocate_group_table fs (of_nat i) None
      = Some (OK, fs\<lparr>block_map := Some bm', group_desc := (group_desc fs)[i := tables fs c i (group_desc fs ! i)]\<rparr>, None)
    \<and> mapped fs (c(i := c i + 2 + nat (inode_blocks_per_group fs))) bm'"
proof -
  let ?g = "group_start fs (of_nat i)" and ?gd = "group_desc fs ! i" and ?ib = "inode_blocks_per_group fs"
  let ?l = "last_block fs ?g"
  let ?find = "\<lambda>fs bmap. find_block fs bmap ?g ?g ?l"
  have st: "stride_start fs (of_nat i) ?g ?l = Some ?g" using assms(7) by (simp add: stride_start_def)
  have f1: "?find fs None = Some (Inr (front fs c i))"
    using find_front[OF assms(1-3), of 1] assms(5,6,10) by (simp add: find_block_def)
  obtain bm1 where p1: "place bg_block_bitmap (\<lambda>b. bg_block_bitmap_update (\<lambda>_. b)) (of_nat i) 1 ?find fs None
      = Some (OK, fs\<lparr>block_map := Some bm1, group_desc := (group_desc fs)[i := ?gd\<lparr>bg_block_bitmap := front fs c i\<rparr>]\<rparr>, None)"
    "mapped fs (c(i := c i + 1)) bm1"
    using place_ok[where search = ?find, OF assms(1-5) _ f1, of bg_block_bitmap 1 "\<lambda>b. bg_block_bitmap_update (\<lambda>_. b)"] assms(9,10)
    by (auto simp: no_tables_def)
  let ?fs1 = "fs\<lparr>block_map := Some bm1, group_desc := (group_desc fs)[i := ?gd\<lparr>bg_block_bitmap := front fs c i\<rparr>]\<rparr>"
  let ?c1 = "c(i := c i + 1)"
  have a1: "grouped ?fs1" "mapped ?fs1 ?c1 bm1" "i < groups ?fs1" "length (group_desc ?fs1) = groups ?fs1"
    "block_map ?fs1 = Some bm1" using assms(1,3,4) p1(2) by simp_all
  have f2: "?find ?fs1 None = Some (Inr (front ?fs1 ?c1 i))"
    using find_front[OF a1(1-3), of 1] assms(6,10) by (simp add: find_block_def)
  obtain bm2 where p2: "place bg_inode_bitmap (\<lambda>b. bg_inode_bitmap_update (\<lambda>_. b)) (of_nat i) 1 ?find ?fs1 None
      = Some (OK, ?fs1\<lparr>block_map := Some bm2, group_desc := (group_desc ?fs1)[i := (group_desc ?fs1 ! i)\<lparr>bg_inode_bitmap := front ?fs1 ?c1 i\<rparr>]\<rparr>, None)"
    "mapped ?fs1 (?c1(i := ?c1 i + 1)) bm2"
    using place_ok[where search = ?find, OF a1 _ f2, of bg_inode_bitmap 1 "\<lambda>b. bg_inode_bitmap_update (\<lambda>_. b)"] assms(3,4,9,10)
    by (auto simp: no_tables_def)
  let ?fs2 = "?fs1\<lparr>block_map := Some bm2, group_desc := (group_desc ?fs1)[i := (group_desc ?fs1 ! i)\<lparr>bg_inode_bitmap := front ?fs1 ?c1 i\<rparr>]\<rparr>"
  let ?c2 = "?c1(i := ?c1 i + 1)"
  have a2: "grouped ?fs2" "mapped ?fs2 ?c2 bm2" "i < groups ?fs2" "length (group_desc ?fs2) = groups ?fs2"
    "block_map ?fs2 = Some bm2" using assms(1,3,4) p2(2) by simp_all
  let ?table = "\<lambda>fs bmap. ext2fs_get_free_blocks fs ?g ?l (inode_blocks_per_group fs) bmap"
  have f3: "?table ?fs2 None = Some (Inr (front ?fs2 ?c2 i))"
    using find_front[OF a2(1-3), of ?ib] assms(6,8,10) by (simp add: less_eq_Suc_le)
  obtain bm3 where p3: "place bg_inode_table (\<lambda>b. bg_inode_table_update (\<lambda>_. b)) (of_nat i) (nat ?ib) ?table ?fs2 None
      = Some (OK, ?fs2\<lparr>block_map := Some bm3, group_desc := (group_desc ?fs2)[i := (group_desc ?fs2 ! i)\<lparr>bg_inode_table := front ?fs2 ?c2 i\<rparr>]\<rparr>, None)"
    "mapped ?fs2 (?c2(i := ?c2 i + nat ?ib)) bm3"
    using place_ok[where search = ?table, OF a2 _ f3, of bg_inode_table "nat ?ib"
        "\<lambda>b. bg_inode_table_update (\<lambda>_. b)"] assms(3,4,9,10)
    by (auto simp: no_tables_def)
  have "ext2fs_allocate_group_table fs (of_nat i) None
      = Some (OK, fs\<lparr>block_map := Some bm3, group_desc := (group_desc fs)[i := tables fs c i ?gd]\<rparr>, None)"
    using p1(1) p2(1) p3(1) st assms(3,4)
    by (simp add: ext2fs_allocate_group_table_def Let_def tables_def front_def)
  moreover have "?c2(i := ?c2 i + nat ?ib) = c(i := c i + 2 + nat ?ib)" by (simp add: fun_eq_iff)
  ultimately show ?thesis using p3(2) by (intro exI[of _ bm3]) (simp del: fun_upd_apply)
qed

lemma allocate_groups_ok:
  assumes "grouped fs" "mapped fs c bm" "k \<le> groups fs" "length (group_desc fs) = groups fs" "block_map fs = Some bm"
    and "fs_magic fs = EXT2_ET_MAGIC_EXT2FS_FILSYS" "fs_stride fs = 0" "0 < inode_blocks_per_group fs"
    and "\<forall>i. k \<le> i \<and> i < groups fs \<longrightarrow> no_tables (group_desc fs ! i) \<and> gstart fs i + c i + 2 + nat (inode_blocks_per_group fs) < gend fs i"
  shows "\<exists>bm' gs. allocate_groups [k..<groups fs] fs = Some (OK, fs\<lparr>block_map := Some bm', group_desc := gs\<rparr>)
    \<and> mapped fs (\<lambda>i. if k \<le> i \<and> i < groups fs then c i + 2 + nat (inode_blocks_per_group fs) else c i) bm'
    \<and> length gs = groups fs \<and> (\<forall>i < groups fs. gs ! i = (if k \<le> i then tables fs c i (group_desc fs ! i) else group_desc fs ! i))"
  using assms
proof (induction "groups fs - k" arbitrary: k fs c bm)
  case 0
  then have k: "k = groups fs" by simp
  have "(\<lambda>i. if k \<le> i \<and> i < groups fs then c i + 2 + nat (inode_blocks_per_group fs) else c i) = c" using k by auto
  then show ?case using "0.prems" k by (intro exI[of _ bm] exI[of _ "group_desc fs"]) auto
next
  case (Suc d)
  note prems = Suc.prems
  let ?ib = "nat (inode_blocks_per_group fs)"
  have k: "k < groups fs" using Suc.hyps(2) by simp
  obtain bm1 where t: "ext2fs_allocate_group_table fs (of_nat k) None
      = Some (OK, fs\<lparr>block_map := Some bm1, group_desc := (group_desc fs)[k := tables fs c k (group_desc fs ! k)]\<rparr>, None)"
    "mapped fs (c(k := c k + 2 + ?ib)) bm1"
    using group_table_ok[OF prems(1,2) k prems(4-8)] prems(9) k by blast
  let ?fs1 = "fs\<lparr>block_map := Some bm1, group_desc := (group_desc fs)[k := tables fs c k (group_desc fs ! k)]\<rparr>"
  let ?c1 = "c(k := c k + 2 + ?ib)"
  have "\<exists>bm' gs. allocate_groups [Suc k..<groups ?fs1] ?fs1 = Some (OK, ?fs1\<lparr>block_map := Some bm', group_desc := gs\<rparr>)
    \<and> mapped ?fs1 (\<lambda>i. if Suc k \<le> i \<and> i < groups ?fs1 then ?c1 i + 2 + nat (inode_blocks_per_group ?fs1) else ?c1 i) bm'
    \<and> length gs = groups ?fs1 \<and> (\<forall>i < groups ?fs1. gs ! i = (if Suc k \<le> i then tables ?fs1 ?c1 i (group_desc ?fs1 ! i) else group_desc ?fs1 ! i))"
    by (rule Suc.hyps(1)) (use prems(1,4,6-9) t(2) k Suc.hyps(2) in \<open>auto simp: fun_upd_def\<close>)
  then obtain bm' gs where raw: "allocate_groups [Suc k..<groups ?fs1] ?fs1 = Some (OK, ?fs1\<lparr>block_map := Some bm', group_desc := gs\<rparr>)"
    "mapped ?fs1 (\<lambda>i. if Suc k \<le> i \<and> i < groups ?fs1 then ?c1 i + 2 + nat (inode_blocks_per_group ?fs1) else ?c1 i) bm'"
    "length gs = groups ?fs1" "\<forall>i < groups ?fs1. gs ! i = (if Suc k \<le> i then tables ?fs1 ?c1 i (group_desc ?fs1 ! i) else group_desc ?fs1 ! i)"
    by blast
  then have r: "allocate_groups [Suc k..<groups fs] ?fs1 = Some (OK, fs\<lparr>block_map := Some bm', group_desc := gs\<rparr>)"
    "mapped fs (\<lambda>i. if Suc k \<le> i \<and> i < groups fs then ?c1 i + 2 + ?ib else ?c1 i) bm'" "length gs = groups fs"
    by (simp_all cong: if_cong del: fun_upd_apply)
  have c: "(\<lambda>i. if Suc k \<le> i \<and> i < groups fs then ?c1 i + 2 + ?ib else ?c1 i)
      = (\<lambda>i. if k \<le> i \<and> i < groups fs then c i + 2 + ?ib else c i)" using k by (auto simp: fun_eq_iff)
  have g: "gs ! i = (if k \<le> i then tables fs c i (group_desc fs ! i) else group_desc fs ! i)" if "i < groups fs" for i
    using raw(4) that k prems(4) by (cases "i = k") (auto simp: tables_def)
  have "[k..<groups fs] = k # [Suc k..<groups fs]" using k by (simp add: upt_rec)
  then have "allocate_groups [k..<groups fs] fs = Some (OK, fs\<lparr>block_map := Some bm', group_desc := gs\<rparr>)"
    using t(1) r(1) by simp
  then show ?case using r(2)[unfolded c] r(3) g by blast
qed

subsection \<open>The blocks that are reserved\<close>

lemma group_blocks_eq:
  assumes "grouped fs" "i < groups fs"
  shows "group_blocks fs (of_nat i) = int (gend fs i - gstart fs i)"
proof -
  note g = groupedD[OF assms(1)] and b = gend_bounds[OF assms]
  let ?n = "groups fs" and ?bpg = "unat (s_blocks_per_group fs)"
  let ?m = "unat (s_blocks_count fs) - unat (s_first_data_block fs)"
  have last: "of_nat i = group_desc_count fs - 1 \<longleftrightarrow> i = ?n - 1"
    using unat_group[OF assms] unat_minus_1[of "group_desc_count fs" "?n - 1"] g(1) by (auto simp: word_unat_eq_iff)
  have small: "sint x = int (unat x)" if "unat x < 65536" for x :: u32 using that by (intro sint_unat_small) simp
  show ?thesis
  proof (cases "i = ?n - 1")
    case True
    have "s_first_data_block fs \<le> s_blocks_count fs" using g(5) by (simp add: gstart_def word_le_nat_alt)
    then have u: "unat ((s_blocks_count fs - s_first_data_block fs) mod s_blocks_per_group fs) = ?m mod ?bpg"
      by (simp add: unat_mod unat_offset)
    have m: "?m = (?n - 1) * ?bpg + (gend fs i - gstart fs i)"
      using True b(7) g(5) by (simp add: gstart_def)
    have le: "gend fs i - gstart fs i \<le> ?bpg" "0 < gend fs i - gstart fs i" using b(1,2) by simp_all
    have "?m mod ?bpg = (gend fs i - gstart fs i) mod ?bpg" unfolding m by simp
    then show ?thesis using True last u small[of "(s_blocks_count fs - s_first_data_block fs) mod s_blocks_per_group fs"]
        small[OF g(4)] g(3,4) le by (cases "gend fs i - gstart fs i = ?bpg") (simp_all add: group_blocks_def Let_def)
  next
    case False
    then show ?thesis using last small[OF g(4)] b(5) assms(2) by (simp add: group_blocks_def)
  qed
qed

lemma group_start_front: "c i = 0 \<Longrightarrow> group_start fs (of_nat i) = front fs c i"
  by (simp add: group_start_def front_def gstart_def)

lemma front_Suc: "front fs (c(i := c i + k)) i = front fs c i + of_nat k"
  by (simp add: front_def)

lemma front_nz:
  assumes "grouped fs" "i < groups fs" "gstart fs i + c i \<le> gend fs i" "0 < i \<or> 0 < c i"
  shows "of_nat (gstart fs i + c i) \<noteq> (0 :: u32)"
proof -
  have "gstart fs i + c i < 2 ^ 32" using assms(3) gend_bounds(3)[OF assms(1,2)] groupedD(7)[OF assms(1)] by linarith
  then have "unat (of_nat (gstart fs i + c i) :: u32) = gstart fs i + c i" by (simp add: unat_of_nat del: of_nat_add)
  moreover have "0 < gstart fs i + c i" using assms(4) groupedD(3)[OF assms(1)] by (auto simp: gstart_def)
  ultimately show ?thesis by (metis unat_0 less_irrefl)
qed

lemma reserve_ok:
  assumes "grouped fs" "mapped fs c bm" "i < groups fs" "c i = 0" "0 \<le> old_desc_blocks fs" "0 < inode_blocks_per_group fs"
    and "ext2fs_super_and_bgd_loc fs (of_nat i) = Some l" "0 < loc_numblocks l"
  shows "\<exists>bm' r. ext2fs_reserve_super_and_bgd fs (of_nat i) bm = Some (loc_numblocks l, bm') \<and> mapped fs (c(i := r)) bm'
    \<and> loc_numblocks l = int (gend fs i - gstart fs i) - int r - 2 - inode_blocks_per_group fs"
proof -
  let ?g = "of_nat i :: u32" and ?ms = "fs_blocksize fs div 32" and ?size = "int (gend fs i - gstart fs i)"
  let ?odb = "old_desc_blocks fs" and ?gs = "front fs c i"
  note ug = unat_group[OF assms(1,3)] and gs = group_start_front[of c i fs, OF assms(4)] and b = gend_bounds[OF assms(1,3)]
  have sg: "sint ?g = int i" using ug groupedD(2)[OF assms(1)] assms(3) by (subst sint_unat_small) simp_all
  have ms: "?ms \<noteq> 0" using assms(7) by (auto simp: ext2fs_super_and_bgd_loc_def Let_def bind_Some_iff split: if_splits)
  obtain h where h: "ext2fs_bg_has_super fs (int i) = Some h" "i = 0 \<Longrightarrow> h"
    using bg_has_super_result[of "int i" fs] by simp
  define P where "P \<longleftrightarrow> \<not> has_meta_bg fs \<or> ?g div ?ms < s_first_meta_bg (fs_super fs)"
  define N where "N \<longleftrightarrow> \<not> P \<and> meta_copy ?g ?ms"
  have PN: "P \<Longrightarrow> \<not> N" by (simp add: N_def)
  have bpg: "s_blocks_per_group fs \<noteq> 0" using groupedD(3)[OF assms(1)] by auto
  have l: "loc_numblocks l = ?size - (if h then 1 else 0) - (if P \<and> h then ?odb else 0) - (if N then 1 else 0)
      - (2 + inode_blocks_per_group fs)"
    "loc_super_blk l = (if h then ?gs else 0)" "loc_old_desc_blk l = (if P \<and> h then ?gs + 1 else 0)"
    "loc_new_desc_blk l = (if N then ?gs + (if h then 1 else 0) else 0)"
    using assms(7) ms bpg h(1) sg gs group_blocks_eq[OF assms(1,3)]
    by (auto simp: P_def N_def ext2fs_super_and_bgd_loc_def Let_def split: if_splits)
  have mark: "\<exists>bm'. mark_run bm1 (front fs c i + of_nat m) k = Some bm' \<and> mapped fs (c(i := m + k)) bm'"
    if "mapped fs (c(i := m)) bm1" "gstart fs i + m + k \<le> gend fs i" for bm1 m k
    using mark_front[OF assms(1) that(1) assms(3), of k] that(2) by (simp add: front_def assms(4) add.assoc)
  have nz: "front fs c i + of_nat m \<noteq> 0" if "gstart fs i + m \<le> gend fs i" "0 < i \<or> 0 < m" for m
    using front_nz[where c = "\<lambda>_. m", OF assms(1,3) that] by (simp add: front_def assms(4))
  have m0: "mapped fs (c(i := 0)) bm" using assms(2,4) by (metis fun_upd_triv)
  have size: "?size = int (gend fs i) - int (gstart fs i)" using b(1) by simp
  show ?thesis
  proof (cases h)
    case True
    have fit: "gstart fs i + 1 \<le> gend fs i" using b(1) by simp
    obtain bm1 where s: "mark_run bm ?gs 1 = Some bm1" "mapped fs (c(i := 1)) bm1" using mark[OF m0, of 1] fit by auto
    have sm: "loc_super_blk l \<noteq> 0 \<or> ?g = 0"
    proof (cases "i = 0")
      case False
      then show ?thesis using nz[of 0] b(1) l(2) True by simp
    qed simp
    consider (old) "P" "\<not> N" | (new) "\<not> P" "N" | (none) "\<not> P" "\<not> N" using PN by blast
    then show ?thesis
    proof cases
      case old
      have n: "loc_numblocks l = ?size - 1 - ?odb - (2 + inode_blocks_per_group fs)" using l(1) True old by simp
      have "gstart fs i + 1 + nat ?odb \<le> gend fs i" using n assms(5,6,8) size by linarith
      from mark[OF s(2) this] obtain bm2 where o2: "mark_run bm1 (?gs + 1) (nat ?odb) = Some bm2" "mapped fs (c(i := 1 + nat ?odb)) bm2"
        by auto
      have "?gs + 1 \<noteq> 0" using nz[of 1] fit by simp
      then have "ext2fs_reserve_super_and_bgd fs ?g bm = Some (loc_numblocks l, bm2)"
        using assms(7) sm s(1) o2(1) l(2-4) True old by (simp add: ext2fs_reserve_super_and_bgd_def del: mark_run.simps)
      then show ?thesis using o2(2) n assms(5) by (intro exI[of _ bm2] exI[of _ "1 + nat ?odb"]) simp
    next
      case new
      have n: "loc_numblocks l = ?size - 2 - (2 + inode_blocks_per_group fs)" using l(1) True new by simp
      have "gstart fs i + 1 + 1 \<le> gend fs i" using n assms(6,8) size by linarith
      from mark[OF s(2) this] obtain bm2 where o2: "mark_run bm1 (?gs + 1) 1 = Some bm2" "mapped fs (c(i := 2)) bm2"
        by (auto simp: numeral_2_eq_2)
      have "?gs + 1 \<noteq> 0" using nz[of 1] fit by simp
      then have "ext2fs_reserve_super_and_bgd fs ?g bm = Some (loc_numblocks l, bm2)"
        using assms(7) sm s(1) o2(1) l(2-4) True new by (simp add: ext2fs_reserve_super_and_bgd_def del: mark_run.simps)
      then show ?thesis using o2(2) n by (intro exI[of _ bm2] exI[of _ 2]) simp
    next
      case none
      have n: "loc_numblocks l = ?size - 1 - (2 + inode_blocks_per_group fs)" using l(1) True none by auto
      have "ext2fs_reserve_super_and_bgd fs ?g bm = Some (loc_numblocks l, bm1)"
        using assms(7) sm s(1) l(2-4) True none by (simp add: ext2fs_reserve_super_and_bgd_def del: mark_run.simps)
      then show ?thesis using s(2) n by (intro exI[of _ bm1] exI[of _ 1]) simp
    qed
  next
    case False
    then have i: "0 < i" using h(2) by blast
    then have sm: "\<not> (loc_super_blk l \<noteq> 0 \<or> ?g = 0)" using l(2) False ug by (auto dest: arg_cong[of _ _ unat])
    show ?thesis
    proof (cases "N")
      case True
      have n: "loc_numblocks l = ?size - 1 - (2 + inode_blocks_per_group fs)" using l(1) True False by simp
      have "gstart fs i + 0 + 1 \<le> gend fs i" using b(1) by simp
      from mark[OF m0 this] obtain bm2 where o2: "mark_run bm ?gs 1 = Some bm2" "mapped fs (c(i := 1)) bm2" by auto
      have "?gs \<noteq> 0" using nz[of 0] b(1) i by simp
      then have "ext2fs_reserve_super_and_bgd fs ?g bm = Some (loc_numblocks l, bm2)"
        using assms(7) sm o2(1) l(2-4) True False by (simp add: ext2fs_reserve_super_and_bgd_def del: mark_run.simps)
      then show ?thesis using o2(2) n by (intro exI[of _ bm2] exI[of _ 1]) simp
    next
      case new: False
      have n: "loc_numblocks l = ?size - (2 + inode_blocks_per_group fs)" using l(1) False new by auto
      have "ext2fs_reserve_super_and_bgd fs ?g bm = Some (loc_numblocks l, bm)"
        using assms(7) sm l(2-4) False new by (simp add: ext2fs_reserve_super_and_bgd_def del: mark_run.simps)
      then show ?thesis using m0 n by (intro exI[of _ bm] exI[of _ 0]) simp
    qed
  qed
qed

definition room :: "ext2_fs \<Rightarrow> nat \<Rightarrow> int" where
  \<comment> \<open>The blocks left in a group for files.\<close>
  "room fs i = (case ext2fs_super_and_bgd_loc fs (of_nat i) of None \<Rightarrow> 0 | Some l \<Rightarrow> loc_numblocks l)"

definition reserved :: "ext2_fs \<Rightarrow> nat \<Rightarrow> nat" where
  \<comment> \<open>The blocks of the superblock and the group descriptors.\<close>
  "reserved fs i = nat (int (gend fs i - gstart fs i) - 2 - inode_blocks_per_group fs - room fs i)"

definition roomy :: "ext2_fs \<Rightarrow> bool" where
  \<comment> \<open>Every group has blocks left.\<close>
  "roomy fs \<longleftrightarrow> 0 < inode_blocks_per_group fs \<and> 0 \<le> old_desc_blocks fs \<and> (\<forall>i < groups fs. 0 < room fs i)"

lemma reserve_group:
  assumes "grouped fs" "roomy fs" "mapped fs c bm" "i < groups fs" "c i = 0"
  shows "\<exists>bm'. ext2fs_reserve_super_and_bgd fs (of_nat i) bm = Some (room fs i, bm') \<and> mapped fs (c(i := reserved fs i)) bm'"
    "gstart fs i + reserved fs i + 2 + nat (inode_blocks_per_group fs) + nat (room fs i) = gend fs i"
proof -
  have r: "0 < inode_blocks_per_group fs" "0 \<le> old_desc_blocks fs" "0 < room fs i" using assms(2,4) by (auto simp: roomy_def)
  obtain l where l: "ext2fs_super_and_bgd_loc fs (of_nat i) = Some l" "loc_numblocks l = room fs i"
    using r(3) by (auto simp: room_def split: option.splits)
  obtain bm' q where q: "ext2fs_reserve_super_and_bgd fs (of_nat i) bm = Some (room fs i, bm')" "mapped fs (c(i := q)) bm'"
    "room fs i = int (gend fs i - gstart fs i) - int q - 2 - inode_blocks_per_group fs"
    using reserve_ok[OF assms(1,3-5) r(2,1) l(1)] l(2) r(3) by auto
  have "reserved fs i = q" using q(3) by (simp add: reserved_def)
  then show "\<exists>bm'. ext2fs_reserve_super_and_bgd fs (of_nat i) bm = Some (room fs i, bm') \<and> mapped fs (c(i := reserved fs i)) bm'"
    "gstart fs i + reserved fs i + 2 + nat (inode_blocks_per_group fs) + nat (room fs i) = gend fs i"
    using q r(1,3) gend_bounds(1)[OF assms(1,4)] by auto
qed

lemma reserve_frame [simp]:
  "ext2fs_super_and_bgd_loc (fs\<lparr>block_map := x\<rparr>) = ext2fs_super_and_bgd_loc fs"
  "ext2fs_super_and_bgd_loc (fs\<lparr>group_desc := y\<rparr>) = ext2fs_super_and_bgd_loc fs"
  "ext2fs_super_and_bgd_loc (fs\<lparr>s_free_blocks_count := z\<rparr>) = ext2fs_super_and_bgd_loc fs"
  "old_desc_blocks (fs\<lparr>block_map := x\<rparr>) = old_desc_blocks fs" "old_desc_blocks (fs\<lparr>group_desc := y\<rparr>) = old_desc_blocks fs"
  "old_desc_blocks (fs\<lparr>s_free_blocks_count := z\<rparr>) = old_desc_blocks fs"
  "room (fs\<lparr>block_map := x\<rparr>) = room fs" "room (fs\<lparr>group_desc := y\<rparr>) = room fs" "room (fs\<lparr>s_free_blocks_count := z\<rparr>) = room fs"
  "roomy (fs\<lparr>block_map := x\<rparr>) = roomy fs" "roomy (fs\<lparr>group_desc := y\<rparr>) = roomy fs" "roomy (fs\<lparr>s_free_blocks_count := z\<rparr>) = roomy fs"
  "reserved (fs\<lparr>block_map := x\<rparr>) = reserved fs" "reserved (fs\<lparr>group_desc := y\<rparr>) = reserved fs"
  "reserved (fs\<lparr>s_free_blocks_count := z\<rparr>) = reserved fs"
proof -
  show l: "ext2fs_super_and_bgd_loc (fs\<lparr>block_map := x\<rparr>) = ext2fs_super_and_bgd_loc fs"
    "ext2fs_super_and_bgd_loc (fs\<lparr>group_desc := y\<rparr>) = ext2fs_super_and_bgd_loc fs"
    "ext2fs_super_and_bgd_loc (fs\<lparr>s_free_blocks_count := z\<rparr>) = ext2fs_super_and_bgd_loc fs"
    and o: "old_desc_blocks (fs\<lparr>block_map := x\<rparr>) = old_desc_blocks fs" "old_desc_blocks (fs\<lparr>group_desc := y\<rparr>) = old_desc_blocks fs"
    "old_desc_blocks (fs\<lparr>s_free_blocks_count := z\<rparr>) = old_desc_blocks fs"
    by (simp_all add: fun_eq_iff ext2fs_super_and_bgd_loc_def group_blocks_def group_start_def ext2fs_bg_has_super_def
        has_meta_bg_def old_desc_blocks_def Let_def cong: if_cong)
  show r: "room (fs\<lparr>block_map := x\<rparr>) = room fs" "room (fs\<lparr>group_desc := y\<rparr>) = room fs" "room (fs\<lparr>s_free_blocks_count := z\<rparr>) = room fs"
    by (simp_all add: fun_eq_iff room_def l)
  show "roomy (fs\<lparr>block_map := x\<rparr>) = roomy fs" "roomy (fs\<lparr>group_desc := y\<rparr>) = roomy fs" "roomy (fs\<lparr>s_free_blocks_count := z\<rparr>) = roomy fs"
    "reserved (fs\<lparr>block_map := x\<rparr>) = reserved fs" "reserved (fs\<lparr>group_desc := y\<rparr>) = reserved fs"
    "reserved (fs\<lparr>s_free_blocks_count := z\<rparr>) = reserved fs"
    by (simp_all add: fun_eq_iff roomy_def reserved_def o r)
qed

definition counted :: "ext2_fs \<Rightarrow> nat \<Rightarrow> ext2_group_desc \<Rightarrow> ext2_group_desc" where
  "counted fs i g = g\<lparr>bg_free_blocks_count := of_int (room fs i), bg_free_inodes_count := ucast (s_inodes_per_group fs), bg_used_dirs_count := 0\<rparr>"

lemma reserve_groups_ok:
  assumes "grouped fs" "roomy fs" "mapped fs c bm" "k \<le> groups fs" "length (group_desc fs) = groups fs" "block_map fs = Some bm"
    and "\<forall>i. k \<le> i \<longrightarrow> c i = 0"
  shows "\<exists>bm' gs. reserve_groups [k..<groups fs] fs = Some (fs\<lparr>block_map := Some bm',
        s_free_blocks_count := s_free_blocks_count fs + of_int (\<Sum>i \<in> {k..<groups fs}. room fs i), group_desc := gs\<rparr>)
    \<and> mapped fs (\<lambda>i. if k \<le> i \<and> i < groups fs then reserved fs i else c i) bm'
    \<and> length gs = groups fs \<and> (\<forall>i < groups fs. gs ! i = (if k \<le> i then counted fs i (group_desc fs ! i) else group_desc fs ! i))"
  using assms
proof (induction "groups fs - k" arbitrary: k fs c bm)
  case 0
  then have k: "k = groups fs" by simp
  have "(\<lambda>i. if k \<le> i \<and> i < groups fs then reserved fs i else c i) = c" using k by auto
  then show ?case using "0.prems" k by (intro exI[of _ bm] exI[of _ "group_desc fs"]) auto
next
  case (Suc d)
  note prems = Suc.prems
  have k: "k < groups fs" using Suc.hyps(2) by simp
  have ck: "c k = 0" using prems(7) by simp
  obtain bm1 where t: "ext2fs_reserve_super_and_bgd fs (of_nat k) bm = Some (room fs k, bm1)" "mapped fs (c(k := reserved fs k)) bm1"
    using reserve_group(1)[OF prems(1-3) k ck] by blast
  let ?fs1 = "fs\<lparr>block_map := Some bm1, s_free_blocks_count := s_free_blocks_count fs + of_int (room fs k),
    group_desc := (group_desc fs)[k := counted fs k (group_desc fs ! k)]\<rparr>"
  let ?c1 = "c(k := reserved fs k)"
  have "\<exists>bm' gs. reserve_groups [Suc k..<groups ?fs1] ?fs1 = Some (?fs1\<lparr>block_map := Some bm',
        s_free_blocks_count := s_free_blocks_count ?fs1 + of_int (\<Sum>i \<in> {Suc k..<groups ?fs1}. room ?fs1 i), group_desc := gs\<rparr>)
    \<and> mapped ?fs1 (\<lambda>i. if Suc k \<le> i \<and> i < groups ?fs1 then reserved ?fs1 i else ?c1 i) bm'
    \<and> length gs = groups ?fs1 \<and> (\<forall>i < groups ?fs1. gs ! i = (if Suc k \<le> i then counted ?fs1 i (group_desc ?fs1 ! i) else group_desc ?fs1 ! i))"
    by (rule Suc.hyps(1)) (use prems(1,2,5,7) t(2) k Suc.hyps(2) in \<open>auto simp: fun_upd_def\<close>)
  then obtain bm' gs where raw: "reserve_groups [Suc k..<groups ?fs1] ?fs1 = Some (?fs1\<lparr>block_map := Some bm',
        s_free_blocks_count := s_free_blocks_count ?fs1 + of_int (\<Sum>i \<in> {Suc k..<groups ?fs1}. room ?fs1 i), group_desc := gs\<rparr>)"
    "mapped ?fs1 (\<lambda>i. if Suc k \<le> i \<and> i < groups ?fs1 then reserved ?fs1 i else ?c1 i) bm'"
    "length gs = groups ?fs1"
    "\<forall>i < groups ?fs1. gs ! i = (if Suc k \<le> i then counted ?fs1 i (group_desc ?fs1 ! i) else group_desc ?fs1 ! i)"
    by blast
  have sum: "(\<Sum>i \<in> {k..<groups fs}. room fs i) = room fs k + (\<Sum>i \<in> {Suc k..<groups fs}. room fs i)"
    using k by (simp add: sum.atLeast_Suc_lessThan)
  have r: "reserve_groups [Suc k..<groups fs] ?fs1 = Some (fs\<lparr>block_map := Some bm',
        s_free_blocks_count := s_free_blocks_count fs + of_int (\<Sum>i \<in> {k..<groups fs}. room fs i), group_desc := gs\<rparr>)"
    "mapped fs (\<lambda>i. if Suc k \<le> i \<and> i < groups fs then reserved fs i else ?c1 i) bm'" "length gs = groups fs"
    using raw(1-3) by (simp_all add: sum add.assoc cong: if_cong del: fun_upd_apply)
  have c: "(\<lambda>i. if Suc k \<le> i \<and> i < groups fs then reserved fs i else ?c1 i)
      = (\<lambda>i. if k \<le> i \<and> i < groups fs then reserved fs i else c i)" using k by (auto simp: fun_eq_iff)
  have g: "gs ! i = (if k \<le> i then counted fs i (group_desc fs ! i) else group_desc fs ! i)" if "i < groups fs" for i
    using raw(4) that k prems(5) by (cases "i = k") (auto simp: counted_def)
  have "[k..<groups fs] = k # [Suc k..<groups fs]" using k by (simp add: upt_rec)
  then have "reserve_groups [k..<groups fs] fs = Some (fs\<lparr>block_map := Some bm',
        s_free_blocks_count := s_free_blocks_count fs + of_int (\<Sum>i \<in> {k..<groups fs}. room fs i), group_desc := gs\<rparr>)"
    using t(1) r(1) prems(5,6) k by (simp add: upd_group_nat counted_def)
  then show ?case using r(2)[unfolded c] r(3) g by blast
qed

subsection \<open>The counts\<close>

lemma card_blocks: "e < 2 ^ 32 \<Longrightarrow> card {x :: u32. a \<le> unat x \<and> unat x < e} = e - a"
proof -
  assume e: "e < 2 ^ 32"
  have "{x :: u32. a \<le> unat x \<and> unat x < e} = of_nat ` {a..<e}"
  proof (intro set_eqI iffI)
    fix x :: u32
    assume "x \<in> {x. a \<le> unat x \<and> unat x < e}"
    then show "x \<in> of_nat ` {a..<e}" by (intro image_eqI[of _ _ "unat x"]) simp_all
  next
    fix x :: u32
    assume "x \<in> of_nat ` {a..<e}"
    then show "x \<in> {x. a \<le> unat x \<and> unat x < e}" using e by (auto simp: unat_of_nat)
  qed
  moreover have "inj_on (of_nat :: nat \<Rightarrow> u32) {a..<e}"
  proof (rule inj_onI)
    fix x y assume xy: "x \<in> {a..<e}" "y \<in> {a..<e}" "(of_nat x :: u32) = of_nat y"
    have "unat (of_nat x :: u32) = x" "unat (of_nat y :: u32) = y"
      using xy(1,2) e by (simp_all only: unat_of_nat) simp_all
    then show "x = y" using xy(3) by metis
  qed
  ultimately show ?thesis by (simp add: card_image)
qed

lemma div_range: "0 < n \<Longrightarrow> x div n = k \<longleftrightarrow> k * n \<le> x \<and> x < Suc k * n" for n :: nat
proof
  assume n: "0 < n" and k: "x div n = k"
  have "x = k * n + x mod n" "x mod n < n" using n unfolding k[symmetric] by simp_all
  then show "k * n \<le> x \<and> x < Suc k * n" by (metis add_less_cancel_left le_add1 mult_Suc add.commute)
next
  assume "0 < n" "k * n \<le> x \<and> x < Suc k * n"
  then show "x div n = k" by (intro div_nat_eqI) (simp_all add: mult.commute)
qed

lemma group_members:
  assumes "grouped fs" "k < groups fs"
  shows "blk_in fs b \<and> blk_group fs b = k \<longleftrightarrow> gstart fs k \<le> unat b \<and> unat b < gend fs k"
proof -
  let ?bpg = "unat (s_blocks_per_group fs)" and ?f = "unat (s_first_data_block fs)"
  note g = groupedD[OF assms(1)]
  have grp: "blk_group fs b = (unat b - ?f) div ?bpg" if "?f \<le> unat b"
    using that by (simp add: blk_group_def unat_div unat_offset word_le_nat_alt)
  have e: "gend fs k = min (?f + Suc k * ?bpg) (unat (s_blocks_count fs))" "gstart fs k = ?f + k * ?bpg"
    by (simp_all add: gend_def gstart_def)
  show ?thesis
  proof (cases "?f \<le> unat b")
    case True
    have "(unat b - ?f) div ?bpg = k \<longleftrightarrow> k * ?bpg \<le> unat b - ?f \<and> unat b - ?f < Suc k * ?bpg" by (rule div_range[OF g(3)])
    also have "\<dots> \<longleftrightarrow> ?f + k * ?bpg \<le> unat b \<and> unat b < ?f + Suc k * ?bpg" using True by linarith
    finally show ?thesis using True grp[OF True] e by (auto simp: blk_in_def word_le_nat_alt word_less_nat_alt)
  qed (use e in \<open>auto simp: blk_in_def word_le_nat_alt\<close>)
qed

lemma group_exists:
  assumes "grouped fs" "blk_in fs b"
  shows "blk_group fs b < groups fs"
proof -
  let ?bpg = "unat (s_blocks_per_group fs)" and ?f = "unat (s_first_data_block fs)"
  note g = groupedD[OF assms(1)]
  have b: "?f \<le> unat b" "unat b < unat (s_blocks_count fs)" using assms(2) by (simp_all add: blk_in_def word_le_nat_alt word_less_nat_alt)
  then have "unat b - ?f < groups fs * ?bpg" using g(6) by (simp add: gstart_def)
  then show ?thesis using b(1) g(3) by (simp add: blk_group_def unat_div unat_offset word_le_nat_alt div_less_iff_less_mult)
qed

lemma free_group_count:
  assumes "grouped fs" "mapped fs c bm" "k < groups fs"
  shows "card (free_in_group fs (bm_set bm) k) = gend fs k - (gstart fs k + c k)"
proof -
  have m: "bm_set bm = filled fs c" "inside fs c" using assms(2) by (simp_all add: mapped_def)
  have "b \<in> free_in_group fs (bm_set bm) k \<longleftrightarrow> gstart fs k + c k \<le> unat b \<and> unat b < gend fs k" for b
  proof -
    have "b \<in> free_in_group fs (bm_set bm) k \<longleftrightarrow> b \<notin> bm_set bm \<and> blk_in fs b \<and> blk_group fs b = k"
      by (auto simp: free_in_group_def free_blocks_def)
    also have "\<dots> \<longleftrightarrow> b \<notin> bm_set bm \<and> gstart fs k \<le> unat b \<and> unat b < gend fs k"
      by (simp only: group_members[OF assms(1,3)])
    also have "\<dots> \<longleftrightarrow> gstart fs k + c k \<le> unat b \<and> unat b < gend fs k"
      unfolding m(1) using in_filled[OF assms(1) m(2) assms(3)] by auto
    finally show ?thesis .
  qed
  then have "free_in_group fs (bm_set bm) k = {b. gstart fs k + c k \<le> unat b \<and> unat b < gend fs k}" by auto
  moreover have "gend fs k < 2 ^ 32" using gend_bounds(3)[OF assms(1,3)] groupedD(7)[OF assms(1)] by linarith
  ultimately show ?thesis by (simp add: card_blocks)
qed

lemma free_count:
  assumes "grouped fs" "mapped fs c bm"
  shows "card (free_blocks fs (bm_set bm)) = (\<Sum>k < groups fs. gend fs k - (gstart fs k + c k))"
proof -
  have "free_blocks fs (bm_set bm) = (\<Union>k < groups fs. free_in_group fs (bm_set bm) k)"
    using group_exists[OF assms(1)] by (auto simp: free_in_group_def free_blocks_def)
  moreover have "card (\<Union>k < groups fs. free_in_group fs (bm_set bm) k) = (\<Sum>k < groups fs. card (free_in_group fs (bm_set bm) k))"
    by (rule card_UN_disjoint) (auto simp: free_in_group_def)
  ultimately show ?thesis using free_group_count[OF assms] by simp
qed

lemma books_ok:
  assumes "grouped fs" "roomy fs" "mapped fs c bm" "block_map fs = Some bm" "length (group_desc fs) = groups fs"
    and "fs_magic fs = EXT2_ET_MAGIC_EXT2FS_FILSYS" "\<forall>i < groups fs. int (gstart fs i + c i) + room fs i = int (gend fs i)"
    and "\<forall>i < groups fs. bg_free_blocks_count (group_desc fs ! i) = of_int (room fs i)"
    and "s_free_blocks_count fs = of_int (\<Sum>i < groups fs. room fs i)"
  shows "books fs (bm_set bm)"
proof -
  note g = groupedD[OF assms(1)]
  have room: "room fs k = int (gend fs k - (gstart fs k + c k))" if "k < groups fs" for k
  proof -
    have "0 < room fs k" using assms(2) that by (simp add: roomy_def)
    then show ?thesis using assms(7)[rule_format, OF that] by linarith
  qed
  have group: "unat (bg_free_blocks_count (group_desc fs ! k)) = card (free_in_group fs (bm_set bm) k)" if "k < groups fs" for k
  proof -
    have "gend fs k - (gstart fs k + c k) < 65536" using gend_bounds(2)[OF assms(1) that] g(4) by linarith
    then show ?thesis using assms(8) that room[OF that] free_group_count[OF assms(1,3) that] by (simp add: unat_of_nat)
  qed
  have "(\<Sum>i < groups fs. room fs i) = int (card (free_blocks fs (bm_set bm)))"
    using free_count[OF assms(1,3)] room by simp
  moreover have "card (free_blocks fs (bm_set bm)) \<le> card {x :: u32. 0 \<le> unat x \<and> unat x < unat (s_blocks_count fs)}"
    by (rule card_mono) (auto simp: free_blocks_def blk_in_def word_less_nat_alt)
  then have "card (free_blocks fs (bm_set bm)) \<le> unat (s_blocks_count fs)" using g(7) by (subst (asm) card_blocks) simp_all
  then have "card (free_blocks fs (bm_set bm)) < 2 ^ 32" using g(7) by linarith
  ultimately have total: "unat (s_free_blocks_count fs) = card (free_blocks fs (bm_set bm))"
    using assms(9) by (simp add: unat_of_nat)
  have "s_first_data_block fs < s_blocks_count fs" using g(5) by (simp add: gstart_def word_less_nat_alt)
  then show ?thesis unfolding books_def
    using assms(3-6) group total g(2-4) group_exists[OF assms(1)]
    by (auto simp: mapped_def word_less_nat_alt)
qed

subsection \<open>The check accepts them\<close>

definition in_place :: "ext2_fs \<Rightarrow> nat \<Rightarrow> ext2_group_desc \<Rightarrow> bool" where
  "in_place fs i g \<longleftrightarrow> bg_block_bitmap g = of_nat (gstart fs i + reserved fs i)
     \<and> bg_inode_bitmap g = of_nat (gstart fs i + reserved fs i + 1) \<and> bg_inode_table g = of_nat (gstart fs i + reserved fs i + 2)"

lemma check_groups_ok:
  assumes "grouped fs" "0 < inode_blocks_per_group fs"
    and "\<forall>i < groups fs. gstart fs i + reserved fs i + 2 + nat (inode_blocks_per_group fs) < gend fs i"
    and "length gs = groups fs" "\<forall>i < groups fs. in_place fs i (gs ! i)"
  shows "k \<le> groups fs \<Longrightarrow> check_groups fs (drop k gs) (of_nat (gstart fs k)) = OK"
proof (induction "groups fs - k" arbitrary: k)
  case 0
  then show ?case using assms(4) by simp
next
  case (Suc d)
  then have k: "k < groups fs" by simp
  have d: "drop k gs = gs ! k # drop (Suc k) gs" using k assms(4) by (simp add: Cons_nth_drop_Suc)
  have u: "unat (of_nat m :: u32) = m" if "m \<le> gstart fs k + unat (s_blocks_per_group fs)" for m
    using that gend_bounds(4)[OF assms(1) k] by (simp add: unat_of_nat)
  have next_blk: "of_nat (gstart fs k) + s_blocks_per_group fs = (of_nat (gstart fs (Suc k)) :: u32)"
    by (simp add: gstart_next)
  have b: "gend fs k \<le> gstart fs k + unat (s_blocks_per_group fs)" by (rule gend_bounds(2)[OF assms(1) k])
  have room: "gstart fs k + reserved fs k + 2 + nat (inode_blocks_per_group fs) < gend fs k" using assms(3) k by blast
  have table: "(of_nat (gstart fs k + reserved fs k + 2) :: u32) + of_int (inode_blocks_per_group fs)
      = of_nat (gstart fs k + reserved fs k + 2 + nat (inode_blocks_per_group fs))"
    using assms(2) by (simp add: of_nat_nat)
  have p: "in_place fs k (gs ! k)" using assms(5) k by blast
  have le: "\<not> (of_nat m :: u32) < of_nat (gstart fs k)" "\<not> of_nat (gstart fs (Suc k)) \<le> (of_nat m :: u32)"
    if "gstart fs k \<le> m" "m < gend fs k" for m
    using that u[of m] u[of "gstart fs k"] u[of "gstart fs (Suc k)"] b gstart_next[of fs k]
    by (simp_all add: word_less_nat_alt word_le_nat_alt del: of_nat_add)
  have "check_groups fs (drop (Suc k) gs) (of_nat (gstart fs (Suc k))) = OK"
    using Suc k by (intro Suc.hyps(1)) simp_all
  moreover have at: "gstart fs k \<le> gstart fs k + reserved fs k" "gstart fs k + reserved fs k < gend fs k" "gstart fs k \<le> gstart fs k + reserved fs k + 1" "gstart fs k + reserved fs k + 1 < gend fs k"
    "gstart fs k \<le> gstart fs k + reserved fs k + 2" "gstart fs k + reserved fs k + 2 < gend fs k" "gstart fs k \<le> gstart fs k + reserved fs k + 2 + nat (inode_blocks_per_group fs)" "gstart fs k + reserved fs k + 2 + nat (inode_blocks_per_group fs) < gend fs k"
    using room by simp_all
  moreover have "\<not> bg_block_bitmap (gs ! k) < of_nat (gstart fs k)" "\<not> of_nat (gstart fs (Suc k)) \<le> bg_block_bitmap (gs ! k)"
    using p le[OF at(1,2)] by (simp_all only: in_place_def simp_thms)
  moreover have "\<not> bg_inode_bitmap (gs ! k) < of_nat (gstart fs k)" "\<not> of_nat (gstart fs (Suc k)) \<le> bg_inode_bitmap (gs ! k)"
    using p le[OF at(3,4)] by (simp_all only: in_place_def simp_thms)
  moreover have "\<not> bg_inode_table (gs ! k) < of_nat (gstart fs k)" using p le(1)[OF at(5,6)] by (simp only: in_place_def simp_thms)
  moreover have "\<not> of_nat (gstart fs (Suc k)) \<le> bg_inode_table (gs ! k) + of_int (inode_blocks_per_group fs)"
    using p table le(2)[OF at(7,8)] by (simp only: in_place_def simp_thms)
  ultimately show ?case unfolding d by (simp add: next_blk Let_def)
qed

end
