(* ===== verification/Ext2_New.thy ===== *)
theory Ext2_New
  imports Ext2_Format
begin

unbundle bit_operations_syntax

text \<open>
  \<open>ext2fs_initialize\<close> makes a filesystem whose groups \<open>Ext2_Format\<close> speaks of: what the plan
  establishes, and the properties of the new filesystem after \<open>ext2fs_allocate_tables\<close>.
\<close>

subsection \<open>The plan\<close>

definition sized :: "ext2_param \<Rightarrow> ext2_fs \<Rightarrow> bool" where
  "sized param fs \<longleftrightarrow> s_first_data_block fs \<le> s_blocks_count fs \<and> s_blocks_count fs \<le> p_blocks_count param
     \<and> s_blocks_per_group fs \<le> EXT2_MAX_BLOCKS_PER_GROUP"

definition same_rest :: "ext2_fs \<Rightarrow> ext2_fs \<Rightarrow> bool" where
  \<comment> \<open>The fields the plan does not change.\<close>
  "same_rest fs fs' \<longleftrightarrow> fs_magic fs' = fs_magic fs \<and> fs_stride fs' = fs_stride fs \<and> s_first_data_block fs' = s_first_data_block fs
     \<and> fs_blocksize fs' = fs_blocksize fs \<and> fs_device_name fs' = fs_device_name fs \<and> fs_io fs' = fs_io fs"

definition planned :: "ext2_fs \<Rightarrow> bool" where
  "planned fs \<longleftrightarrow> s_blocks_per_group fs \<noteq> 0 \<and> group_desc_count fs \<noteq> 0
     \<and> group_desc_count fs = (s_blocks_count fs - s_first_data_block fs + s_blocks_per_group fs - 1) div s_blocks_per_group fs
     \<and> s_inodes_per_group fs AND 7 = 0 \<and> s_inodes_count fs = s_inodes_per_group fs * group_desc_count fs
     \<and> (\<exists>n. overhead fs = Some n \<and> n \<le> s_blocks_per_group fs
          \<and> (let rem = (s_blocks_count fs - s_first_data_block fs) mod s_blocks_per_group fs in rem = 0 \<or> n + 50 \<le> rem))"

lemma plan_step_cases:
  assumes "plan_step param f fs = Some r" "\<forall>e. r \<noteq> Fail e"
  obtains (smaller) fs1 where "r = Retry fs1" "same_rest fs fs1" "s_blocks_per_group fs1 = s_blocks_per_group fs - 8"
      "256 \<le> s_blocks_per_group fs" "s_blocks_count fs1 = p_blocks_count param"
  | (cut) fs1 where "r = Retry fs1" "same_rest fs fs1" "s_blocks_per_group fs1 = s_blocks_per_group fs"
      "s_blocks_count fs1 = s_blocks_count fs - (s_blocks_count fs - s_first_data_block fs) mod s_blocks_per_group fs"
  | (finished) fs1 where "r = Done fs1" "same_rest fs fs1" "s_blocks_per_group fs1 = s_blocks_per_group fs"
      "s_blocks_count fs1 = s_blocks_count fs" "planned fs1"
proof -
  obtain q where "plan_groups fs = Some q" using assms by (cases "plan_groups fs") (simp_all add: plan_step_def)
  then obtain fs1 where g: "plan_groups fs = Some (Inr fs1)" using assms by (cases q) (auto simp: plan_step_def)
  have fs1: "same_rest fs fs1" "s_blocks_count fs1 = s_blocks_count fs" "s_blocks_per_group fs1 = s_blocks_per_group fs"
    "s_blocks_per_group fs \<noteq> 0" "group_desc_count fs1 \<noteq> 0"
    "group_desc_count fs1 = (s_blocks_count fs - s_first_data_block fs + s_blocks_per_group fs - 1) div s_blocks_per_group fs"
    using g by (auto simp: plan_groups_def same_rest_def Let_def split: if_splits)
  let ?fs = "fs1\<lparr>s_inodes_count := wanted_inodes param fs1\<rparr>"
  let ?ipg = "(s_inodes_count ?fs + group_desc_count ?fs - 1) div group_desc_count ?fs"
  show thesis
  proof (cases "fs_blocksize ?fs * 8 < ?ipg")
    case True
    let ?bpg = "s_blocks_per_group fs1 - 8"
    have "r = (if 256 \<le> s_blocks_per_group fs1 then Retry (?fs\<lparr>s_blocks_per_group := ?bpg, s_blocks_count := p_blocks_count param,
        fs_super := (fs_super ?fs)\<lparr>s_frags_per_group := ?bpg * f\<rparr>\<rparr>) else Fail EXT2_ET_TOO_MANY_INODES)"
      using assms(1) g True by (simp add: plan_step_def Let_def)
    then have r: "256 \<le> s_blocks_per_group fs1" "r = Retry (?fs\<lparr>s_blocks_per_group := ?bpg, s_blocks_count := p_blocks_count param,
        fs_super := (fs_super ?fs)\<lparr>s_frags_per_group := ?bpg * f\<rparr>\<rparr>)"
      using assms(2) by (auto split: if_splits)
    show thesis by (rule smaller[OF r(2)]) (use fs1 r(1) in \<open>simp_all add: same_rest_def\<close>)
  next
    case False
    then obtain fs2 fs3 where e: "plan_inodes ?fs ?ipg = Some fs2" "plan_reserved param fs2 = Some fs3" "plan_end fs3 = Some r"
      using assms(1) g by (auto simp: plan_step_def Let_def bind_Some_iff)
    have k: "same_rest fs fs3" "s_blocks_count fs3 = s_blocks_count fs" "s_blocks_per_group fs3 = s_blocks_per_group fs"
      "group_desc_count fs3 = group_desc_count fs1"
      using e(1,2) fs1(1-3) by (auto simp: plan_inodes_def plan_reserved_def same_rest_def Let_def bind_Some_iff split: if_splits)
    have mask: "(y AND NOT 7) AND 7 = (0 :: u32)" for y by (simp add: and.assoc)
    have i: "s_inodes_per_group fs3 AND 7 = 0" "s_inodes_count fs3 = s_inodes_per_group fs3 * group_desc_count fs3"
      using e(1,2) mask by (auto simp: plan_inodes_def plan_reserved_def Let_def bind_Some_iff split: if_splits)
    obtain n where n: "overhead fs3 = Some n" "n \<le> s_blocks_per_group fs3"
      using e(3) assms(2) by (auto simp: plan_end_def bind_Some_iff split: if_splits)
    let ?rem = "(s_blocks_count fs3 - s_first_data_block fs3) mod s_blocks_per_group fs3"
    have "r = Retry (fs3\<lparr>s_blocks_count := s_blocks_count fs3 - ?rem\<rparr>) \<or> r = Done fs3 \<and> (?rem = 0 \<or> n + 50 \<le> ?rem)"
      using e(3) assms(2) n by (auto simp: plan_end_def Let_def not_less split: if_splits)
    then show thesis
    proof
      assume r: "r = Retry (fs3\<lparr>s_blocks_count := s_blocks_count fs3 - ?rem\<rparr>)"
      show thesis by (rule cut[OF r]) (use k in \<open>simp_all add: same_rest_def\<close>)
    next
      assume r: "r = Done fs3 \<and> (?rem = 0 \<or> n + 50 \<le> ?rem)"
      then have "planned fs3" using k fs1 n i by (auto simp: planned_def same_rest_def Let_def)
      then show thesis using r k by (intro finished) auto
    qed
  qed
qed

lemma same_rest_trans: "same_rest a b \<Longrightarrow> same_rest b c \<Longrightarrow> same_rest a c"
  by (simp add: same_rest_def)

lemma make_plan_ok:
  "make_plan param f fs = Some (Inr fs') \<Longrightarrow> sized param fs \<Longrightarrow> same_rest fs fs' \<and> sized param fs' \<and> planned fs'"
proof (induction param f fs rule: make_plan.induct)
  case (1 param f fs)
  note prems = "1.prems"
  show ?case
  proof (cases "plan_step param f fs")
    case None
    then show ?thesis using prems(1) by (simp add: make_plan.simps)
  next
    case (Some r)
    have nf: "\<forall>e. r \<noteq> Fail e" using prems(1) Some by (auto simp: make_plan.simps)
    show ?thesis
    proof (cases rule: plan_step_cases[OF Some nf])
      case (1 fs1)
      have "s_blocks_per_group fs - 8 \<le> s_blocks_per_group fs" using 1(4) by (auto simp: word_le_nat_alt unat_sub)
      moreover have "s_first_data_block fs \<le> p_blocks_count param" using prems(2) by (auto simp: sized_def)
      ultimately have "sized param fs1" using 1 prems(2) by (auto simp: sized_def same_rest_def)
      moreover have "make_plan param f fs1 = Some (Inr fs')" using prems(1) Some 1(1) by (simp add: make_plan.simps[of _ _ fs])
      ultimately show ?thesis using "1.IH"[OF Some[unfolded 1(1)] refl] 1(2) same_rest_trans by blast
    next
      case (2 fs1)
      let ?m = "s_blocks_count fs - s_first_data_block fs"
      have le: "s_first_data_block fs \<le> s_blocks_count fs" using prems(2) by (simp add: sized_def)
      have "unat (?m mod s_blocks_per_group fs) \<le> unat ?m" by (simp add: unat_mod)
      then have "unat (?m mod s_blocks_per_group fs) \<le> unat (s_blocks_count fs) - unat (s_first_data_block fs)"
        by (simp add: unat_offset[OF le])
      then have "s_first_data_block fs1 \<le> s_blocks_count fs1" "s_blocks_count fs1 \<le> s_blocks_count fs"
        using 2(2,4) le by (simp_all add: same_rest_def word_le_nat_alt unat_sub)
      then have "sized param fs1" using 2 prems(2) by (auto simp: sized_def same_rest_def)
      moreover have "make_plan param f fs1 = Some (Inr fs')" using prems(1) Some 2(1) by (simp add: make_plan.simps[of _ _ fs])
      ultimately show ?thesis using "1.IH"[OF Some[unfolded 2(1)] refl] 2(2) same_rest_trans by blast
    next
      case (3 fs1)
      then have "fs' = fs1" using prems(1) Some by (simp add: make_plan.simps)
      then show ?thesis using 3 prems(2) by (auto simp: sized_def same_rest_def)
    qed
  qed
qed

lemma room_small:
  assumes "roomy fs" "s_blocks_per_group fs < 65536" "0 < groups fs"
  shows "3 < unat (s_blocks_per_group fs)"
proof -
  have r: "0 < inode_blocks_per_group fs" "0 \<le> old_desc_blocks fs" "0 < room fs 0" using assms(1,3) by (auto simp: roomy_def)
  obtain l where l: "ext2fs_super_and_bgd_loc fs 0 = Some l" "0 < loc_numblocks l"
    using r(3) by (auto simp: room_def split: option.splits)
  have "loc_numblocks l \<le> group_blocks fs 0 - 2 - inode_blocks_per_group fs"
    using l(1) r(2) by (auto simp: ext2fs_super_and_bgd_loc_def Let_def bind_Some_iff split: if_splits)
  moreover have small: "sint x = int (unat x)" if "x < 65536" for x :: u32
    using that by (intro sint_unat_small) (simp add: word_less_nat_alt)
  have "group_blocks fs 0 \<le> int (unat (s_blocks_per_group fs))"
  proof (cases "s_blocks_per_group fs = 0")
    case True
    then have "ext2fs_super_and_bgd_loc fs 0 = None \<or> group_blocks fs 0 = 0"
      by (simp add: ext2fs_super_and_bgd_loc_def group_blocks_def)
    then show ?thesis using l(1) by auto
  next
    case False
    let ?r = "(s_blocks_count fs - s_first_data_block fs) mod s_blocks_per_group fs"
    have "unat ?r < unat (s_blocks_per_group fs)" using False by (simp add: unat_mod unat_gt_0)
    moreover from this have "?r < 65536" using assms(2) by (auto simp: word_less_nat_alt)
    ultimately have "sint ?r \<le> int (unat (s_blocks_per_group fs))" using small[of ?r] by linarith
    then show ?thesis using small[OF assms(2)] unfolding group_blocks_def Let_def by auto
  qed
  ultimately show ?thesis using l(2) r(1) by linarith
qed

lemma plan_count:
  assumes "sized param fs" "unat (p_blocks_count param) + 65536 \<le> 2 ^ 32"
    and "s_blocks_per_group fs \<noteq> 0" "group_desc_count fs \<noteq> 0"
    and "group_desc_count fs = (s_blocks_count fs - s_first_data_block fs + s_blocks_per_group fs - 1) div s_blocks_per_group fs"
  shows "gstart fs (groups fs - 1) < unat (s_blocks_count fs)" "unat (s_blocks_count fs) \<le> gstart fs (groups fs)"
    "0 < unat (s_blocks_per_group fs)" "unat (s_blocks_per_group fs) < 65536" "unat (s_blocks_count fs) + 65536 \<le> 2 ^ 32"
proof -
  let ?B = "unat (s_blocks_per_group fs)" and ?m = "unat (s_blocks_count fs) - unat (s_first_data_block fs)"
  have s: "s_first_data_block fs \<le> s_blocks_count fs" "unat (s_blocks_count fs) \<le> unat (p_blocks_count param)"
    "s_blocks_per_group fs \<le> 65528"
    using assms(1) by (simp_all add: sized_def EXT2_MAX_BLOCKS_PER_GROUP_def word_le_nat_alt)
  have "unat (s_blocks_per_group fs) \<le> unat (65528 :: u32)" using s(3) by (simp only: word_le_nat_alt)
  then show B: "0 < ?B" "?B < 65536" using assms(3) by (simp_all add: unat_gt_0)
  show bc: "unat (s_blocks_count fs) + 65536 \<le> 2 ^ 32" using s(2) assms(2) by linarith
  have f: "unat (s_first_data_block fs) \<le> unat (s_blocks_count fs)" using s(1) by (simp add: word_le_nat_alt)
  have "unat (s_blocks_count fs - s_first_data_block fs) = ?m" by (rule unat_offset[OF s(1)])
  moreover have "?m + ?B < 2 ^ 32" using B bc by linarith
  ultimately have "unat (s_blocks_count fs - s_first_data_block fs + s_blocks_per_group fs) = ?m + ?B" by (simp add: unat_word_ariths)
  then have "unat (s_blocks_count fs - s_first_data_block fs + s_blocks_per_group fs - 1) = ?m + ?B - 1"
    using B(1) unat_minus_1[of _ "?m + ?B - 1"] by simp
  then have n: "groups fs = (?m + ?B - 1) div ?B" using assms(5) by (simp add: unat_div)
  have n0: "0 < groups fs" using assms(4) by (simp add: unat_gt_0)
  have m0: "0 < ?m"
  proof (rule ccontr)
    assume "\<not> 0 < ?m"
    then have "groups fs = (?B - 1) div ?B" using n by simp
    then show False using n0 B(1) by simp
  qed
  have "?m + ?B - 1 = (?m - 1) + ?B" using m0 by simp
  moreover have "(x + ?B) div ?B = Suc (x div ?B)" for x by (subst div_add_self2) (use B(1) in linarith, simp)
  ultimately have n1: "groups fs = Suc ((?m - 1) div ?B)" using n by metis
  have "groups fs - 1 = (?m - 1) div ?B" using n1 by simp
  moreover have "(?m - 1) div ?B * ?B \<le> ?m - 1" by (rule div_times_less_eq_dividend)
  ultimately have "(groups fs - 1) * ?B \<le> ?m - 1" by (simp only:)
  then have "(groups fs - 1) * ?B < ?m" using m0 by linarith
  then show "gstart fs (groups fs - 1) < unat (s_blocks_count fs)" using f by (simp add: gstart_def)
  have "?m - 1 < Suc ((?m - 1) div ?B) * ?B" using B(1) by (metis dividend_less_div_times mult_Suc add.commute)
  then have "?m \<le> groups fs * ?B" unfolding n1 by linarith
  then show "unat (s_blocks_count fs) \<le> gstart fs (groups fs)" using f by (simp add: gstart_def)
qed

lemma planned_grouped:
  assumes "planned fs" "sized param fs" "unat (p_blocks_count param) + 65536 \<le> 2 ^ 32" "roomy fs"
  shows "grouped fs"
proof -
  have p: "s_blocks_per_group fs \<noteq> 0" "group_desc_count fs \<noteq> 0"
    "group_desc_count fs = (s_blocks_count fs - s_first_data_block fs + s_blocks_per_group fs - 1) div s_blocks_per_group fs"
    using assms(1) by (auto simp: planned_def)
  note c = plan_count[OF assms(2,3) p]
  have n: "0 < groups fs" using p(2) by (simp add: unat_gt_0)
  have "3 < unat (s_blocks_per_group fs)" using room_small[OF assms(4) _ n] c(4) by (simp add: word_less_nat_alt)
  then have "(groups fs - 1) * 4 \<le> (groups fs - 1) * unat (s_blocks_per_group fs)" by (intro mult_le_mono2) simp
  then have "(groups fs - 1) * 4 < 2 ^ 32" using c(1,5) unfolding gstart_def by linarith
  then have "groups fs < 2 ^ 31" by simp
  then show ?thesis using c p(2) by (simp add: grouped_def unat_gt_0)
qed

subsection \<open>After the plan\<close>

definition same_layout :: "ext2_fs \<Rightarrow> ext2_fs \<Rightarrow> bool" where
  "same_layout fs fs' \<longleftrightarrow> s_first_data_block fs' = s_first_data_block fs \<and> s_blocks_per_group fs' = s_blocks_per_group fs
     \<and> s_blocks_count fs' = s_blocks_count fs \<and> group_desc_count fs' = group_desc_count fs \<and> fs_super fs' = fs_super fs
     \<and> fs_blocksize fs' = fs_blocksize fs \<and> desc_blocks fs' = desc_blocks fs
     \<and> inode_blocks_per_group fs' = inode_blocks_per_group fs \<and> s_inodes_per_group fs' = s_inodes_per_group fs"

lemma same_layout_eq:
  assumes "same_layout fs fs'"
  shows "groups fs' = groups fs" "gstart fs' = gstart fs" "gend fs' = gend fs" "grouped fs' = grouped fs" "filled fs' = filled fs"
    "inside fs' = inside fs" "mapped fs' = mapped fs" "room fs' = room fs" "roomy fs' = roomy fs" "reserved fs' = reserved fs"
    "counted fs' = counted fs"
proof -
  have e: "s_first_data_block fs' = s_first_data_block fs" "s_blocks_per_group fs' = s_blocks_per_group fs"
    "s_blocks_count fs' = s_blocks_count fs" "group_desc_count fs' = group_desc_count fs" "fs_super fs' = fs_super fs"
    "fs_blocksize fs' = fs_blocksize fs" "desc_blocks fs' = desc_blocks fs"
    "inode_blocks_per_group fs' = inode_blocks_per_group fs" "s_inodes_per_group fs' = s_inodes_per_group fs"
    using assms by (simp_all add: same_layout_def)
  show g: "groups fs' = groups fs" "gstart fs' = gstart fs" "gend fs' = gend fs" "grouped fs' = grouped fs" "filled fs' = filled fs"
    "inside fs' = inside fs" "mapped fs' = mapped fs"
    by (simp_all add: e fun_eq_iff gstart_def gend_def grouped_def filled_def inside_def mapped_def)
  have p: "group_start fs' = group_start fs" "group_blocks fs' = group_blocks fs" "ext2fs_bg_has_super fs' = ext2fs_bg_has_super fs"
    "has_meta_bg fs' = has_meta_bg fs"
    by (simp_all add: e fun_eq_iff group_blocks_def group_start_def ext2fs_bg_has_super_def has_meta_bg_def Let_def)
  have o: "old_desc_blocks fs' = old_desc_blocks fs" by (simp add: e p old_desc_blocks_def)
  have "ext2fs_super_and_bgd_loc fs' = ext2fs_super_and_bgd_loc fs"
    by (rule ext) (simp only: ext2fs_super_and_bgd_loc_def e p o)
  with o show "room fs' = room fs" "roomy fs' = roomy fs" "reserved fs' = reserved fs" "counted fs' = counted fs"
    by (simp_all add: e g fun_eq_iff room_def roomy_def reserved_def counted_def)
qed

lemma empty_mapped:
  assumes "grouped fs" "bm_over (s_first_data_block fs) (s_blocks_count fs - 1) b" "bm_set b = {}"
  shows "mapped fs (\<lambda>_. 0) b"
proof -
  have "inside fs (\<lambda>_. 0)" using gend_bounds(1)[OF assms(1)] by (auto simp: inside_def less_imp_le)
  moreover have "filled fs (\<lambda>_. 0) = {}" by (auto simp: filled_def)
  ultimately show ?thesis using assms by (simp add: mapped_def)
qed

lemma block_bitmap_ok:
  assumes "ext2fs_allocate_block_bitmap mem fs d = Some (Inr b)" "grouped fs"
  shows "mapped fs (\<lambda>_. 0) b"
proof -
  let ?r = "s_blocks_per_group fs * group_desc_count fs - 1 + s_first_data_block fs"
  let ?fix = "\<lambda>bm. bm\<lparr>bm_magic := EXT2_ET_MAGIC_BLOCK_BITMAP, bm_error := EXT2_ET_BAD_BLOCK_MARK\<rparr>"
  note g = groupedD[OF assms(2)]
  obtain b0 where b0: "make_bitmap mem (s_first_data_block fs) (s_blocks_count fs - 1) ?r d None = Some (Inr b0)" "b = ?fix b0"
  proof -
    obtain q where q: "make_bitmap mem (s_first_data_block fs) (s_blocks_count fs - 1) ?r d None = Some q"
      "(case q of Inl e \<Rightarrow> Inl e | Inr bm \<Rightarrow> Inr (?fix bm)) = Inr b"
      using assms(1) by (auto simp: ext2fs_allocate_block_bitmap_def ext2fs_allocate_generic_bitmap_def bind_Some_iff Let_def
          split: if_splits)
    then show thesis using that by (cases q) simp_all
  qed
  have lt: "gstart fs (groups fs) < 2 ^ 32"
    using gstart_next[of fs "groups fs - 1"] g(1,4,5,7) by simp
  have req: "?r = of_nat (gstart fs (groups fs)) - 1" by (simp add: gstart_def mult.commute)
  have "0 < gstart fs (groups fs)" using g(1,3) by (simp add: gstart_def)
  then have r: "unat ?r = gstart fs (groups fs) - 1"
    unfolding req using lt by (intro unat_minus_1) (simp add: unat_of_nat)
  have e: "unat (s_blocks_count fs - 1) = unat (s_blocks_count fs) - 1"
    using blocks_count_nz[OF assms(2)] unat_minus_1[of "s_blocks_count fs" "unat (s_blocks_count fs) - 1"] by simp
  have f: "unat (s_first_data_block fs) < unat (s_blocks_count fs)" using g(5) by (simp add: gstart_def)
  have "s_first_data_block fs \<le> s_blocks_count fs - 1" using e f by (simp add: word_le_nat_alt)
  moreover have "s_blocks_count fs - 1 \<le> ?r" using e f r g(6) unfolding word_le_nat_alt by linarith
  ultimately have "bm_over (s_first_data_block fs) (s_blocks_count fs - 1) b0" "bm_set b0 = {}"
    using make_ok[OF b0(1)] by blast+
  then have "bm_over (s_first_data_block fs) (s_blocks_count fs - 1) b" "bm_set b = {}"
    by (auto simp: b0(2) bm_over_def bm_ok_def bm_set_def bm_bit_def)
  then show ?thesis by (rule empty_mapped[OF assms(2)])
qed

definition initialized :: "ext2_fs \<Rightarrow> bool" where
  \<comment> \<open>A filesystem whose superblocks and descriptors are reserved, and whose tables are counted but not placed.\<close>
  "initialized fs \<longleftrightarrow> fs_magic fs = EXT2_ET_MAGIC_EXT2FS_FILSYS \<and> fs_stride fs = 0 \<and> length (group_desc fs) = groups fs
     \<and> (\<exists>bm. block_map fs = Some bm \<and> mapped fs (\<lambda>i. if i < groups fs then reserved fs i else 0) bm)
     \<and> (\<forall>i < groups fs. group_desc fs ! i = counted fs i blank_desc)
     \<and> s_free_blocks_count fs = of_int (\<Sum>i < groups fs. room fs i)"

lemma same_layout_trans: "same_layout a b \<Longrightarrow> same_layout b c \<Longrightarrow> same_layout a c"
  by (simp add: same_layout_def)

lemma upd_group_layout: "upd_group fs k f = Some fs' \<Longrightarrow> same_layout fs fs'"
  by (auto simp: upd_group_def same_layout_def bind_Some_iff split: if_splits)

lemma reserve_groups_layout: "reserve_groups is fs = Some fs' \<Longrightarrow> same_layout fs fs'"
proof (induction "is" fs rule: reserve_groups.induct)
  case (1 fs)
  then show ?case by (simp add: same_layout_def)
next
  case (2 i "is" fs)
  obtain bm n bm' fs1 where s: "block_map fs = Some bm" "ext2fs_reserve_super_and_bgd fs (of_nat i) bm = Some (n, bm')"
    "upd_group (fs\<lparr>block_map := Some bm', s_free_blocks_count := s_free_blocks_count fs + of_int n\<rparr>) (int i)
      (\<lambda>g. g\<lparr>bg_free_blocks_count := of_int n, bg_free_inodes_count := ucast (s_inodes_per_group fs), bg_used_dirs_count := 0\<rparr>) = Some fs1"
    "reserve_groups is fs1 = Some fs'"
    using "2.prems" by (auto simp: bind_Some_iff)
  have "same_layout fs1 fs'" using "2.IH"[OF s(1) s(2) refl refl, of fs1] s(3,4) by simp
  moreover have "same_layout fs (fs\<lparr>block_map := Some bm', s_free_blocks_count := s_free_blocks_count fs + of_int n\<rparr>)"
    by (simp add: same_layout_def)
  ultimately show ?case using upd_group_layout[OF s(3)] same_layout_trans by blast
qed

lemma blank_groups_fields [simp]:
  "block_map (blank_groups fs) = block_map fs" "group_desc (blank_groups fs) = replicate (groups fs) blank_desc"
  "s_free_blocks_count (blank_groups fs) = 0" "group_desc_count (blank_groups fs) = group_desc_count fs"
  "fs_magic (blank_groups fs) = fs_magic fs" "fs_stride (blank_groups fs) = fs_stride fs" "fs_io (blank_groups fs) = fs_io fs"
  "fs_blocksize (blank_groups fs) = fs_blocksize fs"
  by (simp_all add: blank_groups_def)

lemma finish_parts:
  assumes "finish_fs mem junk fs = Some (Inr fs')"
  obtains b im fs3 ch where
    "ext2fs_allocate_block_bitmap mem fs (Some (''block bitmap for '' @ fs_device_name fs)) = Some (Inr b)"
    "reserve_groups [0..<groups fs] (blank_groups (fs\<lparr>block_map := Some b, inode_map := Some im\<rparr>)) = Some fs3"
    "fs' = (ext2fs_mark_ib_dirty (ext2fs_mark_bb_dirty (ext2fs_mark_super_dirty fs3)))\<lparr>fs_io := ch\<rparr>"
proof -
  let ?bb = "ext2fs_allocate_block_bitmap mem fs (Some (''block bitmap for '' @ fs_device_name fs))"
  obtain q where "?bb = Some q" using assms by (cases ?bb) (simp_all add: finish_fs_def Let_def split: if_splits)
  then obtain b where b: "?bb = Some (Inr b)" using assms by (cases q) (simp_all add: finish_fs_def Let_def split: if_splits)
  let ?ib = "ext2fs_allocate_inode_bitmap mem (fs\<lparr>block_map := Some b\<rparr>) (Some (''inode bitmap for '' @ fs_device_name fs))"
  obtain q where "?ib = Some q" using assms b by (cases ?ib) (simp_all add: finish_fs_def Let_def split: if_splits)
  then obtain im where "?ib = Some (Inr im)" using assms b by (cases q) (simp_all add: finish_fs_def Let_def split: if_splits)
  then show thesis using assms b that by (auto simp: finish_fs_def Let_def bind_Some_iff split: if_splits)
qed

lemma finish_result:
  assumes "finish_fs mem junk fs = Some (Inr fs')" "grouped fs" "roomy fs'"
    and "fs_magic fs = EXT2_ET_MAGIC_EXT2FS_FILSYS" "fs_stride fs = 0"
  shows "same_layout fs fs' \<and> initialized fs'"
proof -
  let ?name = "fs_device_name fs"
  let ?fs2 = "\<lambda>b im. blank_groups (fs\<lparr>block_map := Some b, inode_map := Some im\<rparr>)"
  obtain b im fs3 ch where f: "ext2fs_allocate_block_bitmap mem fs (Some (''block bitmap for '' @ ?name)) = Some (Inr b)"
    "reserve_groups [0..<groups fs] (?fs2 b im) = Some fs3"
    "fs' = (ext2fs_mark_ib_dirty (ext2fs_mark_bb_dirty (ext2fs_mark_super_dirty fs3)))\<lparr>fs_io := ch\<rparr>"
    by (rule finish_parts[OF assms(1)])
  let ?fs2 = "?fs2 b im"
  note b = f(1) and r = f(2,3)
  have l2: "same_layout fs ?fs2" by (simp add: same_layout_def blank_groups_def)
  have l3: "same_layout fs3 fs'"
    by (simp add: r(2) same_layout_def ext2fs_mark_ib_dirty_def ext2fs_mark_bb_dirty_def ext2fs_mark_super_dirty_def)
  have l: "same_layout fs fs'" "same_layout ?fs2 fs'"
    using l2 l3 reserve_groups_layout[OF r(1)] same_layout_trans by blast+
  note eq = same_layout_eq[OF l(1)] and eq2 = same_layout_eq[OF l(2)]
  have m: "mapped ?fs2 (\<lambda>_. 0) b" using block_bitmap_ok[OF b assms(2)] eq eq2 by simp
  have pre: "grouped ?fs2" "roomy ?fs2" "0 \<le> groups ?fs2" "length (group_desc ?fs2) = groups ?fs2" "block_map ?fs2 = Some b"
    using assms(2,3) eq eq2 by simp_all
  obtain bm gs where g: "reserve_groups [0..<groups ?fs2] ?fs2 = Some (?fs2\<lparr>block_map := Some bm,
        s_free_blocks_count := s_free_blocks_count ?fs2 + of_int (\<Sum>i \<in> {0..<groups ?fs2}. room ?fs2 i), group_desc := gs\<rparr>)"
    "mapped ?fs2 (\<lambda>i. if 0 \<le> i \<and> i < groups ?fs2 then reserved ?fs2 i else 0) bm"
    "length gs = groups ?fs2" "\<forall>i < groups ?fs2. gs ! i = (if 0 \<le> i then counted ?fs2 i (group_desc ?fs2 ! i) else group_desc ?fs2 ! i)"
    using reserve_groups_ok[OF pre(1,2) m pre(3-5)] by blast
  have fs3: "fs3 = ?fs2\<lparr>block_map := Some bm,
        s_free_blocks_count := s_free_blocks_count ?fs2 + of_int (\<Sum>i \<in> {0..<groups ?fs2}. room ?fs2 i), group_desc := gs\<rparr>"
    using g(1) r(1) by simp
  have fields: "block_map fs' = Some bm" "group_desc fs' = gs" "s_free_blocks_count fs' = of_int (\<Sum>i < groups fs'. room fs' i)"
    "fs_magic fs' = EXT2_ET_MAGIC_EXT2FS_FILSYS" "fs_stride fs' = 0"
    using assms(4,5) eq2(1,8) by (simp_all add: r(2) fs3 ext2fs_mark_ib_dirty_def ext2fs_mark_bb_dirty_def ext2fs_mark_super_dirty_def
        lessThan_atLeast0)
  have "mapped fs' (\<lambda>i. if i < groups fs' then reserved fs' i else 0) bm" using g(2) eq2 by (simp cong: if_cong)
  moreover have "\<forall>i < groups fs'. gs ! i = counted fs' i blank_desc" using g(4) eq2 by simp
  moreover have "length gs = groups fs'" using g(3) eq2(1) by simp
  ultimately show ?thesis using l(1) fields by (simp add: initialized_def)
qed

subsection \<open>The new filesystem\<close>

definition front_used :: "ext2_fs \<Rightarrow> nat \<Rightarrow> nat" where
  \<comment> \<open>The blocks of a group that the superblock, the descriptors, the bitmaps and the inode table take.\<close>
  "front_used fs i = reserved fs i + 2 + nat (inode_blocks_per_group fs)"

definition in_order :: "ext2_fs \<Rightarrow> bool" where
  \<comment> \<open>The bitmap has the front of every group, where the tables are, and nothing else; the counts say so; the
      check accepts the descriptors.\<close>
  "in_order fs \<longleftrightarrow> books fs (filled fs (\<lambda>i. if i < groups fs then front_used fs i else 0))
     \<and> (\<forall>i < groups fs. in_place fs i (group_desc fs ! i)) \<and> ext2fs_check_desc fs = Some OK"

lemma tables_result:
  assumes "initialized fs" "grouped fs" "roomy fs"
  shows "\<exists>fs'. ext2fs_allocate_tables fs = Some (OK, fs') \<and> in_order fs'"
proof -
  let ?c = "\<lambda>i. if i < groups fs then reserved fs i else 0" and ?ib = "nat (inode_blocks_per_group fs)"
  obtain bm where i: "fs_magic fs = EXT2_ET_MAGIC_EXT2FS_FILSYS" "fs_stride fs = 0" "length (group_desc fs) = groups fs"
    "block_map fs = Some bm" "mapped fs ?c bm" "\<forall>i < groups fs. group_desc fs ! i = counted fs i blank_desc"
    "s_free_blocks_count fs = of_int (\<Sum>i < groups fs. room fs i)"
    using assms(1) by (auto simp: initialized_def)
  have r: "0 < inode_blocks_per_group fs" "\<forall>i < groups fs. 0 < room fs i" using assms(3) by (auto simp: roomy_def)
  have space: "gstart fs i + reserved fs i + 2 + ?ib + nat (room fs i) = gend fs i" if "i < groups fs" for i
  proof -
    let ?e = "bm\<lparr>bm_bytes := replicate (length (bm_bytes bm)) 0\<rparr>"
    have o: "bm_over (s_first_data_block fs) (s_blocks_count fs - 1) bm" using i(5) by (simp add: mapped_def)
    then have "bm_over (s_first_data_block fs) (s_blocks_count fs - 1) ?e" by (auto simp: bm_over_def bm_ok_def)
    moreover have "n \<notin> bm_set ?e" for n
      using bm_in[of bm n] o by (auto simp: bm_set_def bm_bit_def bitget_def bm_over_def bm_ok_def)
    then have "bm_set ?e = {}" by blast
    ultimately have "mapped fs (\<lambda>_. 0) ?e" by (rule empty_mapped[OF assms(2)])
    then show ?thesis using reserve_group(2)[OF assms(2,3) _ that] by simp
  qed
  have pre: "\<forall>i. 0 \<le> i \<and> i < groups fs \<longrightarrow> no_tables (group_desc fs ! i) \<and> gstart fs i + ?c i + 2 + ?ib < gend fs i"
    using i(6) r(2) space by (force simp: no_tables_def counted_def blank_desc_def)
  obtain bm' gs where t: "allocate_groups [0..<groups fs] fs = Some (OK, fs\<lparr>block_map := Some bm', group_desc := gs\<rparr>)"
    "mapped fs (\<lambda>i. if 0 \<le> i \<and> i < groups fs then ?c i + 2 + ?ib else ?c i) bm'" "length gs = groups fs"
    "\<forall>i < groups fs. gs ! i = (if 0 \<le> i then tables fs ?c i (group_desc fs ! i) else group_desc fs ! i)"
    using allocate_groups_ok[OF assms(2) i(5) le0 i(3,4,1,2) r(1) pre] by blast
  let ?fs = "fs\<lparr>block_map := Some bm', group_desc := gs\<rparr>" and ?d = "\<lambda>i. if i < groups fs then front_used fs i else 0"
  have "(\<lambda>i. if 0 \<le> i \<and> i < groups fs then ?c i + 2 + ?ib else ?c i) = ?d" by (auto simp: front_used_def)
  then have m: "mapped ?fs ?d bm'" using t(2) by (simp cong: if_cong)
  have l: "same_layout fs ?fs" by (simp add: same_layout_def)
  note eq = same_layout_eq[OF l]
  have sum: "\<forall>i < groups ?fs. int (gstart ?fs i + ?d i) + room ?fs i = int (gend ?fs i)"
  proof (intro allI impI)
    fix i assume "i < groups ?fs"
    then have n: "i < groups fs" by simp
    have "0 < room fs i" using r(2) n by blast
    then show "int (gstart ?fs i + ?d i) + room ?fs i = int (gend ?fs i)"
      using space[OF n] n r(1) unfolding eq front_used_def by simp
  qed
  have free: "\<forall>i < groups ?fs. bg_free_blocks_count (group_desc ?fs ! i) = of_int (room ?fs i)"
    using t(4) i(6) eq by (simp add: tables_def counted_def)
  have "books ?fs (bm_set bm')"
    by (rule books_ok[OF _ _ m _ _ _ sum free]) (use assms(2,3) i(1,7) t(3) eq in simp_all)
  moreover have "bm_set bm' = filled ?fs ?d" using m by (simp add: mapped_def)
  moreover have place: "\<forall>i < groups ?fs. in_place ?fs i (group_desc ?fs ! i)"
    using t(4) eq by (simp add: tables_def in_place_def)
  moreover have "check_groups ?fs (drop 0 gs) (of_nat (gstart ?fs 0)) = OK"
  proof (rule check_groups_ok)
    show "\<forall>i < groups ?fs. gstart ?fs i + reserved ?fs i + 2 + nat (inode_blocks_per_group ?fs) < gend ?fs i"
      using space r(2) by (force simp: eq)
    show "\<forall>i < groups ?fs. in_place ?fs i (gs ! i)" using place by simp
  qed (use assms(2) r t(3) eq in simp_all)
  moreover have "of_nat (gstart ?fs 0) = s_first_data_block fs" by (simp add: gstart_def)
  ultimately have "in_order ?fs"
    using i(1) t(3) eq by (simp add: in_order_def ext2fs_check_desc_def front_used_def cong: if_cong)
  then show ?thesis using t(1) by (auto simp: ext2fs_allocate_tables_def)
qed

lemma finish_layout: "finish_fs mem junk fs = Some (Inr fs') \<Longrightarrow> same_layout fs fs'"
proof -
  assume "finish_fs mem junk fs = Some (Inr fs')"
  then obtain b im fs3 ch where f:
    "reserve_groups [0..<groups fs] (blank_groups (fs\<lparr>block_map := Some b, inode_map := Some im\<rparr>)) = Some fs3"
    "fs' = (ext2fs_mark_ib_dirty (ext2fs_mark_bb_dirty (ext2fs_mark_super_dirty fs3)))\<lparr>fs_io := ch\<rparr>"
    by (rule finish_parts)
  have "same_layout fs (blank_groups (fs\<lparr>block_map := Some b, inode_map := Some im\<rparr>))"
    by (simp add: same_layout_def blank_groups_def)
  moreover have "same_layout fs3 fs'"
    by (simp add: f(2) same_layout_def ext2fs_mark_ib_dirty_def ext2fs_mark_bb_dirty_def ext2fs_mark_super_dirty_def)
  ultimately show ?thesis using reserve_groups_layout[OF f(1)] same_layout_trans by blast
qed

lemma initialize_parts:
  assumes "ext2fs_initialize mem junk open_dev now name flags (Some param) = Some (Inr fs')"
    and "p_feature_incompat param AND EXT3_FEATURE_INCOMPAT_JOURNAL_DEV = 0"
  obtains io blocksize fragsize fs where "p_blocks_count param \<noteq> 0"
    "make_plan param (blocksize div of_int fragsize) (start_fs name flags param now io blocksize fragsize) = Some (Inr fs)"
    "finish_fs mem junk fs = Some (Inr fs')"
proof -
  have c: "p_blocks_count param \<noteq> 0" using assms by (simp add: ext2fs_initialize_def split: if_splits)
  obtain io where io: "unix_open mem junk open_dev (Some name) 1 = Inr io"
    using assms by (cases "unix_open mem junk open_dev (Some name) 1") (simp_all add: ext2fs_initialize_def split: if_splits)
  obtain bs frag r where r: "make_plan param (bs div of_int frag) (start_fs name flags param now io bs frag) = Some r"
    "(case r of Inl e \<Rightarrow> Some (Inl e) | Inr fs \<Rightarrow> finish_fs mem junk fs) = Some (Inr fs')"
    using assms c io by (auto simp: ext2fs_initialize_def Let_def bind_Some_iff split: if_splits)
  then show thesis using that[OF c, of bs frag io] by (cases r) simp_all
qed

lemma start_sized:
  assumes "p_first_data_block param \<le> p_blocks_count param" "p_blocks_count param \<noteq> 0"
  shows "sized param (start_fs name flags param now io bs frag)"
  using assms by (auto simp: sized_def start_fs_def set_field_def Let_def not_less word_le_nat_alt unat_gt_0 Suc_le_eq)

lemma low_bits: "unat x mod 8 = unat (x AND 7)" for x :: u32
proof -
  have "unat (x AND mask 3) = unat x AND mask 3" by (simp add: unsigned_and_eq mask_eq_exp_minus_1)
  also have "\<dots> = take_bit 3 (unat x)" by (rule take_bit_eq_mask[symmetric])
  also have "\<dots> = unat x mod 2 ^ 3" by (rule take_bit_eq_mod)
  finally show ?thesis by (simp add: mask_eq_exp_minus_1)
qed


text \<open>C31. A new filesystem is in order. When \<open>ext2fs_initialize\<close> returns a filesystem whose groups all have a free
  block (and that is no journal device, does not reach the end of the 32-bit block numbers and does not start after its end), then
  \<open>ext2fs_allocate_tables\<close> succeeds on it, and afterwards: the bitmaps and the inode table of every group lie behind the copies of
  the superblock and the group descriptors, one after the other and inside the group; exactly these blocks are in use in the
  block bitmap; the free blocks the descriptors and the superblock count are those of the bitmap; and
  \<open>ext2fs_check_desc\<close> accepts the descriptors. The number of groups is the one the plan ends with, after any number of attempts.\<close>
theorem new_filesystem_in_order:
  assumes "ext2fs_initialize mem junk open_dev now name flags (Some param) = Some (Inr fs)"
    and "p_feature_incompat param AND EXT3_FEATURE_INCOMPAT_JOURNAL_DEV = 0"
    and "p_first_data_block param \<le> p_blocks_count param" "unat (p_blocks_count param) + 65536 \<le> 2 ^ 32" "roomy fs"
  shows "\<exists>fs'. ext2fs_allocate_tables fs = Some (OK, fs') \<and> in_order fs'"
proof -
  obtain io bs frag fs1 where p: "p_blocks_count param \<noteq> 0"
    "make_plan param (bs div of_int frag) (start_fs name flags param now io bs frag) = Some (Inr fs1)"
    "finish_fs mem junk fs1 = Some (Inr fs)"
    by (rule initialize_parts[OF assms(1,2)])
  have plan: "same_rest (start_fs name flags param now io bs frag) fs1" "sized param fs1" "planned fs1"
    using make_plan_ok[OF p(2) start_sized[OF assms(3) p(1)]] by blast+
  have l: "same_layout fs1 fs" by (rule finish_layout[OF p(3)])
  then have "roomy fs1" using assms(5) same_layout_eq by blast
  then have g: "grouped fs1" by (rule planned_grouped[OF plan(3,2) assms(4)])
  have "fs_magic fs1 = EXT2_ET_MAGIC_EXT2FS_FILSYS" "fs_stride fs1 = 0" using plan(1) by (simp_all add: same_rest_def start_fs_def Let_def)
  then have "initialized fs" using finish_result[OF p(3) g assms(5)] by blast
  moreover have "grouped fs" using g same_layout_eq[OF l] by blast
  ultimately show ?thesis using assms(5) by (rule tables_result)
qed


lemma finish_ok:
  assumes "grouped fs" "roomy fs" "fs_magic fs = EXT2_ET_MAGIC_EXT2FS_FILSYS" "\<And>n. mem n"
    and "unix_set_blksize mem junk (fs_io fs) (sint (fs_blocksize fs)) = Some (e, ch)"
  shows "\<exists>fs'. finish_fs mem junk fs = Some (Inr fs')"
proof -
  have ok: "ext2fs_get_mem mem n = OK" for n using assms(4) by (simp add: ext2fs_get_mem_def)
  have make: "\<exists>bm. make_bitmap mem a b r d None = Some (Inr bm)" for a b r d by (simp add: make_bitmap_def ok Let_def)
  obtain b where b: "ext2fs_allocate_block_bitmap mem fs (Some (''block bitmap for '' @ fs_device_name fs)) = Some (Inr b)"
    using make[of "s_first_data_block fs" "s_blocks_count fs - 1" "s_blocks_per_group fs * group_desc_count fs - 1 + s_first_data_block fs"
        "Some (''block bitmap for '' @ fs_device_name fs)"] assms(3)
    by (auto simp: ext2fs_allocate_block_bitmap_def ext2fs_allocate_generic_bitmap_def)
  let ?fs1 = "fs\<lparr>block_map := Some b\<rparr>"
  obtain im where im: "ext2fs_allocate_inode_bitmap mem ?fs1 (Some (''inode bitmap for '' @ fs_device_name fs)) = Some (Inr im)"
    using make[of 1 "s_inodes_count fs" "s_inodes_per_group fs * group_desc_count fs" "Some (''inode bitmap for '' @ fs_device_name fs)"] assms(3)
    by (auto simp: ext2fs_allocate_inode_bitmap_def ext2fs_allocate_generic_bitmap_def)
  let ?fs2 = "blank_groups (fs\<lparr>block_map := Some b, inode_map := Some im\<rparr>)"
  have l: "same_layout fs ?fs2" by (simp add: same_layout_def blank_groups_def)
  note eq = same_layout_eq[OF l]
  have m: "mapped ?fs2 (\<lambda>_. 0) b" using block_bitmap_ok[OF b assms(1)] eq by simp
  have pre: "grouped ?fs2" "roomy ?fs2" "0 \<le> groups ?fs2" "length (group_desc ?fs2) = groups ?fs2" "block_map ?fs2 = Some b"
    using assms(1,2) eq by simp_all
  obtain fs3 where r: "reserve_groups [0..<groups fs] ?fs2 = Some fs3" "fs_io fs3 = fs_io fs" "fs_blocksize fs3 = fs_blocksize fs"
    using reserve_groups_ok[OF pre(1,2) m pre(3-5)] by fastforce
  have "finish_fs mem junk fs = Some (Inr ((ext2fs_mark_ib_dirty (ext2fs_mark_bb_dirty (ext2fs_mark_super_dirty fs3)))\<lparr>fs_io := ch\<rparr>))"
    using b im r assms(5)
    by (simp add: finish_fs_def ok Let_def ext2fs_mark_ib_dirty_def ext2fs_mark_bb_dirty_def
        ext2fs_mark_super_dirty_def)
  then show ?thesis by blast
qed

definition new_param :: ext2_param where
  "new_param = \<lparr>p_inodes_count = 0, p_blocks_count = 229, p_r_blocks_count = 11, p_first_data_block = 0, p_log_block_size = 0,
     p_log_frag_size = 0, p_blocks_per_group = 128, p_max_mnt_count = 0, p_errors = 0, p_checkinterval = 0, p_rev_level = 0,
     p_first_ino = 0, p_inode_size = 0, p_feature_compat = 0, p_feature_incompat = 0, p_feature_ro_compat = 0,
     p_reserved_gdt_blocks = 0, p_first_meta_bg = 0\<rparr>"

lemma new_plan:
  obtains fs where "make_plan new_param 1 (start_fs name flags new_param now io 1024 1024) = Some (Inr fs)"
    "s_first_data_block fs = 1" "s_blocks_count fs = 229" "s_blocks_per_group fs = 128" "group_desc_count fs = 2"
    "s_feature_ro_compat (fs_super fs) = 0" "s_feature_incompat (fs_super fs) = 0" "s_reserved_gdt_blocks (fs_super fs) = 0"
    "fs_blocksize fs = 1024" "desc_blocks fs = 1" "inode_blocks_per_group fs = 4" "fs_magic fs = EXT2_ET_MAGIC_EXT2FS_FILSYS" "fs_io fs = io"
proof -
  let ?s = "start_fs name flags new_param now io 1024 1024"
  let ?fs = "?s\<lparr>group_desc_count := 2, desc_blocks := 1, s_inodes_count := 64, s_inodes_per_group := 32, inode_blocks_per_group := 4,
    s_free_inodes_count := 64, fs_super := (fs_super ?s)\<lparr>s_reserved_gdt_blocks := 0\<rparr>\<rparr>"
  have "plan_step new_param 1 ?s = Some (Done ?fs)"
    by (simp add: plan_step_def plan_groups_def start_fs_def new_param_def set_field_def Let_def wanted_inodes_def plan_inodes_def
        table_blocks_def EXT2_INODE_SIZE_def EXT2_MAX_INODES_PER_GROUP_def EXT2_MAX_BLOCKS_PER_GROUP_def plan_reserved_def plan_end_def
        overhead_def ext2fs_bg_has_super_def start_super_def no_super_def EXT2_FEATURE_COMPAT_RESIZE_INODE_def)
  then have "make_plan new_param 1 ?s = Some (Inr ?fs)" by (simp add: make_plan.simps)
  then show thesis
    by (rule that) (simp_all add: start_fs_def new_param_def set_field_def Let_def EXT2_MAX_BLOCKS_PER_GROUP_def start_super_def no_super_def)
qed


theorem new_filesystem_in_order_witness:
  "\<exists>fs fs'. ext2fs_initialize (\<lambda>_. True) (\<lambda>_. 0) (\<lambda>_ _. Inr small_device) 0 ''d'' 0 (Some new_param) = Some (Inr fs)
     \<and> groups fs = 2 \<and> ext2fs_allocate_tables fs = Some (OK, fs') \<and> in_order fs'"
proof -
  obtain fs where p: "make_plan new_param 1 (start_fs ''d'' 0 new_param 0 small_channel 1024 1024) = Some (Inr fs)"
    and f: "s_first_data_block fs = 1" "s_blocks_count fs = 229" "s_blocks_per_group fs = 128" "group_desc_count fs = 2"
    "s_feature_ro_compat (fs_super fs) = 0" "s_feature_incompat (fs_super fs) = 0" "s_reserved_gdt_blocks (fs_super fs) = 0"
    "fs_blocksize fs = 1024" "desc_blocks fs = 1" "inode_blocks_per_group fs = 4" "fs_magic fs = EXT2_ET_MAGIC_EXT2FS_FILSYS"
    "fs_io fs = small_channel"
    by (rule new_plan)
  have g: "grouped fs" by (simp add: grouped_def gstart_def f)
  have "0 < room fs 0" "0 < room fs 1"
    by (simp_all add: room_def ext2fs_super_and_bgd_loc_def f group_blocks_def ext2fs_bg_has_super_def has_meta_bg_def
        old_desc_blocks_def Let_def)
  moreover have "0 \<le> old_desc_blocks fs" by (simp add: old_desc_blocks_def has_meta_bg_def f)
  ultimately have r: "roomy fs" using f by (auto simp: roomy_def less_2_cases_iff)
  have ch: "ch_magic small_channel = EXT2_ET_MAGIC_IO_CHANNEL" "ch_data_magic small_channel = EXT2_ET_MAGIC_UNIX_IO_CHANNEL"
    "ch_block_size small_channel = 1024"
    by (simp_all add: small_channel_def unix_open_def alloc_cache_def ext2fs_get_mem_def Let_def)
  then have b: "unix_set_blksize (\<lambda>_. True) (\<lambda>_. 0) (fs_io fs) (sint (fs_blocksize fs)) = Some (OK, small_channel)"
    by (simp add: unix_set_blksize_def checked_def f)
  obtain fs1 where i: "finish_fs (\<lambda>_. True) (\<lambda>_. 0) fs = Some (Inr fs1)" using finish_ok[OF g r f(11) TrueI b] ..
  have open_ok: "unix_open (\<lambda>_. True) (\<lambda>_. 0) (\<lambda>_ _. Inr small_device) (Some ''d'') 1 = Inr small_channel"
    by (simp add: small_channel_def unix_open_def alloc_cache_def ext2fs_get_mem_def Let_def)
  have n: "p_blocks_count new_param = 229" "p_r_blocks_count new_param = 11" "p_feature_incompat new_param = 0"
    "p_feature_ro_compat new_param = 0" "p_log_block_size new_param = 0" "p_log_frag_size new_param = 0" "p_first_data_block new_param = 0"
    by (simp_all add: new_param_def)
  have new: "ext2fs_initialize (\<lambda>_. True) (\<lambda>_. 0) (\<lambda>_ _. Inr small_device) 0 ''d'' 0 (Some new_param) = Some (Inr fs1)"
    by (simp add: ext2fs_initialize_def ext2fs_get_mem_def open_ok n EXT2_BLOCK_SIZE_def EXT2_FRAG_SIZE_def p i)
  have l: "same_layout fs fs1" by (rule finish_layout[OF i])
  have "roomy fs1" using r same_layout_eq[OF l] by blast
  then have "\<exists>fs'. ext2fs_allocate_tables fs1 = Some (OK, fs') \<and> in_order fs'"
    by (intro new_filesystem_in_order[OF new]) (simp_all add: n)
  moreover have "groups fs1 = 2" using same_layout_eq(1)[OF l] f(4) by simp
  ultimately show ?thesis using new by blast
qed



lemma too_few_inodes:
  \<comment> \<open>The inodes of a group are rounded down to a multiple of eight after the minimum of \<open>s_first_ino + 1\<close> was ensured.\<close>
  "\<exists>fs. make_plan (new_param\<lparr>p_rev_level := 1, p_inode_size := 256, p_inodes_count := 1, p_blocks_per_group := 0\<rparr>) 1
       (start_fs ''d'' 0 (new_param\<lparr>p_rev_level := 1, p_inode_size := 256, p_inodes_count := 1, p_blocks_per_group := 0\<rparr>) 0
         small_channel 1024 1024) = Some (Inr fs)
     \<and> s_inodes_count fs = 8 \<and> s_first_ino fs = 11"
proof -
  let ?p = "new_param\<lparr>p_rev_level := 1, p_inode_size := 256, p_inodes_count := 1, p_blocks_per_group := 0\<rparr>"
  let ?s = "start_fs ''d'' 0 ?p 0 small_channel 1024 1024"
  let ?fs = "?s\<lparr>group_desc_count := 1, desc_blocks := 1, s_inodes_count := 8, s_inodes_per_group := 8, inode_blocks_per_group := 2,
    s_free_inodes_count := 8, fs_super := (fs_super ?s)\<lparr>s_reserved_gdt_blocks := 0\<rparr>\<rparr>"
  have "plan_step ?p 1 ?s = Some (Done ?fs)"
    by (simp add: plan_step_def plan_groups_def start_fs_def new_param_def set_field_def Let_def wanted_inodes_def plan_inodes_def
        table_blocks_def EXT2_INODE_SIZE_def EXT2_MAX_INODES_PER_GROUP_def EXT2_MAX_BLOCKS_PER_GROUP_def plan_reserved_def plan_end_def
        overhead_def ext2fs_bg_has_super_def start_super_def no_super_def EXT2_FEATURE_COMPAT_RESIZE_INODE_def)
  then have "make_plan ?p 1 ?s = Some (Inr ?fs)" by (simp add: make_plan.simps)
  then show ?thesis by (intro exI[of _ ?fs]) (simp add: start_fs_def new_param_def set_field_def Let_def)
qed

lemma negative_room:
  \<comment> \<open>Only the bookkeeping of the last group is compared with the size of a group. Here it has no superblock; the first group has
      one, with reserved blocks for descriptors, and six blocks less than none are left.\<close>
  "\<exists>fs. make_plan (new_param\<lparr>p_blocks_count := 385, p_inodes_count := 2880, p_feature_ro_compat := 1, p_reserved_gdt_blocks := 10\<rparr>) 1
       (start_fs ''d'' 0 (new_param\<lparr>p_blocks_count := 385, p_inodes_count := 2880, p_feature_ro_compat := 1, p_reserved_gdt_blocks := 10\<rparr>)
         0 small_channel 1024 1024) = Some (Inr fs)
     \<and> group_desc_count fs = 3 \<and> room fs 0 = - 6"
proof -
  let ?p = "new_param\<lparr>p_blocks_count := 385, p_inodes_count := 2880, p_feature_ro_compat := 1, p_reserved_gdt_blocks := 10\<rparr>"
  let ?s = "start_fs ''d'' 0 ?p 0 small_channel 1024 1024"
  let ?fs = "?s\<lparr>group_desc_count := 3, desc_blocks := 1, s_inodes_count := 2880, s_inodes_per_group := 960, inode_blocks_per_group := 120,
    s_free_inodes_count := 2880, fs_super := (fs_super ?s)\<lparr>s_reserved_gdt_blocks := 10\<rparr>\<rparr>"
  note defs = start_fs_def new_param_def set_field_def Let_def start_super_def no_super_def EXT2_MAX_BLOCKS_PER_GROUP_def
  have s: "sparse_super ?fs" by (simp add: sparse_super_def defs EXT2_FEATURE_RO_COMPAT_SPARSE_SUPER_def)
  have two_not_power: "(2 :: int) \<noteq> b ^ k" if "2 < b" for b k
  proof (cases k)
    case (Suc n)
    have "b * 1 \<le> b * b ^ n" using that by (intro mult_left_mono) (simp_all add: one_le_power)
    then have "b \<le> b ^ k" by (simp only: Suc power_Suc mult_1_right)
    then show ?thesis using that by linarith
  qed simp
  have two: "ext2fs_bg_has_super ?fs 2 = Some False"
    using bg_has_super_result[of 2 ?fs] s by (simp add: two_not_power)
  have "plan_step ?p 1 ?s = Some (Done ?fs)"
    using two
    by (simp add: plan_step_def plan_groups_def defs wanted_inodes_def plan_inodes_def
        table_blocks_def EXT2_INODE_SIZE_def EXT2_MAX_INODES_PER_GROUP_def plan_reserved_def plan_end_def
        overhead_def EXT2_FEATURE_COMPAT_RESIZE_INODE_def)
  then have "make_plan ?p 1 ?s = Some (Inr ?fs)" by (simp add: make_plan.simps)
  moreover have "ext2fs_bg_has_super ?fs 0 = Some True" using bg_has_super_result[of 0 ?fs] by simp
  then have "room ?fs 0 = - 6"
    by (simp add: room_def ext2fs_super_and_bgd_loc_def group_blocks_def has_meta_bg_def old_desc_blocks_def defs)
  ultimately show ?thesis by (intro exI[of _ ?fs]) (simp add: start_fs_def Let_def)
qed


end
