(* ===== verification/Ext2_Bitmap_Io.thy ===== *)
theory Ext2_Bitmap_Io
  imports Ext2_Accounts
begin

unbundle bit_operations_syntax

text \<open>
  The bitmaps survive the device: what \<open>ext2fs_write_bitmaps\<close> has written through the cache of
  the I/O channel, \<open>ext2fs_read_bitmaps\<close> reads back as the same sets of blocks and inodes, although
  every bitmap is cut into one block per group and the last block is padded.
\<close>

subsection \<open>Bits of parts\<close>

lemma bitget_part: "l + n \<le> length xs \<Longrightarrow> k < 8 * n \<Longrightarrow> bitget (part l n xs) k = bitget xs (8 * l + k)"
  by (simp add: bitget_def)

lemma part_part: "i + m \<le> n \<Longrightarrow> part i m (part l n xs) = part (l + i) m xs"
  by (simp add: part_def drop_take min_def add.commute)

lemma part_write_other:
  assumes "b \<noteq> b'" "length xs = bs" "extent bs off b + bs \<le> length v" "extent bs off b' + bs \<le> length v"
  shows "part (extent bs off b) bs (write_at v (extent bs off b') xs) = part (extent bs off b) bs v"
proof (rule part_eqI)
  fix p assume p: "extent bs off b \<le> p" "p < extent bs off b + bs"
  then have "\<not> covers bs off b' p" using covers_unique[of bs off b p b'] assms(1) by (auto simp: covers_def)
  then show "write_at v (extent bs off b') xs ! p = v ! p"
    using assms(2-4) p by (auto simp: nth_write_at covers_def)
qed (use assms in simp_all)

lemma set_bits_result:
  "\<forall>j \<in> set js. j div 8 < length buf \<and> j < 2 ^ 32 \<Longrightarrow>
   \<exists>c. set_bits js buf = Some c \<and> length c = length buf
     \<and> (\<forall>k. k div 8 < length buf \<longrightarrow> bitget c k = (k \<in> set js \<or> bitget buf k))"
proof (induction js arbitrary: buf)
  case (Cons j js)
  have j: "unat (of_nat j :: u32) = j" using Cons.prems by (simp add: unat_of_nat)
  obtain r ys where r: "ext2fs_set_bit (of_nat j) buf = Some (r, ys)" "length ys = length buf"
    "\<forall>k. k div 8 < length buf \<longrightarrow> bitget ys k = (k = j \<or> bitget buf k)"
    using set_bit_result[of "of_nat j" buf] Cons.prems j by auto
  obtain c where "set_bits js ys = Some c" "length c = length ys"
    "\<forall>k. k div 8 < length ys \<longrightarrow> bitget c k = (k \<in> set js \<or> bitget ys k)"
    using Cons.IH[of ys] Cons.prems r(2) by auto
  then show ?case using r by auto
qed simp

subsection \<open>Writing\<close>

definition blk_at :: "plain \<Rightarrow> u32 \<Rightarrow> nat" where
  "blk_at pl blk = plain_at pl (ucast blk)"

lemma blk_at_eq: "blk_at pl blk = extent (nat (p_bs pl)) (nat (p_off pl)) (ucast blk)"
  by (simp add: blk_at_def plain_at_def)

lemma ucast_blk_inj: "(ucast a :: u64) = ucast b \<longleftrightarrow> a = b" for a b :: u32
proof -
  have "unat (ucast c :: u64) = unat c" for c :: u32
    using unsigned_less[of c, where 'a = nat] by (simp add: unsigned_ucast_eq take_bit_nat_eq_self)
  then show ?thesis by (metis word_unat_eq_iff)
qed

text \<open>The bitmaps have a place on the device: each group its own block.\<close>

definition placed :: "(ext2_group_desc \<Rightarrow> u32) \<Rightarrow> ext2_fs \<Rightarrow> plain \<Rightarrow> bool" where
  "placed blk_of fs pl \<longleftrightarrow> p_bs pl = uint (fs_blocksize fs) \<and> uint (fs_blocksize fs) < 2 ^ 31
     \<and> (\<forall>i < length (group_desc fs). blk_of (group_desc fs ! i) \<noteq> 0
          \<and> blk_at pl (blk_of (group_desc fs ! i)) + unat (fs_blocksize fs) \<le> length (p_bytes pl))"

lemma write_one_ok:
  assumes "stands_for (Suc n) ch pl" "p_bs pl = int bs" "int bs < 2 ^ 31" "blk_at pl blk + bs \<le> length (p_bytes pl)" "length buf = bs"
  shows "\<exists>ch'. io_channel_write_blk ch blk buf = Some (OK, ch')
    \<and> stands_for n ch' (pl\<lparr>p_bytes := write_at (p_bytes pl) (blk_at pl blk) buf\<rparr>)"
proof -
  have size: "plain_size pl 1 = int bs" using assms(2) by (simp add: plain_size_def)
  have "may (\<lambda>_. True) (Write (ucast blk) 1 buf) pl" using size assms(3-5) by (simp add: blk_at_def)
  from write_ok[OF assms(1) this] show ?thesis using size assms(5) by (simp add: io_channel_write_blk_def blk_at_def)
qed

lemma write_maps_ok:
  assumes "\<And>i buf. i \<in> set is \<Longrightarrow> length buf = unat (fs_blocksize fs) \<Longrightarrow> \<exists>c. pad i buf = Some c \<and> length c = length buf"
    and "distinct is" "\<forall>i \<in> set is. i < length (group_desc fs) \<and> i * nb + nb \<le> length bitmap" "nb \<le> unat (fs_blocksize fs)"
    and "inj_on (\<lambda>i. blk_of (group_desc fs ! i)) (set is)"
    and "placed blk_of fs pl" "stands_for (length is + n) (fs_io fs) pl" "length buf = unat (fs_blocksize fs)"
  shows "\<exists>ch v. write_maps blk_of err pad is nb bitmap buf fs = Some (OK, fs\<lparr>fs_io := ch\<rparr>)
    \<and> stands_for n ch (pl\<lparr>p_bytes := v\<rparr>) \<and> length v = length (p_bytes pl)
    \<and> (\<forall>i \<in> set is. \<exists>b c. length b = unat (fs_blocksize fs) \<and> pad i (part (i * nb) nb bitmap @ drop nb b) = Some c
         \<and> part (blk_at pl (blk_of (group_desc fs ! i))) (unat (fs_blocksize fs)) v = c)
    \<and> (\<forall>blk. blk_at pl blk + unat (fs_blocksize fs) \<le> length (p_bytes pl) \<and> blk \<notin> (\<lambda>i. blk_of (group_desc fs ! i)) ` set is
         \<longrightarrow> part (blk_at pl blk) (unat (fs_blocksize fs)) v = part (blk_at pl blk) (unat (fs_blocksize fs)) (p_bytes pl))"
  using assms
proof (induction "is" arbitrary: fs pl buf)
  case Nil
  show ?case using Nil.prems(7) by (intro exI[of _ "fs_io fs"] exI[of _ "p_bytes pl"]) simp
next
  case (Cons i "is")
  note prems = Cons.prems
  let ?bs = "unat (fs_blocksize fs)" and ?blk = "\<lambda>i. blk_of (group_desc fs ! i)"
  have i: "i < length (group_desc fs)" "i * nb + nb \<le> length bitmap" using prems(3) by auto
  have pl: "p_bs pl = int ?bs" "int ?bs < 2 ^ 31" "?blk i \<noteq> 0" "blk_at pl (?blk i) + ?bs \<le> length (p_bytes pl)"
    using prems(6) i(1) by (simp_all add: placed_def)
  let ?buf = "part (i * nb) nb bitmap @ drop nb buf"
  have bw: "block_with bitmap (i * nb) nb buf = Some ?buf"
    using i(2) prems(4,8) by (simp add: block_with_def write_at_def part_def)
  have lb: "length ?buf = ?bs" using i(2) prems(4,8) by simp
  obtain c where c: "pad i ?buf = Some c" "length c = ?bs" using prems(1)[of i ?buf] lb by auto
  have sf: "stands_for (Suc (length is + n)) (fs_io fs) pl" using prems(7) by simp
  obtain ch where ch: "io_channel_write_blk (fs_io fs) (?blk i) c = Some (OK, ch)"
    "stands_for (length is + n) ch (pl\<lparr>p_bytes := write_at (p_bytes pl) (blk_at pl (?blk i)) c\<rparr>)"
    using write_one_ok[OF sf pl(1,2,4) c(2)] by blast
  let ?fs = "fs\<lparr>fs_io := ch\<rparr>" and ?v = "write_at (p_bytes pl) (blk_at pl (?blk i)) c"
  let ?pl = "pl\<lparr>p_bytes := ?v\<rparr>"
  have at: "blk_at ?pl = blk_at pl" by (simp add: blk_at_def plain_at_def fun_eq_iff)
  have lv: "length ?v = length (p_bytes pl)" using pl(4) c(2) by simp
  have "\<exists>ch v. write_maps blk_of err pad is nb bitmap c ?fs = Some (OK, ?fs\<lparr>fs_io := ch\<rparr>)
    \<and> stands_for n ch (?pl\<lparr>p_bytes := v\<rparr>) \<and> length v = length (p_bytes ?pl)
    \<and> (\<forall>i \<in> set is. \<exists>b c. length b = unat (fs_blocksize ?fs) \<and> pad i (part (i * nb) nb bitmap @ drop nb b) = Some c
         \<and> part (blk_at ?pl (blk_of (group_desc ?fs ! i))) (unat (fs_blocksize ?fs)) v = c)
    \<and> (\<forall>blk. blk_at ?pl blk + unat (fs_blocksize ?fs) \<le> length (p_bytes ?pl) \<and> blk \<notin> (\<lambda>i. blk_of (group_desc ?fs ! i)) ` set is
         \<longrightarrow> part (blk_at ?pl blk) (unat (fs_blocksize ?fs)) v = part (blk_at ?pl blk) (unat (fs_blocksize ?fs)) (p_bytes ?pl))"
  proof (rule Cons.IH)
    show "placed blk_of ?fs ?pl" using prems(6) lv at by (simp add: placed_def)
    show "inj_on (\<lambda>i. blk_of (group_desc ?fs ! i)) (set is)" using prems(5) by (simp add: inj_on_def)
  qed (use prems(1-4) ch(2) c(2) in auto)
  then obtain ch' v where r: "write_maps blk_of err pad is nb bitmap c ?fs = Some (OK, fs\<lparr>fs_io := ch'\<rparr>)"
    "stands_for n ch' (pl\<lparr>p_bytes := v\<rparr>)" "length v = length (p_bytes pl)"
    "\<forall>i \<in> set is. \<exists>b c. length b = ?bs \<and> pad i (part (i * nb) nb bitmap @ drop nb b) = Some c \<and> part (blk_at pl (?blk i)) ?bs v = c"
    "\<forall>blk. blk_at pl blk + ?bs \<le> length (p_bytes pl) \<and> blk \<notin> ?blk ` set is \<longrightarrow> part (blk_at pl blk) ?bs v = part (blk_at pl blk) ?bs ?v"
    using lv at by auto
  have notin: "?blk i \<notin> ?blk ` set is" using prems(2,5) by (auto simp: inj_on_def)
  have mine: "part (blk_at pl (?blk i)) ?bs v = c"
    using r(5) notin pl(4) part_write_at[of "blk_at pl (?blk i)" c "p_bytes pl"] c(2) by simp
  have others: "part (blk_at pl blk) ?bs v = part (blk_at pl blk) ?bs (p_bytes pl)"
    if "blk_at pl blk + ?bs \<le> length (p_bytes pl)" "blk \<notin> ?blk ` set (i # is)" for blk
  proof -
    have "part (blk_at pl blk) ?bs ?v = part (blk_at pl blk) ?bs (p_bytes pl)"
      using part_write_other[of "ucast blk" "ucast (?blk i)" c ?bs "nat (p_off pl)" "p_bytes pl"] that pl c(2)
      by (auto simp: blk_at_eq ucast_blk_inj)
    then show ?thesis using r(5) that by simp
  qed
  have "write_maps blk_of err pad (i # is) nb bitmap buf fs = Some (OK, fs\<lparr>fs_io := ch'\<rparr>)"
    using bw c(1) i(1) pl(3) ch(1) r(1) by simp
  then show ?case using r(2-4) mine others c(1) prems(8) by (intro exI[of _ ch'] exI[of _ v]) auto
qed

subsection \<open>Reading\<close>

lemma read_part_ok:
  assumes "stands_for (Suc n) ch pl" "blk \<noteq> 0" "int nb < 2 ^ 31" "blk_at pl blk + nb \<le> length (p_bytes pl)" "p + nb \<le> length bitmap"
  shows "\<exists>ch'. read_map_part ch blk (int nb) p bitmap
      = Some (OK, write_at bitmap p (part (blk_at pl blk) nb (p_bytes pl)), ch') \<and> stands_for n ch' pl"
proof -
  have size: "plain_size pl (- int nb) = int nb" by (simp add: plain_size_def)
  have "may (\<lambda>_. True) (Read (ucast blk) (- int nb)) pl" using size assms(3,4) by (simp add: blk_at_def)
  from read_ok[OF assms(1) this] obtain ch' where
    "unix_read_blk ch (ucast blk) (- int nb) = Some (OK, part (blk_at pl blk) nb (p_bytes pl), ch')" "stands_for n ch' pl"
    using size by (auto simp: blk_at_def)
  then show ?thesis using assms(2,4,5) by (simp add: read_map_part_def put_bytes_def)
qed

lemma part_write_row:
  assumes "j \<noteq> i" "length xs = n" "i * n + n \<le> length v" "j * n + n \<le> length v"
  shows "part (j * n) n (write_at v (i * n) xs) = part (j * n) n v"
proof (rule part_eqI)
  have "i * n + n \<le> j * n \<or> j * n + n \<le> i * n"
    using assms(1) mult_le_mono1[of "Suc i" j n] mult_le_mono1[of "Suc j" i n] by (cases "i < j") auto
  then show "write_at v (i * n) xs ! p = v ! p" if "j * n \<le> p" "p < j * n + n" for p
    using that assms(2-4) by (auto simp: nth_write_at)
qed (use assms in simp_all)

definition rows :: "nat \<Rightarrow> nat list \<Rightarrow> (nat \<Rightarrow> u8 list) \<Rightarrow> u8 list \<Rightarrow> u8 list \<Rightarrow> bool" where
  \<comment> \<open>\<open>ys\<close> is \<open>xs\<close> with the rows of \<open>n\<close> bytes in \<open>is\<close> replaced.\<close>
  "rows n is f xs ys \<longleftrightarrow> length ys = length xs \<and> (\<forall>i \<in> set is. part (i * n) n ys = f i)
     \<and> (\<forall>j. j \<notin> set is \<and> j * n + n \<le> length xs \<longrightarrow> part (j * n) n ys = part (j * n) n xs)"

lemma rows_Cons:
  assumes "rows n is f (write_at xs (i * n) (f i)) ys" "i \<notin> set is" "length (f i) = n" "i * n + n \<le> length xs"
  shows "rows n (i # is) f xs ys"
proof -
  have len: "length (write_at xs (i * n) (f i)) = length xs" using assms(3,4) by simp
  have "part (i * n) n ys = f i"
    using assms len part_write_at[of "i * n" "f i" xs] by (simp add: rows_def)
  moreover have "part (j * n) n ys = part (j * n) n xs" if "j \<notin> set (i # is)" "j * n + n \<le> length xs" for j
    using that assms(1) len part_write_row[OF _ assms(3,4) that(2)] by (simp add: rows_def)
  ultimately show ?thesis using assms(1) len by (auto simp: rows_def)
qed

lemma read_group_maps_ok:
  assumes "distinct is" "\<forall>i \<in> set is. i < length (group_desc fs) \<and> i * nb + nb \<le> length (bm_bytes b) \<and> i * ni + ni \<le> length (bm_bytes m)"
    and "block_map fs = Some b" "inode_map fs = Some m" "nb \<le> unat (fs_blocksize fs)" "ni \<le> unat (fs_blocksize fs)"
    and "placed bg_block_bitmap fs pl" "placed bg_inode_bitmap fs pl" "stands_for (2 * length is + n) (fs_io fs) pl"
  shows "\<exists>ch xs ys. read_group_maps True True (int ni) (int nb) is fs
      = Some (OK, fs\<lparr>block_map := Some (b\<lparr>bm_bytes := xs\<rparr>), inode_map := Some (m\<lparr>bm_bytes := ys\<rparr>), fs_io := ch\<rparr>)
    \<and> stands_for n ch pl
    \<and> rows nb is (\<lambda>i. part (blk_at pl (bg_block_bitmap (group_desc fs ! i))) nb (p_bytes pl)) (bm_bytes b) xs
    \<and> rows ni is (\<lambda>i. part (blk_at pl (bg_inode_bitmap (group_desc fs ! i))) ni (p_bytes pl)) (bm_bytes m) ys"
  using assms
proof (induction "is" arbitrary: fs b m)
  case Nil
  have "fs\<lparr>block_map := Some (b\<lparr>bm_bytes := bm_bytes b\<rparr>), inode_map := Some (m\<lparr>bm_bytes := bm_bytes m\<rparr>), fs_io := fs_io fs\<rparr> = fs"
    using Nil.prems(3,4) by simp
  then show ?case using Nil.prems(9)
    by (intro exI[of _ "fs_io fs"] exI[of _ "bm_bytes b"] exI[of _ "bm_bytes m"]) (simp add: rows_def)
next
  case (Cons i "is")
  note prems = Cons.prems
  let ?bs = "unat (fs_blocksize fs)" and ?g = "group_desc fs ! i"
  let ?B = "\<lambda>i. part (blk_at pl (bg_block_bitmap (group_desc fs ! i))) nb (p_bytes pl)"
  let ?I = "\<lambda>i. part (blk_at pl (bg_inode_bitmap (group_desc fs ! i))) ni (p_bytes pl)"
  have i: "i < length (group_desc fs)" "i * nb + nb \<le> length (bm_bytes b)" "i * ni + ni \<le> length (bm_bytes m)"
    "i \<notin> set is" using prems(1,2) by auto
  have pl: "int ?bs < 2 ^ 31" "bg_block_bitmap ?g \<noteq> 0" "blk_at pl (bg_block_bitmap ?g) + ?bs \<le> length (p_bytes pl)"
    "bg_inode_bitmap ?g \<noteq> 0" "blk_at pl (bg_inode_bitmap ?g) + ?bs \<le> length (p_bytes pl)"
    using prems(7,8) i(1) by (simp_all add: placed_def)
  have small: "int nb < 2 ^ 31" "int ni < 2 ^ 31" using pl(1) prems(5,6) by linarith+
  have room: "blk_at pl (bg_block_bitmap ?g) + nb \<le> length (p_bytes pl)" "blk_at pl (bg_inode_bitmap ?g) + ni \<le> length (p_bytes pl)"
    using pl(3,5) prems(5,6) by linarith+
  have sf: "stands_for (Suc (Suc (2 * length is + n))) (fs_io fs) pl" using prems(9) by simp
  obtain ch1 where ch1: "read_map_part (fs_io fs) (bg_block_bitmap ?g) (int nb) (i * nb) (bm_bytes b)
      = Some (OK, write_at (bm_bytes b) (i * nb) (?B i), ch1)" "stands_for (Suc (2 * length is + n)) ch1 pl"
    using read_part_ok[OF sf pl(2) small(1) room(1) i(2)] by blast
  obtain ch2 where ch2: "read_map_part ch1 (bg_inode_bitmap ?g) (int ni) (i * ni) (bm_bytes m)
      = Some (OK, write_at (bm_bytes m) (i * ni) (?I i), ch2)" "stands_for (2 * length is + n) ch2 pl"
    using read_part_ok[OF ch1(2) pl(4) small(2) room(2) i(3)] by blast
  let ?b = "b\<lparr>bm_bytes := write_at (bm_bytes b) (i * nb) (?B i)\<rparr>" and ?m = "m\<lparr>bm_bytes := write_at (bm_bytes m) (i * ni) (?I i)\<rparr>"
  let ?fs = "fs\<lparr>block_map := Some ?b, inode_map := Some ?m, fs_io := ch2\<rparr>"
  have len: "length (?B i) = nb" "length (?I i) = ni" using room by simp_all
  have step: "read_group_map True True (int ni) (int nb) i fs = Some (OK, ?fs)"
    using i(1) prems(3,4) ch1(1) ch2(1) by (simp add: read_group_map_def set_block_bytes_def set_inode_bytes_def)
  have "\<exists>ch xs ys. read_group_maps True True (int ni) (int nb) is ?fs
      = Some (OK, ?fs\<lparr>block_map := Some (?b\<lparr>bm_bytes := xs\<rparr>), inode_map := Some (?m\<lparr>bm_bytes := ys\<rparr>), fs_io := ch\<rparr>)
    \<and> stands_for n ch pl
    \<and> rows nb is (\<lambda>i. part (blk_at pl (bg_block_bitmap (group_desc ?fs ! i))) nb (p_bytes pl)) (bm_bytes ?b) xs
    \<and> rows ni is (\<lambda>i. part (blk_at pl (bg_inode_bitmap (group_desc ?fs ! i))) ni (p_bytes pl)) (bm_bytes ?m) ys"
    by (rule Cons.IH) (use prems ch2(2) len i in \<open>auto simp: placed_def\<close>)
  then obtain ch xs ys where r: "read_group_maps True True (int ni) (int nb) is ?fs
      = Some (OK, fs\<lparr>block_map := Some (b\<lparr>bm_bytes := xs\<rparr>), inode_map := Some (m\<lparr>bm_bytes := ys\<rparr>), fs_io := ch\<rparr>)"
    "stands_for n ch pl" "rows nb is ?B (write_at (bm_bytes b) (i * nb) (?B i)) xs"
    "rows ni is ?I (write_at (bm_bytes m) (i * ni) (?I i)) ys" by auto
  have "rows nb (i # is) ?B (bm_bytes b) xs" by (rule rows_Cons[OF r(3) i(4) len(1) i(2)])
  moreover have "rows ni (i # is) ?I (bm_bytes m) ys" by (rule rows_Cons[OF r(4) i(4) len(2) i(3)])
  ultimately show ?case using step r(1,2) by auto
qed

subsection \<open>The bits that come back\<close>

lemma row_inside: "i < N \<Longrightarrow> i * n + n \<le> N * n" for i n N :: nat
  using mult_le_mono1[of "Suc i" N n] by simp

lemma rows_bits:
  assumes "rows n [0..<N] f xs ys" "length xs = N * n" "t < 8 * n * N"
  shows "bitget ys t = bitget (f (t div (8 * n))) (t mod (8 * n))"
proof -
  let ?i = "t div (8 * n)" and ?j = "t mod (8 * n)"
  have n: "0 < 8 * n" using assms(3) by (cases n) auto
  have i: "?i < N" using assms(3) n by (simp add: div_less_iff_less_mult mult.commute)
  have "?i * n + n \<le> N * n" by (rule row_inside[OF i])
  then have "bitget (part (?i * n) n ys) ?j = bitget ys (8 * (?i * n) + ?j)"
    using assms(1,2) n by (intro bitget_part) (simp_all add: rows_def)
  moreover have "8 * (?i * n) + ?j = t" using div_mult_mod_eq[of t "8 * n"] by (simp add: algebra_simps)
  moreover have "part (?i * n) n ys = f ?i" using assms(1) i by (simp add: rows_def)
  ultimately show ?thesis by simp
qed

lemma written_bits:
  assumes "length b = bs" "pad i (part (i * nb) nb bitmap @ drop nb b) = Some c" "part l bs v = c"
    and "\<And>buf. length buf = bs \<Longrightarrow> \<exists>c. pad i buf = Some c \<and> length c = bs
      \<and> (\<forall>k < 8 * bs. bitget c k = (padded i k \<or> bitget buf k))"
    and "nb \<le> bs" "i * nb + nb \<le> length bitmap" "j < 8 * nb"
  shows "bitget (part l nb v) j = (padded i j \<or> bitget bitmap (8 * (i * nb) + j))"
proof -
  let ?buf = "part (i * nb) nb bitmap @ drop nb b"
  have lb: "length ?buf = bs" using assms(1,5,6) by simp
  have c: "length c = bs" "\<forall>k < 8 * bs. bitget c k = (padded i k \<or> bitget ?buf k)"
    using assms(2) assms(4)[OF lb] by auto
  have "part l nb v = part 0 nb c" using part_part[of 0 nb bs l v] assms(3,5) by simp
  then have "bitget (part l nb v) j = bitget c j" using bitget_part[of 0 nb c j] assms(5,7) c(1) by simp
  moreover have "bitget ?buf j = bitget (part (i * nb) nb bitmap) j"
    using assms(6,7) by (simp add: bitget_def nth_append less_mult_imp_div_less)
  ultimately show ?thesis using c(2) bitget_part[of "i * nb" nb bitmap j] assms(5-7) by auto
qed

lemma bit_numbers:
  assumes "bm_ok b" "bm_ok b'" "bm_start b' = bm_start b" "bm_end b' = bm_end b"
    and "\<And>t. t \<le> unat (bm_end b - bm_start b) \<Longrightarrow> bitget (bm_bytes b') t = bitget (bm_bytes b) t"
  shows "bm_set b' = bm_set b"
proof -
  have "bm_bit b' x = bm_bit b x" if "bm_start b \<le> x" "x \<le> bm_end b" for x
  proof -
    have "unat (x - bm_start b) \<le> unat (bm_end b - bm_start b)"
      using that by (simp add: unat_offset word_le_nat_alt)
    then show ?thesis using assms(3,5) by (simp add: bm_bit_def)
  qed
  then show ?thesis using assms(3,4) by (auto simp: bm_set_def)
qed

subsection \<open>A filesystem that fits its bitmaps\<close>

definition fits :: "ext2_fs \<Rightarrow> bitmap \<Rightarrow> bitmap \<Rightarrow> nat \<Rightarrow> nat \<Rightarrow> bool" where
  \<comment> \<open>The bitmaps of blocks and inodes have \<open>nb\<close> and \<open>ni\<close> bytes in each group, and the last group is not empty.\<close>
  "fits fs b m nb ni \<longleftrightarrow> fs_magic fs = EXT2_ET_MAGIC_EXT2FS_FILSYS
     \<and> 0 < length (group_desc fs) \<and> unat (group_desc_count fs) = length (group_desc fs)
     \<and> unat (fs_blocksize fs) \<le> 65536 \<and> 0 < nb \<and> nb \<le> unat (fs_blocksize fs) \<and> 0 < ni \<and> ni \<le> unat (fs_blocksize fs)
     \<and> unat (s_blocks_per_group fs) = 8 * nb \<and> unat (s_inodes_per_group fs) = 8 * ni
     \<and> block_map fs = Some b \<and> bm_over (s_first_data_block fs) (s_blocks_count fs - 1) b
     \<and> unat (bm_real_end b) + 1 = unat (s_first_data_block fs) + 8 * nb * length (group_desc fs)
     \<and> s_first_data_block fs < s_blocks_count fs
     \<and> 8 * nb * (length (group_desc fs) - 1) < unat (s_blocks_count fs) - unat (s_first_data_block fs)
     \<and> inode_map fs = Some m \<and> bm_over 1 (s_inodes_count fs) m
     \<and> unat (bm_real_end m) = 8 * ni * length (group_desc fs)"

definition padded :: "ext2_fs \<Rightarrow> nat \<Rightarrow> nat \<Rightarrow> bool" where
  \<comment> \<open>The bits of the block of a group that are padding.\<close>
  "padded fs i k \<longleftrightarrow> i = length (group_desc fs) - 1
     \<and> (let nbits = unat ((s_blocks_count fs - s_first_data_block fs) mod s_blocks_per_group fs) in nbits \<noteq> 0 \<and> nbits \<le> k)"

lemma pad_last_ok:
  assumes "fits fs b m nb ni" "length buf = unat (fs_blocksize fs)"
  shows "\<exists>c. pad_last fs i buf = Some c \<and> length c = unat (fs_blocksize fs)
      \<and> (\<forall>k < 8 * unat (fs_blocksize fs). bitget c k = (padded fs i k \<or> bitget buf k))"
proof -
  note f = assms(1)[unfolded fits_def]
  let ?bs = "unat (fs_blocksize fs)" and ?r = "(s_blocks_count fs - s_first_data_block fs) mod s_blocks_per_group fs"
  have gdc: "unat (group_desc_count fs - 1) = length (group_desc fs) - 1"
    using f unat_minus_1[of "group_desc_count fs" "length (group_desc fs) - 1"] by simp
  have bpg: "s_blocks_per_group fs \<noteq> 0" using f by (auto simp: unat_eq_zero)
  have bits: "unat (fs_blocksize fs * 8) = 8 * ?bs" using f by (simp add: unat_word_ariths)
  have all: "\<forall>j \<in> set [unat ?r..<8 * ?bs]. j div 8 < length buf \<and> j < 2 ^ 32"
    using f assms(2) by (auto simp: less_mult_imp_div_less)
  obtain c where c: "set_bits [unat ?r..<8 * ?bs] buf = Some c" "length c = length buf"
    "\<forall>k. k div 8 < length buf \<longrightarrow> bitget c k = (k \<in> set [unat ?r..<8 * ?bs] \<or> bitget buf k)"
    using set_bits_result[OF all] by blast
  have bit: "bitget c k = (unat ?r \<le> k \<or> bitget buf k)" if "k < 8 * ?bs" for k
    using c(3) that assms(2) by (auto simp: less_mult_imp_div_less)
  show ?thesis
  proof (cases "i = length (group_desc fs) - 1 \<and> ?r \<noteq> 0")
    case True
    then have "pad_last fs i buf = Some c" using gdc bpg bits c(1) by (simp add: pad_last_def Let_def)
    moreover have "padded fs i k = (unat ?r \<le> k)" for k
      using True unat_eq_zero[of ?r] by (simp add: padded_def Let_def del: unat_eq_zero)
    ultimately show ?thesis using c(2) bit assms(2) by simp
  next
    case False
    then show ?thesis using gdc bpg assms(2) by (auto simp: pad_last_def padded_def Let_def unat_eq_zero)
  qed
qed

lemma blocks_bound:
  assumes "fits fs b m nb ni"
  shows "unat (s_blocks_count fs) - unat (s_first_data_block fs) \<le> 8 * nb * length (group_desc fs)"
proof -
  note f = assms[unfolded fits_def]
  have "bm_end b = s_blocks_count fs - 1" "bm_end b \<le> bm_real_end b" using f unfolding bm_over_def bm_ok_def by blast+
  then have "unat (s_blocks_count fs - 1) \<le> unat (bm_real_end b)" by (metis word_le_nat_alt)
  moreover have "unat (s_blocks_count fs - 1) = unat (s_blocks_count fs) - 1" "0 < unat (s_blocks_count fs)"
    using f unat_minus_1[of "s_blocks_count fs" "unat (s_blocks_count fs) - 1"] by (auto simp: word_less_nat_alt)
  ultimately show ?thesis using f by linarith
qed

lemma not_padded:
  assumes "fits fs b m nb ni" "t < unat (s_blocks_count fs) - unat (s_first_data_block fs)"
  shows "\<not> padded fs (t div (8 * nb)) (t mod (8 * nb))"
proof
  note f = assms(1)[unfolded fits_def]
  let ?n = "length (group_desc fs)" and ?c = "unat (s_blocks_count fs) - unat (s_first_data_block fs)"
  assume p: "padded fs (t div (8 * nb)) (t mod (8 * nb))"
  have c: "unat (s_blocks_count fs - s_first_data_block fs) = ?c"
    using f by (intro unat_offset) auto
  then have r: "unat ((s_blocks_count fs - s_first_data_block fs) mod s_blocks_per_group fs) = ?c mod (8 * nb)"
    using f by (simp add: unat_mod)
  have bound: "?c \<le> 8 * nb * ?n" by (rule blocks_bound[OF assms(1)])
  have nz: "?c mod (8 * nb) \<noteq> 0" "?c mod (8 * nb) \<le> t mod (8 * nb)" "t div (8 * nb) = ?n - 1"
    using p r by (simp_all add: padded_def Let_def)
  have "8 * nb * (?n - 1) < ?c" using f by simp
  moreover have "?c = ?c div (8 * nb) * (8 * nb) + ?c mod (8 * nb)" "t = (?n - 1) * (8 * nb) + t mod (8 * nb)"
    using nz(3) by (metis div_mult_mod_eq)+
  moreover have "?c div (8 * nb) \<le> ?n - 1"
  proof (rule ccontr)
    assume "\<not> ?c div (8 * nb) \<le> ?n - 1"
    then have "?n * (8 * nb) \<le> ?c div (8 * nb) * (8 * nb)" by (intro mult_le_mono1) simp
    moreover have "?c \<le> ?n * (8 * nb)" using bound by (simp only: mult.commute)
    ultimately show False using nz(1) div_mult_mod_eq[of ?c "8 * nb"] by linarith
  qed
  then have "?c div (8 * nb) * (8 * nb) \<le> (?n - 1) * (8 * nb)" by (rule mult_le_mono1)
  ultimately show False using assms(2) nz(2) by linarith
qed

subsection \<open>The two bitmaps\<close>

lemma fitsD:
  assumes "fits fs b m nb ni"
  shows "fs_magic fs = EXT2_ET_MAGIC_EXT2FS_FILSYS" "unat (group_desc_count fs) = length (group_desc fs)"
    "0 < nb" "nb \<le> unat (fs_blocksize fs)" "0 < ni" "ni \<le> unat (fs_blocksize fs)" "unat (fs_blocksize fs) \<le> 65536"
    "unat (s_blocks_per_group fs) = 8 * nb" "unat (s_inodes_per_group fs) = 8 * ni"
    "block_map fs = Some b" "bm_over (s_first_data_block fs) (s_blocks_count fs - 1) b"
    "unat (bm_real_end b) + 1 = unat (s_first_data_block fs) + 8 * nb * length (group_desc fs)"
    "inode_map fs = Some m" "bm_over 1 (s_inodes_count fs) m" "unat (bm_real_end m) = 8 * ni * length (group_desc fs)"
    "0 < length (group_desc fs)" "s_first_data_block fs < s_blocks_count fs"
  using assms unfolding fits_def by blast+

lemma fits_cong:
  assumes "fits fs b m nb ni" "fs' = fs\<lparr>fs_io := ch, fs_flags := f\<rparr>"
  shows "fits fs' b m nb ni"
  using assms(1) unfolding fits_def assms(2) by simp

lemma map_lengths:
  assumes "fits fs b m nb ni"
  shows "length (bm_bytes b) = length (group_desc fs) * nb" "length (bm_bytes m) = length (group_desc fs) * ni"
proof -
  note f = fitsD[OF assms]
  let ?n = "length (group_desc fs)"
  have bytes: "map_bytes s r = n" if "s \<le> r" "unat r + 1 = unat s + 8 * n" "0 < n" for s r n
  proof -
    have d: "unat (r - s) = 8 * n - 1" using that(2) unat_offset[OF that(1)] by simp
    have "(8 * n - 1) div 8 = n - 1" using that(3) by (cases n) simp_all
    then have q: "unat ((r - s) div 8) = n - 1" using d by (simp add: unat_div)
    have "n - 1 + 1 < 2 ^ 32" using unsigned_less[of r, where 'a = nat] that(2,3) by simp
    then show ?thesis using q that(3) by (simp add: map_bytes_def unat_plus_1)
  qed
  have b: "bm_start b \<le> bm_real_end b" "length (bm_bytes b) = map_bytes (bm_start b) (bm_real_end b)"
      "bm_start b = s_first_data_block fs"
    using f(11) order_trans unfolding bm_over_def bm_ok_def by blast+
  have m: "bm_start m \<le> bm_real_end m" "length (bm_bytes m) = map_bytes (bm_start m) (bm_real_end m)" "bm_start m = 1"
    using f(14) order_trans unfolding bm_over_def bm_ok_def by blast+
  show "length (bm_bytes b) = ?n * nb"
    using b bytes[of "bm_start b" "bm_real_end b" "nb * ?n"] f(3,12,16) by (simp add: mult.commute)
  show "length (bm_bytes m) = ?n * ni"
    using m bytes[of "bm_start m" "bm_real_end m" "ni * ?n"] f(5,15,16) by (simp add: mult.commute)
qed

definition stored :: "(ext2_group_desc \<Rightarrow> u32) \<Rightarrow> (nat \<Rightarrow> nat \<Rightarrow> bool) \<Rightarrow> ext2_fs \<Rightarrow> plain \<Rightarrow> nat \<Rightarrow> u8 list \<Rightarrow> u8 list \<Rightarrow> bool" where
  \<comment> \<open>The bytes \<open>v\<close> of the device hold the rows of \<open>n\<close> bytes of a bitmap, up to padding.\<close>
  "stored blk_of pad fs pl n bitmap v \<longleftrightarrow> (\<forall>i < length (group_desc fs). \<forall>j < 8 * n.
     bitget (part (blk_at pl (blk_of (group_desc fs ! i))) n v) j = (pad i j \<or> bitget bitmap (8 * (i * n) + j)))"

definition apart :: "(ext2_group_desc \<Rightarrow> u32) \<Rightarrow> ext2_fs \<Rightarrow> bool" where
  \<comment> \<open>No two groups share the block.\<close>
  "apart blk_of fs \<longleftrightarrow> inj_on (\<lambda>i. blk_of (group_desc fs ! i)) {..<length (group_desc fs)}"

lemma stored_rows:
  assumes "\<forall>i \<in> set [0..<length (group_desc fs)]. \<exists>b c. length b = bs \<and> pad i (part (i * n) n bitmap @ drop n b) = Some c
      \<and> part (blk_at pl (blk_of (group_desc fs ! i))) bs v = c"
    and "\<And>i buf. length buf = bs \<Longrightarrow> \<exists>c. pad i buf = Some c \<and> length c = bs \<and> (\<forall>k < 8 * bs. bitget c k = (p i k \<or> bitget buf k))"
    and "n \<le> bs" "length bitmap = length (group_desc fs) * n"
  shows "stored blk_of p fs pl n bitmap v"
  unfolding stored_def
proof (intro allI impI)
  fix i j assume i: "i < length (group_desc fs)" and j: "j < 8 * n"
  obtain b c where bc: "length b = bs" "pad i (part (i * n) n bitmap @ drop n b) = Some c"
    "part (blk_at pl (blk_of (group_desc fs ! i))) bs v = c" using bspec[OF assms(1), of i] i by auto
  have "i * n + n \<le> length bitmap" using row_inside[OF i] assms(4) by simp
  then show "bitget (part (blk_at pl (blk_of (group_desc fs ! i))) n v) j = (p i j \<or> bitget bitmap (8 * (i * n) + j))"
    using bc assms(2,3) j by (intro written_bits[where pad = pad and i = i and padded = p and c = c and b = b]) auto
qed

definition others_kept :: "ext2_fs \<Rightarrow> plain \<Rightarrow> u32 set \<Rightarrow> u8 list \<Rightarrow> bool" where
  \<comment> \<open>Only the blocks in \<open>A\<close> have changed.\<close>
  "others_kept fs pl A v \<longleftrightarrow> (\<forall>blk. blk_at pl blk + unat (fs_blocksize fs) \<le> length (p_bytes pl) \<and> blk \<notin> A
     \<longrightarrow> part (blk_at pl blk) (unat (fs_blocksize fs)) v = part (blk_at pl blk) (unat (fs_blocksize fs)) (p_bytes pl))"

lemma write_block_ok:
  assumes "fits fs b m nb ni" "placed bg_block_bitmap fs pl" "apart bg_block_bitmap fs"
    and "stands_for (length (group_desc fs) + k) (fs_io fs) pl" "mem (unat (fs_blocksize fs))" "fs_flags fs AND EXT2_FLAG_RW \<noteq> 0"
  shows "\<exists>ch v. ext2fs_write_block_bitmap mem fs = Some (OK, fs\<lparr>fs_io := ch, fs_flags := fs_flags fs AND NOT EXT2_FLAG_BB_DIRTY\<rparr>)
    \<and> stands_for k ch (pl\<lparr>p_bytes := v\<rparr>) \<and> length v = length (p_bytes pl)
    \<and> stored bg_block_bitmap (padded fs) fs pl nb (bm_bytes b) v
    \<and> others_kept fs pl (bg_block_bitmap ` set (group_desc fs)) v"
proof -
  note f = fitsD[OF assms(1)] and len = map_lengths[OF assms(1)]
  let ?bs = "unat (fs_blocksize fs)" and ?n = "length (group_desc fs)"
  have nb: "unat (s_blocks_per_group fs div 8) = nb" using f(8) by (simp add: unat_div)
  have inside: "\<forall>i \<in> set [0..<?n]. i < ?n \<and> i * nb + nb \<le> length (bm_bytes b)"
    using row_inside len(1) by simp
  have blks: "bg_block_bitmap ` set (group_desc fs) = (\<lambda>i. bg_block_bitmap (group_desc fs ! i)) ` set [0..<?n]"
    by (force simp: in_set_conv_nth)
  have pad: "\<exists>c. pad_last fs i buf = Some c \<and> length c = length buf" if "length buf = ?bs" for i buf
    using pad_last_ok[OF assms(1) that] that by auto
  obtain ch v where w: "write_maps bg_block_bitmap EXT2_ET_BLOCK_BITMAP_WRITE (pad_last fs) [0..<?n] nb (bm_bytes b)
      (replicate ?bs 255) fs = Some (OK, fs\<lparr>fs_io := ch\<rparr>)" "stands_for k ch (pl\<lparr>p_bytes := v\<rparr>)"
    "length v = length (p_bytes pl)"
    "\<forall>i \<in> set [0..<?n]. \<exists>buf c. length buf = ?bs \<and> pad_last fs i (part (i * nb) nb (bm_bytes b) @ drop nb buf) = Some c
         \<and> part (blk_at pl (bg_block_bitmap (group_desc fs ! i))) ?bs v = c"
    "\<forall>blk. blk_at pl blk + ?bs \<le> length (p_bytes pl) \<and> blk \<notin> (\<lambda>i. bg_block_bitmap (group_desc fs ! i)) ` set [0..<?n]
         \<longrightarrow> part (blk_at pl blk) ?bs v = part (blk_at pl blk) ?bs (p_bytes pl)"
    using write_maps_ok[of "[0..<?n]" fs "pad_last fs" nb "bm_bytes b" bg_block_bitmap pl k "replicate ?bs 255" EXT2_ET_BLOCK_BITMAP_WRITE]
      pad inside f(4) assms(2-4) unfolding apart_def by (auto simp: lessThan_atLeast0)
  have "stored bg_block_bitmap (padded fs) fs pl nb (bm_bytes b) v"
    by (rule stored_rows[OF w(4) pad_last_ok[OF assms(1)] f(4) len(1)])
  then show ?thesis using w(1-3) w(5)[folded blks] f(1,2,10) assms(5,6) nb
    by (intro exI[of _ ch] exI[of _ v]) (simp add: others_kept_def ext2fs_write_block_bitmap_def Let_def ext2fs_get_mem_def)
qed

lemma write_inode_ok:
  assumes "fits fs b m nb ni" "placed bg_inode_bitmap fs pl" "apart bg_inode_bitmap fs"
    and "stands_for (length (group_desc fs) + k) (fs_io fs) pl" "mem (unat (fs_blocksize fs))" "fs_flags fs AND EXT2_FLAG_RW \<noteq> 0"
  shows "\<exists>ch v. ext2fs_write_inode_bitmap mem fs = Some (OK, fs\<lparr>fs_io := ch, fs_flags := fs_flags fs AND NOT EXT2_FLAG_IB_DIRTY\<rparr>)
    \<and> stands_for k ch (pl\<lparr>p_bytes := v\<rparr>) \<and> length v = length (p_bytes pl)
    \<and> stored bg_inode_bitmap (\<lambda>_ _. False) fs pl ni (bm_bytes m) v
    \<and> others_kept fs pl (bg_inode_bitmap ` set (group_desc fs)) v"
proof -
  note f = fitsD[OF assms(1)] and len = map_lengths[OF assms(1)]
  let ?bs = "unat (fs_blocksize fs)" and ?n = "length (group_desc fs)"
  have "unat (s_inodes_per_group fs + 7) = 8 * ni + 7" using f(6,7,9) by (simp add: unat_word_ariths)
  then have ni: "unat ((s_inodes_per_group fs + 7) div 8) = ni" by (simp add: unat_div)
  have inside: "\<forall>i \<in> set [0..<?n]. i < ?n \<and> i * ni + ni \<le> length (bm_bytes m)"
    using row_inside len(2) by simp
  have blks: "bg_inode_bitmap ` set (group_desc fs) = (\<lambda>i. bg_inode_bitmap (group_desc fs ! i)) ` set [0..<?n]"
    by (force simp: in_set_conv_nth)
  obtain ch v where w: "write_maps bg_inode_bitmap EXT2_ET_INODE_BITMAP_WRITE (\<lambda>i. Some) [0..<?n] ni (bm_bytes m)
      (replicate ?bs 255) fs = Some (OK, fs\<lparr>fs_io := ch\<rparr>)" "stands_for k ch (pl\<lparr>p_bytes := v\<rparr>)"
    "length v = length (p_bytes pl)"
    "\<forall>i \<in> set [0..<?n]. \<exists>buf c. length buf = ?bs \<and> Some (part (i * ni) ni (bm_bytes m) @ drop ni buf) = Some c
         \<and> part (blk_at pl (bg_inode_bitmap (group_desc fs ! i))) ?bs v = c"
    "\<forall>blk. blk_at pl blk + ?bs \<le> length (p_bytes pl) \<and> blk \<notin> (\<lambda>i. bg_inode_bitmap (group_desc fs ! i)) ` set [0..<?n]
         \<longrightarrow> part (blk_at pl blk) ?bs v = part (blk_at pl blk) ?bs (p_bytes pl)"
    using write_maps_ok[of "[0..<?n]" fs "\<lambda>i. Some" ni "bm_bytes m" bg_inode_bitmap pl k "replicate ?bs 255" EXT2_ET_INODE_BITMAP_WRITE]
      inside f(6) assms(2-4) unfolding apart_def by (auto simp: lessThan_atLeast0)
  have "stored bg_inode_bitmap (\<lambda>_ _. False) fs pl ni (bm_bytes m) v"
    by (rule stored_rows[OF w(4) _ f(6) len(2)]) simp
  then show ?thesis using w(1-3) w(5)[folded blks] f(1,2,13) assms(5,6) ni
    by (intro exI[of _ ch] exI[of _ v]) (simp add: others_kept_def ext2fs_write_inode_bitmap_def Let_def ext2fs_get_mem_def)
qed

definition laid_out :: "ext2_fs \<Rightarrow> plain \<Rightarrow> bool" where
  \<comment> \<open>Every bitmap of a group has its own block on the device.\<close>
  "laid_out fs pl \<longleftrightarrow> placed bg_block_bitmap fs pl \<and> placed bg_inode_bitmap fs pl
     \<and> apart bg_block_bitmap fs \<and> apart bg_inode_bitmap fs
     \<and> bg_block_bitmap ` set (group_desc fs) \<inter> bg_inode_bitmap ` set (group_desc fs) = {}"

lemma dirty_kept: "(f AND NOT EXT2_FLAG_BB_DIRTY) AND EXT2_FLAG_IB_DIRTY = f AND EXT2_FLAG_IB_DIRTY"
    "(f AND NOT EXT2_FLAG_BB_DIRTY) AND EXT2_FLAG_RW = f AND EXT2_FLAG_RW"
    "((f AND NOT EXT2_FLAG_BB_DIRTY) AND NOT EXT2_FLAG_IB_DIRTY) AND EXT2_FLAG_IMAGE_FILE = f AND EXT2_FLAG_IMAGE_FILE"
    "((f AND NOT EXT2_FLAG_BB_DIRTY) AND NOT EXT2_FLAG_IB_DIRTY) AND EXT2_FLAG_BB_DIRTY = 0"
    "((f AND NOT EXT2_FLAG_BB_DIRTY) AND NOT EXT2_FLAG_IB_DIRTY) AND EXT2_FLAG_IB_DIRTY = 0" for f :: u32
proof -
  have c: "NOT EXT2_FLAG_BB_DIRTY AND EXT2_FLAG_IB_DIRTY = EXT2_FLAG_IB_DIRTY" "NOT EXT2_FLAG_BB_DIRTY AND EXT2_FLAG_RW = EXT2_FLAG_RW"
    "NOT EXT2_FLAG_BB_DIRTY AND (NOT EXT2_FLAG_IB_DIRTY AND EXT2_FLAG_IMAGE_FILE) = EXT2_FLAG_IMAGE_FILE"
    "NOT EXT2_FLAG_BB_DIRTY AND (NOT EXT2_FLAG_IB_DIRTY AND EXT2_FLAG_BB_DIRTY) = 0"
    "NOT EXT2_FLAG_BB_DIRTY AND (NOT EXT2_FLAG_IB_DIRTY AND EXT2_FLAG_IB_DIRTY) = 0"
    by (simp_all add: EXT2_FLAG_BB_DIRTY_def EXT2_FLAG_IB_DIRTY_def EXT2_FLAG_RW_def EXT2_FLAG_IMAGE_FILE_def)
  show "(f AND NOT EXT2_FLAG_BB_DIRTY) AND EXT2_FLAG_IB_DIRTY = f AND EXT2_FLAG_IB_DIRTY"
    "(f AND NOT EXT2_FLAG_BB_DIRTY) AND EXT2_FLAG_RW = f AND EXT2_FLAG_RW"
    "((f AND NOT EXT2_FLAG_BB_DIRTY) AND NOT EXT2_FLAG_IB_DIRTY) AND EXT2_FLAG_IMAGE_FILE = f AND EXT2_FLAG_IMAGE_FILE"
    "((f AND NOT EXT2_FLAG_BB_DIRTY) AND NOT EXT2_FLAG_IB_DIRTY) AND EXT2_FLAG_BB_DIRTY = 0"
    "((f AND NOT EXT2_FLAG_BB_DIRTY) AND NOT EXT2_FLAG_IB_DIRTY) AND EXT2_FLAG_IB_DIRTY = 0"
    by (simp_all only: and.assoc c and_zero_eq)
qed

lemma write_both_ok:
  assumes "fits fs b m nb ni" "laid_out fs pl" "stands_for (2 * length (group_desc fs) + k) (fs_io fs) pl" "\<forall>n. mem n"
    and "fs_flags fs AND EXT2_FLAG_RW \<noteq> 0" "ext2fs_test_bb_dirty fs \<noteq> 0" "ext2fs_test_ib_dirty fs \<noteq> 0"
  shows "\<exists>ch v. ext2fs_write_bitmaps mem fs = Some (OK, fs\<lparr>fs_io := ch,
        fs_flags := (fs_flags fs AND NOT EXT2_FLAG_BB_DIRTY) AND NOT EXT2_FLAG_IB_DIRTY\<rparr>)
    \<and> stands_for k ch (pl\<lparr>p_bytes := v\<rparr>) \<and> length v = length (p_bytes pl)
    \<and> stored bg_block_bitmap (padded fs) fs pl nb (bm_bytes b) v \<and> stored bg_inode_bitmap (\<lambda>_ _. False) fs pl ni (bm_bytes m) v
    \<and> others_kept fs pl (bg_block_bitmap ` set (group_desc fs) \<union> bg_inode_bitmap ` set (group_desc fs)) v"
proof -
  note f = fitsD[OF assms(1)]
  let ?bs = "unat (fs_blocksize fs)" and ?n = "length (group_desc fs)" and ?f = "fs_flags fs AND NOT EXT2_FLAG_BB_DIRTY"
  have lay: "placed bg_block_bitmap fs pl" "placed bg_inode_bitmap fs pl" "apart bg_block_bitmap fs" "apart bg_inode_bitmap fs"
    "bg_block_bitmap ` set (group_desc fs) \<inter> bg_inode_bitmap ` set (group_desc fs) = {}"
    using assms(2) unfolding laid_out_def by blast+
  have sf: "stands_for (?n + (?n + k)) (fs_io fs) pl" using assms(3) by (simp add: mult_2 add.assoc)
  obtain ch v where w: "ext2fs_write_block_bitmap mem fs = Some (OK, fs\<lparr>fs_io := ch, fs_flags := ?f\<rparr>)"
    "stands_for (?n + k) ch (pl\<lparr>p_bytes := v\<rparr>)" "length v = length (p_bytes pl)"
    "stored bg_block_bitmap (padded fs) fs pl nb (bm_bytes b) v" "others_kept fs pl (bg_block_bitmap ` set (group_desc fs)) v"
    using write_block_ok[where mem = mem, OF assms(1) lay(1,3) sf _ assms(5)] assms(4) by blast
  let ?fs = "fs\<lparr>fs_io := ch, fs_flags := ?f\<rparr>" and ?pl = "pl\<lparr>p_bytes := v\<rparr>"
  have at: "blk_at ?pl = blk_at pl" by (simp add: blk_at_def plain_at_def fun_eq_iff)
  have "placed bg_inode_bitmap ?fs ?pl" "apart bg_inode_bitmap ?fs"
    using lay(2,4) w(3) at by (simp_all add: placed_def apart_def)
  moreover have "stands_for (length (group_desc ?fs) + k) (fs_io ?fs) ?pl" "fs_flags ?fs AND EXT2_FLAG_RW \<noteq> 0"
    using w(2) assms(5) by (simp_all add: dirty_kept)
  ultimately obtain ch' v' where i: "ext2fs_write_inode_bitmap mem ?fs
      = Some (OK, ?fs\<lparr>fs_io := ch', fs_flags := fs_flags ?fs AND NOT EXT2_FLAG_IB_DIRTY\<rparr>)"
    "stands_for k ch' (?pl\<lparr>p_bytes := v'\<rparr>)" "length v' = length (p_bytes ?pl)"
    "stored bg_inode_bitmap (\<lambda>_ _. False) ?fs ?pl ni (bm_bytes m) v'"
    "others_kept ?fs ?pl (bg_inode_bitmap ` set (group_desc ?fs)) v'"
    using write_inode_ok[where mem = mem and pl = ?pl and k = k, OF fits_cong[where ch = ch and f = ?f, OF assms(1) refl]] assms(4) by auto
  have kept: "part (blk_at pl (bg_block_bitmap (group_desc fs ! i))) nb v' = part (blk_at pl (bg_block_bitmap (group_desc fs ! i))) nb v"
    if "i < ?n" for i
  proof -
    let ?blk = "bg_block_bitmap (group_desc fs ! i)"
    have "?blk \<in> bg_block_bitmap ` set (group_desc fs)" using that by simp
    then have "?blk \<notin> bg_inode_bitmap ` set (group_desc fs)" using lay(5) by blast
    moreover have "blk_at pl ?blk + ?bs \<le> length v" using lay(1) that w(3) by (simp add: placed_def)
    ultimately have "part (blk_at pl ?blk) ?bs v' = part (blk_at pl ?blk) ?bs v"
      using i(5) at by (simp add: others_kept_def)
    then show ?thesis using part_part[of 0 nb ?bs "blk_at pl ?blk"] f(4) by (metis add.right_neutral add_0)
  qed
  have "stored bg_block_bitmap (padded fs) fs pl nb (bm_bytes b) v'" using w(4) kept by (simp add: stored_def)
  moreover have "stored bg_inode_bitmap (\<lambda>_ _. False) fs pl ni (bm_bytes m) v'" using i(4) at by (simp add: stored_def)
  moreover have "ext2fs_write_bitmaps mem fs = Some (OK, fs\<lparr>fs_io := ch', fs_flags := ?f AND NOT EXT2_FLAG_IB_DIRTY\<rparr>)"
    using w(1) i(1) f(1,10,13) assms(6,7) by (simp add: ext2fs_write_bitmaps_def ext2fs_test_ib_dirty_def dirty_kept)
  moreover have "others_kept fs pl (bg_block_bitmap ` set (group_desc fs) \<union> bg_inode_bitmap ` set (group_desc fs)) v'"
    using w(3,5) i(5) at by (simp add: others_kept_def)
  ultimately show ?thesis using i(2,3) w(3) by (intro exI[of _ ch'] exI[of _ v']) simp
qed

lemma real_ends:
  assumes "fits fs b m nb ni"
  shows "s_blocks_per_group fs * group_desc_count fs - 1 + s_first_data_block fs = bm_real_end b"
    "s_inodes_per_group fs * group_desc_count fs = bm_real_end m"
proof -
  note f = fitsD[OF assms]
  have w: "s_blocks_per_group fs = of_nat (8 * nb)" "s_inodes_per_group fs = of_nat (8 * ni)"
    "group_desc_count fs = of_nat (length (group_desc fs))"
    unfolding f(2,8,9)[symmetric] by simp_all
  have "(of_nat (unat (bm_real_end b) + 1) :: u32) = of_nat (unat (s_first_data_block fs) + 8 * nb * length (group_desc fs))"
    by (simp only: f(12))
  then have "bm_real_end b + 1 = s_first_data_block fs + s_blocks_per_group fs * group_desc_count fs"
    using w by (simp add: ac_simps)
  then show "s_blocks_per_group fs * group_desc_count fs - 1 + s_first_data_block fs = bm_real_end b"
    by (simp add: algebra_simps)
  have "(of_nat (unat (bm_real_end m)) :: u32) = of_nat (8 * ni * length (group_desc fs))" by (simp only: f(15))
  then show "s_inodes_per_group fs * group_desc_count fs = bm_real_end m" using w by simp
qed

lemma fresh_ok:
  assumes "fits fs b m nb ni" "\<forall>n. mem n" "fs0 = fs\<lparr>fs_io := ch, fs_flags := f, block_map := None, inode_map := None\<rparr>"
  shows "\<exists>b' m'. fresh_maps mem fs0 True True = Some (OK, fs0\<lparr>block_map := Some b', inode_map := Some m'\<rparr>)
    \<and> bm_over (s_first_data_block fs) (s_blocks_count fs - 1) b' \<and> length (bm_bytes b') = length (bm_bytes b)
    \<and> bm_over 1 (s_inodes_count fs) m' \<and> length (bm_bytes m') = length (bm_bytes m)"
proof -
  note f = fitsD[OF assms(1)] and r = real_ends[OF assms(1)]
  let ?b = "\<lparr>bm_magic = EXT2_ET_MAGIC_BLOCK_BITMAP, bm_start = s_first_data_block fs, bm_end = s_blocks_count fs - 1,
    bm_real_end = bm_real_end b, bm_description = Some (''block bitmap for '' @ fs_device_name fs),
    bm_bytes = replicate (map_bytes (s_first_data_block fs) (bm_real_end b)) 0, bm_error = EXT2_ET_BAD_BLOCK_MARK\<rparr>"
  let ?m = "\<lparr>bm_magic = EXT2_ET_MAGIC_INODE_BITMAP, bm_start = 1, bm_end = s_inodes_count fs,
    bm_real_end = bm_real_end m, bm_description = Some (''inode bitmap for '' @ fs_device_name fs),
    bm_bytes = replicate (map_bytes 1 (bm_real_end m)) 0, bm_error = EXT2_ET_BAD_INODE_MARK\<rparr>"
  have "ext2fs_allocate_block_bitmap mem fs0 (Some (''block bitmap for '' @ fs_device_name fs)) = Some (Inr ?b)"
    using assms(2) f(1) r(1) by (simp add: assms(3) ext2fs_allocate_block_bitmap_def ext2fs_allocate_generic_bitmap_def make_bitmap_def
        ext2fs_get_mem_def Let_def)
  moreover have "ext2fs_allocate_inode_bitmap mem (fs0\<lparr>block_map := Some ?b\<rparr>) (Some (''inode bitmap for '' @ fs_device_name fs)) = Some (Inr ?m)"
    using assms(2) f(1) r(2) by (simp add: assms(3) ext2fs_allocate_inode_bitmap_def ext2fs_allocate_generic_bitmap_def make_bitmap_def
        ext2fs_get_mem_def Let_def)
  moreover have "fs_device_name fs0 = fs_device_name fs" by (simp add: assms(3))
  moreover have "bm_over (s_first_data_block fs) (s_blocks_count fs - 1) ?b" "length (bm_bytes ?b) = length (bm_bytes b)"
    using f(11) by (auto simp: bm_over_def bm_ok_def)
  moreover have "bm_over 1 (s_inodes_count fs) ?m" "length (bm_bytes ?m) = length (bm_bytes m)"
    using f(14) by (auto simp: bm_over_def bm_ok_def)
  ultimately show ?thesis
    by (intro exI[of _ ?b] exI[of _ ?m]) (simp add: fresh_maps_def)
qed

lemma group_bytes:
  fixes w :: u32
  assumes "unat w = 8 * n" "n \<le> 65536"
  shows "sint w sdiv 8 = int n"
proof -
  have "sint w = int (8 * n)" using assms sint_unat_small[of w] by simp
  then show ?thesis by (simp add: signed_divide_int_def sgn_if)
qed

lemma read_back:
  assumes "rows n [0..<N] (\<lambda>i. part (blk_at pl (blk_of (group_desc fs ! i))) n v) xs ys" "length xs = N * n"
    and "stored blk_of p fs pl n bitmap v" "N = length (group_desc fs)" "t < 8 * n * N" "\<not> p (t div (8 * n)) (t mod (8 * n))"
  shows "bitget ys t = bitget bitmap t"
proof -
  have n: "0 < 8 * n" using assms(5) by (cases n) auto
  have i: "t div (8 * n) < N" using assms(5) n by (simp add: div_less_iff_less_mult mult.commute)
  have "8 * (t div (8 * n) * n) + t mod (8 * n) = t" using div_mult_mod_eq[of t "8 * n"] by (simp add: algebra_simps)
  moreover have "t mod (8 * n) < 8 * n" using n by simp
  ultimately show ?thesis using rows_bits[OF assms(1,2,5)] assms(3,4,6) i by (simp add: stored_def)
qed

lemma last_offset: "s < e \<Longrightarrow> unat (e - 1 - s) + 1 = unat e - unat s" for s e :: u32
proof -
  assume *: "s < e"
  then have d: "unat (e - s) = Suc (unat e - unat s - 1)"
    using unat_offset[of s e] by (simp add: word_less_nat_alt word_le_nat_alt)
  then show ?thesis using * unat_minus_1[OF d] by (simp add: diff_right_commute word_less_nat_alt)
qed

lemma bytes_replaced: "bm_ok b \<Longrightarrow> length xs = length (bm_bytes b) \<Longrightarrow> bm_ok (b\<lparr>bm_bytes := xs\<rparr>)"
  by (simp add: bm_ok_def)

lemma read_both_ok:
  assumes "fits fs b m nb ni" "laid_out fs pl" "stands_for (2 * length (group_desc fs) + k) ch pl" "\<forall>n. mem n"
    and "f AND EXT2_FLAG_IMAGE_FILE = 0"
    and "stored bg_block_bitmap (padded fs) fs pl nb (bm_bytes b) (p_bytes pl)"
    and "stored bg_inode_bitmap (\<lambda>_ _. False) fs pl ni (bm_bytes m) (p_bytes pl)"
  shows "\<exists>b' m' ch'. ext2fs_read_bitmaps mem (fs\<lparr>fs_io := ch, fs_flags := f, block_map := None, inode_map := None\<rparr>)
      = Some (OK, fs\<lparr>fs_io := ch', fs_flags := f, block_map := Some b', inode_map := Some m'\<rparr>)
    \<and> stands_for k ch' pl \<and> bm_set b' = bm_set b \<and> bm_set m' = bm_set m"
proof -
  note g = fitsD[OF assms(1)] and len = map_lengths[OF assms(1)]
  let ?n = "length (group_desc fs)" and ?fs0 = "fs\<lparr>fs_io := ch, fs_flags := f, block_map := None, inode_map := None\<rparr>"
  let ?B = "\<lambda>i. part (blk_at pl (bg_block_bitmap (group_desc fs ! i))) nb (p_bytes pl)"
  let ?I = "\<lambda>i. part (blk_at pl (bg_inode_bitmap (group_desc fs ! i))) ni (p_bytes pl)"
  obtain b0 m0 where fresh: "fresh_maps mem ?fs0 True True = Some (OK, ?fs0\<lparr>block_map := Some b0, inode_map := Some m0\<rparr>)"
    "bm_over (s_first_data_block fs) (s_blocks_count fs - 1) b0" "length (bm_bytes b0) = length (bm_bytes b)"
    "bm_over 1 (s_inodes_count fs) m0" "length (bm_bytes m0) = length (bm_bytes m)"
    using fresh_ok[where ch = ch and f = f, OF assms(1,4) refl] by blast
  let ?fs1 = "?fs0\<lparr>block_map := Some b0, inode_map := Some m0\<rparr>"
  have inside: "\<forall>i \<in> set [0..<?n]. i < length (group_desc ?fs1) \<and> i * nb + nb \<le> length (bm_bytes b0)
      \<and> i * ni + ni \<le> length (bm_bytes m0)"
    using row_inside len fresh(3,5) by simp
  have lay: "placed bg_block_bitmap ?fs1 pl" "placed bg_inode_bitmap ?fs1 pl"
    using assms(2) by (simp_all add: laid_out_def placed_def)
  have sf: "stands_for (2 * length [0..<?n] + k) (fs_io ?fs1) pl" using assms(3) by simp
  obtain ch' xs ys where r: "read_group_maps True True (int ni) (int nb) [0..<?n] ?fs1
      = Some (OK, ?fs1\<lparr>block_map := Some (b0\<lparr>bm_bytes := xs\<rparr>), inode_map := Some (m0\<lparr>bm_bytes := ys\<rparr>), fs_io := ch'\<rparr>)"
    "stands_for k ch' pl" "rows nb [0..<?n] ?B (bm_bytes b0) xs" "rows ni [0..<?n] ?I (bm_bytes m0) ys"
    using read_group_maps_ok[OF _ inside _ _ _ _ lay sf] g(4,6) by auto
  have "ext2fs_read_bitmaps mem ?fs0
      = Some (OK, fs\<lparr>fs_io := ch', fs_flags := f, block_map := Some (b0\<lparr>bm_bytes := xs\<rparr>), inode_map := Some (m0\<lparr>bm_bytes := ys\<rparr>)\<rparr>)"
    using fresh(1) r(1) g(1,2) assms(4,5) group_bytes[OF g(8)] group_bytes[OF g(9)] g(4,6,7)
    by (simp add: ext2fs_read_bitmaps_def read_bitmaps_def Let_def ext2fs_get_mem_def)
  moreover have "bm_set (b0\<lparr>bm_bytes := xs\<rparr>) = bm_set b"
  proof (rule bit_numbers)
    show "bm_ok b" "bm_start (b0\<lparr>bm_bytes := xs\<rparr>) = bm_start b" "bm_end (b0\<lparr>bm_bytes := xs\<rparr>) = bm_end b"
      using g(11) fresh(2) by (simp_all add: bm_over_def)
    show "bm_ok (b0\<lparr>bm_bytes := xs\<rparr>)" using fresh(2) r(3) bytes_replaced[of b0 xs] by (simp add: bm_over_def rows_def)
    fix t assume "t \<le> unat (bm_end b - bm_start b)"
    moreover have "bm_end b = s_blocks_count fs - 1" "bm_start b = s_first_data_block fs" using g(11) by (simp_all add: bm_over_def)
    moreover have "unat (s_blocks_count fs - 1 - s_first_data_block fs) + 1 = unat (s_blocks_count fs) - unat (s_first_data_block fs)"
      by (rule last_offset[OF g(17)])
    ultimately have t: "t < unat (s_blocks_count fs) - unat (s_first_data_block fs)" by simp
    then have "t < 8 * nb * ?n" using blocks_bound[OF assms(1)] by simp
    then show "bitget (bm_bytes (b0\<lparr>bm_bytes := xs\<rparr>)) t = bitget (bm_bytes b) t"
      using read_back[OF r(3) _ assms(6) refl _ not_padded[OF assms(1) t]] len(1) fresh(3) by simp
  qed
  moreover have "bm_set (m0\<lparr>bm_bytes := ys\<rparr>) = bm_set m"
  proof (rule bit_numbers)
    show "bm_ok m" "bm_start (m0\<lparr>bm_bytes := ys\<rparr>) = bm_start m" "bm_end (m0\<lparr>bm_bytes := ys\<rparr>) = bm_end m"
      using g(14) fresh(4) by (simp_all add: bm_over_def)
    show "bm_ok (m0\<lparr>bm_bytes := ys\<rparr>)" using fresh(4) r(4) bytes_replaced[of m0 ys] by (simp add: bm_over_def rows_def)
    fix t assume "t \<le> unat (bm_end m - bm_start m)"
    moreover have "bm_start m \<le> bm_end m" "bm_end m \<le> bm_real_end m" "bm_start m = 1"
      using g(14) unfolding bm_over_def bm_ok_def by blast+
    ultimately have "t + 1 \<le> unat (bm_real_end m)" using unat_offset[of "bm_start m" "bm_end m"]
      by (simp add: word_le_nat_alt)
    then have "t < 8 * ni * ?n" using g(15) by simp
    then show "bitget (bm_bytes (m0\<lparr>bm_bytes := ys\<rparr>)) t = bitget (bm_bytes m) t"
      using read_back[OF r(4) _ assms(7) refl] len(2) fresh(5) by simp
  qed
  ultimately show ?thesis using r(2) by blast
qed

subsection \<open>The round trip\<close>

text \<open>C30. The bitmaps survive the device: when a filesystem open for writing has a dirty block and inode bitmap,
  and each group has a block of its own for each of them, \<open>ext2fs_write_bitmaps\<close> succeeds and leaves no dirty flag; and
  a record whose bitmaps are then dropped gets back exactly the same sets of used blocks and used inodes from
  \<open>ext2fs_read_bitmaps\<close>, although the writes may still be in the cache of the channel, the parts of the bitmaps share
  one buffer, and the last block bitmap is padded.\<close>
theorem bitmaps_round_trip:
  assumes "fits fs b m nb ni" "laid_out fs pl" "stands_for (4 * length (group_desc fs) + k) (fs_io fs) pl" "\<forall>n. mem n"
    and "fs_flags fs AND EXT2_FLAG_RW \<noteq> 0" "fs_flags fs AND EXT2_FLAG_IMAGE_FILE = 0"
    and "ext2fs_test_bb_dirty fs \<noteq> 0" "ext2fs_test_ib_dirty fs \<noteq> 0"
  shows "\<exists>fs1 fs2 b' m'. ext2fs_write_bitmaps mem fs = Some (OK, fs1)
    \<and> ext2fs_test_bb_dirty fs1 = 0 \<and> ext2fs_test_ib_dirty fs1 = 0
    \<and> ext2fs_read_bitmaps mem (fs1\<lparr>block_map := None, inode_map := None\<rparr>) = Some (OK, fs2)
    \<and> block_map fs2 = Some b' \<and> bm_set b' = bm_set b \<and> inode_map fs2 = Some m' \<and> bm_set m' = bm_set m"
proof -
  let ?n = "length (group_desc fs)" and ?f = "(fs_flags fs AND NOT EXT2_FLAG_BB_DIRTY) AND NOT EXT2_FLAG_IB_DIRTY"
  have sf: "stands_for (2 * ?n + (2 * ?n + k)) (fs_io fs) pl" using assms(3) by (simp add: algebra_simps)
  obtain ch v where w: "ext2fs_write_bitmaps mem fs = Some (OK, fs\<lparr>fs_io := ch, fs_flags := ?f\<rparr>)"
    "stands_for (2 * ?n + k) ch (pl\<lparr>p_bytes := v\<rparr>)" "length v = length (p_bytes pl)"
    "stored bg_block_bitmap (padded fs) fs pl nb (bm_bytes b) v" "stored bg_inode_bitmap (\<lambda>_ _. False) fs pl ni (bm_bytes m) v"
    using write_both_ok[OF assms(1,2) sf assms(4,5,7,8)] by blast
  let ?pl = "pl\<lparr>p_bytes := v\<rparr>"
  have at: "blk_at ?pl = blk_at pl" by (simp add: blk_at_def plain_at_def fun_eq_iff)
  have lay: "laid_out fs ?pl" using assms(2) w(3) at by (simp add: laid_out_def placed_def)
  have img: "?f AND EXT2_FLAG_IMAGE_FILE = 0" using assms(6) by (simp only: dirty_kept)
  have st: "stored bg_block_bitmap (padded fs) fs ?pl nb (bm_bytes b) (p_bytes ?pl)"
    "stored bg_inode_bitmap (\<lambda>_ _. False) fs ?pl ni (bm_bytes m) (p_bytes ?pl)"
    using w(4,5) at by (simp_all add: stored_def)
  obtain b' m' ch' where "ext2fs_read_bitmaps mem (fs\<lparr>fs_io := ch, fs_flags := ?f, block_map := None, inode_map := None\<rparr>)
      = Some (OK, fs\<lparr>fs_io := ch', fs_flags := ?f, block_map := Some b', inode_map := Some m'\<rparr>)"
    "bm_set b' = bm_set b" "bm_set m' = bm_set m"
    using read_both_ok[OF assms(1) lay w(2) assms(4) img st] by blast
  then show ?thesis using w(1)
    by (intro exI[of _ "fs\<lparr>fs_io := ch, fs_flags := ?f\<rparr>"] exI[of _ "fs\<lparr>fs_io := ch', fs_flags := ?f, block_map := Some b', inode_map := Some m'\<rparr>"])
       (simp add: ext2fs_test_bb_dirty_def ext2fs_test_ib_dirty_def dirty_kept)
qed

definition small_maps :: ext2_fs where
  "small_maps = small_fs\<lparr>fs_flags := EXT2_FLAG_RW OR (EXT2_FLAG_BB_DIRTY OR EXT2_FLAG_IB_DIRTY),
     group_desc := [\<lparr>bg_block_bitmap = 2, bg_inode_bitmap = 3, bg_inode_table = 0,
       bg_free_blocks_count = 2, bg_free_inodes_count = 8, bg_used_dirs_count = 0, bg_unused = []\<rparr>],
     inode_map := Some \<lparr>bm_magic = EXT2_ET_MAGIC_INODE_BITMAP, bm_start = 1, bm_end = 8, bm_real_end = 8,
       bm_description = None, bm_bytes = [5], bm_error = EXT2_ET_BAD_INODE_MARK\<rparr>\<rparr>"


theorem bitmaps_round_trip_witness:
  "\<exists>fs1 fs2 b' m'. ext2fs_write_bitmaps (\<lambda>_. True) small_maps = Some (OK, fs1)
    \<and> ext2fs_test_bb_dirty fs1 = 0 \<and> ext2fs_test_ib_dirty fs1 = 0
    \<and> ext2fs_read_bitmaps (\<lambda>_. True) (fs1\<lparr>block_map := None, inode_map := None\<rparr>) = Some (OK, fs2)
    \<and> block_map fs2 = Some b' \<and> bm_set b' = bm_set (the (block_map small_maps))
    \<and> inode_map fs2 = Some m' \<and> bm_set m' = bm_set (the (inode_map small_maps))"
proof -
  have "fits small_maps (the (block_map small_maps)) (the (inode_map small_maps)) 1 1"
    unfolding fits_def by (simp add: small_maps_def small_fs_def bm_over_def bm_ok_def map_bytes_def)
  moreover have "laid_out small_maps small_plain"
    by (simp add: inj_on_def small_plain_def laid_out_def placed_def apart_def small_maps_def small_fs_def blk_at_def plain_at_def extent_def)
  moreover have "stands_for (4 * length (group_desc small_maps) + 0) (fs_io small_maps) small_plain"
    using small_stands[of 4] by (simp add: small_maps_def)
  moreover have "fs_flags small_maps AND EXT2_FLAG_RW \<noteq> 0" "fs_flags small_maps AND EXT2_FLAG_IMAGE_FILE = 0"
    "ext2fs_test_bb_dirty small_maps \<noteq> 0" "ext2fs_test_ib_dirty small_maps \<noteq> 0"
    by (simp_all add: small_maps_def ext2fs_test_bb_dirty_def ext2fs_test_ib_dirty_def EXT2_FLAG_RW_def EXT2_FLAG_IMAGE_FILE_def
        EXT2_FLAG_BB_DIRTY_def EXT2_FLAG_IB_DIRTY_def)
  ultimately show ?thesis using bitmaps_round_trip[where mem = "\<lambda>_. True"] by blast
qed

end
