(* ===== verification/Ext2_Reopen.thy ===== *)
theory Ext2_Reopen
  imports Ext2_Open Ext2_New Ext2_Bitmap_Io
begin

unbundle bit_operations_syntax

text \<open>
  What flushing writes, seen on the plain device behind the cached channel: the copies of the superblock and of the
  descriptors in the groups leave the front of the device alone but for the descriptors of the first group, and the
  primary superblock is the new one whether it is written as a whole or only the runs of 16-bit words that differ.
\<close>

subsection \<open>Writing into a device\<close>

lemma part_write_apart:
  assumes "l + n \<le> p \<or> p + length xs \<le> l" "p + length xs \<le> length v" "l + n \<le> length v"
  shows "part l n (write_at v p xs) = part l n v"
  by (rule part_eqI) (use assms in \<open>auto simp: nth_write_at\<close>)

lemma stands_for_le: "stands_for n ch pl \<Longrightarrow> m \<le> n \<Longrightarrow> stands_for m ch pl"
  by (auto simp: stands_for_def clock_def)

definition sound :: "ext2_fs \<Rightarrow> plain \<Rightarrow> bool" where
  \<comment> \<open>The filesystem lies on the device, and has descriptors for all its groups.\<close>
  "sound fs pl \<longleftrightarrow> grouped fs \<and> roomy fs \<and> \<not> has_meta_bg fs \<and> super_ok fs \<and> descs_ok fs
     \<and> p_bs pl = uint (fs_blocksize fs) \<and> p_off pl = 0 \<and> 1024 \<le> unat (fs_blocksize fs) \<and> unat (fs_blocksize fs) < 2 ^ 31
     \<and> unat (s_blocks_count fs) * unat (fs_blocksize fs) \<le> length (p_bytes pl)
     \<and> 2048 \<le> (unat (s_first_data_block fs) + 1) * unat (fs_blocksize fs)
     \<and> 0 < unat (desc_blocks fs) \<and> unat (desc_blocks fs) * unat (fs_blocksize fs) < 2 ^ 31 \<and> unat (desc_blocks fs) \<le> groups fs"

lemma soundD:
  assumes "sound fs pl"
  shows "grouped fs" "roomy fs" "\<not> has_meta_bg fs" "super_ok fs" "descs_ok fs" "p_bs pl = uint (fs_blocksize fs)" "p_off pl = 0"
    "1024 \<le> unat (fs_blocksize fs)" "unat (fs_blocksize fs) < 2 ^ 31"
    "unat (s_blocks_count fs) * unat (fs_blocksize fs) \<le> length (p_bytes pl)"
    "2048 \<le> (unat (s_first_data_block fs) + 1) * unat (fs_blocksize fs)"
    "0 < unat (desc_blocks fs)" "unat (desc_blocks fs) * unat (fs_blocksize fs) < 2 ^ 31" "unat (desc_blocks fs) \<le> groups fs"
  using assms unfolding sound_def by blast+

lemma groups_small:
  assumes "grouped fs" "roomy fs"
  shows "groups fs < 2 ^ 30"
proof -
  note g = groupedD[OF assms(1)]
  have "3 < unat (s_blocks_per_group fs)"
    using room_small[OF assms(2) _ g(1)] g(4) by (simp add: word_less_nat_alt)
  then have "(groups fs - 1) * 4 \<le> (groups fs - 1) * unat (s_blocks_per_group fs)" by (intro mult_le_mono2) simp
  also have "\<dots> < unat (s_blocks_count fs)" using g(5) by (simp add: gstart_def)
  finally show ?thesis using g(7) by simp
qed

lemma blocks_on_device:
  assumes "sound fs pl" "p + n \<le> unat (s_blocks_count fs)"
  shows "p * unat (fs_blocksize fs) + n * unat (fs_blocksize fs) \<le> length (p_bytes pl)"
proof -
  have "(p + n) * unat (fs_blocksize fs) \<le> unat (s_blocks_count fs) * unat (fs_blocksize fs)" using assms(2) by (rule mult_le_mono1)
  then show ?thesis using soundD(10)[OF assms(1)] by (simp add: add_mult_distrib)
qed

lemma unat_small: "k < 2 ^ 32 \<Longrightarrow> unat (of_nat k :: u32) = k"
  by (simp add: unat_of_nat)

lemma unat_ucast_up: "unat (ucast c :: u64) = unat c" "unat (ucast d :: u64) = unat d" for c :: u32 and d :: u16
  using unsigned_less[of c, where 'a = nat] unsigned_less[of d, where 'a = nat]
  by (simp_all add: unsigned_ucast_eq take_bit_nat_eq_self)

lemma blk_at_nat:
  assumes "sound fs pl" "p < 2 ^ 32"
  shows "blk_at pl (of_nat p) = p * unat (fs_blocksize fs)"
proof -
  have "unat (of_nat p :: u32) = p" using assms(2) by (simp add: unat_of_nat)
  then have "unat (ucast (of_nat p :: u32) :: u64) = p" by (simp only: unat_ucast_up)
  then show ?thesis using soundD(6,7)[OF assms(1)] by (simp only: blk_at_eq extent_def) simp
qed

lemma write_blocks_ok:
  assumes "sound fs pl" "stands_for (Suc n) (fs_io fs) pl" "p < 2 ^ 32"
    and "sz = nat (plain_size pl count)" "plain_size pl count < 2147483648" "length buf = sz"
    and "p * unat (fs_blocksize fs) + sz \<le> length (p_bytes pl)"
  shows "\<exists>ch. unix_write_blk (fs_io fs) (ucast (of_nat p :: u32)) count buf = Some (OK, ch)
    \<and> stands_for n ch (pl\<lparr>p_bytes := write_at (p_bytes pl) (p * unat (fs_blocksize fs)) buf\<rparr>)"
proof -
  have at: "plain_at pl (ucast (of_nat p :: u32)) = p * unat (fs_blocksize fs)"
    using blk_at_nat[OF assms(1,3)] by (simp add: blk_at_def)
  have "may (\<lambda>_. True) (Write (ucast (of_nat p :: u32)) count buf) pl" using at assms(4-7) by simp
  from write_ok[OF assms(2) this] show ?thesis using at assms(4,6) by simp
qed

subsection \<open>The copies of the superblock and the descriptors\<close>

lemma loc_plain:
  assumes "sound fs pl" "i < groups fs"
  shows "\<exists>h n mb. ext2fs_super_and_bgd_loc fs (of_nat i) = Some \<lparr>loc_numblocks = n,
        loc_super_blk = (if h then of_nat (gstart fs i) else 0), loc_old_desc_blk = (if h then of_nat (gstart fs i + 1) else 0),
        loc_new_desc_blk = 0, loc_meta_bg = mb\<rparr> \<and> (i = 0 \<longrightarrow> h) \<and> (h \<longrightarrow> gstart fs i + 1 + unat (desc_blocks fs) < gend fs i)"
proof -
  note s = soundD[OF assms(1)] and gr = groupedD[OF soundD(1)[OF assms(1)]]
  have r: "0 < inode_blocks_per_group fs" "0 \<le> old_desc_blocks fs" "0 < room fs i" using s(2) assms(2) by (auto simp: roomy_def)
  obtain l where l: "ext2fs_super_and_bgd_loc fs (of_nat i) = Some l" "0 < loc_numblocks l"
    using r(3) by (auto simp: room_def split: option.splits)
  have sg: "sint (of_nat i :: u32) = int i"
    using unat_group[OF s(1) assms(2)] gr(2) assms(2) by (subst sint_unat_small) simp_all
  obtain h where h: "ext2fs_bg_has_super fs (int i) = Some h" "i = 0 \<Longrightarrow> h"
    using bg_has_super_result[of "int i" fs] by simp
  have D: "unat (desc_blocks fs) < 2 ^ 30" using s(14) groups_small[OF s(1,2)] by simp
  let ?r = "s_reserved_gdt_blocks (fs_super fs)"
  have rs: "unat ?r < 65536" using unsigned_less[of ?r, where 'a = nat] by simp
  have "unat (ucast ?r :: u64) = unat ?r" by (rule unat_ucast_up)
  then have "unat (desc_blocks fs + ucast ?r) = unat (desc_blocks fs) + unat ?r" using D rs by (simp add: unat_word_ariths)
  then have "unat (ucast (desc_blocks fs + ucast ?r) :: u32) = unat (desc_blocks fs) + unat ?r"
    using D rs by (simp add: unsigned_ucast_eq take_bit_nat_eq_self)
  then have odb: "old_desc_blocks fs = int (unat (desc_blocks fs) + unat (s_reserved_gdt_blocks (fs_super fs)))"
    using s(3) D rs by (simp add: old_desc_blocks_def sint_unat_small)
  have size: "group_blocks fs (of_nat i) = int (gend fs i - gstart fs i)" by (rule group_blocks_eq[OF s(1) assms(2)])
  have start: "group_start fs (of_nat i) = of_nat (gstart fs i)" by (simp add: group_start_def gstart_def)
  have "l = \<lparr>loc_numblocks = loc_numblocks l, loc_super_blk = (if h then of_nat (gstart fs i) else 0),
      loc_old_desc_blk = (if h then of_nat (gstart fs i + 1) else 0), loc_new_desc_blk = 0, loc_meta_bg = loc_meta_bg l\<rparr>"
    "loc_numblocks l = int (gend fs i - gstart fs i) - (if h then 1 + old_desc_blocks fs else 0) - (2 + inode_blocks_per_group fs)"
    using l(1) s(3) h(1) sg size start
    by (auto simp: ext2fs_super_and_bgd_loc_def Let_def split: if_splits)
  moreover have "gstart fs i + 1 + unat (desc_blocks fs) < gend fs i" if h
  proof -
    have "loc_numblocks l = int (gend fs i - gstart fs i) - (1 + old_desc_blocks fs) - (2 + inode_blocks_per_group fs)"
      using calculation(2) that by (simp only: if_True)
    then show ?thesis using l(2) r(1) odb by linarith
  qed
  ultimately show ?thesis using l(1) h(2)
    by (intro exI[of _ h] exI[of _ "loc_numblocks l"] exI[of _ "loc_meta_bg l"]) auto
qed

definition with_io :: "ext2_fs \<Rightarrow> io_channel \<Rightarrow> u16 \<Rightarrow> ext2_fs" where
  "with_io fs ch n = set_group_nr n (fs\<lparr>fs_io := ch\<rparr>)"

lemma with_io_fields [simp]:
  "fs_io (with_io fs ch n) = ch" "with_io (with_io fs ch n) ch' n' = with_io fs ch' n'" "fs_flags (with_io fs ch n) = fs_flags fs"
  "fs_blocksize (with_io fs ch n) = fs_blocksize fs" "desc_blocks (with_io fs ch n) = desc_blocks fs"
  "s_first_data_block (with_io fs ch n) = s_first_data_block fs" "gstart (with_io fs ch n) = gstart fs"
  "s_blocks_count (with_io fs ch n) = s_blocks_count fs" "s_block_group_nr (fs_super (with_io fs ch n)) = n"
  "groups (with_io fs ch n) = groups fs" "group_bytes_of (with_io fs ch n) = group_bytes_of fs"
  by (simp_all add: with_io_def set_group_nr_def fun_eq_iff gstart_def group_bytes_of_def)

lemma with_io_loc: "ext2fs_super_and_bgd_loc (with_io fs ch n) = ext2fs_super_and_bgd_loc fs"
  by (simp add: fun_eq_iff with_io_def set_group_nr_def ext2fs_super_and_bgd_loc_def group_blocks_def group_start_def ext2fs_bg_has_super_def
      has_meta_bg_def old_desc_blocks_def Let_def cong: if_cong)

lemma with_io_sound:
  assumes "sound fs pl" "length v = length (p_bytes pl)"
  shows "sound (with_io fs ch n) (pl\<lparr>p_bytes := v\<rparr>)"
proof -
  have f: "has_meta_bg (with_io fs ch n) = has_meta_bg fs" "super_ok (with_io fs ch n) = super_ok fs" "descs_ok (with_io fs ch n) = descs_ok fs"
    "grouped (with_io fs ch n) = grouped fs" "old_desc_blocks (with_io fs ch n) = old_desc_blocks fs"
    "inode_blocks_per_group (with_io fs ch n) = inode_blocks_per_group fs" "room (with_io fs ch n) = room fs"
    using with_io_loc[of fs ch n]
    by (simp_all add: fun_eq_iff room_def)
      (simp_all add: with_io_def set_group_nr_def has_meta_bg_def super_ok_def descs_ok_def grouped_def gstart_def old_desc_blocks_def)
  then show ?thesis using assms by (simp add: sound_def f roomy_def)
qed

definition backup_area :: "ext2_fs \<Rightarrow> nat \<Rightarrow> nat \<Rightarrow> nat \<Rightarrow> bool" where
  \<comment> \<open>The \<open>m\<close> bytes at \<open>l\<close> are apart from the copies of the superblock and the descriptors in the group.\<close>
  "backup_area fs i l m \<longleftrightarrow> l + m \<le> (if i = 0 then gstart fs 0 + 1 else gstart fs i) * unat (fs_blocksize fs)
     \<or> (gstart fs i + 1 + unat (desc_blocks fs)) * unat (fs_blocksize fs) \<le> l"

lemma with_io_self: "with_io fs (fs_io fs) (s_block_group_nr (fs_super fs)) = fs"
  by (simp add: with_io_def set_group_nr_def)

lemma backup_super_ok:
  assumes "sound fs pl" "stands_for (Suc k) (fs_io fs) pl" "p < 2 ^ 32" "p + 1 \<le> unat (s_blocks_count fs)"
  shows "\<exists>ch v n. write_backup_super fs i (of_nat p) = Some (OK, with_io fs ch n) \<and> stands_for k ch (pl\<lparr>p_bytes := v\<rparr>)
    \<and> length v = length (p_bytes pl) \<and> (\<forall>l m. l + m \<le> length v \<and> (l + m \<le> p * unat (fs_blocksize fs) \<or> (p + 1) * unat (fs_blocksize fs) \<le> l)
         \<longrightarrow> part l m v = part l m (p_bytes pl))"
proof -
  note s = soundD[OF assms(1)]
  let ?n = "ucast (if 65535 < i then 65535 else i) :: u16"
  let ?xs = "super_bytes (set_group_nr ?n fs)"
  have len: "length ?xs = 1024" using s(4) by (intro length_super_bytes) (simp add: super_ok_def set_group_nr_def)
  have size: "plain_size pl (- 1024) = 1024" by (simp add: plain_size_def)
  have room: "p * unat (fs_blocksize fs) + 1024 \<le> length (p_bytes pl)" using blocks_on_device[OF assms(1,4)] s(8) by simp
  obtain ch where ch: "unix_write_blk (fs_io fs) (ucast (of_nat p :: u32)) (- 1024) ?xs = Some (OK, ch)"
    "stands_for k ch (pl\<lparr>p_bytes := write_at (p_bytes pl) (p * unat (fs_blocksize fs)) ?xs\<rparr>)"
    using write_blocks_ok[OF assms(1-3), of 1024 "- 1024" ?xs] size len room by auto
  have "write_backup_super fs i (of_nat p) = Some (OK, with_io fs ch ?n)"
    using ch(1) by (simp add: write_backup_super_def with_io_def set_group_nr_def Let_def)
  moreover have "part l m (write_at (p_bytes pl) (p * unat (fs_blocksize fs)) ?xs) = part l m (p_bytes pl)"
    if "l + m \<le> length (p_bytes pl)" "l + m \<le> p * unat (fs_blocksize fs) \<or> (p + 1) * unat (fs_blocksize fs) \<le> l" for l m
    using that len s(8) room by (intro part_write_apart) auto
  ultimately show ?thesis using ch(2) len room
    by (intro exI[of _ ch] exI[of _ "write_at (p_bytes pl) (p * unat (fs_blocksize fs)) ?xs"] exI[of _ ?n]) simp
qed

lemma flush_descs_ok:
  assumes "sound fs pl" "stands_for (Suc k) (fs_io fs) pl" "p < 2 ^ 32" "p + unat (desc_blocks fs) \<le> unat (s_blocks_count fs)"
  shows "\<exists>ch. write_at_blk fs (of_nat p) (flush_desc_blocks fs) (group_bytes_of fs)
      = Some (OK, with_io fs ch (s_block_group_nr (fs_super fs)))
    \<and> stands_for k ch (pl\<lparr>p_bytes := write_at (p_bytes pl) (p * unat (fs_blocksize fs)) (group_bytes_of fs)\<rparr>)"
proof -
  note s = soundD[OF assms(1)]
  let ?bs = "unat (fs_blocksize fs)" and ?D = "unat (desc_blocks fs)"
  have D: "?D < 2 ^ 30" using s(14) groups_small[OF s(1,2)] by simp
  then have "unat (ucast (desc_blocks fs) :: u32) = ?D" by (simp add: unsigned_ucast_eq take_bit_nat_eq_self)
  then have count: "flush_desc_blocks fs = int ?D" using s(3) D by (simp add: flush_desc_blocks_def sint_unat_small)
  have size0: "plain_size pl (flush_desc_blocks fs) = int (?D * ?bs)" unfolding count plain_size_def s(6) by simp
  have "?D * ?bs < 2147483648" using s(13) by simp
  then have "int (?D * ?bs) < int 2147483648" by (rule of_nat_less_iff[THEN iffD2])
  then have size: "nat (plain_size pl (flush_desc_blocks fs)) = ?D * ?bs" "plain_size pl (flush_desc_blocks fs) < 2147483648"
    unfolding size0 by (simp_all only: nat_int of_nat_numeral)
  obtain ch where "unix_write_blk (fs_io fs) (ucast (of_nat p :: u32)) (flush_desc_blocks fs) (group_bytes_of fs) = Some (OK, ch)"
    "stands_for k ch (pl\<lparr>p_bytes := write_at (p_bytes pl) (p * ?bs) (group_bytes_of fs)\<rparr>)"
    using write_blocks_ok[OF assms(1-3) size(1)[symmetric] size(2) length_group_bytes[OF s(5)]] blocks_on_device[OF assms(1,4)] by blast
  then show ?thesis by (intro exI[of _ ch]) (simp add: write_at_blk_def with_io_def set_group_nr_def)
qed

lemma flush_group_parts:
  assumes "ext2fs_super_and_bgd_loc fs (of_nat i) = Some \<lparr>loc_numblocks = nb, loc_super_blk = x, loc_old_desc_blk = y, loc_new_desc_blk = 0,
      loc_meta_bg = mb\<rparr>"
    and "(if \<not> fs_flags fs AND EXT2_FLAG_MASTER_SB_ONLY \<noteq> 0 \<and> i \<noteq> 0 \<and> x \<noteq> 0 then write_backup_super fs (of_nat i) x else Some (OK, fs)) = Some (OK, fs1)"
    and "fs_flags fs1 AND EXT2_FLAG_SUPER_ONLY = 0"
    and "(if y \<noteq> 0 \<and> (\<not> fs_flags fs AND EXT2_FLAG_MASTER_SB_ONLY \<noteq> 0 \<or> i = 0)
      then write_at_blk fs1 y (flush_desc_blocks fs1) (group_bytes_of fs1) else Some (OK, fs1)) = Some (OK, fs2)"
  shows "flush_group i fs = Some (OK, fs2)"
  unfolding flush_group_def assms(1) Let_def using assms(2-4) by (simp split del: if_split cong: if_cong)

lemma flush_group_ok:
  assumes "sound fs pl" "i < groups fs" "stands_for (2 + k) (fs_io fs) pl" "fs_flags fs AND EXT2_FLAG_SUPER_ONLY = 0"
  shows "\<exists>ch v n. flush_group i fs = Some (OK, with_io fs ch n) \<and> stands_for k ch (pl\<lparr>p_bytes := v\<rparr>) \<and> length v = length (p_bytes pl)
    \<and> (\<forall>l m. l + m \<le> length v \<and> backup_area fs i l m \<longrightarrow> part l m v = part l m (p_bytes pl))
    \<and> (i = 0 \<longrightarrow> part ((unat (s_first_data_block fs) + 1) * unat (fs_blocksize fs)) (unat (desc_blocks fs) * unat (fs_blocksize fs)) v
         = group_bytes_of fs)"
proof -
  note s = soundD[OF assms(1)]
  let ?bs = "unat (fs_blocksize fs)" and ?D = "unat (desc_blocks fs)" and ?g = "gstart fs i"
  obtain h nb mb where loc: "ext2fs_super_and_bgd_loc fs (of_nat i) = Some \<lparr>loc_numblocks = nb,
        loc_super_blk = (if h then of_nat ?g else 0), loc_old_desc_blk = (if h then of_nat (?g + 1) else 0),
        loc_new_desc_blk = 0, loc_meta_bg = mb\<rparr>" "i = 0 \<Longrightarrow> h" "h \<Longrightarrow> ?g + 1 + ?D < gend fs i"
    using loc_plain[OF assms(1,2)] by blast
  have g: "?g + 1 < 2 ^ 32" using gend_bounds(1,3)[OF s(1) assms(2)] groupedD(7)[OF s(1)] by linarith
  have blocks: "?g + 1 + ?D \<le> unat (s_blocks_count fs)" if h using loc(3)[OF that] gend_bounds(3)[OF s(1) assms(2)] by simp
  let ?m = "fs_flags fs AND EXT2_FLAG_MASTER_SB_ONLY \<noteq> 0"
  let ?C = "\<not> ?m \<and> i \<noteq> 0 \<and> (if h then of_nat ?g else 0 :: u32) \<noteq> 0"
  have sf: "stands_for (Suc (Suc k)) (fs_io fs) pl" using assms(3) by simp
  have "\<exists>ch v n. (if ?C then write_backup_super fs (of_nat i) (if h then of_nat ?g else 0) else Some (OK, fs)) = Some (OK, with_io fs ch n)
    \<and> stands_for (Suc k) ch (pl\<lparr>p_bytes := v\<rparr>) \<and> length v = length (p_bytes pl)
    \<and> (\<forall>l m. l + m \<le> length v \<and> backup_area fs i l m \<longrightarrow> part l m v = part l m (p_bytes pl))"
  proof (cases ?C)
    case True
    then have h: h and i0: "i \<noteq> 0" by (auto split: if_splits)
    have b: "?g < 2 ^ 32" "?g + 1 \<le> unat (s_blocks_count fs)" using g blocks[OF h] by simp_all
    obtain ch v n where w: "write_backup_super fs (of_nat i) (of_nat ?g) = Some (OK, with_io fs ch n)" "stands_for (Suc k) ch (pl\<lparr>p_bytes := v\<rparr>)"
      "length v = length (p_bytes pl)"
      "\<forall>l m. l + m \<le> length v \<and> (l + m \<le> ?g * ?bs \<or> (?g + 1) * ?bs \<le> l) \<longrightarrow> part l m v = part l m (p_bytes pl)"
      using backup_super_ok[OF assms(1) sf b] by blast
    have "(?g + 1) * ?bs \<le> (?g + 1 + ?D) * ?bs" by (rule mult_le_mono1) simp
    then have "\<forall>l m. l + m \<le> length v \<and> backup_area fs i l m \<longrightarrow> part l m v = part l m (p_bytes pl)"
      using w(4) unfolding backup_area_def if_not_P[OF i0] by (meson le_trans)
    then show ?thesis using True h w(1-3) by (intro exI[of _ ch] exI[of _ v] exI[of _ n]) simp
  next
    case False
    have "stands_for (Suc k) (fs_io fs) pl" by (rule stands_for_le[OF sf]) simp
    then show ?thesis unfolding if_not_P[OF False]
      by (intro exI[of _ "fs_io fs"] exI[of _ "p_bytes pl"] exI[of _ "s_block_group_nr (fs_super fs)"]) (simp add: with_io_self)
  qed
  then obtain ch1 v1 n1 where A: "(if ?C then write_backup_super fs (of_nat i) (if h then of_nat ?g else 0) else Some (OK, fs)) = Some (OK, with_io fs ch1 n1)"
    "stands_for (Suc k) ch1 (pl\<lparr>p_bytes := v1\<rparr>)" "length v1 = length (p_bytes pl)"
    "\<forall>l m. l + m \<le> length v1 \<and> backup_area fs i l m \<longrightarrow> part l m v1 = part l m (p_bytes pl)" by blast
  let ?fs1 = "with_io fs ch1 n1" and ?pl1 = "pl\<lparr>p_bytes := v1\<rparr>"
  have s1: "sound ?fs1 ?pl1" by (rule with_io_sound[OF assms(1) A(3)])
  have sf1: "stands_for (Suc k) (fs_io ?fs1) ?pl1" using A(2) by simp
  let ?B = "(if h then of_nat (?g + 1) else 0 :: u32) \<noteq> 0 \<and> (\<not> ?m \<or> i = 0)"
  have "\<exists>ch v n. (if ?B then write_at_blk ?fs1 (if h then of_nat (?g + 1) else 0) (flush_desc_blocks ?fs1) (group_bytes_of ?fs1) else Some (OK, ?fs1))
      = Some (OK, with_io fs ch n)
    \<and> stands_for k ch (pl\<lparr>p_bytes := v\<rparr>) \<and> length v = length (p_bytes pl)
    \<and> (\<forall>l m. l + m \<le> length v \<and> backup_area fs i l m \<longrightarrow> part l m v = part l m v1)
    \<and> (i = 0 \<longrightarrow> part ((?g + 1) * ?bs) (?D * ?bs) v = group_bytes_of fs)"
  proof (cases ?B)
    case True
    then have h: h by (auto split: if_splits)
    have "?g + 1 + unat (desc_blocks ?fs1) \<le> unat (s_blocks_count ?fs1)" using blocks[OF h] by simp
    from flush_descs_ok[OF s1 sf1 g this] obtain ch where ch: "write_at_blk ?fs1 (of_nat (?g + 1)) (flush_desc_blocks ?fs1) (group_bytes_of ?fs1) = Some (OK, with_io fs ch n1)"
      "stands_for k ch (?pl1\<lparr>p_bytes := write_at v1 ((?g + 1) * ?bs) (group_bytes_of fs)\<rparr>)"
      by (auto simp del: of_nat_add)
    have len: "length (group_bytes_of fs) = ?D * ?bs" by (rule length_group_bytes[OF s(5)])
    have room: "(?g + 1) * ?bs + ?D * ?bs \<le> length v1" using blocks_on_device[OF assms(1) blocks[OF h]] A(3) by simp
    let ?v = "write_at v1 ((?g + 1) * ?bs) (group_bytes_of fs)"
    have "part l m ?v = part l m v1" if "l + m \<le> length v1" "backup_area fs i l m" for l m
      using that len room by (intro part_write_apart) (auto simp: backup_area_def add_mult_distrib split: if_splits)
    moreover have "part ((?g + 1) * ?bs) (?D * ?bs) ?v = group_bytes_of fs"
      using part_write_at[of "(?g + 1) * ?bs" "group_bytes_of fs" v1] len room by simp
    moreover have "length ?v = length v1" using len room by simp
    ultimately show ?thesis using ch A(3) True h by (intro exI[of _ ch] exI[of _ ?v] exI[of _ n1]) auto
  next
    case False
    have "i \<noteq> 0"
    proof
      assume i: "i = 0"
      then have h by (rule loc(2))
      moreover have "unat (of_nat (?g + 1) :: u32) = ?g + 1" by (rule unat_small[OF g])
      then have "(of_nat (?g + 1) :: u32) \<noteq> 0" by (metis add_is_0 one_neq_zero unat_0)
      ultimately show False using False i by simp
    qed
    moreover have "stands_for k ch1 ?pl1" by (rule stands_for_le[OF A(2)]) simp
    ultimately show ?thesis using A(3) unfolding if_not_P[OF False] by (intro exI[of _ ch1] exI[of _ v1] exI[of _ n1]) simp
  qed
  then obtain ch v n where B: "(if ?B then write_at_blk ?fs1 (if h then of_nat (?g + 1) else 0) (flush_desc_blocks ?fs1) (group_bytes_of ?fs1) else Some (OK, ?fs1))
      = Some (OK, with_io fs ch n)" "stands_for k ch (pl\<lparr>p_bytes := v\<rparr>)" "length v = length (p_bytes pl)"
    "\<forall>l m. l + m \<le> length v \<and> backup_area fs i l m \<longrightarrow> part l m v = part l m v1"
    "i = 0 \<longrightarrow> part ((?g + 1) * ?bs) (?D * ?bs) v = group_bytes_of fs" by blast
  have "flush_group i fs = Some (OK, with_io fs ch n)"
    by (rule flush_group_parts[OF loc(1) A(1) _ B(1)]) (simp add: assms(4))
  moreover have "i = 0 \<Longrightarrow> ?g = unat (s_first_data_block fs)" by (simp add: gstart_def)
  ultimately show ?thesis using B(2-5) A(3,4) by (intro exI[of _ ch] exI[of _ v] exI[of _ n]) auto
qed

lemma flush_groups_ok:
  assumes "sound fs pl" "k \<le> groups fs" "stands_for (2 * (groups fs - k) + r) (fs_io fs) pl" "fs_flags fs AND EXT2_FLAG_SUPER_ONLY = 0"
  shows "\<exists>ch v n. flush_groups [k..<groups fs] fs = Some (OK, with_io fs ch n) \<and> stands_for r ch (pl\<lparr>p_bytes := v\<rparr>)
    \<and> length v = length (p_bytes pl)
    \<and> (\<forall>l m. l + m \<le> length v \<and> (\<forall>i. k \<le> i \<and> i < groups fs \<longrightarrow> backup_area fs i l m) \<longrightarrow> part l m v = part l m (p_bytes pl))"
  using assms
proof (induction "groups fs - k" arbitrary: k fs pl)
  case 0
  then show ?case
    by (intro exI[of _ "fs_io fs"] exI[of _ "p_bytes pl"] exI[of _ "s_block_group_nr (fs_super fs)"]) (simp add: with_io_self)
next
  case (Suc d)
  note prems = Suc.prems
  have k: "k < groups fs" using Suc.hyps(2) by simp
  have "2 * (groups fs - k) + r = 2 + (2 * (groups fs - Suc k) + r)" using k by simp
  then obtain ch v n where g: "flush_group k fs = Some (OK, with_io fs ch n)" "stands_for (2 * (groups fs - Suc k) + r) ch (pl\<lparr>p_bytes := v\<rparr>)"
    "length v = length (p_bytes pl)" "\<forall>l m. l + m \<le> length v \<and> backup_area fs k l m \<longrightarrow> part l m v = part l m (p_bytes pl)"
    using flush_group_ok[OF prems(1) k _ prems(4)] prems(3) by metis
  let ?fs = "with_io fs ch n" and ?pl = "pl\<lparr>p_bytes := v\<rparr>"
  have "\<exists>ch v n. flush_groups [Suc k..<groups ?fs] ?fs = Some (OK, with_io ?fs ch n) \<and> stands_for r ch (?pl\<lparr>p_bytes := v\<rparr>)
    \<and> length v = length (p_bytes ?pl)
    \<and> (\<forall>l m. l + m \<le> length v \<and> (\<forall>i. Suc k \<le> i \<and> i < groups ?fs \<longrightarrow> backup_area ?fs i l m) \<longrightarrow> part l m v = part l m (p_bytes ?pl))"
    by (rule Suc.hyps(1)) (use with_io_sound[OF prems(1) g(3)] g(2) k prems(4) Suc.hyps(2) in simp_all)
  then obtain ch' v' n' where r: "flush_groups [Suc k..<groups fs] ?fs = Some (OK, with_io fs ch' n')" "stands_for r ch' (pl\<lparr>p_bytes := v'\<rparr>)"
    "length v' = length (p_bytes pl)"
    "\<forall>l m. l + m \<le> length v' \<and> (\<forall>i. Suc k \<le> i \<and> i < groups fs \<longrightarrow> backup_area fs i l m) \<longrightarrow> part l m v' = part l m v"
    using g(3) by (auto simp: backup_area_def)
  have "[k..<groups fs] = k # [Suc k..<groups fs]" using k by (simp add: upt_rec)
  then have "flush_groups [k..<groups fs] fs = Some (OK, with_io fs ch' n')" using g(1) r(1) by simp
  moreover have "part l m v' = part l m (p_bytes pl)"
    if "l + m \<le> length v'" "\<forall>i. k \<le> i \<and> i < groups fs \<longrightarrow> backup_area fs i l m" for l m
  proof -
    have "part l m v' = part l m v" using r(4) that by auto
    also have "\<dots> = part l m (p_bytes pl)" using g(3,4) r(3) that k by auto
    finally show ?thesis .
  qed
  ultimately show ?case using r(2,3) by blast
qed

lemma flush_all_ok:
  assumes "sound fs pl" "stands_for (2 * groups fs + r) (fs_io fs) pl" "fs_flags fs AND EXT2_FLAG_SUPER_ONLY = 0"
  shows "\<exists>ch v n. flush_groups [0..<groups fs] fs = Some (OK, with_io fs ch n) \<and> stands_for r ch (pl\<lparr>p_bytes := v\<rparr>)
    \<and> length v = length (p_bytes pl)
    \<and> part ((unat (s_first_data_block fs) + 1) * unat (fs_blocksize fs)) (unat (desc_blocks fs) * unat (fs_blocksize fs)) v = group_bytes_of fs
    \<and> (\<forall>l m. l + m \<le> (unat (s_first_data_block fs) + 1) * unat (fs_blocksize fs) \<longrightarrow> part l m v = part l m (p_bytes pl))"
proof -
  note s = soundD[OF assms(1)]
  let ?bs = "unat (fs_blocksize fs)" and ?D = "unat (desc_blocks fs)" and ?f = "unat (s_first_data_block fs)"
  have n: "0 < groups fs" by (rule groupedD(1)[OF s(1)])
  have "2 * groups fs + r = 2 + (2 * (groups fs - 1) + r)" using n by simp
  then obtain ch v m where g: "flush_group 0 fs = Some (OK, with_io fs ch m)" "stands_for (2 * (groups fs - 1) + r) ch (pl\<lparr>p_bytes := v\<rparr>)"
    "length v = length (p_bytes pl)" "\<forall>l m. l + m \<le> length v \<and> backup_area fs 0 l m \<longrightarrow> part l m v = part l m (p_bytes pl)"
    "part ((?f + 1) * ?bs) (?D * ?bs) v = group_bytes_of fs"
    using flush_group_ok[OF assms(1) n _ assms(3)] assms(2) by metis
  let ?fs = "with_io fs ch m" and ?pl = "pl\<lparr>p_bytes := v\<rparr>"
  have s1: "sound ?fs ?pl" by (rule with_io_sound[OF assms(1) g(3)])
  obtain ch' v' m' where h: "flush_groups [1..<groups ?fs] ?fs = Some (OK, with_io ?fs ch' m')" "stands_for r ch' (?pl\<lparr>p_bytes := v'\<rparr>)"
    "length v' = length (p_bytes ?pl)"
    "\<forall>l m. l + m \<le> length v' \<and> (\<forall>i. 1 \<le> i \<and> i < groups ?fs \<longrightarrow> backup_area ?fs i l m) \<longrightarrow> part l m v' = part l m (p_bytes ?pl)"
    using flush_groups_ok[OF s1, of 1 r] g(2) n assms(3) by auto
  have loc0: "?f + 1 + ?D < gend fs 0"
    using loc_plain[OF assms(1) n] by (auto simp: gstart_def)
  have dev: "gend fs 0 * ?bs \<le> length (p_bytes pl)" using blocks_on_device[OF assms(1), of "gend fs 0" 0] gend_bounds(3)[OF s(1) n] by simp
  have area: "backup_area ?fs i l m" if "l + m \<le> (?f + 1 + ?D) * ?bs" "1 \<le> i" "i < groups fs" for i l m
  proof -
    have "?f + 1 + ?D \<le> gstart fs i" using loc0 gend_next[OF s(1), of 0 i] that(2,3) by linarith
    then have "(?f + 1 + ?D) * ?bs \<le> gstart fs i * ?bs" by (rule mult_le_mono1)
    then show ?thesis using that(1,2) unfolding backup_area_def with_io_fields by simp
  qed
  have len: "(?f + 1 + ?D) * ?bs \<le> length (p_bytes pl)"
  proof -
    have "(?f + 1 + ?D) * ?bs \<le> gend fs 0 * ?bs" using loc0 by (intro mult_le_mono1) simp
    then show ?thesis using dev by linarith
  qed
  have keep: "part l m v' = part l m v" if "l + m \<le> (?f + 1 + ?D) * ?bs" for l m
    using h(3,4) area[OF that] that len g(3) by auto
  have "[0..<groups fs] = 0 # [1..<groups fs]" using n by (simp add: upt_rec)
  then have "flush_groups [0..<groups fs] fs = Some (OK, with_io fs ch' m')" using g(1) h(1) by simp
  moreover have "part ((?f + 1) * ?bs) (?D * ?bs) v' = group_bytes_of fs"
    using keep[of "(?f + 1) * ?bs" "?D * ?bs"] g(5) by (simp add: add_mult_distrib)
  moreover have "part l m v' = part l m (p_bytes pl)" if "l + m \<le> (?f + 1) * ?bs" for l m
  proof -
    have "(?f + 1) * ?bs \<le> (?f + 1 + ?D) * ?bs" by (rule mult_le_mono1) simp
    then have le: "l + m \<le> (?f + 1 + ?D) * ?bs" using that by linarith
    then have "part l m v' = part l m v" by (rule keep)
    also have "\<dots> = part l m (p_bytes pl)" using g(3,4) that le len by (auto simp: backup_area_def gstart_def)
    finally show ?thesis .
  qed
  ultimately show ?thesis using h(2,3) g(3) by (intro exI[of _ ch'] exI[of _ v'] exI[of _ m']) simp
qed


subsection \<open>The primary superblock\<close>

lemma field16_eq:
  assumes "p + 2 \<le> length xs" "p + 2 \<le> length ys"
  shows "field16 xs p = field16 ys p \<longleftrightarrow> part p 2 xs = part p 2 ys"
proof -
  have "le_bytes 2 (field16 zs p) = part p 2 zs" if "p + 2 \<le> length zs" for zs
    using le_bytes_le_word[of "part p 2 zs", where 'a = 16] that by (simp add: field16_def)
  from this[OF assms(1)] this[OF assms(2)] have "part p 2 xs = le_bytes 2 (field16 xs p)" "part p 2 ys = le_bytes 2 (field16 ys p)" by simp_all
  moreover have "field16 zs p = le_word (part p 2 zs)" for zs by (simp add: field16_def)
  ultimately show ?thesis by metis
qed

lemma run_end_result:
  assumes "i \<le> 512"
  shows "i \<le> run_end old new i" "run_end old new i \<le> 512"
    "run_end old new i < 512 \<Longrightarrow> field16 old (2 * run_end old new i) = field16 new (2 * run_end old new i)"
proof -
  show "i \<le> run_end old new i" by (rule run_end_ge)
  have "run_end old new i \<le> 512 \<and> (run_end old new i < 512 \<longrightarrow> field16 old (2 * run_end old new i) = field16 new (2 * run_end old new i))"
    using assms
  proof (induction old new i rule: run_end.induct)
    case (1 old new i)
    consider "512 \<le> i" | "i < 512" "field16 old (2 * i) = field16 new (2 * i)" | "i < 512" "field16 old (2 * i) \<noteq> field16 new (2 * i)"
      by linarith
    then show ?case
    proof cases
      case 3
      then have "run_end old new i = run_end old new (i + 1)" by (simp add: run_end.simps[of old new i])
      then show ?thesis using "1.IH" 3 by simp
    next
      case 1
      then have "run_end old new i = i" by (simp add: run_end.simps[of old new i])
      then show ?thesis using "1.prems" 1 by simp
    next
      case 2
      then have "run_end old new i = i" by (simp add: run_end.simps[of old new i])
      then show ?thesis using 2 by simp
    qed
  qed
  then show "run_end old new i \<le> 512"
    "run_end old new i < 512 \<Longrightarrow> field16 old (2 * run_end old new i) = field16 new (2 * run_end old new i)" by blast+
qed

definition mixed :: "nat \<Rightarrow> u8 list \<Rightarrow> u8 list \<Rightarrow> u8 list" where
  \<comment> \<open>The first \<open>i\<close> words are new.\<close>
  "mixed i old new = take (2 * i) new @ drop (2 * i) old"

lemma mixed_Suc:
  assumes "length old = 1024" "length new = 1024" "i < 512" "field16 old (2 * i) = field16 new (2 * i)"
  shows "mixed (i + 1) old new = mixed i old new"
proof -
  have "part (2 * i) 2 old = part (2 * i) 2 new" using field16_eq[of "2 * i" old new] assms by simp
  then have "take 2 (drop (2 * i) old) = take 2 (drop (2 * i) new)" by (simp add: part_def)
  then have "drop (2 * i) old = take 2 (drop (2 * i) new) @ drop (2 * (i + 1)) old"
    using append_take_drop_id[of 2 "drop (2 * i) old"] by (simp add: add.commute)
  then show ?thesis using take_add[of "2 * i" 2 new] by (simp add: mixed_def)
qed

lemma mixed_run:
  assumes "length old = 1024" "length new = 1024" "i \<le> j" "j \<le> 512"
  shows "write_at (mixed i old new) (2 * i) (take (2 * (j - i)) (drop (2 * i) new)) = mixed j old new"
proof -
  have k: "2 * i + 2 * (j - i) = 2 * j" using assms(3) by simp
  then have "take (2 * i) new @ take (2 * (j - i)) (drop (2 * i) new) = take (2 * j) new"
    using take_add[of "2 * i" "2 * (j - i)" new] by simp
  moreover have "length (take (2 * (j - i)) (drop (2 * i) new)) = 2 * (j - i)" "length (take (2 * i) new) = 2 * i" using assms k by simp_all
  moreover from this have "write_at (take (2 * i) new @ drop (2 * i) old) (2 * i) (take (2 * (j - i)) (drop (2 * i) new))
      = take (2 * i) new @ take (2 * (j - i)) (drop (2 * i) new) @ drop (2 * j) old"
    using k by (simp only: write_at_def length_append take_append drop_append drop_drop) (simp add: add.commute)
  ultimately show ?thesis by (simp only: mixed_def append_assoc[symmetric])
qed

lemma write_part:
  assumes "p + n \<le> length v" "i + length xs \<le> n"
  shows "part p n (write_at v (p + i) xs) = write_at (part p n v) i xs"
  by (rule nth_equalityI) (use assms in \<open>auto simp: nth_write_at\<close>)

lemma write_changed_ok:
  assumes "stands_for (512 - i + r) ch pl" "p_off pl = 0" "2048 \<le> length (p_bytes pl)" "length old = 1024" "length new = 1024"
    and "i \<le> 513" "part 1024 1024 (p_bytes pl) = mixed (min i 512) old new"
  shows "\<exists>ch' v. write_changed old new ch i = Some (OK, ch') \<and> stands_for r ch' (pl\<lparr>p_bytes := v\<rparr>) \<and> length v = length (p_bytes pl)
    \<and> part 1024 1024 v = new \<and> (\<forall>l m. l + m \<le> length v \<and> (l + m \<le> 1024 \<or> 2048 \<le> l) \<longrightarrow> part l m v = part l m (p_bytes pl))"
  using assms
proof (induction old new ch i arbitrary: pl rule: write_changed.induct)
  case (1 old new ch i)
  note prems = "1.prems" and IH = "1.IH"
  show ?case
  proof (cases "512 \<le> i")
    case True
    then show ?thesis using prems by (intro exI[of _ ch] exI[of _ "p_bytes pl"]) (simp add: write_changed.simps mixed_def)
  next
    case False
    show ?thesis
    proof (cases "field16 old (2 * i) = field16 new (2 * i)")
      case True
      have "stands_for (512 - (i + 1) + r) ch pl" by (rule stands_for_le[OF prems(1)]) simp
      moreover have "part 1024 1024 (p_bytes pl) = mixed (min (i + 1) 512) old new"
        using mixed_Suc[OF prems(4,5) _ True] False prems(7) by simp
      ultimately show ?thesis using IH(1)[OF False True, of pl] False True prems(2-5) by (subst write_changed.simps) simp
    next
      case diff: False
      define j where "j = run_end old new (i + 1)"
      have j: "i + 1 \<le> j" "j \<le> 512" "j < 512 \<Longrightarrow> field16 old (2 * j) = field16 new (2 * j)"
        using run_end_result[of "i + 1" old new] False by (simp_all add: j_def)
      let ?k = "2 * (j - i)" and ?p = "1024 + 2 * i"
      let ?xs = "take ?k (drop (2 * i) new)"
      have bound: "2 * i + ?k = 2 * j" "2 * i + ?k \<le> 1024" "?k \<le> 1024 - 2 * i" "1024 + 2 * i + ?k \<le> 2048" "?k < 2147483648" using j by simp_all
      have len: "length ?xs = ?k" using prems(5) bound by simp
      have off: "unat (of_nat ?p :: u64) = ?p" using False by (simp add: unat_of_nat del: of_nat_add of_nat_mult)
      have sf: "stands_for (Suc (512 - (j + 1) + r)) ch pl" by (rule stands_for_le[OF prems(1)]) (use j in simp)
      have "may (\<lambda>_. True) (Write_bytes (of_nat ?p) (int ?k) (drop (2 * i) new)) pl"
        using off prems(2,3,5) bound by (simp del: of_nat_add of_nat_mult)
      from write_byte_ok[OF sf this] obtain ch1 where w: "io_channel_write_byte ch (of_nat ?p) (int ?k) (drop (2 * i) new) = Some (OK, ch1)"
        "stands_for (512 - (j + 1) + r) ch1 (pl\<lparr>p_bytes := write_at (p_bytes pl) ?p ?xs\<rparr>)"
        unfolding off prems(2) nat_int by auto
      let ?pl = "pl\<lparr>p_bytes := write_at (p_bytes pl) ?p ?xs\<rparr>"
      have room: "?p + length ?xs \<le> length (p_bytes pl)" using len j prems(3) by simp
      have "part 1024 1024 (write_at (p_bytes pl) ?p ?xs) = write_at (part 1024 1024 (p_bytes pl)) (2 * i) ?xs"
        by (rule write_part) (use prems(3) len j in simp_all)
      also have "\<dots> = mixed j old new" using mixed_run[OF prems(4,5), of i j] prems(7) False j by simp
      also have "\<dots> = mixed (min (j + 1) 512) old new"
        using mixed_Suc[OF prems(4,5) _ j(3)] j(2) by (cases "j = 512") simp_all
      finally have mix: "part 1024 1024 (p_bytes ?pl) = mixed (min (j + 1) 512) old new" by simp
      obtain ch' v where r: "write_changed old new ch1 (j + 1) = Some (OK, ch')" "stands_for r ch' (?pl\<lparr>p_bytes := v\<rparr>)"
        "length v = length (p_bytes ?pl)" "part 1024 1024 v = new"
        "\<forall>l m. l + m \<le> length v \<and> (l + m \<le> 1024 \<or> 2048 \<le> l) \<longrightarrow> part l m v = part l m (p_bytes ?pl)"
        using IH(2)[OF False diff j_def, of "(OK, ch1)" OK ch1 ?pl] w mix room prems(2-5) j
        by (auto simp del: of_nat_add of_nat_mult)
      have "part l m v = part l m (p_bytes pl)" if "l + m \<le> length v" "l + m \<le> 1024 \<or> 2048 \<le> l" for l m
      proof -
        have "part l m v = part l m (write_at (p_bytes pl) ?p ?xs)" using r(5) that by simp
        also have "\<dots> = part l m (p_bytes pl)" by (rule part_write_apart) (use that r(3) room len j in auto)
        finally show ?thesis .
      qed
      moreover have "write_changed old new ch i = Some (OK, ch')"
        unfolding write_changed.simps[of old new ch i] if_not_P[OF False] if_not_P[OF diff] j_def[symmetric] Let_def w(1) using r(1) by simp
      ultimately show ?thesis using r(2-4) room by (intro exI[of _ ch'] exI[of _ v]) simp
    qed
  qed
qed


definition rest_kept :: "nat \<Rightarrow> nat \<Rightarrow> u8 list \<Rightarrow> u8 list \<Rightarrow> bool" where
  \<comment> \<open>\<open>v\<close> is \<open>u\<close> but for the bytes from \<open>a\<close> to \<open>e\<close>.\<close>
  "rest_kept a e u v \<longleftrightarrow> length v = length u \<and> (\<forall>l m. l + m \<le> length v \<and> (l + m \<le> a \<or> e \<le> l) \<longrightarrow> part l m v = part l m u)"

lemma write_fresh_ok:
  assumes "stands_for (3 + r) ch pl" "p_off pl = 0" "2048 \<le> length (p_bytes pl)" "length super = 1024"
    and "0 < bs" "bs < 2147483648" "mem 1024" "mem (nat bs)"
  shows "\<exists>ch1 ch2 ch3. unix_set_blksize mem junk ch 1024 = Some (OK, ch1) \<and> unix_write_blk ch1 1 (- 1024) super = Some (OK, ch2)
    \<and> unix_set_blksize mem junk ch2 bs = Some (OK, ch3) \<and> stands_for r ch3 (pl\<lparr>p_bytes := write_at (p_bytes pl) 1024 super, p_bs := bs\<rparr>)"
proof -
  let ?pl = "pl\<lparr>p_bs := 1024\<rparr>"
  have "stands_for (Suc (2 + r)) ch pl" using assms(1) by (simp add: numeral_3_eq_3)
  from set_blksize_ok[OF this, of mem 1024 junk] assms(7) obtain ch1 where 1: "unix_set_blksize mem junk ch 1024 = Some (OK, ch1)"
    "stands_for (2 + r) ch1 ?pl" by auto
  have at: "plain_at ?pl 1 = 1024" "plain_size ?pl (- 1024) = 1024" using assms(2) by (simp_all add: plain_at_def extent_def plain_size_def)
  have sf: "stands_for (Suc (1 + r)) ch1 ?pl" using 1(2) by simp
  have "may mem (Write 1 (- 1024) super) ?pl" using at assms(3,4) by simp
  from write_ok[OF sf this] obtain ch2 where 2: "unix_write_blk ch1 1 (- 1024) super = Some (OK, ch2)"
    "stands_for (1 + r) ch2 (?pl\<lparr>p_bytes := write_at (p_bytes pl) 1024 super\<rparr>)" using at assms(4) by auto
  have "stands_for (Suc r) ch2 (?pl\<lparr>p_bytes := write_at (p_bytes pl) 1024 super\<rparr>)" using 2(2) by simp
  from set_blksize_ok[OF this, of mem bs junk] assms(5,6,8) obtain ch3 where "unix_set_blksize mem junk ch2 bs = Some (OK, ch3)"
    "stands_for r ch3 (pl\<lparr>p_bs := 1024, p_bytes := write_at (p_bytes pl) 1024 super, p_bs := bs\<rparr>)" by auto
  moreover have "pl\<lparr>p_bs := 1024, p_bytes := write_at (p_bytes pl) 1024 super, p_bs := bs\<rparr> = pl\<lparr>p_bytes := write_at (p_bytes pl) 1024 super, p_bs := bs\<rparr>"
    by (cases pl) simp
  ultimately show ?thesis using 1(1) 2(1) by metis
qed

lemma write_primary_ok:
  assumes "stands_for (512 + r) (fs_io fs) pl" "p_off pl = 0" "2048 \<le> length (p_bytes pl)" "length super = 1024"
    and "p_bs pl = sint (fs_blocksize fs)" "0 < p_bs pl" "p_bs pl < 2147483648" "mem 1024" "mem (nat (p_bs pl))"
    and "\<forall>old. orig_super fs = Some old \<longrightarrow> old = part 1024 1024 (p_bytes pl)"
  shows "\<exists>ch v. write_primary_superblock mem junk fs super
      = Some (OK, fs\<lparr>fs_io := ch, orig_super := map_option (\<lambda>_. super) (orig_super fs)\<rparr>)
    \<and> stands_for r ch (pl\<lparr>p_bytes := v\<rparr>) \<and> part 1024 1024 v = super \<and> rest_kept 1024 2048 (p_bytes pl) v"
proof (cases "orig_super fs")
  case None
  have "stands_for (3 + r) (fs_io fs) pl" by (rule stands_for_le[OF assms(1)]) simp
  from write_fresh_ok[OF this assms(2-4,6,7) assms(8,9), of junk] obtain ch1 ch2 ch3 where
    w: "unix_set_blksize mem junk (fs_io fs) 1024 = Some (OK, ch1)" "unix_write_blk ch1 1 (- 1024) super = Some (OK, ch2)"
      "unix_set_blksize mem junk ch2 (p_bs pl) = Some (OK, ch3)" "stands_for r ch3 (pl\<lparr>p_bytes := write_at (p_bytes pl) 1024 super, p_bs := p_bs pl\<rparr>)"
    by blast
  let ?v = "write_at (p_bytes pl) 1024 super"
  have "part l m ?v = part l m (p_bytes pl)" if "l + m \<le> length (p_bytes pl)" "l + m \<le> 1024 \<or> 2048 \<le> l" for l m
    using that assms(3,4) by (intro part_write_apart) auto
  then have "rest_kept 1024 2048 (p_bytes pl) ?v" using assms(3,4) by (simp add: rest_kept_def)
  moreover have "part 1024 1024 ?v = super" using part_write_at[of 1024 super "p_bytes pl"] assms(3,4) by simp
  moreover have "fs\<lparr>fs_io := ch3\<rparr> = fs\<lparr>fs_io := ch3, orig_super := None\<rparr>" using None by simp
  moreover have "pl\<lparr>p_bytes := ?v, p_bs := p_bs pl\<rparr> = pl\<lparr>p_bytes := ?v\<rparr>" by (cases pl) simp
  then have "stands_for r ch3 (pl\<lparr>p_bytes := ?v\<rparr>)" using w(4) by simp
  ultimately show ?thesis using None w(1-3) assms(5)
    by (intro exI[of _ ch3] exI[of _ ?v]) (simp add: write_primary_superblock_def)
next
  case (Some old)
  then have old: "part 1024 1024 (p_bytes pl) = old" "length old = 1024" using assms(3,10) by simp_all
  have sf: "stands_for (512 - 0 + r) (fs_io fs) pl" using assms(1) by simp
  have "part 1024 1024 (p_bytes pl) = mixed (min 0 512) old super" using old by (simp add: mixed_def)
  from write_changed_ok[OF sf assms(2,3) old(2) assms(4) _ this] obtain ch v where
    w: "write_changed old super (fs_io fs) 0 = Some (OK, ch)" "stands_for r ch (pl\<lparr>p_bytes := v\<rparr>)" "length v = length (p_bytes pl)"
      "part 1024 1024 v = super" "\<forall>l m. l + m \<le> length v \<and> (l + m \<le> 1024 \<or> 2048 \<le> l) \<longrightarrow> part l m v = part l m (p_bytes pl)" by auto
  then show ?thesis using Some
    by (intro exI[of _ ch] exI[of _ v]) (simp add: write_primary_superblock_def rest_kept_def)
qed

lemma flush_primary_ok:
  assumes "stands_for (514 + r) (fs_io fs) pl" "p_off pl = 0" "2048 \<le> length (p_bytes pl)" "super_ok fs"
    and "p_bs pl = sint (fs_blocksize fs)" "0 < p_bs pl" "p_bs pl < 2147483648" "mem 1024" "mem (nat (p_bs pl))"
    and "\<forall>old. orig_super fs = Some old \<longrightarrow> old = part 1024 1024 (p_bytes pl)"
  shows "\<exists>ch v. flush_primary mem junk fs = Some (OK, fs\<lparr>fs_io := ch, orig_super := map_option (\<lambda>_. super_bytes fs) (orig_super fs),
        fs_flags := fs_flags fs AND NOT EXT2_FLAG_DIRTY\<rparr>)
    \<and> stands_for r ch (pl\<lparr>p_bytes := v\<rparr>) \<and> part 1024 1024 v = super_bytes fs \<and> rest_kept 1024 2048 (p_bytes pl) v"
proof -
  have "stands_for (Suc (513 + r)) (fs_io fs) pl" using assms(1) by simp
  from flush_op_ok[OF this] obtain ch1 where 1: "unix_flush (fs_io fs) = Some (OK, ch1)" "stands_for (513 + r) ch1 pl" by blast
  let ?fs = "fs\<lparr>fs_io := ch1\<rparr>"
  have sf: "stands_for (512 + Suc r) (fs_io ?fs) pl" using 1(2) by simp
  have "\<exists>ch v. write_primary_superblock mem junk ?fs (super_bytes fs)
      = Some (OK, ?fs\<lparr>fs_io := ch, orig_super := map_option (\<lambda>_. super_bytes fs) (orig_super ?fs)\<rparr>)
    \<and> stands_for (Suc r) ch (pl\<lparr>p_bytes := v\<rparr>) \<and> part 1024 1024 v = super_bytes fs \<and> rest_kept 1024 2048 (p_bytes pl) v"
    by (rule write_primary_ok[OF sf assms(2,3) length_super_bytes[OF assms(4)]]) (use assms(5-10) in simp_all)
  then obtain ch2 v where 2: "write_primary_superblock mem junk ?fs (super_bytes fs)
      = Some (OK, fs\<lparr>fs_io := ch2, orig_super := map_option (\<lambda>_. super_bytes fs) (orig_super fs)\<rparr>)"
    "stands_for (Suc r) ch2 (pl\<lparr>p_bytes := v\<rparr>)" "part 1024 1024 v = super_bytes fs" "rest_kept 1024 2048 (p_bytes pl) v" by auto
  from flush_op_ok[OF 2(2)] obtain ch3 where "unix_flush ch2 = Some (OK, ch3)" "stands_for r ch3 (pl\<lparr>p_bytes := v\<rparr>)" by blast
  then show ?thesis using 1(1) 2 by (intro exI[of _ ch3] exI[of _ v]) (simp add: flush_primary_def)
qed


end
