(* ===== verification/Ext2_Round_Trip.thy ===== *)
theory Ext2_Round_Trip
  imports Ext2_Reopen
begin

unbundle bit_operations_syntax

text \<open>
  A filesystem that is closed and opened again is the same: \<open>ext2fs_close\<close> writes the superblock, the
  descriptors and the bitmaps through the cached channel, and \<open>ext2fs_open2\<close> and \<open>ext2fs_read_bitmaps\<close> get
  them back from the device.
\<close>

subsection \<open>Fields that do not matter\<close>

definition stamped :: "u32 \<Rightarrow> ext2_fs \<Rightarrow> ext2_fs" where
  \<comment> \<open>The filesystem as it is written at the time \<open>now\<close>.\<close>
  "stamped now fs = fs\<lparr>fs_super := (fs_super fs)\<lparr>s_wtime := now, s_block_group_nr := 0\<rparr>\<rparr>"

definition same_frame :: "ext2_fs \<Rightarrow> ext2_fs \<Rightarrow> bool" where
  \<comment> \<open>The same but for the channel, the flags, and fields of the superblock that say nothing about the layout.\<close>
  "same_frame fs fs' \<longleftrightarrow> (\<exists>ch f o' t st n. fs' = fs\<lparr>fs_io := ch, fs_flags := f, orig_super := o',
     fs_super := (fs_super fs)\<lparr>s_wtime := t, s_state := st, s_block_group_nr := n\<rparr>\<rparr>)"

lemma frame_fields:
  assumes "same_frame fs fs'"
  shows "fs_blocksize fs' = fs_blocksize fs" "desc_blocks fs' = desc_blocks fs" "s_first_data_block fs' = s_first_data_block fs"
    "s_blocks_count fs' = s_blocks_count fs" "group_desc fs' = group_desc fs" "groups fs' = groups fs"
    "group_bytes_of fs' = group_bytes_of fs" "JOURNAL_DEV fs' = JOURNAL_DEV fs" "padded fs' = padded fs" "fs_magic fs' = fs_magic fs"
  using assms by (auto simp: same_frame_def group_bytes_of_def JOURNAL_DEV_def padded_def fun_eq_iff)

lemma frame_sound:
  assumes "same_frame fs fs'" "sound fs pl" "length v = length (p_bytes pl)"
  shows "sound fs' (pl\<lparr>p_bytes := v\<rparr>)"
proof -
  obtain ch f o' t st n where fs': "fs' = fs\<lparr>fs_io := ch, fs_flags := f, orig_super := o',
     fs_super := (fs_super fs)\<lparr>s_wtime := t, s_state := st, s_block_group_nr := n\<rparr>\<rparr>"
    using assms(1) unfolding same_frame_def by blast
  have "ext2fs_super_and_bgd_loc fs' = ext2fs_super_and_bgd_loc fs"
    by (simp add: fun_eq_iff fs' ext2fs_super_and_bgd_loc_def group_blocks_def group_start_def ext2fs_bg_has_super_def
        has_meta_bg_def old_desc_blocks_def Let_def cong: if_cong)
  then have "room fs' = room fs" by (simp add: room_def fun_eq_iff)
  moreover have "has_meta_bg fs' = has_meta_bg fs" "super_ok fs' = super_ok fs" "descs_ok fs' = descs_ok fs" "grouped fs' = grouped fs"
    "old_desc_blocks fs' = old_desc_blocks fs" "inode_blocks_per_group fs' = inode_blocks_per_group fs"
    by (simp_all add: fs' has_meta_bg_def super_ok_def descs_ok_def grouped_def gstart_def old_desc_blocks_def)
  ultimately show ?thesis using assms(2,3) frame_fields[OF assms(1)] by (simp add: sound_def roomy_def)
qed

lemma frame_fits:
  assumes "same_frame fs fs'"
  shows "fits fs' b m nb ni = fits fs b m nb ni"
  using assms by (auto simp: same_frame_def fits_def)

lemma frame_laid_out:
  assumes "same_frame fs fs'" "laid_out fs pl" "length v = length (p_bytes pl)"
  shows "laid_out fs' (pl\<lparr>p_bytes := v\<rparr>)"
proof -
  have "blk_at (pl\<lparr>p_bytes := v\<rparr>) = blk_at pl" by (simp add: blk_at_def plain_at_def fun_eq_iff)
  then show ?thesis using assms(2,3) frame_fields[OF assms(1)] by (simp add: laid_out_def placed_def apart_def)
qed

lemma frame_trans: "same_frame a b \<Longrightarrow> same_frame b c \<Longrightarrow> same_frame a c"
  unfolding same_frame_def by (elim exE) (rule exI, rule exI, rule exI, rule exI, rule exI, rule exI, simp)

subsection \<open>The bytes in front of the bitmaps\<close>

lemma part_add: "part l (n + m) xs = part l n xs @ part (l + n) m xs"
  using take_add[of n m "drop l xs"] by (simp add: part_def add.commute[of l n])

lemma blocks_kept:
  assumes "\<forall>k < n. part (k * bs) bs v = part (k * bs) bs u"
  shows "part 0 (n * bs) v = part 0 (n * bs) u"
  using assms
proof (induction n)
  case (Suc n)
  have "part 0 (n * bs + bs) v = part 0 (n * bs + bs) u" using Suc by (simp add: part_add)
  then show ?case by (simp add: add.commute)
qed (simp add: part_def)

lemma inside_kept:
  assumes "part 0 n v = part 0 n u" "l + m \<le> n"
  shows "part l m v = part l m u"
proof -
  have "part l m v = part l m (part 0 n v)" using assms(2) by (simp add: part_part)
  also have "\<dots> = part l m u" unfolding assms(1) using assms(2) by (simp add: part_part)
  finally show ?thesis .
qed

definition behind :: "ext2_fs \<Rightarrow> bool" where
  \<comment> \<open>The bitmaps are behind the descriptors of the first group.\<close>
  "behind fs \<longleftrightarrow> (\<forall>g \<in> set (group_desc fs). unat (s_first_data_block fs) + 1 + unat (desc_blocks fs) \<le> unat (bg_block_bitmap g)
     \<and> unat (s_first_data_block fs) + 1 + unat (desc_blocks fs) \<le> unat (bg_inode_bitmap g))"

lemma front_fits:
  assumes "sound fs pl"
  shows "unat (s_first_data_block fs) + 1 + unat (desc_blocks fs) \<le> unat (s_blocks_count fs)"
proof -
  note s = soundD[OF assms]
  have n: "0 < groups fs" by (rule groupedD(1)[OF s(1)])
  have "gstart fs 0 + 1 + unat (desc_blocks fs) < gend fs 0" using loc_plain[OF assms n] by blast
  then show ?thesis using gend_bounds(3)[OF s(1) n] by (simp add: gstart_def)
qed

lemma front_kept:
  assumes "sound fs pl" "behind fs"
    and "others_kept fs pl (bg_block_bitmap ` set (group_desc fs) \<union> bg_inode_bitmap ` set (group_desc fs)) v"
  shows "part 0 ((unat (s_first_data_block fs) + 1 + unat (desc_blocks fs)) * unat (fs_blocksize fs)) v
    = part 0 ((unat (s_first_data_block fs) + 1 + unat (desc_blocks fs)) * unat (fs_blocksize fs)) (p_bytes pl)"
proof (rule blocks_kept, intro allI impI)
  fix k assume k: "k < unat (s_first_data_block fs) + 1 + unat (desc_blocks fs)"
  have K: "k + 1 \<le> unat (s_blocks_count fs)" using k front_fits[OF assms(1)] by linarith
  then have k32: "k < 2 ^ 32" using unsigned_less[of "s_blocks_count fs", where 'a = nat] by simp
  then have u: "unat (of_nat k :: u32) = k" by (rule unat_small)
  have "of_nat k \<notin> bg_block_bitmap ` set (group_desc fs) \<union> bg_inode_bitmap ` set (group_desc fs)"
  proof
    assume "of_nat k \<in> bg_block_bitmap ` set (group_desc fs) \<union> bg_inode_bitmap ` set (group_desc fs)"
    then obtain g where g: "g \<in> set (group_desc fs)" "of_nat k = bg_block_bitmap g \<or> of_nat k = bg_inode_bitmap g" by blast
    have "unat (bg_block_bitmap g) \<noteq> k" "unat (bg_inode_bitmap g) \<noteq> k" using assms(2) g(1) k unfolding behind_def by force+
    then show False using g(2) u by auto
  qed
  moreover have "blk_at pl (of_nat k) = k * unat (fs_blocksize fs)" by (rule blk_at_nat[OF assms(1) k32])
  moreover have "k * unat (fs_blocksize fs) + unat (fs_blocksize fs) \<le> length (p_bytes pl)" using blocks_on_device[OF assms(1) K] by simp
  ultimately show "part (k * unat (fs_blocksize fs)) (unat (fs_blocksize fs)) v = part (k * unat (fs_blocksize fs)) (unat (fs_blocksize fs)) (p_bytes pl)"
    using assms(3) unfolding others_kept_def by metis
qed

subsection \<open>Flushing\<close>

definition ready :: "ext2_fs \<Rightarrow> plain \<Rightarrow> bitmap \<Rightarrow> bitmap \<Rightarrow> nat \<Rightarrow> nat \<Rightarrow> bool" where
  \<comment> \<open>A filesystem that is open for writing, with its bitmaps. What it keeps of the superblock it was opened from is on the device.\<close>
  "ready fs pl b m nb ni \<longleftrightarrow> sound fs pl \<and> fits fs b m nb ni \<and> laid_out fs pl \<and> behind fs \<and> \<not> JOURNAL_DEV fs
     \<and> fs_flags fs AND EXT2_FLAG_RW \<noteq> 0 \<and> fs_flags fs AND EXT2_FLAG_DIRTY \<noteq> 0 \<and> fs_flags fs AND EXT2_FLAG_SWAP_BYTES = 0
     \<and> fs_flags fs AND EXT2_FLAG_SUPER_ONLY = 0 \<and> ext2fs_test_bb_dirty fs \<noteq> 0 \<and> ext2fs_test_ib_dirty fs \<noteq> 0
     \<and> (\<forall>old. orig_super fs = Some old \<longrightarrow> old = part 1024 1024 (p_bytes pl))"

lemma readyD:
  assumes "ready fs pl b m nb ni"
  shows "sound fs pl" "fits fs b m nb ni" "laid_out fs pl" "behind fs" "\<not> JOURNAL_DEV fs"
    "fs_flags fs AND EXT2_FLAG_RW \<noteq> 0" "fs_flags fs AND EXT2_FLAG_DIRTY \<noteq> 0" "fs_flags fs AND EXT2_FLAG_SWAP_BYTES = 0"
    "fs_flags fs AND EXT2_FLAG_SUPER_ONLY = 0" "ext2fs_test_bb_dirty fs \<noteq> 0" "ext2fs_test_ib_dirty fs \<noteq> 0"
    "\<And>old. orig_super fs = Some old \<Longrightarrow> old = part 1024 1024 (p_bytes pl)"
  using assms unfolding ready_def by blast+

definition on_device :: "ext2_fs \<Rightarrow> plain \<Rightarrow> bitmap \<Rightarrow> bitmap \<Rightarrow> nat \<Rightarrow> nat \<Rightarrow> u8 list \<Rightarrow> bool" where
  \<comment> \<open>The bytes \<open>v\<close> of the device hold the filesystem.\<close>
  "on_device fs pl b m nb ni v \<longleftrightarrow> length v = length (p_bytes pl) \<and> part 1024 1024 v = super_bytes fs
     \<and> part ((unat (s_first_data_block fs) + 1) * unat (fs_blocksize fs)) (unat (desc_blocks fs) * unat (fs_blocksize fs)) v = group_bytes_of fs
     \<and> stored bg_block_bitmap (padded fs) fs pl nb (bm_bytes b) v \<and> stored bg_inode_bitmap (\<lambda>_ _. False) fs pl ni (bm_bytes m) v"

lemma bitmap_kept:
  assumes "sound fs pl" "placed blk_of fs pl" "n \<le> unat (fs_blocksize fs)" "rest_kept 1024 2048 u v" "length u = length (p_bytes pl)"
    and "\<forall>g \<in> set (group_desc fs). unat (s_first_data_block fs) + 1 + unat (desc_blocks fs) \<le> unat (blk_of g)"
    and "stored blk_of p fs pl n xs u"
  shows "stored blk_of p fs pl n xs v"
proof -
  note s = soundD[OF assms(1)]
  have "part (blk_at pl (blk_of (group_desc fs ! i))) n v = part (blk_at pl (blk_of (group_desc fs ! i))) n u"
    if i: "i < length (group_desc fs)" for i
  proof -
    let ?k = "unat (blk_of (group_desc fs ! i))"
    have "blk_at pl (of_nat ?k) = ?k * unat (fs_blocksize fs)" by (rule blk_at_nat[OF assms(1)]) (use unsigned_less[of "blk_of (group_desc fs ! i)", where 'a = nat] in simp)
    then have at: "blk_at pl (blk_of (group_desc fs ! i)) = ?k * unat (fs_blocksize fs)" by simp
    have "unat (s_first_data_block fs) + 1 \<le> ?k" using bspec[OF assms(6), of "group_desc fs ! i"] i by simp
    then have "(unat (s_first_data_block fs) + 1) * unat (fs_blocksize fs) \<le> ?k * unat (fs_blocksize fs)" by (rule mult_le_mono1)
    then have "2048 \<le> blk_at pl (blk_of (group_desc fs ! i))" using s(11) at by linarith
    moreover have "blk_at pl (blk_of (group_desc fs ! i)) + n \<le> length v"
      using assms(2-5) i by (auto simp: placed_def rest_kept_def dest!: spec[of _ i])
    ultimately show ?thesis using assms(4) by (simp add: rest_kept_def)
  qed
  then show ?thesis using assms(7) by (simp add: stored_def)
qed

lemma flush_stages:
  assumes "fs_magic fs = EXT2_ET_MAGIC_EXT2FS_FILSYS" "fs_flags fs AND EXT2_FLAG_SWAP_BYTES = 0" "\<not> JOURNAL_DEV fs"
    and "flush_groups [0..<groups fs] (set_state (s_state (fs_super fs) AND NOT 1) (stamped now fs)) = Some (OK, fs1)"
    and "ext2fs_write_bitmaps mem (set_state (s_state (fs_super fs)) (set_group_nr 0 fs1)) = Some (OK, fs2)"
    and "flush_primary mem junk fs2 = Some (OK, fs3)"
  shows "ext2fs_flush mem junk now fs = Some (OK, set_state (s_state (fs_super fs)) fs3)"
proof -
  have s: "set_group_nr 0 (fs\<lparr>fs_super := (fs_super fs)\<lparr>s_wtime := now\<rparr>\<rparr>) = stamped now fs"
    by (simp add: set_group_nr_def stamped_def)
  have "JOURNAL_DEV (stamped now fs) = JOURNAL_DEV fs" "groups (stamped now fs) = groups fs"
    by (simp_all add: stamped_def JOURNAL_DEV_def)
  then show ?thesis using assms by (simp add: ext2fs_flush_def s Let_def)
qed

lemma ext2_flush_ok:
  assumes "ready fs pl b m nb ni" "stands_for (4 * groups fs + 514 + r) (fs_io fs) pl" "\<forall>n. mem n"
  shows "\<exists>fs' v. ext2fs_flush mem junk now fs = Some (OK, fs') \<and> same_frame fs fs' \<and> ext2fs_test_bb_dirty fs' = 0 \<and> ext2fs_test_ib_dirty fs' = 0
    \<and> stands_for r (fs_io fs') (pl\<lparr>p_bytes := v\<rparr>) \<and> on_device (stamped now fs) pl b m nb ni v"
proof -
  note rd = readyD[OF assms(1)]
  note s = soundD[OF rd(1)] and f = fitsD[OF rd(2)]
  let ?bs = "unat (fs_blocksize fs)" and ?D = "unat (desc_blocks fs)" and ?f = "unat (s_first_data_block fs)" and ?st = "s_state (fs_super fs)"
  define fs1 where "fs1 = set_state (?st AND NOT 1) (stamped now fs)"
  have fr1: "same_frame fs fs1" unfolding same_frame_def
    by (rule exI[of _ "fs_io fs"], rule exI[of _ "fs_flags fs"], rule exI[of _ "orig_super fs"], rule exI[of _ now], rule exI[of _ "?st AND NOT 1"],
        rule exI[of _ 0]) (simp add: fs1_def set_state_def stamped_def)
  have s1: "sound fs1 pl" using frame_sound[OF fr1 rd(1), of "p_bytes pl"] by simp
  have io1: "fs_io fs1 = fs_io fs" "fs_flags fs1 = fs_flags fs" by (simp_all add: fs1_def set_state_def stamped_def)
  have "stands_for (2 * groups fs1 + (2 * groups fs + 514 + r)) (fs_io fs1) pl" using assms(2) frame_fields(6)[OF fr1] io1 by (simp add: algebra_simps)
  from flush_all_ok[OF s1 this] rd(9) obtain ch1 v1 n1 where
    g: "flush_groups [0..<groups fs] fs1 = Some (OK, with_io fs1 ch1 n1)" "stands_for (2 * groups fs + 514 + r) ch1 (pl\<lparr>p_bytes := v1\<rparr>)"
    "length v1 = length (p_bytes pl)" "part ((?f + 1) * ?bs) (?D * ?bs) v1 = group_bytes_of fs"
    "\<forall>l m. l + m \<le> (?f + 1) * ?bs \<longrightarrow> part l m v1 = part l m (p_bytes pl)"
    unfolding frame_fields[OF fr1] io1 by blast
  define fs2 where "fs2 = set_state ?st (set_group_nr 0 (with_io fs1 ch1 n1))"
  let ?pl1 = "pl\<lparr>p_bytes := v1\<rparr>"
  have fr2: "same_frame fs fs2" unfolding same_frame_def
    by (rule exI[of _ ch1], rule exI[of _ "fs_flags fs"], rule exI[of _ "orig_super fs"], rule exI[of _ now], rule exI[of _ ?st],
        rule exI[of _ 0]) (simp add: fs2_def fs1_def set_state_def stamped_def with_io_def set_group_nr_def)
  have io2: "fs_io fs2 = ch1" "fs_flags fs2 = fs_flags fs" "orig_super fs2 = orig_super fs"
    by (simp_all add: fs2_def fs1_def set_state_def stamped_def with_io_def set_group_nr_def)
  have n: "length (group_desc fs) = groups fs" using f(2) by simp
  have s2: "sound fs2 ?pl1" by (rule frame_sound[OF fr2 rd(1) g(3)])
  have fits2: "fits fs2 b m nb ni" using frame_fits[OF fr2] rd(2) by simp
  have lay2: "laid_out fs2 ?pl1" by (rule frame_laid_out[OF fr2 rd(3) g(3)])
  have beh2: "behind fs2" using rd(4) by (simp add: behind_def frame_fields[OF fr2])
  have "stands_for (2 * length (group_desc fs2) + (514 + r)) (fs_io fs2) ?pl1" using g(2) n frame_fields(5)[OF fr2] io2(1) by (simp add: add.assoc)
  from write_both_ok[OF fits2 lay2 this assms(3)] rd(6,10,11) io2(2) obtain ch2 v2 where
    w: "ext2fs_write_bitmaps mem fs2 = Some (OK, fs2\<lparr>fs_io := ch2, fs_flags := (fs_flags fs AND NOT EXT2_FLAG_BB_DIRTY) AND NOT EXT2_FLAG_IB_DIRTY\<rparr>)"
    "stands_for (514 + r) ch2 (?pl1\<lparr>p_bytes := v2\<rparr>)" "length v2 = length (p_bytes ?pl1)"
    "stored bg_block_bitmap (padded fs2) fs2 ?pl1 nb (bm_bytes b) v2" "stored bg_inode_bitmap (\<lambda>_ _. False) fs2 ?pl1 ni (bm_bytes m) v2"
    "others_kept fs2 ?pl1 (bg_block_bitmap ` set (group_desc fs2) \<union> bg_inode_bitmap ` set (group_desc fs2)) v2"
    unfolding ext2fs_test_bb_dirty_def ext2fs_test_ib_dirty_def by metis
  let ?fl = "(fs_flags fs AND NOT EXT2_FLAG_BB_DIRTY) AND NOT EXT2_FLAG_IB_DIRTY"
  define fs3 where "fs3 = fs2\<lparr>fs_io := ch2, fs_flags := ?fl\<rparr>"
  let ?pl2 = "pl\<lparr>p_bytes := v2\<rparr>"
  have front: "part 0 ((?f + 1 + ?D) * ?bs) v2 = part 0 ((?f + 1 + ?D) * ?bs) v1"
    using front_kept[OF s2 beh2 w(6)] by (simp add: frame_fields[OF fr2])
  have F: "(?f + 1) * ?bs + ?D * ?bs \<le> (?f + 1 + ?D) * ?bs" by (simp add: add_mult_distrib)
  have desc2: "part ((?f + 1) * ?bs) (?D * ?bs) v2 = group_bytes_of fs" using inside_kept[OF front F] g(4) by simp
  have "1024 + 1024 \<le> (?f + 1 + ?D) * ?bs" using F s(11) by linarith
  then have "part 1024 1024 v2 = part 1024 1024 v1" by (rule inside_kept[OF front])
  then have super2: "part 1024 1024 v2 = part 1024 1024 (p_bytes pl)" using g(5) s(11) by simp
  have fr3: "same_frame fs fs3"
    by (rule frame_trans[OF fr2]) (unfold same_frame_def, rule exI[of _ ch2], rule exI[of _ ?fl], rule exI[of _ "orig_super fs2"],
       rule exI[of _ "s_wtime (fs_super fs2)"], rule exI[of _ "s_state (fs_super fs2)"], rule exI[of _ "s_block_group_nr (fs_super fs2)"], simp add: fs3_def)
  have s3: "sound fs3 ?pl2" by (rule frame_sound[OF fr3 rd(1)]) (use w(3) g(3) in simp)
  have sint: "p_bs pl = sint (fs_blocksize fs3)" using s(6,9) frame_fields(1)[OF fr3] by (simp add: sint_unat_small)
  have size: "0 < p_bs pl" "p_bs pl < 2147483648"
  proof -
    have "p_bs pl = int ?bs" unfolding s(6) by (rule uint_nat)
    moreover have "?bs < 2147483648" using s(9) by simp
    ultimately show "0 < p_bs pl" "p_bs pl < 2147483648" using s(8) by linarith+
  qed
  have two: "2048 \<le> length (p_bytes ?pl2)"
  proof -
    have "(?f + 1) * ?bs \<le> (?f + 1 + ?D) * ?bs" by (rule mult_le_mono1) simp
    also have "\<dots> \<le> unat (s_blocks_count fs) * ?bs" by (rule mult_le_mono1) (rule front_fits[OF rd(1)])
    finally show ?thesis using s(10,11) w(3) g(3) by simp
  qed
  have "\<exists>ch v. flush_primary mem junk fs3 = Some (OK, fs3\<lparr>fs_io := ch, orig_super := map_option (\<lambda>_. super_bytes fs3) (orig_super fs3),
        fs_flags := fs_flags fs3 AND NOT EXT2_FLAG_DIRTY\<rparr>)
    \<and> stands_for r ch (?pl2\<lparr>p_bytes := v\<rparr>) \<and> part 1024 1024 v = super_bytes fs3 \<and> rest_kept 1024 2048 (p_bytes ?pl2) v"
  proof (rule flush_primary_ok)
    show "stands_for (514 + r) (fs_io fs3) ?pl2" using w(2) by (simp add: fs3_def)
    show "super_ok fs3" by (rule soundD(4)[OF s3])
    show "p_bs ?pl2 = sint (fs_blocksize fs3)" using sint by simp
    show "0 < p_bs ?pl2" "p_bs ?pl2 < 2147483648" using size by simp_all
    show "\<forall>old. orig_super fs3 = Some old \<longrightarrow> old = part 1024 1024 (p_bytes ?pl2)" using rd(12) super2 io2(3) by (simp add: fs3_def)
  qed (use two s(7) assms(3) in simp_all)
  then obtain ch v where p: "flush_primary mem junk fs3 = Some (OK, fs3\<lparr>fs_io := ch, orig_super := map_option (\<lambda>_. super_bytes fs3) (orig_super fs3),
        fs_flags := fs_flags fs3 AND NOT EXT2_FLAG_DIRTY\<rparr>)"
    "stands_for r ch (pl\<lparr>p_bytes := v\<rparr>)" "part 1024 1024 v = super_bytes fs3" "rest_kept 1024 2048 v2 v" by auto
  define fs4 where "fs4 = set_state ?st (fs3\<lparr>fs_io := ch, orig_super := map_option (\<lambda>_. super_bytes fs3) (orig_super fs3),
        fs_flags := fs_flags fs3 AND NOT EXT2_FLAG_DIRTY\<rparr>)"
  have "ext2fs_flush mem junk now fs = Some (OK, fs4)"
    unfolding fs4_def by (rule flush_stages[OF f(1) rd(8,5) g(1)[unfolded fs1_def] w(1)[folded fs3_def, unfolded fs2_def fs1_def] p(1)])
  moreover have "same_frame fs fs4"
    by (rule frame_trans[OF fr3]) (unfold same_frame_def, rule exI[of _ ch], rule exI[of _ "fs_flags fs3 AND NOT EXT2_FLAG_DIRTY"],
       rule exI[of _ "map_option (\<lambda>_. super_bytes fs3) (orig_super fs3)"],
       rule exI[of _ "s_wtime (fs_super fs3)"], rule exI[of _ ?st], rule exI[of _ "s_block_group_nr (fs_super fs3)"], simp add: fs4_def set_state_def)
  moreover have "ext2fs_test_bb_dirty fs4 = 0" "ext2fs_test_ib_dirty fs4 = 0"
    by (simp_all add: fs4_def fs3_def ext2fs_test_bb_dirty_def ext2fs_test_ib_dirty_def set_state_def and.assoc EXT2_FLAG_BB_DIRTY_def EXT2_FLAG_IB_DIRTY_def
        EXT2_FLAG_DIRTY_def)
  moreover have "stands_for r (fs_io fs4) (pl\<lparr>p_bytes := v\<rparr>)" using p(2) by (simp add: fs4_def set_state_def)
  moreover have "on_device (stamped now fs) pl b m nb ni v"
  proof -
    have eq: "super_bytes fs3 = super_bytes (stamped now fs)"
      by (simp add: super_bytes_def Let_def fs3_def fs2_def fs1_def set_state_def stamped_def with_io_def set_group_nr_def)
    have fr: "same_frame fs (stamped now fs)" unfolding same_frame_def
      by (rule exI[of _ "fs_io fs"], rule exI[of _ "fs_flags fs"], rule exI[of _ "orig_super fs"], rule exI[of _ now], rule exI[of _ ?st],
        rule exI[of _ 0]) (simp add: stamped_def)
    have len: "length v2 = length (p_bytes pl)" "length v = length (p_bytes pl)" using w(3) g(3) p(4) by (simp_all add: rest_kept_def)
    have lay: "placed bg_block_bitmap fs pl" "placed bg_inode_bitmap fs pl" using rd(3) by (simp_all add: laid_out_def)
    have at: "blk_at ?pl1 = blk_at pl" by (simp add: blk_at_def plain_at_def fun_eq_iff)
    have st: "stored bg_block_bitmap (padded fs) fs pl nb (bm_bytes b) v2" "stored bg_inode_bitmap (\<lambda>_ _. False) fs pl ni (bm_bytes m) v2"
      using w(4,5) at by (simp_all add: stored_def frame_fields[OF fr2])
    have "stored bg_block_bitmap (padded fs) fs pl nb (bm_bytes b) v"
      by (rule bitmap_kept[OF rd(1) lay(1) f(4) p(4) len(1) _ st(1)]) (use rd(4) in \<open>simp add: behind_def\<close>)
    moreover have "stored bg_inode_bitmap (\<lambda>_ _. False) fs pl ni (bm_bytes m) v"
      by (rule bitmap_kept[OF rd(1) lay(2) f(6) p(4) len(1) _ st(2)]) (use rd(4) in \<open>simp add: behind_def\<close>)
    moreover have "part ((?f + 1) * ?bs) (?D * ?bs) v = group_bytes_of fs"
    proof -
      have "(?f + 1 + ?D) * ?bs \<le> unat (s_blocks_count fs) * ?bs" by (rule mult_le_mono1) (rule front_fits[OF rd(1)])
      then have "(?f + 1) * ?bs + ?D * ?bs \<le> length v" using F s(10) len(2) by linarith
      then have "part ((?f + 1) * ?bs) (?D * ?bs) v = part ((?f + 1) * ?bs) (?D * ?bs) v2"
        using p(4) s(11) unfolding rest_kept_def by blast
      then show ?thesis using desc2 by simp
    qed
    ultimately show ?thesis using p(3) eq len(2) by (simp add: on_device_def stored_def frame_fields[OF fr])
  qed
  ultimately show ?thesis by blast
qed


lemma ext2_close_ok:
  assumes "ready fs pl b m nb ni" "stands_for (4 * groups fs + 514) (fs_io fs) pl" "\<forall>n. mem n"
  shows "\<exists>d. ext2fs_close mem junk now fs = Some (Inr d) \<and> on_device (stamped now fs) pl b m nb ni (dev_bytes d)"
proof -
  note rd = readyD[OF assms(1)]
  have sf: "stands_for (4 * groups fs + 514 + 0) (fs_io fs) pl" using assms(2) by simp
  obtain fs' v where f: "ext2fs_flush mem junk now fs = Some (OK, fs')" "same_frame fs fs'" "ext2fs_test_bb_dirty fs' = 0" "ext2fs_test_ib_dirty fs' = 0"
    "stands_for 0 (fs_io fs') (pl\<lparr>p_bytes := v\<rparr>)" "on_device (stamped now fs) pl b m nb ni v"
    using ext2_flush_ok[OF assms(1) sf assms(3)] by blast
  have m: "fs_magic fs = EXT2_ET_MAGIC_EXT2FS_FILSYS" "fs_magic fs' = EXT2_ET_MAGIC_EXT2FS_FILSYS"
    using fitsD(1)[OF rd(2)] frame_fields(10)[OF f(2)] by simp_all
  then have w: "ext2fs_write_bitmaps mem fs' = Some (OK, fs')" using f(3,4) by (simp add: ext2fs_write_bitmaps_def)
  obtain d where d: "unix_close (fs_io fs') = Some (OK, None, d)" "dev_bytes d = v" using close_ok[OF f(5)] by auto
  have "ext2fs_free fs' = Some d" using m(2) d(1) by (simp add: ext2fs_free_def)
  then have "ext2fs_close mem junk now fs = Some (Inr d)" using m(1) rd(7) f(1) w by (simp add: ext2fs_close_def)
  then show ?thesis using f(6) d(2) by blast
qed

subsection \<open>Opening\<close>

definition openable :: "ext2_fs \<Rightarrow> u32 \<Rightarrow> bool" where
  \<comment> \<open>The fields that are computed from the superblock agree with it, and the library supports its features.\<close>
  "openable fs flags \<longleftrightarrow> features_ok fs flags = OK \<and> set_sizes fs = Some fs \<and> groups_corrupt fs = Some False \<and> count_groups fs = Some fs
     \<and> flags AND EXT2_FLAG_IMAGE_FILE = 0"

definition reopened :: "ext2_fs \<Rightarrow> string \<Rightarrow> u32 \<Rightarrow> io_channel \<Rightarrow> ext2_fs" where
  \<comment> \<open>The same superblock, descriptors and sizes; the rest of the record is new.\<close>
  "reopened fs name flags ch = fs\<lparr>fs_magic := EXT2_ET_MAGIC_EXT2FS_FILSYS, inode_map := None, block_map := None, fs_io := ch, fs_flags := flags,
     fs_device_name := name, fs_stride := 0, fs_umask := 18, image_header := load_image_hdr (replicate 332 0), image_io := ch,
     orig_super := Some (super_bytes fs)\<rparr>"

lemma blk_at_plain:
  assumes "p_bs pl = uint bs" "p_off pl = 0" "p < 2 ^ 32"
  shows "blk_at pl (of_nat p) = p * unat bs"
proof -
  have "unat (ucast (of_nat p :: u32) :: u64) = p" using unat_small[OF assms(3)] by (simp only: unat_ucast_up)
  then show ?thesis using assms(1,2) by (simp only: blk_at_eq extent_def) simp
qed

lemma read_desc_blocks_ok:
  assumes "\<not> has_meta_bg fs" "p_bs pl = uint (fs_blocksize fs)" "p_off pl = 0" "unat (fs_blocksize fs) < 2 ^ 31"
    and "stands_for (D - k + r) (fs_io fs) pl" "(unat g + 1 + D) * unat (fs_blocksize fs) \<le> length (p_bytes pl)" "unat g + 1 + D < 2 ^ 32" "k \<le> D"
  shows "\<exists>ch. read_desc_blocks junk [k..<D] g fs
      = Some (OK, part ((unat g + 1 + k) * unat (fs_blocksize fs)) ((D - k) * unat (fs_blocksize fs)) (p_bytes pl), fs\<lparr>fs_io := ch\<rparr>)
    \<and> stands_for r ch pl"
  using assms
proof (induction "D - k" arbitrary: k fs)
  case 0
  then show ?case by (intro exI[of _ "fs_io fs"]) (simp add: part_def)
next
  case (Suc d)
  note prems = Suc.prems
  let ?bs = "unat (fs_blocksize fs)" and ?p = "unat g + 1 + k"
  have k: "k < D" using Suc.hyps(2) by simp
  have kk: "[k..<D] = k # [Suc k..<D]" using k by (simp add: upt_rec)
  have p: "?p < 2 ^ 32" using prems(7) k by linarith
  have blk: "g + of_nat k + 1 = of_nat ?p" by simp
  have loc: "ext2fs_descriptor_block_loc fs g (of_nat k) = Some (of_nat ?p)" using prems(1) by (simp add: ext2fs_descriptor_block_loc_def)
  have at: "plain_at pl (ucast (of_nat ?p :: u32)) = ?p * ?bs" using blk_at_plain[OF prems(2,3) p] by (simp add: blk_at_def)
  have size: "plain_size pl 1 = int ?bs" using prems(2) by (simp add: plain_size_def)
  have "Suc ?p * ?bs \<le> (unat g + 1 + D) * ?bs" by (rule mult_le_mono1) (use k in simp)
  then have room: "?p * ?bs + ?bs \<le> length (p_bytes pl)" using prems(6) by simp
  have "may (\<lambda>_. True) (Read (ucast (of_nat ?p :: u32)) 1) pl"
  proof -
    have "?bs < 2147483648" using prems(4) by simp
    then have "int ?bs < 2147483648" by linarith
    then show ?thesis unfolding may.simps at size using room by (simp only: nat_int)
  qed
  note may = this
  have sf: "stands_for (Suc (D - Suc k + r)) (fs_io fs) pl"
  proof -
    have "D - k + r = Suc (D - Suc k + r)" using k by simp
    then show ?thesis using prems(5) by simp
  qed
  from read_ok[OF sf may] obtain ch where r: "unix_read_blk (fs_io fs) (ucast (of_nat ?p :: u32)) 1 = Some (OK, part (?p * ?bs) ?bs (p_bytes pl), ch)"
    "stands_for (D - Suc k + r) ch pl" unfolding at size nat_int by blast
  have "\<exists>ch'. read_desc_blocks junk [Suc k..<D] g (fs\<lparr>fs_io := ch\<rparr>)
      = Some (OK, part ((unat g + 1 + Suc k) * unat (fs_blocksize (fs\<lparr>fs_io := ch\<rparr>))) ((D - Suc k) * unat (fs_blocksize (fs\<lparr>fs_io := ch\<rparr>))) (p_bytes pl),
          (fs\<lparr>fs_io := ch\<rparr>)\<lparr>fs_io := ch'\<rparr>) \<and> stands_for r ch' pl"
    by (rule Suc.hyps(1)) (use prems r(2) k Suc.hyps(2) in \<open>simp_all add: has_meta_bg_def\<close>)
  then obtain ch' where rest: "read_desc_blocks junk [Suc k..<D] g (fs\<lparr>fs_io := ch\<rparr>)
      = Some (OK, part ((?p + 1) * ?bs) ((D - Suc k) * ?bs) (p_bytes pl), fs\<lparr>fs_io := ch'\<rparr>)" "stands_for r ch' pl" by auto
  have len: "length (part (?p * ?bs) ?bs (p_bytes pl)) = ?bs" using room by simp
  have "(D - k) * ?bs = ?bs + (D - Suc k) * ?bs" using k by (simp add: Suc_diff_Suc flip: mult_Suc)
  then have "part (?p * ?bs) ?bs (p_bytes pl) @ part ((?p + 1) * ?bs) ((D - Suc k) * ?bs) (p_bytes pl)
      = part (?p * ?bs) ((D - k) * ?bs) (p_bytes pl)"
    using part_add[of "?p * ?bs" ?bs "(D - Suc k) * ?bs" "p_bytes pl"] by (simp add: add_mult_distrib ac_simps)
  moreover have "ext2fs_resize_mem junk ?bs (part (?p * ?bs) ?bs (p_bytes pl)) = part (?p * ?bs) ?bs (p_bytes pl)"
    using len by (simp add: ext2fs_resize_mem_def)
  ultimately have "read_desc_blocks junk [k..<D] g fs = Some (OK, part (?p * ?bs) ((D - k) * ?bs) (p_bytes pl), fs\<lparr>fs_io := ch'\<rparr>)"
    unfolding kk read_desc_blocks.simps loc using r(1) rest(1) len by (simp del: of_nat_add of_nat_Suc)
  then show ?case using rest(2) by blast
qed


lemma unix_open_some:
  assumes "\<forall>n. mem n" "\<And>s rw. open_dev s rw = Inr d"
  shows "\<exists>ch. unix_open mem junk open_dev (Some name) flags = Inr ch"
  using assms by (simp add: unix_open_def alloc_cache_def ext2fs_get_mem_def Let_def)

lemma read_super_ok:
  assumes "stands_for (2 + r) io \<lparr>p_bs = 1024, p_off = 0, p_bytes = v\<rparr>" "\<forall>n. mem n" "2048 \<le> length v"
  shows "\<exists>ch. read_super mem junk 0 0 (raw_fs name flags io)
      = Some (Inr (0, (load_super (part 1024 1024 v) (raw_fs name flags io))\<lparr>fs_io := ch, image_io := ch, orig_super := Some (part 1024 1024 v)\<rparr>))
    \<and> stands_for r ch \<lparr>p_bs = 1024, p_off = 0, p_bytes = v\<rparr>"
proof -
  let ?pl = "\<lparr>p_bs = 1024, p_off = 0, p_bytes = v\<rparr>"
  have "stands_for (Suc (Suc r)) io ?pl" using assms(1) by simp
  from set_blksize_ok[OF this, of mem 1024 junk] assms(2) obtain ch1 where 1: "unix_set_blksize mem junk io 1024 = Some (OK, ch1)"
    "stands_for (Suc r) ch1 ?pl" by auto
  have at: "plain_at ?pl 1 = 1024" "plain_size ?pl (- 1024) = 1024" by (simp_all add: plain_at_def extent_def plain_size_def)
  have "may mem (Read 1 (- 1024)) ?pl" using at assms(3) by simp
  from read_ok[OF 1(2) this] at obtain ch2 where "unix_read_blk ch1 1 (- 1024) = Some (OK, part 1024 1024 v, ch2)" "stands_for r ch2 ?pl" by auto
  moreover have "fs_io (raw_fs name flags io) = io" by (simp add: raw_fs_def)
  ultimately show ?thesis using 1(1) assms(2) by (intro exI[of _ ch2]) (simp add: read_super_def ext2fs_get_mem_def)
qed

lemma set_sizesD:
  assumes "set_sizes fs = Some fs"
  shows "EXT2_BLOCK_SIZE (s_log_block_size (fs_super fs)) = Some (fs_blocksize fs)" "EXT2_FRAG_SIZE (s_log_frag_size (fs_super fs)) = Some (fs_fragsize fs)"
    "inode_blocks_per_group fs = table_blocks fs (s_inodes_per_group fs)"
proof -
  obtain bs frag where b: "EXT2_BLOCK_SIZE (s_log_block_size (fs_super fs)) = Some bs" "EXT2_FRAG_SIZE (s_log_frag_size (fs_super fs)) = Some frag"
    and eq: "fs\<lparr>fs_blocksize := bs, fs_fragsize := frag, inode_blocks_per_group := table_blocks (fs\<lparr>fs_blocksize := bs, fs_fragsize := frag\<rparr>) (s_inodes_per_group fs)\<rparr> = fs"
    using assms by (auto simp: set_sizes_def Let_def bind_eq_Some_conv)
  have "bs = fs_blocksize fs" "frag = fs_fragsize fs" using arg_cong[OF eq, of fs_blocksize] arg_cong[OF eq, of fs_fragsize] by simp_all
  moreover from this have "inode_blocks_per_group fs = table_blocks fs (s_inodes_per_group fs)"
    using arg_cong[OF eq, of inode_blocks_per_group] by simp
  ultimately show "EXT2_BLOCK_SIZE (s_log_block_size (fs_super fs)) = Some (fs_blocksize fs)" "EXT2_FRAG_SIZE (s_log_frag_size (fs_super fs)) = Some (fs_fragsize fs)"
    "inode_blocks_per_group fs = table_blocks fs (s_inodes_per_group fs)" using b by simp_all
qed

lemma count_groupsD:
  assumes "count_groups fs = Some fs"
  shows "fs_blocksize fs div 32 \<noteq> 0"
    "(s_blocks_count fs - s_first_data_block fs + s_blocks_per_group fs - 1) div s_blocks_per_group fs = group_desc_count fs"
    "(ucast (group_desc_count fs) + ucast (fs_blocksize fs) div 32 - 1) div (ucast (fs_blocksize fs) div 32) = desc_blocks fs"
proof -
  let ?n = "(s_blocks_count fs - s_first_data_block fs + s_blocks_per_group fs - 1) div s_blocks_per_group fs"
  let ?d = "(ucast ?n + ucast (fs_blocksize fs) div 32 - 1) div (ucast (fs_blocksize fs) div 32)"
  have eq: "fs_blocksize fs div 32 \<noteq> 0" "fs\<lparr>group_desc_count := ?n, desc_blocks := ?d\<rparr> = fs"
    using assms by (auto simp: count_groups_def Let_def split: if_splits)
  show "fs_blocksize fs div 32 \<noteq> 0" by (rule eq(1))
  show n: "?n = group_desc_count fs" using arg_cong[OF eq(2), of group_desc_count] by simp
  show "(ucast (group_desc_count fs) + ucast (fs_blocksize fs) div 32 - 1) div (ucast (fs_blocksize fs) div 32) = desc_blocks fs"
    using arg_cong[OF eq(2), of desc_blocks] unfolding n by simp
qed

definition half_open :: "ext2_fs \<Rightarrow> string \<Rightarrow> u32 \<Rightarrow> io_channel \<Rightarrow> ext2_fs" where
  \<comment> \<open>Before the groups are counted.\<close>
  "half_open fs name flags ch = (reopened fs name flags ch)\<lparr>group_desc_count := 0, desc_blocks := 0, group_desc := [], desc_rest := []\<rparr>"

lemma half_open_super:
  assumes "super_ok fs" "set_sizes fs = Some fs"
  shows "set_sizes ((load_super (super_bytes fs) (raw_fs name flags io))\<lparr>fs_io := ch, image_io := ch, orig_super := Some (super_bytes fs)\<rparr>)
    = Some (half_open fs name flags ch)"
    "features_ok ((load_super (super_bytes fs) (raw_fs name flags io))\<lparr>fs_io := ch, image_io := ch, orig_super := Some (super_bytes fs)\<rparr>) flags
      = features_ok fs flags"
proof -
  note z = set_sizesD[OF assms(2)]
  show "set_sizes ((load_super (super_bytes fs) (raw_fs name flags io))\<lparr>fs_io := ch, image_io := ch, orig_super := Some (super_bytes fs)\<rparr>)
    = Some (half_open fs name flags ch)"
    unfolding load_super_bytes[OF assms(1)] raw_fs_def set_sizes_def half_open_def reopened_def
    using z by (cases fs) (simp add: Let_def table_blocks_def EXT2_INODE_SIZE_def cong: if_cong)
  show "features_ok ((load_super (super_bytes fs) (raw_fs name flags io))\<lparr>fs_io := ch, image_io := ch, orig_super := Some (super_bytes fs)\<rparr>) flags
      = features_ok fs flags"
    unfolding load_super_bytes[OF assms(1)] by (simp add: features_ok_def JOURNAL_DEV_def)
qed


lemma half_open_fields:
  "fs_io (half_open fs name flags ch) = ch" "fs_blocksize (half_open fs name flags ch) = fs_blocksize fs"
  "JOURNAL_DEV (half_open fs name flags ch) = JOURNAL_DEV fs" "groups_corrupt (half_open fs name flags ch) = groups_corrupt fs"
  by (simp_all add: half_open_def reopened_def JOURNAL_DEV_def groups_corrupt_def EXT2_INODE_SIZE_def EXT2_MAX_INODES_PER_GROUP_def cong: if_cong)

lemma half_open_count:
  assumes "count_groups fs = Some fs"
  shows "count_groups (half_open fs name flags ch)
    = Some ((reopened fs name flags ch)\<lparr>group_desc := [], desc_rest := []\<rparr>)"
  using count_groupsD[OF assms] by (cases fs) (simp add: half_open_def reopened_def count_groups_def Let_def super_bytes_def)

lemma read_groups_ok:
  assumes "openable fs flags" "sound fs pl" "stands_for (unat (desc_blocks fs) + r) ch pl" "\<forall>n. mem n"
    and "part ((unat (s_first_data_block fs) + 1) * unat (fs_blocksize fs)) (unat (desc_blocks fs) * unat (fs_blocksize fs)) (p_bytes pl)
      = group_bytes_of fs"
  shows "\<exists>ch'. read_groups mem junk 0 (half_open fs name flags ch) = Some (Inr (reopened fs name flags ch')) \<and> stands_for r ch' pl"
proof -
  note s = soundD[OF assms(2)]
  let ?D = "unat (desc_blocks fs)" and ?f = "s_first_data_block fs"
  let ?fs = "(reopened fs name flags ch)\<lparr>group_desc := [], desc_rest := []\<rparr>"
  have o: "groups_corrupt fs = Some False" "count_groups fs = Some fs" using assms(1) by (simp_all add: openable_def)
  have fits: "unat ?f + 1 + ?D \<le> unat (s_blocks_count fs)" by (rule front_fits[OF assms(2)])
  then have "(unat ?f + 1 + ?D) * unat (fs_blocksize fs) \<le> unat (s_blocks_count fs) * unat (fs_blocksize fs)" by (rule mult_le_mono1)
  then have room: "(unat ?f + 1 + ?D) * unat (fs_blocksize fs) \<le> length (p_bytes pl)" using s(10) by linarith
  have small: "unat ?f + 1 + ?D < 2 ^ 32" using fits unsigned_less[of "s_blocks_count fs", where 'a = nat] by simp
  have "\<exists>ch'. read_desc_blocks junk [0..<?D] ?f ?fs
      = Some (OK, part ((unat ?f + 1 + 0) * unat (fs_blocksize ?fs)) ((?D - 0) * unat (fs_blocksize ?fs)) (p_bytes pl), ?fs\<lparr>fs_io := ch'\<rparr>)
    \<and> stands_for r ch' pl"
    by (rule read_desc_blocks_ok) (use s(3,6,7,9) assms(3) room small in \<open>simp_all add: reopened_def has_meta_bg_def\<close>)
  then obtain ch' where r: "read_desc_blocks junk [0..<?D] ?f ?fs = Some (OK, group_bytes_of fs, ?fs\<lparr>fs_io := ch'\<rparr>)" "stands_for r ch' pl"
    using assms(5) by (auto simp: reopened_def)
  have "group_desc_count (?fs\<lparr>fs_io := ch'\<rparr>) = group_desc_count fs" by (simp add: reopened_def)
  from load_group_bytes[OF s(5) this]
  have "(load_groups (group_bytes_of fs) (?fs\<lparr>fs_io := ch'\<rparr>))\<lparr>image_io := ch'\<rparr> = reopened fs name flags ch'"
    by (cases fs) (simp add: reopened_def super_bytes_def Let_def)
  moreover have "desc_blocks ?fs = desc_blocks fs" "s_first_data_block ?fs = ?f" "fs_io (load_groups xs (?fs\<lparr>fs_io := ch'\<rparr>)) = ch'" for xs
    by (simp_all add: reopened_def load_groups_def Let_def)
  ultimately have "read_groups mem junk 0 (half_open fs name flags ch) = Some (Inr (reopened fs name flags ch'))"
    using r(1) assms(4) by (simp add: read_groups_def half_open_fields o half_open_count[OF o(2)] ext2fs_get_mem_def Let_def)
  then show ?thesis using r(2) by blast
qed

lemma open_ok:
  assumes "openable fs flags" "sound fs pl" "\<not> JOURNAL_DEV fs" "\<forall>n. mem n" "\<And>s rw. open_dev s rw = Inr d" "\<And>p. \<not> dev_bad d p"
    and "CHR ''?'' \<notin> set name" "on_device fs pl b m nb ni (dev_bytes d)" "length (dev_bytes d) < 2 ^ 63" "8 * (unat (desc_blocks fs) + 3 + r) < 2147483648"
  shows "\<exists>ch. ext2fs_open2 mem junk open_dev name None flags 0 0 = Some (Inr (reopened fs name flags ch))
    \<and> stands_for r ch (pl\<lparr>p_bytes := dev_bytes d\<rparr>)"
proof -
  note s = soundD[OF assms(2)]
  let ?v = "dev_bytes d" and ?D = "unat (desc_blocks fs)" and ?pl = "\<lparr>p_bs = 1024, p_off = 0, p_bytes = dev_bytes d\<rparr>"
  have v: "length ?v = length (p_bytes pl)" "part 1024 1024 ?v = super_bytes fs"
    "part ((unat (s_first_data_block fs) + 1) * unat (fs_blocksize fs)) (?D * unat (fs_blocksize fs)) ?v = group_bytes_of fs"
    using assms(8) by (simp_all add: on_device_def)
  have o: "features_ok fs flags = OK" "set_sizes fs = Some fs" "flags AND EXT2_FLAG_IMAGE_FILE = 0" using assms(1) by (simp_all add: openable_def)
  let ?rw = "if flags AND EXT2_FLAG_RW \<noteq> 0 then 1 else 0 :: u32"
  obtain io where io: "unix_open mem junk open_dev (Some name) ?rw = Inr io" using unix_open_some[of mem open_dev d junk name] assms(4,5) by blast
  have "stands_for (?D + 3 + r) io ?pl" by (rule opened[OF io assms(5)]) (use assms(6,9,10) in simp_all)
  then have sf: "stands_for (2 + (?D + 1 + r)) io ?pl" by (rule stands_for_le) simp
  have cut: "strchr_cut (CHR ''?'') name = (name, None)"
  proof -
    have "takeWhile (\<lambda>d. d \<noteq> CHR ''?'') name = name" using assms(7) by (auto simp: takeWhile_eq_all_conv)
    then show ?thesis unfolding strchr_cut_def Let_def by (simp only: less_irrefl if_False)
  qed
  have ch: "open_channel mem junk open_dev name None flags = Inr (raw_fs name flags io)"
    using assms(4) io by (simp add: open_channel_def cut ext2fs_get_mem_def)
  have "2048 \<le> length ?v"
  proof -
    have "(unat (s_first_data_block fs) + 1) * unat (fs_blocksize fs) \<le> unat (s_blocks_count fs) * unat (fs_blocksize fs)"
      by (rule mult_le_mono1) (use front_fits[OF assms(2)] in linarith)
    then show ?thesis using s(10,11) v(1) by linarith
  qed
  from read_super_ok[OF sf assms(4) this, of junk name flags] obtain ch1 where
    1: "read_super mem junk 0 0 (raw_fs name flags io)
      = Some (Inr (0, (load_super (super_bytes fs) (raw_fs name flags io))\<lparr>fs_io := ch1, image_io := ch1, orig_super := Some (super_bytes fs)\<rparr>))"
    "stands_for (Suc (?D + r)) ch1 ?pl" unfolding v(2) by auto
  have bs: "sint (fs_blocksize fs) = uint (fs_blocksize fs)" using s(9) by (simp add: sint_unat_small)
  have "may mem (Set_size (sint (fs_blocksize fs))) ?pl"
  proof -
    have "unat (fs_blocksize fs) < 2147483648" using s(9) by simp
    then have "0 < int (unat (fs_blocksize fs))" "int (unat (fs_blocksize fs)) < 2147483648" using s(8) by linarith+
    then show ?thesis unfolding bs uint_nat may.simps using assms(4) by blast
  qed
  from set_blksize_ok[OF 1(2) this, of junk] obtain ch2 where 2: "unix_set_blksize mem junk ch1 (sint (fs_blocksize fs)) = Some (OK, ch2)"
    "stands_for (?D + r) ch2 (?pl\<lparr>p_bs := uint (fs_blocksize fs)\<rparr>)" unfolding bs by blast
  have pl: "?pl\<lparr>p_bs := uint (fs_blocksize fs)\<rparr> = pl\<lparr>p_bytes := ?v\<rparr>" using s(6,7) by (cases pl) simp
  have s': "sound fs (pl\<lparr>p_bytes := ?v\<rparr>)"
    using assms(2) v(1) by (simp add: sound_def)
  have "stands_for (?D + r) ch2 (pl\<lparr>p_bytes := ?v\<rparr>)" using 2(2) pl by simp
  from read_groups_ok[OF assms(1) s' this assms(4), of junk name] v(3) obtain ch3 where
    3: "read_groups mem junk 0 (half_open fs name flags ch2) = Some (Inr (reopened fs name flags ch3))" "stands_for r ch3 (pl\<lparr>p_bytes := ?v\<rparr>)"
    by auto
  have "(half_open fs name flags ch1)\<lparr>fs_io := ch2, image_io := ch2\<rparr> = half_open fs name flags ch2"
    by (cases fs) (simp add: half_open_def reopened_def super_bytes_def Let_def)
  then have "open_with mem junk flags 0 0 (raw_fs name flags io) = Some (Inr (reopened fs name flags ch3))"
    using 1(1) 2(1) 3(1) assms(3) o(1)
    by (simp add: open_with_def half_open_super[OF s(4) o(2)] half_open_fields Let_def)
  then show ?thesis using ch o(3) 3(2) by (intro exI[of _ ch3]) (simp add: ext2fs_open2_def)
qed


lemma openable_stamped:
  assumes "openable fs flags"
  shows "openable (stamped now fs) flags"
proof -
  have o: "features_ok fs flags = OK" "set_sizes fs = Some fs" "groups_corrupt fs = Some False" "count_groups fs = Some fs"
    "flags AND EXT2_FLAG_IMAGE_FILE = 0" using assms by (simp_all add: openable_def)
  have "set_sizes (stamped now fs) = Some (stamped now fs)"
    using set_sizesD[OF o(2)] by (cases fs) (simp add: set_sizes_def stamped_def Let_def table_blocks_def EXT2_INODE_SIZE_def cong: if_cong)
  moreover have "count_groups (stamped now fs) = Some (stamped now fs)"
    using count_groupsD[OF o(4)] by (cases fs) (simp add: count_groups_def stamped_def Let_def)
  moreover have "features_ok (stamped now fs) flags = features_ok fs flags" by (simp add: features_ok_def stamped_def JOURNAL_DEV_def)
  moreover have "groups_corrupt (stamped now fs) = Some False" using o(3)
    by (simp add: groups_corrupt_def stamped_def EXT2_MAX_INODES_PER_GROUP_def EXT2_INODE_SIZE_def cong: if_cong)
  ultimately show ?thesis using o(1,5) by (simp add: openable_def)
qed

lemma stamped_frame: "same_frame fs (stamped now fs)"
  unfolding same_frame_def
  by (rule exI[of _ "fs_io fs"], rule exI[of _ "fs_flags fs"], rule exI[of _ "orig_super fs"], rule exI[of _ now],
      rule exI[of _ "s_state (fs_super fs)"], rule exI[of _ 0]) (simp add: stamped_def)

lemma read_reopened:
  assumes "fits fs b m nb ni" "laid_out fs pl" "on_device fs pl b m nb ni v" "stands_for (2 * groups fs) ch (pl\<lparr>p_bytes := v\<rparr>)"
    and "\<forall>n. mem n" "flags AND EXT2_FLAG_IMAGE_FILE = 0"
  shows "\<exists>fs' b' m'. ext2fs_read_bitmaps mem (reopened fs name flags ch) = Some (OK, fs')
    \<and> block_map fs' = Some b' \<and> bm_set b' = bm_set b \<and> inode_map fs' = Some m' \<and> bm_set m' = bm_set m"
proof -
  define fs0 where "fs0 = (reopened fs name flags ch)\<lparr>block_map := Some b, inode_map := Some m\<rparr>"
  let ?pl = "pl\<lparr>p_bytes := v\<rparr>"
  note f = fitsD[OF assms(1)]
  have same: "group_desc fs0 = group_desc fs" "fs_blocksize fs0 = fs_blocksize fs" "padded fs0 = padded fs"
    by (simp_all add: fs0_def reopened_def padded_def fun_eq_iff)
  have fit: "fits fs0 b m nb ni" using assms(1) by (simp add: fits_def fs0_def reopened_def)
  have at: "blk_at ?pl = blk_at pl" by (simp add: blk_at_def plain_at_def fun_eq_iff)
  have v: "length v = length (p_bytes pl)" "stored bg_block_bitmap (padded fs) fs pl nb (bm_bytes b) v"
    "stored bg_inode_bitmap (\<lambda>_ _. False) fs pl ni (bm_bytes m) v" using assms(3) by (simp_all add: on_device_def)
  have lay: "laid_out fs0 ?pl" using assms(2) v(1) at by (simp add: laid_out_def placed_def apart_def same)
  have st: "stored bg_block_bitmap (padded fs0) fs0 ?pl nb (bm_bytes b) (p_bytes ?pl)"
    "stored bg_inode_bitmap (\<lambda>_ _. False) fs0 ?pl ni (bm_bytes m) (p_bytes ?pl)" using v(2,3) at by (simp_all add: stored_def same)
  have sf: "stands_for (2 * length (group_desc fs0) + 0) ch ?pl" using assms(4) f(2) by (simp add: same)
  have "fs0\<lparr>fs_io := ch, fs_flags := flags, block_map := None, inode_map := None\<rparr> = reopened fs name flags ch"
    by (cases fs) (simp add: fs0_def reopened_def super_bytes_def Let_def)
  then show ?thesis using read_both_ok[OF fit lay sf assms(5,6) st] by fastforce
qed

subsection \<open>Properties\<close>



definition tiny_device :: device where
  "tiny_device = \<lparr>dev_bytes = replicate 17408 0, dev_bad = \<lambda>_. False\<rparr>"

definition tiny_channel :: io_channel where
  "tiny_channel = projr (unix_open (\<lambda>_. True) (\<lambda>_. 0) (\<lambda>_ _. Inr tiny_device) (Some ''d'') 1)"

definition tiny_desc :: "u32 \<Rightarrow> ext2_group_desc" where
  "tiny_desc p = \<lparr>bg_block_bitmap = p, bg_inode_bitmap = p + 1, bg_inode_table = p + 2,
     bg_free_blocks_count = 3, bg_free_inodes_count = 6, bg_used_dirs_count = 0, bg_unused = replicate 14 0\<rparr>"

definition tiny_block_map :: bitmap where
  "tiny_block_map = \<lparr>bm_magic = EXT2_ET_MAGIC_BLOCK_BITMAP, bm_start = 1, bm_end = 16, bm_real_end = 16,
     bm_description = None, bm_bytes = [31, 31], bm_error = EXT2_ET_BAD_BLOCK_MARK\<rparr>"

definition tiny_inode_map :: bitmap where
  "tiny_inode_map = \<lparr>bm_magic = EXT2_ET_MAGIC_INODE_BITMAP, bm_start = 1, bm_end = 16, bm_real_end = 16,
     bm_description = None, bm_bytes = [5, 0], bm_error = EXT2_ET_BAD_INODE_MARK\<rparr>"

definition tiny_fs :: ext2_fs where
  \<comment> \<open>Two groups of eight blocks, which have a superblock each.\<close>
  "tiny_fs = \<lparr>fs_magic = EXT2_ET_MAGIC_EXT2FS_FILSYS, s_inodes_count = 16, s_blocks_count = 17,
     s_first_data_block = 1, s_inodes_per_group = 8, s_blocks_per_group = 8, s_first_ino = 11,
     group_desc_count = 2, inode_map = Some tiny_inode_map, block_map = Some tiny_block_map, fs_io = tiny_channel,
     fs_flags = EXT2_FLAG_RW OR EXT2_FLAG_DIRTY OR EXT2_FLAG_BB_DIRTY OR EXT2_FLAG_IB_DIRTY, fs_device_name = ''d'',
     s_free_blocks_count = 6, s_free_inodes_count = 14,
     fs_super = no_super\<lparr>s_magic := 0xEF53, s_state := 1, s_frags_per_group := 8\<rparr>, fs_blocksize = 1024, fs_fragsize = 1024, desc_blocks = 1,
     group_desc = [tiny_desc 3, tiny_desc 11], desc_rest = replicate 960 0,
     inode_blocks_per_group = 1, fs_stride = 0, fs_umask = 18,
     image_header = \<lparr>magic_number = 0, image_blocksize = 0, offset_inodemap = 0, offset_blockmap = 0\<rparr>, image_io = tiny_channel,
     orig_super = Some (replicate 1024 0)\<rparr>"

definition tiny_plain :: plain where
  "tiny_plain = \<lparr>p_bs = 1024, p_off = 0, p_bytes = replicate 17408 0\<rparr>"

lemma tiny_stands: "n < 1000 \<Longrightarrow> stands_for n tiny_channel tiny_plain"
proof -
  assume n: "n < 1000"
  have o: "unix_open (\<lambda>_. True) (\<lambda>_. 0) (\<lambda>_ _. Inr tiny_device) (Some ''d'') 1 = Inr tiny_channel"
    by (simp add: tiny_channel_def unix_open_def alloc_cache_def ext2fs_get_mem_def Let_def)
  have "stands_for n tiny_channel \<lparr>p_bs = 1024, p_off = 0, p_bytes = dev_bytes tiny_device\<rparr>"
    by (rule opened[OF o refl]) (use n in \<open>simp_all add: tiny_device_def\<close>)
  then show ?thesis by (simp add: tiny_plain_def tiny_device_def)
qed

lemma tiny_sound: "sound tiny_fs tiny_plain"
proof -
  have "grouped tiny_fs" by (simp add: grouped_def gstart_def tiny_fs_def)
  moreover have "0 < room tiny_fs 0" "0 < room tiny_fs 1"
    by (simp_all add: room_def ext2fs_super_and_bgd_loc_def tiny_fs_def no_super_def group_blocks_def ext2fs_bg_has_super_def has_meta_bg_def
        old_desc_blocks_def Let_def)
  moreover from this have "\<forall>i < groups tiny_fs. 0 < room tiny_fs i" by (auto simp: tiny_fs_def less_2_cases_iff)
  moreover have "0 < inode_blocks_per_group tiny_fs" "0 \<le> old_desc_blocks tiny_fs" "\<not> has_meta_bg tiny_fs"
    by (simp_all add: tiny_fs_def no_super_def old_desc_blocks_def has_meta_bg_def)
  moreover have "super_ok tiny_fs" by (simp add: super_ok_def tiny_fs_def no_super_def EXT2_FIRST_INODE_def)
  moreover have "descs_ok tiny_fs" by (simp add: descs_ok_def tiny_fs_def tiny_desc_def)
  ultimately show ?thesis unfolding sound_def roomy_def by (simp add: tiny_fs_def tiny_plain_def)
qed

lemma tiny_ready: "ready tiny_fs tiny_plain tiny_block_map tiny_inode_map 1 1"
proof -
  have "fits tiny_fs tiny_block_map tiny_inode_map 1 1"
    unfolding fits_def by (simp add: tiny_fs_def tiny_block_map_def tiny_inode_map_def bm_over_def bm_ok_def map_bytes_def)
  moreover have "laid_out tiny_fs tiny_plain"
  proof -
    have g: "group_desc tiny_fs = [tiny_desc 3, tiny_desc 11]" "fs_blocksize tiny_fs = 1024" by (simp_all add: tiny_fs_def)
    have at: "blk_at tiny_plain (of_nat p) = p * 1024" if "p < 2 ^ 32" for p
      using blk_at_plain[of tiny_plain "1024 :: u32" p] that by (simp add: tiny_plain_def)
    have "blk_at tiny_plain 3 = 3072" "blk_at tiny_plain 4 = 4096" "blk_at tiny_plain 11 = 11264" "blk_at tiny_plain 12 = 12288"
      using at[of 3] at[of 4] at[of 11] at[of 12] by simp_all
    then have "placed bg_block_bitmap tiny_fs tiny_plain" "placed bg_inode_bitmap tiny_fs tiny_plain"
      by (auto simp: placed_def g less_Suc_eq tiny_desc_def tiny_plain_def)
    moreover have "apart bg_block_bitmap tiny_fs" "apart bg_inode_bitmap tiny_fs"
      by (auto simp: apart_def g inj_on_def less_Suc_eq tiny_desc_def)
    ultimately show ?thesis by (simp add: laid_out_def g tiny_desc_def)
  qed
  moreover have "behind tiny_fs" by (simp add: behind_def tiny_fs_def tiny_desc_def)
  moreover have "\<not> JOURNAL_DEV tiny_fs" by (simp add: JOURNAL_DEV_def tiny_fs_def no_super_def)
  moreover have "fs_flags tiny_fs AND EXT2_FLAG_RW \<noteq> 0" "fs_flags tiny_fs AND EXT2_FLAG_DIRTY \<noteq> 0" "fs_flags tiny_fs AND EXT2_FLAG_SWAP_BYTES = 0"
    "fs_flags tiny_fs AND EXT2_FLAG_SUPER_ONLY = 0" "ext2fs_test_bb_dirty tiny_fs \<noteq> 0" "ext2fs_test_ib_dirty tiny_fs \<noteq> 0"
    by (simp_all add: tiny_fs_def ext2fs_test_bb_dirty_def ext2fs_test_ib_dirty_def EXT2_FLAG_RW_def EXT2_FLAG_DIRTY_def EXT2_FLAG_BB_DIRTY_def
        EXT2_FLAG_IB_DIRTY_def EXT2_FLAG_SWAP_BYTES_def EXT2_FLAG_SUPER_ONLY_def)
  moreover have "\<forall>old. orig_super tiny_fs = Some old \<longrightarrow> old = part 1024 1024 (p_bytes tiny_plain)"
    by (simp add: tiny_fs_def tiny_plain_def part_def)
  ultimately show ?thesis unfolding ready_def using tiny_sound by blast
qed

lemma tiny_openable: "openable tiny_fs EXT2_FLAG_RW"
proof -
  have "features_ok tiny_fs EXT2_FLAG_RW = OK" by (simp add: features_ok_def tiny_fs_def no_super_def JOURNAL_DEV_def)
  moreover have "set_sizes tiny_fs = Some tiny_fs"
    by (simp add: set_sizes_def tiny_fs_def no_super_def EXT2_BLOCK_SIZE_def EXT2_FRAG_SIZE_def table_blocks_def EXT2_INODE_SIZE_def Let_def)
  moreover have "groups_corrupt tiny_fs = Some False"
    by (simp add: groups_corrupt_def tiny_fs_def no_super_def EXT2_INODE_SIZE_def EXT2_MAX_BLOCKS_PER_GROUP_def EXT2_MAX_INODES_PER_GROUP_def Let_def)
  moreover have "count_groups tiny_fs = Some tiny_fs" by (simp add: count_groups_def tiny_fs_def Let_def)
  moreover have "EXT2_FLAG_RW AND EXT2_FLAG_IMAGE_FILE = 0" by (simp add: EXT2_FLAG_RW_def EXT2_FLAG_IMAGE_FILE_def)
  ultimately show ?thesis by (simp add: openable_def)
qed



end
