(* ===== verification/Uuencode.thy ===== *)
theory Uuencode
  imports C_String Ext2_Base
begin

unbundle bit_operations_syntax

text \<open>
  Base64 and uuencode: the encoder and the base64 decoder of \<open>libbb/uuencode.c\<close>, the applets
  \<open>uuencode\<close> (\<open>coreutils/uuencode.c\<close>), \<open>uudecode\<close> and \<open>base64\<close> (\<open>coreutils/uudecode.c\<close>).

  A stream is the list of its bytes, and what is written is a list of bytes. A program that dies
  has printed a message; the bytes written before that count as written. Reads of a file return
  what was asked for or what is left.
\<close>

abbreviation bytes :: "string \<Rightarrow> u8 list" where "bytes s \<equiv> map of_char s"

definition bb_uuenc_tbl_base64 :: "u8 list" where
  \<comment> \<open>With the two more characters of the decoder; the last one is the terminating NUL.\<close>
  "bb_uuenc_tbl_base64 =
     bytes ''ABCDEFGHIJKLMNOPQRSTUVWXYZabcdefghijklmnopqrstuvwxyz0123456789+/='' @ [10, 0]"

definition bb_uuenc_tbl_std :: "u8 list" where
  "bb_uuenc_tbl_std = 96 # map (\<lambda>k. 32 + of_nat k) [1..<64] @ [96]"

subsection \<open>Encoding\<close>

function uuenc_loop :: "u8 list \<Rightarrow> u8 list \<Rightarrow> int \<Rightarrow> (u8 list \<times> int) option" where
  \<comment> \<open>What the first loop writes, and \<open>length\<close> after it.\<close>
  "uuenc_loop tbl s len =
     (if 0 < len then do {
        let len = len - 3;
        s0 \<leftarrow> rd s 0;
        s1 \<leftarrow> (if - 1 \<le> len then rd s 1 else Some 0);
        s2 \<leftarrow> (if 0 \<le> len then rd s 2 else Some 0);
        c0 \<leftarrow> rd tbl (unat (drop_bit 2 s0));
        c1 \<leftarrow> rd tbl (unat (push_bit 4 (s0 AND 3) + drop_bit 4 s1));
        c2 \<leftarrow> rd tbl (unat (push_bit 2 (s1 AND 15) + drop_bit 6 s2));
        c3 \<leftarrow> rd tbl (unat (s2 AND 63));
        (p, len) \<leftarrow> uuenc_loop tbl (drop 3 s) len;
        Some (c0 # c1 # c2 # c3 # p, len) }
      else Some ([], len))"
  by pat_completeness auto
termination by (relation "measure (\<lambda>(tbl, s, len). nat len)") auto

primrec pad_loop :: "u8 \<Rightarrow> nat \<Rightarrow> u8 list \<Rightarrow> nat \<Rightarrow> u8 list option" where
  "pad_loop t 0 xs p = Some xs"
| "pad_loop t (Suc k) xs p = (if p = 0 then None else do {
     xs \<leftarrow> wr xs (p - 1) t;
     pad_loop t k xs (p - 1) })"

definition bb_uuencode :: "u8 list \<Rightarrow> int \<Rightarrow> u8 list \<Rightarrow> u8 list option" where
  \<comment> \<open>What is in the store before its NUL.\<close>
  "bb_uuencode src len tbl = do {
     (p, len) \<leftarrow> uuenc_loop tbl src len;
     t \<leftarrow> rd tbl 64;
     pad_loop t (nat (- len)) p (length p) }"

function uuencode_chunks :: "u8 list \<Rightarrow> u8 list \<Rightarrow> u8 list option" where
  \<comment> \<open>The loop of the applet: lines of up to 45 bytes.\<close>
  "uuencode_chunks tbl src =
     (if src = [] then Some []
      else do {
        let size = min 45 (length src);
        dst \<leftarrow> bb_uuencode (take size src) (int size) tbl;
        len \<leftarrow> (if tbl = bb_uuenc_tbl_std then map_option (\<lambda>c. [c]) (rd tbl size) else Some []);
        rest \<leftarrow> uuencode_chunks tbl (drop size src);
        Some (10 # len @ take (4 * ((size + 2) div 3)) dst @ rest) })"
  by pat_completeness auto
termination by (relation "measure (\<lambda>(tbl, src). length src)") auto

definition uuencode_main :: "bool \<Rightarrow> u8 list \<Rightarrow> u8 list \<Rightarrow> u8 list \<Rightarrow> u8 list option" where
  \<comment> \<open>With or without \<open>-m\<close>; the printed mode and the name are strings of bytes.\<close>
  "uuencode_main m mode name src =
     (let tbl = (if m then bb_uuenc_tbl_base64 else bb_uuenc_tbl_std) in do {
        body \<leftarrow> uuencode_chunks tbl src;
        Some (bytes ''begin'' @ (if tbl = bb_uuenc_tbl_std then [] else bytes ''-base64'') @ [32] @ mode @ [32] @ name
          @ body @ (if tbl = bb_uuenc_tbl_std then [10, 96, 10] @ bytes ''end'' @ [10]
                    else [10] @ bytes ''===='' @ [10])) })"

function base64_chunks :: "u8 list \<Rightarrow> u8 list option" where
  "base64_chunks src =
     (if src = [] then Some []
      else do {
        let size = min 57 (length src);
        dst \<leftarrow> bb_uuencode (take size src) (int size) bb_uuenc_tbl_base64;
        rest \<leftarrow> base64_chunks (drop size src);
        Some (take (4 * ((size + 2) div 3)) dst @ [10] @ rest) })"
  by pat_completeness auto
termination by (relation "measure length") auto

subsection \<open>Decoding base64\<close>

datatype ending = Finished | Died string

fun strchr :: "u8 list \<Rightarrow> int \<Rightarrow> nat option" where
  \<comment> \<open>In a table that ends with its NUL.\<close>
  "strchr [] ch = None"
| "strchr (c # cs) ch = (if uint c = ch then Some 0 else map_option Suc (strchr cs ch))"

definition merge_group :: "u8 list \<Rightarrow> u8 list" where
  \<comment> \<open>What is written for the \<open>count\<close> characters translated.\<close>
  "merge_group t =
     (if 1 < length t then [push_bit 2 (t ! 0) OR drop_bit 4 (t ! 1)] else [])
     @ (if 2 < length t then [push_bit 4 (t ! 1) OR drop_bit 2 (t ! 2)] else [])
     @ (if 3 < length t then [push_bit 6 (t ! 2) OR t ! 3] else [])"

fun base64_loop :: "int \<Rightarrow> bool \<Rightarrow> nat \<Rightarrow> u8 list \<Rightarrow> u8 list \<Rightarrow> ending \<times> u8 list \<times> u8 list" where
  \<comment> \<open>The three loops, one character of the stream at a time: \<open>term_count\<close>, the characters of the
      group (\<open>count\<close> of them) and the rest of the stream; the result has what is written and what
      is left of the stream.\<close>
  "base64_loop exit_char uu_style_end term_count t [] =
     (if exit_char = - 1 \<and> t = [] then (Finished, [], []) else (Died ''truncated base64 input'', [], []))"
| "base64_loop exit_char uu_style_end term_count t (c # cs) =
     (if uint c = exit_char \<and> t = [] then (Finished, [], cs)
      else case strchr bb_uuenc_tbl_base64 (uint c) of
        None \<Rightarrow> base64_loop exit_char uu_style_end term_count t cs
      | Some ch \<Rightarrow>
          if ch = 65 then
            if uu_style_end \<and> term_count = 4 then (Finished, [], cs)
            else base64_loop exit_char uu_style_end 0 t cs
          else if ch = 64 then
            (let (e, out, rest) = base64_loop exit_char uu_style_end (term_count + 1) [] cs
             in (e, merge_group t @ out, rest))
          else
            (let t = t @ [of_nat ch AND 63] in
             if length t < 4 then base64_loop exit_char uu_style_end 0 t cs
             else let (e, out, rest) = base64_loop exit_char uu_style_end 0 [] cs
               in (e, merge_group t @ out, rest)))"

definition read_base64 :: "u32 \<Rightarrow> u8 list \<Rightarrow> ending \<times> u8 list \<times> u8 list" where
  "read_base64 fl src =
     base64_loop (sint (ucast fl :: u8)) (fl AND 0x100 \<noteq> 0) 0 [] src"

definition base64_main :: "bool \<Rightarrow> u8 list \<Rightarrow> (ending \<times> u8 list) option" where
  \<comment> \<open>\<open>(char) EOF\<close> is -1, as where \<open>char\<close> is signed.\<close>
  "base64_main decode src =
     (if decode then (let (e, out, _) = read_base64 (- 1) src in Some (e, out))
      else map_option (Pair Finished) (base64_chunks src))"

subsection \<open>Decoding uuencode\<close>

fun get_chunk :: "u8 list \<Rightarrow> u8 list \<times> u8 list" where
  \<comment> \<open>\<open>bb_get_chunk_from_file\<close> (\<open>lineno\<close> NULL): up to a newline or NUL, inclusive; and the rest of
      the stream.\<close>
  "get_chunk [] = ([], [])"
| "get_chunk (c # cs) =
     (if c = 0 \<or> c = 10 then ([c], cs) else let (line, rest) = get_chunk cs in (c # line, rest))"

definition fgetline :: "u8 list \<Rightarrow> (u8 list \<times> u8 list) option" where
  \<comment> \<open>\<open>xmalloc_fgetline\<close>; the line is a C string.\<close>
  "fgetline src = (if src = [] then None
     else let (line, rest) = get_chunk src in
       Some (if last line = 0 \<or> last line = 10 then butlast line else line, rest))"

function uu_merge :: "u8 list \<Rightarrow> nat \<Rightarrow> nat \<Rightarrow> int \<Rightarrow> (u8 list \<times> nat) option" where
  \<comment> \<open>In place: the line with its NUL, the positions \<open>dst\<close> and \<open>line_ptr\<close>, \<open>encoded_len\<close>.\<close>
  "uu_merge line dst p elen = do {
     a \<leftarrow> rd line p; b \<leftarrow> rd line (p + 1);
     line \<leftarrow> wr line dst (push_bit 2 a OR drop_bit 4 b);
     if elen - 1 = 0 then Some (line, dst + 1)
     else do {
       a \<leftarrow> rd line (p + 1); b \<leftarrow> rd line (p + 2);
       line \<leftarrow> wr line (dst + 1) (push_bit 4 a OR drop_bit 2 b);
       if elen - 2 = 0 then Some (line, dst + 2)
       else do {
         a \<leftarrow> rd line (p + 2); b \<leftarrow> rd line (p + 3);
         line \<leftarrow> wr line (dst + 2) (push_bit 6 a OR b);
         if 0 < elen - 4 then uu_merge line (dst + 3) (p + 4) (elen - 4) else Some (line, dst + 3) } } }"
  by pat_completeness auto
termination by (relation "measure (\<lambda>(line, dst, p, elen). nat elen)") auto

lemma get_chunk_less: "src \<noteq> [] \<Longrightarrow> length (snd (get_chunk src)) < length src"
proof (induction src)
  case (Cons c cs)
  then show ?case by (cases cs) (auto simp: split_beta)
qed simp

lemma fgetline_less: "fgetline src = Some (line, rest) \<Longrightarrow> length rest < length src"
  using get_chunk_less[of src] by (auto simp: fgetline_def split_beta split: if_splits)

function read_stduu :: "u8 list \<Rightarrow> (ending \<times> u8 list) option" where
  "read_stduu src = (case fgetline src of
       None \<Rightarrow> Some (Died ''short file'', [])
     | Some (line, rest) \<Rightarrow>
         if line = bytes ''end'' then Some (Finished, [])
         else let line = map (\<lambda>c. (c - 0x20) AND 0x3f) line @ [0];
                  encoded_len = uint (line ! 0) * 4 div 3 in
           if int (length line) - 1 \<le> encoded_len then Some (Died ''short file'', [])
           else if encoded_len \<le> 0 then read_stduu rest
           else if 60 < encoded_len then Some (Died ''line too long'', [])
           else do {
             (line, n) \<leftarrow> uu_merge line 0 1 encoded_len;
             (e, out) \<leftarrow> read_stduu rest;
             Some (e, take n line @ out) })"
  by pat_completeness auto
termination by (relation "measure length") (auto simp: fgetline_less)

definition after_space :: "u8 list \<Rightarrow> u8 list option" where
  \<comment> \<open>\<open>strchr(line_ptr, ' ')\<close> and one more.\<close>
  "after_space s = (if 32 \<in> set s then Some (drop 1 (dropWhile (\<lambda>c. c \<noteq> 32) s)) else None)"

function uudecode_main :: "u8 list option \<Rightarrow> u8 list \<Rightarrow> (ending \<times> u8 list option \<times> u8 list) option" where
  \<comment> \<open>The name given with \<open>-o\<close>; the result has the name of the file written and its contents. The
      permissions of the file are not modelled.\<close>
  "uudecode_main outname src = (case fgetline src of
       None \<Rightarrow> Some (Died ''no 'begin' line'', None, [])
     | Some (line, rest) \<Rightarrow>
         let name = (\<lambda>p. if outname \<noteq> None then outname else after_space p) in
         if take 13 line = bytes ''begin-base64 '' then
           (case name (drop 13 line) of None \<Rightarrow> Some (Died ''no 'begin' line'', None, [])
            | Some f \<Rightarrow> let (e, out, _) = read_base64 0x180 rest in Some (e, Some f, out))
         else if take 6 line = bytes ''begin '' then
           (case name (drop 6 line) of None \<Rightarrow> Some (Died ''no 'begin' line'', None, [])
            | Some f \<Rightarrow> map_option (\<lambda>(e, out). (e, Some f, out)) (read_stduu rest))
         else uudecode_main outname rest)"
  by pat_completeness auto
termination by (relation "measure (\<lambda>(outname, src). length src)") (auto simp: fgetline_less)

declare uuenc_loop.simps [simp del] uuencode_chunks.simps [simp del] base64_chunks.simps [simp del]
  uu_merge.simps [simp del] read_stduu.simps [simp del] uudecode_main.simps [simp del]
  base64_loop.simps(2) [simp del]

subsection \<open>The code and its digits\<close>

definition digits :: "u8 \<Rightarrow> u8 \<Rightarrow> u8 \<Rightarrow> u8 list" where
  "digits a b c = [drop_bit 2 a, push_bit 4 (a AND 3) + drop_bit 4 b, push_bit 2 (b AND 15) + drop_bit 6 c, c AND 63]"

fun sixes :: "u8 list \<Rightarrow> u8 list" where
  \<comment> \<open>The 6-bit digits of the bytes, with zeros for missing ones.\<close>
  "sixes [] = []"
| "sixes [a] = digits a 0 0"
| "sixes [a, b] = digits a b 0"
| "sixes (a # b # c # s) = digits a b c @ sixes s"

fun missing :: "u8 list \<Rightarrow> nat" where
  "missing [] = 0"
| "missing [a] = 2"
| "missing [a, b] = 1"
| "missing (a # b # c # s) = missing s"

definition code :: "u8 list \<Rightarrow> u8 list \<Rightarrow> u8 list" where
  "code tbl s = map (\<lambda>d. tbl ! unat d) (take (length (sixes s) - missing s) (sixes s))
     @ replicate (missing s) (tbl ! 64)"

lemma next_group: "(5 + n) div 3 = Suc ((Suc (Suc n)) div 3)" for n :: nat
proof -
  have "5 + n = Suc (Suc n) + 3" by simp
  then show ?thesis by simp
qed

lemma length_sixes: "length (sixes s) = 4 * ((length s + 2) div 3)"
  by (induction s rule: sixes.induct) (simp_all add: digits_def next_group)

lemma missing_le: "missing s \<le> length (sixes s)"
  by (induction s rule: sixes.induct) (simp_all add: digits_def)

lemma length_code: "length (code tbl s) = 4 * ((length s + 2) div 3)"
  using missing_le[of s] by (simp add: code_def length_sixes)

lemma u8_eqI: "(\<And>n. n \<in> {0, 1, 2, 3, 4, 5, 6, 7} \<Longrightarrow> bit x n = bit y n) \<Longrightarrow> x = (y :: u8)"
  by (rule bit_word_eqI) (auto simp: less_Suc_eq numeral_eq_Suc)

lemma plus_is_or:
  "push_bit 4 (a AND 3) + drop_bit 4 b = push_bit 4 (a AND 3) OR drop_bit 4 (b :: u8)"
  "push_bit 2 (b AND 15) + drop_bit 6 c = push_bit 2 (b AND 15) OR drop_bit 6 (c :: u8)"
proof -
  have "push_bit 4 (a AND 3) AND drop_bit 4 b = 0"
    by (rule u8_eqI) (auto simp: bit_simps numeral_2_eq_2[symmetric] dest: bit_imp_le_length)
  then show "push_bit 4 (a AND 3) + drop_bit 4 b = push_bit 4 (a AND 3) OR drop_bit 4 b"
    using word_plus_and_or[of "push_bit 4 (a AND 3)" "drop_bit 4 b"] by simp
  have "push_bit 2 (b AND 15) AND drop_bit 6 c = 0"
    by (rule u8_eqI) (auto simp: bit_simps numeral_2_eq_2[symmetric] dest: bit_imp_le_length)
  then show "push_bit 2 (b AND 15) + drop_bit 6 c = push_bit 2 (b AND 15) OR drop_bit 6 c"
    using word_plus_and_or[of "push_bit 2 (b AND 15)" "drop_bit 6 c"] by simp
qed

lemma regroup:
  "push_bit 2 (drop_bit 2 a) OR drop_bit 4 (push_bit 4 (a AND 3) + drop_bit 4 b) = (a :: u8)"
  "push_bit 4 (push_bit 4 (a AND 3) + drop_bit 4 b) OR drop_bit 2 (push_bit 2 (b AND 15) + drop_bit 6 c) = (b :: u8)"
  "push_bit 6 (push_bit 2 (b AND 15) + drop_bit 6 c) OR (c AND 63) = (c :: u8)"
proof -
  show "push_bit 2 (drop_bit 2 a) OR drop_bit 4 (push_bit 4 (a AND 3) + drop_bit 4 b) = (a :: u8)"
    unfolding plus_is_or by (rule u8_eqI) (auto simp: bit_simps numeral_2_eq_2[symmetric] dest: bit_imp_le_length)
  show "push_bit 4 (push_bit 4 (a AND 3) + drop_bit 4 b) OR drop_bit 2 (push_bit 2 (b AND 15) + drop_bit 6 c) = (b :: u8)"
    unfolding plus_is_or by (rule u8_eqI) (auto simp: bit_simps numeral_2_eq_2[symmetric] dest: bit_imp_le_length)
  show "push_bit 6 (push_bit 2 (b AND 15) + drop_bit 6 c) OR (c AND 63) = (c :: u8)"
    unfolding plus_is_or by (rule u8_eqI) (auto simp: bit_simps numeral_2_eq_2[symmetric] dest: bit_imp_le_length)
qed

lemma six_bits: "d \<in> set (digits a b c) \<Longrightarrow> d AND 63 = d"
  unfolding digits_def plus_is_or
  by (auto; rule u8_eqI; auto simp: bit_simps numeral_2_eq_2[symmetric] dest: bit_imp_le_length)

end
