(* ===== verification/Uuencode_Roundtrip.thy ===== *)
theory Uuencode_Roundtrip
  imports Uuencode
begin

text \<open>
  What \<open>uuencode\<close> and \<open>base64\<close> write, \<open>uudecode\<close> and \<open>base64 -d\<close> read back, for any bytes.
\<close>

subsection \<open>The encoder writes the code\<close>

lemma pad_loop_result:
  "k \<le> p \<Longrightarrow> p \<le> length xs \<Longrightarrow> pad_loop t k xs p = Some (take (p - k) xs @ replicate k t @ drop p xs)"
proof (induction k arbitrary: xs p)
  case (Suc k)
  then have p: "0 < p" "p - 1 < length xs" by simp_all
  have "drop (p - 1) (xs[p - 1 := t]) = t # drop p xs"
    using p by (simp add: drop_update_swap Cons_nth_drop_Suc[symmetric])
  moreover have "take (p - 1 - k) (xs[p - 1 := t]) = take (p - Suc k) xs" by simp
  ultimately show ?case using Suc.IH[of "p - 1" "xs[p - 1 := t]"] Suc.prems p
    by (simp add: replicate_append_same)
qed simp

lemma digit_less: "d \<in> set (digits a b c) \<Longrightarrow> unat d < 64"
proof -
  assume "d \<in> set (digits a b c)"
  then have "unat d = unat (d AND 63)" by (simp only: six_bits)
  also have "\<dots> \<le> unat (63 :: u8)" by (rule word_and_le1[unfolded word_le_nat_alt])
  finally show ?thesis by simp
qed

lemma sixes_less: "d \<in> set (sixes s) \<Longrightarrow> unat d < 64"
  by (induction s rule: sixes.induct) (auto dest: digit_less)

lemma uuenc_loop_result:
  assumes "65 \<le> length tbl"
  shows "uuenc_loop tbl s (int (length s)) = Some (map (\<lambda>d. tbl ! unat d) (sixes s), - int (missing s))"
proof (induction s rule: sixes.induct)
  case 1
  then show ?case by (simp add: uuenc_loop.simps)
next
  case (2 a)
  have l: "\<forall>d \<in> set (digits a 0 0). unat d < length tbl" using digit_less assms by fastforce
  then show ?case by (simp add: uuenc_loop.simps[of tbl "[a]"] uuenc_loop.simps[of tbl "[]"] digits_def Let_def)
next
  case (3 a b)
  have l: "\<forall>d \<in> set (digits a b 0). unat d < length tbl" using digit_less assms by fastforce
  then show ?case by (simp add: uuenc_loop.simps[of tbl "[a, b]"] uuenc_loop.simps[of tbl "[]"] digits_def Let_def)
next
  case (4 a b c s)
  have l: "\<forall>d \<in> set (digits a b c). unat d < length tbl" using digit_less assms by fastforce
  then show ?case using 4 by (simp add: uuenc_loop.simps[of tbl "a # b # c # s"] digits_def Let_def)
qed

lemma bb_uuencode_code:
  assumes "65 \<le> length tbl"
  shows "bb_uuencode s (int (length s)) tbl = Some (code tbl s)"
proof -
  let ?p = "map (\<lambda>d. tbl ! unat d) (sixes s)"
  have "pad_loop (tbl ! 64) (missing s) ?p (length ?p)
      = Some (take (length ?p - missing s) ?p @ replicate (missing s) (tbl ! 64) @ drop (length ?p) ?p)"
    using missing_le[of s] by (intro pad_loop_result) simp_all
  then show ?thesis using assms by (simp add: bb_uuencode_def uuenc_loop_result code_def take_map)
qed

lemma code_group: "code tbl (a # b # c # s) = map (\<lambda>d. tbl ! unat d) (digits a b c) @ code tbl s"
  using missing_le[of s] by (simp add: code_def digits_def Suc_diff_le)

lemma code_short:
  "code tbl [] = []" "code tbl [a] = map (\<lambda>d. tbl ! unat d) (take 2 (digits a 0 0)) @ [tbl ! 64, tbl ! 64]"
  "code tbl [a, b] = map (\<lambda>d. tbl ! unat d) (take 3 (digits a b 0)) @ [tbl ! 64]"
  by (simp_all add: code_def digits_def numeral_2_eq_2)

lemma length_tbl [simp]: "length bb_uuenc_tbl_base64 = 67" "length bb_uuenc_tbl_std = 65"
  by (simp_all add: bb_uuenc_tbl_base64_def bb_uuenc_tbl_std_def)

lemma tbl_differ [simp]: "bb_uuenc_tbl_base64 \<noteq> bb_uuenc_tbl_std"
  using length_tbl by (metis numeral_eq_iff num.distinct(5) num.inject(2) semiring_norm)

subsection \<open>The decoder reads it back\<close>

lemma strchr_tbl: "k < 66 \<Longrightarrow> strchr bb_uuenc_tbl_base64 (uint (bb_uuenc_tbl_base64 ! k)) = Some k"
proof -
  have "list_all (\<lambda>k. strchr bb_uuenc_tbl_base64 (uint (bb_uuenc_tbl_base64 ! k)) = Some k) [0..<66]" by code_simp
  then show "k < 66 \<Longrightarrow> strchr bb_uuenc_tbl_base64 (uint (bb_uuenc_tbl_base64 ! k)) = Some k"
    by (simp add: list_all_iff)
qed

lemma tbl_ends: "bb_uuenc_tbl_base64 ! 64 = 61" "bb_uuenc_tbl_base64 ! 65 = 10" by code_simp+

definition after :: "u8 list \<Rightarrow> ending \<times> u8 list \<times> u8 list \<Rightarrow> ending \<times> u8 list \<times> u8 list" where
  "after out r = (case r of (e, o', rest) \<Rightarrow> (e, out @ o', rest))"

lemma after_after [simp]: "after xs (after ys r) = after (xs @ ys) r" "after [] r = r"
  by (simp_all add: after_def split: prod.split)

lemma loop_digit:
  assumes "ex < 0" "d \<in> set (digits a b c)"
  shows "base64_loop ex uu n t (bb_uuenc_tbl_base64 ! unat d # cs) =
    (if length t < 3 then base64_loop ex uu 0 (t @ [d]) cs
     else after (merge_group (t @ [d])) (base64_loop ex uu 0 [] cs))"
proof -
  have "of_nat (unat d) AND 63 = d" using six_bits[OF assms(2)] by simp
  moreover have "uint (bb_uuenc_tbl_base64 ! unat d) \<noteq> ex" using assms(1) uint_ge_0[of "bb_uuenc_tbl_base64 ! unat d"] by linarith
  ultimately show ?thesis using digit_less[OF assms(2)] strchr_tbl[of "unat d"]
    by (simp add: base64_loop.simps(2) after_def Let_def)
qed

lemma loop_pad:
  assumes "ex < 0"
  shows "base64_loop ex uu n t (61 # cs) = after (merge_group t) (base64_loop ex uu (n + 1) [] cs)"
    "base64_loop ex uu n t (10 # cs) = (if uu \<and> n = 4 then (Finished, [], cs) else base64_loop ex uu 0 t cs)"
  using strchr_tbl[of 64] strchr_tbl[of 65] assms by (simp_all add: base64_loop.simps(2) tbl_ends after_def)

lemma merge_simps:
  "merge_group [w, x] = [push_bit 2 w OR drop_bit 4 x]"
  "merge_group [w, x, y] = [push_bit 2 w OR drop_bit 4 x, push_bit 4 x OR drop_bit 2 y]"
  "merge_group [w, x, y, z] = [push_bit 2 w OR drop_bit 4 x, push_bit 4 x OR drop_bit 2 y, push_bit 6 y OR z]"
  by (simp_all add: merge_group_def)

lemma merge_digits:
  "digits a b c = [d0, d1, d2, d3] \<Longrightarrow> merge_group [d0, d1, d2, d3] = [a, b, c]"
  "digits a b c = [d0, d1, d2, d3] \<Longrightarrow> merge_group [d0, d1] = [a]"
  "digits a b c = [d0, d1, d2, d3] \<Longrightarrow> merge_group [d0, d1, d2] = [a, b]"
  by (simp_all only: merge_simps digits_def list.inject) (clarify, simp only: regroup)+

lemma loop_code:
  assumes "ex < 0" "n \<le> 2"
  shows "\<exists>n' \<le> 2. base64_loop ex uu n [] (code bb_uuenc_tbl_base64 s @ rest) = after s (base64_loop ex uu n' [] rest)"
  using assms(2)
proof (induction s arbitrary: n rule: sixes.induct)
  case 1
  then show ?case by (auto simp: code_short)
next
  case (2 a)
  obtain d0 d1 d2 d3 where d: "digits a 0 0 = [d0, d1, d2, d3]" by (simp add: digits_def)
  then have i: "d0 \<in> set (digits a 0 0)" "d1 \<in> set (digits a 0 0)" by simp_all
  then show ?case using d merge_digits(2)[OF d]
    by (intro exI[of _ "Suc (Suc 0)"]) (simp add: code_short loop_digit[OF assms(1) i(1)] loop_digit[OF assms(1) i(2)] loop_pad[OF assms(1)] tbl_ends merge_group_def[of "[]"])
next
  case (3 a b)
  obtain d0 d1 d2 d3 where d: "digits a b 0 = [d0, d1, d2, d3]" by (simp add: digits_def)
  then have i: "d0 \<in> set (digits a b 0)" "d1 \<in> set (digits a b 0)" "d2 \<in> set (digits a b 0)" by simp_all
  then show ?case using d merge_digits(3)[OF d]
    by (intro exI[of _ 1]) (simp add: code_short loop_digit[OF assms(1) i(1)] loop_digit[OF assms(1) i(2)]
        loop_digit[OF assms(1) i(3)] loop_pad[OF assms(1)] tbl_ends)
next
  case (4 a b c s)
  obtain d0 d1 d2 d3 where d: "digits a b c = [d0, d1, d2, d3]" by (simp add: digits_def)
  then have i: "d0 \<in> set (digits a b c)" "d1 \<in> set (digits a b c)" "d2 \<in> set (digits a b c)" "d3 \<in> set (digits a b c)"
    by simp_all
  obtain n' where "n' \<le> 2"
    "base64_loop ex uu 0 [] (code bb_uuenc_tbl_base64 s @ rest) = after s (base64_loop ex uu n' [] rest)"
    using 4 by blast
  then show ?case using d i merge_digits(1)[OF d]
    by (intro exI[of _ n']) (simp add: code_group loop_digit[OF assms(1) i(1)] loop_digit[OF assms(1) i(2)]
        loop_digit[OF assms(1) i(3)] loop_digit[OF assms(1) i(4)])
qed

lemma take_code: "take (4 * ((length s + 2) div 3)) (code tbl s) = code tbl s"
  by (rule take_all) (simp add: length_code)

lemma base64_chunks_result:
  assumes "ex = - 1" "n \<le> 2"
  shows "\<exists>out. base64_chunks src = Some out \<and> base64_loop ex uu n [] out = (Finished, src, [])"
  using assms(2)
proof (induction "length src" arbitrary: src n rule: less_induct)
  case less
  show ?case
  proof (cases "src = []")
    case True
    then show ?thesis using assms(1) by (simp add: base64_chunks.simps)
  next
    case False
    let ?s = "take (min 57 (length src)) src" and ?r = "drop (min 57 (length src)) src"
    have l: "length ?s = min 57 (length src)" by simp
    obtain out where out: "base64_chunks ?r = Some out" "base64_loop ex uu 0 [] out = (Finished, ?r, [])"
      using less.hyps[of ?r 0] False by auto
    obtain n' where n': "n' \<le> 2"
      "base64_loop ex uu n [] (code bb_uuenc_tbl_base64 ?s @ [10] @ out) = after ?s (base64_loop ex uu n' [] ([10] @ out))"
      using loop_code[of ex n uu ?s "[10] @ out"] assms(1) less.prems by auto
    have "base64_loop ex uu n' [] ([10] @ out) = base64_loop ex uu 0 [] out"
      using n'(1) assms(1) by (simp add: loop_pad)
    then have "base64_loop ex uu n [] (code bb_uuenc_tbl_base64 ?s @ [10] @ out) = (Finished, src, [])"
      unfolding n'(2) by (simp only: out(2) after_def prod.case append_take_drop_id)
    moreover have "base64_chunks src = Some (code bb_uuenc_tbl_base64 ?s @ [10] @ out)"
      using False out(1) bb_uuencode_code[of bb_uuenc_tbl_base64 ?s] take_code[of ?s bb_uuenc_tbl_base64]
      by (simp add: base64_chunks.simps[of src] Let_def)
    ultimately show ?thesis by simp
  qed
qed

text \<open>C36. Decoding what \<open>base64\<close> writes gives the bytes back, for any input: whatever the length and
  so whatever the padding, and however many lines it takes.\<close>
theorem base64_roundtrip:
  "\<exists>text. base64_main False src = Some (Finished, text) \<and> base64_main True text = Some (Finished, src)"
proof -
  obtain out where "base64_chunks src = Some out" "base64_loop (- 1) True 0 [] out = (Finished, src, [])"
    using base64_chunks_result[of "- 1" 0 src True] by auto
  moreover have "sint (ucast (- 1 :: u32) :: u8) = - 1" by code_simp
  ultimately show ?thesis by (simp add: base64_main_def read_base64_def)
qed

subsection \<open>Lines of uuencode\<close>

lemma tbl_std: "k < 65 \<Longrightarrow> bb_uuenc_tbl_std ! k \<notin> {0, 10, 32}
  \<and> (bb_uuenc_tbl_std ! k - 0x20) AND 0x3f = of_nat (k mod 64)"
proof -
  have "list_all (\<lambda>k. bb_uuenc_tbl_std ! k \<notin> {0, 10, 32}
    \<and> (bb_uuenc_tbl_std ! k - 0x20) AND 0x3f = of_nat (k mod 64)) [0..<65]" by code_simp
  then show "k < 65 \<Longrightarrow> ?thesis" by (simp add: list_all_iff)
qed

lemma code_std:
  "map (\<lambda>c. (c - 0x20) AND 0x3f) (code bb_uuenc_tbl_std s) = sixes s" "0 \<notin> set (code bb_uuenc_tbl_std s)"
  "10 \<notin> set (code bb_uuenc_tbl_std s)"
proof -
  have d: "(bb_uuenc_tbl_std ! unat d - 0x20) AND 0x3f = d" "bb_uuenc_tbl_std ! unat d \<notin> {0, 10}"
    if "d \<in> set (sixes s)" for d
    using tbl_std[of "unat d"] sixes_less[OF that] by simp_all
  have p: "(bb_uuenc_tbl_std ! 64 - 0x20) AND 0x3f = 0" "bb_uuenc_tbl_std ! 64 \<notin> {0, 10}"
    using tbl_std[of 64] by simp_all
  have z: "drop (length (sixes s) - missing s) (sixes s) = replicate (missing s) 0"
  proof (induction s rule: sixes.induct)
    case (2 a)
    have "replicate 2 0 = [0, 0 :: u8]" by (simp add: numeral_2_eq_2)
    then show ?case by (simp add: digits_def)
  next
    case (4 a b c s)
    then show ?case using missing_le[of s] by (simp add: digits_def Suc_diff_le)
  qed (simp_all add: digits_def)
  have "map (\<lambda>c. (c - 0x20) AND 0x3f) (code bb_uuenc_tbl_std s)
      = take (length (sixes s) - missing s) (sixes s) @ replicate (missing s) 0"
    using p(1) d(1) by (auto simp: code_def comp_def intro!: map_idI dest: in_set_takeD)
  then show "map (\<lambda>c. (c - 0x20) AND 0x3f) (code bb_uuenc_tbl_std s) = sixes s"
    by (simp only: z[symmetric] append_take_drop_id)
  show "0 \<notin> set (code bb_uuenc_tbl_std s)" "10 \<notin> set (code bb_uuenc_tbl_std s)"
    using p(2) d(2) by (auto simp: code_def dest!: in_set_takeD)
qed

lemma rd_drop: "drop p line = xs \<Longrightarrow> i < length xs \<Longrightarrow> rd line (p + i) = Some (xs ! i)"
  by (auto simp: rd_def)

lemma take_write: "n < length xs \<Longrightarrow> take (Suc n) (xs[n := x]) = take n xs @ [x]"
  by (simp add: take_Suc_conv_app_nth)

lemma uu_merge_result:
  "s \<noteq> [] \<Longrightarrow> drop p line = sixes s @ [0] \<Longrightarrow> dst < p \<Longrightarrow>
   \<exists>line'. uu_merge line dst p (int (length s * 4 div 3)) = Some (line', dst + length s)
     \<and> take (dst + length s) line' = take dst line @ s"
proof (induction s arbitrary: line dst p rule: sixes.induct)
  case (2 a)
  obtain d0 d1 d2 d3 where d: "digits a 0 0 = [d0, d1, d2, d3]" by (simp add: digits_def)
  have m: "push_bit 2 d0 OR drop_bit 4 d1 = a" using merge_digits(2)[OF d] by (simp add: merge_simps)
  have dr: "drop p line = [d0, d1, d2, d3, 0]" using 2(2) d by simp
  have "length line - p = 5" using arg_cong[OF dr, of length] by simp
  then have l: "dst < length line" using 2(3) by simp
  show ?case
    using rd_drop[OF dr, of 0] rd_drop[OF dr, of 1] m l
    by (simp add: uu_merge.simps[of line dst p] take_write)
next
  case (3 a b)
  obtain d0 d1 d2 d3 where d: "digits a b 0 = [d0, d1, d2, d3]" by (simp add: digits_def)
  have m: "push_bit 2 d0 OR drop_bit 4 d1 = a" "push_bit 4 d1 OR drop_bit 2 d2 = b"
    using merge_digits(3)[OF d] by (simp_all add: merge_simps)
  have dr: "drop p line = [d0, d1, d2, d3, 0]" using 3(2) d by simp
  have "length line - p = 5" using arg_cong[OF dr, of length] by simp
  then have l: "dst + 1 < length line" using 3(3) by simp
  have dr1: "drop p (line[dst := a]) = [d0, d1, d2, d3, 0]" using dr 3(3) by simp
  show ?case
    using rd_drop[OF dr, of 0] rd_drop[OF dr, of 1] rd_drop[OF dr1, of 1] rd_drop[OF dr1, of 2] m l
    by (simp add: uu_merge.simps[of line dst p] take_write)
next
  case (4 a b c s)
  obtain d0 d1 d2 d3 where d: "digits a b c = [d0, d1, d2, d3]" by (simp add: digits_def)
  have m: "push_bit 2 d0 OR drop_bit 4 d1 = a" "push_bit 4 d1 OR drop_bit 2 d2 = b" "push_bit 6 d2 OR d3 = c"
    using merge_digits(1)[OF d] by (simp_all add: merge_simps)
  have dr: "drop p line = d0 # d1 # d2 # d3 # sixes s @ [0]" using 4(3) d by simp
  have "5 \<le> length line - p" using arg_cong[OF dr, of length] by simp
  then have l: "dst + 2 < length line" using 4(4) by simp
  have dr1: "drop p (line[dst := a]) = d0 # d1 # d2 # d3 # sixes s @ [0]" using dr 4(4) by simp
  have dr4: "drop (p + 4) line = sixes s @ [0]"
    using arg_cong[OF dr, of "drop 4"] by (simp add: add.commute)
  let ?l = "line[dst := a, dst + 1 := b, dst + 2 := c]"
  have rd2: "rd (line[dst := a, dst + 1 := b]) (p + 2) = Some d2" "rd (line[dst := a, dst + 1 := b]) (p + 3) = Some d3"
    using rd_drop[OF dr, of 2] rd_drop[OF dr, of 3] 4(4) by (auto simp: rd_def split: if_splits)
  have t3: "take (dst + 3) ?l = take dst line @ [a, b, c]"
    using l by (simp add: numeral_3_eq_3 take_write)
  have t3': "take (Suc (Suc (Suc dst))) ?l = take dst line @ [a, b, c]"
    using l by (simp add: take_write)
  have step: "uu_merge line dst p e = (if 0 < e - 4 then uu_merge ?l (dst + 3) (p + 4) (e - 4) else Some (?l, dst + 3))"
    if "4 \<le> e" for e
    using rd_drop[OF dr, of 0] rd_drop[OF dr, of 1] rd_drop[OF dr1, of 1] rd_drop[OF dr1, of 2] rd2 m l that
    by (simp add: uu_merge.simps[of line dst p])
  have l3: "length (a # b # c # s) = 3 + length s" by simp
  have e: "int ((3 + length s) * 4 div 3) = 4 + int (length s * 4 div 3)" by simp
  have "\<exists>line'. uu_merge line dst p (4 + int (length s * 4 div 3)) = Some (line', dst + (3 + length s))
      \<and> take (dst + (3 + length s)) line' = take dst line @ a # b # c # s"
  proof (cases "s = []")
    case True
    then show ?thesis using step[of 4] t3 t3' by (intro exI[of _ ?l]) simp
  next
    case False
    have dr': "drop (p + 4) ?l = sixes s @ [0]" using dr4 4(4) by simp
    have "1 * 4 div 3 \<le> length s * 4 div 3" using False by (intro div_le_mono mult_le_mono1) (simp add: Suc_le_eq)
    then have pos: "0 < int (length s * 4 div 3)" by simp
    obtain line' where "uu_merge ?l (dst + 3) (p + 4) (int (length s * 4 div 3)) = Some (line', dst + 3 + length s)"
      "take (dst + 3 + length s) line' = take (dst + 3) ?l @ s"
      using 4(1)[OF False dr', of "dst + 3"] 4(4) by auto
    then show ?thesis using step[of "4 + int (length s * 4 div 3)"] pos t3
      by (intro exI[of _ line']) (simp add: add.assoc)
  qed
  then show ?case unfolding l3 e .
qed simp

lemma fgetline_line: "10 \<notin> set l \<Longrightarrow> 0 \<notin> set l \<Longrightarrow> fgetline (l @ 10 # r) = Some (l, r)"
proof -
  assume "10 \<notin> set l" "0 \<notin> set l"
  then have "get_chunk (l @ 10 # r) = (l @ [10], r)" by (induction l) auto
  then show ?thesis by (simp add: fgetline_def)
qed

lemma group_bound: "n * 4 div 3 \<le> 4 * ((n + 2) div 3)" for n :: nat
proof -
  have "n * 4 div 3 * 3 \<le> n * 4" "n + 2 < (n + 2) div 3 * 3 + 3"
    using div_mult_mod_eq[of "n * 4" 3] div_mult_mod_eq[of "n + 2" 3] mod_less_divisor[of 3 "n + 2"] by linarith+
  then show ?thesis by linarith
qed

definition uu_tail :: "u8 list" where
  "uu_tail = [10, 96, 10] @ bytes ''end'' @ [10]"

lemma uu_line:
  assumes "s \<noteq> []" "length s \<le> 45" "read_stduu rest = Some (e, out)"
  shows "read_stduu (bb_uuenc_tbl_std ! length s # code bb_uuenc_tbl_std s @ 10 # rest) = Some (e, s @ out)"
proof -
  let ?line = "bb_uuenc_tbl_std ! length s # code bb_uuenc_tbl_std s"
  let ?v = "of_nat (length s) # sixes s @ [0 :: u8]"
  have c: "(bb_uuenc_tbl_std ! length s - 0x20) AND 0x3f = of_nat (length s)" "bb_uuenc_tbl_std ! length s \<notin> {0, 10}"
    using tbl_std[of "length s"] assms(2) by simp_all
  have f: "fgetline (?line @ 10 # rest) = Some (?line, rest)"
    using c(2) code_std(2,3)[of s] by (intro fgetline_line) auto
  have v: "map (\<lambda>c. (c - 0x20) AND 0x3f) ?line @ [0] = ?v" using c(1) code_std(1)[of s] by simp
  have u: "uint (of_nat (length s) :: u8) = int (length s)" using assms(2) by (simp add: unsigned_of_nat take_bit_eq_mod)
  have e: "uint (of_nat (length s) :: u8) * 4 div 3 = int (length s * 4 div 3)" unfolding u by (simp add: zdiv_int)
  have "1 * 4 div 3 \<le> length s * 4 div 3" using assms(1) by (intro div_le_mono mult_le_mono1) (simp add: Suc_le_eq)
  then have pos: "0 < length s * 4 div 3" by simp
  have "length s * 4 div 3 \<le> 45 * 4 div 3" using assms(2) by (intro div_le_mono mult_le_mono1)
  then have le: "length s * 4 div 3 \<le> 60" by simp
  have len: "\<not> int (length ?v) - 1 \<le> int (length s * 4 div 3)"
    using group_bound[of "length s"] by (simp add: length_sixes)
  obtain line' where m: "uu_merge ?v 0 1 (int (length s * 4 div 3)) = Some (line', length s)" "take (length s) line' = s"
    using uu_merge_result[OF assms(1), of 1 ?v 0] by auto
  have "length ?line = 4 * ((length s + 2) div 3) + 1" by (simp add: length_code)
  moreover have "1 \<le> (length s + 2) div 3" using assms(1) by (cases s) simp_all
  ultimately have "length ?line \<noteq> length (bytes ''end'')" by simp
  then have ne: "?line \<noteq> bytes ''end''" by metis
  have v0: "?v ! 0 = of_nat (length s)" by simp
  have "read_stduu (?line @ 10 # rest) = (do { (line, n) \<leftarrow> uu_merge ?v 0 1 (int (length s * 4 div 3));
      (e, out) \<leftarrow> read_stduu rest; Some (e, take n line @ out) })"
    unfolding read_stduu.simps[of "?line @ 10 # rest"] f option.case prod.case Let_def v if_not_P[OF ne] v0 e
      if_not_P[OF len]
    using pos le by simp
  then show ?thesis using m assms(3) by simp
qed

lemma uu_end: "read_stduu (drop 1 uu_tail) = Some (Finished, [])"
  by code_simp

lemma uu_chunks:
  "\<exists>out out'. uuencode_chunks bb_uuenc_tbl_std src = Some out \<and> out @ uu_tail = 10 # out'
    \<and> read_stduu out' = Some (Finished, src)"
proof (induction "length src" arbitrary: src rule: less_induct)
  case less
  show ?case
  proof (cases "src = []")
    case True
    then show ?thesis using uu_end by (simp add: uuencode_chunks.simps) (simp add: uu_tail_def)
  next
    case False
    let ?n = "min 45 (length src)"
    let ?s = "take ?n src" and ?r = "drop ?n src"
    obtain out out' where out: "uuencode_chunks bb_uuenc_tbl_std ?r = Some out"
      "out @ uu_tail = 10 # out'" "read_stduu out' = Some (Finished, ?r)"
      using less.hyps[of ?r] False by auto
    have "uuencode_chunks bb_uuenc_tbl_std src = Some (10 # bb_uuenc_tbl_std ! ?n # code bb_uuenc_tbl_std ?s @ out)"
      using False out(1) bb_uuencode_code[of bb_uuenc_tbl_std ?s] take_code[of ?s bb_uuenc_tbl_std]
      by (simp add: uuencode_chunks.simps[of _ src] Let_def)
    moreover have "read_stduu (bb_uuenc_tbl_std ! length ?s # code bb_uuenc_tbl_std ?s @ 10 # out') = Some (Finished, ?s @ ?r)"
      by (rule uu_line) (use False out(3) in auto)
    ultimately show ?thesis using out(2) by simp
  qed
qed

lemma base64_lines:
  assumes "n \<le> 2"
  shows "\<exists>out. uuencode_chunks bb_uuenc_tbl_base64 src = Some out \<and> (\<exists>out'. out @ [10] = 10 # out')
    \<and> base64_loop (- 128) uu n [] (out @ [10] @ rest) = after src (base64_loop (- 128) uu 0 [] rest)"
  using assms
proof (induction "length src" arbitrary: src n rule: less_induct)
  case less
  show ?case
  proof (cases "src = []")
    case True
    then show ?thesis using less.prems by (simp add: uuencode_chunks.simps loop_pad)
  next
    case False
    let ?n = "min 45 (length src)"
    let ?s = "take ?n src" and ?r = "drop ?n src"
    obtain n' where n': "n' \<le> 2" "base64_loop (- 128) uu 0 [] (code bb_uuenc_tbl_base64 ?s @ t) =
        after ?s (base64_loop (- 128) uu n' [] t)" if "t = the (uuencode_chunks bb_uuenc_tbl_base64 ?r) @ [10] @ rest" for t
      using loop_code[of "- 128" 0 uu ?s "the (uuencode_chunks bb_uuenc_tbl_base64 ?r) @ [10] @ rest"] by auto
    obtain out where out: "uuencode_chunks bb_uuenc_tbl_base64 ?r = Some out"
      "base64_loop (- 128) uu n' [] (out @ [10] @ rest) = after ?r (base64_loop (- 128) uu 0 [] rest)"
      using less.hyps[of ?r n'] False n'(1) by auto
    have "uuencode_chunks bb_uuenc_tbl_base64 src = Some (10 # code bb_uuenc_tbl_base64 ?s @ out)"
      using False out(1) bb_uuencode_code[of bb_uuenc_tbl_base64 ?s] take_code[of ?s bb_uuenc_tbl_base64]
      by (simp add: uuencode_chunks.simps[of _ src] Let_def)
    moreover have "base64_loop (- 128) uu n [] (10 # code bb_uuenc_tbl_base64 ?s @ out @ [10] @ rest)
        = after src (base64_loop (- 128) uu 0 [] rest)"
      using less.prems n'(2)[of "out @ [10] @ rest"] out by (simp add: loop_pad)
    ultimately show ?thesis by simp
  qed
qed

text \<open>C35. What \<open>uuencode\<close> writes, \<open>uudecode\<close> reads back, for any input and with or without
  \<open>-m\<close>: it finds the header, takes the name from it and restores exactly the bytes, although it
  decodes each line in place.\<close>
theorem uuencode_roundtrip:
  assumes "set mode \<inter> {0, 10, 32} = {}" "set name \<inter> {0, 10} = {}"
  shows "\<exists>text. uuencode_main m mode name src = Some text
    \<and> uudecode_main None text = Some (Finished, Some name, src)"
proof -
  have "dropWhile (\<lambda>c. c \<noteq> 32) mode = []" using assms(1) by (auto simp: dropWhile_eq_Nil_conv)
  then have name: "after_space (mode @ 32 # name) = Some name"
    using assms(1) by (simp add: after_space_def dropWhile_append)
  show ?thesis
proof (cases m)
  case False
  obtain out out' where out: "uuencode_chunks bb_uuenc_tbl_std src = Some out"
    "out @ uu_tail = 10 # out'" "read_stduu out' = Some (Finished, src)"
    using uu_chunks[of src] by blast
  let ?l = "bytes ''begin '' @ mode @ 32 # name"
  have f: "fgetline (?l @ 10 # out') = Some (?l, out')" using assms by (intro fgetline_line) auto
  have "uuencode_main m mode name src = Some (?l @ 10 # out')"
    using False out by (simp add: uuencode_main_def uu_tail_def)
  moreover have "uudecode_main None (?l @ 10 # out') = Some (Finished, Some name, src)"
    unfolding uudecode_main.simps[of None "?l @ 10 # out'"] f option.case prod.case Let_def
    using out(3) name by simp
  ultimately show ?thesis by blast
next
  case True
  obtain out out' where out: "uuencode_chunks bb_uuenc_tbl_base64 src = Some out"
    "base64_loop (- 128) True 0 [] (out @ [10] @ bytes ''===='' @ [10]) =
      after src (base64_loop (- 128) True 0 [] (bytes ''===='' @ [10]))" "out @ [10] = 10 # out'"
    using base64_lines[of 0 src True] by blast
  let ?l = "bytes ''begin-base64 '' @ mode @ 32 # name" and ?e = "bytes ''===='' @ [10]"
  have f: "fgetline (?l @ 10 # out' @ ?e) = Some (?l, out' @ ?e)"
    using assms by (intro fgetline_line) auto
  have "uuencode_main m mode name src = Some (?l @ (out @ [10]) @ ?e)"
    using True out(1) by (simp add: uuencode_main_def)
  then have t: "uuencode_main m mode name src = Some (?l @ 10 # out' @ ?e)" by (simp only: out(3) append_Cons)
  have "base64_loop (- 128) True 0 [] ?e = (Finished, [], [])" by code_simp
  moreover have "base64_loop (- 128) True 0 [] (out' @ ?e) = base64_loop (- 128) True 0 [] ((out @ [10]) @ ?e)"
    unfolding out(3) by (simp add: loop_pad)
  ultimately have "base64_loop (- 128) True 0 [] (out' @ ?e) = (Finished, src, [])"
    using out(2) by (simp add: after_def)
  moreover have "sint (ucast (0x180 :: u32) :: u8) = - 128" "(0x180 :: u32) AND 0x100 \<noteq> 0" by code_simp+
  ultimately have r: "read_base64 0x180 (out' @ ?e) = (Finished, src, [])" by (simp add: read_base64_def)
  have "uudecode_main None (?l @ 10 # out' @ ?e) = Some (Finished, Some name, src)"
    unfolding uudecode_main.simps[of None "?l @ 10 # out' @ ?e"] f option.case prod.case Let_def r
    using name by simp
  then show ?thesis using t by blast
qed
qed

theorem uuencode_roundtrip_witness:
  "\<exists>text. uuencode_main False (bytes ''644'') (bytes ''a b'') [0, 255, 10, 39] = Some text
     \<and> uudecode_main None text = Some (Finished, Some (bytes ''a b''), [0, 255, 10, 39])"
  by (rule uuencode_roundtrip) simp_all

lemma NUL_is_data:
  \<comment> \<open>A NUL byte in base64 text counts as the digit 2: \<open>strchr\<close> finds it at the end of the table.\<close>
  "base64_main True (bytes ''eQ'' @ [0, 0]) = Some (Finished, [121, 0, 130])"
  by code_simp

end
