(* ===== verification/Dhcp_Packet.thy ===== *)
theory Dhcp_Packet
  imports Byte_Order
begin

text \<open>
  The DHCP message of busybox udhcp (\<open>networking/udhcp/common.h\<close>, \<open>common.c\<close>, \<open>packet.c\<close>): the
  packed structure, the search for an option over the \<open>options\<close>, \<open>file\<close> and \<open>sname\<close> fields, and
  the operations that append options. Offsets of the search are into the tail of the structure
  (\<open>sname\<close>, \<open>file\<close>, \<open>cookie\<close>, \<open>options\<close>, contiguous because the structure is packed);
  \<open>None\<close> is an access beyond its end. The property is that what was appended is what the
  search finds.
\<close>

unbundle bit_operations_syntax

subsection \<open>The message\<close>

record dhcp_packet =
  pk_op :: u8
  pk_htype :: u8
  pk_hlen :: u8
  pk_hops :: u8
  pk_xid :: u32
  pk_secs :: u16
  pk_flags :: u16
  pk_ciaddr :: u32
  pk_yiaddr :: u32
  pk_siaddr_nip :: u32
  pk_gateway_nip :: u32
  pk_chaddr :: "u8 list"
  pk_sname :: "u8 list"
  pk_file :: "u8 list"
  pk_cookie :: u32
  pk_options :: "u8 list"

abbreviation OPTIONS_SIZE :: nat where "OPTIONS_SIZE \<equiv> 388"
  \<comment> \<open>\<open>DHCP_OPTIONS_BUFSIZE + CONFIG_UDHCPC_SLACK_FOR_BUGGY_SERVERS\<close>\<close>

abbreviation DHCP_OPTIONS_BUFSIZE :: nat where "DHCP_OPTIONS_BUFSIZE \<equiv> 308"

definition wf_packet :: "dhcp_packet \<Rightarrow> bool" where
  "wf_packet p \<longleftrightarrow> length (pk_chaddr p) = 16 \<and> length (pk_sname p) = 64 \<and> length (pk_file p) = 128
     \<and> length (pk_options p) = OPTIONS_SIZE"

definition packet_tail :: "dhcp_packet \<Rightarrow> u8 list" where
  "packet_tail p = pk_sname p @ pk_file p @ le_bytes 4 (pk_cookie p) @ pk_options p"

abbreviation SNAME_OFF :: nat where "SNAME_OFF \<equiv> 0"
abbreviation FILE_OFF :: nat where "FILE_OFF \<equiv> 64"
abbreviation OPTIONS_OFF :: nat where "OPTIONS_OFF \<equiv> 196"

abbreviation DHCP_PADDING :: u8 where "DHCP_PADDING \<equiv> 0x00"
abbreviation DHCP_HOST_NAME :: u8 where "DHCP_HOST_NAME \<equiv> 0x0c"
abbreviation DHCP_REQUESTED_IP :: u8 where "DHCP_REQUESTED_IP \<equiv> 0x32"
abbreviation DHCP_LEASE_TIME :: u8 where "DHCP_LEASE_TIME \<equiv> 0x33"
abbreviation DHCP_OPTION_OVERLOAD :: u8 where "DHCP_OPTION_OVERLOAD \<equiv> 0x34"
abbreviation DHCP_MESSAGE_TYPE :: u8 where "DHCP_MESSAGE_TYPE \<equiv> 0x35"
abbreviation DHCP_SERVER_ID :: u8 where "DHCP_SERVER_ID \<equiv> 0x36"
abbreviation DHCP_VENDOR :: u8 where "DHCP_VENDOR \<equiv> 0x3c"
abbreviation DHCP_END :: u8 where "DHCP_END \<equiv> 0xff"

abbreviation FILE_FIELD :: u32 where "FILE_FIELD \<equiv> 1"
abbreviation SNAME_FIELD :: u32 where "SNAME_FIELD \<equiv> 2"
abbreviation FILE_FIELD101 :: u32 where "FILE_FIELD101 \<equiv> 0x101"
abbreviation SNAME_FIELD101 :: u32 where "SNAME_FIELD101 \<equiv> 0x202"

definition rd32 :: "u8 list \<Rightarrow> nat \<Rightarrow> u32 option" where
  \<comment> \<open>\<open>move_from_unaligned32\<close> on a little-endian machine.\<close>
  "rd32 m i = (if i + 4 \<le> length m then Some (le_word (take 4 (drop i m))) else None)"

definition htonl :: "u32 \<Rightarrow> u32" where
  \<comment> \<open>Also \<open>ntohl\<close>.\<close>
  "htonl w = bswap 4 w"

subsection \<open>Search for an option\<close>

definition unlooked :: "u32 \<Rightarrow> nat" where
  "unlooked overload = (if bit overload 8 then 0 else 1) + (if bit overload 9 then 0 else 1)"

lemma unlooked_byte [simp]: "unlooked (overload OR ucast (b :: u8)) = unlooked overload"
  by (auto simp: unlooked_def bit_simps dest: bit_imp_le_length)

lemma unlooked_file:
  assumes "overload AND FILE_FIELD101 = FILE_FIELD"
  shows "unlooked (overload OR FILE_FIELD101) < unlooked overload"
proof -
  have "bit (overload AND FILE_FIELD101) 8 = bit FILE_FIELD 8" by (simp only: assms)
  then show ?thesis by (simp add: unlooked_def bit_simps)
qed

lemma unlooked_sname:
  assumes "overload AND SNAME_FIELD101 = SNAME_FIELD"
  shows "unlooked (overload OR SNAME_FIELD101) < unlooked overload"
proof -
  have "bit (overload AND SNAME_FIELD101) 9 = bit SNAME_FIELD 9" by (simp only: assms)
  then show ?thesis by (simp add: unlooked_def bit_simps)
qed

function get_option_loop :: "u8 list \<Rightarrow> u8 \<Rightarrow> u32 \<Rightarrow> nat \<Rightarrow> int \<Rightarrow> nat option option" where
  "get_option_loop m code overload p rem =
     (if rem \<le> 0 then Some None
      else case rd m p of None \<Rightarrow> None | Some c \<Rightarrow>
        if c = DHCP_PADDING then get_option_loop m code overload (p + 1) (rem - 1)
        else if c = DHCP_END then
          if overload AND FILE_FIELD101 = FILE_FIELD
          then get_option_loop m code (overload OR FILE_FIELD101) FILE_OFF 128
          else if overload AND SNAME_FIELD101 = SNAME_FIELD
          then get_option_loop m code (overload OR SNAME_FIELD101) SNAME_OFF 64
          else Some None
        else case rd m (p + 1) of None \<Rightarrow> None | Some l \<Rightarrow>
          if rem - (2 + uint l) < 0 then Some None
          else if c = code then Some (Some (p + 2))
          else if c = DHCP_OPTION_OVERLOAD then
            (case rd m (p + 2) of None \<Rightarrow> None | Some b \<Rightarrow>
               get_option_loop m code (overload OR ucast b) (p + 2 + unat l) (rem - (2 + uint l)))
          else get_option_loop m code overload (p + 2 + unat l) (rem - (2 + uint l)))"
  by pat_completeness auto

termination
  by (relation "measures [\<lambda>(m, code, overload, p, rem). unlooked overload,
        \<lambda>(m, code, overload, p, rem). nat rem]")
    (auto simp: unlooked_file unlooked_sname intro: less_le_trans[OF _ unsigned_greater_eq])

declare get_option_loop.simps [simp del]

definition udhcp_get_option :: "dhcp_packet \<Rightarrow> u8 \<Rightarrow> nat option option" where
  \<comment> \<open>The inner \<open>None\<close> is the NULL pointer.\<close>
  "udhcp_get_option p code = get_option_loop (packet_tail p) code 0 OPTIONS_OFF (int OPTIONS_SIZE)"

subsection \<open>Appending options\<close>

function end_option_loop :: "u8 list \<Rightarrow> nat \<Rightarrow> nat option" where
  "end_option_loop m i =
     (case rd m i of None \<Rightarrow> None | Some c \<Rightarrow>
        if c = DHCP_END then Some i
        else if c = DHCP_PADDING then end_option_loop m (i + 1)
        else case rd m (i + 1) of None \<Rightarrow> None | Some l \<Rightarrow> end_option_loop m (i + unat l + 1 + 1))"
  by pat_completeness auto

termination
  by (relation "measure (\<lambda>(m, i). length m - i)") (auto simp: rd_def split: if_splits)

declare end_option_loop.simps [simp del]

definition udhcp_end_option :: "u8 list \<Rightarrow> nat option" where
  "udhcp_end_option m = end_option_loop m 0"

definition udhcp_add_binary_option :: "dhcp_packet \<Rightarrow> u8 list \<Rightarrow> dhcp_packet option" where
  "udhcp_add_binary_option p addopt = do {
     en \<leftarrow> udhcp_end_option (pk_options p);
     l \<leftarrow> rd addopt 1;
     let len = 2 + unat l;
     if en + len + 1 \<ge> DHCP_OPTIONS_BUFSIZE then Some p
     else if length addopt < len then None
     else Some (p\<lparr>pk_options := write_at (write_at (pk_options p) en (take len addopt)) (en + len) [DHCP_END]\<rparr>) }"

abbreviation OPTION_IP :: u8 where "OPTION_IP \<equiv> 1"
abbreviation OPTION_IP_PAIR :: u8 where "OPTION_IP_PAIR \<equiv> 2"
abbreviation OPTION_STRING :: u8 where "OPTION_STRING \<equiv> 3"
abbreviation OPTION_U8 :: u8 where "OPTION_U8 \<equiv> 4"
abbreviation OPTION_U16 :: u8 where "OPTION_U16 \<equiv> 5"
abbreviation OPTION_U32 :: u8 where "OPTION_U32 \<equiv> 6"
abbreviation OPTION_S32 :: u8 where "OPTION_S32 \<equiv> 7"
abbreviation OPTION_STATIC_ROUTES :: u8 where "OPTION_STATIC_ROUTES \<equiv> 9"
abbreviation OPTION_DNS_STRING :: u8 where "OPTION_DNS_STRING \<equiv> 10"
abbreviation OPTION_SIP_SERVERS :: u8 where "OPTION_SIP_SERVERS \<equiv> 11"
abbreviation OPTION_TYPE_MASK :: u8 where "OPTION_TYPE_MASK \<equiv> 0x0f"
abbreviation OPTION_REQ :: u8 where "OPTION_REQ \<equiv> 0x10"
abbreviation OPTION_LIST :: u8 where "OPTION_LIST \<equiv> 0x20"

definition dhcp_optflags :: "(u8 \<times> u8) list" where
  \<comment> \<open>Flags and code of the options, without the zero entry that ends the table.\<close>
  "dhcp_optflags = [
     (OPTION_IP OR OPTION_REQ, 0x01),
     (OPTION_S32, 0x02),
     (OPTION_IP OR OPTION_LIST OR OPTION_REQ, 0x03),
     (OPTION_IP OR OPTION_LIST OR OPTION_REQ, 0x06),
     (OPTION_IP OR OPTION_LIST, 0x09),
     (OPTION_STRING OR OPTION_REQ, 0x0c),
     (OPTION_U16, 0x0d),
     (OPTION_STRING OR OPTION_REQ, 0x0f),
     (OPTION_IP, 0x10),
     (OPTION_STRING, 0x11),
     (OPTION_U8, 0x17),
     (OPTION_U16, 0x1a),
     (OPTION_IP OR OPTION_REQ, 0x1c),
     (OPTION_IP_PAIR OR OPTION_LIST, 0x21),
     (OPTION_STRING, 0x28),
     (OPTION_IP OR OPTION_LIST, 0x29),
     (OPTION_IP OR OPTION_LIST OR OPTION_REQ, 0x2a),
     (OPTION_IP OR OPTION_LIST, 0x2c),
     (OPTION_U32, 0x33),
     (OPTION_IP, 0x36),
     (OPTION_STRING, 0x38),
     (OPTION_STRING, 0x42),
     (OPTION_STRING, 0x43),
     (OPTION_DNS_STRING OR OPTION_LIST, 0x77),
     (OPTION_SIP_SERVERS, 0x78),
     (OPTION_STATIC_ROUTES, 0x79),
     (OPTION_STATIC_ROUTES, 0xf9),
     (OPTION_STRING, 0xfc),
     (OPTION_IP, 0x32),
     (OPTION_U8, 0x35),
     (OPTION_U16, 0x39)]"

definition dhcp_option_lengths :: "u8 list" where
  \<comment> \<open>Indexed by the option type; the types the initialiser leaves out (0 and \<open>OPTION_BIN\<close>) are 0.\<close>
  "dhcp_option_lengths = [0, 4, 8, 1, 1, 2, 4, 4, 0, 5, 1, 1]"

fun add_simple_loop :: "(u8 \<times> u8) list \<Rightarrow> dhcp_packet \<Rightarrow> u8 \<Rightarrow> u32 \<Rightarrow> dhcp_packet option" where
  "add_simple_loop [] p code data = Some p"
| "add_simple_loop ((fl, c) # dh) p code data =
     (if c = code then do {
        l \<leftarrow> rd dhcp_option_lengths (unat (fl AND OPTION_TYPE_MASK));
        udhcp_add_binary_option p (code # l # le_bytes 4 data) }
      else add_simple_loop dh p code data)"

definition udhcp_add_simple_option :: "dhcp_packet \<Rightarrow> u8 \<Rightarrow> u32 \<Rightarrow> dhcp_packet option" where
  "udhcp_add_simple_option p code data = add_simple_loop dhcp_optflags p code data"

fun udhcp_find_option :: "u8 list list \<Rightarrow> u8 \<Rightarrow> u8 list option" where
  \<comment> \<open>The list is ordered by option code.\<close>
  "udhcp_find_option [] code = None"
| "udhcp_find_option (d # ds) code =
     (if d ! 0 < code then udhcp_find_option ds code
      else if d ! 0 = code then Some d else None)"

abbreviation DHCPDISCOVER :: u8 where "DHCPDISCOVER \<equiv> 1"
abbreviation DHCPOFFER :: u8 where "DHCPOFFER \<equiv> 2"
abbreviation DHCPREQUEST :: u8 where "DHCPREQUEST \<equiv> 3"
abbreviation DHCPDECLINE :: u8 where "DHCPDECLINE \<equiv> 4"
abbreviation DHCPACK :: u8 where "DHCPACK \<equiv> 5"
abbreviation DHCPNAK :: u8 where "DHCPNAK \<equiv> 6"
abbreviation DHCPRELEASE :: u8 where "DHCPRELEASE \<equiv> 7"
abbreviation DHCPINFORM :: u8 where "DHCPINFORM \<equiv> 8"
abbreviation DHCP_MAGIC :: u32 where "DHCP_MAGIC \<equiv> 0x63825363"
abbreviation BOOTREQUEST :: u8 where "BOOTREQUEST \<equiv> 1"
abbreviation BOOTREPLY :: u8 where "BOOTREPLY \<equiv> 2"

definition udhcp_init_header :: "u8 \<Rightarrow> dhcp_packet option" where
  "udhcp_init_header type = udhcp_add_simple_option
     \<lparr>pk_op = (if type = DHCPOFFER \<or> type = DHCPACK \<or> type = DHCPNAK then BOOTREPLY else BOOTREQUEST),
      pk_htype = 1, pk_hlen = 6, pk_hops = 0, pk_xid = 0, pk_secs = 0, pk_flags = 0,
      pk_ciaddr = 0, pk_yiaddr = 0, pk_siaddr_nip = 0, pk_gateway_nip = 0,
      pk_chaddr = replicate 16 0, pk_sname = replicate 64 0, pk_file = replicate 128 0,
      pk_cookie = htonl DHCP_MAGIC, pk_options = DHCP_END # replicate 387 0\<rparr>
     DHCP_MESSAGE_TYPE (scast type)"

subsection \<open>Options read back\<close>

definition opt_bytes :: "u8 \<times> u8 list \<Rightarrow> u8 list" where
  "opt_bytes o' = fst o' # of_nat (length (snd o')) # snd o'"

definition plain_option :: "u8 \<times> u8 list \<Rightarrow> bool" where
  \<comment> \<open>An option with a length byte: neither padding, nor the end mark, nor the overload option.\<close>
  "plain_option o' \<longleftrightarrow> fst o' \<notin> {DHCP_PADDING, DHCP_END, DHCP_OPTION_OVERLOAD} \<and> length (snd o') < 256"

definition opt_value :: "dhcp_packet \<Rightarrow> u8 \<Rightarrow> u8 list option option" where
  \<comment> \<open>The data bytes of the option found, the length byte being just before them.\<close>
  "opt_value p code = do {
     r \<leftarrow> udhcp_get_option p code;
     Some (map_option (\<lambda>q. take (unat (packet_tail p ! (q - 1))) (drop q (packet_tail p))) r) }"

primrec add_options :: "(u8 \<times> u8 list) list \<Rightarrow> dhcp_packet \<Rightarrow> dhcp_packet option" where
  "add_options [] p = Some p"
| "add_options (o' # os) p = do { p \<leftarrow> udhcp_add_binary_option p (opt_bytes o'); add_options os p }"

primrec accepted :: "nat \<Rightarrow> (u8 \<times> u8 list) list \<Rightarrow> (u8 \<times> u8 list) list" where
  \<comment> \<open>The options that fit into \<open>DHCP_OPTIONS_BUFSIZE\<close> bytes, the end mark included, of which
    the first \<open>en\<close> are taken.\<close>
  "accepted en [] = []"
| "accepted en (o' # os) =
     (if en + length (opt_bytes o') + 1 < DHCP_OPTIONS_BUFSIZE
      then o' # accepted (en + length (opt_bytes o')) os else accepted en os)"

abbreviation encoding :: "(u8 \<times> u8 list) list \<Rightarrow> u8 list" where
  "encoding os \<equiv> concat (map opt_bytes os)"

definition holds_options :: "dhcp_packet \<Rightarrow> (u8 \<times> u8 list) list \<Rightarrow> bool" where
  "holds_options p os \<longleftrightarrow> wf_packet p \<and> list_all plain_option os \<and>
     length (encoding os) + 1 < DHCP_OPTIONS_BUFSIZE \<and>
     take (length (encoding os) + 1) (pk_options p) = encoding os @ [DHCP_END]"

lemma length_opt_bytes [simp]: "length (opt_bytes o') = 2 + length (snd o')"
  by (simp add: opt_bytes_def)

lemma opt_bytes_len: "plain_option o' \<Longrightarrow> unat (opt_bytes o' ! 1) = length (snd o')"
  by (simp add: opt_bytes_def plain_option_def unsigned_of_nat take_bit_nat_eq_self)

lemma rd_append: "rd (xs @ ys) (length xs + i) = rd ys i"
  by (simp add: rd_def nth_append)

lemma rd_append0: "rd (xs @ ys) (length xs) = rd ys 0"
  using rd_append[of xs ys 0] by simp

lemma end_option_encoding:
  "list_all plain_option os \<Longrightarrow>
   end_option_loop (pre @ encoding os @ DHCP_END # rest) (length pre) = Some (length pre + length (encoding os))"
proof (induction os arbitrary: pre)
  case Nil
  then show ?case by (subst end_option_loop.simps) simp
next
  case (Cons o' os)
  let ?m = "pre @ opt_bytes o' @ encoding os @ DHCP_END # rest"
  have o': "plain_option o'" using Cons.prems by simp
  have c: "rd ?m (length pre) = Some (fst o')" by (simp add: opt_bytes_def)
  have l: "rd ?m (length pre + 1) = Some (opt_bytes o' ! 1)"
    by (subst rd_append) (simp add: rd_def nth_append)
  have IH: "end_option_loop ((pre @ opt_bytes o') @ encoding os @ DHCP_END # rest) (length (pre @ opt_bytes o'))
      = Some (length (pre @ opt_bytes o') + length (encoding os))"
    using Cons by (intro Cons.IH) simp
  have "end_option_loop ?m (length pre) = end_option_loop ?m (length pre + unat (opt_bytes o' ! 1) + 1 + 1)"
    using o' c l by (subst end_option_loop.simps) (simp add: plain_option_def)
  then show ?case using IH opt_bytes_len[OF o'] by simp
qed

lemma get_option_encoding:
  "list_all plain_option os \<Longrightarrow> int (length (encoding os)) < rem \<Longrightarrow>
   \<exists>r. get_option_loop (pre @ encoding os @ DHCP_END # rest) code 0 (length pre) rem = Some r
     \<and> map_option (\<lambda>q. take (unat ((pre @ encoding os @ DHCP_END # rest) ! (q - 1)))
           (drop q (pre @ encoding os @ DHCP_END # rest))) r = map_of os code"
proof (induction os arbitrary: pre rem)
  case Nil
  then show ?case by (subst get_option_loop.simps) simp
next
  case (Cons o' os)
  let ?m = "pre @ opt_bytes o' @ encoding os @ DHCP_END # rest"
  have o': "plain_option o'" using Cons.prems by simp
  have c: "rd ?m (length pre) = Some (fst o')" by (simp add: opt_bytes_def)
  have l: "rd ?m (length pre + 1) = Some (opt_bytes o' ! 1)"
    by (subst rd_append) (simp add: rd_def nth_append)
  have ul: "uint (opt_bytes o' ! 1) = int (length (snd o'))"
    unfolding opt_bytes_len[OF o', symmetric] by simp
  have len: "int (2 + length (snd o')) + int (length (encoding os)) < rem" using Cons.prems by simp
  show ?case
  proof (cases "fst o' = code")
    case True
    have "get_option_loop ?m code 0 (length pre) rem = Some (Some (length pre + 2))"
      using o' c l ul len True by (subst get_option_loop.simps) (simp add: plain_option_def)
    moreover have "?m ! (length pre + 2 - 1) = opt_bytes o' ! 1" by (simp add: nth_append)
    moreover have "drop (length pre + 2) ?m = snd o' @ encoding os @ DHCP_END # rest"
      by (simp add: opt_bytes_def)
    ultimately show ?thesis using opt_bytes_len[OF o'] True by (cases o') simp
  next
    case False
    have "get_option_loop ?m code 0 (length pre) rem
        = get_option_loop ?m code 0 (length pre + 2 + length (snd o')) (rem - (2 + int (length (snd o'))))"
      using o' c l ul opt_bytes_len[OF o'] len False
      by (subst get_option_loop.simps) (simp add: plain_option_def)
    moreover have "\<exists>r. get_option_loop ((pre @ opt_bytes o') @ encoding os @ DHCP_END # rest) code 0
          (length (pre @ opt_bytes o')) (rem - (2 + int (length (snd o')))) = Some r
        \<and> map_option (\<lambda>q. take (unat (((pre @ opt_bytes o') @ encoding os @ DHCP_END # rest) ! (q - 1)))
            (drop q ((pre @ opt_bytes o') @ encoding os @ DHCP_END # rest))) r = map_of os code"
      using Cons.prems len by (intro Cons.IH) simp_all
    ultimately show ?thesis using False by (cases o') (simp add: add.assoc)
  qed
qed

lemma holds_split:
  assumes "holds_options p os"
  shows "\<exists>rest. pk_options p = encoding os @ DHCP_END # rest"
proof -
  have "pk_options p = take (length (encoding os) + 1) (pk_options p) @ drop (length (encoding os) + 1) (pk_options p)"
    by simp
  also have "take (length (encoding os) + 1) (pk_options p) = encoding os @ [DHCP_END]"
    using assms by (simp add: holds_options_def)
  finally have "pk_options p = encoding os @ DHCP_END # drop (length (encoding os) + 1) (pk_options p)"
    by (simp only: append.assoc append.simps)
  then show ?thesis by (rule exI)
qed

lemma holds_end_option:
  assumes "holds_options p os"
  shows "udhcp_end_option (pk_options p) = Some (length (encoding os))"
proof -
  obtain rest where "pk_options p = encoding os @ DHCP_END # rest" using holds_split[OF assms] ..
  then show ?thesis
    using end_option_encoding[of os "[]" rest] assms by (simp add: udhcp_end_option_def holds_options_def)
qed

lemma add_binary_holds:
  assumes p: "holds_options p os" and o': "plain_option o'"
  shows "\<exists>xs. udhcp_add_binary_option p (opt_bytes o') = Some (p\<lparr>pk_options := xs\<rparr>)
    \<and> holds_options (p\<lparr>pk_options := xs\<rparr>) (os @ accepted (length (encoding os)) [o'])"
proof -
  let ?n = "length (encoding os)" let ?b = "opt_bytes o'"
  have l: "rd ?b 1 = Some (?b ! 1)" by (simp add: rd_def)
  show ?thesis
  proof (cases "?n + length ?b + 1 < DHCP_OPTIONS_BUFSIZE")
    case False
    then have "udhcp_add_binary_option p ?b = Some (p\<lparr>pk_options := pk_options p\<rparr>)"
      using l opt_bytes_len[OF o'] by (simp add: udhcp_add_binary_option_def holds_end_option[OF p])
    then show ?thesis using False p by (intro exI[of _ "pk_options p"]) simp
  next
    case True
    let ?x1 = "write_at (pk_options p) ?n ?b"
    let ?x = "write_at ?x1 (?n + length ?b) [DHCP_END]"
    have len: "length (pk_options p) = OPTIONS_SIZE" using p by (simp add: holds_options_def wf_packet_def)
    have len1: "length ?x1 = OPTIONS_SIZE" using True len by simp
    obtain rest where rest: "pk_options p = encoding os @ DHCP_END # rest" using holds_split[OF p] ..
    have "take ?n (pk_options p) = encoding os" by (simp add: rest)
    then have "take (?n + length ?b) ?x1 = encoding os @ ?b"
      using take_write_at_end[of ?n "pk_options p" ?b] True len by simp
    then have "take (?n + length ?b + 1) ?x = encoding os @ ?b @ [DHCP_END]"
      using take_write_at_end[of "?n + length ?b" ?x1 "[DHCP_END]"] True len1 by simp
    moreover have "length ?x = OPTIONS_SIZE" using True len1 by simp
    ultimately have "holds_options (p\<lparr>pk_options := ?x\<rparr>) (os @ [o'])"
      using p o' True by (simp add: holds_options_def wf_packet_def)
    moreover have "udhcp_add_binary_option p ?b = Some (p\<lparr>pk_options := ?x\<rparr>)"
      using l opt_bytes_len[OF o'] True by (simp add: udhcp_add_binary_option_def holds_end_option[OF p])
    ultimately show ?thesis using True by (intro exI[of _ ?x]) simp
  qed
qed

lemma accepted_append:
  "accepted n (xs @ ys) = accepted n xs @ accepted (n + length (encoding (accepted n xs))) ys"
  by (induction xs arbitrary: n) (simp_all add: add.assoc)

lemma add_options_hold:
  assumes "holds_options p os" "list_all plain_option qs"
  shows "\<exists>xs. add_options qs p = Some (p\<lparr>pk_options := xs\<rparr>)
    \<and> holds_options (p\<lparr>pk_options := xs\<rparr>) (os @ accepted (length (encoding os)) qs)"
  using assms
proof (induction qs arbitrary: p os)
  case Nil
  then show ?case by (intro exI[of _ "pk_options p"]) simp
next
  case (Cons q qs)
  obtain xs where xs: "udhcp_add_binary_option p (opt_bytes q) = Some (p\<lparr>pk_options := xs\<rparr>)"
    "holds_options (p\<lparr>pk_options := xs\<rparr>) (os @ accepted (length (encoding os)) [q])"
    using add_binary_holds[OF Cons.prems(1), of q] Cons.prems(2) by auto
  show ?case
    using Cons.IH[OF xs(2)] Cons.prems(2) xs(1) accepted_append[of "length (encoding os)" "[q]" qs]
    by (auto split: if_splits)
qed

lemma opt_value_holds:
  assumes "holds_options p os"
  shows "opt_value p code = Some (map_of os code)"
proof -
  let ?pre = "pk_sname p @ pk_file p @ le_bytes 4 (pk_cookie p)"
  obtain rest where rest: "pk_options p = encoding os @ DHCP_END # rest" using holds_split[OF assms] ..
  have m: "packet_tail p = ?pre @ encoding os @ DHCP_END # rest" by (simp add: packet_tail_def rest)
  have pre: "length ?pre = OPTIONS_OFF" using assms by (simp add: holds_options_def wf_packet_def)
  have "list_all plain_option os" "int (length (encoding os)) < int OPTIONS_SIZE"
    using assms by (simp_all add: holds_options_def)
  from get_option_encoding[OF this, of ?pre rest code]
  show ?thesis unfolding opt_value_def udhcp_get_option_def m pre by auto
qed

lemma init_header_holds:
  "\<exists>p. udhcp_init_header type = Some p \<and> holds_options p [(DHCP_MESSAGE_TYPE, [type])]"
proof -
  have ty: "ucast (scast type :: u32) = type"
    by (rule bit_word_eqI) (auto simp: bit_simps)
  have b: "le_bytes 4 (scast type :: u32) ! 0 = type" by (simp add: le_bytes_def ty)
  have bytes: "le_bytes 4 (scast type :: u32) = type # drop 1 (le_bytes 4 (scast type :: u32))"
    using id_take_nth_drop[of 0 "le_bytes 4 (scast type :: u32)"] by (simp add: b)
  have fl: "OPTION_U8 AND OPTION_TYPE_MASK = 4" by simp
  have e: "udhcp_end_option (DHCP_END # replicate 387 0) = Some 0"
    by (simp add: udhcp_end_option_def end_option_loop.simps rd_def)
  have "take (Suc (Suc (Suc (Suc 0)))) (write_at (write_at (DHCP_END # replicate 387 0) 0
      (take (Suc (Suc (Suc 0))) (DHCP_MESSAGE_TYPE # 1 # le_bytes 4 (scast type :: u32)))) (Suc (Suc (Suc 0))) [DHCP_END])
    = [DHCP_MESSAGE_TYPE, 1, type, DHCP_END]"
    by (subst bytes) (simp add: write_at_def)
  moreover have "length (write_at (write_at (DHCP_END # replicate 387 0) 0
      (take (Suc (Suc (Suc 0))) (DHCP_MESSAGE_TYPE # 1 # le_bytes 4 (scast type :: u32)))) (Suc (Suc (Suc 0))) [DHCP_END]) = OPTIONS_SIZE"
    by simp
  ultimately show ?thesis
    by (simp add: udhcp_init_header_def udhcp_add_simple_option_def dhcp_optflags_def
        dhcp_option_lengths_def rd_def udhcp_add_binary_option_def e holds_options_def wf_packet_def
        plain_option_def opt_bytes_def)
qed

subsection \<open>Round trip\<close>

text \<open>C40. Whatever list of options the server appends to a fresh message, one after the other, the
  search finds in the finished message, for every code, exactly the first of the appended options
  with that code, among the message type and those that still fit the 308 bytes of the options
  field with its end mark: the data come back byte for byte, and no operation leaves the arrays.\<close>

theorem options_roundtrip:
  assumes "list_all plain_option os"
  shows "\<exists>p. (udhcp_init_header type \<bind> add_options os) = Some p \<and>
    (\<forall>code. opt_value p code = Some (map_of ((DHCP_MESSAGE_TYPE, [type]) # accepted 3 os) code))"
proof -
  obtain p where p: "udhcp_init_header type = Some p" "holds_options p [(DHCP_MESSAGE_TYPE, [type])]"
    using init_header_holds by blast
  then show ?thesis
    using add_options_hold[OF p(2) assms] by (auto simp: opt_value_holds)
qed

theorem options_roundtrip_witness:
  "\<exists>p. (udhcp_init_header DHCPOFFER \<bind> add_options [(0x36, [10, 0, 0, 1]), (0x0c, replicate 250 97), (0x0f, replicate 60 98)])
      = Some p
    \<and> opt_value p DHCP_MESSAGE_TYPE = Some (Some [DHCPOFFER])
    \<and> opt_value p 0x36 = Some (Some [10, 0, 0, 1])
    \<and> opt_value p 0x0c = Some (Some (replicate 250 97))
    \<and> opt_value p 0x0f = Some None"
  using options_roundtrip[of "[(0x36, [10, 0, 0, 1]), (0x0c, replicate 250 97), (0x0f, replicate 60 98)]" DHCPOFFER]
  by (auto simp: plain_option_def)

end
