(* ===== verification/Dhcp_Receive.thy ===== *)
theory Dhcp_Receive
  imports Dhcp_Packet
begin

text \<open>
  Receiving a message (\<open>networking/udhcp/packet.c\<close>): the structure is cleared, the datagram is read
  over it, and the magic number and the vendor option are looked at. A datagram that leaves the
  slack of the \<open>options\<close> field unwritten can be searched for any option without a read beyond the
  structure, whatever its bytes are.
\<close>

unbundle bit_operations_syntax

subsection \<open>The structure over the bytes read\<close>

abbreviation PACKET_SIZE :: nat where "PACKET_SIZE \<equiv> 628"
  \<comment> \<open>\<open>sizeof(struct dhcp_packet)\<close>\<close>

abbreviation DHCP_SIZE :: nat where "DHCP_SIZE \<equiv> 548"
  \<comment> \<open>The same without the slack.\<close>

definition packet_of_bytes :: "u8 list \<Rightarrow> dhcp_packet" where
  "packet_of_bytes bs =
     \<lparr>pk_op = bs ! 0, pk_htype = bs ! 1, pk_hlen = bs ! 2, pk_hops = bs ! 3,
      pk_xid = le_word (take 4 (drop 4 bs)), pk_secs = le_word (take 2 (drop 8 bs)),
      pk_flags = le_word (take 2 (drop 10 bs)), pk_ciaddr = le_word (take 4 (drop 12 bs)),
      pk_yiaddr = le_word (take 4 (drop 16 bs)), pk_siaddr_nip = le_word (take 4 (drop 20 bs)),
      pk_gateway_nip = le_word (take 4 (drop 24 bs)), pk_chaddr = take 16 (drop 28 bs),
      pk_sname = take 64 (drop 44 bs), pk_file = take 128 (drop 108 bs),
      pk_cookie = le_word (take 4 (drop 236 bs)), pk_options = take OPTIONS_SIZE (drop 240 bs)\<rparr>"

abbreviation BROADCAST_FLAG :: u16 where "BROADCAST_FLAG \<equiv> 0x8000"

definition htons :: "u16 \<Rightarrow> u16" where
  "htons w = bswap 2 w"

definition msft_98 :: "u8 list" where
  \<comment> \<open>\<open>"MSFT 98"\<close>\<close>
  "msft_98 = [0x4d, 0x53, 0x46, 0x54, 0x20, 0x39, 0x38]"

definition udhcp_recv_kernel_packet :: "u8 list option \<Rightarrow> (int \<times> dhcp_packet) option" where
  \<comment> \<open>The argument is what \<open>read\<close> delivers, \<open>None\<close> for its error.\<close>
  "udhcp_recv_kernel_packet input =
     (case input of
        None \<Rightarrow> Some (-1, packet_of_bytes (replicate PACKET_SIZE 0))
      | Some d \<Rightarrow>
        let bs = take PACKET_SIZE d;
            p = packet_of_bytes (bs @ replicate (PACKET_SIZE - length bs) 0) in
        if pk_cookie p \<noteq> htonl DHCP_MAGIC then Some (-2, p)
        else if pk_op p \<noteq> BOOTREQUEST then Some (int (length bs), p)
        else do {
          vendor \<leftarrow> udhcp_get_option p DHCP_VENDOR;
          case vendor of
            None \<Rightarrow> Some (int (length bs), p)
          | Some v \<Rightarrow> do {
              l \<leftarrow> rd (packet_tail p) (v - 1);
              if l = 7 then
                if v + 7 > length (packet_tail p) then None
                else if take 7 (drop v (packet_tail p)) = msft_98
                then Some (int (length bs), p\<lparr>pk_flags := pk_flags p OR htons BROADCAST_FLAG\<rparr>)
                else Some (int (length bs), p)
              else Some (int (length bs), p) } })"

subsection \<open>Every option of a datagram without slack can be read\<close>

definition slack_clear :: "dhcp_packet \<Rightarrow> bool" where
  "slack_clear p \<longleftrightarrow> wf_packet p \<and> (\<forall>i < 80. pk_options p ! (DHCP_OPTIONS_BUFSIZE + i) = 0)"

lemma length_packet_tail [simp]: "wf_packet p \<Longrightarrow> length (packet_tail p) = 584"
  by (simp add: packet_tail_def wf_packet_def)

lemma slack_clear_tail:
  assumes "slack_clear p" "504 \<le> i" "i < 584"
  shows "packet_tail p ! i = 0"
proof -
  obtain j where j: "i = 504 + j" "j < 80" using assms(2,3) by (intro that[of "i - 504"]) simp_all
  have "packet_tail p ! (504 + j) = pk_options p ! (DHCP_OPTIONS_BUFSIZE + j)"
    using assms(1) by (simp add: slack_clear_def wf_packet_def packet_tail_def nth_append)
  then show ?thesis using assms(1) j by (simp add: slack_clear_def)
qed

lemma get_option_reads:
  assumes "length m = 584" "\<And>i. 504 \<le> i \<Longrightarrow> i < 584 \<Longrightarrow> m ! i = 0"
    "int p + rem \<in> {584, 192, 64}" "0 \<le> rem"
  shows "\<exists>r. get_option_loop m code overload p rem = Some r \<and>
      (\<forall>q. r = Some q \<longrightarrow> 2 \<le> q \<and> q \<le> 505 \<and> q + unat (m ! (q - 1)) \<le> 584)"
  using assms
proof (induction m code overload p rem rule: get_option_loop.induct)
  case (1 m code overload p rem)
  note len = "1.prems"(1) and zero = "1.prems"(2)
  have rd_m: "i < 584 \<Longrightarrow> rd m i = Some (m ! i)" for i by (simp add: rd_def len)
  show ?case
  proof (cases "rem \<le> 0")
    case True
    then show ?thesis by (subst get_option_loop.simps) simp
  next
    case rem: False
    then have p: "p < 584" using "1.prems"(3) by auto
    note c = rd_m[OF p]
    show ?thesis
    proof (cases "m ! p = DHCP_PADDING")
      case True
      then show ?thesis
        using "1.IH"(1)[OF rem c True len zero] "1.prems"(3,4) rem c
        by (subst get_option_loop.simps) (simp add: algebra_simps)
    next
      case pad: False
      show ?thesis
      proof (cases "m ! p = DHCP_END")
        case True
        then show ?thesis
          using "1.IH"(2)[OF rem c pad True _ len zero] "1.IH"(3)[OF rem c pad True _ _ len zero] rem c
          by (subst get_option_loop.simps) simp
      next
        case en: False
        have p504: "p < 504" using zero[of p] p pad by (meson not_le)
        then have l: "rd m (p + 1) = Some (m ! (p + 1))" by (intro rd_m) simp
        let ?rem = "rem - (2 + uint (m ! (p + 1)))"
        show ?thesis
        proof (cases "?rem < 0")
          case True
          then show ?thesis using rem c pad en l by (subst get_option_loop.simps) simp
        next
          case fits: False
          have pos: "int (p + 2 + unat (m ! (p + 1))) + ?rem \<in> {584, 192, 64}"
            using "1.prems"(3) by (simp add: algebra_simps)
          show ?thesis
          proof (cases "m ! p = code")
            case True
            have "x \<le> 584" if "x + r \<in> {584, 192, 64}" "\<not> r < 0" for x r :: int
              using that by auto
            from this[OF pos fits] have "int (p + 2 + unat (m ! (p + 1))) \<le> int 584" by (simp only: of_nat_numeral)
            then have "p + 2 + unat (m ! (p + 1)) \<le> 584" by (simp only: of_nat_le_iff)
            then show ?thesis
              using rem c pad en l fits True p504 by (subst get_option_loop.simps) simp
          next
            case code: False
            show ?thesis
            proof (cases "m ! p = DHCP_OPTION_OVERLOAD")
              case True
              have b: "rd m (p + 2) = Some (m ! (p + 2))" using p504 by (intro rd_m) simp
              show ?thesis
                using "1.IH"(4)[OF rem c pad en l fits code True b len zero pos] fits rem c pad en l code True b
                by (subst get_option_loop.simps) simp
            next
              case False
              then show ?thesis
                using "1.IH"(5)[OF rem c pad en l fits code False len zero pos] fits rem c pad en l code
                by (subst get_option_loop.simps) simp
            qed
          qed
        qed
      qed
    qed
  qed
qed

lemma get_option_safe:
  assumes "slack_clear p"
  shows "\<exists>r. udhcp_get_option p code = Some r \<and>
    (\<forall>q. r = Some q \<longrightarrow> 2 \<le> q \<and> q \<le> 505 \<and> q + unat (packet_tail p ! (q - 1)) \<le> 584)"
  unfolding udhcp_get_option_def
  using assms by (intro get_option_reads) (simp_all add: slack_clear_tail, simp add: slack_clear_def)

lemma slack_clear_bytes:
  assumes "length d \<le> DHCP_SIZE"
  shows "slack_clear (packet_of_bytes (d @ replicate (PACKET_SIZE - length d) 0))"
proof -
  define bs where "bs = d @ replicate (PACKET_SIZE - length d) (0 :: u8)"
  have "bs ! (DHCP_SIZE + i) = 0" if "i < 80" for i
    using assms that by (simp add: nth_append bs_def)
  moreover have "length bs = PACKET_SIZE" using assms by (simp add: bs_def)
  ultimately show ?thesis
    unfolding bs_def[symmetric] by (simp add: slack_clear_def wf_packet_def packet_of_bytes_def)
qed

lemma slack_clear_flags [simp]: "slack_clear (p\<lparr>pk_flags := fl\<rparr>) = slack_clear p"
  by (simp add: slack_clear_def wf_packet_def)

lemma recv_safe:
  assumes "\<And>d. input = Some d \<Longrightarrow> length d \<le> DHCP_SIZE"
  shows "\<exists>n p. udhcp_recv_kernel_packet input = Some (n, p) \<and> slack_clear p"
proof (cases input)
  case None
  then show ?thesis using slack_clear_bytes[of "[]"] by (simp add: udhcp_recv_kernel_packet_def)
next
  case (Some d)
  let ?p = "packet_of_bytes (d @ replicate (PACKET_SIZE - length d) 0)"
  have d: "length d \<le> DHCP_SIZE" using assms Some by simp
  have p: "slack_clear ?p" by (rule slack_clear_bytes[OF d])
  then have len: "length (packet_tail ?p) = 584" by (simp add: slack_clear_def)
  obtain r where r: "udhcp_get_option ?p DHCP_VENDOR = Some r"
    "\<And>q. r = Some q \<Longrightarrow> 2 \<le> q \<and> q \<le> 505"
    using get_option_safe[OF p] by blast
  show ?thesis
    using p len r d Some
    by (cases r) (auto simp: udhcp_recv_kernel_packet_def rd_def Let_def)
qed

end
