(* ===== verification/Dhcp_Leases.thy ===== *)
theory Dhcp_Leases
  imports Dhcp_Packet
begin

text \<open>
  The lease table of the DHCP server (\<open>networking/udhcp/leases.c\<close>, \<open>static_leases.c\<close>). Time and ARP
  are parameters: the \<open>n\<close>-th call of \<open>time\<close> returns \<open>w_time w n\<close>, so that the clock may advance in
  the middle of an operation, and \<open>w_arpping\<close> tells whether a probe goes unanswered. The state is
  the table \<open>g_leases\<close> and the number of calls of \<open>time\<close> made.
  Pointers to leases are indices into the table.
\<close>

unbundle bit_operations_syntax

subsection \<open>Leases, configuration, environment\<close>

record dyn_lease =
  expires :: u32
  lease_nip :: u32
  lease_mac :: "u8 list"
  lease_hostname :: "u8 list"

definition zero_lease :: dyn_lease where
  "zero_lease = \<lparr>expires = 0, lease_nip = 0, lease_mac = replicate 6 0, lease_hostname = replicate 20 0\<rparr>"

type_synonym static_leases = "(u8 list \<times> u32) list"

record server_config =
  server_nip :: u32
  server_options :: "u8 list list"
  start_ip :: u32
  end_ip :: u32
  max_lease_sec :: u32
  min_lease_sec :: u32
  max_leases :: u32
  decline_time :: u32
  conflict_time :: u32
  offer_time :: u32
  config_siaddr_nip :: u32
  config_sname :: "u8 list option"
  config_boot_file :: "u8 list option"
  static_leases :: static_leases

record world =
  w_time :: "nat \<Rightarrow> u32"
  w_arpping :: "nat \<Rightarrow> u32 \<Rightarrow> u8 list \<Rightarrow> bool"

record server =
  g_leases :: "dyn_lease list"
  ticks :: nat

definition time_now :: "world \<Rightarrow> server \<Rightarrow> u32 \<times> server" where
  "time_now w s = (w_time w (ticks s), s\<lparr>ticks := ticks s + 1\<rparr>)"

subsection \<open>Static leases\<close>

definition add_static_lease :: "static_leases \<Rightarrow> u8 list \<Rightarrow> u32 \<Rightarrow> static_leases" where
  "add_static_lease st mac nip = st @ [(take 6 mac, nip)]"

fun get_static_nip_by_mac :: "static_leases \<Rightarrow> u8 list \<Rightarrow> u32" where
  "get_static_nip_by_mac [] mac = 0"
| "get_static_nip_by_mac ((m, nip) # st) mac = (if m = take 6 mac then nip else get_static_nip_by_mac st mac)"

fun is_nip_reserved :: "static_leases \<Rightarrow> u32 \<Rightarrow> bool" where
  "is_nip_reserved [] nip = False"
| "is_nip_reserved ((m, n) # st) nip = (n = nip \<or> is_nip_reserved st nip)"

subsection \<open>The dynamic leases\<close>

fun oldest_loop :: "dyn_lease list \<Rightarrow> nat \<Rightarrow> u32 \<Rightarrow> nat option \<Rightarrow> nat option" where
  "oldest_loop [] i oldest_time oldest_lease = oldest_lease"
| "oldest_loop (l # ls) i oldest_time oldest_lease =
     (if expires l < oldest_time then oldest_loop ls (i + 1) (expires l) (Some i)
      else oldest_loop ls (i + 1) oldest_time oldest_lease)"

definition oldest_expired_lease :: "world \<Rightarrow> server \<Rightarrow> nat option \<times> server" where
  "oldest_expired_lease w s =
     (let (t, s) = time_now w s in (oldest_loop (g_leases s) 0 t None, s))"

definition clear_leases :: "u8 list option \<Rightarrow> u32 \<Rightarrow> server \<Rightarrow> server" where
  "clear_leases chaddr yiaddr s = s\<lparr>g_leases := map (\<lambda>l.
     if (case chaddr of None \<Rightarrow> False | Some mac \<Rightarrow> lease_mac l = take 6 mac)
       \<or> yiaddr \<noteq> 0 \<and> lease_nip l = yiaddr
     then zero_lease else l) (g_leases s)\<rparr>"

definition strncpy :: "u8 list \<Rightarrow> nat \<Rightarrow> u8 list" where
  \<comment> \<open>The \<open>n\<close> bytes that \<open>strncpy\<close> stores.\<close>
  "strncpy src n = (let str = take n (takeWhile (\<lambda>c. c \<noteq> 0) src) in str @ replicate (n - length str) 0)"

definition safe_strncpy :: "u8 list \<Rightarrow> u8 list \<Rightarrow> nat \<Rightarrow> u8 list" where
  "safe_strncpy dst src sz =
     (if sz = 0 then dst else write_at (dst[sz - 1 := 0]) 0 (strncpy src (sz - 1)))"

definition sanitize_hostname :: "u8 list \<Rightarrow> u8 list" where
  "sanitize_hostname bs =
     map (\<lambda>c. if sint c < 0x20 \<or> 126 < sint c then 0x5e else c) (takeWhile (\<lambda>c. c \<noteq> 0) bs)
     @ dropWhile (\<lambda>c. c \<noteq> 0) bs"

definition add_lease :: "world \<Rightarrow> u8 list option \<Rightarrow> u32 \<Rightarrow> u32 \<Rightarrow> u8 list option \<Rightarrow> server
    \<Rightarrow> nat option \<times> server" where
  \<comment> \<open>The host name is given by the \<open>hostname_len\<close> bytes at \<open>hostname\<close>, of which no other is read.\<close>
  "add_lease w chaddr yiaddr leasetime hostname s =
     (let s = clear_leases chaddr yiaddr s;
          (oldest, s) = oldest_expired_lease w s
      in case oldest of
           None \<Rightarrow> (None, s)
         | Some i \<Rightarrow>
             let host = (case hostname of
                   None \<Rightarrow> lease_hostname zero_lease
                 | Some h \<Rightarrow> sanitize_hostname
                     (safe_strncpy (lease_hostname zero_lease) h (min (length h + 1) 20)));
                 mac = (case chaddr of None \<Rightarrow> lease_mac zero_lease | Some mac \<Rightarrow> take 6 mac);
                 (t, s) = time_now w s
             in (Some i, s\<lparr>g_leases := (g_leases s)[i := \<lparr>expires = t + leasetime, lease_nip = yiaddr,
                   lease_mac = mac, lease_hostname = host\<rparr>]\<rparr>))"

definition is_expired_lease :: "world \<Rightarrow> dyn_lease \<Rightarrow> server \<Rightarrow> bool \<times> server" where
  "is_expired_lease w l s = (let (t, s) = time_now w s in (expires l < t, s))"

fun find_lease :: "(dyn_lease \<Rightarrow> bool) \<Rightarrow> dyn_lease list \<Rightarrow> nat \<Rightarrow> nat option" where
  "find_lease P [] i = None"
| "find_lease P (l # ls) i = (if P l then Some i else find_lease P ls (i + 1))"

definition find_lease_by_mac :: "u8 list \<Rightarrow> server \<Rightarrow> nat option" where
  "find_lease_by_mac mac s = find_lease (\<lambda>l. lease_mac l = take 6 mac) (g_leases s) 0"

definition find_lease_by_nip :: "u32 \<Rightarrow> server \<Rightarrow> nat option" where
  "find_lease_by_nip nip s = find_lease (\<lambda>l. lease_nip l = nip) (g_leases s) 0"

definition nobody_responds_to_arp :: "world \<Rightarrow> server_config \<Rightarrow> u32 \<Rightarrow> u8 list \<Rightarrow> server \<Rightarrow> bool \<times> server" where
  "nobody_responds_to_arp w cfg nip safe_mac s =
     (if w_arpping w (ticks s) nip safe_mac then (True, s)
      else (False, snd (add_lease w None nip (conflict_time cfg) None s)))"

partial_function (option) find_free_loop :: "world \<Rightarrow> server_config \<Rightarrow> u8 list \<Rightarrow> u32 \<Rightarrow> nat option
    \<Rightarrow> server \<Rightarrow> ((u32 + nat option) \<times> server) option" where
  \<comment> \<open>\<open>Inl\<close> is the address the loop returns, \<open>Inr\<close> the \<open>oldest_lease\<close> it ends with.\<close>
  "find_free_loop w cfg safe_mac addr oldest s =
     (if \<not> addr \<le> end_ip cfg then Some (Inr oldest, s)
      else if addr AND 0xff = 0 then find_free_loop w cfg safe_mac (addr + 1) oldest s
      else if addr AND 0xff = 0xff then find_free_loop w cfg safe_mac (addr + 1) oldest s
      else if is_nip_reserved (static_leases cfg) (htonl addr)
      then find_free_loop w cfg safe_mac (addr + 1) oldest s
      else case find_lease_by_nip (htonl addr) s of
          None \<Rightarrow>
            (case nobody_responds_to_arp w cfg (htonl addr) safe_mac s of (r, s) \<Rightarrow>
               if r then Some (Inl (htonl addr), s)
               else find_free_loop w cfg safe_mac (addr + 1) oldest s)
        | Some i \<Rightarrow>
            find_free_loop w cfg safe_mac (addr + 1)
              (case oldest of None \<Rightarrow> Some i
               | Some j \<Rightarrow> if expires (g_leases s ! i) < expires (g_leases s ! j) then Some i else oldest) s)"

declare find_free_loop.simps [code]

definition find_free_or_expired_nip :: "world \<Rightarrow> server_config \<Rightarrow> u8 list \<Rightarrow> server \<Rightarrow> (u32 \<times> server) option" where
  "find_free_or_expired_nip w cfg safe_mac s = do {
     (r, s) \<leftarrow> find_free_loop w cfg safe_mac (start_ip cfg) None s;
     case r of
       Inl nip \<Rightarrow> Some (nip, s)
     | Inr None \<Rightarrow> Some (0, s)
     | Inr (Some i) \<Rightarrow>
         let (e, s) = is_expired_lease w (g_leases s ! i) s in
         if \<not> e then Some (0, s)
         else let (r, s) = nobody_responds_to_arp w cfg (lease_nip (g_leases s ! i)) safe_mac s in
           Some (if r then lease_nip (g_leases s ! i) else 0, s) }"

end
