(* ===== verification/Dhcp_Lease_Table.thy ===== *)
theory Dhcp_Lease_Table
  imports Dhcp_Leases
begin

text \<open>
  What the operations on the lease table keep: no address and no client stands twice in the table,
  a lease leaves the table only when it has expired or its client or its address is the one being
  added, and an address that is found free is nobody's unexpired lease.
\<close>

unbundle bit_operations_syntax

subsection \<open>Well-formed tables\<close>

definition unique_on :: "('a \<Rightarrow> 'b) \<Rightarrow> 'b \<Rightarrow> 'a list \<Rightarrow> bool" where
  \<comment> \<open>No value of \<open>f\<close> other than \<open>z\<close> occurs twice.\<close>
  "unique_on f z xs \<longleftrightarrow>
     (\<forall>i < length xs. \<forall>j < length xs. f (xs ! i) = f (xs ! j) \<longrightarrow> f (xs ! i) \<noteq> z \<longrightarrow> i = j)"

definition lease_host :: "u8 list option \<Rightarrow> u8 list" where
  \<comment> \<open>The host name field as \<^const>\<open>add_lease\<close> fills it.\<close>
  "lease_host hostname = (case hostname of None \<Rightarrow> lease_hostname zero_lease
     | Some h \<Rightarrow> sanitize_hostname (safe_strncpy (lease_hostname zero_lease) h (min (length h + 1) 20)))"

definition host_ok :: "u8 list \<Rightarrow> bool" where
  \<comment> \<open>A host name that can be stored again without a change.\<close>
  "host_ok h \<longleftrightarrow> length h = 20 \<and> lease_host (Some h) = h"

definition wf_lease :: "dyn_lease \<Rightarrow> bool" where
  "wf_lease l \<longleftrightarrow> length (lease_mac l) = 6 \<and> host_ok (lease_hostname l)"

definition wf_table :: "dyn_lease list \<Rightarrow> bool" where
  "wf_table ls \<longleftrightarrow> unique_on lease_nip 0 ls \<and> unique_on lease_mac (replicate 6 0) ls \<and> list_all wf_lease ls"

lemma unique_onD:
  "unique_on f z xs \<Longrightarrow> i < length xs \<Longrightarrow> j < length xs \<Longrightarrow> f (xs ! i) = f (xs ! j) \<Longrightarrow> f (xs ! i) \<noteq> z \<Longrightarrow> i = j"
  by (simp add: unique_on_def)

lemma unique_on_map:
  assumes "unique_on f z xs" "\<And>x. g x = x \<or> f (g x) = z"
  shows "unique_on f z (map g xs)"
  unfolding unique_on_def
proof (intro allI impI)
  fix i j assume ij: "i < length (map g xs)" "j < length (map g xs)"
    and eq: "f (map g xs ! i) = f (map g xs ! j)" and nz: "f (map g xs ! i) \<noteq> z"
  then have "g (xs ! i) = xs ! i" "g (xs ! j) = xs ! j" using assms(2) by (metis length_map nth_map)+
  then show "i = j" using unique_onD[OF assms(1), of i j] ij eq nz by simp
qed

lemma unique_on_update:
  assumes "unique_on f z xs" "f x = z \<or> (\<forall>y \<in> set xs. f y \<noteq> f x)"
  shows "unique_on f z (xs[i := x])"
  unfolding unique_on_def
proof (intro allI impI)
  fix j k assume jk: "j < length (xs[i := x])" "k < length (xs[i := x])"
    and eq: "f (xs[i := x] ! j) = f (xs[i := x] ! k)" and nz: "f (xs[i := x] ! j) \<noteq> z"
  have "\<forall>m < length xs. f (xs ! m) \<noteq> f x" if "f x \<noteq> z" using assms(2) that by auto
  then show "j = k"
    using unique_onD[OF assms(1), of j k] jk eq nz
    by (cases "i < length xs") (auto simp: nth_list_update split: if_splits)
qed

lemma lease_zero [simp]:
  "lease_nip zero_lease = 0" "lease_mac zero_lease = replicate 6 0" "lease_hostname zero_lease = replicate 20 0"
  "expires zero_lease = 0"
  by (simp_all add: zero_lease_def)

subsection \<open>Host names\<close>

lemma length_sanitize [simp]: "length (sanitize_hostname bs) = length bs"
proof -
  have "length bs = length (takeWhile (\<lambda>c. c \<noteq> 0) bs) + length (dropWhile (\<lambda>c. c \<noteq> 0) bs)"
    by (metis length_append takeWhile_dropWhile_id)
  then show ?thesis by (simp add: sanitize_hostname_def)
qed

lemma length_strncpy [simp]: "length (strncpy src n) = n"
  by (simp add: strncpy_def Let_def)

lemma length_safe_strncpy [simp]: "sz \<le> length dst \<Longrightarrow> length (safe_strncpy dst src sz) = length dst"
  by (simp add: safe_strncpy_def)

definition padded :: "u8 list \<Rightarrow> u8 list" where
  "padded s = s @ replicate (20 - length s) 0"

definition printable :: "u8 \<Rightarrow> u8" where
  "printable c = (if sint c < 0x20 \<or> 126 < sint c then 0x5e else c)"

lemma printable_idem [simp]: "printable (printable c) = printable c" "c \<noteq> 0 \<Longrightarrow> printable c \<noteq> 0"
  by (auto simp: printable_def)

lemma takeWhile_padded: "0 \<notin> set s \<Longrightarrow> takeWhile (\<lambda>c. c \<noteq> 0) (padded s) = s"
  unfolding padded_def by (subst takeWhile_append2) auto

lemma dropWhile_padded: "0 \<notin> set s \<Longrightarrow> dropWhile (\<lambda>c. c \<noteq> 0) (padded s) = replicate (20 - length s) 0"
  unfolding padded_def by (subst dropWhile_append2) (auto simp: dropWhile_eq_self_iff)

lemma sanitize_padded: "0 \<notin> set s \<Longrightarrow> sanitize_hostname (padded s) = padded (map printable s)"
  by (simp add: sanitize_hostname_def takeWhile_padded dropWhile_padded)
    (simp add: padded_def printable_def)

lemma copied_host:
  "safe_strncpy (replicate 20 0) h (min (length h + 1) 20) = padded (take 19 (takeWhile (\<lambda>c. c \<noteq> 0) h))"
proof -
  let ?n = "min (length h) 19" and ?w = "takeWhile (\<lambda>c. c \<noteq> 0) h"
  have "take ?n ?w = take 19 ?w"
    using length_takeWhile_le[of "\<lambda>c. c \<noteq> 0" h] by (simp add: min_def)
  then have str: "strncpy h ?n = take 19 ?w @ replicate (?n - length (take 19 ?w)) 0"
    by (simp only: strncpy_def Let_def)
  have k: "length (take 19 ?w) \<le> ?n" using length_takeWhile_le[of "\<lambda>c. c \<noteq> 0" h] by auto
  have "(replicate 20 0)[?n := 0 :: u8] = replicate 20 0" by (rule nth_equalityI) (auto simp: nth_list_update)
  moreover have "min (length h + 1) 20 \<noteq> 0" "min (length h + 1) 20 - 1 = ?n" by simp_all
  ultimately have "safe_strncpy (replicate 20 0) h (min (length h + 1) 20) = write_at (replicate 20 0) 0 (strncpy h ?n)"
    by (simp only: safe_strncpy_def if_False)
  also have "\<dots> = strncpy h ?n @ replicate (20 - ?n) 0"
    by (simp only: write_at_def length_strncpy) simp
  also have "\<dots> = padded (take 19 ?w)"
    using k unfolding str padded_def append_assoc replicate_add[symmetric] by simp
  finally show ?thesis .
qed

lemma lease_host_padded:
  "lease_host (Some h) = padded (map printable (take 19 (takeWhile (\<lambda>c. c \<noteq> 0) h)))"
proof -
  have "0 \<notin> set (take 19 (takeWhile (\<lambda>c. c \<noteq> 0) h))"
    using set_takeWhileD in_set_takeD by fast
  from sanitize_padded[OF this] show ?thesis
    by (simp only: lease_host_def option.case lease_zero copied_host)
qed

lemma lease_host_ok: "host_ok (lease_host hostname)"
proof -
  have padded: "host_ok (padded (map printable s))" if s: "length s \<le> 19" "0 \<notin> set s" for s
  proof -
    have "0 \<notin> set (map printable s)" using s(2) printable_idem(2) by (metis in_set_conv_nth length_map nth_map)
    then show ?thesis
      using s(1) by (simp add: host_ok_def lease_host_padded takeWhile_padded comp_def)
        (simp add: padded_def)
  qed
  show ?thesis
  proof (cases hostname)
    case None
    then show ?thesis using padded[of "[]"] by (simp add: lease_host_def padded_def)
  next
    case (Some h)
    have "0 \<notin> set (take 19 (takeWhile (\<lambda>c. c \<noteq> 0) h))"
      using set_takeWhileD in_set_takeD by fast
    then show ?thesis unfolding Some lease_host_padded by (intro padded) simp_all
  qed
qed

lemma wf_zero_lease [simp]: "wf_lease zero_lease"
  using lease_host_ok[of None] by (simp add: wf_lease_def lease_host_def)

subsection \<open>Searches\<close>

lemma find_lease_Some:
  "find_lease P ls i = Some k \<Longrightarrow> i \<le> k \<and> k - i < length ls \<and> P (ls ! (k - i))"
  by (induction ls arbitrary: i) (fastforce split: if_splits simp: Suc_le_eq nth_Cons')+

lemma find_lease_None: "find_lease P ls i = None \<Longrightarrow> \<forall>l \<in> set ls. \<not> P l"
  by (induction ls arbitrary: i) (auto split: if_splits)

lemma find_by_mac:
  "find_lease_by_mac mac s = Some k \<Longrightarrow> k < length (g_leases s) \<and> lease_mac (g_leases s ! k) = take 6 mac"
  using find_lease_Some by (fastforce simp: find_lease_by_mac_def)

lemma find_by_nip:
  "find_lease_by_nip nip s = Some k \<Longrightarrow> k < length (g_leases s) \<and> lease_nip (g_leases s ! k) = nip"
  using find_lease_Some by (fastforce simp: find_lease_by_nip_def)

lemma find_by_nip_None: "find_lease_by_nip nip s = None \<Longrightarrow> l \<in> set (g_leases s) \<Longrightarrow> lease_nip l \<noteq> nip"
  by (auto simp: find_lease_by_nip_def dest: find_lease_None)

lemma oldest_loop_Some:
  "oldest_loop ls i t best = Some k \<Longrightarrow>
   best = Some k \<or> i \<le> k \<and> k - i < length ls \<and> expires (ls ! (k - i)) < t"
proof (induction ls arbitrary: i t best)
  case (Cons l ls)
  show ?case
  proof (cases "expires l < t")
    case True
    then have "oldest_loop ls (i + 1) (expires l) (Some i) = Some k" using Cons.prems by simp
    from Cons.IH[OF this] show ?thesis
      using True by (cases "k = i") (auto simp: nth_Cons' intro: less_trans)
  next
    case False
    then have "oldest_loop ls (i + 1) t best = Some k" using Cons.prems by simp
    from Cons.IH[OF this] show ?thesis by (auto simp: nth_Cons')
  qed
qed simp

subsection \<open>Leases that stay\<close>

definition live :: "world \<Rightarrow> nat \<Rightarrow> nat \<Rightarrow> dyn_lease \<Rightarrow> bool" where
  \<comment> \<open>The lease has not expired at any of the calls of \<open>time\<close> from \<open>m\<close> to \<open>n\<close>.\<close>
  "live w m n l \<longleftrightarrow> (\<forall>k. m \<le> k \<longrightarrow> k < n \<longrightarrow> w_time w k \<le> expires l)"

definition keeps :: "world \<Rightarrow> (dyn_lease \<Rightarrow> bool) \<Rightarrow> server \<Rightarrow> server \<Rightarrow> bool" where
  \<comment> \<open>The leases that stay live in the meantime, except those of \<open>C\<close>, stay in the table.\<close>
  "keeps w C s s' \<longleftrightarrow> ticks s \<le> ticks s' \<and> length (g_leases s') = length (g_leases s) \<and>
     (\<forall>l \<in> set (g_leases s). live w (ticks s) (ticks s') l \<longrightarrow> \<not> C l \<longrightarrow> l \<in> set (g_leases s'))"

lemma live_mono: "live w m n l \<Longrightarrow> m \<le> m' \<Longrightarrow> n' \<le> n \<Longrightarrow> live w m' n' l"
  by (simp add: live_def)

lemma keeps_refl [simp]: "keeps w C s s"
  by (simp add: keeps_def)

lemma keeps_trans:
  assumes "keeps w C s s'" "keeps w C s' s''"
  shows "keeps w C s s''"
  using assms live_mono unfolding keeps_def by (metis dual_order.trans order_refl)

lemma keeps_mono: "keeps w C s s' \<Longrightarrow> (\<And>l. l \<in> set (g_leases s) \<Longrightarrow> C l \<Longrightarrow> D l) \<Longrightarrow> keeps w D s s'"
  by (auto simp: keeps_def)

lemma keeps_tick: "keeps w C s (s\<lparr>ticks := ticks s + n\<rparr>)"
  by (simp add: keeps_def)

definition replaced :: "u8 list option \<Rightarrow> u32 \<Rightarrow> dyn_lease \<Rightarrow> bool" where
  "replaced chaddr yiaddr l \<longleftrightarrow> (case chaddr of None \<Rightarrow> False | Some mac \<Rightarrow> lease_mac l = take 6 mac)
     \<or> yiaddr \<noteq> 0 \<and> lease_nip l = yiaddr"

lemma clear_leases_replaced:
  "clear_leases chaddr yiaddr s =
     s\<lparr>g_leases := map (\<lambda>l. if replaced chaddr yiaddr l then zero_lease else l) (g_leases s)\<rparr>"
  by (simp add: clear_leases_def replaced_def)

lemma length_clear_leases [simp]: "length (g_leases (clear_leases chaddr yiaddr s)) = length (g_leases s)"
  by (simp add: clear_leases_def)

lemma ticks_clear_leases [simp]: "ticks (clear_leases chaddr yiaddr s) = ticks s"
  by (simp add: clear_leases_def)

lemma mem_update: "x \<in> set xs \<Longrightarrow> xs ! i \<noteq> x \<Longrightarrow> x \<in> set (xs[i := y])"
  by (metis in_set_conv_nth length_list_update nth_list_update_neq)

lemma wf_table_cleared:
  assumes "wf_table ls"
  shows "wf_table (map (\<lambda>l. if C l then zero_lease else l) ls)"
  using assms unfolding wf_table_def by (auto intro!: unique_on_map simp: list_all_iff)

lemma wf_table_add:
  assumes "wf_table ls" "wf_lease l"
    "lease_nip l = 0 \<or> (\<forall>m \<in> set ls. lease_nip m \<noteq> lease_nip l)"
    "lease_mac l = replicate 6 0 \<or> (\<forall>m \<in> set ls. lease_mac m \<noteq> lease_mac l)"
  shows "wf_table (ls[i := l])"
  using assms unique_on_update[of lease_nip 0 ls l i] unique_on_update[of lease_mac "replicate 6 0" ls l i]
    set_update_subset_insert[of ls i l]
  by (auto simp: wf_table_def list_all_iff)

lemma add_lease_cases:
  obtains (none) "add_lease w chaddr yiaddr tm host s
      = (None, (clear_leases chaddr yiaddr s)\<lparr>ticks := ticks s + 1\<rparr>)"
  | (added) i where "i < length (g_leases s)"
    "expires (g_leases (clear_leases chaddr yiaddr s) ! i) < w_time w (ticks s)"
    "add_lease w chaddr yiaddr tm host s = (Some i, s\<lparr>ticks := ticks s + 2,
       g_leases := (g_leases (clear_leases chaddr yiaddr s))[i := \<lparr>expires = w_time w (ticks s + 1) + tm,
         lease_nip = yiaddr, lease_mac = (case chaddr of None \<Rightarrow> replicate 6 0 | Some mac \<Rightarrow> take 6 mac),
         lease_hostname = lease_host host\<rparr>]\<rparr>)"
proof -
  obtain ls where ls: "clear_leases chaddr yiaddr s = s\<lparr>g_leases := ls\<rparr>" by (simp add: clear_leases_def)
  have len: "length ls = length (g_leases s)" using length_clear_leases[of chaddr yiaddr s] by (simp add: ls)
  note defs = add_lease_def oldest_expired_lease_def time_now_def lease_host_def ls
  show thesis
  proof (cases "oldest_loop ls 0 (w_time w (ticks s)) None")
    case None
    then show thesis by (intro none) (simp add: defs)
  next
    case (Some i)
    from oldest_loop_Some[OF this] show thesis using Some len
      by (intro added[of i]) (simp_all add: defs cong: option.case_cong)
  qed
qed

lemma add_lease_keeps:
  "keeps w (replaced chaddr yiaddr) s (snd (add_lease w chaddr yiaddr tm host s))"
proof -
  let ?ls = "g_leases (clear_leases chaddr yiaddr s)"
  have stays: "l \<in> set ?ls" if "l \<in> set (g_leases s)" "\<not> replaced chaddr yiaddr l" for l
    using that by (force simp: clear_leases_replaced)
  show ?thesis
  proof (cases rule: add_lease_cases[where w = w and chaddr = chaddr and yiaddr = yiaddr and tm = tm and host = host and s = s])
    case none
    then show ?thesis using stays by (simp add: keeps_def)
  next
    case (added i)
    have "?ls ! i \<noteq> l" if "live w (ticks s) (ticks s + 2) l" for l
      using that added(2) by (auto simp: live_def not_le[symmetric])
    then show ?thesis using added(3) stays mem_update[of _ ?ls i]
      by (simp add: keeps_def)
  qed
qed

lemma add_lease_wf:
  assumes "wf_table (g_leases s)" "\<And>mac. chaddr = Some mac \<Longrightarrow> 6 \<le> length mac"
  shows "wf_table (g_leases (snd (add_lease w chaddr yiaddr tm host s)))"
proof -
  have cl: "wf_table (g_leases (clear_leases chaddr yiaddr s))"
    using wf_table_cleared[OF assms(1)] by (simp add: clear_leases_replaced)
  define m where "m = (case chaddr of None \<Rightarrow> replicate 6 0 | Some mac \<Rightarrow> take 6 mac)"
  have m: "length m = 6" using assms(2) by (cases chaddr) (simp_all add: m_def)
  have nip: "yiaddr = 0 \<or> (\<forall>l \<in> set (g_leases (clear_leases chaddr yiaddr s)). lease_nip l \<noteq> yiaddr)"
    by (auto simp: clear_leases_def)
  have mac: "m = replicate 6 0 \<or> (\<forall>l \<in> set (g_leases (clear_leases chaddr yiaddr s)). lease_mac l \<noteq> m)"
    by (cases chaddr) (auto simp: clear_leases_def m_def)
  have host: "host_ok (lease_host host)" by (rule lease_host_ok)
  show ?thesis
  proof (cases rule: add_lease_cases[where w = w and chaddr = chaddr and yiaddr = yiaddr and tm = tm and host = host and s = s])
    case none
    then show ?thesis using cl by simp
  next
    case (added i)
    have "wf_table ((g_leases (clear_leases chaddr yiaddr s))[i := \<lparr>expires = w_time w (ticks s + 1) + tm,
        lease_nip = yiaddr, lease_mac = m, lease_hostname = lease_host host\<rparr>])"
      using m nip mac host by (intro wf_table_add[OF cl]) (simp_all add: wf_lease_def)
    then show ?thesis using added(3) by (simp add: m_def)
  qed
qed

subsection \<open>Free addresses\<close>

definition sound_step :: "world \<Rightarrow> (dyn_lease \<Rightarrow> bool) \<Rightarrow> server \<Rightarrow> server \<Rightarrow> bool" where
  "sound_step w C s s' \<longleftrightarrow> keeps w C s s' \<and> (wf_table (g_leases s) \<longrightarrow> wf_table (g_leases s'))"

lemma sound_step_refl [simp]: "sound_step w C s s"
  by (simp add: sound_step_def)

lemma sound_step_trans: "sound_step w C s s' \<Longrightarrow> sound_step w C s' s'' \<Longrightarrow> sound_step w C s s''"
  by (auto simp: sound_step_def intro: keeps_trans)

lemma sound_step_tick: "sound_step w C s (s\<lparr>ticks := Suc (ticks s)\<rparr>)"
  by (simp add: sound_step_def keeps_def)

lemma sound_step_mono:
  "sound_step w C s s' \<Longrightarrow> (\<And>l. l \<in> set (g_leases s) \<Longrightarrow> C l \<Longrightarrow> D l) \<Longrightarrow> sound_step w D s s'"
  by (auto simp: sound_step_def intro: keeps_mono)

lemma add_lease_sound:
  "(\<And>mac. chaddr = Some mac \<Longrightarrow> 6 \<le> length mac) \<Longrightarrow>
   sound_step w (replaced chaddr yiaddr) s (snd (add_lease w chaddr yiaddr tm host s))"
  using add_lease_keeps add_lease_wf by (auto simp: sound_step_def)

definition free_for :: "world \<Rightarrow> (dyn_lease \<Rightarrow> bool) \<Rightarrow> server \<Rightarrow> server \<Rightarrow> u32 \<Rightarrow> bool" where
  \<comment> \<open>No lease with the address was live all the time, except those of \<open>C\<close>.\<close>
  "free_for w C s s' nip \<longleftrightarrow>
     (\<forall>l \<in> set (g_leases s). lease_nip l = nip \<longrightarrow> \<not> C l \<longrightarrow> \<not> live w (ticks s) (ticks s') l)"

definition no_lease :: "dyn_lease \<Rightarrow> bool" where
  "no_lease l = False"

lemma free_for_mono: "free_for w no_lease s s' nip \<Longrightarrow> free_for w C s s' nip"
  by (simp add: free_for_def no_lease_def)

lemma sound_step_ticks: "sound_step w C s s' \<Longrightarrow> ticks s \<le> ticks s'"
  by (simp add: sound_step_def keeps_def)

lemma sound_stepD:
  "sound_step w C s s' \<Longrightarrow> l \<in> set (g_leases s) \<Longrightarrow> live w (ticks s) (ticks s') l \<Longrightarrow> \<not> C l \<Longrightarrow> l \<in> set (g_leases s')"
  by (simp add: sound_step_def keeps_def)

lemma free_for_later:
  assumes "free_for w C s s1 nip" "ticks s1 \<le> ticks s2"
  shows "free_for w C s s2 nip"
  using assms live_mono[of w "ticks s" "ticks s2" _ "ticks s" "ticks s1"] by (auto simp: free_for_def)

lemma free_for_step:
  assumes "sound_step w C s s1" "free_for w C s1 s2 nip" "ticks s1 \<le> ticks s2"
  shows "free_for w C s s2 nip"
  unfolding free_for_def
proof (intro ballI impI notI)
  fix l assume l: "l \<in> set (g_leases s)" "lease_nip l = nip" "\<not> C l" and live: "live w (ticks s) (ticks s2) l"
  have "l \<in> set (g_leases s1)"
    using sound_stepD[OF assms(1) l(1) live_mono[OF live order_refl assms(3)] l(3)] .
  then show False
    using assms(2) l live_mono[OF live sound_step_ticks[OF assms(1)] order_refl] by (auto simp: free_for_def)
qed

lemma sound_step_replace:
  \<comment> \<open>Replacing the leases of a client and of an address that is free for it.\<close>
  assumes "sound_step w C s s1" "sound_step w (replaced ch nip) s1 s2" "nip \<noteq> 0 \<longrightarrow> free_for w C s s1 nip"
    "\<And>mac l. ch = Some mac \<Longrightarrow> lease_mac l = take 6 mac \<Longrightarrow> C l"
  shows "sound_step w C s s2"
proof -
  have "l \<in> set (g_leases s2)"
    if l: "l \<in> set (g_leases s)" "live w (ticks s) (ticks s2) l" "\<not> C l" for l
  proof -
    have t: "ticks s \<le> ticks s1" "ticks s1 \<le> ticks s2" using assms(1,2) by (simp_all add: sound_step_ticks)
    have "live w (ticks s) (ticks s1) l" using live_mono[OF l(2) order_refl t(2)] .
    then have "\<not> replaced ch nip l" "l \<in> set (g_leases s1)"
      using assms(3,4) l sound_stepD[OF assms(1)] by (auto simp: replaced_def free_for_def split: option.splits)
    then show ?thesis using sound_stepD[OF assms(2)] live_mono[OF l(2) t(1) order_refl] by blast
  qed
  then show ?thesis using assms(1,2) by (simp add: sound_step_def keeps_def)
qed

lemma expired_free:
  assumes "wf_table (g_leases s)" "i < length (g_leases s)" "lease_nip (g_leases s ! i) \<noteq> 0"
    "expires (g_leases s ! i) < w_time w k" "ticks s \<le> k" "k < ticks s'"
  shows "free_for w C s s' (lease_nip (g_leases s ! i))"
  unfolding free_for_def
proof (intro ballI impI)
  fix l assume l: "l \<in> set (g_leases s)" "lease_nip l = lease_nip (g_leases s ! i)"
  then obtain j where j: "j < length (g_leases s)" "l = g_leases s ! j" by (auto simp: in_set_conv_nth)
  have "j = i" using assms(1-3) l j unique_onD[of lease_nip 0 "g_leases s" j i] by (simp add: wf_table_def)
  then show "\<not> live w (ticks s) (ticks s') l" using assms(4-6) j by (auto simp: live_def not_le[symmetric])
qed

lemma arp_sound:
  assumes "nobody_responds_to_arp w cfg nip mac s = (r, s')"
  shows "sound_step w (replaced None nip) s s'" "r \<Longrightarrow> s' = s"
  using assms add_lease_sound[of None w nip s "conflict_time cfg" None]
  by (auto simp: nobody_responds_to_arp_def split: if_splits)

lemma find_free_loop_sound:
  assumes "end_ip cfg \<noteq> 0xffffffff" "oldest \<noteq> None \<longrightarrow> the oldest < length (g_leases s)"
  shows "\<exists>r s'. find_free_loop w cfg mac addr oldest s = Some (r, s') \<and> sound_step w no_lease s s' \<and>
    (case r of Inl nip \<Rightarrow> free_for w no_lease s s' nip | Inr b \<Rightarrow> b \<noteq> None \<longrightarrow> the b < length (g_leases s'))"
  using assms(2)
proof (induction "2 ^ 32 - unat addr" arbitrary: addr oldest s rule: less_induct)
  case less
  show ?case
  proof (cases "addr \<le> end_ip cfg")
    case False
    then show ?thesis using less.prems by (subst find_free_loop.simps) simp
  next
    case True
    have "unat (end_ip cfg) \<noteq> 4294967295" using assms(1) by (simp add: word_unat_eq_iff)
    moreover have "unat addr \<le> unat (end_ip cfg)" using True by (simp add: word_le_nat_alt)
    moreover have "unat (end_ip cfg) < 4294967296" using unsigned_less[of "end_ip cfg", where 'a = nat] by simp
    ultimately have lt: "unat addr < 4294967295" by linarith
    then have "unat (addr + 1) = unat addr + 1" by (simp add: unat_word_ariths)
    then have m: "2 ^ 32 - unat (addr + 1) < 2 ^ 32 - unat addr" using lt by simp
    note IH = less.hyps[OF m]
    let ?nip = "htonl addr"
    consider (skip) "addr AND 0xff = 0 \<or> addr AND 0xff = 0xff \<or> is_nip_reserved (static_leases cfg) ?nip"
      | (used) i where "\<not> (addr AND 0xff = 0 \<or> addr AND 0xff = 0xff \<or> is_nip_reserved (static_leases cfg) ?nip)"
          "find_lease_by_nip ?nip s = Some i"
      | (free) "\<not> (addr AND 0xff = 0 \<or> addr AND 0xff = 0xff \<or> is_nip_reserved (static_leases cfg) ?nip)"
          "find_lease_by_nip ?nip s = None"
      by (cases "find_lease_by_nip ?nip s") auto
    then show ?thesis
    proof cases
      case skip
      then have "find_free_loop w cfg mac addr oldest s = find_free_loop w cfg mac (addr + 1) oldest s"
        using True by (subst find_free_loop.simps) auto
      then show ?thesis using IH[OF less.prems] by simp
    next
      case (used i)
      let ?o = "case oldest of None \<Rightarrow> Some i
         | Some j \<Rightarrow> if expires (g_leases s ! i) < expires (g_leases s ! j) then Some i else oldest"
      have "find_free_loop w cfg mac addr oldest s = find_free_loop w cfg mac (addr + 1) ?o s"
        using True used by (subst find_free_loop.simps) simp
      moreover have "?o \<noteq> None \<longrightarrow> the ?o < length (g_leases s)"
        using less.prems find_by_nip[OF used(2)] by (auto split: option.split)
      ultimately show ?thesis using IH[of ?o s] by simp
    next
      case free
      obtain r s1 where arp: "nobody_responds_to_arp w cfg ?nip mac s = (r, s1)" by fastforce
      have nouse: "free_for w no_lease s s2 ?nip" for s2
        using find_by_nip_None[OF free(2)] by (auto simp: free_for_def)
      show ?thesis
      proof (cases r)
        case True
        then have "find_free_loop w cfg mac addr oldest s = Some (Inl ?nip, s)"
          using \<open>addr \<le> end_ip cfg\<close> free arp arp_sound(2)[OF arp] by (subst find_free_loop.simps) simp
        then show ?thesis using nouse by simp
      next
        case False
        then have eq: "find_free_loop w cfg mac addr oldest s = find_free_loop w cfg mac (addr + 1) oldest s1"
          using \<open>addr \<le> end_ip cfg\<close> free arp by (subst find_free_loop.simps) simp
        have step: "sound_step w no_lease s s1"
          using sound_step_mono[OF arp_sound(1)[OF arp], where D = no_lease] find_by_nip_None[OF free(2)]
          by (auto simp: replaced_def)
        then have "oldest \<noteq> None \<longrightarrow> the oldest < length (g_leases s1)"
          using less.prems by (simp add: sound_step_def keeps_def)
        from IH[OF this] obtain r' s' where r': "find_free_loop w cfg mac (addr + 1) oldest s1 = Some (r', s')"
          "sound_step w no_lease s1 s'"
          "case r' of Inl nip \<Rightarrow> free_for w no_lease s1 s' nip | Inr b \<Rightarrow> b \<noteq> None \<longrightarrow> the b < length (g_leases s')"
          by blast
        have "free_for w no_lease s s' nip" if "free_for w no_lease s1 s' nip" for nip
          using free_for_step[OF step that sound_step_ticks[OF r'(2)]] .
        then show ?thesis
          using eq r' sound_step_trans[OF step r'(2)] by (auto split: sum.splits)
      qed
    qed
  qed
qed

lemma find_free_sound:
  assumes "end_ip cfg \<noteq> 0xffffffff" "wf_table (g_leases s)"
  shows "\<exists>nip s'. find_free_or_expired_nip w cfg mac s = Some (nip, s') \<and> sound_step w no_lease s s' \<and>
    (nip \<noteq> 0 \<longrightarrow> free_for w no_lease s s' nip)"
proof -
  obtain r s1 where r: "find_free_loop w cfg mac (start_ip cfg) None s = Some (r, s1)"
    "sound_step w no_lease s s1"
    "case r of Inl nip \<Rightarrow> free_for w no_lease s s1 nip | Inr b \<Rightarrow> b \<noteq> None \<longrightarrow> the b < length (g_leases s1)"
    using find_free_loop_sound[OF assms(1), where oldest = None and s = s and w = w and mac = mac and addr = "start_ip cfg"]
    by blast
  consider (found) nip where "r = Inl nip" | (none) "r = Inr None" | (old) i where "r = Inr (Some i)"
    by (metis option.exhaust sum.exhaust)
  then show ?thesis
  proof cases
    case found
    then show ?thesis using r by (simp add: find_free_or_expired_nip_def)
  next
    case none
    then show ?thesis using r by (simp add: find_free_or_expired_nip_def)
  next
    case (old i)
    let ?l = "g_leases s1 ! i" and ?s2 = "s1\<lparr>ticks := Suc (ticks s1)\<rparr>"
    have i: "i < length (g_leases s1)" using r(3) old by simp
    have s2: "sound_step w no_lease s ?s2" using sound_step_trans[OF r(2) sound_step_tick] .
    obtain a s3 where arp: "nobody_responds_to_arp w cfg (lease_nip ?l) mac ?s2 = (a, s3)" by fastforce
    have e: "is_expired_lease w ?l s1 = (expires ?l < w_time w (ticks s1), ?s2)"
      by (simp add: is_expired_lease_def time_now_def)
    have wf: "wf_table (g_leases s1)" using r(2) assms(2) by (simp add: sound_step_def)
    have free: "lease_nip ?l \<noteq> 0 \<longrightarrow> free_for w no_lease s ?s2 (lease_nip ?l)" if "expires ?l < w_time w (ticks s1)"
      using free_for_step[OF r(2) expired_free[OF wf i _ that]] by simp
    consider (live) "\<not> expires ?l < w_time w (ticks s1)" | (taken) "expires ?l < w_time w (ticks s1)" "\<not> a"
      | (ok) "expires ?l < w_time w (ticks s1)" a by blast
    then show ?thesis
    proof cases
      case live
      then have "find_free_or_expired_nip w cfg mac s = Some (0, ?s2)"
        using r(1) old e by (simp add: find_free_or_expired_nip_def)
      then show ?thesis using s2 by simp
    next
      case taken
      then have "find_free_or_expired_nip w cfg mac s = Some (0, s3)"
        using r(1) old e arp by (simp add: find_free_or_expired_nip_def)
      then show ?thesis using sound_step_replace[OF s2 arp_sound(1)[OF arp] free[OF taken(1)]] by simp
    next
      case ok
      then have "find_free_or_expired_nip w cfg mac s = Some (lease_nip ?l, ?s2)"
        using r(1) old e arp arp_sound(2)[OF arp] by (simp add: find_free_or_expired_nip_def)
      then show ?thesis using s2 free[OF ok(1)] by simp
    qed
  qed
qed

end
