(* ===== verification/Dhcp_Lease_File.thy ===== *)
theory Dhcp_Lease_File
  imports Dhcp_Lease_Table
begin

text \<open>
  The lease file of the DHCP server (\<open>networking/udhcp/files.c\<close>), as the bytes written and read.
  A file is the time of writing (64 bits, big-endian) and one 36-byte \<open>struct dyn_lease\<close> per used
  entry, its expiry made relative to that time. \<open>time\<close> is the clock of the server, as a number of
  seconds below \<open>2 ^ 32\<close>.
\<close>

unbundle bit_operations_syntax

subsection \<open>Writing\<close>

definition lease_bytes :: "u32 \<Rightarrow> dyn_lease \<Rightarrow> u8 list" where
  \<comment> \<open>The entry in memory, its expiry already relative and in network order; two bytes of padding.\<close>
  "lease_bytes now l =
     (let e = expires l - now; e = (if e <s 0 then 0 else e) in
      be_bytes 4 e @ le_bytes 4 (lease_nip l) @ lease_mac l @ lease_hostname l @ [0, 0])"

definition write_leases :: "world \<Rightarrow> server \<Rightarrow> u8 list \<times> server" where
  "write_leases w s =
     (let (now, s) = time_now w s in
      (be_bytes 8 (ucast now :: s64)
         @ concat (map (lease_bytes now) (filter (\<lambda>l. lease_nip l \<noteq> 0) (g_leases s))), s))"

subsection \<open>Reading\<close>

definition lease_of_bytes :: "u8 list \<Rightarrow> dyn_lease" where
  "lease_of_bytes bs = \<lparr>expires = le_word (take 4 bs), lease_nip = le_word (take 4 (drop 4 bs)),
     lease_mac = take 6 (drop 8 bs), lease_hostname = take 20 (drop 14 bs)\<rparr>"

function read_leases_loop :: "world \<Rightarrow> server_config \<Rightarrow> s64 \<Rightarrow> u8 list \<Rightarrow> server \<Rightarrow> server" where
  "read_leases_loop w cfg passed file s =
     (if length file < 36 then s
      else let lease = lease_of_bytes (take 36 file); file = drop 36 file; y = htonl (lease_nip lease) in
        if start_ip cfg \<le> y \<and> y \<le> end_ip cfg then
          let e = htonl (expires lease) - ucast passed in
          if e \<le>s 0 then read_leases_loop w cfg passed file s
          else case add_lease w (Some (lease_mac lease)) (lease_nip lease) e (Some (lease_hostname lease)) s of
              (None, s) \<Rightarrow> s
            | (Some _, s) \<Rightarrow> read_leases_loop w cfg passed file s
        else read_leases_loop w cfg passed file s)"
  by pat_completeness auto

termination by (relation "measure (\<lambda>(w, cfg, passed, file, s). length file)") auto

declare read_leases_loop.simps [simp del]

definition read_leases :: "world \<Rightarrow> server_config \<Rightarrow> u8 list option \<Rightarrow> server \<Rightarrow> server" where
  \<comment> \<open>\<open>None\<close> when the file cannot be opened.\<close>
  "read_leases w cfg input s =
     (case input of None \<Rightarrow> s
      | Some file \<Rightarrow>
        if length file < 8 then s
        else let written_at = be_word (take 8 file) :: s64; (t, s) = time_now w s;
                 passed = ucast t - written_at in
          if passed > 12 * 60 * 60 then s else read_leases_loop w cfg passed (drop 8 file) s)"

lemma read_loop_wf:
  "wf_table (g_leases s) \<Longrightarrow>
   wf_table (g_leases (read_leases_loop w cfg passed bs s)) \<and>
   length (g_leases (read_leases_loop w cfg passed bs s)) = length (g_leases s)"
proof (induction "length bs" arbitrary: bs s rule: less_induct)
  case less
  let ?l = "lease_of_bytes (take 36 bs)"
  obtain r s1 where add: "add_lease w (Some (lease_mac ?l)) (lease_nip ?l)
      (htonl (expires ?l) - ucast passed) (Some (lease_hostname ?l)) s = (r, s1)"
    by fastforce
  show ?case
  proof (cases "length bs < 36")
    case True
    then show ?thesis using less.prems by (subst (1 2) read_leases_loop.simps) simp
  next
    case False
    then have "6 \<le> length (lease_mac ?l)" by (simp add: lease_of_bytes_def)
    then have step: "sound_step w (replaced (Some (lease_mac ?l)) (lease_nip ?l)) s s1"
      using add_lease_sound[of "Some (lease_mac ?l)" w "lease_nip ?l" s] add by (metis option.inject snd_conv)
    then have s1: "wf_table (g_leases s1)" "length (g_leases s1) = length (g_leases s)"
      using less.prems by (simp_all add: sound_step_def keeps_def)
    have shorter: "length (drop 36 bs) < length bs" using False by simp
    show ?thesis
      using False add s1 less.hyps[OF shorter less.prems] less.hyps[OF shorter s1(1)] less.prems
      by (subst (1 2) read_leases_loop.simps) (simp add: Let_def split: option.split)
  qed
qed

lemma read_leases_wf:
  "wf_table (g_leases s) \<Longrightarrow>
   wf_table (g_leases (read_leases w cfg input s)) \<and>
   length (g_leases (read_leases w cfg input s)) = length (g_leases s)"
  by (simp add: read_leases_def time_now_def Let_def read_loop_wf split: option.split)

subsection \<open>One lease through the file\<close>

lemma be_word_be_bytes: "8 * n = LENGTH('a::len) \<Longrightarrow> be_word (be_bytes n (x :: 'a word)) = x"
  by (simp add: be_word_def be_bytes_def le_word_le_bytes)

lemma htonl_be: "htonl (le_word (be_bytes 4 e)) = e"
proof -
  have "le_bytes 4 (le_word (be_bytes 4 e) :: u32) = be_bytes 4 e"
    using le_bytes_le_word[of "be_bytes 4 e", where 'a = 32] by simp
  then have "htonl (le_word (be_bytes 4 e)) = le_word (rev (be_bytes 4 e))" by (simp add: htonl_def bswap_def)
  then show ?thesis using be_word_be_bytes[of 4 e] by (simp add: be_word_def)
qed

lemma length_lease_bytes: "wf_lease l \<Longrightarrow> length (lease_bytes now l) = 36"
  by (simp add: lease_bytes_def wf_lease_def host_ok_def Let_def)

lemma lease_of_lease_bytes:
  assumes "wf_lease l"
  shows "htonl (expires (lease_of_bytes (lease_bytes now l))) = (if expires l - now <s 0 then 0 else expires l - now)"
    "lease_nip (lease_of_bytes (lease_bytes now l)) = lease_nip l"
    "lease_mac (lease_of_bytes (lease_bytes now l)) = lease_mac l"
    "lease_hostname (lease_of_bytes (lease_bytes now l)) = lease_hostname l"
  using assms by (simp_all add: lease_bytes_def lease_of_bytes_def wf_lease_def host_ok_def Let_def htonl_be le_word_le_bytes)

subsection \<open>Times\<close>

lemma sint_32: "sint (x :: u32) = (if uint x < 2 ^ 31 then uint x else uint x - 2 ^ 32)"
proof -
  have lt: "uint x < 2 ^ 32" using uint_lt2p[of x] by simp
  have "bit (uint x) 31 \<longleftrightarrow> \<not> uint x < 2 ^ 31"
  proof (cases "uint x < 2 ^ 31")
    case True
    then have "uint x div 2 ^ 31 = 0" by (intro div_pos_pos_trivial) simp_all
    then show ?thesis using True by (simp add: bit_iff_odd)
  next
    case False
    then have "uint x div 2 ^ 31 = 1"
      using lt div_pos_neg_trivial by (intro int_div_pos_eq[of _ _ _ "uint x - 2 ^ 31"]) simp_all
    then show ?thesis using False by (simp add: bit_iff_odd)
  qed
  moreover have "sint x = take_bit 32 (uint x) - 2 ^ 32 * of_bool (bit (uint x) 31)"
    by (simp add: sint_uint signed_take_bit_eq_take_bit_minus)
  moreover have "take_bit 32 (uint x) = uint x" using lt by (simp add: take_bit_int_eq_self)
  ultimately show ?thesis by simp
qed

definition remaining :: "u32 \<Rightarrow> u32 \<Rightarrow> dyn_lease \<Rightarrow> u32" where
  \<comment> \<open>What is left of a lease written at \<open>t\<close> and read at \<open>t'\<close>.\<close>
  "remaining t t' l = (if expires l - t <s 0 then 0 else expires l - t) - (t' - t)"

lemma remaining_pos:
  assumes "t \<le> t'" "t' - t \<le> 43200" "t' < 2 ^ 31" "\<not> remaining t t' l \<le>s 0"
  shows "t' + remaining t t' l = expires l" "t' < expires l"
proof -
  let ?r = "expires l - t" and ?p = "t' - t" and ?d = "remaining t t' l"
  have T: "uint t \<le> uint t'" "uint t' < 2 ^ 31" "uint ?p = uint t' - uint t" "uint ?p \<le> 43200"
    using assms(1-3) by (simp_all add: word_le_def word_less_def uint_sub_if')
  have "uint ?d \<noteq> 0" "uint ?d < 2 ^ 31"
    using assms(4) sint_32[of ?d] uint_lt2p[of ?d] by (auto simp: word_sle_eq split: if_splits)
  then have d: "0 < uint ?d" "uint ?d < 2 ^ 31" using uint_ge_0[of ?d] by linarith+
  have "\<not> ?r <s 0"
  proof
    assume "?r <s 0"
    then have "uint ?d = uint (0 - ?p)" by (simp add: remaining_def)
    also have "\<dots> = (if uint ?p = 0 then 0 else 2 ^ 32 - uint ?p)" using uint_sub_if'[of 0 ?p] by simp
    finally show False using d T(4) by (auto split: if_splits)
  qed
  then have r: "uint ?r < 2 ^ 31" and eq: "?d = ?r - ?p"
    using sint_32[of ?r] uint_lt2p[of ?r] by (auto simp: remaining_def word_sless_alt split: if_splits)
  have "uint ?d = (if uint ?p \<le> uint ?r then uint ?r - uint ?p else uint ?r - uint ?p + 2 ^ 32)"
    unfolding eq using uint_sub_if'[of ?r ?p] by simp
  then have if_dr: "uint ?d = (if uint ?p \<le> uint ?r then uint ?r - uint ?p else uint ?r - uint ?p + 4294967296)"
    by simp
  have dr: "uint ?d = uint ?r - uint ?p"
  proof (rule ccontr)
    assume "uint ?d \<noteq> uint ?r - uint ?p"
    then have "uint ?d = uint ?r - uint ?p + 4294967296" using if_dr by (simp split: if_splits)
    moreover have "uint ?d < 2147483648" using d(2) by simp
    ultimately show False using T(4) uint_ge_0[of ?r] by linarith
  qed
  have "uint ?r = (if uint t \<le> uint (expires l) then uint (expires l) - uint t else uint (expires l) - uint t + 2 ^ 32)"
    using uint_sub_if'[of "expires l" t] by simp
  then have if_e: "uint ?r = (if uint t \<le> uint (expires l) then uint (expires l) - uint t else uint (expires l) - uint t + 4294967296)"
    by simp
  have e: "uint (expires l) = uint t + uint ?r"
  proof (rule ccontr)
    assume "uint (expires l) \<noteq> uint t + uint ?r"
    then have "uint ?r = uint (expires l) - uint t + 4294967296" using if_e by (simp split: if_splits)
    moreover have "uint ?r < 2147483648" "uint t' < 2147483648" using r T(2) by simp_all
    ultimately show False using T(1) uint_ge_0[of "expires l"] by linarith
  qed
  show "t' + ?d = expires l" unfolding eq by simp
  show "t' < expires l" using e dr d(1) T(3) by (simp add: word_less_def)
qed

lemma remaining_live:
  assumes "t \<le> t'" "t' < 2 ^ 31" "t' < expires l" "uint (expires l) < uint t + 2 ^ 31"
  shows "\<not> remaining t t' l \<le>s 0"
proof -
  let ?r = "expires l - t" and ?p = "t' - t"
  have T: "uint t \<le> uint t'" "uint t' < uint (expires l)" "uint (expires l) < uint t + 2 ^ 31"
    using assms by (simp_all add: word_le_def word_less_def)
  have r: "uint ?r = uint (expires l) - uint t" "uint ?p = uint t' - uint t"
    using T uint_sub_if'[of "expires l" t] uint_sub_if'[of t' t] by simp_all
  then have "\<not> ?r <s 0" using sint_32[of ?r] T by (simp add: word_sless_alt)
  then have d: "remaining t t' l = ?r - ?p" by (simp add: remaining_def)
  have "uint (?r - ?p) = uint (expires l) - uint t'" using r T uint_sub_if'[of ?r ?p] by simp
  then show ?thesis unfolding d using sint_32[of "?r - ?p"] T by (simp add: word_sle_eq)
qed

end
