(* ===== verification/Dhcp_Server.thy ===== *)
theory Dhcp_Server
  imports Dhcp_Receive Dhcp_Lease_File
begin

text \<open>
  The handlers and the main loop of the DHCP server (\<open>networking/udhcp/dhcpd.c\<close>): one step takes
  what \<open>read\<close> delivers for a datagram and gives the messages sent and the new server state.
\<close>

unbundle bit_operations_syntax

subsection \<open>Sending\<close>

datatype destination = To_relay u32 | To_client u32 "u8 list"

type_synonym reply = "destination \<times> dhcp_packet"

definition MAC_BCAST_ADDR :: "u8 list" where
  "MAC_BCAST_ADDR = replicate 6 0xff"

abbreviation INADDR_BROADCAST :: u32 where "INADDR_BROADCAST \<equiv> 0xffffffff"

definition send_packet_to_client :: "dhcp_packet \<Rightarrow> bool \<Rightarrow> reply" where
  "send_packet_to_client p force_broadcast =
     (if force_broadcast \<or> pk_flags p AND htons BROADCAST_FLAG \<noteq> 0 \<or> pk_ciaddr p = 0
      then (To_client INADDR_BROADCAST MAC_BCAST_ADDR, p)
      else (To_client (pk_ciaddr p) (pk_chaddr p), p))"

definition send_packet_to_relay :: "dhcp_packet \<Rightarrow> reply" where
  "send_packet_to_relay p = (To_relay (pk_gateway_nip p), p)"

definition send_packet :: "dhcp_packet \<Rightarrow> bool \<Rightarrow> reply" where
  "send_packet p force_broadcast =
     (if pk_gateway_nip p \<noteq> 0 then send_packet_to_relay p else send_packet_to_client p force_broadcast)"

subsection \<open>Building the answers\<close>

definition init_packet :: "server_config \<Rightarrow> dhcp_packet \<Rightarrow> u8 \<Rightarrow> dhcp_packet option" where
  "init_packet cfg old type = do {
     p \<leftarrow> udhcp_init_header type;
     udhcp_add_simple_option
       (p\<lparr>pk_xid := pk_xid old, pk_chaddr := pk_chaddr old, pk_flags := pk_flags old,
          pk_gateway_nip := pk_gateway_nip old, pk_ciaddr := pk_ciaddr old\<rparr>)
       DHCP_SERVER_ID (server_nip cfg) }"

primrec add_option_list :: "u8 list list \<Rightarrow> dhcp_packet \<Rightarrow> dhcp_packet option" where
  "add_option_list [] p = Some p"
| "add_option_list (d # ds) p = do {
     c \<leftarrow> rd d 0;
     p \<leftarrow> if c \<noteq> DHCP_LEASE_TIME then udhcp_add_binary_option p d else Some p;
     add_option_list ds p }"

definition add_server_options :: "server_config \<Rightarrow> dhcp_packet \<Rightarrow> dhcp_packet option" where
  "add_server_options cfg p = do {
     p \<leftarrow> add_option_list (server_options cfg) p;
     let p = p\<lparr>pk_siaddr_nip := config_siaddr_nip cfg\<rparr>;
     let p = (case config_sname cfg of None \<Rightarrow> p
        | Some n \<Rightarrow> p\<lparr>pk_sname := write_at (pk_sname p) 0 (strncpy n 63)\<rparr>);
     let p = (case config_boot_file cfg of None \<Rightarrow> p
        | Some n \<Rightarrow> p\<lparr>pk_file := write_at (pk_file p) 0 (strncpy n 127)\<rparr>);
     Some p }"

definition select_lease_time :: "server_config \<Rightarrow> dhcp_packet \<Rightarrow> u32 option" where
  "select_lease_time cfg p = do {
     lease_time_opt \<leftarrow> udhcp_get_option p DHCP_LEASE_TIME;
     case lease_time_opt of
       None \<Rightarrow> Some (max_lease_sec cfg)
     | Some q \<Rightarrow> do {
         raw \<leftarrow> rd32 (packet_tail p) q;
         let t = htonl raw;
         let t = (if t > max_lease_sec cfg then max_lease_sec cfg else t);
         let t = (if t < min_lease_sec cfg then min_lease_sec cfg else t);
         Some t } }"

subsection \<open>The handlers\<close>

datatype lease_ref = Fake u32 | Dyn nat
  \<comment> \<open>The variable \<open>lease\<close> of the main loop, when it is not NULL: \<open>fake_lease\<close> with the address of a
    static lease, or a lease of the table.\<close>

fun ref_nip :: "server \<Rightarrow> lease_ref \<Rightarrow> u32" where
  "ref_nip s (Fake nip) = nip"
| "ref_nip s (Dyn i) = lease_nip (g_leases s ! i)"

definition offer_nip :: "world \<Rightarrow> server_config \<Rightarrow> dhcp_packet \<Rightarrow> lease_ref option \<Rightarrow> server
    \<Rightarrow> (u32 \<times> server) option" where
  "offer_nip w cfg old lease s =
     (case lease of
        Some r \<Rightarrow> Some (ref_nip s r, s)
      | None \<Rightarrow> do {
          req_ip_opt \<leftarrow> udhcp_get_option old DHCP_REQUESTED_IP;
          case req_ip_opt of
            None \<Rightarrow> find_free_or_expired_nip w cfg (pk_chaddr old) s
          | Some q \<Rightarrow> do {
              req_nip \<leftarrow> rd32 (packet_tail old) q;
              if start_ip cfg \<le> htonl req_nip \<and> htonl req_nip \<le> end_ip cfg then
                case find_lease_by_nip req_nip s of
                  None \<Rightarrow> Some (req_nip, s)
                | Some i \<Rightarrow>
                    (case is_expired_lease w (g_leases s ! i) s of (e, s) \<Rightarrow>
                       if e then Some (req_nip, s) else find_free_or_expired_nip w cfg (pk_chaddr old) s)
              else find_free_or_expired_nip w cfg (pk_chaddr old) s } })"

definition finish_offer :: "server_config \<Rightarrow> dhcp_packet \<Rightarrow> dhcp_packet \<Rightarrow> reply option" where
  "finish_offer cfg old p = do {
     lease_time_sec \<leftarrow> select_lease_time cfg old;
     p \<leftarrow> udhcp_add_simple_option p DHCP_LEASE_TIME (htonl lease_time_sec);
     p \<leftarrow> add_server_options cfg p;
     Some (send_packet p False) }"

definition send_offer :: "world \<Rightarrow> server_config \<Rightarrow> dhcp_packet \<Rightarrow> u32 \<Rightarrow> lease_ref option \<Rightarrow> server
    \<Rightarrow> (reply list \<times> server) option" where
  "send_offer w cfg old static_nip lease s = do {
     p \<leftarrow> init_packet cfg old DHCPOFFER;
     if static_nip \<noteq> 0 then do {
       r \<leftarrow> finish_offer cfg old (p\<lparr>pk_yiaddr := static_nip\<rparr>);
       Some ([r], s) }
     else do {
       (nip, s) \<leftarrow> offer_nip w cfg old lease s;
       if nip = 0 then Some ([], s)
       else do {
         host \<leftarrow> opt_value old DHCP_HOST_NAME;
         let (l, s) = add_lease w (Some (pk_chaddr p)) nip (offer_time cfg) host s;
         if l = None then Some ([], s)
         else do {
           r \<leftarrow> finish_offer cfg old (p\<lparr>pk_yiaddr := nip\<rparr>);
           Some ([r], s) } } } }"

definition send_NAK :: "server_config \<Rightarrow> dhcp_packet \<Rightarrow> reply option" where
  "send_NAK cfg old = do { p \<leftarrow> init_packet cfg old DHCPNAK; Some (send_packet p True) }"

definition send_ACK :: "world \<Rightarrow> server_config \<Rightarrow> dhcp_packet \<Rightarrow> u32 \<Rightarrow> server \<Rightarrow> (reply list \<times> server) option" where
  "send_ACK w cfg old yiaddr s = do {
     p \<leftarrow> init_packet cfg old DHCPACK;
     let p = p\<lparr>pk_yiaddr := yiaddr\<rparr>;
     lease_time_sec \<leftarrow> select_lease_time cfg old;
     p \<leftarrow> udhcp_add_simple_option p DHCP_LEASE_TIME (htonl lease_time_sec);
     p \<leftarrow> add_server_options cfg p;
     host \<leftarrow> opt_value old DHCP_HOST_NAME;
     Some ([send_packet p False],
       snd (add_lease w (Some (pk_chaddr p)) (pk_yiaddr p) lease_time_sec host s)) }"

definition send_inform :: "server_config \<Rightarrow> dhcp_packet \<Rightarrow> reply option" where
  "send_inform cfg old = do {
     p \<leftarrow> init_packet cfg old DHCPACK;
     p \<leftarrow> add_server_options cfg p;
     Some (send_packet p False) }"

subsection \<open>The main loop\<close>

fun set_lease :: "lease_ref \<Rightarrow> (dyn_lease \<Rightarrow> dyn_lease) \<Rightarrow> server \<Rightarrow> server" where
  "set_lease (Fake nip) f s = s"
| "set_lease (Dyn i) f s = s\<lparr>g_leases := (g_leases s)[i := f (g_leases s ! i)]\<rparr>"

definition decline_lease :: "world \<Rightarrow> server_config \<Rightarrow> lease_ref \<Rightarrow> server \<Rightarrow> server" where
  "decline_lease w cfg r s =
     (let s = set_lease r (lease_mac_update (\<lambda>_. replicate 6 0)) s; (t, s) = time_now w s
      in set_lease r (expires_update (\<lambda>_. t + decline_time cfg)) s)"

definition release_lease :: "world \<Rightarrow> lease_ref \<Rightarrow> server \<Rightarrow> server" where
  "release_lease w r s = (let (t, s) = time_now w s in set_lease r (expires_update (\<lambda>_. t)) s)"

definition requested :: "dhcp_packet \<Rightarrow> u8 \<Rightarrow> u32 option option" where
  \<comment> \<open>The address in an option, if it is there.\<close>
  "requested p code = do {
     r \<leftarrow> udhcp_get_option p code;
     case r of None \<Rightarrow> Some None | Some q \<Rightarrow> map_option Some (rd32 (packet_tail p) q) }"

definition dispatch :: "world \<Rightarrow> server_config \<Rightarrow> dhcp_packet \<Rightarrow> u8 \<Rightarrow> u32 \<Rightarrow> lease_ref option
    \<Rightarrow> u32 option \<Rightarrow> u32 option \<Rightarrow> server \<Rightarrow> (reply list \<times> server) option" where
  "dispatch w cfg p state static_nip lease server_id req s =
     (if state = DHCPDISCOVER then send_offer w cfg p static_nip lease s
      else if state = DHCPREQUEST then
        if req = None \<and> pk_ciaddr p = 0 then Some ([], s)
        else
          let requested_nip = (case req of None \<Rightarrow> pk_ciaddr p | Some nip \<Rightarrow> nip) in
          if lease \<noteq> None \<and> requested_nip = ref_nip s (the lease)
          then send_ACK w cfg p (ref_nip s (the lease)) s
          else if server_id \<noteq> None then map_option (\<lambda>r. ([r], s)) (send_NAK cfg p)
          else Some ([], s)
      else if state = DHCPDECLINE then
        if server_id \<noteq> None \<and> req \<noteq> None \<and> lease \<noteq> None \<and> the req = ref_nip s (the lease)
        then Some ([], decline_lease w cfg (the lease) s) else Some ([], s)
      else if state = DHCPRELEASE then
        if server_id \<noteq> None \<and> lease \<noteq> None \<and> pk_ciaddr p = ref_nip s (the lease)
        then Some ([], release_lease w (the lease) s) else Some ([], s)
      else if state = DHCPINFORM then map_option (\<lambda>r. ([r], s)) (send_inform cfg p)
      else Some ([], s))"

definition handle_packet :: "world \<Rightarrow> server_config \<Rightarrow> dhcp_packet \<Rightarrow> server \<Rightarrow> (reply list \<times> server) option" where
  "handle_packet w cfg p s =
     (if pk_hlen p \<noteq> 6 \<or> pk_op p \<noteq> BOOTREQUEST then Some ([], s)
      else do {
        st \<leftarrow> udhcp_get_option p DHCP_MESSAGE_TYPE;
        case st of
          None \<Rightarrow> Some ([], s)
        | Some q \<Rightarrow> do {
            state \<leftarrow> rd (packet_tail p) q;
            if state < DHCPDISCOVER \<or> state > DHCPINFORM then Some ([], s)
            else do {
              let static_nip = get_static_nip_by_mac (static_leases cfg) (pk_chaddr p);
              let lease = (if static_nip \<noteq> 0 then Some (Fake static_nip)
                 else map_option Dyn (find_lease_by_mac (pk_chaddr p) s));
              server_id \<leftarrow> requested p DHCP_SERVER_ID;
              if server_id \<noteq> None \<and> server_id \<noteq> Some (server_nip cfg) then Some ([], s)
              else do {
                req \<leftarrow> requested p DHCP_REQUESTED_IP;
                dispatch w cfg p state static_nip lease server_id req s } } } })"

definition serve :: "world \<Rightarrow> server_config \<Rightarrow> u8 list option \<Rightarrow> server \<Rightarrow> (reply list \<times> server) option" where
  \<comment> \<open>One round of the loop, from the read on.\<close>
  "serve w cfg input s = do {
     (bytes, p) \<leftarrow> udhcp_recv_kernel_packet input;
     if bytes < 0 then Some ([], s) else handle_packet w cfg p s }"

abbreviation DEFAULT_LEASE_TIME :: u32 where "DEFAULT_LEASE_TIME \<equiv> 60 * 60 * 24 * 10"

definition start_server :: "world \<Rightarrow> server_config \<Rightarrow> u8 list option \<Rightarrow> (server_config \<times> server) option" where
  \<comment> \<open>The configuration after the checks at the start, and the table after the lease file was read.\<close>
  "start_server w cfg file = do {
     max_sec \<leftarrow> (case udhcp_find_option (server_options cfg) DHCP_LEASE_TIME of
         None \<Rightarrow> Some DEFAULT_LEASE_TIME
       | Some d \<Rightarrow> map_option htonl (rd32 d 2));
     let num_ips = end_ip cfg - start_ip cfg + 1;
     let n = (if max_leases cfg > num_ips then num_ips else max_leases cfg);
     let cfg = cfg\<lparr>max_lease_sec := max_sec, max_leases := n\<rparr>;
     Some (cfg, read_leases w cfg file \<lparr>g_leases = replicate (unat n) zero_lease, ticks = 0\<rparr>) }"

end
