(* ===== verification/Dhcp_Service.thy ===== *)
theory Dhcp_Service
  imports Dhcp_Server Simulation
begin

text \<open>
  The DHCP server as a whole: no datagram that fits the message without its slack makes it leave its
  arrays or loop for ever, the lease table stays well formed, and no address under an unexpired
  lease of one client is given to another.
\<close>

unbundle bit_operations_syntax

subsection \<open>Answers can always be built\<close>

definition good_option :: "u8 list \<Rightarrow> bool" where
  "good_option d \<longleftrightarrow> 2 \<le> length d \<and> length d = 2 + unat (d ! 1) \<and>
     d ! 0 \<notin> {DHCP_PADDING, DHCP_END, DHCP_OPTION_OVERLOAD}"

lemma good_option_bytes:
  assumes "good_option d"
  shows "d = opt_bytes (d ! 0, drop 2 d)" "plain_option (d ! 0, drop 2 d)"
proof -
  obtain a b xs where d: "d = a # b # xs" using assms
    by (cases d rule: remdups_adj.cases) (auto simp: good_option_def)
  have "of_nat (unat b) = b" by simp
  moreover have "length xs = unat b" using assms d by (simp add: good_option_def)
  ultimately show "d = opt_bytes (d ! 0, drop 2 d)" using d by (simp add: opt_bytes_def)
  have "unat b < 256" using unsigned_less[of b, where 'a = nat] by simp
  then show "plain_option (d ! 0, drop 2 d)"
    using assms d by (simp add: good_option_def plain_option_def)
qed

definition answer_to :: "dhcp_packet \<Rightarrow> dhcp_packet \<Rightarrow> bool" where
  \<comment> \<open>A message with room for options, for the same client and the same address.\<close>
  "answer_to p q \<longleftrightarrow> (\<exists>os. holds_options q os) \<and> pk_yiaddr q = pk_yiaddr p \<and> pk_chaddr q = pk_chaddr p"

lemma holds_options_fields:
  "holds_options q os \<Longrightarrow> wf_packet q' \<Longrightarrow> pk_options q' = pk_options q \<Longrightarrow> holds_options q' os"
  by (simp add: holds_options_def)

lemma holds_options_wf: "holds_options q os \<Longrightarrow> wf_packet q"
  by (simp add: holds_options_def)

lemma answer_fields:
  assumes "answer_to p q" "wf_packet q'" "pk_options q' = pk_options q" "pk_yiaddr q' = pk_yiaddr q"
    "pk_chaddr q' = pk_chaddr q"
  shows "answer_to p q'"
  using assms holds_options_fields unfolding answer_to_def by metis

lemma answer_wf: "answer_to p q \<Longrightarrow> wf_packet q"
  by (auto simp: answer_to_def holds_options_def)

lemma answer_options:
  assumes "answer_to p q" "holds_options (q\<lparr>pk_options := xs\<rparr>) os"
  shows "answer_to p (q\<lparr>pk_options := xs\<rparr>)"
  using assms by (auto simp: answer_to_def)

lemma add_option_answer:
  assumes "answer_to p q" "plain_option o'"
  shows "\<exists>q'. udhcp_add_binary_option q (opt_bytes o') = Some q' \<and> answer_to p q'"
proof -
  obtain os where "holds_options q os" using assms(1) by (auto simp: answer_to_def)
  from add_binary_holds[OF this assms(2)] show ?thesis using answer_options[OF assms(1)] by blast
qed

lemma add_simple_answer:
  assumes "answer_to p q" "code \<in> {DHCP_LEASE_TIME, DHCP_SERVER_ID}"
  shows "\<exists>q'. udhcp_add_simple_option q code data = Some q' \<and> answer_to p q'"
proof -
  have "opt_bytes (code, le_bytes 4 data) = code # 4 # le_bytes 4 data" by (simp add: opt_bytes_def)
  moreover have "plain_option (code, le_bytes 4 data)" using assms(2) by (auto simp: plain_option_def)
  moreover have "udhcp_add_simple_option q code data = udhcp_add_binary_option q (code # 4 # le_bytes 4 data)"
    using assms(2) by (auto simp: udhcp_add_simple_option_def dhcp_optflags_def dhcp_option_lengths_def)
  ultimately show ?thesis using add_option_answer[OF assms(1), of "(code, le_bytes 4 data)"] by simp
qed

lemma add_list_answer:
  assumes "answer_to p q" "list_all good_option ds"
  shows "\<exists>q'. add_option_list ds q = Some q' \<and> answer_to p q'"
  using assms
proof (induction ds arbitrary: q)
  case (Cons d ds)
  have d: "good_option d" using Cons.prems(2) by simp
  then have rd: "rd d 0 = Some (d ! 0)" by (auto simp: good_option_def rd_def)
  obtain q1 where q1: "udhcp_add_binary_option q d = Some q1" "answer_to p q1"
    using add_option_answer[OF Cons.prems(1) good_option_bytes(2)[OF d]] good_option_bytes(1)[OF d] by metis
  show ?case
    using Cons.IH[OF q1(2)] Cons.IH[OF Cons.prems(1)] Cons.prems(2) q1(1) rd by simp
qed simp

lemma server_options_answer:
  assumes "answer_to p q" "list_all good_option (server_options cfg)"
  shows "\<exists>q'. add_server_options cfg q = Some q' \<and> answer_to p q'"
proof -
  obtain q1 where q1: "add_option_list (server_options cfg) q = Some q1" "answer_to p q1"
    using add_list_answer[OF assms] by blast
  have wf: "wf_packet q1" by (rule answer_wf[OF q1(2)])
  have "answer_to p (q1\<lparr>pk_siaddr_nip := a\<rparr>)" for a
    using answer_fields[OF q1(2)] wf by (simp add: wf_packet_def)
  moreover have "answer_to p (q1\<lparr>pk_siaddr_nip := a, pk_sname := write_at (pk_sname q1) 0 (strncpy n 63)\<rparr>)" for a n
    using answer_fields[OF q1(2)] wf by (simp add: wf_packet_def)
  moreover have "answer_to p (q1\<lparr>pk_siaddr_nip := a, pk_file := write_at (pk_file q1) 0 (strncpy n 127)\<rparr>)" for a n
    using answer_fields[OF q1(2)] wf by (simp add: wf_packet_def)
  moreover have "answer_to p (q1\<lparr>pk_siaddr_nip := a, pk_sname := write_at (pk_sname q1) 0 (strncpy m 63),
      pk_file := write_at (pk_file q1) 0 (strncpy n 127)\<rparr>)" for a m n
    using answer_fields[OF q1(2)] wf by (simp add: wf_packet_def)
  ultimately show ?thesis using q1 by (simp add: add_server_options_def Let_def split: option.split)
qed

lemma init_packet_answer:
  assumes "wf_packet old"
  shows "\<exists>q. init_packet cfg old type = Some q \<and> answer_to q q \<and> pk_chaddr q = pk_chaddr old \<and> pk_yiaddr q = 0"
proof -
  obtain h where h: "udhcp_init_header type = Some h" "holds_options h [(DHCP_MESSAGE_TYPE, [type])]"
    using init_header_holds by blast
  have yi: "pk_yiaddr h = 0"
    using h(1) by (auto simp: udhcp_init_header_def udhcp_add_simple_option_def dhcp_optflags_def
        dhcp_option_lengths_def udhcp_add_binary_option_def bind_Some_iff Let_def split: if_splits)
  let ?h = "h\<lparr>pk_xid := pk_xid old, pk_chaddr := pk_chaddr old, pk_flags := pk_flags old,
      pk_gateway_nip := pk_gateway_nip old, pk_ciaddr := pk_ciaddr old\<rparr>"
  have "answer_to h h" using h(2) by (auto simp: answer_to_def)
  moreover have "wf_packet ?h" using holds_options_wf[OF h(2)] assms by (simp add: wf_packet_def)
  ultimately have "answer_to ?h ?h" using h(2) holds_options_fields[OF h(2), of ?h] by (auto simp: answer_to_def)
  from add_simple_answer[OF this, of DHCP_SERVER_ID "server_nip cfg"]
  show ?thesis using h(1) yi by (auto simp: init_packet_def answer_to_def)
qed

subsection \<open>Requests can always be read\<close>

lemma rd32_safe:
  assumes "slack_clear p" "q \<le> 505"
  shows "\<exists>x. rd32 (packet_tail p) q = Some x"
  using assms length_packet_tail[of p] by (simp add: rd32_def slack_clear_def)

lemma lease_time_safe: "slack_clear p \<Longrightarrow> \<exists>t. select_lease_time cfg p = Some t"
  using get_option_safe[of p DHCP_LEASE_TIME] rd32_safe[of p]
  by (fastforce simp: select_lease_time_def Let_def split: option.split)

lemma requested_safe: "slack_clear p \<Longrightarrow> \<exists>r. requested p code = Some r"
  using get_option_safe[of p code] rd32_safe[of p]
  by (fastforce simp: requested_def split: option.split)

lemma opt_value_safe: "slack_clear p \<Longrightarrow> \<exists>r. opt_value p code = Some r"
  using get_option_safe[of p code] by (auto simp: opt_value_def)

lemma finish_offer_ok:
  assumes "slack_clear old" "answer_to q q" "list_all good_option (server_options cfg)"
  shows "\<exists>d r. finish_offer cfg old (q\<lparr>pk_yiaddr := nip\<rparr>) = Some (d, r) \<and> pk_yiaddr r = nip \<and> pk_chaddr r = pk_chaddr q"
proof -
  let ?q = "q\<lparr>pk_yiaddr := nip\<rparr>"
  obtain t where t: "select_lease_time cfg old = Some t" using lease_time_safe[OF assms(1)] ..
  obtain os where os: "holds_options q os" using assms(2) by (auto simp: answer_to_def)
  then have "holds_options ?q os"
    using holds_options_fields[OF os, of ?q] holds_options_wf[OF os] by (simp add: wf_packet_def)
  then have "answer_to ?q ?q" by (auto simp: answer_to_def)
  then obtain q1 where q1: "udhcp_add_simple_option ?q DHCP_LEASE_TIME (htonl t) = Some q1" "answer_to ?q q1"
    using add_simple_answer by blast
  obtain q2 where q2: "add_server_options cfg q1 = Some q2" "answer_to ?q q2"
    using server_options_answer[OF q1(2) assms(3)] by blast
  show ?thesis
    using t q1(1) q2 by (auto simp: finish_offer_def send_packet_def send_packet_to_relay_def
        send_packet_to_client_def answer_to_def)
qed

subsection \<open>What a handler does to the table\<close>

definition own :: "server_config \<Rightarrow> dhcp_packet \<Rightarrow> dyn_lease \<Rightarrow> bool" where
  \<comment> \<open>The leases a message may end: those of its sender, and, when the sender has a static lease,
    one that stands in the table for the static address.\<close>
  "own cfg p l \<longleftrightarrow> lease_mac l = take 6 (pk_chaddr p) \<or>
     get_static_nip_by_mac (static_leases cfg) (pk_chaddr p) \<noteq> 0
     \<and> lease_nip l = get_static_nip_by_mac (static_leases cfg) (pk_chaddr p)"

definition granted :: "world \<Rightarrow> server_config \<Rightarrow> dhcp_packet \<Rightarrow> server \<Rightarrow> server \<Rightarrow> u32 \<Rightarrow> bool" where
  \<comment> \<open>The address was free for the sender and now stands in the table under its name (unless
    the clock shows 0, when no entry of the table counts as expired).\<close>
  "granted w cfg p s s' nip \<longleftrightarrow> free_for w (own cfg p) s s' nip \<and>
     (w_time w (ticks s) \<noteq> 0 \<longrightarrow>
      (\<exists>l \<in> set (g_leases s'). lease_nip l = nip \<and> lease_mac l = take 6 (pk_chaddr p)))"

definition outcome :: "world \<Rightarrow> server_config \<Rightarrow> dhcp_packet \<Rightarrow> server \<Rightarrow> reply list \<times> server \<Rightarrow> bool" where
  "outcome w cfg p s res \<longleftrightarrow> (case res of (out, s') \<Rightarrow>
     sound_step w (own cfg p) s s' \<and>
     (\<forall>(d, r) \<in> set out. pk_chaddr r = pk_chaddr p \<and>
        (pk_yiaddr r \<noteq> 0 \<longrightarrow> get_static_nip_by_mac (static_leases cfg) (pk_chaddr p) = 0 \<longrightarrow>
           granted w cfg p s s' (pk_yiaddr r))))"

lemma oldest_loop_None: "oldest_loop ls i t best = None \<Longrightarrow> best = None \<and> (\<forall>l \<in> set ls. \<not> expires l < t)"
  by (induction ls arbitrary: i t best) (auto split: if_splits)

lemma add_lease_recorded:
  assumes "fst (add_lease w (Some mac) nip tm host s) \<noteq> None"
  shows "\<exists>l \<in> set (g_leases (snd (add_lease w (Some mac) nip tm host s))). lease_nip l = nip \<and> lease_mac l = take 6 mac"
proof (cases rule: add_lease_cases[where w = w and chaddr = "Some mac" and yiaddr = nip and tm = tm and host = host and s = s])
  case none
  then show ?thesis using assms by simp
next
  case (added i)
  let ?l = "\<lparr>expires = w_time w (ticks s + 1) + tm, lease_nip = nip, lease_mac = take 6 mac,
      lease_hostname = lease_host host\<rparr>"
  have "?l \<in> set ((g_leases (clear_leases (Some mac) nip s))[i := ?l])"
    using added(1) by (intro set_update_memI) simp
  then have "?l \<in> set (g_leases (snd (add_lease w (Some mac) nip tm host s)))" using added(3) by simp
  then show ?thesis by (rule bexI[rotated]) simp
qed

lemma add_lease_room:
  assumes "zero_lease \<in> set (g_leases (clear_leases chaddr nip s))" "w_time w (ticks s) \<noteq> 0"
  shows "fst (add_lease w chaddr nip tm host s) \<noteq> None"
proof
  assume "fst (add_lease w chaddr nip tm host s) = None"
  then have "oldest_loop (g_leases (clear_leases chaddr nip s)) 0 (w_time w (ticks s)) None = None"
    by (auto simp: add_lease_def oldest_expired_lease_def time_now_def Let_def split: option.splits)
  then have "\<forall>l \<in> set (g_leases (clear_leases chaddr nip s)). \<not> expires l < w_time w (ticks s)"
    using oldest_loop_None by blast
  then show False using assms by (auto simp: word_neq_0_conv)
qed

lemma cleared_own:
  assumes "i < length (g_leases s)" "lease_mac (g_leases s ! i) = take 6 mac"
  shows "zero_lease \<in> set (g_leases (clear_leases (Some mac) nip s))"
  using assms by (auto simp: clear_leases_def image_iff intro!: bexI[of _ "g_leases s ! i"])

lemma own_free:
  assumes "wf_table (g_leases s)" "i < length (g_leases s)" "lease_mac (g_leases s ! i) = take 6 (pk_chaddr p)"
  shows "lease_nip (g_leases s ! i) \<noteq> 0 \<longrightarrow> free_for w (own cfg p) s s' (lease_nip (g_leases s ! i))"
  unfolding free_for_def
proof (intro impI ballI)
  fix l assume nz: "lease_nip (g_leases s ! i) \<noteq> 0" and l: "l \<in> set (g_leases s)"
    "lease_nip l = lease_nip (g_leases s ! i)" "\<not> own cfg p l"
  then obtain j where j: "j < length (g_leases s)" "l = g_leases s ! j" by (auto simp: in_set_conv_nth)
  have "j = i" using assms(1,2) l nz j unique_onD[of lease_nip 0 "g_leases s" j i] by (simp add: wf_table_def)
  then show "\<not> live w (ticks s) (ticks s') l" using assms(3) l j by (simp add: own_def)
qed

lemma add_lease_outcome:
  assumes "slack_clear p" "sound_step w (own cfg p) s s1" "nip \<noteq> 0 \<longrightarrow> free_for w (own cfg p) s s1 nip"
  shows "sound_step w (own cfg p) s (snd (add_lease w (Some (pk_chaddr p)) nip tm host s1))"
    "nip \<noteq> 0 \<longrightarrow> free_for w (own cfg p) s (snd (add_lease w (Some (pk_chaddr p)) nip tm host s1)) nip"
proof -
  have add: "sound_step w (replaced (Some (pk_chaddr p)) nip) s1 (snd (add_lease w (Some (pk_chaddr p)) nip tm host s1))"
    using assms(1) by (intro add_lease_sound) (auto simp: slack_clear_def wf_packet_def)
  show "sound_step w (own cfg p) s (snd (add_lease w (Some (pk_chaddr p)) nip tm host s1))"
    by (rule sound_step_replace[OF assms(2) add assms(3)]) (auto simp: own_def)
  show "nip \<noteq> 0 \<longrightarrow> free_for w (own cfg p) s (snd (add_lease w (Some (pk_chaddr p)) nip tm host s1)) nip"
    using assms(3) free_for_later[OF _ sound_step_ticks[OF add]] by blast
qed

lemma offer_nip_ok:
  assumes "slack_clear p" "wf_table (g_leases s)" "end_ip cfg \<noteq> 0xffffffff"
    "lease = map_option Dyn (find_lease_by_mac (pk_chaddr p) s)"
  shows "\<exists>nip s1. offer_nip w cfg p lease s = Some (nip, s1) \<and> sound_step w (own cfg p) s s1 \<and>
    (nip \<noteq> 0 \<longrightarrow> free_for w (own cfg p) s s1 nip)"
proof -
  have sub: "sound_step w no_lease a b \<Longrightarrow> sound_step w (own cfg p) a b" for a b
    by (erule sound_step_mono) (simp add: no_lease_def)
  have search: "\<exists>nip s1. find_free_or_expired_nip w cfg (pk_chaddr p) s0 = Some (nip, s1) \<and>
      sound_step w (own cfg p) s s1 \<and> (nip \<noteq> 0 \<longrightarrow> free_for w (own cfg p) s s1 nip)"
    if s0: "sound_step w (own cfg p) s s0" "wf_table (g_leases s0)" for s0
  proof -
    obtain nip s1 where f: "find_free_or_expired_nip w cfg (pk_chaddr p) s0 = Some (nip, s1)"
      "sound_step w no_lease s0 s1" "nip \<noteq> 0 \<longrightarrow> free_for w no_lease s0 s1 nip"
      using find_free_sound[OF assms(3) s0(2)] by blast
    show ?thesis
      using f sound_step_trans[OF s0(1) sub[OF f(2)]] free_for_mono
        free_for_step[OF s0(1) _ sound_step_ticks[OF f(2)]] by blast
  qed
  show ?thesis
  proof (cases "find_lease_by_mac (pk_chaddr p) s")
    case (Some i)
    then show ?thesis
      using own_free[OF assms(2), of i p w cfg s] find_by_mac[OF Some] assms(4) by (simp add: offer_nip_def)
  next
    case None
    then have lease: "lease = None" using assms(4) by simp
    obtain r where r: "udhcp_get_option p DHCP_REQUESTED_IP = Some r" "\<And>q. r = Some q \<Longrightarrow> q \<le> 505"
      using get_option_safe[OF assms(1)] by blast
    show ?thesis
    proof (cases r)
      case None
      then show ?thesis using r search[OF _ assms(2)] lease by (simp add: offer_nip_def)
    next
      case (Some q)
      obtain req where req: "rd32 (packet_tail p) q = Some req"
        using rd32_safe[OF assms(1)] r(2)[OF Some] by blast
      let ?in = "start_ip cfg \<le> htonl req \<and> htonl req \<le> end_ip cfg"
      let ?s1 = "s\<lparr>ticks := Suc (ticks s)\<rparr>"
      consider "\<not> ?in" | (new) ?in "find_lease_by_nip req s = None" | (old) i where ?in "find_lease_by_nip req s = Some i"
        by blast
      then show ?thesis
      proof cases
        case 1
        then have "offer_nip w cfg p lease s = find_free_or_expired_nip w cfg (pk_chaddr p) s"
          using r(1) Some req lease by (auto simp: offer_nip_def)
        then show ?thesis using search[OF _ assms(2)] by simp
      next
        case new
        then have "offer_nip w cfg p lease s = Some (req, s)" using r(1) Some req lease by (simp add: offer_nip_def)
        moreover have "free_for w (own cfg p) s s req" using find_by_nip_None[OF new(2)] by (auto simp: free_for_def)
        ultimately show ?thesis by simp
      next
        case (old i)
        note i = find_by_nip[OF old(2)]
        show ?thesis
        proof (cases "expires (g_leases s ! i) < w_time w (ticks s)")
          case True
          then have "offer_nip w cfg p lease s = Some (req, ?s1)"
            using r(1) Some req lease old by (simp add: offer_nip_def is_expired_lease_def time_now_def)
          moreover have "req \<noteq> 0 \<longrightarrow> free_for w (own cfg p) s ?s1 req"
            using expired_free[OF assms(2), of i w "ticks s" ?s1 "own cfg p"] i True by simp
          ultimately show ?thesis using sound_step_tick by blast
        next
          case False
          then have "offer_nip w cfg p lease s = find_free_or_expired_nip w cfg (pk_chaddr p) ?s1"
            using r(1) Some req lease old by (simp add: offer_nip_def is_expired_lease_def time_now_def)
          then show ?thesis using search[OF sound_step_tick] assms(2) by simp
        qed
      qed
    qed
  qed
qed

definition good_config :: "server_config \<Rightarrow> bool" where
  "good_config cfg \<longleftrightarrow> end_ip cfg \<noteq> 0xffffffff \<and> list_all good_option (server_options cfg)"

definition lease_of :: "server_config \<Rightarrow> dhcp_packet \<Rightarrow> server \<Rightarrow> lease_ref option" where
  "lease_of cfg p s = (let static_nip = get_static_nip_by_mac (static_leases cfg) (pk_chaddr p) in
     if static_nip \<noteq> 0 then Some (Fake static_nip) else map_option Dyn (find_lease_by_mac (pk_chaddr p) s))"

abbreviation static_nip_of :: "server_config \<Rightarrow> dhcp_packet \<Rightarrow> u32" where
  "static_nip_of cfg p \<equiv> get_static_nip_by_mac (static_leases cfg) (pk_chaddr p)"

lemma outcome_none: "sound_step w (own cfg p) s s' \<Longrightarrow> outcome w cfg p s ([], s')"
  by (simp add: outcome_def)

lemma outcome_no_address:
  "pk_chaddr r = pk_chaddr p \<Longrightarrow> pk_yiaddr r = 0 \<Longrightarrow> outcome w cfg p s ([(d, r)], s)"
  by (simp add: outcome_def)

lemma slack_clear_wf: "slack_clear p \<Longrightarrow> wf_packet p"
  by (simp add: slack_clear_def)

lemma send_offer_ok:
  assumes p: "slack_clear p" and wf: "wf_table (g_leases s)" and cfg: "good_config cfg"
  shows "\<exists>res. send_offer w cfg p (static_nip_of cfg p) (lease_of cfg p s) s = Some res \<and> outcome w cfg p s res"
proof -
  have opts: "list_all good_option (server_options cfg)" using cfg by (simp add: good_config_def)
  obtain q where q: "init_packet cfg p DHCPOFFER = Some q" "answer_to q q" "pk_chaddr q = pk_chaddr p"
    using init_packet_answer[OF slack_clear_wf[OF p]] by blast
  note finish = finish_offer_ok[OF p q(2) opts]
  show ?thesis
  proof (cases "static_nip_of cfg p = 0")
    case False
    obtain d r where "finish_offer cfg p (q\<lparr>pk_yiaddr := static_nip_of cfg p\<rparr>) = Some (d, r)" "pk_chaddr r = pk_chaddr q"
      using finish by blast
    then show ?thesis using False q by (simp add: send_offer_def outcome_def)
  next
    case True
    have "lease_of cfg p s = map_option Dyn (find_lease_by_mac (pk_chaddr p) s)" using True by (simp add: lease_of_def)
    then obtain nip s1 where nip: "offer_nip w cfg p (lease_of cfg p s) s = Some (nip, s1)"
      "sound_step w (own cfg p) s s1" "nip \<noteq> 0 \<longrightarrow> free_for w (own cfg p) s s1 nip"
      using offer_nip_ok[OF p wf] cfg by (metis good_config_def)
    obtain host where host: "opt_value p DHCP_HOST_NAME = Some host" using opt_value_safe[OF p] ..
    let ?a = "add_lease w (Some (pk_chaddr p)) nip (offer_time cfg) host s1"
    note add = add_lease_outcome[OF p nip(2,3), of "offer_time cfg" host]
    have eq: "send_offer w cfg p (static_nip_of cfg p) (lease_of cfg p s) s =
        (if nip = 0 then Some ([], s1) else if fst ?a = None then Some ([], snd ?a)
         else do { r \<leftarrow> finish_offer cfg p (q\<lparr>pk_yiaddr := nip\<rparr>); Some ([r], snd ?a) })"
      using True q nip(1) host by (simp add: send_offer_def split_beta Let_def)
    consider "nip = 0" | "nip \<noteq> 0" "fst ?a = None" | (sent) "nip \<noteq> 0" "fst ?a \<noteq> None" by blast
    then show ?thesis
    proof cases
      case 1
      then show ?thesis using eq nip(2) outcome_none by simp
    next
      case 2
      then show ?thesis using eq add(1) outcome_none by simp
    next
      case sent
      obtain d r where r: "finish_offer cfg p (q\<lparr>pk_yiaddr := nip\<rparr>) = Some (d, r)" "pk_yiaddr r = nip"
        "pk_chaddr r = pk_chaddr p" using finish q(3) by metis
      then show ?thesis
        using eq sent add add_lease_recorded[OF sent(2)] by (simp add: outcome_def granted_def)
    qed
  qed
qed

lemma send_ACK_ok:
  assumes p: "slack_clear p" and wf: "wf_table (g_leases s)" and cfg: "good_config cfg"
    and lease: "lease_of cfg p s = Some r"
  shows "\<exists>res. send_ACK w cfg p (ref_nip s r) s = Some res \<and> outcome w cfg p s res"
proof -
  have opts: "list_all good_option (server_options cfg)" using cfg by (simp add: good_config_def)
  let ?nip = "ref_nip s r"
  obtain q where q: "init_packet cfg p DHCPACK = Some q" "answer_to q q" "pk_chaddr q = pk_chaddr p"
    using init_packet_answer[OF slack_clear_wf[OF p]] by blast
  obtain t where t: "select_lease_time cfg p = Some t" using lease_time_safe[OF p] ..
  obtain host where host: "opt_value p DHCP_HOST_NAME = Some host" using opt_value_safe[OF p] ..
  obtain d m where "finish_offer cfg p (q\<lparr>pk_yiaddr := ?nip\<rparr>) = Some (d, m)" "pk_yiaddr m = ?nip" "pk_chaddr m = pk_chaddr p"
    using finish_offer_ok[OF p q(2) opts] q(3) by metis
  then obtain q1 q2 where q2: "udhcp_add_simple_option (q\<lparr>pk_yiaddr := ?nip\<rparr>) DHCP_LEASE_TIME (htonl t) = Some q1"
    "add_server_options cfg q1 = Some q2" "send_packet q2 False = (d, m)" "m = q2"
    using t by (auto simp: finish_offer_def bind_Some_iff send_packet_def send_packet_to_relay_def
        send_packet_to_client_def split: if_splits)
  have m: "pk_yiaddr q2 = ?nip" "pk_chaddr q2 = pk_chaddr p"
    using \<open>m = q2\<close> \<open>pk_yiaddr m = ?nip\<close> \<open>pk_chaddr m = pk_chaddr p\<close> by simp_all
  let ?a = "add_lease w (Some (pk_chaddr p)) ?nip t host s"
  have eq: "send_ACK w cfg p ?nip s = Some ([(d, q2)], snd ?a)"
    using q t host q2 m by (simp add: send_ACK_def)
  have free: "?nip \<noteq> 0 \<longrightarrow> free_for w (own cfg p) s s ?nip"
    using lease own_free[OF wf, of _ p w cfg s] find_by_mac[of "pk_chaddr p" s]
    by (auto simp: lease_of_def Let_def free_for_def own_def split: if_splits)
  note add = add_lease_outcome[OF p sound_step_refl free, of t host]
  have "fst ?a \<noteq> None" if st: "static_nip_of cfg p = 0" and clk: "w_time w (ticks s) \<noteq> 0"
  proof -
    obtain i where "find_lease_by_mac (pk_chaddr p) s = Some i" using lease st by (auto simp: lease_of_def Let_def)
    from find_by_mac[OF this] show ?thesis using add_lease_room[OF cleared_own] clk by blast
  qed
  then show ?thesis
    using eq m add add_lease_recorded[of w "pk_chaddr p" ?nip t host s] by (simp add: outcome_def granted_def)
qed

lemma unique_on_same:
  assumes "unique_on f z xs" "f y = f (xs ! i)"
  shows "unique_on f z (xs[i := y])"
proof -
  have "f (xs[i := y] ! j) = f (xs ! j)" if "j < length xs" for j
    using that assms(2) by (cases "i = j") simp_all
  then show ?thesis using assms(1) by (simp add: unique_on_def)
qed

lemma set_lease_sound:
  assumes i: "i < length (g_leases s)" and mac: "lease_mac (g_leases s ! i) = take 6 (pk_chaddr p)"
    and y: "lease_nip y = lease_nip (g_leases s ! i)" "lease_hostname y = lease_hostname (g_leases s ! i)"
      "lease_mac y = lease_mac (g_leases s ! i) \<or> lease_mac y = replicate 6 0"
  shows "sound_step w (own cfg p) s (s\<lparr>ticks := Suc (ticks s), g_leases := (g_leases s)[i := y]\<rparr>)"
proof -
  have "l \<in> set ((g_leases s)[i := y])" if "l \<in> set (g_leases s)" "\<not> own cfg p l" for l
  proof -
    have "g_leases s ! i \<noteq> l" using that(2) mac by (auto simp: own_def)
    then show ?thesis by (rule mem_update[OF that(1)])
  qed
  moreover have "wf_table ((g_leases s)[i := y])" if wf: "wf_table (g_leases s)"
  proof -
    have "wf_lease (g_leases s ! i)" using wf i by (simp add: wf_table_def list_all_length)
    then have "wf_lease y" using y by (auto simp: wf_lease_def)
    moreover have "unique_on lease_mac (replicate 6 0) ((g_leases s)[i := y])"
      using y(3) wf unique_on_same[of lease_mac] unique_on_update[of lease_mac] by (metis wf_table_def)
    ultimately show ?thesis
      using wf y(1) unique_on_same[of lease_nip] set_update_subset_insert[of "g_leases s" i y]
      by (auto simp: wf_table_def list_all_iff)
  qed
  ultimately show ?thesis by (simp add: sound_step_def keeps_def)
qed

lemma lease_of_Dyn:
  "lease_of cfg p s = Some (Dyn i) \<Longrightarrow> i < length (g_leases s) \<and> lease_mac (g_leases s ! i) = take 6 (pk_chaddr p)"
  using find_by_mac[of "pk_chaddr p" s] by (auto simp: lease_of_def Let_def split: if_splits)

lemma decline_sound:
  assumes "lease_of cfg p s = Some r"
  shows "sound_step w (own cfg p) s (decline_lease w cfg r s)"
proof (cases r)
  case (Fake nip)
  then show ?thesis by (simp add: decline_lease_def time_now_def sound_step_tick)
next
  case (Dyn i)
  then have i: "i < length (g_leases s)" "lease_mac (g_leases s ! i) = take 6 (pk_chaddr p)"
    using lease_of_Dyn assms by blast+
  then show ?thesis
    using set_lease_sound[OF i, of "(g_leases s ! i)\<lparr>lease_mac := replicate 6 0,
        expires := w_time w (ticks s) + decline_time cfg\<rparr>"] Dyn
    by (simp add: decline_lease_def time_now_def)
qed

lemma release_sound:
  assumes "lease_of cfg p s = Some r"
  shows "sound_step w (own cfg p) s (release_lease w r s)"
proof (cases r)
  case (Fake nip)
  then show ?thesis by (simp add: release_lease_def time_now_def sound_step_tick)
next
  case (Dyn i)
  then have i: "i < length (g_leases s)" "lease_mac (g_leases s ! i) = take 6 (pk_chaddr p)"
    using lease_of_Dyn assms by blast+
  then show ?thesis
    using set_lease_sound[OF i, of "(g_leases s ! i)\<lparr>expires := w_time w (ticks s)\<rparr>"] Dyn
    by (simp add: release_lease_def time_now_def)
qed

lemma send_NAK_ok:
  assumes "slack_clear p"
  shows "\<exists>d r. send_NAK cfg p = Some (d, r) \<and> pk_chaddr r = pk_chaddr p \<and> pk_yiaddr r = 0"
  using init_packet_answer[OF slack_clear_wf[OF assms], of cfg DHCPNAK]
  by (auto simp: send_NAK_def send_packet_def send_packet_to_relay_def send_packet_to_client_def)

lemma send_inform_ok:
  assumes "slack_clear p" "good_config cfg"
  shows "\<exists>d r. send_inform cfg p = Some (d, r) \<and> pk_chaddr r = pk_chaddr p \<and> pk_yiaddr r = 0"
proof -
  obtain q where q: "init_packet cfg p DHCPACK = Some q" "answer_to q q" "pk_chaddr q = pk_chaddr p" "pk_yiaddr q = 0"
    using init_packet_answer[OF slack_clear_wf[OF assms(1)]] by blast
  then obtain q' where "add_server_options cfg q = Some q'" "answer_to q q'"
    using server_options_answer[OF q(2), of cfg] assms(2) by (auto simp: good_config_def)
  then show ?thesis
    using q by (auto simp: send_inform_def send_packet_def send_packet_to_relay_def send_packet_to_client_def answer_to_def)
qed

lemma dispatch_ok:
  assumes p: "slack_clear p" and wf: "wf_table (g_leases s)" and cfg: "good_config cfg"
  shows "\<exists>res. dispatch w cfg p state (static_nip_of cfg p) (lease_of cfg p s) sid req s = Some res
    \<and> outcome w cfg p s res"
proof -
  have idle: "outcome w cfg p s ([], s)" by (rule outcome_none[OF sound_step_refl])
  obtain d r where nak: "send_NAK cfg p = Some (d, r)" "outcome w cfg p s ([(d, r)], s)"
    using send_NAK_ok[OF p, of cfg] outcome_no_address by blast
  obtain d' r' where inform: "send_inform cfg p = Some (d', r')" "outcome w cfg p s ([(d', r')], s)"
    using send_inform_ok[OF p cfg] outcome_no_address by blast
  define ok where "ok m \<longleftrightarrow> (\<exists>res. m = Some res \<and> outcome w cfg p s res)" for m
  have ok_if: "(b \<Longrightarrow> ok m) \<Longrightarrow> (\<not> b \<Longrightarrow> ok n) \<Longrightarrow> ok (if b then m else n)" for b m n by simp
  have oks: "ok (Some ([], s))" "ok (map_option (\<lambda>r. ([r], s)) (send_NAK cfg p))"
    "ok (map_option (\<lambda>r. ([r], s)) (send_inform cfg p))"
    "ok (send_offer w cfg p (static_nip_of cfg p) (lease_of cfg p s) s)"
    using idle nak inform send_offer_ok[OF p wf cfg, of w] by (simp_all add: ok_def)
  have leased: "ok (send_ACK w cfg p (ref_nip s (the (lease_of cfg p s))) s)"
    "ok (Some ([], decline_lease w cfg (the (lease_of cfg p s)) s))"
    "ok (Some ([], release_lease w (the (lease_of cfg p s)) s))" if "lease_of cfg p s \<noteq> None"
  proof -
    obtain r where r: "lease_of cfg p s = Some r" using \<open>lease_of cfg p s \<noteq> None\<close> by blast
    show "ok (send_ACK w cfg p (ref_nip s (the (lease_of cfg p s))) s)"
      "ok (Some ([], decline_lease w cfg (the (lease_of cfg p s)) s))"
      "ok (Some ([], release_lease w (the (lease_of cfg p s)) s))"
      using send_ACK_ok[OF p wf cfg r, of w] outcome_none[OF decline_sound[OF r]] outcome_none[OF release_sound[OF r]]
      by (simp_all add: ok_def r)
  qed
  have "ok (dispatch w cfg p state (static_nip_of cfg p) (lease_of cfg p s) sid req s)"
    unfolding dispatch_def Let_def by (intro ok_if oks leased) simp_all
  then show ?thesis by (simp add: ok_def)
qed

lemma handle_ok:
  assumes p: "slack_clear p" and wf: "wf_table (g_leases s)" and cfg: "good_config cfg"
  shows "\<exists>res. handle_packet w cfg p s = Some res \<and> outcome w cfg p s res"
proof -
  have idle: "outcome w cfg p s ([], s)" by (rule outcome_none[OF sound_step_refl])
  obtain st where st: "udhcp_get_option p DHCP_MESSAGE_TYPE = Some st" "\<And>q. st = Some q \<Longrightarrow> q \<le> 505"
    using get_option_safe[OF p] by blast
  obtain sid req where ids: "requested p DHCP_SERVER_ID = Some sid" "requested p DHCP_REQUESTED_IP = Some req"
    using requested_safe[OF p] by metis
  have eq: "(if static_nip_of cfg p \<noteq> 0 then Some (Fake (static_nip_of cfg p))
      else map_option Dyn (find_lease_by_mac (pk_chaddr p) s)) = lease_of cfg p s"
    by (simp add: lease_of_def)
  show ?thesis
  proof (cases st)
    case None
    then show ?thesis using st(1) idle by (simp add: handle_packet_def)
  next
    case (Some q)
    have "rd (packet_tail p) q = Some (packet_tail p ! q)"
      using st(2)[OF Some] length_packet_tail[OF slack_clear_wf[OF p]] by (intro rd_in) simp
    then show ?thesis
      using st(1) Some ids idle dispatch_ok[OF p wf cfg, of w]
      unfolding handle_packet_def Let_def eq by simp
  qed
qed

subsection \<open>The server\<close>

definition short_input :: "u8 list option \<Rightarrow> bool" where
  \<comment> \<open>A read error or a datagram that leaves the slack of the options field alone.\<close>
  "short_input input \<longleftrightarrow> (case input of None \<Rightarrow> True | Some d \<Rightarrow> length d \<le> DHCP_SIZE)"

lemma serve_handles:
  assumes "short_input input" "wf_table (g_leases s)" "good_config cfg"
    "udhcp_recv_kernel_packet input = Some (n, p)"
  shows "\<exists>res. serve w cfg input s = Some res \<and> outcome w cfg p s res"
proof -
  have "slack_clear p" using recv_safe[of input] assms(1,4) by (cases input) (auto simp: short_input_def)
  then show ?thesis
    using handle_ok[OF _ assms(2,3), of p w] outcome_none[OF sound_step_refl] assms(4) by (auto simp: serve_def)
qed

lemma serve_outcome:
  assumes "short_input input" "wf_table (g_leases s)" "good_config cfg"
    "udhcp_recv_kernel_packet input = Some (n, p)" "serve w cfg input s = Some res"
  shows "outcome w cfg p s res"
  using serve_handles[OF assms(1-4), of w] assms(5) by simp

lemma serve_ok:
  assumes "short_input input" "wf_table (g_leases s)" "good_config cfg"
  shows "\<exists>p res. serve w cfg input s = Some res \<and> outcome w cfg p s res"
  using recv_safe[of input] serve_handles[OF assms] assms(1) by (cases input) (fastforce simp: short_input_def)+

interpretation dhcp: guarded "\<lambda>s. good_config cfg \<and> wf_table (g_leases s) \<and> length (g_leases s) = n" short_input "serve w cfg"
  for cfg w n
proof (unfold_locales, elim conjE)
  fix s :: server and input assume s: "good_config cfg" "wf_table (g_leases s)" "length (g_leases s) = n" and "short_input input"
  then obtain p out s' where "serve w cfg input s = Some (out, s')" "outcome w cfg p s (out, s')"
    using serve_ok by (metis surj_pair)
  then show "\<exists>r s'. serve w cfg input s = Some (r, s') \<and>
      good_config cfg \<and> wf_table (g_leases s') \<and> length (g_leases s') = n"
    using s by (auto simp: outcome_def sound_step_def keeps_def)
qed

lemma start_server_ok:
  assumes "start_server w cfg0 file = Some (cfg, s)" "good_config cfg0"
  shows "good_config cfg \<and> wf_table (g_leases s) \<and> length (g_leases s) = unat (max_leases cfg)"
proof -
  have "wf_table (replicate k zero_lease)" for k by (simp add: wf_table_def list_all_iff unique_on_def)
  then show ?thesis
    using assms read_leases_wf by (auto simp: start_server_def bind_Some_iff good_config_def Let_def)
qed

text \<open>C38. The server never leaves its arrays and never loops for ever: started on any configuration
  whose last address is not 255.255.255.255 and whose options are well formed, and on any lease
  file, it answers any
  sequence of datagrams of at most 548 bytes (and read errors), whatever their bytes, whatever
  the clock shows and whoever answers the ARP probes; and after all of them no address other than
  0.0.0.0 and no client other than 00:00:00:00:00:00 stands twice in the lease table.\<close>

theorem dhcp_server_total:
  assumes "start_server w cfg0 file = Some (cfg, s)" "good_config cfg0" "list_all short_input inputs"
  shows "\<exists>outs s'. run_steps (serve w cfg) inputs s = Some (outs, s') \<and> wf_table (g_leases s')
    \<and> length (g_leases s') = unat (max_leases cfg)"
  using dhcp.run_ok[of cfg s "unat (max_leases cfg)" inputs w] start_server_ok[OF assms(1,2)] assms(3) by auto

definition sample_config :: server_config where
  \<comment> \<open>10.0.0.20 to 10.0.0.21, one option (the subnet mask) and two leases.\<close>
  "sample_config = \<lparr>server_nip = 0x0100000a, server_options = [[1, 4, 0xff, 0xff, 0xff, 0]],
     start_ip = 0x0a000014, end_ip = 0x0a000015, max_lease_sec = 0, min_lease_sec = 60, max_leases = 2,
     decline_time = 3600, conflict_time = 3600, offer_time = 60, config_siaddr_nip = 0,
     config_sname = None, config_boot_file = None, static_leases = []\<rparr>"

lemma sample_start:
  "start_server w sample_config None =
     Some (sample_config\<lparr>max_lease_sec := DEFAULT_LEASE_TIME\<rparr>, \<lparr>g_leases = replicate 2 zero_lease, ticks = 0\<rparr>)"
  by (simp add: start_server_def sample_config_def read_leases_def)

lemma sample_good: "good_config sample_config"
  by (simp add: good_config_def good_option_def sample_config_def)

theorem dhcp_server_total_witness:
  "\<exists>outs s'. run_steps (serve \<lparr>w_time = \<lambda>_. 1000, w_arpping = \<lambda>_ _ _. True\<rparr>
      (sample_config\<lparr>max_lease_sec := DEFAULT_LEASE_TIME\<rparr>)) [None, Some (replicate 548 1), Some []]
      \<lparr>g_leases = replicate 2 zero_lease, ticks = 0\<rparr> = Some (outs, s') \<and> wf_table (g_leases s')"
  using dhcp_server_total[OF sample_start sample_good, of "[None, Some (replicate 548 1), Some []]"
      "\<lparr>w_time = \<lambda>_. 1000, w_arpping = \<lambda>_ _ _. True\<rparr>"]
  by (auto simp: short_input_def)

end
