(* ===== verification/Dhcp_Restart.thy ===== *)
theory Dhcp_Restart
  imports Dhcp_Service
begin

text \<open>
  A restart of the DHCP server: what the lease file written by one run restores in the table of
  the next.
\<close>

unbundle bit_operations_syntax

subsection \<open>Reading back\<close>

definition restorable :: "server_config \<Rightarrow> u32 \<Rightarrow> u32 \<Rightarrow> dyn_lease \<Rightarrow> bool" where
  "restorable cfg t t' l \<longleftrightarrow> start_ip cfg \<le> htonl (lease_nip l) \<and> htonl (lease_nip l) \<le> end_ip cfg \<and>
     \<not> remaining t t' l \<le>s 0"

lemma read_loop_lease:
  assumes "wf_lease l" "ucast passed = t' - t"
  shows "read_leases_loop w cfg passed (lease_bytes t l @ rest) s =
    (if restorable cfg t t' l then
       case add_lease w (Some (lease_mac l)) (lease_nip l) (remaining t t' l) (Some (lease_hostname l)) s of
         (None, s) \<Rightarrow> s
       | (Some _, s) \<Rightarrow> read_leases_loop w cfg passed rest s
     else read_leases_loop w cfg passed rest s)"
  using lease_of_lease_bytes[OF assms(1), of t] length_lease_bytes[OF assms(1), of t] assms(2)
  by (subst read_leases_loop.simps) (simp add: restorable_def remaining_def Let_def)

definition restored :: "server_config \<Rightarrow> u32 \<Rightarrow> u32 \<Rightarrow> nat \<Rightarrow> dyn_lease list \<Rightarrow> dyn_lease list \<Rightarrow> bool" where
  \<comment> \<open>The table after the leases of the file were read: besides empty entries, only such leases.\<close>
  "restored cfg t t' n ls tab \<longleftrightarrow> length tab = n \<and>
     (\<forall>x \<in> set tab. x = zero_lease \<or> x \<in> set ls \<and> t' < expires x) \<and>
     (\<forall>x \<in> set ls. restorable cfg t t' x \<longrightarrow> lease_mac x \<noteq> replicate 6 0 \<longrightarrow> x \<in> set tab) \<and>
     length (filter (\<lambda>x. x \<noteq> zero_lease) tab) \<le> length ls"

lemma filter_update: "length (filter P (xs[i := y])) \<le> Suc (length (filter P xs))"
proof (cases "i < length xs")
  case True
  then have "xs[i := y] = take i xs @ y # drop (Suc i) xs" by (rule upd_conv_take_nth_drop)
  moreover have "length (filter P (take i xs)) + length (filter P (drop (Suc i) xs)) \<le> length (filter P xs)"
  proof -
    have "filter P xs = filter P (take i xs) @ filter P (drop i xs)"
      by (metis append_take_drop_id filter_append)
    moreover have "length (filter P (drop (Suc i) xs)) \<le> length (filter P (drop i xs))"
      by (simp add: Cons_nth_drop_Suc[OF True, symmetric])
    ultimately show ?thesis by simp
  qed
  ultimately show ?thesis by simp
next
  case False
  then show ?thesis by (simp add: list_update_beyond)
qed

lemma filter_map_le: "(\<And>x. P (f x) \<Longrightarrow> P x) \<Longrightarrow> length (filter P (map f xs)) \<le> length (filter P xs)"
  by (induction xs) auto

lemma all_restorable:
  assumes "restored cfg t t' n ls (g_leases s)" "length ls < n"
    and l: "wf_lease l" "lease_nip l \<noteq> 0" "restorable cfg t t' l"
    and new: "\<forall>x \<in> set ls. lease_nip x \<noteq> lease_nip l \<and> (lease_mac x = lease_mac l \<longrightarrow> lease_mac l = replicate 6 0)"
    and t: "t \<le> t'" "t' - t \<le> 43200" "t' < 2 ^ 31" "t' \<noteq> 0" and w: "\<And>k. w_time w k = t'"
  shows "\<exists>i s'. add_lease w (Some (lease_mac l)) (lease_nip l) (remaining t t' l) (Some (lease_hostname l)) s = (Some i, s')
    \<and> restored cfg t t' n (ls @ [l]) (g_leases s')"
proof -
  let ?cl = "g_leases (clear_leases (Some (lease_mac l)) (lease_nip l) s)"
  let ?gone = "replaced (Some (lease_mac l)) (lease_nip l)"
  let ?nz = "filter (\<lambda>x. x \<noteq> zero_lease)"
  have old: "length (g_leases s) = n" "\<And>x. x \<in> set (g_leases s) \<Longrightarrow> x = zero_lease \<or> x \<in> set ls \<and> t' < expires x"
    "\<And>x. x \<in> set ls \<Longrightarrow> restorable cfg t t' x \<Longrightarrow> lease_mac x \<noteq> replicate 6 0 \<Longrightarrow> x \<in> set (g_leases s)"
    "length (?nz (g_leases s)) \<le> length ls"
    using assms(1) by (auto simp: restored_def)
  have mac: "take 6 (lease_mac l) = lease_mac l" and host: "lease_host (Some (lease_hostname l)) = lease_hostname l"
    using l(1) by (simp_all add: wf_lease_def host_ok_def)
  have cl: "?cl = map (\<lambda>x. if ?gone x then zero_lease else x) (g_leases s)" by (simp add: clear_leases_replaced)
  have cl_in: "x = zero_lease \<or> x \<in> set ls \<and> t' < expires x" if "x \<in> set ?cl" for x
    using that old(2) by (auto simp: cl)
  have cl_keep: "x \<in> set ?cl" if x: "x \<in> set ls" "restorable cfg t t' x" "lease_mac x \<noteq> replicate 6 0" for x
  proof -
    have "\<not> ?gone x" using new x(1,3) mac by (auto simp: replaced_def)
    then show ?thesis using old(3)[OF x] by (force simp: cl)
  qed
  have "length (?nz ?cl) \<le> length (?nz (g_leases s))"
    unfolding cl by (rule filter_map_le) (simp split: if_splits)
  then have cl_count: "length (?nz ?cl) \<le> length ls" using old(4) by linarith
  have "zero_lease \<in> set ?cl"
  proof (rule ccontr)
    assume "zero_lease \<notin> set ?cl"
    then have "?nz ?cl = ?cl" by (auto simp: filter_id_conv)
    then show False using cl_count old(1) assms(2) by simp
  qed
  then have room: "fst (add_lease w (Some (lease_mac l)) (lease_nip l) (remaining t t' l) (Some (lease_hostname l)) s) \<noteq> None"
    using add_lease_room w t(4) by simp
  have exp: "t' + remaining t t' l = expires l" "t' < expires l"
    using remaining_pos[OF t(1-3)] l(3) by (simp_all add: restorable_def)
  show ?thesis
  proof (cases rule: add_lease_cases[where w = w and chaddr = "Some (lease_mac l)" and yiaddr = "lease_nip l"
        and tm = "remaining t t' l" and host = "Some (lease_hostname l)" and s = s])
    case none
    then show ?thesis using room by simp
  next
    case (added i)
    have eta: "\<lparr>expires = expires l, lease_nip = lease_nip l, lease_mac = lease_mac l,
        lease_hostname = lease_hostname l\<rparr> = l" by simp
    have free: "?cl ! i = zero_lease" using cl_in[of "?cl ! i"] added(1,2) w by (auto simp: not_less_iff_gr_or_eq)
    have tab: "g_leases (snd (add_lease w (Some (lease_mac l)) (lease_nip l) (remaining t t' l) (Some (lease_hostname l)) s))
        = ?cl[i := l]"
      using added(3) exp(1) by (simp add: w mac host eta)
    have "x \<in> set (?cl[i := l])" if "x \<in> set ?cl" "x \<noteq> zero_lease" for x
      using mem_update[OF that(1), of i l] that(2) free by simp
    moreover have "lease_mac zero_lease = replicate 6 0" by simp
    ultimately have "x \<in> set (?cl[i := l])" if "x \<in> set ls" "restorable cfg t t' x" "lease_mac x \<noteq> replicate 6 0" for x
      using cl_keep[OF that] that(3) by metis
    moreover have "l \<in> set (?cl[i := l])" using added(1) by (intro set_update_memI) simp
    moreover have "x = zero_lease \<or> x \<in> set (ls @ [l]) \<and> t' < expires x" if "x \<in> set (?cl[i := l])" for x
      using that set_update_subset_insert[of ?cl i l] cl_in exp(2) by auto
    moreover have "length (?nz (?cl[i := l])) \<le> length (ls @ [l])"
      using filter_update[of "\<lambda>x. x \<noteq> zero_lease" ?cl i l] cl_count by simp
    ultimately have "restored cfg t t' n (ls @ [l]) (?cl[i := l])"
      using old(1) by (auto simp: restored_def)
    then show ?thesis using tab added(3) by (metis prod.collapse fst_conv)
  qed
qed

definition apart :: "dyn_lease \<Rightarrow> dyn_lease \<Rightarrow> bool" where
  "apart x l \<longleftrightarrow> (lease_nip l \<noteq> 0 \<longrightarrow> lease_nip x \<noteq> lease_nip l)
     \<and> (lease_mac x = lease_mac l \<longrightarrow> lease_mac l = replicate 6 0)"

lemma wf_table_apart:
  assumes "wf_table ls"
  shows "sorted_wrt apart ls"
  unfolding sorted_wrt_iff_nth_less
proof (intro allI impI)
  fix i j assume ij: "i < j" "j < length ls"
  have "unique_on lease_nip 0 ls" "unique_on lease_mac (replicate 6 0) ls" using assms by (simp_all add: wf_table_def)
  from unique_onD[OF this(1), of i j] unique_onD[OF this(2), of i j]
  show "apart (ls ! i) (ls ! j)" using ij by (auto simp: apart_def)
qed

lemma read_loop_restored:
  assumes "restored cfg t t' n ds (g_leases s)" "length (ds @ ls) \<le> n" "sorted_wrt apart (ds @ ls)"
    "list_all (\<lambda>l. wf_lease l \<and> lease_nip l \<noteq> 0) ls" "ucast passed = t' - t"
    and t: "t \<le> t'" "t' - t \<le> 43200" "t' < 2 ^ 31" "t' \<noteq> 0" and w: "\<And>k. w_time w k = t'"
  shows "restored cfg t t' n (ds @ ls) (g_leases (read_leases_loop w cfg passed (concat (map (lease_bytes t) ls)) s))"
  using assms(1-4)
proof (induction ls arbitrary: ds s)
  case Nil
  then show ?case by (subst read_leases_loop.simps) simp
next
  case (Cons l ls)
  have l: "wf_lease l" "lease_nip l \<noteq> 0" using Cons.prems(4) by simp_all
  let ?read = "\<lambda>s. read_leases_loop w cfg passed (concat (map (lease_bytes t) ls)) s"
  have IH: "restored cfg t t' n (ds @ l # ls) (g_leases (?read s'))"
    if "restored cfg t t' n (ds @ [l]) (g_leases s')" for s'
    using Cons.IH[OF that] Cons.prems by simp
  show ?case
  proof (cases "restorable cfg t t' l")
    case False
    then have "restored cfg t t' n (ds @ [l]) (g_leases s)" using Cons.prems(1) by (auto simp: restored_def)
    then show ?thesis using IH False read_loop_lease[OF l(1) assms(5)] by simp
  next
    case True
    have new: "\<forall>x \<in> set ds. lease_nip x \<noteq> lease_nip l \<and> (lease_mac x = lease_mac l \<longrightarrow> lease_mac l = replicate 6 0)"
      using Cons.prems(3) l(2) by (auto simp: sorted_wrt_append apart_def)
    obtain i s' where "add_lease w (Some (lease_mac l)) (lease_nip l) (remaining t t' l) (Some (lease_hostname l)) s = (Some i, s')"
      "restored cfg t t' n (ds @ [l]) (g_leases s')"
      using all_restorable[OF Cons.prems(1) _ l True new t w] Cons.prems(2) by auto
    then show ?thesis using IH True read_loop_lease[OF l(1) assms(5)] by simp
  qed
qed

lemma passed_time:
  assumes "t \<le> (t' :: u32)"
  shows "ucast (ucast t' - ucast t :: u64) = t' - t" "(ucast t' - ucast t :: u64) > 43200 \<longleftrightarrow> t' - t > 43200"
proof -
  have up: "unat (ucast x :: u64) = unat x" for x :: u32
  proof -
    have "unat x < 2 ^ 32" using unsigned_less[of x, where 'a = nat] by simp
    then have "unat x < 2 ^ 64" by simp
    then show ?thesis by (subst unsigned_ucast_eq) (simp add: take_bit_nat_eq_self)
  qed
  then have "(ucast t :: u64) \<le> ucast t'" using assms by (simp add: word_le_nat_alt)
  then have "unat (ucast t' - ucast t :: u64) = unat t' - unat t" using up by (simp add: unat_sub)
  moreover have "unat (t' - t) = unat t' - unat t" using assms by (rule unat_sub)
  ultimately have eq: "unat (ucast t' - ucast t :: u64) = unat (t' - t)" by simp
  then show "(ucast t' - ucast t :: u64) > 43200 \<longleftrightarrow> t' - t > 43200" by (simp add: word_less_nat_alt)
  have "unat (ucast (ucast t' - ucast t :: u64) :: u32) = take_bit 32 (unat (t' - t))"
    by (subst unsigned_ucast_eq) (simp add: eq)
  also have "\<dots> = unat (t' - t)"
    using unsigned_less[of "t' - t", where 'a = nat] by (simp add: take_bit_nat_eq_self)
  finally show "ucast (ucast t' - ucast t :: u64) = t' - t" by (simp add: word_unat_eq_iff)
qed

subsection \<open>Restart\<close>


definition sample_lease :: dyn_lease where
  "sample_lease = \<lparr>expires = 5000, lease_nip = 0x1400000a, lease_mac = [2, 0, 0, 0, 0, 7],
     lease_hostname = lease_host None\<rparr>"

lemma sample_lease_wf: "wf_table [sample_lease]"
  using lease_host_ok[of None] by (simp add: wf_table_def unique_on_def sample_lease_def wf_lease_def)


end
