(* ===== verification/Spec2Isabelle.thy ===== *)
theory Spec2Isabelle
  imports Statstool_Stats Statstool_Reader Workloads Hash_Context Shell_Math_Grammar
    Ext2_Badblocks Ext2_Icount_Table Ext2_Round_Trip Uuencode_Roundtrip Dhcp_Exclusive Dhcp_Restart
begin

text \<open>
  Verification library of the fluke-testing repository: tools that measure the power a machine
  draws while tests run on it, the small programs that make the load, and the busybox 1.18.4 that
  the tests in \<open>pm-tests\<close> are run with.

  \<^bold>\<open>How the parts interact.\<close> A test script announces its begin, its runs and its end to the logger
  by UDP messages, through \<open>udp-relay\<close> when it runs on another host; the logger of the meter
  interleaves these tags with its samples; \<open>statstool\<close> reads the log, groups the samples into
  test runs and prints duration, average, deviation and energy of each run and series. The
  workloads (\<open>msr-test\<close>, \<open>memset\<close>, \<open>random\<close> and the applets of busybox) run in between.
  The programs share no state: they communicate by messages, files and exit codes only.

  \<^bold>\<open>Conventions.\<close> Theory \<open>Prelude\<close> fixes them: a record per structure, words for machine integers,
  \<open>None\<close> for undefined behaviour (an access outside an array, a trap) and, where a definition is a
  \<open>partial_function\<close>, for a loop that never ends; errors the code handles are values. Pointers
  into arrays are indices. What the operating system supplies (clock, files, memory contents,
  ARP answers, system calls) is an argument of the definitions.

  \<^bold>\<open>Measuring\<close> (\<open>src/statstool/statstool.c\<close>).
  \<^item> \<open>Double_Arith\<close>: \<open>double\<close> arithmetic as a record of operations; the locale \<open>fp_order\<close> holds
    what the order of the numbers gives, \<open>real_fp\<close> is the exact instance.
  \<^item> \<open>Statstool_Data\<close>: sample lists, \<open>data_analyse\<close>, \<open>calc_average_stddev\<close> with all their output;
    \<open>Statstool_Stats\<close>: averages lie between the extreme samples, the trapezium integral is exact on
    straight lines, the summary is the textbook mean and deviation.
  \<^item> \<open>Statstool\<close>: \<open>parse_timestamp\<close>, the tags, \<open>data_parse\<close>, \<open>main\<close>, with the line buffer and its
    stale bytes; \<open>Statstool_Reader\<close>: the state invariant over any log, the effect of sample lines,
    the form of tagged output, and three places where logs are misread.

  \<^bold>\<open>Workloads.\<close> \<open>Workloads\<close>: \<open>udp-relay.c\<close>, \<open>msr-test.c\<close>, \<open>memset.c\<close>, \<open>random.c\<close>: which messages
  are relayed, how long the children sleep, that they are all signalled, what is written. The loop
  of \<open>killcycles\<close> has fuel; its lemma shows that any amount above 1000000 gives the result.

  \<^bold>\<open>Message digests\<close> (\<open>libbb/hash_md5_sha.c\<close>).
  \<^item> \<open>Block_Feed\<close>: the locale of a hash fed in pieces: any cutting of the message gives the same.
  \<^item> \<open>Md5_Block\<close>, \<open>Sha_Blocks\<close>: the block functions, in all four size builds of MD5, equal to the
    ones of RFC 1321 and FIPS 180-2.
  \<^item> \<open>Hash_Context\<close>: begin, hash, end of the contexts, two interpretations of the locale, and the
    digests as functions of the whole message.

  \<^bold>\<open>Shell arithmetic\<close> (\<open>shell/math.c\<close>). \<open>Shell_Math\<close> is \<open>evaluate_string\<close> with its two stacks.
  Recursion through variables is counted down by a parameter; \<open>Shell_Math_Fuel\<close> proves that the
  number of variables plus two is always enough, so the real recursion ends. \<open>Shell_Math_Stacks\<close> bounds the stacks, and shows where the bound fails;
  \<open>Shell_Math_Grammar\<close> proves that a printed expression evaluates to its value.

  \<^bold>\<open>The ext2 library\<close> (\<open>e2fsprogs/old_e2fsprogs/ext2fs\<close>). \<open>Number_Set\<close> is the interface of a set of
  numbers; \<open>Ext2_Badblocks\<close> (sorted arrays) and \<open>Ext2_Bitmap\<close> (bit arrays) implement it.
  \<open>Ext2_Alloc\<close> searches bitmaps for free numbers. \<open>Ext2_Icount\<close>, \<open>Ext2_Icount_Search\<close> and
  \<open>Ext2_Icount_Table\<close> are the table of link counts, whose interpolation search computes in single
  precision (\<open>Float_Single\<close>); it is proved against its specification with the locale of
  \<open>Simulation\<close>, for at most \<open>2 ^ 24\<close> inodes.
  \<^item> The device: \<open>Unix_Io\<close> is the I/O channel of \<open>unix_io.c\<close> with its cache of eight blocks; a device
    is its bytes and the positions that cannot be read or written. \<open>Unix_Io_View\<close>,
    \<open>Unix_Io_Channel\<close>, \<open>Unix_Io_Plain\<close> prove the operations against the bytes the cache stands for,
    \<open>Unix_Io_Contract\<close> collects them in an interpretation of the locale \<open>contract\<close>. An access
    advances the clock of the cache, an \<open>int\<close>, by at most eight per operation, so the lemmas ask for
    that much room below \<open>2 ^ 31\<close>; closing the file descriptor is taken to succeed.
  \<^item> The filesystem: \<open>Ext2_Filsys\<close> is the record, with its flags, its statistics
    (\<open>alloc_stats.c\<close>), the allocation of a block and the bitmaps on the device (\<open>rw_bitmaps.c\<close>).
    \<open>Ext2_Accounts\<close>: the counts of free blocks agree with the bitmap. \<open>Ext2_Bitmap_Io\<close>: bitmaps that are
    written are read back the same.
  \<^item> A new filesystem: \<open>Ext2_Layout\<close> says which groups have a superblock (\<open>closefs.c\<close>), reserves its
    blocks (\<open>alloc_sb.c\<close>), places the bitmaps and inode tables (\<open>alloc_tables.c\<close>) and checks the
    descriptors (\<open>check_desc.c\<close>); \<open>Ext2_Initialize\<close> is \<open>ext2fs_initialize\<close> (\<open>initialize.c\<close>), whose new
    attempts end because the groups get smaller or the last one becomes full. \<open>Ext2_Format\<close> and
    \<open>Ext2_New\<close>: the new filesystem has its bookkeeping at the front of every group, the bitmap and the
    counts say so, and the check accepts it, without a stride and when a block is left in every group.
    Two lemmas show plans with too few inodes, and with a group that is too small for its tables.
    Machines are little-endian, \<open>long\<close> has 64 bits.
  \<^item> Closing and opening: \<open>Ext2_Super\<close> gives the bytes of the superblock and the descriptors and reads
    them back; \<open>Ext2_Close\<close> is \<open>ext2fs_flush\<close> and \<open>ext2fs_close\<close> (\<open>closefs.c\<close>, \<open>freefs.c\<close>), \<open>Ext2_Open\<close> is
    \<open>ext2fs_open2\<close> (\<open>openfs.c\<close>). \<open>Ext2_Reopen\<close> says what flushing writes to which bytes of the device,
    \<open>Ext2_Round_Trip\<close> that a filesystem that is closed and opened again is the same. The clock of the cache
    has to have room for 514 operations and four for each group: a superblock has 512 words.

  \<^bold>\<open>Encoders\<close> (\<open>libbb/uuencode.c\<close>, \<open>coreutils/uuencode.c\<close>, \<open>coreutils/uudecode.c\<close>). \<open>Uuencode\<close> and
  \<open>Uuencode_Roundtrip\<close>: what is encoded decodes to itself, in both formats.

  \<^bold>\<open>The DHCP server\<close> (\<open>networking/udhcp\<close>).
  \<^item> \<open>Dhcp_Packet\<close>, \<open>Dhcp_Receive\<close>: the message, searching and appending options, receiving
    (\<open>common.c\<close>, \<open>packet.c\<close>).
  \<^item> \<open>Dhcp_Leases\<close>, \<open>Dhcp_Lease_Table\<close>: the lease table and its invariant (\<open>leases.c\<close>,
    \<open>static_leases.c\<close>); \<open>Dhcp_Lease_File\<close>, \<open>Dhcp_Restart\<close>: the lease file, and that a restart keeps
    the leases (\<open>files.c\<close>).
  \<^item> \<open>Dhcp_Server\<close>: the handlers and the loop from the read of a datagram on (\<open>dhcpd.c\<close>);
    \<open>Dhcp_Service\<close>: every sequence of datagrams is served (locale \<open>guarded\<close> of \<open>Simulation\<close>);
    \<open>Dhcp_Exclusive\<close>: no address is given to two clients.
  The clock may advance at every call of \<open>time\<close>: the \<open>n\<close>-th call returns \<open>w_time w n\<close>.

  \<^bold>\<open>Not modelled.\<close> The shell scripts of the tests; output formats beyond format string and
  arguments; raw sockets, signals, daemons and the configuration file of the DHCP server; the rest
  of busybox (about 800 files: editors, archivers, networking and file-system applets, the
  shells \<open>ash\<close> and \<open>hush\<close> themselves), which the repository carries unchanged from its origin.
  \<open>.pc\<close> holds unpatched copies of a few of its files.
\<close>

end
